(* ===== verification/Collector_Prelude.thy ===== *)
theory Collector_Prelude
  imports Complex_Main "HOL-Library.Product_Lexorder" "HOL-Library.Multiset"
begin

text \<open>
  The shared base of the development: the types every component uses, the error values the
  repositories raise, tables as lists of rows with the SQL statements the repositories issue
  (\<open>SELECT ... WHERE\<close>, \<open>UPDATE ... WHERE\<close>, \<open>ORDER BY ... LIMIT\<close>,
  \<open>FOR UPDATE SKIP LOCKED\<close>), and the generic lemmas on them.

  Timestamps are microseconds since the epoch in UTC (\<open>timestamptz\<close> keeps
  microseconds), durations are microseconds, UUIDs are natural numbers (PostgreSQL orders them
  as unsigned 128-bit values), and text whose characters matter is a list of Unicode code points.
\<close>

section \<open>Types\<close>

type_synonym uuid = nat
type_synonym ts = int
type_synonym duration = int
type_synonym ustr = "nat list"

definition ulit :: "string \<Rightarrow> ustr" where
  "ulit s = map of_char s"

text \<open>
  The exceptions of \<open>persistence/postgres/errors.py\<close>, Python's own, the two errors the
  database driver raises for a refused write (\<open>OperationalError\<close> and \<open>OSError\<close>: a broken connection), and those of the artifact store
  (\<open>storage/store.py\<close>, \<open>storage/upload.py\<close>; \<open>ClientError\<close> is the S3 client's) and of
  the dataset releases (\<open>contracts/release.py\<close>) and of the worker runtime (\<open>workers/\<close>).
\<close>

datatype error =
    ValueError | TypeError | KeyError
  | NotFoundError | StaleRevisionError | LeaseNotOwnedError | InvalidTransitionError
  | ConflictError | StaleClaimError | InvalidValueError
  | IntegrityError | DataError
  | StorageError | ArtifactNotFoundError | ArtifactIntegrityError | ArtifactTooLargeError
  | ClientError | UploadBusyError | UploadRetriesExhaustedError
  | ReleaseTransitionError
  | WorkerConfigError | WorkerRuntimeError | InvalidHandlerOutputError | HandlerRegistryError
  | OperationalError | OSError

type_synonym 'a res = "error + 'a"

fun bind_res :: "'a res \<Rightarrow> ('a \<Rightarrow> 'b res) \<Rightarrow> 'b res" where
  "bind_res (Inl e) f = Inl e"
| "bind_res (Inr x) f = f x"

lemma bind_res_eq_Inr [simp]:
  "bind_res m f = Inr y \<longleftrightarrow> (\<exists>x. m = Inr x \<and> f x = Inr y)"
  by (cases m) auto

lemma bind_res_eq_Inl:
  "bind_res m f = Inl e \<longleftrightarrow> m = Inl e \<or> (\<exists>x. m = Inr x \<and> f x = Inl e)"
  by (cases m) auto

text \<open>Forget what an operation returns and keep the state it leaves.\<close>

fun drop_ret :: "('a \<times> 's) res \<Rightarrow> 's res" where
  "drop_ret (Inl e) = Inl e"
| "drop_ret (Inr (_, s)) = Inr s"

lemma drop_ret_eq_Inr [simp]: "drop_ret r = Inr s \<longleftrightarrow> (\<exists>x. r = Inr (x, s))"
  by (cases r rule: drop_ret.cases) auto

text \<open>Micro-seconds in a second: \<open>timedelta(seconds=n)\<close> is \<open>n * second\<close>.\<close>

definition second :: int where
  "second = 1000000"

lemma second_pos [simp]: "0 < second"
  by (simp add: second_def)

named_theorems op_defs "definitions of the operations of a component"
named_theorems tbl_simps "what a statement does to the tables"

section \<open>Tables\<close>

definition upd_where :: "('r \<Rightarrow> bool) \<Rightarrow> ('r \<Rightarrow> 'r) \<Rightarrow> 'r list \<Rightarrow> 'r list" where
  "upd_where p f rows = map (\<lambda>r. if p r then f r else r) rows"

definition order_limit :: "('r \<Rightarrow> 'k::linorder) \<Rightarrow> nat \<Rightarrow> 'r list \<Rightarrow> 'r list" where
  "order_limit k n rows = take n (sort_key k rows)"

lemma length_upd_where [simp]: "length (upd_where p f rows) = length rows"
  by (simp add: upd_where_def)

lemma upd_where_Nil [simp]: "upd_where p f [] = []"
  by (simp add: upd_where_def)

lemma upd_where_Cons [simp]:
  "upd_where p f (r # rows) = (if p r then f r else r) # upd_where p f rows"
  by (simp add: upd_where_def)

lemma upd_where_append [simp]:
  "upd_where p f (xs @ ys) = upd_where p f xs @ upd_where p f ys"
  by (simp add: upd_where_def)

lemma set_upd_where:
  "set (upd_where p f rows) = {r \<in> set rows. \<not> p r} \<union> f ` {r \<in> set rows. p r}"
  by (auto simp: upd_where_def)

lemma upd_where_none: "\<forall>r\<in>set rows. \<not> p r \<Longrightarrow> upd_where p f rows = rows"
  by (induction rows) auto

lemma map_upd_where:
  "(\<And>r. p r \<Longrightarrow> key (f r) = key r) \<Longrightarrow> map key (upd_where p f rows) = map key rows"
  by (induction rows) auto

lemma list_all_upd_where:
  assumes "list_all ok rows" and "\<And>r. r \<in> set rows \<Longrightarrow> ok r \<Longrightarrow> p r \<Longrightarrow> ok (f r)"
  shows "list_all ok (upd_where p f rows)"
  using assms by (auto simp: list_all_iff upd_where_def)

lemma find_upd_where:
  assumes "\<And>r. p r \<Longrightarrow> q (f r) = q r"
  shows "find q (upd_where p f rows) = map_option (\<lambda>r. if p r then f r else r) (find q rows)"
  using assms by (induction rows) auto

lemma upd_where_upd_where:
  assumes "\<And>r. p r \<Longrightarrow> q (f r)" and "\<And>r. q r \<Longrightarrow> p r"
  shows "upd_where q g (upd_where p f rows) = upd_where p (g \<circ> f) rows"
  using assms by (auto simp: upd_where_def)

lemma upd_where_cong:
  "(\<And>r. r \<in> set rows \<Longrightarrow> p r = q r) \<Longrightarrow> (\<And>r. r \<in> set rows \<Longrightarrow> q r \<Longrightarrow> f r = g r) \<Longrightarrow>
   upd_where p f rows = upd_where q g rows"
  by (auto simp: upd_where_def)

lemma find_SomeD: "find p rows = Some r \<Longrightarrow> r \<in> set rows \<and> p r"
  by (induction rows) (auto split: if_splits)

lemma find_NoneD: "find p rows = None \<Longrightarrow> r \<in> set rows \<Longrightarrow> \<not> p r"
  by (auto simp: find_None_iff)

lemma find_append_rows:
  "find p (xs @ ys) = (case find p xs of None \<Rightarrow> find p ys | Some r \<Rightarrow> Some r)"
  by (induction xs) auto

lemma find_distinct_key:
  assumes "distinct (map key rows)" and "r \<in> set rows"
  shows "find (\<lambda>x. key x = key r) rows = Some r"
  using assms by (induction rows) (auto simp: rev_image_eqI)

lemma distinct_key_inj:
  "distinct (map key rows) \<Longrightarrow> r \<in> set rows \<Longrightarrow> r' \<in> set rows \<Longrightarrow> key r = key r' \<Longrightarrow> r = r'"
  by (auto simp: distinct_map inj_on_def)

lemma upd_where_conv_find:
  assumes "distinct (map key rows)" and "find (\<lambda>x. key x = k \<and> q x) rows = Some r"
  shows "upd_where (\<lambda>x. key x = k \<and> q x) f rows = upd_where (\<lambda>x. key x = k) f rows"
proof (rule upd_where_cong)
  fix x assume x: "x \<in> set rows"
  from find_SomeD [OF assms(2)] have r: "r \<in> set rows" "key r = k" "q r" by auto
  show "(key x = k \<and> q x) = (key x = k)"
    using distinct_key_inj [OF assms(1) x r(1)] r by auto
qed simp

section \<open>ORDER BY ... LIMIT\<close>

lemma set_order_limit_subset: "set (order_limit k n rows) \<subseteq> set rows"
  using set_take_subset [of n "sort_key k rows"] by (auto simp: order_limit_def)

lemma in_order_limit: "r \<in> set (order_limit k n rows) \<Longrightarrow> r \<in> set rows"
  using set_order_limit_subset [of k n rows] by auto

lemma length_order_limit [simp]: "length (order_limit k n rows) = min n (length rows)"
  by (simp add: order_limit_def min.commute)

lemma sorted_order_limit: "sorted (map k (order_limit k n rows))"
  by (simp add: order_limit_def sorted_wrt_take flip: take_map)

lemma order_limit_least:
  assumes "a \<in> set (order_limit k n rows)" and "b \<in> set rows"
    and "b \<notin> set (order_limit k n rows)"
  shows "k a \<le> k b"
proof -
  let ?s = "sort_key k rows"
  have "b \<in> set ?s" using assms(2) by simp
  then have b: "b \<in> set (drop n ?s)"
    using assms(3) unfolding order_limit_def
    by (metis Un_iff append_take_drop_id set_append)
  have "sorted (map k (take n ?s @ drop n ?s))"
    by simp
  then have "\<forall>x\<in>set (take n ?s). \<forall>y\<in>set (drop n ?s). k x \<le> k y"
    unfolding map_append sorted_append by auto
  then show ?thesis using assms(1) b unfolding order_limit_def by blast
qed

lemma distinct_order_limit: "distinct rows \<Longrightarrow> distinct (order_limit k n rows)"
  by (simp add: order_limit_def distinct_take)

lemma distinct_key_order_limit:
  assumes "distinct (map key rows)"
  shows "distinct (map key (order_limit k n rows))"
proof -
  have "mset (map key (sort_key k rows)) = mset (map key rows)"
    by simp
  then have "distinct (map key (sort_key k rows))"
    using assms by (metis mset_eq_imp_distinct_iff)
  then have "distinct (take n (map key (sort_key k rows)))"
    by (rule distinct_take)
  then show ?thesis
    by (simp add: order_limit_def take_map)
qed

lemma order_limit_all: "length rows \<le> n \<Longrightarrow> set (order_limit k n rows) = set rows"
  by (simp add: order_limit_def)

text \<open>A row whose key a sub-select returned satisfies the sub-select's WHERE clause.\<close>

lemma selected_row:
  assumes "distinct (map key rows)" and "r \<in> set rows"
    and "key r \<in> key ` set (order_limit k n (filter P rows))"
  shows "P r"
proof -
  obtain x where x: "x \<in> set (order_limit k n (filter P rows))" "key r = key x"
    using assms(3) by auto
  from in_order_limit [OF x(1)] have "x \<in> set rows" "P x" by auto
  then show ?thesis using distinct_key_inj [OF assms(1,2) _ x(2)] by simp
qed

text \<open>
  \<open>UPDATE ... WHERE key IN (SELECT key ... ORDER BY ... LIMIT n) RETURNING *\<close>: exactly the
  selected rows are updated, and they are what is returned.
\<close>

definition upd_selected :: "('r \<Rightarrow> 'k) \<Rightarrow> 'r list \<Rightarrow> ('r \<Rightarrow> 'r) \<Rightarrow> 'r list \<Rightarrow> 'r list" where
  "upd_selected key sel f rows = upd_where (\<lambda>r. key r \<in> key ` set sel) f rows"

definition returning :: "('r \<Rightarrow> 'k) \<Rightarrow> 'r list \<Rightarrow> 'r list \<Rightarrow> 'r list" where
  "returning key sel rows = filter (\<lambda>r. key r \<in> key ` set sel) rows"

lemma selected_iff:
  assumes "distinct (map key rows)" and "set sel \<subseteq> set rows" and "r \<in> set rows"
  shows "key r \<in> key ` set sel \<longleftrightarrow> r \<in> set sel"
proof
  assume "key r \<in> key ` set sel"
  then obtain x where "x \<in> set sel" "key r = key x" by auto
  moreover from this have "x \<in> set rows" using assms(2) by auto
  ultimately show "r \<in> set sel" using distinct_key_inj [OF assms(1,3), of x] by simp
qed simp

lemma set_upd_selected:
  assumes "distinct (map key rows)" and "set sel \<subseteq> set rows"
  shows "set (upd_selected key sel f rows) = (set rows - set sel) \<union> f ` set sel"
proof -
  have "{r \<in> set rows. key r \<in> key ` set sel} = set sel"
    and "{r \<in> set rows. key r \<notin> key ` set sel} = set rows - set sel"
    using selected_iff [OF assms] assms(2) by auto
  then show ?thesis by (simp add: upd_selected_def set_upd_where Un_commute)
qed

lemma set_returning:
  assumes "distinct (map key rows)" and "set sel \<subseteq> set rows" and "\<And>r. key (f r) = key r"
  shows "set (returning key sel (upd_selected key sel f rows)) = f ` set sel"
proof -
  have "key r \<notin> key ` set sel" if "r \<in> set rows - set sel" for r
    using selected_iff [OF assms(1,2)] that by simp
  then show ?thesis
    using assms(3) unfolding returning_def set_filter set_upd_selected [OF assms(1,2)] by fastforce
qed

lemma keys_upd_selected:
  "(\<And>r. key (f r) = key r) \<Longrightarrow> map key (upd_selected key sel f rows) = map key rows"
  by (simp add: upd_selected_def map_upd_where)

lemma length_returning:
  assumes "distinct (map key rows)" and "set sel \<subseteq> set rows" and "\<And>r. key (f r) = key r"
    and "distinct (map key sel)"
  shows "length (returning key sel (upd_selected key sel f rows)) = length sel"
proof -
  let ?ret = "returning key sel (upd_selected key sel f rows)"
  have "distinct (map key ?ret)"
    unfolding returning_def using assms(1) keys_upd_selected [of key f sel rows, OF assms(3)]
    by (metis distinct_map_filter)
  then have "length ?ret = card (key ` set ?ret)"
    by (metis distinct_card length_map list.set_map)
  also have "key ` set ?ret = key ` set sel"
    unfolding set_returning [OF assms(1-3)] by (simp add: image_image assms(3))
  also have "card \<dots> = length sel"
    using assms(4) by (metis distinct_card length_map list.set_map)
  finally show ?thesis .
qed

section \<open>Rounding: \<open>timedelta(seconds=x)\<close> rounds half to even\<close>

definition py_round :: "rat \<Rightarrow> int" where
  "py_round x =
     (let f = \<lfloor>x\<rfloor>; d = x - of_int f
      in if d < 1/2 then f else if d > 1/2 then f + 1 else if even f then f else f + 1)"

definition timedelta_seconds :: "rat \<Rightarrow> duration" where
  "timedelta_seconds s = py_round (s * 1000000)"

lemma py_round_bounds: "\<lfloor>x\<rfloor> \<le> py_round x \<and> py_round x \<le> \<lceil>x\<rceil>"
proof -
  have "x - of_int \<lfloor>x\<rfloor> \<noteq> 0 \<Longrightarrow> \<lceil>x\<rceil> = \<lfloor>x\<rfloor> + 1"
    by (auto simp: ceiling_altdef)
  moreover have "\<lfloor>x\<rfloor> \<le> \<lceil>x\<rceil>" by (rule floor_le_ceiling)
  ultimately show ?thesis
    by (auto simp: py_round_def Let_def)
qed

lemma py_round_nonneg: "0 \<le> x \<Longrightarrow> 0 \<le> py_round x"
  using py_round_bounds [of x] by (meson order_trans zero_le_floor)

lemma py_round_le_int: "x \<le> of_int n \<Longrightarrow> py_round x \<le> n"
  using py_round_bounds [of x] by (meson ceiling_le_iff order_trans)

lemma py_round_of_int [simp]: "py_round (of_int n) = n"
  by (simp add: py_round_def Let_def)

lemma py_round_mono:
  assumes "x \<le> y" shows "py_round x \<le> py_round y"
proof (cases "\<lfloor>x\<rfloor> = \<lfloor>y\<rfloor>")
  case True
  then show ?thesis using assms by (auto simp: py_round_def Let_def)
next
  case False
  then have "\<lfloor>x\<rfloor> + 1 \<le> \<lfloor>y\<rfloor>" using floor_mono [OF assms] by linarith
  moreover have "\<lceil>x\<rceil> \<le> \<lfloor>x\<rfloor> + 1" by linarith
  ultimately show ?thesis
    using py_round_bounds [of x] py_round_bounds [of y] by linarith
qed

section \<open>Python text\<close>

text \<open>The code points \<open>str.isspace\<close> accepts, which \<open>str.strip\<close> removes.\<close>

definition py_isspace :: "nat \<Rightarrow> bool" where
  "py_isspace c \<longleftrightarrow>
     (9 \<le> c \<and> c \<le> 13) \<or> (28 \<le> c \<and> c \<le> 32) \<or> c = 0x85 \<or> c = 0xA0 \<or> c = 0x1680
     \<or> (0x2000 \<le> c \<and> c \<le> 0x200A) \<or> c = 0x2028 \<or> c = 0x2029 \<or> c = 0x202F
     \<or> c = 0x205F \<or> c = 0x3000"

definition py_strip :: "ustr \<Rightarrow> ustr" where
  "py_strip s = rev (dropWhile py_isspace (rev (dropWhile py_isspace s)))"

lemma py_strip_eq_Nil: "py_strip s = [] \<longleftrightarrow> (\<forall>c\<in>set s. py_isspace c)"
proof
  assume "py_strip s = []"
  then have "\<forall>c\<in>set (rev (dropWhile py_isspace s)). py_isspace c"
    by (simp add: py_strip_def dropWhile_eq_Nil_conv)
  then have "\<forall>c\<in>set (dropWhile py_isspace s). py_isspace c"
    by simp
  then have "dropWhile py_isspace s = []"
    by (metis hd_dropWhile hd_in_set)
  then show "\<forall>c\<in>set s. py_isspace c"
    by (simp add: dropWhile_eq_Nil_conv)
next
  assume "\<forall>c\<in>set s. py_isspace c"
  then have "dropWhile py_isspace s = []"
    by (simp add: dropWhile_eq_Nil_conv)
  then show "py_strip s = []"
    by (simp only: py_strip_def rev.simps dropWhile.simps)
qed

section \<open>Runs of operations\<close>

text \<open>
  A run applies a list of operations in order. An operation that raises leaves the database as
  it was: the caller's transaction is rolled back.
\<close>

fun run_ops :: "('e \<Rightarrow> 's \<Rightarrow> 's res) \<Rightarrow> 'e list \<Rightarrow> 's \<Rightarrow> 's" where
  "run_ops step [] s = s"
| "run_ops step (e # es) s =
     run_ops step es (case step e s of Inl _ \<Rightarrow> s | Inr s' \<Rightarrow> s')"

text \<open>An invariant of a component: every operation that returns keeps it.\<close>

locale invariant_system =
  fixes step :: "'e \<Rightarrow> 's \<Rightarrow> 's res"
    and inv :: "'s \<Rightarrow> bool"
  assumes step_inv: "inv s \<Longrightarrow> step e s = Inr s' \<Longrightarrow> inv s'"
begin

lemma run_inv: "inv s \<Longrightarrow> inv (run_ops step es s)"
  by (induction es arbitrary: s) (auto split: sum.splits dest: step_inv)

text \<open>A property that the operations of one kind keep holds after a run of them.\<close>

lemma run_kept:
  assumes kept: "\<And>s e s'. inv s \<Longrightarrow> P s \<Longrightarrow> good e \<Longrightarrow> step e s = Inr s' \<Longrightarrow> P s'"
  shows "inv s \<Longrightarrow> P s \<Longrightarrow> list_all good es \<Longrightarrow> P (run_ops step es s)"
  by (induction es arbitrary: s) (auto split: sum.splits dest: step_inv kept)

end

text \<open>
  A measure of the state that each operation raises by at most its own cost: over a run it is
  bounded by the sum of the costs.
\<close>

locale bounded_growth = invariant_system step inv
  for step :: "'e \<Rightarrow> 's \<Rightarrow> 's res" and inv :: "'s \<Rightarrow> bool" +
  fixes level :: "'s \<Rightarrow> int" and cost :: "'e \<Rightarrow> int"
  assumes cost_nonneg: "0 \<le> cost e"
    and step_level: "inv s \<Longrightarrow> step e s = Inr s' \<Longrightarrow> level s' \<le> level s + cost e"
begin

lemma run_level: "inv s \<Longrightarrow> level (run_ops step es s) \<le> level s + sum_list (map cost es)"
proof (induction es arbitrary: s)
  case Nil
  then show ?case by simp
next
  case (Cons e es)
  show ?case
  proof (cases "step e s")
    case (Inl x)
    then show ?thesis using Cons.IH [OF Cons.prems] cost_nonneg [of e] by simp
  next
    case (Inr s')
    from Cons.prems Inr have "inv s'" by (rule step_inv)
    from Cons.IH [OF this] step_level [OF Cons.prems Inr] Inr show ?thesis by simp
  qed
qed

end

end
