(* ===== verification/Clock.thy ===== *)
theory Clock
  imports Collector_Prelude
begin

text \<open>
  \<open>persistence/postgres/clock.py\<close>: every repository compares times it was given, so each
  operation takes the caller's \<open>now\<close> and the reading of the system clock. A naive
  datetime is refused before any statement is issued.
\<close>

text \<open>A Python datetime: its wall clock, and its offset from UTC when it is aware.\<close>

datatype datetime = Naive int | Aware int duration

definition require_aware_utc :: "datetime \<Rightarrow> ts res" where
  "require_aware_utc d = (case d of Naive _ \<Rightarrow> Inl ValueError | Aware w off \<Rightarrow> Inr (w - off))"

definition resolve_now :: "ts \<Rightarrow> datetime option \<Rightarrow> ts res" where
  "resolve_now utcnow now = (case now of None \<Rightarrow> Inr utcnow | Some d \<Rightarrow> require_aware_utc d)"

text \<open>
  A datetime bound to a \<open>timestamptz\<close> parameter without a check: an aware value is its
  instant, a naive one whatever the driver makes of it (\<open>naive\<close>).
\<close>

definition bind_timestamptz :: "(int \<Rightarrow> ts res) \<Rightarrow> datetime \<Rightarrow> ts res" where
  "bind_timestamptz naive d = (case d of Naive w \<Rightarrow> naive w | Aware w off \<Rightarrow> Inr (w - off))"

text \<open>An aware datetime in UTC, as the code under test passes it.\<close>

abbreviation utc :: "ts \<Rightarrow> datetime option" where
  "utc t \<equiv> Some (Aware t 0)"

lemma resolve_now_simps [simp]:
  "resolve_now c None = Inr c"
  "resolve_now c (Some (Aware w off)) = Inr (w - off)"
  "resolve_now c (Some (Naive w)) = Inl ValueError"
  by (simp_all add: resolve_now_def require_aware_utc_def)

lemma require_aware_utc_simps [simp]:
  "require_aware_utc (Aware w off) = Inr (w - off)"
  "require_aware_utc (Naive w) = Inl ValueError"
  by (simp_all add: require_aware_utc_def)

end
