(* ===== verification/Schema.thy ===== *)
theory Schema
  imports Clock
begin

text \<open>
  The PostgreSQL tables of \<open>persistence/postgres/models\<close> that the repositories of this
  development read and write, one record per row class, one field per column, and the CHECK
  constraints of each table as a Boolean function of the row. The whole database is the record
  \<open>db\<close>: one list of rows per table, in insertion order.

  Statuses and other enum columns are datatypes. String columns that are only compared are
  \<open>string\<close>; free text whose characters the code looks at is a list of code points.
  Column widths (\<open>String(n)\<close>, \<open>SmallInteger\<close>) and the foreign keys of jobs, fetches
  and the like to sources, policies and fetch results are not part of the model.
\<close>

section \<open>JSON documents of the audit log\<close>

text \<open>
  \<open>JIso t\<close> is the string \<open>t.isoformat()\<close> of a UTC timestamp, \<open>JIsoOf d\<close> that of any
  datetime and \<open>JUuid i\<close> the string \<open>str(i)\<close>, all kept symbolic.
\<close>

datatype json = JNull | JBool bool | JInt int | JStr ustr | JText string | JIso ts | JIsoOf datetime | JUuid uuid
  | JArr "json list" | JObj "(string \<times> json) list"

definition jopt_ts :: "ts option \<Rightarrow> json" where
  "jopt_ts t = (case t of None \<Rightarrow> JNull | Some x \<Rightarrow> JIso x)"

definition jopt_text :: "string option \<Rightarrow> json" where
  "jopt_text t = (case t of None \<Rightarrow> JNull | Some x \<Rightarrow> JText x)"

text \<open>The \<open>resource_id\<close> of an audit record: \<open>str(uuid)\<close> or a text key.\<close>

datatype resource_id = ResUuid uuid | ResText string

record audit_log =
  a_audit_id :: uuid
  a_created_at :: ts
  a_actor :: ustr
  a_action :: string
  a_resource_type :: string
  a_resource_id :: resource_id
  a_before_state :: "json option"
  a_after_state :: "json option"
  a_request_id :: "string option"
  a_idempotency_key :: "string option"

section \<open>Crawl runs and the job queue\<close>

datatype run_kind = Full | Incremental | Replay | Backfill
datatype run_status = Running | RunSucceeded | RunFailed | RunCancelled

record crawl_run =
  r_id :: uuid
  r_source_id :: uuid
  r_policy_version_id :: "uuid option"
  r_kind :: run_kind
  r_status :: run_status
  r_started_by :: string
  r_started_at :: ts
  r_finished_at :: "ts option"
  r_error_code :: "string option"
  r_created_at :: ts
  r_updated_at :: ts

text \<open>The statuses of \<open>crawl_jobs\<close> and of \<open>projection_tasks\<close> (the same five).\<close>

datatype job_status = Pending | Leased | Succeeded | Retry | Quarantined

definition claimable_status :: "job_status \<Rightarrow> bool" where
  "claimable_status s \<longleftrightarrow> s = Pending \<or> s = Retry"

definition terminal_status :: "job_status \<Rightarrow> bool" where
  "terminal_status s \<longleftrightarrow> s = Succeeded \<or> s = Quarantined"

lemma claimable_status_simps [simp]:
  "claimable_status Pending" "claimable_status Retry" "\<not> claimable_status Leased"
  "\<not> claimable_status Succeeded" "\<not> claimable_status Quarantined"
  by (simp_all add: claimable_status_def)

lemma terminal_status_simps [simp]:
  "\<not> terminal_status Pending" "\<not> terminal_status Retry" "\<not> terminal_status Leased"
  "terminal_status Succeeded" "terminal_status Quarantined"
  by (simp_all add: terminal_status_def)

text \<open>\<open>args\<close> is kept as the octets of \<open>args::text\<close>.\<close>

record crawl_job =
  j_job_id :: uuid
  j_run_id :: "uuid option"
  j_source_id :: "uuid option"
  j_job_type :: string
  j_status :: job_status
  j_priority :: int
  j_idempotency_key :: string
  j_args :: string
  j_attempt :: int
  j_max_attempts :: int
  j_not_before :: ts
  j_lease_owner :: "string option"
  j_lease_expires_at :: "ts option"
  j_leased_at :: "ts option"
  j_finished_at :: "ts option"
  j_last_error_code :: "string option"
  j_last_error_message :: "ustr option"
  j_created_at :: ts
  j_updated_at :: ts

definition JOB_ARGS_MAX_BYTES :: nat where
  "JOB_ARGS_MAX_BYTES = 8 * 1024"

definition lease_consistent :: "job_status \<Rightarrow> string option \<Rightarrow> ts option \<Rightarrow> bool" where
  "lease_consistent s owner expires \<longleftrightarrow> (s = Leased) = (owner \<noteq> None \<and> expires \<noteq> None)"

definition crawl_job_checks :: "crawl_job \<Rightarrow> bool" where
  "crawl_job_checks j \<longleftrightarrow>
     0 \<le> j_attempt j \<and> 1 \<le> j_max_attempts j
     \<and> length (j_args j) \<le> JOB_ARGS_MAX_BYTES
     \<and> lease_consistent (j_status j) (j_lease_owner j) (j_lease_expires_at j)"

datatype dead_letter_reason = MaxAttempts | QuarantineReason

record dead_letter =
  d_id :: uuid
  d_job_id :: uuid
  d_job_type :: string
  d_reason :: dead_letter_reason
  d_attempt :: int
  d_error_code :: "string option"
  d_error_message :: "ustr option"
  d_created_at :: ts
  d_resolved_at :: "ts option"
  d_resolved_by :: "string option"
  d_resolution :: "ustr option"

section \<open>The origin limiter\<close>

text \<open>
  \<open>Numeric(12, 4)\<close> columns count units of \<open>0.0001\<close> token, \<open>Numeric(12, 6)\<close>
  counts units of \<open>0.000001\<close> token per second: both are integers here.
\<close>

record origin_bucket =
  b_origin :: string
  b_capacity_tokens :: int
  b_refill_per_second :: int
  b_available_tokens :: int
  b_last_refill_at :: ts
  b_max_concurrency :: int
  b_blocked_until :: "ts option"
  b_block_reason :: "ustr option"
  b_revision :: int
  b_created_at :: ts
  b_updated_at :: ts

definition origin_bucket_checks :: "origin_bucket \<Rightarrow> bool" where
  "origin_bucket_checks b \<longleftrightarrow>
     0 < b_capacity_tokens b \<and> 0 < b_refill_per_second b \<and> 0 \<le> b_max_concurrency b
     \<and> 0 \<le> b_available_tokens b \<and> b_available_tokens b \<le> b_capacity_tokens b"

datatype release_reason = Released | Expired

record origin_permit =
  p_permit_id :: uuid
  p_origin :: string
  p_owner_instance :: string
  p_job_id :: "uuid option"
  p_acquired_at :: ts
  p_lease_expires_at :: ts
  p_released_at :: "ts option"
  p_release_reason :: "release_reason option"
  p_created_at :: ts

definition origin_permit_checks :: "origin_permit \<Rightarrow> bool" where
  "origin_permit_checks p \<longleftrightarrow> (p_released_at p = None) = (p_release_reason p = None)"

section \<open>Outbox\<close>

datatype topic = Internal | Domain

record outbox_event =
  o_outbox_id :: uuid
  o_event_id :: uuid
  o_topic :: topic
  o_event_type :: string
  o_aggregate_id :: uuid
  o_aggregate_version :: int
  o_payload_schema_version :: string
  o_payload_bytes :: "string option"
  o_payload_media_type :: string
  o_payload_sha256 :: string
  o_payload_artifact_uri :: "string option"
  o_available_at :: ts
  o_published_at :: "ts option"
  o_parked_at :: "ts option"
  o_attempts :: int
  o_delivery_attempts :: int
  o_last_error_code :: "string option"
  o_last_error_message :: "ustr option"
  o_created_at :: ts
  o_updated_at :: ts

definition INLINE_EVENT_LIMIT_BYTES :: int where
  "INLINE_EVENT_LIMIT_BYTES = 256 * 1024"

definition is_hex64 :: "string \<Rightarrow> bool" where
  "is_hex64 s \<longleftrightarrow> length s = 64 \<and> list_all (\<lambda>c. c \<in> set ''0123456789abcdef'') s"

definition outbox_event_checks :: "outbox_event \<Rightarrow> bool" where
  "outbox_event_checks e \<longleftrightarrow>
     0 \<le> o_attempts e \<and> 0 \<le> o_delivery_attempts e
     \<and> (o_payload_bytes e = None) \<noteq> (o_payload_artifact_uri e = None)
     \<and> (case o_payload_bytes e of None \<Rightarrow> True | Some b \<Rightarrow> int (length b) \<le> INLINE_EVENT_LIMIT_BYTES)
     \<and> is_hex64 (o_payload_sha256 e)"

section \<open>Entities, artifacts, projection\<close>

datatype data_domain = News | Vehicle | Catalog
datatype entity_kind = CatalogItem | CatalogOffer | VehicleListing | Seller

record entity_index =
  e_entity_uuid :: uuid
  e_domain :: data_domain
  e_entity_kind :: entity_kind
  e_source_id :: string
  e_source_item_id :: string
  e_identity_hash :: "string option"
  e_canonical_url :: "string option"
  e_mongo_collection :: "string option"
  e_mongo_document_id :: "uuid option"
  e_projection_version :: int
  e_confirmed_projection_version :: int
  e_confirmed_at :: "ts option"
  e_created_at :: ts
  e_updated_at :: ts

definition entity_index_checks :: "entity_index \<Rightarrow> bool" where
  "entity_index_checks e \<longleftrightarrow>
     0 \<le> e_confirmed_projection_version e \<and> 0 \<le> e_projection_version e
     \<and> e_confirmed_projection_version e \<le> e_projection_version e"

datatype parse_outcome = ParseSucceeded | ParsePartial | ParseFailed | ParseSkipped

record parse_attempt =
  pa_parse_attempt_id :: uuid
  pa_fetch_id :: "uuid option"
  pa_job_id :: "uuid option"
  pa_source_id :: "uuid option"
  pa_raw_sha256 :: string
  pa_domain :: data_domain
  pa_parser_version :: string
  pa_outcome :: parse_outcome
  pa_records_count :: int
  pa_validation_errors_count :: int
  pa_error_code :: "string option"
  pa_error_message :: "ustr option"
  pa_started_at :: "ts option"
  pa_finished_at :: "ts option"
  pa_created_at :: ts

definition parse_attempt_checks :: "parse_attempt \<Rightarrow> bool" where
  "parse_attempt_checks a \<longleftrightarrow> 0 \<le> pa_records_count a \<and> 0 \<le> pa_validation_errors_count a"

record normalized_artifact =
  n_artifact_id :: uuid
  n_object_key :: string
  n_entity_uuid :: uuid
  n_domain :: data_domain
  n_uri :: string
  n_sha256 :: string
  n_size_bytes :: int
  n_media_type :: string
  n_schema_version :: string
  n_parser_version :: string
  n_parse_attempt_id :: "uuid option"
  n_fetch_id :: "uuid option"
  n_raw_sha256 :: string
  n_raw_uri :: string
  n_is_metadata_only :: bool
  n_produced_at :: ts
  n_created_at :: ts

definition normalized_artifact_checks :: "normalized_artifact \<Rightarrow> bool" where
  "normalized_artifact_checks a \<longleftrightarrow>
     is_hex64 (n_sha256 a) \<and> is_hex64 (n_raw_sha256 a) \<and> 0 \<le> n_size_bytes a"

record projection_task =
  t_task_id :: uuid
  t_artifact_id :: uuid
  t_entity_uuid :: uuid
  t_parse_attempt_id :: "uuid option"
  t_parse_key :: string
  t_projection_version :: int
  t_target_collection :: string
  t_target_schema_version :: string
  t_status :: job_status
  t_priority :: int
  t_attempt :: int
  t_max_attempts :: int
  t_not_before :: ts
  t_lease_owner :: "string option"
  t_lease_expires_at :: "ts option"
  t_leased_at :: "ts option"
  t_finished_at :: "ts option"
  t_last_error_code :: "string option"
  t_last_error_message :: "ustr option"
  t_created_at :: ts
  t_updated_at :: ts

definition projection_task_checks :: "projection_task \<Rightarrow> bool" where
  "projection_task_checks t \<longleftrightarrow>
     is_hex64 (t_parse_key t) \<and> 1 \<le> t_projection_version t
     \<and> 0 \<le> t_attempt t \<and> 1 \<le> t_max_attempts t
     \<and> lease_consistent (t_status t) (t_lease_owner t) (t_lease_expires_at t)"

record projection_ack =
  k_task_id :: uuid
  k_entity_uuid :: uuid
  k_projection_version :: int
  k_receipt_id :: uuid
  k_receipt_cluster_time :: string
  k_mongo_document_id :: "uuid option"
  k_applied_to_current :: bool
  k_state_changed :: bool
  k_result_version :: int
  k_result_hash :: string
  k_previous_hash :: "string option"
  k_event_id :: "uuid option"
  k_event_sha256 :: "string option"
  k_acknowledged_at :: ts
  k_created_at :: ts

record change_event =
  c_change_event_id :: uuid
  c_event_id :: uuid
  c_aggregate_id :: uuid
  c_aggregate_version :: int
  c_event_type :: string
  c_payload_schema_version :: string
  c_projection_task_id :: uuid
  c_previous_state_hash :: "string option"
  c_result_state_hash :: string
  c_event_bytes :: "string option"
  c_event_media_type :: string
  c_event_sha256 :: string
  c_event_artifact_uri :: "string option"
  c_event_artifact_size_bytes :: "int option"
  c_occurred_at :: ts
  c_created_at :: ts

definition change_event_checks :: "change_event \<Rightarrow> bool" where
  "change_event_checks c \<longleftrightarrow>
     1 \<le> c_aggregate_version c
     \<and> (c_event_bytes c = None) \<noteq> (c_event_artifact_uri c = None)
     \<and> (case c_event_bytes c of None \<Rightarrow> True | Some b \<Rightarrow> int (length b) \<le> INLINE_EVENT_LIMIT_BYTES)
     \<and> is_hex64 (c_event_sha256 c)"

section \<open>Fetches, raw objects, upload claims\<close>

datatype content_access =
  AccessFull | AccessPartial | MetadataOnly | AccessBlocked | Challenge | Premium | Gone | AccessUnknown

datatype fetch_outcome = FetchSuccess | FetchRetryable | PermanentFailure

record fetch_row =
  f_fetch_id :: uuid
  f_fetched_at :: ts
  f_job_id :: "uuid option"
  f_source_id :: "uuid option"
  f_requested_url :: string
  f_final_url :: "string option"
  f_request_variant :: "string option"
  f_http_method :: string
  f_http_status :: "int option"
  f_outcome :: fetch_outcome
  f_content_access :: content_access
  f_content_type :: "string option"
  f_content_encoding :: "string option"
  f_etag :: "string option"
  f_last_modified_raw :: "string option"
  f_response_bytes :: "int option"
  f_duration_ms :: "int option"
  f_raw_sha256 :: "string option"
  f_error_code :: "string option"
  f_error_message :: "ustr option"
  f_created_at :: ts

definition fetch_checks :: "fetch_row \<Rightarrow> bool" where
  "fetch_checks f \<longleftrightarrow>
     (case f_http_status f of None \<Rightarrow> True | Some c \<Rightarrow> 100 \<le> c \<and> c \<le> 599)
     \<and> (case f_raw_sha256 f of None \<Rightarrow> True | Some h \<Rightarrow> is_hex64 h)"

record raw_object =
  w_raw_object_id :: uuid
  w_sha256 :: string
  w_object_key :: string
  w_uri :: string
  w_size_bytes :: int
  w_media_type :: string
  w_content_encoding :: "string option"
  w_first_fetch_id :: "uuid option"
  w_first_seen_at :: ts
  w_created_at :: ts

definition raw_object_checks :: "raw_object \<Rightarrow> bool" where
  "raw_object_checks w \<longleftrightarrow> is_hex64 (w_sha256 w) \<and> 0 \<le> w_size_bytes w"

datatype upload_claim_status = ClaimLeased | ClaimCommitted | ClaimExpired | ClaimReleased

record claim_row =
  q_claim_id :: uuid
  q_object_key :: string
  q_owner :: string
  q_status :: upload_claim_status
  q_claim_generation :: int
  q_acquired_at :: ts
  q_lease_expires_at :: ts
  q_committed_at :: "ts option"
  q_released_at :: "ts option"
  q_sha256 :: "string option"
  q_size_bytes :: "int option"
  q_uri :: "string option"
  q_media_type :: "string option"
  q_created_at :: ts
  q_updated_at :: ts

definition claim_checks :: "claim_row \<Rightarrow> bool" where
  "claim_checks c \<longleftrightarrow> 1 \<le> q_claim_generation c
     \<and> (q_status c = ClaimCommitted) = (q_committed_at c \<noteq> None \<and> q_sha256 c \<noteq> None
          \<and> q_uri c \<noteq> None \<and> q_size_bytes c \<noteq> None)
     \<and> (case q_sha256 c of None \<Rightarrow> True | Some h \<Rightarrow> is_hex64 h)"

section \<open>Worker pools\<close>

datatype worker_role =
    RoleDiscovery | RoleFetch | RoleBrowser | RoleParse | RoleProjector | RoleTranslation | RoleExport
  | RoleMaintenance

record worker_pool =
  wp_role :: worker_role
  wp_desired_replicas :: int
  wp_desired_concurrency :: int
  wp_min_replicas :: int
  wp_max_replicas :: int
  wp_mode :: string
  wp_resource_profile :: string
  wp_revision :: int
  wp_updated_by :: "ustr option"
  wp_update_reason :: "ustr option"
  wp_created_at :: ts
  wp_updated_at :: ts

definition POOL_MODES :: "string list" where
  "POOL_MODES = [''manual'', ''autoscale'']"

definition worker_pool_checks :: "worker_pool \<Rightarrow> bool" where
  "worker_pool_checks p \<longleftrightarrow>
     0 \<le> wp_min_replicas p \<and> wp_min_replicas p \<le> wp_max_replicas p
     \<and> wp_min_replicas p \<le> wp_desired_replicas p \<and> wp_desired_replicas p \<le> wp_max_replicas p
     \<and> 1 \<le> wp_desired_concurrency p \<and> wp_mode p \<in> set POOL_MODES"

datatype instance_status = Starting | Ready | Draining | Stopped | Stale

record worker_instance =
  wi_instance_id :: uuid
  wi_role :: worker_role
  wi_status :: instance_status
  wi_deployment :: "string option"
  wi_container_id :: "string option"
  wi_hostname :: "string option"
  wi_version :: string
  wi_slots_total :: int
  wi_slots_active :: int
  wi_active_leases :: int
  wi_pool_revision :: "int option"
  wi_drain_requested_at :: "ts option"
  wi_started_at :: ts
  wi_last_heartbeat_at :: ts
  wi_stopped_at :: "ts option"
  wi_created_at :: ts
  wi_updated_at :: ts

definition worker_instance_checks :: "worker_instance \<Rightarrow> bool" where
  "worker_instance_checks i \<longleftrightarrow> 0 \<le> wi_slots_total i \<and> 0 \<le> wi_slots_active i \<and> 0 \<le> wi_active_leases i"

datatype scale_status = ScRequested | ScDraining | ScAwaitingManualApply | ScApplying | ScApplied | ScFailed | ScSuperseded

record scale_command =
  sc_command_id :: uuid
  sc_idempotency_key :: string
  sc_role :: worker_role
  sc_expected_pool_revision :: int
  sc_applied_pool_revision :: int
  sc_requested_replicas :: int
  sc_requested_concurrency :: int
  sc_status :: scale_status
  sc_cli_command :: "string option"
  sc_result :: "ustr option"
  sc_actor :: ustr
  sc_reason :: ustr
  sc_audit_id :: uuid
  sc_audit_created_at :: ts
  sc_created_at :: ts
  sc_updated_at :: ts
  sc_applied_at :: "ts option"

section \<open>The source registry\<close>

datatype source_state = Enabled | Paused | Disabled | BlockedAnonymous
datatype route_state = Healthy | Degraded | CircuitOpen | Unsupported

definition ROUTE_KINDS :: "string list" where
  "ROUTE_KINDS = [''rss'', ''sitemap'', ''category'', ''detail'', ''api'', ''browser'']"

record source =
  sr_id :: uuid
  sr_source_id :: string
  sr_domain :: data_domain
  sr_country :: string
  sr_state :: source_state
  sr_state_reason :: "ustr option"
  sr_current_policy_version_id :: "uuid option"
  sr_revision :: int
  sr_updated_by :: "ustr option"
  sr_created_at :: ts
  sr_updated_at :: ts

record source_policy_version =
  pv_id :: uuid
  pv_source_id :: uuid
  pv_version :: int
  pv_requests_per_second :: rat
  pv_max_concurrency :: int
  pv_burst_tokens :: int
  pv_crawl_interval_seconds :: int
  pv_browser_allowed :: bool
  pv_robots_policy :: string
  pv_manifest_sha256 :: string
  pv_manifest_uri :: "string option"
  pv_effective_from :: ts
  pv_created_by :: "ustr option"
  pv_created_at :: ts

record source_route =
  rt_id :: uuid
  rt_source_id :: uuid
  rt_route_kind :: string
  rt_route_key :: string
  rt_state :: route_state
  rt_state_reason :: "ustr option"
  rt_consecutive_failures :: int
  rt_circuit_open_until :: "ts option"
  rt_last_success_at :: "ts option"
  rt_last_failure_at :: "ts option"
  rt_revision :: int
  rt_created_at :: ts
  rt_updated_at :: ts

record source_cursor =
  cu_id :: uuid
  cu_source_id :: uuid
  cu_route_id :: "uuid option"
  cu_cursor_kind :: string
  cu_cursor_key :: string
  cu_cursor_value :: string
  cu_cursor_at :: "ts option"
  cu_revision :: int
  cu_created_at :: ts
  cu_updated_at :: ts

section \<open>The database\<close>

record db =
  audit_logs :: "audit_log list"
  crawl_runs :: "crawl_run list"
  crawl_jobs :: "crawl_job list"
  dead_letters :: "dead_letter list"
  buckets :: "origin_bucket list"
  permits :: "origin_permit list"
  outbox_events :: "outbox_event list"
  entities :: "entity_index list"
  parse_attempts :: "parse_attempt list"
  normalized_artifacts :: "normalized_artifact list"
  projection_tasks :: "projection_task list"
  projection_acks :: "projection_ack list"
  change_events :: "change_event list"
  fetches :: "fetch_row list"
  raw_objects :: "raw_object list"
  upload_claims :: "claim_row list"
  worker_pools :: "worker_pool list"
  worker_instances :: "worker_instance list"
  scale_commands :: "scale_command list"
  sources :: "source list"
  source_policy_versions :: "source_policy_version list"
  source_routes :: "source_route list"
  source_cursors :: "source_cursor list"

definition empty_db :: db where
  "empty_db = \<lparr>audit_logs = [], crawl_runs = [], crawl_jobs = [], dead_letters = [],
     buckets = [], permits = [], outbox_events = [], entities = [], parse_attempts = [],
     normalized_artifacts = [], projection_tasks = [], projection_acks = [], change_events = [],
     fetches = [], raw_objects = [], upload_claims = [], worker_pools = [], worker_instances = [],
     scale_commands = [], sources = [], source_policy_versions = [], source_routes = [], source_cursors = []\<rparr>"

lemma empty_db_simps [simp]:
  "audit_logs empty_db = []" "crawl_runs empty_db = []" "crawl_jobs empty_db = []"
  "dead_letters empty_db = []" "buckets empty_db = []" "permits empty_db = []"
  "outbox_events empty_db = []" "entities empty_db = []" "parse_attempts empty_db = []"
  "normalized_artifacts empty_db = []" "projection_tasks empty_db = []"
  "projection_acks empty_db = []" "change_events empty_db = []"
  "fetches empty_db = []" "raw_objects empty_db = []" "upload_claims empty_db = []"
  "worker_pools empty_db = []" "worker_instances empty_db = []" "scale_commands empty_db = []"
  "sources empty_db = []" "source_policy_versions empty_db = []" "source_routes empty_db = []" "source_cursors empty_db = []"
  by (simp_all add: empty_db_def)

end
