(* ===== verification/Audit_Log.thy ===== *)
theory Audit_Log
  imports Schema
begin

text \<open>
  \<open>repositories/audit.py\<close>: the append-only audit log. Every operator action checks its
  \<open>actor\<close> and \<open>reason\<close> first and writes its record in the transaction of the change.
\<close>

definition require_audit_context :: "ustr option \<Rightarrow> ustr option \<Rightarrow> (ustr \<times> ustr) res" where
  "require_audit_context actor reason =
     (case actor of
        None \<Rightarrow> Inl InvalidValueError
      | Some a \<Rightarrow>
          if py_strip a = [] then Inl InvalidValueError
          else (case reason of
                  None \<Rightarrow> Inl InvalidValueError
                | Some r \<Rightarrow> if py_strip r = [] then Inl InvalidValueError else Inr (a, r)))"

text \<open>
  \<open>new_id\<close> is the value of \<open>new_entity_id()\<close>. A repeated primary key
  \<open>(audit_id, created_at)\<close> is refused by the database.
\<close>

definition append_audit ::
  "uuid \<Rightarrow> ts \<Rightarrow> ustr \<Rightarrow> string \<Rightarrow> string \<Rightarrow> resource_id \<Rightarrow> json option \<Rightarrow> json option
   \<Rightarrow> string option \<Rightarrow> string option \<Rightarrow> datetime option \<Rightarrow> db \<Rightarrow> (audit_log \<times> db) res" where
  "append_audit new_id utcnow actor action rtype rid before after request_id idem now s =
     (case (case idem of
              None \<Rightarrow> None
            | Some k \<Rightarrow> (case order_limit a_created_at 1
                              (filter (\<lambda>a. a_idempotency_key a = Some k) (audit_logs s)) of
                           [] \<Rightarrow> None | a # _ \<Rightarrow> Some a)) of
        Some existing \<Rightarrow> Inr (existing, s)
      | None \<Rightarrow>
          bind_res (resolve_now utcnow now) (\<lambda>current.
            let entry = \<lparr>a_audit_id = new_id, a_created_at = current, a_actor = actor,
                         a_action = action, a_resource_type = rtype, a_resource_id = rid,
                         a_before_state = before, a_after_state = after,
                         a_request_id = request_id, a_idempotency_key = idem\<rparr>
            in if (\<exists>a\<in>set (audit_logs s). a_audit_id a = new_id \<and> a_created_at a = current)
               then Inl IntegrityError
               else Inr (entry, s\<lparr>audit_logs := audit_logs s @ [entry]\<rparr>)))"

definition get_audit :: "uuid \<Rightarrow> ts \<Rightarrow> db \<Rightarrow> audit_log option" where
  "get_audit i created s =
     find (\<lambda>a. a_audit_id a = i \<and> a_created_at a = created) (audit_logs s)"

text \<open>
  What an operator action adds to the log: its own record at the end, or nothing. Nothing that
  was there is lost or changed.
\<close>

lemma append_audit_cases:
  assumes "append_audit i c actor action rtype rid before after req idem now s = Inr (a, s')"
  shows "(s' = s \<and> a \<in> set (audit_logs s)) \<or>
    (s' = s\<lparr>audit_logs := audit_logs s @ [a]\<rparr> \<and> a_actor a = actor \<and> a_action a = action
     \<and> a_resource_type a = rtype \<and> a_resource_id a = rid \<and> a_before_state a = before
     \<and> a_after_state a = after \<and> a_request_id a = req)"
proof -
  have "a \<in> set (audit_logs s)"
    if "order_limit a_created_at 1 (filter P (audit_logs s)) = a # xs" for P xs
    using in_order_limit [of a a_created_at 1 "filter P (audit_logs s)"] that by simp
  then show ?thesis
    using assms by (auto simp: append_audit_def Let_def split: option.splits list.splits if_splits)
qed

lemma append_audit_None:
  assumes "append_audit i c actor action rtype rid before after req None now s = Inr (a, s')"
  shows "s' = s\<lparr>audit_logs := audit_logs s @ [a]\<rparr> \<and> a_actor a = actor \<and> a_action a = action
     \<and> a_resource_id a = rid \<and> resolve_now c now = Inr (a_created_at a)"
  using assms by (auto simp: append_audit_def Let_def split: if_splits)

lemma require_audit_context_Inr:
  "require_audit_context actor reason = Inr (a, r) \<longleftrightarrow>
     actor = Some a \<and> reason = Some r \<and> py_strip a \<noteq> [] \<and> py_strip r \<noteq> []"
  by (auto simp: require_audit_context_def split: option.splits)

end
