(* ===== verification/Backoff.thy ===== *)
theory Backoff
  imports Schema
begin

text \<open>
  The retry delays of \<open>repositories/queue.py\<close>: \<open>BackoffPolicy.delay_for\<close>,
  \<open>clamp_not_before\<close>, \<open>next_attempt_at\<close> and \<open>_truncate\<close>, shared by the job
  queue, the projection queue and the outbox.

  Floating point is modelled by exact rationals. \<open>rng.uniform(0, w)\<close> is \<open>w * r\<close>
  for the number \<open>r\<close> in \<open>[0, 1]\<close> that the generator draws, which is an argument.
\<close>

record backoff_policy =
  bp_base :: duration
  bp_multiplier :: rat
  bp_maximum :: duration
  bp_jitter_ratio :: rat

definition default_backoff :: backoff_policy where
  "default_backoff = \<lparr>bp_base = 30 * second, bp_multiplier = 2, bp_maximum = 6 * 3600 * second,
     bp_jitter_ratio = 1/5\<rparr>"

definition MAX_BACKOFF_EXPONENT :: int where
  "MAX_BACKOFF_EXPONENT = 63"

definition total_seconds :: "duration \<Rightarrow> rat" where
  "total_seconds d = of_int d / 1000000"

definition delay_for :: "backoff_policy \<Rightarrow> int \<Rightarrow> rat \<Rightarrow> duration" where
  "delay_for p attempt r =
     (let exponent = min (max (attempt - 1) 0) MAX_BACKOFF_EXPONENT;
          maximum = total_seconds (bp_maximum p);
          delay = min (total_seconds (bp_base p) * bp_multiplier p ^ nat exponent) maximum;
          jitter = (if bp_jitter_ratio p > 0 then (delay * bp_jitter_ratio p) * r else 0)
      in timedelta_seconds (min (delay + jitter) maximum))"

definition clamp_not_before :: "datetime option \<Rightarrow> datetime \<Rightarrow> ts res" where
  "clamp_not_before not_before now =
     bind_res (require_aware_utc now) (\<lambda>current.
       case not_before of
         None \<Rightarrow> Inr current
       | Some d \<Rightarrow> bind_res (require_aware_utc d) (\<lambda>lower_bound.
           Inr (if lower_bound < current then current else lower_bound)))"

definition next_attempt_at ::
  "datetime \<Rightarrow> int \<Rightarrow> backoff_policy option \<Rightarrow> rat \<Rightarrow> datetime option \<Rightarrow> ts res" where
  "next_attempt_at now attempt policy r not_before =
     bind_res (require_aware_utc now) (\<lambda>current.
       case not_before of
         Some _ \<Rightarrow> clamp_not_before not_before (Aware current 0)
       | None \<Rightarrow>
           Inr (current + delay_for (case policy of None \<Rightarrow> default_backoff | Some p \<Rightarrow> p) attempt r))"

text \<open>\<open>message[: limit - 1] + "\<dots>"\<close>, with the ellipsis U+2026.\<close>

definition truncate_message :: "ustr option \<Rightarrow> ustr option" where
  "truncate_message m =
     (case m of None \<Rightarrow> None
      | Some s \<Rightarrow> Some (if length s \<le> 2048 then s else take 2047 s @ [0x2026]))"

section \<open>Bounds\<close>

definition sane_policy :: "backoff_policy \<Rightarrow> bool" where
  "sane_policy p \<longleftrightarrow> 0 \<le> bp_base p \<and> 0 \<le> bp_multiplier p \<and> 0 \<le> bp_maximum p"

lemma sane_default_backoff [simp]: "sane_policy default_backoff"
  by (simp add: sane_policy_def default_backoff_def second_def)

lemma timedelta_seconds_mono: "x \<le> y \<Longrightarrow> timedelta_seconds x \<le> timedelta_seconds y"
  by (simp add: timedelta_seconds_def py_round_mono)

lemma timedelta_total_seconds [simp]: "timedelta_seconds (total_seconds d) = d"
  by (simp add: timedelta_seconds_def total_seconds_def)

lemma delay_for_le_maximum: "delay_for p n r \<le> bp_maximum p"
proof -
  have "delay_for p n r \<le> timedelta_seconds (total_seconds (bp_maximum p))"
    unfolding delay_for_def Let_def by (intro timedelta_seconds_mono min.cobounded2)
  then show ?thesis by simp
qed

lemma capped_nonneg:
  fixes d m j :: rat
  assumes "0 \<le> d" "0 \<le> m" "0 \<le> j"
  shows "0 \<le> timedelta_seconds (min (d + j) m)"
proof -
  have "0 \<le> min (d + j) m" using assms by simp
  then have "0 \<le> min (d + j) m * 1000000" by (rule mult_nonneg_nonneg) simp
  then show ?thesis unfolding timedelta_seconds_def by (rule py_round_nonneg)
qed

lemma delay_for_nonneg:
  assumes "sane_policy p" and "0 \<le> r"
  shows "0 \<le> delay_for p n r"
proof -
  have b: "0 \<le> total_seconds (bp_base p)" "0 \<le> total_seconds (bp_maximum p)"
    using assms(1) by (simp_all add: sane_policy_def total_seconds_def)
  have "0 \<le> bp_multiplier p ^ k" for k
    using assms(1) by (simp add: sane_policy_def)
  with b(1) have "0 \<le> total_seconds (bp_base p) * bp_multiplier p ^ k" for k
    by (rule mult_nonneg_nonneg)
  with b(2) have d: "0 \<le> min (total_seconds (bp_base p) * bp_multiplier p ^ k)
      (total_seconds (bp_maximum p))" for k
    by simp
  have j: "0 \<le> (if 0 < bp_jitter_ratio p then (x * bp_jitter_ratio p) * r else 0)"
    if "0 \<le> x" for x
    using that assms(2) by simp
  show ?thesis
    unfolding delay_for_def Let_def by (intro capped_nonneg j d b)
qed

text \<open>Without jitter the delay never shrinks from one attempt to the next.\<close>

lemma delay_for_mono:
  assumes "sane_policy p" and "1 \<le> bp_multiplier p" and "m \<le> n"
  shows "delay_for p m 0 \<le> delay_for p n 0"
proof -
  let ?e = "\<lambda>k. nat (min (max (k - 1) 0) MAX_BACKOFF_EXPONENT)"
  have "?e m \<le> ?e n" using assms(3) by (intro nat_mono) (simp add: min_def max_def)
  then have "bp_multiplier p ^ ?e m \<le> bp_multiplier p ^ ?e n"
    using assms(2) by (rule power_increasing)
  then have "total_seconds (bp_base p) * bp_multiplier p ^ ?e m
    \<le> total_seconds (bp_base p) * bp_multiplier p ^ ?e n"
    using assms(1) by (intro mult_left_mono) (simp_all add: sane_policy_def total_seconds_def)
  then show ?thesis
    unfolding delay_for_def Let_def mult_zero_right if_cancel add_0_right
    by (intro timedelta_seconds_mono min.mono order_refl)
qed

lemma clamp_not_before_ge:
  "clamp_not_before nb (Aware now 0) = Inr t \<Longrightarrow> now \<le> t"
  by (auto simp: clamp_not_before_def split: option.splits if_splits)

lemma next_attempt_at_ge:
  assumes "next_attempt_at (Aware now 0) n policy r nb = Inr t"
    and "0 \<le> r" and "\<And>p. policy = Some p \<Longrightarrow> sane_policy p"
  shows "now \<le> t"
  using assms delay_for_nonneg [of default_backoff r n] delay_for_nonneg [of "the policy" r n]
  by (auto simp: next_attempt_at_def split: option.splits dest: clamp_not_before_ge)

lemma length_truncate_message:
  "truncate_message m = Some s \<Longrightarrow> length s \<le> 2048"
  by (auto simp: truncate_message_def split: option.splits if_splits)

end
