(* ===== verification/Lease_Contract.thy ===== *)
theory Lease_Contract
  imports Collector_Prelude
begin

text \<open>
  The contract that the job queue and the projection queue share: an abstract lease protocol
  per row, and what follows from it for every run of operations. A row is absent, free
  (pending or waiting for a retry), held by one worker, or done.

  An operation is labelled by the worker that issues it, or by \<open>None\<close> when it is issued
  by maintenance, by the scheduler or by an operator.
\<close>

datatype lease_state = Absent | Free | Held string | Done

inductive lease_step :: "string option \<Rightarrow> lease_state \<Rightarrow> lease_state \<Rightarrow> bool" where
  ls_same: "lease_step a x x"
| ls_create: "lease_step a Absent Free"
| ls_claim: "lease_step (Some w) Free (Held w)"
| ls_finish: "lease_step (Some w) (Held w) Done"
| ls_return: "lease_step (Some w) (Held w) Free"
| ls_recover: "lease_step None (Held w) Free"
| ls_kill_free: "lease_step None Free Done"
| ls_kill_held: "lease_step None (Held w) Done"

inductive_cases lease_step_HeldE: "lease_step a (Held w) y"
inductive_cases lease_step_DoneE: "lease_step a Done y"
inductive_cases lease_step_FreeE: "lease_step a Free y"
inductive_cases lease_step_to_HeldE: "lease_step a x (Held w)"

inductive_simps lease_step_simps [simp]:
  "lease_step a Done y" "lease_step None Free y" "lease_step (Some w) Free y"
  "lease_step a Absent y" "lease_step (Some w') (Held w) y" "lease_step None (Held w) y"

lemmas lease_step_intros = lease_step.intros

text \<open>Only the holder moves a held row, unless maintenance or an operator steps in.\<close>

lemma lease_step_other: "lease_step (Some w') (Held w) y \<Longrightarrow> w' \<noteq> w \<Longrightarrow> y = Held w"
  by auto

locale lease_protocol =
  fixes step :: "'op \<Rightarrow> 's \<Rightarrow> 's res"
    and inv :: "'s \<Rightarrow> bool"
    and lease :: "'s \<Rightarrow> uuid \<Rightarrow> lease_state"
    and actor :: "'op \<Rightarrow> string option"
  assumes inv_step: "inv s \<Longrightarrow> step p s = Inr s' \<Longrightarrow> inv s'"
    and refines: "inv s \<Longrightarrow> step p s = Inr s' \<Longrightarrow> lease_step (actor p) (lease s i) (lease s' i)"
begin

lemma run_preserves_inv: "inv s \<Longrightarrow> inv (run_ops step ps s)"
  by (induction ps arbitrary: s) (auto split: sum.splits dest: inv_step)

lemma fenced:
  assumes "inv s" and "lease s i = Held w" and "\<And>p. p \<in> set ps \<Longrightarrow> \<exists>w'. actor p = Some w' \<and> w' \<noteq> w"
  shows "lease (run_ops step ps s) i = Held w"
  using assms
proof (induction ps arbitrary: s)
  case Nil
  then show ?case by simp
next
  case (Cons p ps)
  obtain w' where w': "actor p = Some w'" "w' \<noteq> w" using Cons.prems(3) [of p] by auto
  show ?case
  proof (cases "step p s")
    case (Inl e)
    then show ?thesis using Cons by simp
  next
    case (Inr s')
    have "lease s' i = Held w"
      using refines [OF Cons.prems(1) Inr, of i] Cons.prems(2) w' lease_step_other by simp
    then show ?thesis
      using Cons.IH [of s'] Cons.prems(3) inv_step [OF Cons.prems(1) Inr] Inr by simp
  qed
qed

lemma done_is_final:
  assumes "inv s" and "lease s i = Done"
  shows "lease (run_ops step ps s) i = Done"
  using assms
proof (induction ps arbitrary: s)
  case Nil
  then show ?case by simp
next
  case (Cons p ps)
  show ?case
  proof (cases "step p s")
    case (Inl e)
    then show ?thesis using Cons by simp
  next
    case (Inr s')
    have "lease s' i = Done"
      using refines [OF Cons.prems(1) Inr, of i] Cons.prems(2) by simp
    then show ?thesis
      using Cons.IH [of s'] inv_step [OF Cons.prems(1) Inr] Inr by simp
  qed
qed

end

end
