(* ===== verification/Job_Queue.thy ===== *)
theory Job_Queue
  imports Audit_Log Backoff Lease_Contract
begin

text \<open>
  \<open>repositories/queue.py\<close>: the job queue in PostgreSQL. One definition per repository
  function, each a function of the database that returns the result and the new database, or
  the error it raises.

  What the code takes from its environment is an argument: \<open>utcnow\<close> (the system clock),
  \<open>new_id\<close> (\<open>new_entity_id()\<close>), \<open>r\<close> (the random draw of the jitter),
  \<open>locked\<close> (the rows other transactions hold locked, which \<open>FOR UPDATE SKIP LOCKED\<close>
  passes over), \<open>naive\<close> (what the driver makes of a naive datetime) and \<open>vis\<close>
  (the rows the statement's snapshot sees: all of them under READ COMMITTED).
\<close>

section \<open>Operations\<close>

record new_job =
  nj_job_type :: string
  nj_idempotency_key :: string
  nj_args :: string
  nj_priority :: int
  nj_max_attempts :: int
  nj_not_before :: "datetime option"
  nj_run_id :: "uuid option"
  nj_source_id :: "uuid option"

definition job_owned :: "uuid \<Rightarrow> string \<Rightarrow> crawl_job \<Rightarrow> bool" where
  "job_owned i owner j \<longleftrightarrow> j_job_id j = i \<and> j_status j = Leased \<and> j_lease_owner j = Some owner"

definition enqueue ::
  "uuid \<Rightarrow> (int \<Rightarrow> ts res) \<Rightarrow> (uuid \<Rightarrow> bool) \<Rightarrow> new_job \<Rightarrow> ts \<Rightarrow> datetime option \<Rightarrow> db
   \<Rightarrow> (crawl_job \<times> db) res" where
  "enqueue new_id naive vis job utcnow now s =
     bind_res (resolve_now utcnow now) (\<lambda>current.
     bind_res (case nj_not_before job of None \<Rightarrow> Inr current | Some d \<Rightarrow> bind_timestamptz naive d)
       (\<lambda>not_before.
       let row = \<lparr>j_job_id = new_id, j_run_id = nj_run_id job, j_source_id = nj_source_id job,
                  j_job_type = nj_job_type job, j_status = Pending,
                  j_priority = nj_priority job, j_idempotency_key = nj_idempotency_key job,
                  j_args = nj_args job, j_attempt = 0, j_max_attempts = nj_max_attempts job,
                  j_not_before = not_before, j_lease_owner = None, j_lease_expires_at = None,
                  j_leased_at = None, j_finished_at = None, j_last_error_code = None,
                  j_last_error_message = None, j_created_at = current, j_updated_at = current\<rparr>
       in if \<not> crawl_job_checks row then Inl IntegrityError
          else if (\<exists>j\<in>set (crawl_jobs s). j_idempotency_key j = nj_idempotency_key job) then
            (case find (\<lambda>j. j_idempotency_key j = nj_idempotency_key job \<and> vis (j_job_id j))
                    (crawl_jobs s) of
               None \<Rightarrow> Inl NotFoundError
             | Some existing \<Rightarrow> Inr (existing, s))
          else if (\<exists>j\<in>set (crawl_jobs s). j_job_id j = new_id)
              \<or> (case nj_run_id job of None \<Rightarrow> False
                  | Some run \<Rightarrow> \<forall>x\<in>set (crawl_runs s). r_id x \<noteq> run) then Inl IntegrityError
          else Inr (row, s\<lparr>crawl_jobs := crawl_jobs s @ [row]\<rparr>)))"

definition claim_key :: "crawl_job \<Rightarrow> int \<times> ts \<times> uuid" where
  "claim_key j = (- j_priority j, j_not_before j, j_job_id j)"

definition job_claimable :: "uuid list \<Rightarrow> string list \<Rightarrow> ts \<Rightarrow> crawl_job \<Rightarrow> bool" where
  "job_claimable locked job_types current j \<longleftrightarrow>
     claimable_status (j_status j) \<and> j_not_before j \<le> current
     \<and> j_job_type j \<in> set job_types \<and> j_job_id j \<notin> set locked"

definition job_leased :: "string \<Rightarrow> int \<Rightarrow> ts \<Rightarrow> crawl_job \<Rightarrow> crawl_job" where
  "job_leased worker lease_seconds current j =
     j\<lparr>j_status := Leased, j_lease_owner := Some worker,
       j_lease_expires_at := Some (current + lease_seconds * second),
       j_leased_at := Some current, j_attempt := j_attempt j + 1, j_updated_at := current\<rparr>"

definition claim ::
  "uuid list \<Rightarrow> string list \<Rightarrow> string \<Rightarrow> int \<Rightarrow> int \<Rightarrow> ts \<Rightarrow> datetime option \<Rightarrow> db
   \<Rightarrow> (crawl_job list \<times> db) res" where
  "claim locked job_types worker lease_seconds limit utcnow now s =
     (if job_types = [] then Inr ([], s)
      else if limit < 1 \<or> lease_seconds < 1 then Inl ValueError
      else bind_res (resolve_now utcnow now) (\<lambda>current.
        let candidates = order_limit claim_key (nat limit)
              (filter (job_claimable locked job_types current) (crawl_jobs s));
            rows = upd_selected j_job_id candidates (job_leased worker lease_seconds current)
                     (crawl_jobs s)
        in Inr (sort_key claim_key (returning j_job_id candidates rows),
                s\<lparr>crawl_jobs := rows\<rparr>)))"

definition heartbeat ::
  "uuid \<Rightarrow> string \<Rightarrow> int \<Rightarrow> ts \<Rightarrow> datetime option \<Rightarrow> db \<Rightarrow> (ts \<times> db) res" where
  "heartbeat i owner lease_seconds utcnow now s =
     bind_res (resolve_now utcnow now) (\<lambda>current.
       let expires = current + lease_seconds * second
       in if \<not> (\<exists>j\<in>set (crawl_jobs s). job_owned i owner j) then Inl LeaseNotOwnedError
          else Inr (expires, s\<lparr>crawl_jobs := upd_where (job_owned i owner)
                 (\<lambda>j. j\<lparr>j_lease_expires_at := Some expires, j_updated_at := current\<rparr>)
                 (crawl_jobs s)\<rparr>))"

definition job_succeeded :: "ts \<Rightarrow> crawl_job \<Rightarrow> crawl_job" where
  "job_succeeded current j =
     j\<lparr>j_status := Succeeded, j_lease_owner := None, j_lease_expires_at := None,
       j_finished_at := Some current, j_updated_at := current\<rparr>"

definition complete ::
  "uuid \<Rightarrow> string \<Rightarrow> ts \<Rightarrow> datetime option \<Rightarrow> db \<Rightarrow> (crawl_job \<times> db) res" where
  "complete i owner utcnow now s =
     bind_res (resolve_now utcnow now) (\<lambda>current.
       case find (job_owned i owner) (crawl_jobs s) of
         None \<Rightarrow> Inl LeaseNotOwnedError
       | Some j \<Rightarrow> Inr (job_succeeded current j,
           s\<lparr>crawl_jobs := upd_where (job_owned i owner) (job_succeeded current) (crawl_jobs s)\<rparr>))"

definition lock_owned :: "uuid \<Rightarrow> string \<Rightarrow> db \<Rightarrow> crawl_job res" where
  "lock_owned i owner s =
     (case find (job_owned i owner) (crawl_jobs s) of
        None \<Rightarrow> Inl LeaseNotOwnedError | Some j \<Rightarrow> Inr j)"

definition lock_any :: "uuid \<Rightarrow> db \<Rightarrow> crawl_job res" where
  "lock_any i s =
     (case find (\<lambda>j. j_job_id j = i) (crawl_jobs s) of
        None \<Rightarrow> Inl NotFoundError
      | Some j \<Rightarrow> if terminal_status (j_status j) then Inl LeaseNotOwnedError else Inr j)"

definition job_quarantined :: "string \<Rightarrow> ustr option \<Rightarrow> ts \<Rightarrow> crawl_job \<Rightarrow> crawl_job" where
  "job_quarantined error_code error_message current j =
     j\<lparr>j_status := Quarantined, j_lease_owner := None, j_lease_expires_at := None,
       j_finished_at := Some current, j_last_error_code := Some error_code,
       j_last_error_message := truncate_message error_message, j_updated_at := current\<rparr>"

definition quarantine_locked ::
  "uuid \<Rightarrow> crawl_job \<Rightarrow> dead_letter_reason \<Rightarrow> string \<Rightarrow> ustr option \<Rightarrow> ts \<Rightarrow> db
   \<Rightarrow> (crawl_job \<times> db) res" where
  "quarantine_locked dl_id job reason error_code error_message current s =
     (let letter = \<lparr>d_id = dl_id, d_job_id = j_job_id job, d_job_type = j_job_type job,
                    d_reason = reason, d_attempt = j_attempt job, d_error_code = Some error_code,
                    d_error_message = truncate_message error_message, d_created_at = current,
                    d_resolved_at = None, d_resolved_by = None, d_resolution = None\<rparr>
      in if (\<exists>d\<in>set (dead_letters s). d_id d = dl_id) then Inl IntegrityError
         else Inr (job_quarantined error_code error_message current job,
           s\<lparr>crawl_jobs := upd_where (\<lambda>j. j_job_id j = j_job_id job)
               (job_quarantined error_code error_message current) (crawl_jobs s),
             dead_letters := dead_letters s @ [letter]\<rparr>))"

definition job_retried :: "string \<Rightarrow> ustr option \<Rightarrow> ts \<Rightarrow> ts \<Rightarrow> crawl_job \<Rightarrow> crawl_job" where
  "job_retried error_code error_message not_before current j =
     j\<lparr>j_status := Retry, j_lease_owner := None, j_lease_expires_at := None,
       j_not_before := not_before, j_last_error_code := Some error_code,
       j_last_error_message := truncate_message error_message, j_updated_at := current\<rparr>"

definition retry ::
  "uuid \<Rightarrow> rat \<Rightarrow> uuid \<Rightarrow> string \<Rightarrow> string \<Rightarrow> ustr option \<Rightarrow> backoff_policy option
   \<Rightarrow> datetime option \<Rightarrow> ts \<Rightarrow> datetime option \<Rightarrow> db \<Rightarrow> (crawl_job \<times> db) res" where
  "retry dl_id r i owner error_code error_message policy not_before utcnow now s =
     bind_res (resolve_now utcnow now) (\<lambda>current.
     bind_res (lock_owned i owner s) (\<lambda>job.
       if j_max_attempts job \<le> j_attempt job
       then quarantine_locked dl_id job MaxAttempts error_code error_message current s
       else bind_res (next_attempt_at (Aware current 0) (j_attempt job) policy r not_before)
         (\<lambda>nb. Inr (job_retried error_code error_message nb current job,
           s\<lparr>crawl_jobs := upd_where (\<lambda>j. j_job_id j = j_job_id job)
               (job_retried error_code error_message nb current) (crawl_jobs s)\<rparr>))))"

definition status_text :: "job_status \<Rightarrow> string" where
  "status_text st = (case st of Pending \<Rightarrow> ''pending'' | Leased \<Rightarrow> ''leased''
     | Succeeded \<Rightarrow> ''succeeded'' | Retry \<Rightarrow> ''retry'' | Quarantined \<Rightarrow> ''quarantined'')"

definition quarantine ::
  "uuid \<Rightarrow> uuid \<Rightarrow> uuid \<Rightarrow> string option \<Rightarrow> string \<Rightarrow> ustr option \<Rightarrow> ustr option \<Rightarrow> ustr option
   \<Rightarrow> string option \<Rightarrow> ts \<Rightarrow> datetime option \<Rightarrow> db \<Rightarrow> (crawl_job \<times> db) res" where
  "quarantine dl_id audit_id i owner error_code error_message actor reason request_id utcnow now s =
     bind_res (resolve_now utcnow now) (\<lambda>current.
     bind_res (case owner of None \<Rightarrow> map_sum id (\<lambda>_. ()) (require_audit_context actor reason)
                 | Some _ \<Rightarrow> Inr ()) (\<lambda>_.
     bind_res (case owner of Some w \<Rightarrow> lock_owned i w s | None \<Rightarrow> lock_any i s) (\<lambda>job.
     bind_res (quarantine_locked dl_id job QuarantineReason error_code error_message current s)
       (\<lambda>(quarantined, s1).
       case (owner, actor) of
         (None, Some a) \<Rightarrow>
           bind_res (append_audit audit_id utcnow a ''crawl_job.quarantine'' ''crawl_job''
             (ResUuid i)
             (Some (JObj [(''status'', JText (status_text (j_status job))),
                          (''attempt'', JInt (j_attempt quarantined))]))
             (Some (JObj [(''status'', JText (status_text (j_status quarantined))),
                          (''error_code'', JText error_code),
                          (''reason'', case reason of None \<Rightarrow> JNull | Some t \<Rightarrow> JStr t)]))
             request_id None (Some (Aware current 0)) s1)
           (\<lambda>(_, s2). Inr (quarantined, s2))
       | _ \<Rightarrow> Inr (quarantined, s1)))))"

definition job_released :: "ts \<Rightarrow> ts \<Rightarrow> crawl_job \<Rightarrow> crawl_job" where
  "job_released not_before current j =
     j\<lparr>j_status := Pending, j_lease_owner := None, j_lease_expires_at := None,
       j_leased_at := None, j_not_before := not_before,
       j_attempt := max (j_attempt j - 1) 0, j_updated_at := current\<rparr>"

definition release ::
  "uuid \<Rightarrow> string \<Rightarrow> datetime option \<Rightarrow> ts \<Rightarrow> datetime option \<Rightarrow> db \<Rightarrow> (crawl_job \<times> db) res" where
  "release i owner not_before utcnow now s =
     bind_res (resolve_now utcnow now) (\<lambda>current.
     bind_res (clamp_not_before not_before (Aware current 0)) (\<lambda>nb.
       case find (job_owned i owner) (crawl_jobs s) of
         None \<Rightarrow> Inl LeaseNotOwnedError
       | Some j \<Rightarrow> Inr (job_released nb current j,
           s\<lparr>crawl_jobs := upd_where (job_owned i owner) (job_released nb current) (crawl_jobs s)\<rparr>)))"

definition job_expired :: "ts \<Rightarrow> crawl_job \<Rightarrow> bool" where
  "job_expired current j \<longleftrightarrow> j_status j = Leased
     \<and> (case j_lease_expires_at j of None \<Rightarrow> False | Some t \<Rightarrow> t \<le> current)"

definition expires_key :: "ts option \<Rightarrow> ts" where
  "expires_key t = (case t of None \<Rightarrow> 0 | Some x \<Rightarrow> x)"

definition job_recovered :: "ts \<Rightarrow> crawl_job \<Rightarrow> crawl_job" where
  "job_recovered current j =
     j\<lparr>j_status := Pending, j_lease_owner := None, j_lease_expires_at := None,
       j_updated_at := current\<rparr>"

definition recover_expired_leases ::
  "uuid list \<Rightarrow> int \<Rightarrow> ts \<Rightarrow> datetime option \<Rightarrow> db \<Rightarrow> (uuid list \<times> db) res" where
  "recover_expired_leases locked limit utcnow now s =
     bind_res (resolve_now utcnow now) (\<lambda>current.
       if limit < 0 then Inl DataError
       else let expired = order_limit (\<lambda>j. expires_key (j_lease_expires_at j)) (nat limit)
                  (filter (\<lambda>j. job_expired current j \<and> j_job_id j \<notin> set locked) (crawl_jobs s))
            in Inr (map j_job_id expired,
                    s\<lparr>crawl_jobs := upd_selected j_job_id expired (job_recovered current)
                       (crawl_jobs s)\<rparr>))"

definition get_job :: "uuid \<Rightarrow> db \<Rightarrow> crawl_job option" where
  "get_job i s = find (\<lambda>j. j_job_id j = i) (crawl_jobs s)"

definition list_dead_letters :: "(ts \<times> uuid) option \<Rightarrow> nat \<Rightarrow> bool \<Rightarrow> db \<Rightarrow> dead_letter list" where
  "list_dead_letters after limit unresolved_only s =
     order_limit (\<lambda>d. (d_created_at d, d_id d)) limit
       (filter (\<lambda>d. (unresolved_only \<longrightarrow> d_resolved_at d = None)
          \<and> (case after of None \<Rightarrow> True
             | Some (created_at, i) \<Rightarrow> d_created_at d > created_at
                 \<or> (d_created_at d = created_at \<and> d_id d > i))) (dead_letters s))"

lemmas [op_defs] = enqueue_def claim_def heartbeat_def complete_def retry_def release_def
  quarantine_def recover_expired_leases_def quarantine_locked_def lock_owned_def lock_any_def


section \<open>The operations as one step function\<close>

datatype queue_op =
    QEnqueue uuid "int \<Rightarrow> ts res" "uuid \<Rightarrow> bool" new_job ts "datetime option"
  | QClaim "uuid list" "string list" string int int ts "datetime option"
  | QHeartbeat uuid string int ts "datetime option"
  | QComplete uuid string ts "datetime option"
  | QRetry uuid rat uuid string string "ustr option" "backoff_policy option" "datetime option"
      ts "datetime option"
  | QQuarantine uuid uuid uuid "string option" string "ustr option" "ustr option" "ustr option"
      "string option" ts "datetime option"
  | QRelease uuid string "datetime option" ts "datetime option"
  | QRecover "uuid list" int ts "datetime option"

fun queue_step :: "queue_op \<Rightarrow> db \<Rightarrow> db res" where
  "queue_step (QEnqueue i n v job c now) s = drop_ret (enqueue i n v job c now s)"
| "queue_step (QClaim lk tys w ls lm c now) s = drop_ret (claim lk tys w ls lm c now s)"
| "queue_step (QHeartbeat i w ls c now) s = drop_ret (heartbeat i w ls c now s)"
| "queue_step (QComplete i w c now) s = drop_ret (complete i w c now s)"
| "queue_step (QRetry d r i w ec em p nb c now) s = drop_ret (retry d r i w ec em p nb c now s)"
| "queue_step (QQuarantine d a i w ec em ac re rq c now) s =
     drop_ret (quarantine d a i w ec em ac re rq c now s)"
| "queue_step (QRelease i w nb c now) s = drop_ret (release i w nb c now s)"
| "queue_step (QRecover lk lm c now) s = drop_ret (recover_expired_leases lk lm c now s)"

text \<open>The worker an operation speaks for; \<open>None\<close> for the scheduler and the operator.\<close>

fun queue_actor :: "queue_op \<Rightarrow> string option" where
  "queue_actor (QClaim lk tys w ls lm c now) = Some w"
| "queue_actor (QHeartbeat i w ls c now) = Some w"
| "queue_actor (QComplete i w c now) = Some w"
| "queue_actor (QRetry d r i w ec em p nb c now) = Some w"
| "queue_actor (QQuarantine d a i w ec em ac re rq c now) = w"
| "queue_actor (QRelease i w nb c now) = Some w"
| "queue_actor _ = None"

section \<open>The invariant\<close>

definition letters_of :: "uuid \<Rightarrow> db \<Rightarrow> dead_letter list" where
  "letters_of i s = filter (\<lambda>d. d_job_id d = i) (dead_letters s)"

text \<open>
  Primary key, unique idempotency key, the CHECK constraints of the table, the foreign key of
  the dead letters, and that a job has a dead letter exactly when it is quarantined, and then
  exactly one.
\<close>

definition letters_match :: "db \<Rightarrow> crawl_job \<Rightarrow> bool" where
  "letters_match s j \<longleftrightarrow>
     length (letters_of (j_job_id j) s) = (if j_status j = Quarantined then 1 else 0)"

definition queue_inv :: "db \<Rightarrow> bool" where
  "queue_inv s \<longleftrightarrow>
     distinct (map j_job_id (crawl_jobs s)) \<and> distinct (map j_idempotency_key (crawl_jobs s))
     \<and> list_all crawl_job_checks (crawl_jobs s)
     \<and> (\<forall>d\<in>set (dead_letters s). d_job_id d \<in> j_job_id ` set (crawl_jobs s))
     \<and> list_all (letters_match s) (crawl_jobs s)"

lemma queue_invD:
  assumes "queue_inv s"
  shows "distinct (map j_job_id (crawl_jobs s))"
    and "distinct (map j_idempotency_key (crawl_jobs s))"
    and "j \<in> set (crawl_jobs s) \<Longrightarrow> crawl_job_checks j"
    and "j \<in> set (crawl_jobs s) \<Longrightarrow> letters_match s j"
    and "d \<in> set (dead_letters s) \<Longrightarrow> d_job_id d \<in> j_job_id ` set (crawl_jobs s)"
  using assms by (auto simp: queue_inv_def list_all_iff)

lemma get_jobD: "get_job i s = Some j \<Longrightarrow> j \<in> set (crawl_jobs s) \<and> j_job_id j = i"
  unfolding get_job_def by (drule find_SomeD) simp

text \<open>An UPDATE that keeps the keys, the CHECKs and the quarantine status keeps the invariant.\<close>

lemma queue_inv_upd:
  assumes inv: "queue_inv s"
    and keys: "\<And>j. j_job_id (f j) = j_job_id j" "\<And>j. j_idempotency_key (f j) = j_idempotency_key j"
    and checks: "\<And>j. j \<in> set (crawl_jobs s) \<Longrightarrow> p j \<Longrightarrow> crawl_job_checks j \<Longrightarrow> crawl_job_checks (f j)"
    and quar: "\<And>j. j \<in> set (crawl_jobs s) \<Longrightarrow> p j \<Longrightarrow>
       (j_status (f j) = Quarantined) = (j_status j = Quarantined)"
  shows "queue_inv (s\<lparr>crawl_jobs := upd_where p f (crawl_jobs s)\<rparr>)"
proof -
  let ?s = "s\<lparr>crawl_jobs := upd_where p f (crawl_jobs s)\<rparr>"
  have ids: "map j_job_id (crawl_jobs ?s) = map j_job_id (crawl_jobs s)"
    and idem: "map j_idempotency_key (crawl_jobs ?s) = map j_idempotency_key (crawl_jobs s)"
    by (simp_all add: map_upd_where keys)
  have idset: "j_job_id ` set (crawl_jobs ?s) = j_job_id ` set (crawl_jobs s)"
    using ids by (metis list.set_map)
  have "list_all crawl_job_checks (upd_where p f (crawl_jobs s))"
    using inv checks by (intro list_all_upd_where) (auto simp: queue_inv_def)
  moreover have "list_all (letters_match ?s) (upd_where p f (crawl_jobs s))"
    using inv quar keys
    by (intro list_all_upd_where)
      (auto simp: queue_inv_def letters_match_def letters_of_def list_all_iff)
  ultimately show ?thesis
    using inv ids idem idset unfolding queue_inv_def by simp
qed

lemma job_owned_unique:
  assumes "queue_inv s" and "j \<in> set (crawl_jobs s)" and "job_owned i w j"
    and "j' \<in> set (crawl_jobs s)" and "j_job_id j' = i"
  shows "j' = j"
  using assms distinct_key_inj [OF queue_invD(1) [OF assms(1)], of j' j] by (simp add: job_owned_def)

lemma find_owned:
  assumes "queue_inv s" and "j \<in> set (crawl_jobs s)" and "job_owned i w j"
  shows "find (job_owned i w) (crawl_jobs s) = Some j"
proof (cases "find (job_owned i w) (crawl_jobs s)")
  case None
  then show ?thesis using assms(2,3) by (auto dest: find_NoneD)
next
  case (Some k)
  then show ?thesis
    using find_SomeD [OF Some] job_owned_unique [OF assms] by (simp add: job_owned_def)
qed

lemma lock_ownedD:
  "lock_owned i w s = Inr j \<Longrightarrow> j \<in> set (crawl_jobs s) \<and> job_owned i w j"
  by (auto simp: lock_owned_def split: option.splits dest: find_SomeD)

lemma lock_anyD:
  "lock_any i s = Inr j \<Longrightarrow>
     j \<in> set (crawl_jobs s) \<and> j_job_id j = i \<and> \<not> terminal_status (j_status j)"
  by (auto simp: lock_any_def split: option.splits if_splits dest: find_SomeD)

lemma quarantine_locked_inv:
  assumes inv: "queue_inv s" and job: "job \<in> set (crawl_jobs s)" "j_status job \<noteq> Quarantined"
    and step: "quarantine_locked d job reason ec em c s = Inr (q, s')"
  shows "queue_inv s'"
proof -
  let ?f = "job_quarantined ec em c" and ?p = "\<lambda>j. j_job_id j = j_job_id job"
  obtain letter where s': "s' = s\<lparr>crawl_jobs := upd_where ?p ?f (crawl_jobs s),
      dead_letters := dead_letters s @ [letter]\<rparr>" and l: "d_job_id letter = j_job_id job"
    using step by (auto simp: quarantine_locked_def Let_def split: if_splits)
  have keys: "j_job_id (?f j) = j_job_id j" "j_idempotency_key (?f j) = j_idempotency_key j" for j
    by (simp_all add: job_quarantined_def)
  have ids: "map j_job_id (crawl_jobs s') = map j_job_id (crawl_jobs s)"
    and idem: "map j_idempotency_key (crawl_jobs s') = map j_idempotency_key (crawl_jobs s)"
    by (simp_all add: s' map_upd_where keys)
  have idset: "j_job_id ` set (crawl_jobs s') = j_job_id ` set (crawl_jobs s)"
    using ids by (metis list.set_map)
  have "list_all crawl_job_checks (crawl_jobs s')"
    unfolding s' using inv
    by (auto simp: queue_inv_def job_quarantined_def crawl_job_checks_def lease_consistent_def
        intro!: list_all_upd_where)
  moreover have "list_all (letters_match s') (crawl_jobs s')"
  proof (unfold list_all_iff, rule ballI)
    fix x assume "x \<in> set (crawl_jobs s')"
    then obtain j where j: "j \<in> set (crawl_jobs s)" and x: "x = (if ?p j then ?f j else j)"
      by (auto simp: s' upd_where_def)
    have "j = job" if "?p j"
      using distinct_key_inj [OF queue_invD(1) [OF inv] j job(1)] that by simp
    then show "letters_match s' x"
      using queue_invD(4) [OF inv j] queue_invD(4) [OF inv job(1)] job(2) l
      by (auto simp: x s' letters_match_def letters_of_def job_quarantined_def)
  qed
  moreover have "\<forall>d\<in>set (dead_letters s'). d_job_id d \<in> j_job_id ` set (crawl_jobs s)"
    using inv job(1) l by (auto simp: queue_inv_def s')
  ultimately show ?thesis
    using inv ids idem idset unfolding queue_inv_def by simp
qed

lemma queue_inv_audit [simp]: "queue_inv (s\<lparr>audit_logs := a\<rparr>) = queue_inv s"
  by (simp add: queue_inv_def letters_match_def [abs_def] letters_of_def)

section \<open>Every operation keeps the invariant\<close>

lemmas job_updates = job_leased_def job_succeeded_def job_retried_def job_released_def
  job_recovered_def job_quarantined_def crawl_job_checks_def lease_consistent_def

lemma enqueue_cases:
  assumes "enqueue i n v job c now s = Inr (j, s')"
  shows "(s' = s \<and> j \<in> set (crawl_jobs s) \<and> j_idempotency_key j = nj_idempotency_key job) \<or>
    (s' = s\<lparr>crawl_jobs := crawl_jobs s @ [j]\<rparr> \<and> crawl_job_checks j \<and> j_status j = Pending
     \<and> j_job_id j = i \<and> j_attempt j = 0 \<and> j_idempotency_key j = nj_idempotency_key job
     \<and> i \<notin> j_job_id ` set (crawl_jobs s)
     \<and> nj_idempotency_key job \<notin> j_idempotency_key ` set (crawl_jobs s))"
  using assms
  by (auto simp: enqueue_def Let_def split: if_splits option.split_asm dest: find_SomeD)

lemma enqueue_inv:
  assumes inv: "queue_inv s" and step: "enqueue i n v job c now s = Inr (j, s')"
  shows "queue_inv s'"
  using enqueue_cases [OF step]
proof (elim disjE conjE)
  assume "s' = s" then show ?thesis using inv by simp
next
  assume s': "s' = s\<lparr>crawl_jobs := crawl_jobs s @ [j]\<rparr>" and ok: "crawl_job_checks j"
    and st: "j_status j = Pending" and i: "j_job_id j = i"
    and key: "j_idempotency_key j = nj_idempotency_key job"
    and fresh: "i \<notin> j_job_id ` set (crawl_jobs s)"
      "nj_idempotency_key job \<notin> j_idempotency_key ` set (crawl_jobs s)"
  have none: "letters_of i s = []"
    using queue_invD(5) [OF inv] fresh(1) by (auto simp: letters_of_def filter_empty_conv)
  have "letters_match s' k = letters_match s k" for k
    by (simp add: s' letters_match_def letters_of_def)
  moreover have "letters_match s j" using none st i by (simp add: letters_match_def)
  ultimately show ?thesis
    using inv ok fresh i key unfolding queue_inv_def s' by (auto simp: list_all_iff)
qed

lemma claim_inv:
  assumes "queue_inv s" and "claim lk tys w ls lm c now s = Inr (js, s')"
  shows "queue_inv s'"
proof -
  let ?cands = "\<lambda>cur. order_limit claim_key (nat lm) (filter (job_claimable lk tys cur) (crawl_jobs s))"
  have free: "claimable_status (j_status j)"
    if "j \<in> set (crawl_jobs s)" "j_job_id j \<in> j_job_id ` set (?cands cur)" for j cur
    using selected_row [OF queue_invD(1) [OF assms(1)] that] by (simp add: job_claimable_def)
  have "queue_inv (s\<lparr>crawl_jobs := upd_where (\<lambda>j. j_job_id j \<in> j_job_id ` set (?cands cur))
      (job_leased w ls cur) (crawl_jobs s)\<rparr>)" for cur
    by (rule queue_inv_upd [OF assms(1)])
      (auto simp: job_updates dest: free split: if_splits)
  then show ?thesis
    using assms by (auto simp: claim_def Let_def upd_selected_def split: if_splits)
qed

lemma heartbeat_inv:
  assumes "queue_inv s" and "heartbeat i w ls c now s = Inr (t, s')"
  shows "queue_inv s'"
  using assms
  by (auto simp: heartbeat_def Let_def job_owned_def crawl_job_checks_def lease_consistent_def
      split: if_splits intro!: queue_inv_upd)

lemma complete_inv:
  assumes "queue_inv s" and "complete i w c now s = Inr (j, s')"
  shows "queue_inv s'"
  using assms
  by (auto simp: complete_def job_updates job_owned_def split: option.splits intro!: queue_inv_upd)

lemma release_inv:
  assumes "queue_inv s" and "release i w nb c now s = Inr (j, s')"
  shows "queue_inv s'"
  using assms
  by (auto simp: release_def job_updates job_owned_def split: option.splits intro!: queue_inv_upd)

lemma retry_inv:
  assumes inv: "queue_inv s" and step: "retry d r i w ec em p nb c now s = Inr (j, s')"
  shows "queue_inv s'"
proof -
  obtain cur job where cur: "resolve_now c now = Inr cur" and lock: "lock_owned i w s = Inr job"
    using step by (auto simp: retry_def)
  have job: "job \<in> set (crawl_jobs s)" "job_owned i w job" using lock_ownedD [OF lock] by auto
  have st: "j_status k = Leased" if "k \<in> set (crawl_jobs s)" "j_job_id k = j_job_id job" for k
    using job_owned_unique [OF inv job that(1)] that(2) job(2) by (simp add: job_owned_def)
  show ?thesis
  proof (cases "j_max_attempts job \<le> j_attempt job")
    case True
    then show ?thesis
      using step cur lock job quarantine_locked_inv [OF inv job(1)]
      by (auto simp: retry_def job_owned_def)
  next
    case False
    then show ?thesis
      using step cur lock inv st
      by (auto simp: retry_def job_updates intro!: queue_inv_upd)
  qed
qed

lemma quarantine_steps:
  assumes "quarantine d a i w ec em ac re rq c now s = Inr (j, s')"
  obtains cur job s1 where "resolve_now c now = Inr cur"
    and "(case w of Some x \<Rightarrow> lock_owned i x s | None \<Rightarrow> lock_any i s) = Inr job"
    and "quarantine_locked d job QuarantineReason ec em cur s = Inr (j, s1)"
    and "case w of Some _ \<Rightarrow> s' = s1
         | None \<Rightarrow> \<exists>act x y. require_audit_context ac re = Inr (act, y)
             \<and> s' = s1\<lparr>audit_logs := audit_logs s1 @ [x]\<rparr> \<and> a_actor x = act
             \<and> a_action x = ''crawl_job.quarantine'' \<and> a_resource_id x = ResUuid i"
proof (cases w)
  case (Some x)
  then show ?thesis using assms that by (fastforce simp: quarantine_def)
next
  case None
  obtain cur y job s1 x where st: "resolve_now c now = Inr cur"
    "map_sum id (\<lambda>_. ()) (require_audit_context ac re) = Inr y"
    "lock_any i s = Inr job"
    "quarantine_locked d job QuarantineReason ec em cur s = Inr (j, s1)"
    "(case ac of None \<Rightarrow> s' = s1
      | Some act \<Rightarrow> \<exists>be af. append_audit a c act ''crawl_job.quarantine'' ''crawl_job'' (ResUuid i)
           be af rq None (Some (Aware cur 0)) s1 = Inr (x, s'))"
    using assms None by (fastforce simp: quarantine_def split: option.splits)
  from st(2) obtain act r where ctx: "require_audit_context ac re = Inr (act, r)"
    by (cases "require_audit_context ac re") auto
  then have "ac = Some act" by (simp add: require_audit_context_Inr)
  with st(5) have "s' = s1\<lparr>audit_logs := audit_logs s1 @ [x]\<rparr> \<and> a_actor x = act
      \<and> a_action x = ''crawl_job.quarantine'' \<and> a_resource_id x = ResUuid i"
    by (auto dest: append_audit_None)
  then show ?thesis using that [OF st(1) _ st(4)] None st(3) ctx by auto
qed

lemma quarantine_inv:
  assumes inv: "queue_inv s"
    and step: "quarantine d a i w ec em ac re rq c now s = Inr (j, s')"
  shows "queue_inv s'"
proof -
  obtain cur job s1 where lock: "(case w of Some x \<Rightarrow> lock_owned i x s | None \<Rightarrow> lock_any i s) = Inr job"
    and q: "quarantine_locked d job QuarantineReason ec em cur s = Inr (j, s1)"
    and rest: "s' = s1 \<or> (\<exists>x. s' = s1\<lparr>audit_logs := x\<rparr>)"
    using step by (elim quarantine_steps) (cases w; fastforce)
  have "job \<in> set (crawl_jobs s)" "j_status job \<noteq> Quarantined"
    using lock lock_ownedD lock_anyD
    by (fastforce simp: job_owned_def terminal_status_def split: option.splits)+
  then have "queue_inv s1" using quarantine_locked_inv [OF inv _ _ q] by blast
  then show ?thesis using rest by auto
qed

lemma recover_inv:
  assumes "queue_inv s" and "recover_expired_leases lk lm c now s = Inr (js, s')"
  shows "queue_inv s'"
proof -
  let ?ex = "\<lambda>cur. order_limit (\<lambda>j. expires_key (j_lease_expires_at j)) (nat lm)
    (filter (\<lambda>j. job_expired cur j \<and> j_job_id j \<notin> set lk) (crawl_jobs s))"
  have leased: "j_status j = Leased"
    if "j \<in> set (crawl_jobs s)" "j_job_id j \<in> j_job_id ` set (?ex cur)" for j cur
    using selected_row [OF queue_invD(1) [OF assms(1)] that] by (simp add: job_expired_def)
  have "queue_inv (s\<lparr>crawl_jobs := upd_where (\<lambda>j. j_job_id j \<in> j_job_id ` set (?ex cur))
      (job_recovered cur) (crawl_jobs s)\<rparr>)" for cur
    by (rule queue_inv_upd [OF assms(1)]) (auto simp: job_updates dest: leased)
  then show ?thesis
    using assms by (auto simp: recover_expired_leases_def Let_def upd_selected_def split: if_splits)
qed

lemmas queue_op_invs = enqueue_inv claim_inv heartbeat_inv complete_inv retry_inv quarantine_inv
  release_inv recover_inv

lemma queue_step_inv: "queue_inv s \<Longrightarrow> queue_step p s = Inr s' \<Longrightarrow> queue_inv s'"
  by (cases p) (auto dest: queue_op_invs)

interpretation jobs: invariant_system queue_step queue_inv
  by unfold_locales (rule queue_step_inv)

lemma queue_inv_empty [simp]: "queue_inv empty_db"
  by (simp add: queue_inv_def)

section \<open>The lease protocol\<close>

definition job_lease_state :: "crawl_job \<Rightarrow> lease_state" where
  "job_lease_state j =
     (case j_status j of
        Leased \<Rightarrow> Held (case j_lease_owner j of None \<Rightarrow> [] | Some w \<Rightarrow> w)
      | Pending \<Rightarrow> Free | Retry \<Rightarrow> Free | Succeeded \<Rightarrow> Done | Quarantined \<Rightarrow> Done)"

definition job_lease :: "db \<Rightarrow> uuid \<Rightarrow> lease_state" where
  "job_lease s i = (case get_job i s of None \<Rightarrow> Absent | Some j \<Rightarrow> job_lease_state j)"

lemma job_lease_state_simps:
  "j_status j = Pending \<Longrightarrow> job_lease_state j = Free"
  "j_status j = Retry \<Longrightarrow> job_lease_state j = Free"
  "j_status j = Succeeded \<Longrightarrow> job_lease_state j = Done"
  "j_status j = Quarantined \<Longrightarrow> job_lease_state j = Done"
  "j_status j = Leased \<Longrightarrow> j_lease_owner j = Some w \<Longrightarrow> job_lease_state j = Held w"
  by (simp_all add: job_lease_state_def)

lemma job_owned_lease: "job_owned i w j \<Longrightarrow> job_lease_state j = Held w"
  by (simp add: job_owned_def job_lease_state_def)

lemma claimable_lease: "claimable_status (j_status j) \<Longrightarrow> job_lease_state j = Free"
  by (auto simp: claimable_status_def job_lease_state_def)

lemma job_lease_upd:
  assumes "\<And>j. j_job_id (f j) = j_job_id j"
    and "\<And>j. j \<in> set (crawl_jobs s) \<Longrightarrow> p j \<Longrightarrow> lease_step a (job_lease_state j) (job_lease_state (f j))"
  shows "lease_step a (job_lease s i) (job_lease (s\<lparr>crawl_jobs := upd_where p f (crawl_jobs s)\<rparr>) i)"
proof -
  have find: "get_job i (s\<lparr>crawl_jobs := upd_where p f (crawl_jobs s)\<rparr>)
    = map_option (\<lambda>j. if p j then f j else j) (get_job i s)"
    unfolding get_job_def by (simp add: find_upd_where assms(1))
  show ?thesis
  proof (cases "get_job i s")
    case None
    then show ?thesis by (simp add: job_lease_def find)
  next
    case (Some j)
    then have "j \<in> set (crawl_jobs s)" by (simp add: get_jobD)
    then show ?thesis using assms(2) Some by (simp add: job_lease_def find ls_same)
  qed
qed

lemma job_lease_upd_frame [simp]:
  "job_lease (s\<lparr>audit_logs := x\<rparr>) i = job_lease s i"
  "job_lease (s\<lparr>dead_letters := y\<rparr>) i = job_lease s i"
  by (simp_all add: job_lease_def get_job_def)

lemma quarantine_locked_lease:
  assumes inv: "queue_inv s" and job: "job \<in> set (crawl_jobs s)"
    and ok: "lease_step a (job_lease_state job) Done"
    and step: "quarantine_locked d job reason ec em c s = Inr (q, s')"
  shows "lease_step a (job_lease s i) (job_lease s' i)"
proof -
  have uniq: "j = job" if "j \<in> set (crawl_jobs s)" "j_job_id j = j_job_id job" for j
    using distinct_key_inj [OF queue_invD(1) [OF inv] that(1) job that(2)] .
  have "lease_step a (job_lease s i) (job_lease (s\<lparr>crawl_jobs := upd_where
      (\<lambda>j. j_job_id j = j_job_id job) (job_quarantined ec em c) (crawl_jobs s)\<rparr>) i)"
    using ok by (intro job_lease_upd)
      (auto simp: job_quarantined_def job_lease_state_simps dest: uniq)
  moreover obtain l where "s' = (s\<lparr>crawl_jobs := upd_where (\<lambda>j. j_job_id j = j_job_id job)
      (job_quarantined ec em c) (crawl_jobs s)\<rparr>)\<lparr>dead_letters := l\<rparr>"
    using step by (auto simp: quarantine_locked_def Let_def split: if_splits)
  ultimately show ?thesis by simp
qed

lemma enqueue_lease:
  assumes "queue_inv s" and "enqueue k n v job c now s = Inr (j, s')"
  shows "lease_step a (job_lease s i) (job_lease s' i)"
  using enqueue_cases [OF assms(2)]
  by (cases "find (\<lambda>j. j_job_id j = i) (crawl_jobs s)")
    (auto simp: job_lease_def get_job_def find_append_rows job_lease_state_simps
      intro: lease_step_intros)

lemma claim_lease:
  assumes "queue_inv s" and "claim lk tys w ls lm c now s = Inr (js, s')"
  shows "lease_step (Some w) (job_lease s i) (job_lease s' i)"
proof -
  have "lease_step (Some w) (job_lease s i) (job_lease (s\<lparr>crawl_jobs := upd_where
      (\<lambda>j. j_job_id j \<in> j_job_id ` set (order_limit claim_key (nat lm)
        (filter (job_claimable lk tys cur) (crawl_jobs s))))
      (job_leased w ls cur) (crawl_jobs s)\<rparr>) i)" for cur
  proof (rule job_lease_upd)
    fix j assume "j \<in> set (crawl_jobs s)" and "j_job_id j \<in> j_job_id ` set (order_limit claim_key (nat lm)
        (filter (job_claimable lk tys cur) (crawl_jobs s)))"
    then have "job_claimable lk tys cur j" using selected_row [OF queue_invD(1) [OF assms(1)]] by blast
    then have "job_lease_state j = Free" by (simp add: job_claimable_def claimable_lease)
    then show "lease_step (Some w) (job_lease_state j) (job_lease_state (job_leased w ls cur j))"
      by (simp add: job_leased_def job_lease_state_def)
  qed (simp add: job_leased_def)
  then show ?thesis
    using assms(2) by (auto simp: claim_def Let_def upd_selected_def split: if_splits intro: ls_same)
qed

lemma owned_update_lease:
  assumes "\<And>j. j_job_id (f j) = j_job_id j"
    and "\<And>j. job_owned k w j \<Longrightarrow> lease_step (Some w) (Held w) (job_lease_state (f j))"
  shows "lease_step (Some w) (job_lease s i)
    (job_lease (s\<lparr>crawl_jobs := upd_where (job_owned k w) f (crawl_jobs s)\<rparr>) i)"
  using assms by (intro job_lease_upd) (auto simp: job_owned_lease)

lemma heartbeat_lease:
  assumes "heartbeat k w ls c now s = Inr (t, s')"
  shows "lease_step (Some w) (job_lease s i) (job_lease s' i)"
  using assms
  by (auto simp: heartbeat_def Let_def job_owned_def job_lease_state_def split: if_splits
      intro!: owned_update_lease)

lemma complete_lease:
  assumes "complete k w c now s = Inr (j, s')"
  shows "lease_step (Some w) (job_lease s i) (job_lease s' i)"
  using assms
  by (auto simp: complete_def job_succeeded_def job_lease_state_def split: option.splits
      intro!: owned_update_lease)

lemma release_lease:
  assumes "release k w nb c now s = Inr (j, s')"
  shows "lease_step (Some w) (job_lease s i) (job_lease s' i)"
  using assms
  by (auto simp: release_def job_released_def job_lease_state_def split: option.splits
      intro!: owned_update_lease)

lemma retry_lease:
  assumes inv: "queue_inv s" and step: "retry d r k w ec em p nb c now s = Inr (j, s')"
  shows "lease_step (Some w) (job_lease s i) (job_lease s' i)"
proof -
  obtain cur job where cur: "resolve_now c now = Inr cur" and lock: "lock_owned k w s = Inr job"
    using step by (auto simp: retry_def)
  have job: "job \<in> set (crawl_jobs s)" "job_owned k w job" using lock_ownedD [OF lock] by auto
  show ?thesis
  proof (cases "j_max_attempts job \<le> j_attempt job")
    case True
    then show ?thesis
      using step cur lock quarantine_locked_lease [OF inv job(1)] job_owned_lease [OF job(2)]
      by (auto simp: retry_def)
  next
    case False
    then obtain t where s': "s' = s\<lparr>crawl_jobs := upd_where (\<lambda>j. j_job_id j = j_job_id job)
        (job_retried ec em t cur) (crawl_jobs s)\<rparr>"
      using step cur lock by (auto simp: retry_def)
    show ?thesis
      unfolding s'
    proof (rule job_lease_upd)
      fix x assume "x \<in> set (crawl_jobs s)" "j_job_id x = j_job_id job"
      then have "x = job" using distinct_key_inj [OF queue_invD(1) [OF inv] _ job(1)] by blast
      then show "lease_step (Some w) (job_lease_state x) (job_lease_state (job_retried ec em t cur x))"
        using job_owned_lease [OF job(2)] by (simp add: job_retried_def job_lease_state_def)
    qed (simp add: job_retried_def)
  qed
qed

lemma quarantine_lease:
  assumes inv: "queue_inv s" and step: "quarantine d a k w ec em ac re rq c now s = Inr (j, s')"
  shows "lease_step w (job_lease s i) (job_lease s' i)"
proof -
  obtain cur job s1 where lock: "(case w of Some x \<Rightarrow> lock_owned k x s | None \<Rightarrow> lock_any k s) = Inr job"
    and q: "quarantine_locked d job QuarantineReason ec em cur s = Inr (j, s1)"
    and rest: "s' = s1 \<or> (\<exists>x. s' = s1\<lparr>audit_logs := x\<rparr>)"
    using step by (elim quarantine_steps) (cases w; fastforce)
  have "job \<in> set (crawl_jobs s) \<and> lease_step w (job_lease_state job) Done"
  proof (cases w)
    case None
    then have "job \<in> set (crawl_jobs s) \<and> \<not> terminal_status (j_status job)"
      using lock lock_anyD [of k s job] by simp
    then show ?thesis using None by (cases "j_status job") (auto simp: job_lease_state_def)
  next
    case (Some x)
    then show ?thesis using lock lock_ownedD [of k x s job] job_owned_lease [of k x job] by simp
  qed
  then have job: "job \<in> set (crawl_jobs s)" and ok: "lease_step w (job_lease_state job) Done"
    by auto
  show ?thesis using quarantine_locked_lease [OF inv job ok q] rest by auto
qed

lemma recover_lease:
  assumes "queue_inv s" and "recover_expired_leases lk lm c now s = Inr (js, s')"
  shows "lease_step None (job_lease s i) (job_lease s' i)"
proof -
  let ?ex = "\<lambda>cur. order_limit (\<lambda>j. expires_key (j_lease_expires_at j)) (nat lm)
    (filter (\<lambda>j. job_expired cur j \<and> j_job_id j \<notin> set lk) (crawl_jobs s))"
  have "lease_step None (job_lease s i) (job_lease (s\<lparr>crawl_jobs := upd_where
      (\<lambda>j. j_job_id j \<in> j_job_id ` set (?ex cur)) (job_recovered cur) (crawl_jobs s)\<rparr>) i)" for cur
  proof (rule job_lease_upd)
    fix j assume "j \<in> set (crawl_jobs s)" and "j_job_id j \<in> j_job_id ` set (?ex cur)"
    then have "job_expired cur j" using selected_row [OF queue_invD(1) [OF assms(1)]] by blast
    then show "lease_step None (job_lease_state j) (job_lease_state (job_recovered cur j))"
      by (simp add: job_expired_def job_recovered_def job_lease_state_def)
  qed (simp add: job_recovered_def)
  then show ?thesis
    using assms(2) by (auto simp: recover_expired_leases_def Let_def upd_selected_def split: if_splits)
qed

interpretation job_leases: lease_protocol queue_step queue_inv job_lease queue_actor
proof unfold_locales
  fix s p s' i
  assume "queue_inv s" and "queue_step p s = Inr s'"
  then show "lease_step (queue_actor p) (job_lease s i) (job_lease s' i)"
    by (cases p) (auto intro: enqueue_lease claim_lease heartbeat_lease complete_lease retry_lease
        quarantine_lease release_lease recover_lease)
qed (rule queue_step_inv)

section \<open>Rows are never lost\<close>

lemma get_job_upd:
  assumes "\<And>j. j_job_id (f j) = j_job_id j" and "\<And>j. j_idempotency_key (f j) = j_idempotency_key j"
    and "get_job i s = Some j"
  shows "\<exists>j'. get_job i (s\<lparr>crawl_jobs := upd_where p f (crawl_jobs s)\<rparr>) = Some j'
    \<and> j_idempotency_key j' = j_idempotency_key j"
  using assms by (simp add: get_job_def find_upd_where)

lemma get_job_frame [simp]:
  "get_job i (s\<lparr>audit_logs := x\<rparr>) = get_job i s"
  "get_job i (s\<lparr>dead_letters := y\<rparr>) = get_job i s"
  by (simp_all add: get_job_def)

lemma quarantine_locked_keeps:
  assumes "quarantine_locked d job reason ec em c s = Inr (q, s')" and "get_job i s = Some j"
  shows "\<exists>j'. get_job i s' = Some j' \<and> j_idempotency_key j' = j_idempotency_key j"
proof -
  obtain l where "s' = (s\<lparr>crawl_jobs := upd_where (\<lambda>j. j_job_id j = j_job_id job)
      (job_quarantined ec em c) (crawl_jobs s)\<rparr>)\<lparr>dead_letters := l\<rparr>"
    using assms(1) by (auto simp: quarantine_locked_def Let_def split: if_splits)
  then show ?thesis
    using get_job_upd [OF _ _ assms(2)] by (simp add: job_quarantined_def)
qed

lemma quarantine_keeps:
  assumes "quarantine d a k w ec em ac re rq c now s = Inr (x, s')" and "get_job i s = Some j"
  shows "\<exists>j'. get_job i s' = Some j' \<and> j_idempotency_key j' = j_idempotency_key j"
proof -
  obtain cur job s1 where "quarantine_locked d job QuarantineReason ec em cur s = Inr (x, s1)"
    and "s' = s1 \<or> (\<exists>x. s' = s1\<lparr>audit_logs := x\<rparr>)"
    using assms(1) by (elim quarantine_steps) (cases w; fastforce)
  then show ?thesis using quarantine_locked_keeps [OF _ assms(2)] by auto
qed

lemma queue_step_keeps_key:
  assumes "queue_inv s" and "queue_step p s = Inr s'" and "get_job i s = Some j"
  shows "\<exists>j'. get_job i s' = Some j' \<and> j_idempotency_key j' = j_idempotency_key j"
proof -
  note upd = get_job_upd [OF _ _ assms(3)]
  show ?thesis
  proof (cases p)
    case (QEnqueue k n v job c now)
    then show ?thesis
      using assms by (auto dest!: enqueue_cases simp: get_job_def find_append_rows)
  next
    case (QClaim lk tys w ls lm c now)
    then show ?thesis
      using assms upd by (auto simp: claim_def Let_def upd_selected_def job_leased_def split: if_splits)
  next
    case (QHeartbeat k w ls c now)
    then show ?thesis using assms upd by (auto simp: heartbeat_def Let_def split: if_splits)
  next
    case (QComplete k w c now)
    then show ?thesis
      using assms upd by (auto simp: complete_def job_succeeded_def split: option.splits)
  next
    case (QRetry d r k w ec em pol nb c now)
    then show ?thesis
      using assms upd
      by (auto simp: retry_def job_retried_def split: if_splits dest: quarantine_locked_keeps [OF _ assms(3)])
  next
    case (QQuarantine d a k w ec em ac re rq c now)
    then show ?thesis using assms(2) by (auto dest: quarantine_keeps [OF _ assms(3)])
  next
    case (QRelease k w nb c now)
    then show ?thesis
      using assms upd by (auto simp: release_def job_released_def split: option.splits)
  next
    case (QRecover lk lm c now)
    then show ?thesis
      using assms upd
      by (auto simp: recover_expired_leases_def Let_def upd_selected_def job_recovered_def split: if_splits)
  qed
qed

text \<open>What a claim that returned jobs did.\<close>

lemma claim_result:
  assumes "queue_inv s" and "claim lk tys w ls lm c now s = Inr (js, s')" and "js \<noteq> []"
  obtains cur where "resolve_now c now = Inr cur"
    and "set js = job_leased w ls cur ` set (order_limit claim_key (nat lm)
        (filter (job_claimable lk tys cur) (crawl_jobs s)))"
    and "s' = s\<lparr>crawl_jobs := upd_selected j_job_id (order_limit claim_key (nat lm)
        (filter (job_claimable lk tys cur) (crawl_jobs s))) (job_leased w ls cur) (crawl_jobs s)\<rparr>"
proof -
  obtain cur where cur: "resolve_now c now = Inr cur" and types: "tys \<noteq> []"
    using assms(2,3) by (auto simp: claim_def split: if_splits)
  let ?sel = "order_limit claim_key (nat lm) (filter (job_claimable lk tys cur) (crawl_jobs s))"
  have sub: "set ?sel \<subseteq> set (crawl_jobs s)"
    by (rule order_trans [OF set_order_limit_subset filter_is_subset])
  have "set (returning j_job_id ?sel (upd_selected j_job_id ?sel (job_leased w ls cur) (crawl_jobs s)))
      = job_leased w ls cur ` set ?sel"
    by (rule set_returning [OF queue_invD(1) [OF assms(1)] sub]) (simp add: job_leased_def)
  then show thesis
    using that [OF cur] assms(2) cur types by (auto simp: claim_def Let_def split: if_splits)
qed

section \<open>How far the attempt counter can run past \<open>max_attempts\<close>\<close>

text \<open>
  The slack of a row: how far its next lease would go past its budget. Claiming moves the same
  amount from the queue into the lease, \<open>release\<close> moves it back, \<open>retry\<close> only
  requeues a job with budget left; \<open>recover_expired_leases\<close> alone requeues without
  looking at the budget and so adds one.
\<close>

definition job_slack :: "crawl_job \<Rightarrow> int" where
  "job_slack j = j_attempt j - j_max_attempts j + (if claimable_status (j_status j) then 1 else 0)"

definition queue_slack :: "db \<Rightarrow> int" where
  "queue_slack s = foldr max (map job_slack (crawl_jobs s)) 0"

fun recover_cost :: "queue_op \<Rightarrow> int" where
  "recover_cost (QRecover lk lm c now) = 1"
| "recover_cost _ = 0"

lemma foldr_max_le_iff: "foldr max xs (0::int) \<le> m \<longleftrightarrow> 0 \<le> m \<and> (\<forall>x\<in>set xs. x \<le> m)"
  by (induction xs) auto

lemma queue_slack_le: "queue_slack s \<le> m \<longleftrightarrow> 0 \<le> m \<and> (\<forall>j\<in>set (crawl_jobs s). job_slack j \<le> m)"
  by (simp add: queue_slack_def foldr_max_le_iff)

lemma queue_slack_nonneg: "0 \<le> queue_slack s"
  using queue_slack_le [of s "queue_slack s"] by simp

lemma job_slack_le: "j \<in> set (crawl_jobs s) \<Longrightarrow> job_slack j \<le> queue_slack s"
  using queue_slack_le [of s "queue_slack s"] by simp

lemma queue_slack_upd:
  assumes "0 \<le> k" and "\<And>j. j \<in> set (crawl_jobs s) \<Longrightarrow> p j \<Longrightarrow> job_slack (f j) \<le> max 0 (job_slack j + k)"
  shows "queue_slack (s\<lparr>crawl_jobs := upd_where p f (crawl_jobs s)\<rparr>) \<le> queue_slack s + k"
proof (unfold queue_slack_le, intro conjI ballI)
  show "0 \<le> queue_slack s + k" using queue_slack_nonneg [of s] assms(1) by simp
  fix x assume "x \<in> set (crawl_jobs (s\<lparr>crawl_jobs := upd_where p f (crawl_jobs s)\<rparr>))"
  then obtain j where j: "j \<in> set (crawl_jobs s)" and x: "x = (if p j then f j else j)"
    by (auto simp: upd_where_def)
  show "job_slack x \<le> queue_slack s + k"
    using assms(2) [OF j] job_slack_le [OF j] queue_slack_nonneg [of s] assms(1)
    by (cases "p j") (auto simp: x)
qed

lemma queue_slack_frame [simp]:
  "queue_slack (s\<lparr>audit_logs := x\<rparr>) = queue_slack s"
  "queue_slack (s\<lparr>dead_letters := y\<rparr>) = queue_slack s"
  by (simp_all add: queue_slack_def)

lemma quarantine_locked_slack:
  assumes "quarantine_locked d job reason ec em c s = Inr (q, s')"
  shows "queue_slack s' \<le> queue_slack s"
proof -
  obtain l where "s' = (s\<lparr>crawl_jobs := upd_where (\<lambda>j. j_job_id j = j_job_id job)
      (job_quarantined ec em c) (crawl_jobs s)\<rparr>)\<lparr>dead_letters := l\<rparr>"
    using assms by (auto simp: quarantine_locked_def Let_def split: if_splits)
  then show ?thesis
    using queue_slack_upd [of 0 s "\<lambda>j. j_job_id j = j_job_id job" "job_quarantined ec em c"]
    by (simp add: job_slack_def job_quarantined_def le_max_iff_disj)
qed

lemma enqueue_slack:
  assumes "enqueue i n v job c now s = Inr (j, s')"
  shows "queue_slack s' \<le> queue_slack s"
  using enqueue_cases [OF assms] queue_slack_nonneg [of s]
  by (auto simp: queue_slack_le [of s'] job_slack_def [of j] crawl_job_checks_def job_slack_le)

lemma claim_slack:
  assumes "queue_inv s" and "claim lk tys w ls lm c now s = Inr (js, s')"
  shows "queue_slack s' \<le> queue_slack s"
proof -
  let ?c = "\<lambda>cur. j_job_id ` set (order_limit claim_key (nat lm)
    (filter (job_claimable lk tys cur) (crawl_jobs s)))"
  have "queue_slack (s\<lparr>crawl_jobs := upd_where (\<lambda>j. j_job_id j \<in> ?c cur) (job_leased w ls cur)
      (crawl_jobs s)\<rparr>) \<le> queue_slack s + 0" for cur
  proof (rule queue_slack_upd)
    fix j assume "j \<in> set (crawl_jobs s)" and "j_job_id j \<in> ?c cur"
    then have "job_claimable lk tys cur j" using selected_row [OF queue_invD(1) [OF assms(1)]] by blast
    then show "job_slack (job_leased w ls cur j) \<le> max 0 (job_slack j + 0)"
      by (simp add: job_claimable_def job_slack_def job_leased_def)
  qed simp
  then show ?thesis using assms(2) by (auto simp: claim_def Let_def upd_selected_def split: if_splits)
qed

lemma owned_slack:
  assumes "\<And>j. job_owned k w j \<Longrightarrow> j \<in> set (crawl_jobs s) \<Longrightarrow> job_slack (f j) \<le> max 0 (job_slack j)"
  shows "queue_slack (s\<lparr>crawl_jobs := upd_where (job_owned k w) f (crawl_jobs s)\<rparr>) \<le> queue_slack s"
  using queue_slack_upd [of 0 s "job_owned k w" f] assms by simp

lemma retry_slack:
  assumes inv: "queue_inv s" and step: "retry d r k w ec em p nb c now s = Inr (j, s')"
  shows "queue_slack s' \<le> queue_slack s"
proof -
  obtain cur job where cur: "resolve_now c now = Inr cur" and lock: "lock_owned k w s = Inr job"
    using step by (auto simp: retry_def)
  have job: "job \<in> set (crawl_jobs s)" "job_owned k w job" using lock_ownedD [OF lock] by auto
  show ?thesis
  proof (cases "j_max_attempts job \<le> j_attempt job")
    case True
    then show ?thesis using step cur lock by (auto simp: retry_def dest: quarantine_locked_slack)
  next
    case False
    then obtain t where s': "s' = s\<lparr>crawl_jobs := upd_where (\<lambda>j. j_job_id j = j_job_id job)
        (job_retried ec em t cur) (crawl_jobs s)\<rparr>"
      using step cur lock by (auto simp: retry_def)
    have "queue_slack s' \<le> queue_slack s + 0"
      unfolding s'
    proof (rule queue_slack_upd)
      fix x assume "x \<in> set (crawl_jobs s)" "j_job_id x = j_job_id job"
      then have "x = job" using distinct_key_inj [OF queue_invD(1) [OF inv] _ job(1)] by blast
      then show "job_slack (job_retried ec em t cur x) \<le> max 0 (job_slack x + 0)"
        using False by (simp add: job_retried_def job_slack_def)
    qed simp
    then show ?thesis by simp
  qed
qed

lemma recover_slack:
  assumes "queue_inv s" and "recover_expired_leases lk lm c now s = Inr (js, s')"
  shows "queue_slack s' \<le> queue_slack s + 1"
proof -
  let ?ex = "\<lambda>cur. j_job_id ` set (order_limit (\<lambda>j. expires_key (j_lease_expires_at j)) (nat lm)
    (filter (\<lambda>j. job_expired cur j \<and> j_job_id j \<notin> set lk) (crawl_jobs s)))"
  have "queue_slack (s\<lparr>crawl_jobs := upd_where (\<lambda>j. j_job_id j \<in> ?ex cur) (job_recovered cur)
      (crawl_jobs s)\<rparr>) \<le> queue_slack s + 1" for cur
  proof (rule queue_slack_upd)
    fix j assume "j \<in> set (crawl_jobs s)" and "j_job_id j \<in> ?ex cur"
    then have "job_expired cur j" using selected_row [OF queue_invD(1) [OF assms(1)]] by blast
    then show "job_slack (job_recovered cur j) \<le> max 0 (job_slack j + 1)"
      by (simp add: job_expired_def job_slack_def job_recovered_def)
  qed simp
  then show ?thesis using assms(2) by (auto simp: recover_expired_leases_def Let_def upd_selected_def split: if_splits)
qed

lemma heartbeat_slack:
  "heartbeat i w ls c now s = Inr (t, s') \<Longrightarrow> queue_slack s' \<le> queue_slack s"
  by (auto simp: heartbeat_def Let_def job_slack_def split: if_splits intro!: owned_slack)

lemma complete_slack:
  "complete i w c now s = Inr (j, s') \<Longrightarrow> queue_slack s' \<le> queue_slack s"
  by (auto simp: complete_def job_succeeded_def job_slack_def le_max_iff_disj split: option.splits intro!: owned_slack)

lemma release_slack:
  assumes "queue_inv s" and "release i w nb c now s = Inr (j, s')"
  shows "queue_slack s' \<le> queue_slack s"
proof -
  have "job_slack (job_released t cur x) \<le> max 0 (job_slack x)"
    if "job_owned i w x" "x \<in> set (crawl_jobs s)" for x t cur
    using that queue_invD(3) [OF assms(1) that(2)]
    by (auto simp: job_owned_def job_released_def job_slack_def crawl_job_checks_def)
  then show ?thesis
    using assms(2) by (auto simp: release_def split: option.splits intro!: owned_slack)
qed

lemma quarantine_slack:
  assumes "quarantine d a i w ec em ac re rq c now s = Inr (j, s')"
  shows "queue_slack s' \<le> queue_slack s"
proof -
  obtain cur job s1 where "quarantine_locked d job QuarantineReason ec em cur s = Inr (j, s1)"
    and "s' = s1 \<or> (\<exists>x. s' = s1\<lparr>audit_logs := x\<rparr>)"
    using assms by (elim quarantine_steps) (cases w; fastforce)
  then show ?thesis by (auto dest: quarantine_locked_slack)
qed

interpretation job_growth: bounded_growth queue_step queue_inv queue_slack recover_cost
proof unfold_locales
  fix p show "0 \<le> recover_cost p" by (cases p) simp_all
next
  fix s p s' assume "queue_inv s" and "queue_step p s = Inr s'"
  then show "queue_slack s' \<le> queue_slack s + recover_cost p"
    by (cases p) (auto dest: enqueue_slack claim_slack heartbeat_slack complete_slack retry_slack
        quarantine_slack release_slack recover_slack)
qed

section \<open>Properties of the queue\<close>

text \<open>
  C6. Whatever operations run against the queue, in any order and with any arguments, from a
  database that satisfies it, the invariant of \<open>crawl_jobs\<close> and \<open>dead_letters\<close>
  holds: primary and idempotency keys are unique, every CHECK constraint of the table
  (attempt counters, argument size, lease columns set exactly in status leased) is satisfied,
  and a job has exactly one dead letter if it is quarantined and none otherwise.
\<close>

theorem queue_run_keeps_invariant:
  assumes "queue_inv s"
  shows "queue_inv (run_ops queue_step ops s)"
  using assms by (rule jobs.run_inv)

definition demo_job :: new_job where
  "demo_job = \<lparr>nj_job_type = ''fetch'', nj_idempotency_key = ''k1'', nj_args = ''{}'',
     nj_priority = 100, nj_max_attempts = 1, nj_not_before = None, nj_run_id = None,
     nj_source_id = None\<rparr>"

abbreviation "demo_enqueue i \<equiv> QEnqueue i (\<lambda>_. Inl DataError) (\<lambda>_. True) demo_job 0 (utc 0)"
abbreviation "demo_claim w t \<equiv> QClaim [] [''fetch''] w 60 10 0 (utc t)"

theorem queue_run_keeps_invariant_witness:
  "queue_inv (run_ops queue_step [demo_enqueue 7, demo_claim ''w1'' 5,
     QRetry 1 0 7 ''w1'' ''http_500'' None None None 0 (utc 9)] empty_db)"
  by (rule queue_run_keeps_invariant) simp

definition claims_before :: "crawl_job \<Rightarrow> crawl_job \<Rightarrow> bool" where
  "claims_before a b \<longleftrightarrow> j_priority a > j_priority b
     \<or> (j_priority a = j_priority b \<and> (j_not_before a < j_not_before b
        \<or> (j_not_before a = j_not_before b \<and> j_job_id a \<le> j_job_id b)))"

lemma claim_key_le: "claim_key a \<le> claim_key b \<longleftrightarrow> claims_before a b"
  by (auto simp: claim_key_def claims_before_def)

lemma claim_key_leased [simp]: "claim_key (job_leased w ls c j) = claim_key j"
  by (simp add: claim_key_def job_leased_def)

text \<open>
  C7. \<open>claim\<close> returns at most \<open>limit\<close> jobs, as many as there are eligible ones up
  to the limit; each was pending or waiting for a retry, due, of a requested type and not
  locked by another transaction, and is now leased to the worker with its attempt counted; no
  eligible job that was left behind comes before a claimed one (higher priority first, then
  earlier \<open>not_before\<close>, then smaller id); every other row is unchanged.
\<close>

theorem claim_takes_the_first_eligible_jobs:
  fixes s locked job_types current limit
  defines "eligible \<equiv> {j \<in> set (crawl_jobs s). (j_status j = Pending \<or> j_status j = Retry)
      \<and> j_not_before j \<le> current \<and> j_job_type j \<in> set job_types \<and> j_job_id j \<notin> set locked}"
  assumes inv: "queue_inv s" and types: "job_types \<noteq> []" and pos: "1 \<le> limit" "1 \<le> lease_seconds"
    and now: "resolve_now utcnow now = Inr current"
  shows "\<exists>js s'. claim locked job_types worker lease_seconds limit utcnow now s = Inr (js, s')
    \<and> length js = min (nat limit) (card eligible)
    \<and> (\<forall>j\<in>set js. j_status j = Leased \<and> j_lease_owner j = Some worker
          \<and> j_lease_expires_at j = Some (current + lease_seconds * 1000000)
          \<and> get_job (j_job_id j) s' = Some j
          \<and> (\<exists>old\<in>eligible. j_job_id old = j_job_id j \<and> j_attempt j = j_attempt old + 1))
    \<and> (\<forall>old\<in>eligible. j_job_id old \<notin> j_job_id ` set js \<longrightarrow> (\<forall>j\<in>set js. claims_before j old))
    \<and> sorted_wrt claims_before js
    \<and> (\<forall>old\<in>set (crawl_jobs s). j_job_id old \<notin> j_job_id ` set js
          \<longrightarrow> get_job (j_job_id old) s' = Some old)"
proof -
  let ?f = "job_leased worker lease_seconds current"
  let ?el = "filter (job_claimable locked job_types current) (crawl_jobs s)"
  let ?top = "order_limit claim_key (nat limit) ?el"
  let ?rows = "upd_selected j_job_id ?top ?f (crawl_jobs s)"
  let ?js = "sort_key claim_key (returning j_job_id ?top ?rows)"
  let ?s' = "s\<lparr>crawl_jobs := ?rows\<rparr>"
  note ids = queue_invD(1) [OF inv]
  have el: "set ?el = eligible"
    by (auto simp: eligible_def job_claimable_def claimable_status_def)
  have fid: "j_job_id (?f j) = j_job_id j" for j by (simp add: job_leased_def)
  have sub: "set ?top \<subseteq> set (crawl_jobs s)"
    by (rule order_trans [OF set_order_limit_subset filter_is_subset])
  have del: "distinct (map j_job_id ?el)" using ids by (rule distinct_map_filter)
  have js: "set ?js = ?f ` set ?top" using set_returning [OF ids sub fid] by simp
  have "card eligible = length ?el"
    using del distinct_card [of ?el] unfolding distinct_map el [symmetric] by blast
  then have len: "length ?js = min (nat limit) (card eligible)"
    using length_returning [OF ids sub fid distinct_key_order_limit [OF del]] by simp
  have get: "get_job (j_job_id j) ?s' = Some j" if "j \<in> set ?rows" for j
    unfolding get_job_def using find_distinct_key [of j_job_id ?rows j] that ids
    by (simp add: keys_upd_selected fid)
  have rows: "set ?rows = (set (crawl_jobs s) - set ?top) \<union> set ?js"
    unfolding js by (rule set_upd_selected [OF ids sub])
  have left: "old \<notin> set ?top" if "j_job_id old \<notin> j_job_id ` set ?js" for old
    using that unfolding js by (auto simp: image_image fid)
  have first: "claims_before j old" if old: "old \<in> eligible" "old \<notin> set ?top" and j: "j \<in> set ?js" for j old
  proof -
    obtain k where k: "k \<in> set ?top" "j = ?f k" using j unfolding js by blast
    have "claim_key k \<le> claim_key old" using order_limit_least [OF k(1)] old el by blast
    then show ?thesis unfolding claim_key_le [symmetric] k(2) claim_key_leased .
  qed
  have new: "j_status j = Leased \<and> j_lease_owner j = Some worker
      \<and> j_lease_expires_at j = Some (current + lease_seconds * 1000000)
      \<and> (\<exists>old\<in>eligible. j_job_id old = j_job_id j \<and> j_attempt j = j_attempt old + 1)"
    if j: "j \<in> set ?js" for j
  proof -
    obtain old where old: "old \<in> set ?top" "j = ?f old" using j unfolding js by blast
    then have "old \<in> eligible" using in_order_limit [OF old(1)] el by blast
    then show ?thesis using old(2) by (auto simp: job_leased_def second_def)
  qed
  have run: "claim locked job_types worker lease_seconds limit utcnow now s = Inr (?js, ?s')"
    using types pos now by (simp add: claim_def Let_def)
  have srt: "sorted_wrt claims_before ?js"
    using sorted_sort_key [of claim_key] unfolding sorted_map by (simp add: claim_key_le)
  show ?thesis
  proof (intro exI conjI, rule run, rule len)
    show "sorted_wrt claims_before ?js" by (rule srt)
    show "\<forall>old\<in>eligible. j_job_id old \<notin> j_job_id ` set ?js \<longrightarrow> (\<forall>j\<in>set ?js. claims_before j old)"
      using first left by blast
    show "\<forall>old\<in>set (crawl_jobs s). j_job_id old \<notin> j_job_id ` set ?js
        \<longrightarrow> get_job (j_job_id old) ?s' = Some old"
      using get left unfolding rows by blast
    show "\<forall>j\<in>set ?js. j_status j = Leased \<and> j_lease_owner j = Some worker
        \<and> j_lease_expires_at j = Some (current + lease_seconds * 1000000)
        \<and> get_job (j_job_id j) ?s' = Some j
        \<and> (\<exists>old\<in>eligible. j_job_id old = j_job_id j \<and> j_attempt j = j_attempt old + 1)"
      using new get unfolding rows by blast
  qed
qed

text \<open>A queue of three jobs, used by the witnesses: two due, one deferred to the future.\<close>

abbreviation "demo_job2 \<equiv> demo_job\<lparr>nj_idempotency_key := ''k2'', nj_priority := 200\<rparr>"
abbreviation "demo_job3 \<equiv> demo_job\<lparr>nj_idempotency_key := ''k3'', nj_not_before := utc 1000\<rparr>"

definition demo_db :: db where
  "demo_db = run_ops queue_step
     [demo_enqueue 7, QEnqueue 8 (\<lambda>_. Inl DataError) (\<lambda>_. True) demo_job2 0 (utc 0),
      QEnqueue 9 (\<lambda>_. Inl DataError) (\<lambda>_. True) demo_job3 0 (utc 0)] empty_db"

lemma demo_db_inv [simp]: "queue_inv demo_db"
  unfolding demo_db_def by (rule jobs.run_inv) simp

lemma demo_db_due:
  "list_ex (\<lambda>j. j_status j = Pending \<and> j_not_before j \<le> 5 \<and> j_job_type j = ''fetch'')
     (crawl_jobs demo_db)"
  by code_simp

theorem claim_takes_the_first_eligible_jobs_witness:
  "\<exists>js s'. claim [] [''fetch''] ''w1'' 60 1 0 (utc 5) demo_db = Inr (js, s') \<and> length js = 1"
proof -
  have "{j \<in> set (crawl_jobs demo_db). (j_status j = Pending \<or> j_status j = Retry)
      \<and> j_not_before j \<le> 5 \<and> j_job_type j \<in> set [''fetch''] \<and> j_job_id j \<notin> set []} \<noteq> {}"
    using demo_db_due by (auto simp: list_ex_iff)
  then have "card {j \<in> set (crawl_jobs demo_db). (j_status j = Pending \<or> j_status j = Retry)
      \<and> j_not_before j \<le> 5 \<and> j_job_type j \<in> set [''fetch''] \<and> j_job_id j \<notin> set []} \<ge> 1"
    by (simp add: card_gt_0_iff Suc_le_eq)
  then show ?thesis
    using claim_takes_the_first_eligible_jobs [OF demo_db_inv, of "[''fetch'']" 1 60 0 "utc 5" 5 "[]" "''w1''"]
    by auto
qed


definition demo_leased :: db where
  "demo_leased = run_ops queue_step [demo_claim ''w1'' 5] demo_db"




lemma run_keeps_job_key:
  assumes "queue_inv s" and "get_job i s = Some j"
  shows "\<exists>j'. get_job i (run_ops queue_step ops s) = Some j' \<and> j_idempotency_key j' = j_idempotency_key j"
  using assms
proof (induction ops arbitrary: s j)
  case Nil
  then show ?case by simp
next
  case (Cons p ops)
  show ?case
  proof (cases "queue_step p s")
    case (Inl e)
    then show ?thesis using Cons.IH [OF Cons.prems] by simp
  next
    case (Inr s')
    have "\<exists>j'. get_job i s' = Some j' \<and> j_idempotency_key j' = j_idempotency_key j"
      using queue_step_keeps_key [OF Cons.prems(1) Inr Cons.prems(2)] .
    then show ?thesis
      using Cons.IH [OF queue_step_inv [OF Cons.prems(1) Inr]] Inr by auto
  qed
qed



text \<open>
  C11. The retry budget. Along every run from an empty queue, a job's attempt counter exceeds
  its \<open>max_attempts\<close> by at most the number of \<open>recover_expired_leases\<close> calls in
  the run; in particular, without recovered leases no job is ever started more often than
  \<open>max_attempts\<close>.
\<close>

theorem attempts_bounded_by_budget_and_recoveries:
  assumes "j \<in> set (crawl_jobs (run_ops queue_step ops empty_db))"
  shows "j_attempt j \<le> j_max_attempts j
    + int (length (filter (\<lambda>p. case p of QRecover _ _ _ _ \<Rightarrow> True | _ \<Rightarrow> False) ops))"
proof -
  have "sum_list (map recover_cost ops)
      = int (length (filter (\<lambda>p. case p of QRecover _ _ _ _ \<Rightarrow> True | _ \<Rightarrow> False) ops))"
    by (induction ops) (auto split: queue_op.splits)
  moreover have "queue_slack (run_ops queue_step ops empty_db) \<le> 0 + sum_list (map recover_cost ops)"
    using job_growth.run_level [OF queue_inv_empty, of ops] by (simp add: queue_slack_def)
  ultimately show ?thesis
    using job_slack_le [OF assms] by (auto simp: job_slack_def split: if_splits)
qed

text \<open>
  The bound is reached: a job with a budget of one attempt whose worker dies is started a
  second time, because the recovery of its lease does not look at the budget.
\<close>

theorem attempts_bounded_by_budget_and_recoveries_witness:
  "\<exists>j\<in>set (crawl_jobs (run_ops queue_step
      [demo_enqueue 7, demo_claim ''w1'' 5, QRecover [] 10 0 (utc 70000000), demo_claim ''w2'' 70000001]
      empty_db)). j_max_attempts j = 1 \<and> j_attempt j = 2 \<and> j_attempt j \<le> j_max_attempts j + 1"
proof -
  let ?ops = "[demo_enqueue 7, demo_claim ''w1'' 5, QRecover [] 10 0 (utc 70000000), demo_claim ''w2'' 70000001]"
  have "list_ex (\<lambda>j. j_max_attempts j = 1 \<and> j_attempt j = 2) (crawl_jobs (run_ops queue_step ?ops empty_db))"
    by code_simp
  then obtain j where j: "j \<in> set (crawl_jobs (run_ops queue_step ?ops empty_db))"
      "j_max_attempts j = 1" "j_attempt j = 2"
    by (auto simp: list_ex_iff)
  then show ?thesis using attempts_bounded_by_budget_and_recoveries [OF j(1)] by auto
qed

text \<open>
  \<open>retry\<close> by the holder of the lease: a job whose budget is used up is quarantined
  with one dead letter \<open>max_attempts\<close>, otherwise it goes back to the queue in status
  retry, not before now and, with the default policy, no later than six hours from now; both
  clear the lease and record the error.
\<close>

theorem retry_outcome:
  assumes inv: "queue_inv s" and get: "get_job i s = Some j"
    and lease: "j_status j = Leased" "j_lease_owner j = Some w"
    and now: "resolve_now utcnow now = Inr current" and r: "0 \<le> r"
    and fresh: "\<forall>d\<in>set (dead_letters s). d_id d \<noteq> dl_id"
  shows "\<exists>j' s'. retry dl_id r i w code msg None None utcnow now s = Inr (j', s')
    \<and> get_job i s' = Some j' \<and> j_lease_owner j' = None \<and> j_lease_expires_at j' = None
    \<and> j_last_error_code j' = Some code \<and> j_attempt j' = j_attempt j
    \<and> (if j_max_attempts j \<le> j_attempt j
       then j_status j' = Quarantined \<and> j_finished_at j' = Some current
         \<and> (\<exists>d. dead_letters s' = dead_letters s @ [d] \<and> d_job_id d = i \<and> d_reason d = MaxAttempts
              \<and> d_attempt d = j_attempt j)
       else j_status j' = Retry \<and> dead_letters s' = dead_letters s
         \<and> current \<le> j_not_before j' \<and> j_not_before j' \<le> current + 6 * 3600 * 1000000)"
proof -
  have j: "j \<in> set (crawl_jobs s)" "j_job_id j = i" using get_jobD [OF get] by auto
  have owned: "job_owned i w j" using j lease by (simp add: job_owned_def)
  have lock: "lock_owned i w s = Inr j"
    using find_owned [OF inv j(1) owned] by (simp add: lock_owned_def)
  have get': "get_job i (s\<lparr>crawl_jobs := upd_where (\<lambda>k. k = j \<or> j_job_id k = i) f (crawl_jobs s)\<rparr>) = Some (f j)"
    if "\<And>k. j_job_id (f k) = j_job_id k" for f
    using that get j(2) by (auto simp: get_job_def find_upd_where)
  have pred: "(\<lambda>k. k = j \<or> j_job_id k = i) = (\<lambda>k. j_job_id k = i)" using j(2) by auto
  note get'' = get' [unfolded pred]
  show ?thesis
  proof (cases "j_max_attempts j \<le> j_attempt j")
    case True
    then show ?thesis
      using now lock fresh j(2) get'' [of "job_quarantined code msg current"]
      by (auto simp: retry_def quarantine_locked_def Let_def job_quarantined_def get_job_def)
  next
    case False
    let ?t = "current + delay_for default_backoff (j_attempt j) r"
    have "current \<le> ?t \<and> ?t \<le> current + 6 * 3600 * 1000000"
      using delay_for_nonneg [OF sane_default_backoff r, of "j_attempt j"]
        delay_for_le_maximum [of default_backoff "j_attempt j" r]
      by (simp add: default_backoff_def second_def)
    then show ?thesis
      using False now lock j(2) get'' [of "job_retried code msg ?t current"]
      by (auto simp: retry_def next_attempt_at_def job_retried_def)
  qed
qed

theorem retry_outcome_witness:
  "\<exists>j' s'. retry 1 0 7 ''w1'' ''http_500'' None None None 0 (utc 9) demo_leased = Inr (j', s')
    \<and> j_status j' = Quarantined \<and> (\<exists>d. dead_letters s' = dead_letters demo_leased @ [d] \<and> d_job_id d = 7)"
proof -
  have inv: "queue_inv demo_leased"
    unfolding demo_leased_def by (rule jobs.run_inv) simp
  have "map_option (\<lambda>j. (j_status j, j_lease_owner j, j_attempt j, j_max_attempts j)) (get_job 7 demo_leased)
      = Some (Leased, Some ''w1'', 1, 1)" and none: "dead_letters demo_leased = []"
    by code_simp+
  then obtain j where j: "get_job 7 demo_leased = Some j" "j_status j = Leased"
    "j_lease_owner j = Some ''w1''" "j_max_attempts j \<le> j_attempt j"
    by auto
  have nw: "resolve_now 0 (utc 9) = Inr 9" by simp
  show ?thesis
    using retry_outcome [OF inv j(1-3) nw, of 0 1 "''http_500''" None] j(4) none by auto
qed

text \<open>
  \<open>release\<close> undoes the attempt that \<open>claim\<close> counted: a job claimed by a
  worker and released by it (planned drain, or a defer to a later time) is pending again with
  the attempt counter and the last error it had before, no dead letter is written, and it is
  due at the requested time, or at once if that lies in the past.
\<close>

theorem claim_then_release_burns_nothing:
  assumes inv: "queue_inv s" and cl: "claim locked types w ls limit c1 now1 s = Inr (js, s1)"
    and j: "j \<in> set js" and now: "resolve_now c2 now2 = Inr current"
  shows "\<exists>j' s2 old. release (j_job_id j) w (Some (Aware due 0)) c2 now2 s1 = Inr (j', s2)
    \<and> get_job (j_job_id j) s = Some old \<and> get_job (j_job_id j) s2 = Some j'
    \<and> j_status j' = Pending \<and> j_lease_owner j' = None
    \<and> j_attempt j' = j_attempt old \<and> j_last_error_code j' = j_last_error_code old
    \<and> j_last_error_message j' = j_last_error_message old
    \<and> j_not_before j' = max due current \<and> dead_letters s2 = dead_letters s"
proof -
  obtain cur where js: "set js = job_leased w ls cur ` set (order_limit claim_key (nat limit)
      (filter (job_claimable locked types cur) (crawl_jobs s)))"
    and s1: "s1 = s\<lparr>crawl_jobs := upd_selected j_job_id (order_limit claim_key (nat limit)
      (filter (job_claimable locked types cur) (crawl_jobs s))) (job_leased w ls cur) (crawl_jobs s)\<rparr>"
    using claim_result [OF inv cl] length_pos_if_in_set [OF j] by (metis list.size(3) less_irrefl)
  obtain old where old: "old \<in> set (order_limit claim_key (nat limit)
      (filter (job_claimable locked types cur) (crawl_jobs s)))" "j = job_leased w ls cur old"
    using j js by auto
  have mem: "old \<in> set (crawl_jobs s)" using in_order_limit [OF old(1)] by simp
  have get: "get_job (j_job_id j) s = Some old"
    unfolding get_job_def using find_distinct_key [OF queue_invD(1) [OF inv] mem] old(2)
    by (simp add: job_leased_def)
  have get1: "get_job (j_job_id j) s1 = Some j"
    using get old by (auto simp: s1 get_job_def upd_selected_def find_upd_where job_leased_def)
  have inv1: "queue_inv s1" by (rule claim_inv [OF inv cl])
  have att: "0 \<le> j_attempt old" using queue_invD(3) [OF inv mem] by (simp add: crawl_job_checks_def)
  have own: "job_owned (j_job_id j) w j" using old(2) by (simp add: job_owned_def job_leased_def)
  let ?f = "job_released (max due current) current"
  have fnd: "find (job_owned (j_job_id j) w) (crawl_jobs s1) = Some j"
    by (rule find_owned [OF inv1 _ own]) (use get_jobD [OF get1] in simp)
  have clamp: "clamp_not_before (Some (Aware due 0)) (Aware current 0) = Inr (max due current)"
    by (simp add: clamp_not_before_def max_def)
  have "get_job (j_job_id j) (s1\<lparr>crawl_jobs := upd_where (job_owned (j_job_id j) w) ?f (crawl_jobs s1)\<rparr>)
      = Some (?f j)"
    using get1 own by (simp add: get_job_def find_upd_where job_released_def)
  then show ?thesis
    using fnd clamp now get old(2) att
    by (auto simp: release_def job_released_def job_leased_def s1)
qed

theorem claim_then_release_burns_nothing_witness:
  "\<exists>j s1 j' s2. claim [] [''fetch''] ''w1'' 60 1 0 (utc 5) demo_db = Inr ([j], s1)
    \<and> release (j_job_id j) ''w1'' (Some (Aware 500 0)) 0 (utc 9) s1 = Inr (j', s2)
    \<and> j_status j' = Pending \<and> j_not_before j' = 500"
proof -
  have "map_sum id (\<lambda>(js, s). map j_job_id js) (claim [] [''fetch''] ''w1'' 60 1 0 (utc 5) demo_db)
      = Inr [8]"
    by code_simp
  then obtain j s1 where cl: "claim [] [''fetch''] ''w1'' 60 1 0 (utc 5) demo_db = Inr ([j], s1)"
    by (cases "claim [] [''fetch''] ''w1'' 60 1 0 (utc 5) demo_db") auto
  have now: "resolve_now 0 (utc 9) = Inr 9" by simp
  have "max 500 9 = (500::int)" by simp
  then show ?thesis
    using claim_then_release_burns_nothing [OF demo_db_inv cl list.set_intros(1) now, of 500] cl
    by metis
qed

end
