(* ===== verification/Limiter.thy ===== *)
theory Limiter
  imports Audit_Log Job_Queue
begin

text \<open>
  \<open>repositories/limiter.py\<close>: the global origin limiter, a token bucket with leased
  permits. Token counts are in units of 0.0001 token and refill rates in units of 0.000001
  token per second, as their \<open>Numeric\<close> columns store them, so the refill over
  \<open>e\<close> microseconds is exactly \<open>e * rate\<close> in units of 10^-12 token.

  \<open>acquire_permit\<close> holds the row lock of the bucket, so the operations on one origin
  are serialised and each is a function of the database.
\<close>

section \<open>Operations\<close>

datatype deny_reason = DenyBlocked | DenyRate | DenyConcurrency

record permit_decision =
  pd_granted :: bool
  pd_permit :: "origin_permit option"
  pd_reason :: "deny_reason option"
  pd_retry_after :: "ts option"
  pd_live_permits :: nat
  pd_available_tokens :: int

definition TOKEN :: int where
  "TOKEN = 10000"

definition get_bucket :: "string \<Rightarrow> db \<Rightarrow> origin_bucket option" where
  "get_bucket origin s = find (\<lambda>b. b_origin b = origin) (buckets s)"

definition put_bucket :: "origin_bucket \<Rightarrow> db \<Rightarrow> db" where
  "put_bucket b s = s\<lparr>buckets := upd_where (\<lambda>x. b_origin x = b_origin b) (\<lambda>_. b) (buckets s)\<rparr>"

definition ensure_bucket ::
  "string \<Rightarrow> int \<Rightarrow> int \<Rightarrow> int \<Rightarrow> ts \<Rightarrow> datetime option \<Rightarrow> db \<Rightarrow> (origin_bucket \<times> db) res" where
  "ensure_bucket origin capacity refill max_concurrency utcnow now s =
     bind_res (resolve_now utcnow now) (\<lambda>current.
       let row = \<lparr>b_origin = origin, b_capacity_tokens = capacity, b_refill_per_second = refill,
                  b_available_tokens = capacity, b_last_refill_at = current,
                  b_max_concurrency = max_concurrency, b_blocked_until = None,
                  b_block_reason = None, b_revision = 1, b_created_at = current,
                  b_updated_at = current\<rparr>
       in if \<not> origin_bucket_checks row then Inl IntegrityError
          else (case get_bucket origin s of
                  None \<Rightarrow> Inr (row, s\<lparr>buckets := buckets s @ [row]\<rparr>)
                | Some b \<Rightarrow>
                    let b' = b\<lparr>b_capacity_tokens := capacity, b_refill_per_second := refill,
                              b_available_tokens := min (b_available_tokens b) capacity,
                              b_max_concurrency := max_concurrency,
                              b_revision := b_revision b + 1, b_updated_at := current\<rparr>
                    in Inr (b', put_bucket b' s)))"

definition refilled_tokens :: "origin_bucket \<Rightarrow> ts \<Rightarrow> int" where
  "refilled_tokens b now =
     (let elapsed = max (now - b_last_refill_at b) 0;
          refilled = b_available_tokens b * 10 ^ 8 + elapsed * b_refill_per_second b
      in min refilled (b_capacity_tokens b * 10 ^ 8) div 10 ^ 8)"

definition permit_live :: "string \<Rightarrow> ts \<Rightarrow> origin_permit \<Rightarrow> bool" where
  "permit_live origin current p \<longleftrightarrow>
     p_origin p = origin \<and> p_released_at p = None \<and> current < p_lease_expires_at p"

definition live_permits :: "string \<Rightarrow> ts \<Rightarrow> db \<Rightarrow> origin_permit list" where
  "live_permits origin current s = filter (permit_live origin current) (permits s)"

definition live_permit_count :: "string \<Rightarrow> ts \<Rightarrow> datetime option \<Rightarrow> db \<Rightarrow> nat res" where
  "live_permit_count origin utcnow now s =
     bind_res (resolve_now utcnow now) (\<lambda>current. Inr (length (live_permits origin current s)))"

text \<open>The wait for a missing token, \<open>timedelta(seconds=float(deficit / refill))\<close>.\<close>

definition rate_wait :: "int \<Rightarrow> int \<Rightarrow> duration" where
  "rate_wait tokens refill = py_round (of_int ((TOKEN - tokens) * 10 ^ 8) / of_int refill)"

definition acquire_unblocked ::
  "uuid \<Rightarrow> string \<Rightarrow> string \<Rightarrow> int \<Rightarrow> uuid option \<Rightarrow> ts \<Rightarrow> origin_bucket \<Rightarrow> db
   \<Rightarrow> (permit_decision \<times> db) res" where
  "acquire_unblocked new_id origin owner_instance lease_seconds job_id current bucket s =
     (let tokens = refilled_tokens bucket current;
          bucket1 = bucket\<lparr>b_available_tokens := tokens, b_last_refill_at := current,
                           b_updated_at := current\<rparr>;
          live = live_permits origin current s;
          live_count = length live
      in if tokens < TOKEN then
           Inr (\<lparr>pd_granted = False, pd_permit = None, pd_reason = Some DenyRate,
                 pd_retry_after = Some (current + rate_wait tokens (b_refill_per_second bucket)),
                 pd_live_permits = live_count, pd_available_tokens = tokens\<rparr>,
                put_bucket bucket1 s)
         else if b_max_concurrency bucket \<le> int live_count then
           Inr (\<lparr>pd_granted = False, pd_permit = None, pd_reason = Some DenyConcurrency,
                 pd_retry_after = Some (case live of [] \<Rightarrow> current
                   | _ \<Rightarrow> Min (p_lease_expires_at ` set live)),
                 pd_live_permits = live_count, pd_available_tokens = tokens\<rparr>,
                put_bucket bucket1 s)
         else
           let bucket2 = bucket1\<lparr>b_available_tokens := tokens - TOKEN\<rparr>;
               permit = \<lparr>p_permit_id = new_id, p_origin = origin, p_owner_instance = owner_instance,
                         p_job_id = job_id, p_acquired_at = current,
                         p_lease_expires_at = current + lease_seconds * second,
                         p_released_at = None, p_release_reason = None, p_created_at = current\<rparr>
           in if (\<exists>p\<in>set (permits s). p_permit_id p = new_id)
                \<or> (case job_id of None \<Rightarrow> False | Some i \<Rightarrow> \<forall>j\<in>set (crawl_jobs s). j_job_id j \<noteq> i)
              then Inl IntegrityError
              else Inr (\<lparr>pd_granted = True, pd_permit = Some permit, pd_reason = None,
                         pd_retry_after = None, pd_live_permits = live_count + 1,
                         pd_available_tokens = b_available_tokens bucket2\<rparr>,
                        (put_bucket bucket2 s)\<lparr>permits := permits s @ [permit]\<rparr>))"

definition acquire_permit ::
  "uuid \<Rightarrow> string \<Rightarrow> string \<Rightarrow> int \<Rightarrow> uuid option \<Rightarrow> ts \<Rightarrow> datetime option \<Rightarrow> db
   \<Rightarrow> (permit_decision \<times> db) res" where
  "acquire_permit new_id origin owner_instance lease_seconds job_id utcnow now s =
     (if lease_seconds < 1 then Inl ValueError
      else bind_res (resolve_now utcnow now) (\<lambda>current.
        case get_bucket origin s of
          None \<Rightarrow> Inl NotFoundError
        | Some bucket \<Rightarrow>
            (case b_blocked_until bucket of
               Some until \<Rightarrow> if current < until then
                   Inr (\<lparr>pd_granted = False, pd_permit = None, pd_reason = Some DenyBlocked,
                         pd_retry_after = Some until, pd_live_permits = 0,
                         pd_available_tokens = b_available_tokens bucket\<rparr>, s)
                 else acquire_unblocked new_id origin owner_instance lease_seconds job_id current bucket s
             | None \<Rightarrow> acquire_unblocked new_id origin owner_instance lease_seconds job_id current bucket s)))"

definition permit_ended :: "release_reason \<Rightarrow> ts \<Rightarrow> origin_permit \<Rightarrow> origin_permit" where
  "permit_ended reason current p =
     p\<lparr>p_released_at := Some current, p_release_reason := Some reason\<rparr>"

definition release_permit ::
  "uuid \<Rightarrow> string option \<Rightarrow> ts \<Rightarrow> datetime option \<Rightarrow> db \<Rightarrow> (bool \<times> db) res" where
  "release_permit permit_id owner_instance utcnow now s =
     bind_res (resolve_now utcnow now) (\<lambda>current.
       let target = (\<lambda>p. p_permit_id p = permit_id \<and> p_released_at p = None
              \<and> (case owner_instance of None \<Rightarrow> True | Some w \<Rightarrow> p_owner_instance p = w))
       in Inr (\<exists>p\<in>set (permits s). target p,
               s\<lparr>permits := upd_where target (permit_ended Released current) (permits s)\<rparr>))"

definition expire_permits ::
  "string option \<Rightarrow> ts \<Rightarrow> datetime option \<Rightarrow> db \<Rightarrow> (nat \<times> db) res" where
  "expire_permits origin utcnow now s =
     bind_res (resolve_now utcnow now) (\<lambda>current.
       let target = (\<lambda>p. p_released_at p = None \<and> p_lease_expires_at p \<le> current
              \<and> (case origin of None \<Rightarrow> True | Some x \<Rightarrow> p_origin p = x))
       in Inr (length (filter target (permits s)),
               s\<lparr>permits := upd_where target (permit_ended Expired current) (permits s)\<rparr>))"

definition block_origin ::
  "uuid \<Rightarrow> (int \<Rightarrow> ts res) \<Rightarrow> string \<Rightarrow> datetime \<Rightarrow> ustr \<Rightarrow> ustr \<Rightarrow> string option \<Rightarrow> ts
   \<Rightarrow> datetime option \<Rightarrow> db \<Rightarrow> (origin_bucket \<times> db) res" where
  "block_origin audit_id naive origin until_at actor reason request_id utcnow now s =
     bind_res (require_audit_context (Some actor) (Some reason)) (\<lambda>_.
     bind_res (resolve_now utcnow now) (\<lambda>current.
       case get_bucket origin s of
         None \<Rightarrow> Inl NotFoundError
       | Some bucket \<Rightarrow>
           bind_res (case (until_at, b_blocked_until bucket) of
                       (Aware w off, _) \<Rightarrow> Inr (w - off)
                     | (Naive w, None) \<Rightarrow> naive w
                     | (Naive w, Some _) \<Rightarrow> Inl TypeError) (\<lambda>until.
             if (case b_blocked_until bucket of None \<Rightarrow> True | Some t \<Rightarrow> t < until) then
               let bucket' = bucket\<lparr>b_blocked_until := Some until,
                               b_block_reason := Some (take 256 reason), b_available_tokens := 0,
                               b_last_refill_at := until, b_revision := b_revision bucket + 1,
                               b_updated_at := current\<rparr>
               in bind_res (append_audit audit_id utcnow actor ''origin.block''
                    ''origin_rate_bucket'' (ResText origin)
                    (Some (JObj [(''blocked_until'', jopt_ts (b_blocked_until bucket))]))
                    (Some (JObj [(''blocked_until'', JIso until), (''reason'', JStr (take 256 reason))]))
                    request_id None (Some (Aware current 0)) (put_bucket bucket' s))
                  (\<lambda>(_, s'). Inr (bucket', s'))
             else Inr (bucket, s))))"

lemmas [op_defs] = ensure_bucket_def acquire_permit_def acquire_unblocked_def release_permit_def
  expire_permits_def block_origin_def

section \<open>The operations as one step function\<close>

datatype limiter_op =
    LEnsure string int int int ts "datetime option"
  | LAcquire uuid string string int "uuid option" ts "datetime option"
  | LRelease uuid "string option" ts "datetime option"
  | LExpire "string option" ts "datetime option"
  | LBlock uuid "int \<Rightarrow> ts res" string datetime ustr ustr "string option" ts "datetime option"

fun limiter_step :: "limiter_op \<Rightarrow> db \<Rightarrow> db res" where
  "limiter_step (LEnsure o' cap rf mc c now) s = drop_ret (ensure_bucket o' cap rf mc c now s)"
| "limiter_step (LAcquire i o' w ls j c now) s = drop_ret (acquire_permit i o' w ls j c now s)"
| "limiter_step (LRelease i w c now) s = drop_ret (release_permit i w c now s)"
| "limiter_step (LExpire o' c now) s = drop_ret (expire_permits o' c now s)"
| "limiter_step (LBlock a n o' until ac re rq c now) s =
     drop_ret (block_origin a n o' until ac re rq c now s)"

text \<open>The time an operation reads, and whether it leaves the configured rate of an origin alone.\<close>

definition reading :: "ts \<Rightarrow> datetime option \<Rightarrow> ts" where
  "reading c now = (case resolve_now c now of Inl _ \<Rightarrow> c | Inr t \<Rightarrow> t)"

fun limiter_time :: "limiter_op \<Rightarrow> ts" where
  "limiter_time (LEnsure o' cap rf mc c now) = reading c now"
| "limiter_time (LAcquire i o' w ls j c now) = reading c now"
| "limiter_time (LRelease i w c now) = reading c now"
| "limiter_time (LExpire o' c now) = reading c now"
| "limiter_time (LBlock a n o' until ac re rq c now) = reading c now"

lemma reading_eq: "resolve_now c now = Inr t \<Longrightarrow> reading c now = t"
  by (simp add: reading_def)

section \<open>Rows and invariant\<close>

lemma get_bucketD: "get_bucket x s = Some b \<Longrightarrow> b \<in> set (buckets s) \<and> b_origin b = x"
  unfolding get_bucket_def by (drule find_SomeD) simp

lemma get_put_bucket:
  assumes "get_bucket (b_origin b) s = Some b0"
  shows "get_bucket x (put_bucket b s) = (if x = b_origin b then Some b else get_bucket x s)"
proof -
  have "get_bucket x (put_bucket b s)
      = map_option (\<lambda>r. if b_origin r = b_origin b then b else r) (get_bucket x s)"
    unfolding get_bucket_def put_bucket_def by (simp, rule find_upd_where, simp)
  then show ?thesis
    using assms by (cases "get_bucket x s") (auto dest: get_bucketD)
qed

lemma put_bucket_tables [simp]:
  "permits (put_bucket b s) = permits s" "audit_logs (put_bucket b s) = audit_logs s"
  "crawl_jobs (put_bucket b s) = crawl_jobs s"
  by (simp_all add: put_bucket_def)

lemma get_bucket_other_tables [simp]:
  "get_bucket x (s\<lparr>permits := ps\<rparr>) = get_bucket x s"
  "get_bucket x (s\<lparr>audit_logs := as\<rparr>) = get_bucket x s"
  by (simp_all add: get_bucket_def)

definition limiter_inv :: "db \<Rightarrow> bool" where
  "limiter_inv s \<longleftrightarrow>
     distinct (map b_origin (buckets s)) \<and> list_all origin_bucket_checks (buckets s)
     \<and> distinct (map p_permit_id (permits s)) \<and> list_all origin_permit_checks (permits s)
     \<and> (\<forall>p\<in>set (permits s). p_origin p \<in> b_origin ` set (buckets s))"

lemma limiter_invD:
  assumes "limiter_inv s"
  shows "distinct (map b_origin (buckets s))"
    and "b \<in> set (buckets s) \<Longrightarrow> origin_bucket_checks b"
    and "distinct (map p_permit_id (permits s))"
    and "p \<in> set (permits s) \<Longrightarrow> origin_permit_checks p"
    and "p \<in> set (permits s) \<Longrightarrow> p_origin p \<in> b_origin ` set (buckets s)"
  using assms by (auto simp: limiter_inv_def list_all_iff)

lemma limiter_inv_put:
  assumes inv: "limiter_inv s" and "origin_bucket_checks b"
  shows "limiter_inv (put_bucket b s)"
proof -
  let ?bs = "upd_where (\<lambda>x. b_origin x = b_origin b) (\<lambda>_. b) (buckets s)"
  have keys: "map b_origin ?bs = map b_origin (buckets s)" by (rule map_upd_where) simp
  then have "b_origin ` set ?bs = b_origin ` set (buckets s)" by (metis list.set_map)
  moreover have "list_all origin_bucket_checks ?bs"
    using assms by (intro list_all_upd_where) (simp_all add: limiter_inv_def)
  ultimately show ?thesis
    using inv keys by (simp add: limiter_inv_def put_bucket_def)
qed

lemma limiter_inv_upd_permits:
  assumes inv: "limiter_inv s" and "r = Released \<or> r = Expired"
  shows "limiter_inv (s\<lparr>permits := upd_where q (permit_ended r cur) (permits s)\<rparr>)"
proof -
  let ?ps = "upd_where q (permit_ended r cur) (permits s)"
  have "map p_permit_id ?ps = map p_permit_id (permits s)"
    and origins: "map p_origin ?ps = map p_origin (permits s)"
    by (simp_all add: map_upd_where permit_ended_def)
  moreover have "p_origin ` set ?ps = p_origin ` set (permits s)"
    using origins by (metis list.set_map)
  moreover have "list_all origin_permit_checks ?ps"
    using inv by (intro list_all_upd_where)
      (simp_all add: limiter_inv_def origin_permit_checks_def permit_ended_def)
  ultimately show ?thesis
    using inv unfolding limiter_inv_def by (simp add: image_subset_iff [symmetric])
qed

section \<open>Refill\<close>

lemma refilled_nonneg:
  assumes "origin_bucket_checks b" shows "0 \<le> refilled_tokens b now"
proof -
  have "0 \<le> max (now - b_last_refill_at b) 0 * b_refill_per_second b"
    using assms by (intro mult_nonneg_nonneg) (simp_all add: origin_bucket_checks_def)
  then show ?thesis
    using assms by (simp add: refilled_tokens_def Let_def origin_bucket_checks_def
        pos_imp_zdiv_nonneg_iff)
qed

lemma refilled_le_capacity: "refilled_tokens b now \<le> b_capacity_tokens b"
proof -
  have "min x (c * 10 ^ 8) div 10 ^ 8 \<le> (c * 10 ^ 8) div 10 ^ 8" for x c :: int
    by (rule zdiv_mono1) simp_all
  then show ?thesis by (simp add: refilled_tokens_def Let_def)
qed

lemma refilled_le_earned:
  "refilled_tokens b now * 10 ^ 8
     \<le> b_available_tokens b * 10 ^ 8 + max (now - b_last_refill_at b) 0 * b_refill_per_second b"
proof -
  have "min x y div 10 ^ 8 * 10 ^ 8 \<le> x" for x y :: int
    using div_mult_mod_eq [of "min x y" "10 ^ 8"] pos_mod_sign [of "10 ^ 8" "min x y"]
      min.cobounded1 [of x y] zero_less_power [of "10::int" 8] by linarith
  then show ?thesis by (simp add: refilled_tokens_def Let_def)
qed

lemma refilled_enough:
  assumes "n * 10 ^ 8 \<le> b_available_tokens b * 10 ^ 8
      + max (now - b_last_refill_at b) 0 * b_refill_per_second b" and "n \<le> b_capacity_tokens b"
  shows "n \<le> refilled_tokens b now"
proof -
  have "(n * 10 ^ 8) div 10 ^ 8 \<le> min x y div 10 ^ 8" if "n * 10 ^ 8 \<le> x" "n * 10 ^ 8 \<le> y" for x y :: int
    using that by (intro zdiv_mono1) simp_all
  then show ?thesis using assms by (simp add: refilled_tokens_def Let_def)
qed

section \<open>What each operation does\<close>

definition blocked_at :: "ts \<Rightarrow> origin_bucket \<Rightarrow> bool" where
  "blocked_at t b \<longleftrightarrow> (case b_blocked_until b of None \<Rightarrow> False | Some until \<Rightarrow> t < until)"

text \<open>The bucket after an unblocked \<open>acquire_permit\<close> that grants \<open>n\<close> permits (0 or 1).\<close>

definition refilled :: "ts \<Rightarrow> nat \<Rightarrow> origin_bucket \<Rightarrow> origin_bucket" where
  "refilled cur n b = b\<lparr>b_available_tokens := refilled_tokens b cur - int n * TOKEN,
     b_last_refill_at := cur, b_updated_at := cur\<rparr>"

lemma refilled_simps [simp]:
  "b_origin (refilled cur n b) = b_origin b" "b_capacity_tokens (refilled cur n b) = b_capacity_tokens b"
  "b_refill_per_second (refilled cur n b) = b_refill_per_second b"
  "b_max_concurrency (refilled cur n b) = b_max_concurrency b"
  "b_blocked_until (refilled cur n b) = b_blocked_until b"
  "b_last_refill_at (refilled cur n b) = cur"
  "b_available_tokens (refilled cur n b) = refilled_tokens b cur - int n * TOKEN"
  by (simp_all add: refilled_def)

lemma refilled_grant:
  "b\<lparr>b_last_refill_at := cur, b_updated_at := cur, b_available_tokens := refilled_tokens b cur - TOKEN\<rparr>
     = refilled cur 1 b"
  by (cases b) (simp add: refilled_def)

lemma acquire_unblocked_cases:
  assumes "acquire_unblocked i x w ls job cur b s = Inr (d, s')"
  shows "(refilled_tokens b cur < TOKEN \<and> s' = put_bucket (refilled cur 0 b) s
      \<and> \<not> pd_granted d \<and> pd_reason d = Some DenyRate
      \<and> pd_retry_after d = Some (cur + rate_wait (refilled_tokens b cur) (b_refill_per_second b)))
    \<or> (TOKEN \<le> refilled_tokens b cur \<and> b_max_concurrency b \<le> int (length (live_permits x cur s))
      \<and> s' = put_bucket (refilled cur 0 b) s \<and> \<not> pd_granted d \<and> pd_reason d = Some DenyConcurrency)
    \<or> (TOKEN \<le> refilled_tokens b cur \<and> int (length (live_permits x cur s)) < b_max_concurrency b
      \<and> (\<exists>p. s' = (put_bucket (refilled cur 1 b) s)\<lparr>permits := permits s @ [p]\<rparr>
        \<and> pd_granted d \<and> pd_reason d = None \<and> pd_permit d = Some p \<and> p_permit_id p = i
        \<and> p_origin p = x \<and> p_owner_instance p = w \<and> p_lease_expires_at p = cur + ls * second
        \<and> p_released_at p = None \<and> p_release_reason p = None
        \<and> i \<notin> p_permit_id ` set (permits s)))"
proof (cases "refilled_tokens b cur < TOKEN")
  case True
  then show ?thesis using assms by (auto simp: acquire_unblocked_def Let_def refilled_def)
next
  case low: False
  show ?thesis
  proof (cases "b_max_concurrency b \<le> int (length (live_permits x cur s))")
    case True
    then show ?thesis using low assms by (auto simp: acquire_unblocked_def Let_def refilled_def)
  next
    case False
    moreover from this low assms have "i \<notin> p_permit_id ` set (permits s)"
      by (auto simp: acquire_unblocked_def Let_def image_iff split: if_splits)
    ultimately show ?thesis
      using low assms by (auto simp: acquire_unblocked_def Let_def refilled_grant split: if_splits)
  qed
qed

lemma acquire_cases:
  assumes "acquire_permit i x w ls job c now s = Inr (d, s')"
  obtains (blocked) b cur where "1 \<le> ls" "resolve_now c now = Inr cur" "get_bucket x s = Some b"
      "blocked_at cur b" "s' = s" "\<not> pd_granted d" "pd_reason d = Some DenyBlocked"
      "pd_retry_after d = b_blocked_until b"
  | (rate) b cur where "1 \<le> ls" "resolve_now c now = Inr cur" "get_bucket x s = Some b"
      "\<not> blocked_at cur b" "refilled_tokens b cur < TOKEN" "s' = put_bucket (refilled cur 0 b) s"
      "\<not> pd_granted d" "pd_reason d = Some DenyRate"
      "pd_retry_after d = Some (cur + rate_wait (refilled_tokens b cur) (b_refill_per_second b))"
  | (concurrency) b cur where "1 \<le> ls" "resolve_now c now = Inr cur" "get_bucket x s = Some b"
      "\<not> blocked_at cur b" "TOKEN \<le> refilled_tokens b cur"
      "b_max_concurrency b \<le> int (length (live_permits x cur s))"
      "s' = put_bucket (refilled cur 0 b) s" "\<not> pd_granted d" "pd_reason d = Some DenyConcurrency"
  | (granted) b cur p where "1 \<le> ls" "resolve_now c now = Inr cur" "get_bucket x s = Some b"
      "\<not> blocked_at cur b" "TOKEN \<le> refilled_tokens b cur"
      "int (length (live_permits x cur s)) < b_max_concurrency b"
      "s' = (put_bucket (refilled cur 1 b) s)\<lparr>permits := permits s @ [p]\<rparr>"
      "pd_granted d" "pd_reason d = None" "pd_permit d = Some p" "p_permit_id p = i" "p_origin p = x"
      "p_owner_instance p = w" "p_lease_expires_at p = cur + ls * second" "p_released_at p = None"
      "p_release_reason p = None" "i \<notin> p_permit_id ` set (permits s)"
proof -
  obtain b cur where 1: "1 \<le> ls" "resolve_now c now = Inr cur" "get_bucket x s = Some b"
    using assms by (auto simp: acquire_permit_def split: if_splits option.splits)
  show thesis
  proof (cases "blocked_at cur b")
    case True
    with 1 assms show thesis
      by (intro blocked [OF 1 True]) (auto simp: acquire_permit_def blocked_at_def split: option.splits)
  next
    case False
    with 1 assms have "acquire_unblocked i x w ls job cur b s = Inr (d, s')"
      by (auto simp: acquire_permit_def blocked_at_def split: option.splits)
    from acquire_unblocked_cases [OF this] show thesis
      using rate [OF 1 False] concurrency [OF 1 False] granted [OF 1 False] by metis
  qed
qed

lemma block_cases:
  assumes "block_origin a n x until ac re rq c now s = Inr (b', s')"
  obtains (longer) b cur u where "resolve_now c now = Inr cur" "get_bucket x s = Some b"
      "bind_timestamptz n until = Inr u" "case b_blocked_until b of None \<Rightarrow> True | Some t \<Rightarrow> t < u"
      "b' = b\<lparr>b_blocked_until := Some u, b_block_reason := Some (take 256 re),
        b_available_tokens := 0, b_last_refill_at := u, b_revision := b_revision b + 1,
        b_updated_at := cur\<rparr>"
      "\<exists>e. s' = (put_bucket b' s)\<lparr>audit_logs := audit_logs s @ [e]\<rparr> \<and> a_actor e = ac
        \<and> a_action e = ''origin.block'' \<and> a_resource_id e = ResText x \<and> a_created_at e = cur"
      "py_strip ac \<noteq> []" "py_strip re \<noteq> []"
  | (kept) b cur u where "resolve_now c now = Inr cur" "get_bucket x s = Some b"
      "bind_timestamptz n until = Inr u" "\<exists>t. b_blocked_until b = Some t \<and> u \<le> t" "b' = b" "s' = s"
proof -
  obtain cur b u where 1: "resolve_now c now = Inr cur" "get_bucket x s = Some b"
    "bind_timestamptz n until = Inr u" and ctx: "py_strip ac \<noteq> []" "py_strip re \<noteq> []"
    and 2: "(if (case b_blocked_until b of None \<Rightarrow> True | Some t \<Rightarrow> t < u) then
        (let bucket' = b\<lparr>b_blocked_until := Some u, b_block_reason := Some (take 256 re),
          b_available_tokens := 0, b_last_refill_at := u, b_revision := b_revision b + 1,
          b_updated_at := cur\<rparr>
         in bind_res (append_audit a c ac ''origin.block'' ''origin_rate_bucket'' (ResText x)
              (Some (JObj [(''blocked_until'', jopt_ts (b_blocked_until b))]))
              (Some (JObj [(''blocked_until'', JIso u), (''reason'', JStr (take 256 re))]))
              rq None (Some (Aware cur 0)) (put_bucket bucket' s)) (\<lambda>(_, s'). Inr (bucket', s')))
        else Inr (b, s)) = Inr (b', s')"
    using assms unfolding block_origin_def bind_res_eq_Inr
    by (elim exE conjE) (fastforce simp: require_audit_context_Inr bind_timestamptz_def
        split: option.splits datetime.splits)
  show thesis
  proof (cases "case b_blocked_until b of None \<Rightarrow> True | Some t \<Rightarrow> t < u")
    case True
    with 2 show thesis
      by (intro longer [OF 1 True _ _ ctx]) (auto simp: Let_def dest!: append_audit_None)
  next
    case False
    with 2 show thesis by (intro kept [OF 1]) (auto split: option.splits)
  qed
qed

section \<open>The invariant is kept\<close>

lemma refilled_checks:
  assumes "origin_bucket_checks b" and "int n * TOKEN \<le> refilled_tokens b cur"
  shows "origin_bucket_checks (refilled cur n b)"
  using assms refilled_le_capacity [of b cur]
  by (auto simp: origin_bucket_checks_def TOKEN_def)

lemma acquire_inv:
  assumes inv: "limiter_inv s" and run: "acquire_permit i x w ls job c now s = Inr (d, s')"
  shows "limiter_inv s'"
  using run
proof (cases rule: acquire_cases)
  case blocked
  then show ?thesis using inv by simp
next
  case (rate b cur)
  then show ?thesis
    using limiter_inv_put [OF inv refilled_checks] refilled_nonneg limiter_invD(2) [OF inv]
    by (auto dest: get_bucketD)
next
  case (concurrency b cur)
  then show ?thesis
    using limiter_inv_put [OF inv refilled_checks] refilled_nonneg limiter_invD(2) [OF inv]
    by (auto dest: get_bucketD)
next
  case (granted b cur p)
  have b: "b \<in> set (buckets s)" "b_origin b = x" using get_bucketD [OF granted(3)] by simp_all
  have "limiter_inv (put_bucket (refilled cur 1 b) s)" (is "limiter_inv ?t")
    using granted(5) limiter_invD(2) [OF inv b(1)]
    by (intro limiter_inv_put [OF inv] refilled_checks) simp_all
  moreover have "x \<in> b_origin ` set (buckets ?t)"
  proof -
    have "get_bucket x ?t = Some (refilled cur 1 b)"
      using get_put_bucket [of "refilled cur 1 b" s b x] granted(3) b(2) by simp
    from get_bucketD [OF this] show ?thesis by (metis imageI)
  qed
  ultimately show ?thesis
    using granted by (auto simp: limiter_inv_def origin_permit_checks_def)
qed

lemma ensure_cases:
  assumes "ensure_bucket x cap rf mc c now s = Inr (b', s')"
  obtains (created) cur where "resolve_now c now = Inr cur" "get_bucket x s = None"
      "s' = s\<lparr>buckets := buckets s @ [b']\<rparr>" "origin_bucket_checks b'" "b_origin b' = x" "b_max_concurrency b' = mc"
  | (updated) b cur where "resolve_now c now = Inr cur" "get_bucket x s = Some b"
      "b' = b\<lparr>b_capacity_tokens := cap, b_refill_per_second := rf,
         b_available_tokens := min (b_available_tokens b) cap, b_max_concurrency := mc,
         b_revision := b_revision b + 1, b_updated_at := cur\<rparr>"
      "s' = put_bucket b' s" "0 < cap" "0 < rf" "0 \<le> mc"
  using assms
  by (auto simp: ensure_bucket_def Let_def origin_bucket_checks_def split: if_splits option.splits)

lemma ensure_inv:
  assumes inv: "limiter_inv s" and run: "ensure_bucket x cap rf mc c now s = Inr (b', s')"
  shows "limiter_inv s'"
  using run
proof (cases rule: ensure_cases)
  case (created cur)
  have "x \<notin> b_origin ` set (buckets s)"
    using created(2) by (auto simp: get_bucket_def find_None_iff)
  then show ?thesis using inv created by (auto simp: limiter_inv_def)
next
  case (updated b cur)
  have "origin_bucket_checks b" using limiter_invD(2) [OF inv] updated(2) get_bucketD by blast
  then have "origin_bucket_checks b'" using updated by (simp add: origin_bucket_checks_def)
  then show ?thesis using limiter_inv_put [OF inv] updated(4) by simp
qed

lemma block_inv:
  assumes inv: "limiter_inv s" and run: "block_origin a n x until ac re rq c now s = Inr (b', s')"
  shows "limiter_inv s'"
  using run
proof (cases rule: block_cases)
  case (longer b cur t)
  have "origin_bucket_checks b" using limiter_invD(2) [OF inv] longer(2) get_bucketD by blast
  then have "origin_bucket_checks b'" using longer(5) by (simp add: origin_bucket_checks_def)
  from limiter_inv_put [OF inv this] show ?thesis
    using longer(6) by (auto simp: limiter_inv_def)
next
  case (kept b cur t)
  then show ?thesis using inv by simp
qed

lemma limiter_step_inv:
  assumes "limiter_inv s" and "limiter_step p s = Inr s'"
  shows "limiter_inv s'"
  using assms
  by (cases p) (auto dest: acquire_inv ensure_inv block_inv
      simp: release_permit_def expire_permits_def Let_def intro!: limiter_inv_upd_permits)

interpretation limiter: invariant_system limiter_step limiter_inv
  by unfold_locales (rule limiter_step_inv)

lemma limiter_inv_empty [simp]: "limiter_inv empty_db"
  by (simp add: limiter_inv_def)

section \<open>Concurrency\<close>

lemma live_mono:
  assumes "t \<le> t'" shows "length (live_permits x t' s) \<le> length (live_permits x t s)"
proof -
  have "live_permits x t' s = filter (permit_live x t') (live_permits x t s)"
    using assms by (auto simp: live_permits_def permit_live_def intro!: filter_cong)
  then show ?thesis by simp
qed

lemma live_tables [simp]:
  "live_permits x t (put_bucket b s) = live_permits x t s"
  "live_permits x t (s\<lparr>audit_logs := as\<rparr>) = live_permits x t s"
  "live_permits x t (s\<lparr>buckets := bs\<rparr>) = live_permits x t s"
  by (simp_all add: live_permits_def)

lemma live_ended:
  "length (live_permits x t (s\<lparr>permits := upd_where q (permit_ended r cur) (permits s)\<rparr>))
     \<le> length (live_permits x t s)"
proof -
  have "length (filter (permit_live x t) (upd_where q (permit_ended r cur) ps))
     \<le> length (filter (permit_live x t) ps)" for ps
    by (induction ps) (auto simp: permit_live_def permit_ended_def)
  then show ?thesis by (simp add: live_permits_def)
qed

text \<open>The configurations of an origin that an operation sets have at most \<open>M\<close> slots.\<close>

fun configures_at_most :: "string \<Rightarrow> int \<Rightarrow> limiter_op \<Rightarrow> bool" where
  "configures_at_most x M (LEnsure o' cap rf mc c now) \<longleftrightarrow> (o' = x \<longrightarrow> mc \<le> M)"
| "configures_at_most x M _ \<longleftrightarrow> True"

definition slots_within :: "string \<Rightarrow> int \<Rightarrow> ts \<Rightarrow> db \<Rightarrow> bool" where
  "slots_within x M t s \<longleftrightarrow> int (length (live_permits x t s)) \<le> M
     \<and> (\<forall>b. get_bucket x s = Some b \<longrightarrow> b_max_concurrency b \<le> M)"

lemma slots_within_mono: "slots_within x M t s \<Longrightarrow> t \<le> t' \<Longrightarrow> slots_within x M t' s"
  using live_mono [of t t' x s] by (auto simp: slots_within_def)

lemma slots_within_put:
  assumes "slots_within x M t s" and "get_bucket (b_origin b) s = Some b0"
    and "b_origin b = x \<Longrightarrow> b_max_concurrency b \<le> M"
  shows "slots_within x M t (put_bucket b s)"
  using assms by (auto simp: slots_within_def get_put_bucket)

lemma slots_within_put_same:
  assumes "slots_within x M t s" and "get_bucket y s = Some b" and "b_origin b' = b_origin b"
    and "b_max_concurrency b' = b_max_concurrency b"
  shows "slots_within x M t (put_bucket b' s)"
  using assms get_bucketD [OF assms(2)]
  by (intro slots_within_put) (auto simp: slots_within_def)

lemma slots_within_ended:
  assumes "slots_within x M t s"
  shows "slots_within x M t (s\<lparr>permits := upd_where q (permit_ended r cur) (permits s)\<rparr>)"
  using assms le_trans [OF live_ended] by (auto simp: slots_within_def intro: order_trans [OF of_nat_mono [OF live_ended]])

lemma acquire_slots:
  assumes "acquire_permit i x' w ls job c now s = Inr (d, s')" and "slots_within x M (reading c now) s"
  shows "slots_within x M (reading c now) s'"
  using assms(1)
proof (cases rule: acquire_cases)
  case blocked
  then show ?thesis using assms by simp
next
  case (rate b cur)
  then show ?thesis using slots_within_put_same [OF assms(2) rate(3)] by simp
next
  case (concurrency b cur)
  then show ?thesis using slots_within_put_same [OF assms(2) concurrency(3)] by simp
next
  case (granted b cur p)
  have "slots_within x M cur (put_bucket (refilled cur 1 b) s)"
    using slots_within_put_same [OF assms(2) granted(3)] reading_eq [OF granted(2)] by simp
  moreover have "length (live_permits x cur s') = length (live_permits x cur s) + (if x = x' \<and> cur < p_lease_expires_at p then 1 else 0)"
    using granted by (auto simp: live_permits_def permit_live_def)
  ultimately show ?thesis
    using granted(3,6,7) assms(2) reading_eq [OF granted(2)] by (auto simp: slots_within_def)
qed

lemma limiter_step_slots:
  assumes "limiter_step p s = Inr s'" and "configures_at_most x M p"
    and "slots_within x M (limiter_time p) s"
  shows "slots_within x M (limiter_time p) s'"
proof (cases p)
  case (LEnsure y cap rf mc c now)
  then obtain b' where "ensure_bucket y cap rf mc c now s = Inr (b', s')" using assms(1) by auto
  then show ?thesis
  proof (cases rule: ensure_cases)
    case (created cur)
    then show ?thesis using created assms(2,3) LEnsure
      by (auto simp: slots_within_def get_bucket_def find_append_rows split: option.splits)
  next
    case (updated b cur)
    then show ?thesis using assms(2,3) LEnsure get_bucketD [OF updated(2)]
      by (auto intro!: slots_within_put)
  qed
next
  case (LAcquire i y w ls j c now)
  then show ?thesis using assms acquire_slots by auto
next
  case (LRelease i w c now)
  then show ?thesis using assms slots_within_ended
    by (auto simp: release_permit_def Let_def)
next
  case (LExpire y c now)
  then show ?thesis using assms slots_within_ended
    by (auto simp: expire_permits_def Let_def)
next
  case (LBlock a n y until ac re rq c now)
  then obtain b' where "block_origin a n y until ac re rq c now s = Inr (b', s')" using assms(1) by auto
  then show ?thesis
  proof (cases rule: block_cases)
    case (longer b cur t)
    then have "slots_within x M (limiter_time p) (put_bucket b' s)"
      using slots_within_put_same [OF assms(3) longer(2)] by simp
    then show ?thesis using longer(6) by (auto simp: slots_within_def)
  next
    case (kept b cur t)
    then show ?thesis using assms(3) by simp
  qed
qed

lemma run_slots:
  assumes "sorted (t # map limiter_time ps)" and "\<forall>p\<in>set ps. configures_at_most x M p"
    and "slots_within x M t s"
  shows "slots_within x M (last (t # map limiter_time ps)) (run_ops limiter_step ps s)"
  using assms
proof (induction ps arbitrary: t s)
  case Nil
  then show ?case by simp
next
  case (Cons p ps)
  let ?s = "case limiter_step p s of Inl _ \<Rightarrow> s | Inr s' \<Rightarrow> s'"
  have "slots_within x M (limiter_time p) s"
    using Cons.prems by (auto intro: slots_within_mono)
  then have "slots_within x M (limiter_time p) ?s"
    using limiter_step_slots [of p s] Cons.prems(2) by (auto split: sum.splits)
  then have "slots_within x M (last (limiter_time p # map limiter_time ps)) (run_ops limiter_step ps ?s)"
    using Cons.prems by (intro Cons.IH) auto
  then show ?case by simp
qed

section \<open>Rate\<close>

text \<open>
  What an origin can spend until time \<open>T\<close>, in units of 10^-12 token: what it has plus what
  it will earn. A bucket is \<open>in order\<close> at time \<open>t\<close> when its last refill lies in the
  past, or not after the end of its block.
\<close>

definition spendable :: "ts \<Rightarrow> origin_bucket \<Rightarrow> int" where
  "spendable T b = b_available_tokens b * 10 ^ 8 + b_refill_per_second b * max 0 (T - b_last_refill_at b)"

definition in_order :: "ts \<Rightarrow> origin_bucket \<Rightarrow> bool" where
  "in_order t b \<longleftrightarrow> b_last_refill_at b \<le> t
     \<or> (case b_blocked_until b of None \<Rightarrow> False | Some until \<Rightarrow> b_last_refill_at b \<le> until)"

definition granted_permits :: "string \<Rightarrow> db \<Rightarrow> int" where
  "granted_permits x s = int (length (filter (\<lambda>p. p_origin p = x) (permits s)))"

text \<open>
  An operation that keeps the refill rate \<open>rf\<close> of the origin, and blocks it, if it does,
  until a time that is not in the past.
\<close>

fun keeps_rate :: "string \<Rightarrow> int \<Rightarrow> limiter_op \<Rightarrow> bool" where
  "keeps_rate x rf (LEnsure o' cap rf' mc c now) \<longleftrightarrow> (o' = x \<longrightarrow> rf' = rf)"
| "keeps_rate x rf (LBlock a n o' until ac re rq c now) \<longleftrightarrow>
     (o' = x \<longrightarrow> (case bind_timestamptz n until of Inl _ \<Rightarrow> True | Inr t \<Rightarrow> reading c now \<le> t))"
| "keeps_rate x rf _ \<longleftrightarrow> True"

lemma in_order_mono: "in_order t b \<Longrightarrow> t \<le> t' \<Longrightarrow> in_order t' b"
  by (auto simp: in_order_def)

lemma in_order_unblocked: "in_order t b \<Longrightarrow> \<not> blocked_at t b \<Longrightarrow> b_last_refill_at b \<le> t"
  by (auto simp: in_order_def blocked_at_def split: option.splits)

lemma spend_refilled:
  assumes "in_order t b" and "\<not> blocked_at t b" and "t \<le> T"
  shows "spendable T (refilled t n b) + int n * 10 ^ 12 \<le> spendable T b"
proof -
  let ?r = "b_refill_per_second b" and ?l = "b_last_refill_at b"
  have l: "?l \<le> t" using in_order_unblocked assms by blast
  have "?r * (T - ?l) = (t - ?l) * ?r + ?r * (T - t)" by (simp add: algebra_simps)
  moreover have "refilled_tokens b t * 10 ^ 8 \<le> b_available_tokens b * 10 ^ 8 + (t - ?l) * ?r"
    using refilled_le_earned [of b t] l by simp
  ultimately show ?thesis
    using assms(3) l by (simp add: spendable_def TOKEN_def)
qed

lemma granted_tables [simp]:
  "granted_permits x (put_bucket b s) = granted_permits x s"
  "granted_permits x (s\<lparr>audit_logs := as\<rparr>) = granted_permits x s"
  "granted_permits x (s\<lparr>buckets := bs\<rparr>) = granted_permits x s"
  by (simp_all add: granted_permits_def)

lemma granted_ended [simp]:
  "granted_permits x (s\<lparr>permits := upd_where q (permit_ended r cur) (permits s)\<rparr>) = granted_permits x s"
proof -
  have "length (filter (\<lambda>p. p_origin p = x) (upd_where q (permit_ended r cur) ps))
      = length (filter (\<lambda>p. p_origin p = x) ps)" for ps
    by (induction ps) (auto simp: permit_ended_def)
  then show ?thesis by (simp add: granted_permits_def)
qed

text \<open>The budget of an origin: what it was granted, and what it can still spend.\<close>

definition budget_within :: "string \<Rightarrow> int \<Rightarrow> ts \<Rightarrow> int \<Rightarrow> ts \<Rightarrow> db \<Rightarrow> bool" where
  "budget_within x rf T cap t s \<longleftrightarrow>
     (\<exists>b. get_bucket x s = Some b \<and> b_refill_per_second b = rf \<and> in_order t b
        \<and> granted_permits x s * 10 ^ 12 + spendable T b \<le> cap)"

lemma budget_within_mono: "budget_within x rf T n t s \<Longrightarrow> t \<le> t' \<Longrightarrow> budget_within x rf T n t' s"
  using in_order_mono by (auto simp: budget_within_def)

lemma budget_within_put:
  assumes "budget_within x rf T n t s" and "get_bucket y s = Some b" and "b_origin b' = b_origin b"
    and "y = x \<Longrightarrow> in_order t b \<Longrightarrow> b_refill_per_second b = rf \<Longrightarrow>
       b_refill_per_second b' = rf \<and> in_order t b' \<and> spendable T b' \<le> spendable T b"
  shows "budget_within x rf T n t (put_bucket b' s)"
  using assms get_bucketD [OF assms(2)]
  by (cases "x = y") (fastforce simp: budget_within_def get_put_bucket)+

lemma acquire_budget:
  assumes run: "acquire_permit i y w ls job c now s = Inr (d, s')"
    and bud: "budget_within x rf T n (reading c now) s" and T: "reading c now \<le> T"
  shows "budget_within x rf T n (reading c now) s'"
  using run
proof (cases rule: acquire_cases)
  case blocked
  then show ?thesis using bud by simp
next
  case (rate b cur)
  note cur = reading_eq [OF rate(2)]
  show ?thesis unfolding rate(6)
    using spend_refilled [of cur b T 0] rate(4) T cur
    by (intro budget_within_put [OF bud rate(3)]) (auto simp: in_order_def)
next
  case (concurrency b cur)
  note cur = reading_eq [OF concurrency(2)]
  show ?thesis unfolding concurrency(7)
    using spend_refilled [of cur b T 0] concurrency(4) T cur
    by (intro budget_within_put [OF bud concurrency(3)]) (auto simp: in_order_def)
next
  case (granted b cur p)
  note cur = reading_eq [OF granted(2)]
  have y: "b_origin b = y" using get_bucketD [OF granted(3)] by simp
  have g: "granted_permits x s' = granted_permits x s + (if x = y then 1 else 0)"
    using granted(7,12) by (simp add: granted_permits_def)
  have get: "get_bucket x s' = (if x = y then Some (refilled cur 1 b) else get_bucket x s)"
    using granted(3,7) y by (simp add: get_put_bucket)
  show ?thesis
    using bud get g spend_refilled [of cur b T 1] granted(3,4) T cur
    by (cases "x = y") (auto simp: budget_within_def in_order_def)
qed

lemma limiter_step_budget:
  assumes step: "limiter_step p s = Inr s'" and keeps: "keeps_rate x rf p" and inv: "limiter_inv s"
    and bud: "budget_within x rf T n (limiter_time p) s" and T: "limiter_time p \<le> T"
  shows "budget_within x rf T n (limiter_time p) s'"
proof (cases p)
  case (LEnsure y cap rf' mc c now)
  then obtain b' where "ensure_bucket y cap rf' mc c now s = Inr (b', s')" using step by auto
  then show ?thesis
  proof (cases rule: ensure_cases)
    case (created cur)
    then show ?thesis using bud
      by (auto simp: budget_within_def get_bucket_def find_append_rows)
  next
    case (updated b cur)
    show ?thesis unfolding updated(4)
      using keeps LEnsure updated(3)
      by (intro budget_within_put [OF bud updated(2)])
        (auto simp: in_order_def spendable_def split: option.splits)
  qed
next
  case (LAcquire i y w ls j c now)
  then show ?thesis using step bud T acquire_budget by auto
next
  case (LRelease i w c now)
  then show ?thesis using step bud by (auto simp: release_permit_def Let_def budget_within_def)
next
  case (LExpire y c now)
  then show ?thesis using step bud by (auto simp: expire_permits_def Let_def budget_within_def)
next
  case (LBlock a f y until ac re rq c now)
  then obtain b' where "block_origin a f y until ac re rq c now s = Inr (b', s')" using step by auto
  then show ?thesis
  proof (cases rule: block_cases)
    case (longer b cur t)
    have "budget_within x rf T n (limiter_time p) (put_bucket b' s)"
    proof (rule budget_within_put [OF bud longer(2)])
      assume y: "y = x" and ord: "in_order (limiter_time p) b" and rf: "b_refill_per_second b = rf"
      have b: "origin_bucket_checks b" using limiter_invD(2) [OF inv] longer(2) get_bucketD by blast
      have "limiter_time p \<le> t" using keeps LBlock longer(3) y by simp
      then have "b_last_refill_at b \<le> t"
        using ord longer(4) by (auto simp: in_order_def split: option.splits)
      then have "rf * max 0 (T - t)
          \<le> b_available_tokens b * 10 ^ 8 + rf * max 0 (T - b_last_refill_at b)"
        using b rf by (intro add_increasing mult_left_mono) (auto simp: origin_bucket_checks_def)
      then have "spendable T b' \<le> spendable T b"
        using rf by (simp add: spendable_def longer(5))
      then show "b_refill_per_second b' = rf \<and> in_order (limiter_time p) b' \<and> spendable T b' \<le> spendable T b"
        using longer(5) rf by (simp add: in_order_def)
    qed (simp add: longer(5))
    then show ?thesis using longer(6) by (auto simp: budget_within_def)
  next
    case (kept b cur t)
    then show ?thesis using bud by simp
  qed
qed

lemma run_budget:
  assumes "sorted (t # map limiter_time ps)" and "\<forall>p\<in>set ps. keeps_rate x rf p"
    and "\<forall>p\<in>set ps. limiter_time p \<le> T" and "limiter_inv s" and "budget_within x rf T n t s"
  shows "\<exists>t'. budget_within x rf T n t' (run_ops limiter_step ps s)"
  using assms
proof (induction ps arbitrary: t s)
  case Nil
  then show ?case by auto
next
  case (Cons p ps)
  let ?s = "case limiter_step p s of Inl _ \<Rightarrow> s | Inr s' \<Rightarrow> s'"
  have "budget_within x rf T n (limiter_time p) s"
    using Cons.prems by (auto intro: budget_within_mono)
  then have "budget_within x rf T n (limiter_time p) ?s"
    using limiter_step_budget [of p s] Cons.prems by (auto split: sum.splits)
  moreover have "limiter_inv ?s"
    using Cons.prems(4) by (auto split: sum.splits dest: limiter_step_inv)
  ultimately have "\<exists>t'. budget_within x rf T n t' (run_ops limiter_step ps ?s)"
    using Cons.prems by (intro Cons.IH) auto
  then show ?case by simp
qed

section \<open>Properties of the limiter\<close>

text \<open>
  Whatever operations run against the limiter, the tables keep their invariant: one bucket
  per origin, \<open>0 <= available_tokens <= capacity_tokens\<close> with a positive capacity and
  refill rate, unique permit ids, a release reason exactly on released permits, and no permit
  without its bucket.
\<close>

theorem limiter_run_keeps_invariant:
  assumes "limiter_inv s"
  shows "limiter_inv (run_ops limiter_step ops s)"
  using assms by (rule limiter.run_inv)

text \<open>One request per second, a burst of two, at most one at a time.\<close>

definition demo_bucket :: origin_bucket where
  "demo_bucket = \<lparr>b_origin = ''o'', b_capacity_tokens = 20000, b_refill_per_second = 1000000,
     b_available_tokens = 20000, b_last_refill_at = 0, b_max_concurrency = 1,
     b_blocked_until = None, b_block_reason = None, b_revision = 1, b_created_at = 0,
     b_updated_at = 0\<rparr>"

definition demo_origin :: db where
  "demo_origin = empty_db\<lparr>buckets := [demo_bucket]\<rparr>"

lemma demo_origin_inv [simp]: "limiter_inv demo_origin"
  by (simp add: demo_origin_def demo_bucket_def limiter_inv_def origin_bucket_checks_def)

lemma demo_origin_get [simp]: "get_bucket ''o'' demo_origin = Some demo_bucket"
  by (simp add: demo_origin_def demo_bucket_def get_bucket_def)

abbreviation "demo_acquire i t \<equiv> LAcquire i ''o'' ''w1'' 30 None 0 (utc t)"

theorem limiter_run_keeps_invariant_witness:
  "limiter_inv (run_ops limiter_step [demo_acquire 1 5, LRelease 1 None 0 (utc 6), demo_acquire 2 7] demo_origin)"
  by (rule limiter_run_keeps_invariant) simp

text \<open>
  C12. The concurrency limit is global: over any run of operations of any number of replicas
  whose clock readings do not go back, an origin never has more live permits (not released,
  lease not expired) than the largest \<open>max_concurrency\<close> it was configured with. With a
  constant configuration that is \<open>max_concurrency\<close> itself.
\<close>

theorem concurrency_never_exceeded:
  assumes "sorted (t0 # map limiter_time ops)"
    and "\<forall>p\<in>set ops. configures_at_most x M p"
    and "\<forall>b. get_bucket x s = Some b \<longrightarrow> b_max_concurrency b \<le> M"
    and "int (length (live_permits x t0 s)) \<le> M"
    and "last (t0 # map limiter_time ops) \<le> t"
  shows "int (length (live_permits x t (run_ops limiter_step ops s))) \<le> M"
proof -
  have "slots_within x M t0 s" using assms(3,4) by (simp add: slots_within_def)
  from run_slots [OF assms(1,2) this] have "slots_within x M t (run_ops limiter_step ops s)"
    using assms(5) by (rule slots_within_mono)
  then show ?thesis by (simp add: slots_within_def)
qed

theorem concurrency_never_exceeded_witness:
  "int (length (live_permits ''o'' 9
     (run_ops limiter_step [demo_acquire 1 5, demo_acquire 2 6, demo_acquire 3 7] demo_origin))) \<le> 1"
  by (rule concurrency_never_exceeded [of 0])
    (auto simp: reading_def demo_bucket_def demo_origin_def live_permits_def get_bucket_def)

text \<open>
  C13. The rate limit is global: over any run whose clock readings do not go back, with the
  refill rate unchanged and no block that ends in the past, the number of permits granted to an
  origin up to time \<open>T\<close> is at most the tokens it had plus the tokens the configured rate
  earns from its last refill to \<open>T\<close> (counted in 10^-12 token, so nothing is rounded away).
\<close>

theorem rate_never_exceeded:
  assumes "limiter_inv s" and "get_bucket x s = Some b"
    and "sorted (b_last_refill_at b # map limiter_time ops)"
    and "\<forall>p\<in>set ops. keeps_rate x (b_refill_per_second b) p" and "\<forall>p\<in>set ops. limiter_time p \<le> T"
    and "b_last_refill_at b \<le> T"
  shows "(granted_permits x (run_ops limiter_step ops s) - granted_permits x s) * 10 ^ 12
     \<le> b_available_tokens b * 10 ^ 8 + b_refill_per_second b * (T - b_last_refill_at b)"
proof -
  let ?rf = "b_refill_per_second b" and ?s = "run_ops limiter_step ops s"
  let ?n = "granted_permits x s * 10 ^ 12 + spendable T b"
  have "budget_within x ?rf T ?n (b_last_refill_at b) s"
    using assms(2) by (simp add: budget_within_def in_order_def)
  from run_budget [OF assms(3-5,1) this] obtain b' where
    b': "get_bucket x ?s = Some b'" "granted_permits x ?s * 10 ^ 12 + spendable T b' \<le> ?n"
    by (auto simp: budget_within_def)
  have "origin_bucket_checks b'"
    using limiter_invD(2) [OF limiter.run_inv [OF assms(1)]] get_bucketD [OF b'(1)] by blast
  then have "0 \<le> spendable T b'"
    unfolding spendable_def origin_bucket_checks_def by (intro add_nonneg_nonneg mult_nonneg_nonneg) auto
  then show ?thesis using b'(2) assms(6) by (simp add: spendable_def algebra_simps)
qed

theorem rate_never_exceeded_witness:
  "(granted_permits ''o'' (run_ops limiter_step [demo_acquire 1 5, LRelease 1 None 0 (utc 6),
      demo_acquire 2 7, LRelease 2 None 0 (utc 8), demo_acquire 3 9] demo_origin)
     - granted_permits ''o'' demo_origin) * 10 ^ 12 \<le> 2000000000000 + 1000000 * (9 - 0)"
  using rate_never_exceeded [of demo_origin "''o''" demo_bucket
      "[demo_acquire 1 5, LRelease 1 None 0 (utc 6), demo_acquire 2 7, LRelease 2 None 0 (utc 8),
        demo_acquire 3 9]" 9, OF demo_origin_inv demo_origin_get]
  by (simp add: reading_def demo_bucket_def del: run_ops.simps)

text \<open>
  When \<open>acquire_permit\<close> succeeds, its decision is the one the limiter promises: it
  grants exactly when the origin is not blocked, at least one token is there after the refill,
  and fewer than \<open>max_concurrency\<close> permits are live; a grant spends one token and adds one
  leased permit; a denial adds none, and spends no token.
\<close>

theorem acquire_decision:
  assumes "acquire_permit i x w ls job c now s = Inr (d, s')" and "get_bucket x s = Some b"
    and "resolve_now c now = Inr cur"
  shows "(pd_granted d \<longleftrightarrow> \<not> blocked_at cur b \<and> TOKEN \<le> refilled_tokens b cur
       \<and> int (length (live_permits x cur s)) < b_max_concurrency b)
    \<and> (if pd_granted d
        then (\<exists>p. pd_permit d = Some p \<and> permits s' = permits s @ [p]
           \<and> p_origin p = x \<and> p_owner_instance p = w \<and> p_lease_expires_at p = cur + ls * second
           \<and> p_released_at p = None \<and> get_bucket x s' = Some (refilled cur 1 b))
        else permits s' = permits s
           \<and> get_bucket x s' = Some (if blocked_at cur b then b else refilled cur 0 b))"
proof -
  have b: "b_origin b = x" using get_bucketD [OF assms(2)] by simp
  have put: "get_bucket x (put_bucket (refilled cur n b) s) = Some (refilled cur n b)" for n
    using get_put_bucket [of "refilled cur n b" s b x] assms(2) b by simp
  show ?thesis
    using assms(1)
  proof (cases rule: acquire_cases)
    case (blocked b0 cur0)
    then show ?thesis using assms(2,3) by simp
  next
    case (rate b0 cur0)
    then show ?thesis using assms(2,3) put [of 0] by simp
  next
    case (concurrency b0 cur0)
    then show ?thesis using assms(2,3) put [of 0] by simp
  next
    case (granted b0 cur0 p)
    then show ?thesis using assms(2,3) put [of 1] by simp
  qed
qed

lemma acquire_total:
  assumes "1 \<le> ls" and "resolve_now c now = Inr cur" and "get_bucket x s = Some b"
    and "i \<notin> p_permit_id ` set (permits s)"
  shows "\<exists>d s'. acquire_permit i x w ls None c now s = Inr (d, s')"
proof -
  have "\<exists>d s'. acquire_unblocked i x w ls None cur b s = Inr (d, s')"
    using assms(4) by (auto simp: acquire_unblocked_def Let_def image_iff)
  then show ?thesis using assms(1-3) by (auto simp: acquire_permit_def split: option.splits)
qed

theorem acquire_decision_witness:
  "\<exists>d s'. acquire_permit 1 ''o'' ''w1'' 30 None 0 (utc 5) demo_origin = Inr (d, s')
     \<and> pd_granted d \<and> get_bucket ''o'' s' = Some (refilled 5 1 demo_bucket)"
proof -
  obtain d s' where run: "acquire_permit 1 ''o'' ''w1'' 30 None 0 (utc 5) demo_origin = Inr (d, s')"
    using acquire_total [of 30 0 "utc 5" 5 "''o''" demo_origin demo_bucket 1 "''w1''", OF _ _ demo_origin_get]
    by (auto simp: demo_origin_def)
  have "\<not> blocked_at 5 demo_bucket" "TOKEN \<le> refilled_tokens demo_bucket 5"
    "int (length (live_permits ''o'' 5 demo_origin)) < b_max_concurrency demo_bucket"
    by code_simp+
  then show ?thesis
    using acquire_decision [OF run demo_origin_get, of 5] run by auto
qed

lemma rate_wait_enough:
  assumes "0 < refill" and "rate_wait tokens refill < e"
  shows "(TOKEN - tokens) * 10 ^ 8 \<le> e * refill"
proof -
  let ?x = "of_int ((TOKEN - tokens) * 10 ^ 8) / of_int refill :: rat"
  have "\<lfloor>?x\<rfloor> \<le> rate_wait tokens refill"
    unfolding rate_wait_def using py_round_bounds by blast
  then have "?x \<le> of_int e" using assms(2) by linarith
  then have "of_int ((TOKEN - tokens) * 10 ^ 8) \<le> (of_int (e * refill) :: rat)"
    using assms(1) by (simp add: pos_divide_le_eq)
  then show ?thesis unfolding of_int_le_iff .
qed

lemma rate_wait_nonneg: "tokens < TOKEN \<Longrightarrow> 0 < refill \<Longrightarrow> 0 \<le> rate_wait tokens refill"
  unfolding rate_wait_def by (intro py_round_nonneg divide_nonneg_nonneg) simp_all

text \<open>
  C14. \<open>retry_after\<close> of a rate denial is honest: a microsecond after it, if nothing else
  happened to the origin and its capacity is at least one token, asking again is not denied for
  the rate (it is granted, or denied for concurrency).
\<close>

theorem retry_after_is_enough:
  assumes inv: "limiter_inv s" and b: "get_bucket x s = Some b" "TOKEN \<le> b_capacity_tokens b"
    and run: "acquire_permit i x w ls job c now s = Inr (d, s')"
    and denied: "pd_reason d = Some DenyRate" "pd_retry_after d = Some r"
    and again: "resolve_now c2 now2 = Inr t2" "r < t2" "1 \<le> ls2"
      "i2 \<notin> p_permit_id ` set (permits s)"
  shows "\<exists>d2 s2. acquire_permit i2 x w2 ls2 None c2 now2 s' = Inr (d2, s2)
     \<and> (pd_granted d2 \<or> pd_reason d2 = Some DenyConcurrency)"
  using run
proof (cases rule: acquire_cases)
  case (rate b0 cur)
  have b0: "b0 = b" "b_origin b = x" using rate(3) b(1) get_bucketD by auto
  let ?b = "refilled cur 0 b" and ?tok = "refilled_tokens b cur" and ?rf = "b_refill_per_second b"
  have rf: "0 < ?rf"
    using limiter_invD(2) [OF inv] get_bucketD [OF b(1)] by (auto simp: origin_bucket_checks_def)
  have later: "rate_wait ?tok ?rf < t2 - cur" using denied(2) rate(9) again(2) b0 by simp
  have "0 \<le> rate_wait ?tok ?rf" using rate(5) rf b0 by (intro rate_wait_nonneg) simp_all
  then have "cur \<le> t2" using later by linarith
  then have "TOKEN \<le> refilled_tokens ?b t2"
    using rate_wait_enough [OF rf later] b(2) by (intro refilled_enough) (simp_all add: algebra_simps)
  moreover have "\<not> blocked_at t2 ?b"
    using rate(4) \<open>cur \<le> t2\<close> b0 by (auto simp: blocked_at_def split: option.splits)
  moreover have get: "get_bucket x s' = Some ?b"
    using rate(3,6) b0 get_put_bucket [of ?b s b x] by simp
  moreover obtain d2 s2 where run2: "acquire_permit i2 x w2 ls2 None c2 now2 s' = Inr (d2, s2)"
    using acquire_total [OF again(3,1) get, of i2 w2] again(4) rate(6) by auto
  moreover have "pd_granted d2 \<or> pd_reason d2 = Some DenyConcurrency"
    using calculation again(1) by (cases rule: acquire_cases [OF run2]) auto
  ultimately show ?thesis by blast
qed (use denied in auto)

definition demo_empty :: db where
  "demo_empty = empty_db\<lparr>buckets := [demo_bucket\<lparr>b_available_tokens := 0\<rparr>]\<rparr>"

theorem retry_after_is_enough_witness:
  "\<exists>d s'. acquire_permit 1 ''o'' ''w1'' 30 None 0 (utc 0) demo_empty = Inr (d, s')
     \<and> (\<exists>d2 s2. acquire_permit 1 ''o'' ''w1'' 30 None 0 (utc 1000001) s' = Inr (d2, s2)
          \<and> (pd_granted d2 \<or> pd_reason d2 = Some DenyConcurrency))"
proof -
  let ?run = "acquire_permit 1 ''o'' ''w1'' 30 None 0 (utc 0) demo_empty"
  have "map_sum id (\<lambda>(d, s'). (pd_reason d, pd_retry_after d)) ?run = Inr (Some DenyRate, Some 1000000)"
    by code_simp
  then obtain d s' where run: "?run = Inr (d, s')" and den: "pd_reason d = Some DenyRate"
    "pd_retry_after d = Some 1000000"
    by (cases ?run) auto
  have inv: "limiter_inv demo_empty"
    by (simp add: demo_empty_def demo_bucket_def limiter_inv_def origin_bucket_checks_def)
  have b: "get_bucket ''o'' demo_empty = Some (demo_bucket\<lparr>b_available_tokens := 0\<rparr>)"
    "TOKEN \<le> b_capacity_tokens (demo_bucket\<lparr>b_available_tokens := 0\<rparr>)"
    by (simp_all add: demo_empty_def demo_bucket_def get_bucket_def TOKEN_def)
  show ?thesis
    using retry_after_is_enough [OF inv b run den, of 0 "utc 1000001" 1000001 30 1] run
    by (simp add: demo_empty_def)
qed

text \<open>
  After \<open>block_origin\<close> returns, the origin is blocked at least until the requested
  time (a longer block is never shortened), every \<open>acquire_permit\<close> before that time is
  denied as blocked, changes nothing and names the end of the block; a new block takes the
  tokens away and earns none while it lasts; and the audit log gains one record, with the
  actor, exactly when the block was extended.
\<close>

theorem block_denies_until:
  assumes "limiter_inv s" and "block_origin a n x until ac re rq c now s = Inr (b', s')" and "bind_timestamptz n until = Inr u'"
  shows "\<exists>e. b_blocked_until b' = Some e \<and> u' \<le> e \<and> get_bucket x s' = Some b'
    \<and> (\<forall>i w ls job c2 now2 t2. 1 \<le> ls \<and> resolve_now c2 now2 = Inr t2 \<and> t2 < e \<longrightarrow>
         (\<exists>d. acquire_permit i x w ls job c2 now2 s' = Inr (d, s') \<and> \<not> pd_granted d
            \<and> pd_reason d = Some DenyBlocked \<and> pd_retry_after d = Some e))
    \<and> (if map_option b_blocked_until (get_bucket x s) = Some (Some e) then s' = s
       else refilled_tokens b' e = 0
         \<and> (\<exists>r. audit_logs s' = audit_logs s @ [r] \<and> a_actor r = ac \<and> a_action r = ''origin.block''))"
proof -
  have deny: "\<exists>d. acquire_permit i x w ls job c2 now2 s' = Inr (d, s') \<and> \<not> pd_granted d
            \<and> pd_reason d = Some DenyBlocked \<and> pd_retry_after d = Some e"
    if "get_bucket x s' = Some b'" "b_blocked_until b' = Some e" "1 \<le> ls"
      "resolve_now c2 now2 = Inr t2" "t2 < e" for i w ls job c2 now2 t2 e
    using that by (simp add: acquire_permit_def)
  show ?thesis
    using assms(2)
  proof (cases rule: block_cases)
    case (longer b cur t)
    have x: "b_origin b' = x" using longer(5) get_bucketD [OF longer(2)] by simp
    have get: "get_bucket x s' = Some b'"
      using longer(2,6) x get_put_bucket [of b' s b x] by auto
    have until: "b_blocked_until b' = Some t" "t = u'" using longer(3,5) assms(3) by simp_all
    have "0 < b_capacity_tokens b"
      using limiter_invD(2) [OF assms(1)] get_bucketD [OF longer(2)] by (auto simp: origin_bucket_checks_def)
    then have tok: "refilled_tokens b' t = 0"
      using longer(5) by (simp add: refilled_tokens_def min_def)
    have "\<exists>r. audit_logs s' = audit_logs s @ [r] \<and> a_actor r = ac \<and> a_action r = ''origin.block''"
      using longer(6) by auto
    moreover have "b_blocked_until b \<noteq> Some t" using longer(4) by auto
    ultimately show ?thesis using deny [OF get until(1)] get until tok longer(2) by auto
  next
    case (kept b cur t)
    then show ?thesis using assms(3) deny by auto
  qed
qed

theorem block_denies_until_witness:
  "\<exists>b' s'. block_origin 1 (\<lambda>_. Inl DataError) ''o'' (Aware 900 0) (ulit ''ops'') (ulit ''429'') None 0 (utc 5)
       demo_origin = Inr (b', s')
     \<and> (\<exists>d. acquire_permit 1 ''o'' ''w1'' 30 None 0 (utc 100) s' = Inr (d, s') \<and> \<not> pd_granted d)"
proof -
  let ?run = "block_origin 1 (\<lambda>_. Inl DataError) ''o'' (Aware 900 0) (ulit ''ops'') (ulit ''429'') None 0 (utc 5)
       demo_origin"
  have "map_sum id (\<lambda>(b, s'). b_blocked_until b) ?run = Inr (Some 900)" by code_simp
  then obtain b' s' where run: "?run = Inr (b', s')" and "b_blocked_until b' = Some 900"
    by (cases ?run) auto
  then have "\<forall>i w ls job c2 now2 t2. 1 \<le> ls \<and> resolve_now c2 now2 = Inr t2 \<and> t2 < 900 \<longrightarrow>
      (\<exists>d. acquire_permit i ''o'' w ls job c2 now2 s' = Inr (d, s') \<and> \<not> pd_granted d
        \<and> pd_reason d = Some DenyBlocked \<and> pd_retry_after d = Some 900)"
    using block_denies_until [OF demo_origin_inv run, of 900] by (auto simp: bind_timestamptz_def)
  from this [rule_format, of 30 0 "utc 100" 100 1 "''w1''" None] show ?thesis using run by auto
qed

end
