(* ===== verification/Crawl_Runs.thy ===== *)
theory Crawl_Runs
  imports Audit_Log
begin

text \<open>
  \<open>repositories/crawl_runs.py\<close>: starting and finishing a crawl run. The partial unique
  index on \<open>(source_id) WHERE status = 'running' AND kind = 'full'\<close> is the conflict target
  of the INSERT, so a second full run of a source is a \<open>ConflictError\<close>.
\<close>

section \<open>Operations\<close>

definition CRAWL_RUN_KINDS :: "string \<Rightarrow> run_kind option" where
  "CRAWL_RUN_KINDS k =
     (if k = ''full'' then Some Full else if k = ''incremental'' then Some Incremental
      else if k = ''replay'' then Some Replay else if k = ''backfill'' then Some Backfill else None)"

definition FINISHED_RUN_STATUSES :: "string \<Rightarrow> run_status option" where
  "FINISHED_RUN_STATUSES st =
     (if st = ''succeeded'' then Some RunSucceeded else if st = ''failed'' then Some RunFailed
      else if st = ''cancelled'' then Some RunCancelled else None)"

definition running_full :: "crawl_run \<Rightarrow> bool" where
  "running_full r \<longleftrightarrow> r_status r = Running \<and> r_kind r = Full"

definition start_run ::
  "uuid \<Rightarrow> uuid \<Rightarrow> string \<Rightarrow> string \<Rightarrow> uuid option \<Rightarrow> ts \<Rightarrow> datetime option \<Rightarrow> db
   \<Rightarrow> (crawl_run \<times> db) res" where
  "start_run new_id source_id kind started_by policy_version_id utcnow now s =
     (case CRAWL_RUN_KINDS kind of
        None \<Rightarrow> Inl ValueError
      | Some k \<Rightarrow> bind_res (resolve_now utcnow now) (\<lambda>current.
          let row = \<lparr>r_id = new_id, r_source_id = source_id, r_policy_version_id = policy_version_id,
                     r_kind = k, r_status = Running, r_started_by = started_by,
                     r_started_at = current, r_finished_at = None, r_error_code = None,
                     r_created_at = current, r_updated_at = current\<rparr>
          in if running_full row
                \<and> (\<exists>r\<in>set (crawl_runs s). running_full r \<and> r_source_id r = source_id)
             then Inl ConflictError
             else if (\<exists>r\<in>set (crawl_runs s). r_id r = new_id) then Inl IntegrityError
             else Inr (row, s\<lparr>crawl_runs := crawl_runs s @ [row]\<rparr>)))"

definition get_run :: "uuid \<Rightarrow> db \<Rightarrow> crawl_run option" where
  "get_run i s = find (\<lambda>r. r_id r = i) (crawl_runs s)"

definition run_finished :: "run_status \<Rightarrow> string option \<Rightarrow> ts \<Rightarrow> crawl_run \<Rightarrow> crawl_run" where
  "run_finished st error_code current r =
     r\<lparr>r_status := st, r_error_code := error_code, r_finished_at := Some current,
       r_updated_at := current\<rparr>"

definition finish_run ::
  "uuid \<Rightarrow> string \<Rightarrow> string option \<Rightarrow> ts \<Rightarrow> datetime option \<Rightarrow> db \<Rightarrow> (crawl_run \<times> db) res" where
  "finish_run i st error_code utcnow now s =
     (case FINISHED_RUN_STATUSES st of
        None \<Rightarrow> Inl ValueError
      | Some st' \<Rightarrow>
          (case get_run i s of
             None \<Rightarrow> Inl NotFoundError
           | Some r \<Rightarrow>
               if r_status r \<noteq> Running then Inl InvalidTransitionError
               else bind_res (resolve_now utcnow now) (\<lambda>current.
                 Inr (run_finished st' error_code current r,
                      s\<lparr>crawl_runs := upd_where (\<lambda>x. r_id x = i)
                          (run_finished st' error_code current) (crawl_runs s)\<rparr>))))"

section \<open>Invariant\<close>

datatype run_op =
    RStart uuid uuid string string "uuid option" ts "datetime option"
  | RFinish uuid string "string option" ts "datetime option"

fun run_step :: "run_op \<Rightarrow> db \<Rightarrow> db res" where
  "run_step (RStart i src k by' p c now) s = drop_ret (start_run i src k by' p c now s)"
| "run_step (RFinish i st ec c now) s = drop_ret (finish_run i st ec c now s)"

text \<open>Primary key, the partial unique index, and a finish time exactly on finished runs.\<close>

definition runs_inv :: "db \<Rightarrow> bool" where
  "runs_inv s \<longleftrightarrow>
     distinct (map r_id (crawl_runs s))
     \<and> distinct (map r_source_id (filter running_full (crawl_runs s)))
     \<and> (\<forall>r\<in>set (crawl_runs s). (r_status r = Running) = (r_finished_at r = None))"

lemma get_runD: "get_run i s = Some r \<Longrightarrow> r \<in> set (crawl_runs s) \<and> r_id r = i"
  unfolding get_run_def by (drule find_SomeD) simp

lemma FINISHED_not_Running: "FINISHED_RUN_STATUSES st = Some st' \<Longrightarrow> st' \<noteq> Running"
  by (auto simp: FINISHED_RUN_STATUSES_def split: if_splits)

lemma start_run_inv:
  assumes "runs_inv s" and "start_run i src k by' p c now s = Inr (r, s')"
  shows "runs_inv s'"
  using assms
  by (auto simp: runs_inv_def start_run_def Let_def split: option.splits if_splits)

lemma distinct_filter_upd:
  assumes "distinct (map key (filter P rows))" and "\<And>r. q r \<Longrightarrow> \<not> P (f r)"
  shows "distinct (map key (filter P (upd_where q f rows)))"
proof -
  have "filter P (upd_where q f rows) = filter (\<lambda>r. \<not> q r) (filter P rows)"
    using assms(2) by (induction rows) auto
  then show ?thesis using distinct_map_filter [OF assms(1)] by simp
qed

lemma finish_run_inv:
  assumes inv: "runs_inv s" and run: "finish_run i st ec c now s = Inr (r, s')"
  shows "runs_inv s'"
proof -
  obtain st' cur where st: "FINISHED_RUN_STATUSES st = Some st'"
    and s': "s' = s\<lparr>crawl_runs := upd_where (\<lambda>x. r_id x = i) (run_finished st' ec cur) (crawl_runs s)\<rparr>"
    using run by (auto simp: finish_run_def split: option.splits if_splits)
  have "map r_id (crawl_runs s') = map r_id (crawl_runs s)"
    unfolding s' by (simp add: map_upd_where run_finished_def)
  moreover have "distinct (map r_source_id (filter running_full (crawl_runs s')))"
    unfolding s' using inv FINISHED_not_Running [OF st]
    by (simp add: runs_inv_def distinct_filter_upd running_full_def run_finished_def)
  ultimately show ?thesis
    using inv FINISHED_not_Running [OF st]
    by (auto simp: runs_inv_def s' set_upd_where run_finished_def)
qed

interpretation runs: invariant_system run_step runs_inv
proof unfold_locales
  fix s p s' assume "runs_inv s" and "run_step p s = Inr s'"
  then show "runs_inv s'" by (cases p) (auto dest: start_run_inv finish_run_inv)
qed

section \<open>Properties\<close>

text \<open>
  Whatever runs are started and finished, in any order, no source ever has two running
  full crawl runs: two rows that are running full runs of the same source are the same row.
\<close>

theorem one_running_full_run_per_source:
  assumes "runs_inv s" and "a \<in> set (crawl_runs (run_ops run_step ops s))"
    and "b \<in> set (crawl_runs (run_ops run_step ops s))"
    and "running_full a" and "running_full b" and "r_source_id a = r_source_id b"
  shows "a = b"
proof -
  have "distinct (map r_source_id (filter running_full (crawl_runs (run_ops run_step ops s))))"
    using runs.run_inv [OF assms(1)] by (simp add: runs_inv_def)
  from distinct_key_inj [OF this, of a b] show ?thesis using assms(2-6) by simp
qed

lemma runs_inv_empty [simp]: "runs_inv empty_db"
  by (simp add: runs_inv_def)

definition demo_run :: crawl_run where
  "demo_run = \<lparr>r_id = 1, r_source_id = 7, r_policy_version_id = None, r_kind = Full,
     r_status = Running, r_started_by = ''cli'', r_started_at = 0, r_finished_at = None,
     r_error_code = None, r_created_at = 0, r_updated_at = 0\<rparr>"

theorem one_running_full_run_per_source_witness:
  "demo_run \<in> set (crawl_runs (run_ops run_step
      [RStart 1 7 ''full'' ''cli'' None 0 None, RStart 2 7 ''full'' ''cli'' None 0 None] empty_db))
   \<and> last (filter running_full (crawl_runs (run_ops run_step
      [RStart 1 7 ''full'' ''cli'' None 0 None, RStart 2 7 ''full'' ''cli'' None 0 None] empty_db)))
     = demo_run"
proof -
  let ?s = "run_ops run_step
      [RStart 1 7 ''full'' ''cli'' None 0 None, RStart 2 7 ''full'' ''cli'' None 0 None] empty_db"
  let ?b = "last (filter running_full (crawl_runs ?s))"
  have e: "list_all2 (\<lambda>a b. a = b) (crawl_runs ?s) [demo_run]" by code_simp
  have "crawl_runs ?s = [demo_run]" using e by (simp only: list.rel_eq)
  then have a: "demo_run \<in> set (crawl_runs ?s)" and b: "?b \<in> set (crawl_runs ?s)"
    and c: "running_full ?b" "running_full demo_run" "r_source_id ?b = r_source_id demo_run"
    by (simp_all add: running_full_def demo_run_def)
  have "?b = demo_run"
    by (rule one_running_full_run_per_source [OF runs_inv_empty b a c])
  then show ?thesis using a by blast
qed

end
