(* ===== verification/Contracts.thy ===== *)
theory Contracts
  imports Schema
begin

text \<open>
  The contract models of \<open>contracts/\<close> that the projection pipeline exchanges: artifact
  references, upload claims, \<open>ProjectionCommand\<close>, \<open>AppliedProjectionReceipt\<close> and
  the rule for \<open>domain.changed\<close>. A contract object is a record; its validators are Boolean
  functions that hold exactly when the constructor does not raise.

  A \<open>string\<close> of this theory stands for the UTF-8 octets of the Python string. SHA-256 is an
  argument \<open>sha\<close> of the definitions that use it.
\<close>

section \<open>Identifiers and field patterns\<close>

text \<open>\<open>str(uuid)\<close>: 32 lowercase hex digits in groups of 8-4-4-4-12.\<close>

definition HEX :: string where
  "HEX = ''0123456789abcdef''"

definition hex_digit :: "nat \<Rightarrow> char" where
  "hex_digit n = HEX ! (n mod 16)"

fun hex_digits :: "nat \<Rightarrow> nat \<Rightarrow> string" where
  "hex_digits 0 n = []"
| "hex_digits (Suc k) n = hex_digits k (n div 16) @ [hex_digit n]"

definition uuid_str :: "uuid \<Rightarrow> string" where
  "uuid_str i = hex_digits 8 (i div 16 ^ 24) @ ''-'' @ hex_digits 4 (i div 16 ^ 20) @ ''-''
     @ hex_digits 4 (i div 16 ^ 16) @ ''-'' @ hex_digits 4 (i div 16 ^ 12) @ ''-'' @ hex_digits 12 i"

definition is_digit :: "char \<Rightarrow> bool" where
  "is_digit c \<longleftrightarrow> c \<in> set ''0123456789''"

definition is_lower :: "char \<Rightarrow> bool" where
  "is_lower c \<longleftrightarrow> c \<in> set ''abcdefghijklmnopqrstuvwxyz''"

text \<open>\<open>^[a-z][a-z0-9_]*$\<close> with at most 120 characters.\<close>

definition is_collection_name :: "string \<Rightarrow> bool" where
  "is_collection_name s \<longleftrightarrow> length s \<le> 120
     \<and> (case s of [] \<Rightarrow> False
        | c # cs \<Rightarrow> is_lower c \<and> list_all (\<lambda>x. is_lower x \<or> is_digit x \<or> x = CHR ''_'') cs)"

text \<open>\<open>0|[1-9][0-9]*\<close> and \<open>[1-9][0-9]*\<close>.\<close>

definition is_number :: "string \<Rightarrow> bool" where
  "is_number s \<longleftrightarrow> s = ''0'' \<or> (s \<noteq> [] \<and> hd s \<noteq> CHR ''0'' \<and> list_all is_digit s)"

definition is_schema_version :: "string \<Rightarrow> bool" where
  "is_schema_version s \<longleftrightarrow>
     (let major = takeWhile (\<lambda>c. c \<noteq> CHR ''.'') s; rest = dropWhile (\<lambda>c. c \<noteq> CHR ''.'') s
      in is_number major \<and> rest \<noteq> [] \<and> is_number (tl rest))"

text \<open>\<open>^v[1-9][0-9]*:[0-9a-f]{64}$\<close>.\<close>

definition is_state_hash :: "string \<Rightarrow> bool" where
  "is_state_hash s \<longleftrightarrow>
     (case s of [] \<Rightarrow> False
      | c # cs \<Rightarrow>
          let n = takeWhile is_digit cs; rest = dropWhile is_digit cs
          in c = CHR ''v'' \<and> is_number n \<and> n \<noteq> ''0'' \<and> rest \<noteq> [] \<and> hd rest = CHR '':''
             \<and> is_hex64 (tl rest))"

definition require_utc :: "datetime \<Rightarrow> ts res" where
  "require_utc d = (case d of Naive _ \<Rightarrow> Inl ValueError
     | Aware w off \<Rightarrow> if off \<noteq> 0 then Inl ValueError else Inr w)"

section \<open>Enumerations\<close>

definition domain_value :: "data_domain \<Rightarrow> string" where
  "domain_value d = (case d of News \<Rightarrow> ''news'' | Vehicle \<Rightarrow> ''vehicle'' | Catalog \<Rightarrow> ''catalog'')"

definition domain_of :: "string \<Rightarrow> data_domain option" where
  "domain_of s = find (\<lambda>d. domain_value d = s) [News, Vehicle, Catalog]"

definition PARSE_OUTCOMES :: "string \<Rightarrow> parse_outcome option" where
  "PARSE_OUTCOMES s =
     (if s = ''succeeded'' then Some ParseSucceeded else if s = ''partial'' then Some ParsePartial
      else if s = ''failed'' then Some ParseFailed else if s = ''skipped'' then Some ParseSkipped
      else None)"

lemma domain_of_value [simp]: "domain_of (domain_value d) = Some d"
  by (cases d) (simp_all add: domain_of_def domain_value_def)

section \<open>Artifacts\<close>

record artifact_ref =
  av_uri :: string
  av_sha256 :: string
  av_size_bytes :: int
  av_media_type :: string
  av_schema_version :: "string option"

record normalized_artifact_ref =
  ar_uri :: string
  ar_sha256 :: string
  ar_size_bytes :: int
  ar_media_type :: string
  ar_schema_version :: string
  ar_entity_uuid :: uuid
  ar_domain :: data_domain
  ar_parser_version :: string
  ar_fetch_id :: uuid
  ar_raw_sha256 :: string
  ar_raw_uri :: string
  ar_produced_at :: ts

record upload_claim =
  uc_object_key :: string
  uc_owner :: string
  uc_status :: upload_claim_status
  uc_lease_expires_at :: ts
  uc_claim_generation :: int

definition can_commit :: "upload_claim \<Rightarrow> datetime \<Rightarrow> int \<Rightarrow> bool res" where
  "can_commit claim now generation =
     bind_res (require_utc now) (\<lambda>t.
       Inr (uc_status claim = ClaimLeased \<and> uc_claim_generation claim = generation
            \<and> t < uc_lease_expires_at claim))"

section \<open>Command, receipt, event\<close>

record projection_command =
  pc_task_id :: uuid
  pc_entity_uuid :: uuid
  pc_projection_version :: int
  pc_target_collection :: string
  pc_target_schema_version :: string
  pc_artifact :: normalized_artifact_ref
  pc_priority :: int
  pc_not_before :: "datetime option"
  pc_issued_at :: ts

definition command_valid :: "projection_command \<Rightarrow> bool" where
  "command_valid c \<longleftrightarrow>
     1 \<le> pc_projection_version c \<and> is_collection_name (pc_target_collection c)
     \<and> is_schema_version (pc_target_schema_version c)
     \<and> 0 \<le> pc_priority c \<and> pc_priority c \<le> 100
     \<and> (case pc_not_before c of None \<Rightarrow> True | Some d \<Rightarrow> (case require_utc d of Inl _ \<Rightarrow> False | Inr _ \<Rightarrow> True))
     \<and> ar_entity_uuid (pc_artifact c) = pc_entity_uuid c"

record receipt =
  rc_projection_task_id :: uuid
  rc_entity_uuid :: uuid
  rc_projection_version :: int
  rc_target_collection :: string
  rc_document_id :: uuid
  rc_applied_to_current :: bool
  rc_state_changed :: bool
  rc_previous_version :: "int option"
  rc_previous_hash :: "string option"
  rc_result_version :: int
  rc_result_hash :: string
  rc_event_id :: "uuid option"
  rc_event_bytes :: "string option"
  rc_event_media_type :: "string option"
  rc_event_sha256 :: "string option"
  rc_event_artifact :: "artifact_ref option"
  rc_committed_at :: ts
  rc_cluster_time :: string

definition should_emit_domain_changed :: "receipt \<Rightarrow> bool" where
  "should_emit_domain_changed r \<longleftrightarrow> rc_applied_to_current r \<and> rc_state_changed r"

definition receipt_consistent :: "(string \<Rightarrow> string) \<Rightarrow> receipt \<Rightarrow> bool" where
  "receipt_consistent sha r \<longleftrightarrow>
     (let emit = should_emit_domain_changed r;
          has_inline = rc_event_bytes r \<noteq> None; has_artifact = rc_event_artifact r \<noteq> None
      in (if emit then has_inline \<noteq> has_artifact \<and> rc_event_id r \<noteq> None
          else \<not> (has_inline \<or> has_artifact \<or> rc_event_id r \<noteq> None))
       \<and> (case rc_event_bytes r of None \<Rightarrow> True
          | Some b \<Rightarrow> int (length b) \<le> INLINE_EVENT_LIMIT_BYTES \<and> rc_event_media_type r \<noteq> None
              \<and> rc_event_sha256 r = Some (sha b))
       \<and> (rc_applied_to_current r \<longrightarrow> rc_result_version r = rc_projection_version r)
       \<and> (\<not> rc_applied_to_current r \<longrightarrow> rc_projection_version r \<le> rc_result_version r)
       \<and> \<not> (rc_state_changed r \<and> rc_previous_hash r = Some (rc_result_hash r)))"

text \<open>The fields of \<open>DomainChangedEvent\<close> that the acknowledgement reads.\<close>

record domain_changed_event =
  dc_event_id :: uuid
  dc_event_type :: string
  dc_payload_schema_version :: string

section \<open>Lemmas\<close>

lemma length_hex_digits [simp]: "length (hex_digits k n) = k"
  by (induction k n rule: hex_digits.induct) auto

lemma HEX_facts: "length HEX = 16" "distinct HEX"
  by (simp_all add: HEX_def)

lemma hex_digit_cases: "hex_digit n \<in> set HEX"
  unfolding hex_digit_def by (rule nth_mem) (simp add: HEX_facts)

lemma hex_digit_inj:
  assumes "hex_digit m = hex_digit n" shows "m mod 16 = n mod 16"
  using nth_eq_iff_index_eq [OF HEX_facts(2), of "m mod 16" "n mod 16"] assms
  by (simp add: hex_digit_def HEX_facts)

lemma hex_digits_inj: "hex_digits k m = hex_digits k n \<Longrightarrow> m mod 16 ^ k = n mod 16 ^ k"
proof (induction k arbitrary: m n)
  case 0
  then show ?case by simp
next
  case (Suc k)
  have "m div 16 mod 16 ^ k = n div 16 mod 16 ^ k"
    using Suc.prems by (intro Suc.IH) simp
  moreover have "m mod 16 = n mod 16"
    using Suc.prems by (intro hex_digit_inj) simp
  ultimately show ?case by (simp add: mod_mult2_eq)
qed

lemma set_hex_digits: "set (hex_digits k n) \<subseteq> set HEX"
  using hex_digit_cases by (induction k n rule: hex_digits.induct) auto

end
