(* ===== verification/Entities.thy ===== *)
theory Entities
  imports Contracts
begin

text \<open>
  \<open>repositories/entities.py\<close>: the global entity index, its upsert by source identity, the
  binding to the Mongo document, and keyset pagination. The version counters are not written
  here. \<open>vis\<close> are the rows the statement's snapshot sees (all of them under READ COMMITTED).
\<close>

section \<open>Operations\<close>

record entity_identity =
  ei_source_id :: string
  ei_source_item_id :: string
  ei_domain :: data_domain
  ei_entity_kind :: entity_kind
  ei_identity_hash :: "string option"
  ei_canonical_url :: "string option"

definition has_identity :: "string \<Rightarrow> string \<Rightarrow> entity_index \<Rightarrow> bool" where
  "has_identity src item e \<longleftrightarrow> e_source_id e = src \<and> e_source_item_id e = item"

definition upsert_entity ::
  "uuid \<Rightarrow> (uuid \<Rightarrow> bool) \<Rightarrow> entity_identity \<Rightarrow> ts \<Rightarrow> datetime option \<Rightarrow> db \<Rightarrow> (entity_index \<times> db) res" where
  "upsert_entity new_id vis ident utcnow now s =
     bind_res (resolve_now utcnow now) (\<lambda>current.
       let row = \<lparr>e_entity_uuid = new_id, e_domain = ei_domain ident,
                  e_entity_kind = ei_entity_kind ident, e_source_id = ei_source_id ident,
                  e_source_item_id = ei_source_item_id ident,
                  e_identity_hash = ei_identity_hash ident,
                  e_canonical_url = ei_canonical_url ident, e_mongo_collection = None,
                  e_mongo_document_id = None, e_projection_version = 0,
                  e_confirmed_projection_version = 0, e_confirmed_at = None,
                  e_created_at = current, e_updated_at = current\<rparr>;
           same = has_identity (ei_source_id ident) (ei_source_item_id ident)
       in if \<exists>e\<in>set (entities s). same e
          then (case find (\<lambda>e. same e \<and> vis (e_entity_uuid e)) (entities s) of
                  None \<Rightarrow> Inl NotFoundError | Some existing \<Rightarrow> Inr (existing, s))
          else if (\<exists>e\<in>set (entities s). e_entity_uuid e = new_id) then Inl IntegrityError
          else Inr (row, s\<lparr>entities := entities s @ [row]\<rparr>))"

definition get_entity :: "uuid \<Rightarrow> db \<Rightarrow> entity_index option" where
  "get_entity i s = find (\<lambda>e. e_entity_uuid e = i) (entities s)"

definition find_entity :: "string \<Rightarrow> string \<Rightarrow> db \<Rightarrow> entity_index option" where
  "find_entity src item s = find (has_identity src item) (entities s)"

definition get_confirmed_version :: "uuid \<Rightarrow> db \<Rightarrow> int res" where
  "get_confirmed_version i s =
     (case get_entity i s of None \<Rightarrow> Inl NotFoundError
      | Some e \<Rightarrow> Inr (e_confirmed_projection_version e))"

definition mongo_bound :: "string \<Rightarrow> uuid \<Rightarrow> ts \<Rightarrow> entity_index \<Rightarrow> entity_index" where
  "mongo_bound collection document_id current e =
     e\<lparr>e_mongo_collection := Some collection, e_mongo_document_id := Some document_id,
       e_updated_at := current\<rparr>"

definition set_mongo_document ::
  "uuid \<Rightarrow> string \<Rightarrow> uuid \<Rightarrow> ts \<Rightarrow> datetime option \<Rightarrow> db \<Rightarrow> (entity_index \<times> db) res" where
  "set_mongo_document i collection document_id utcnow now s =
     bind_res (resolve_now utcnow now) (\<lambda>current.
       case get_entity i s of
         None \<Rightarrow> Inl NotFoundError
       | Some e \<Rightarrow> Inr (mongo_bound collection document_id current e,
           s\<lparr>entities := upd_where (\<lambda>x. e_entity_uuid x = i) (mongo_bound collection document_id current)
               (entities s)\<rparr>))"

definition page_key :: "entity_index \<Rightarrow> int \<times> uuid" where
  "page_key e = (e_confirmed_projection_version e, e_entity_uuid e)"

definition list_entities ::
  "data_domain \<Rightarrow> (int \<times> uuid) option \<Rightarrow> int \<Rightarrow> db \<Rightarrow> entity_index list res" where
  "list_entities domain after limit s =
     (if limit < 1 then Inl ValueError
      else Inr (order_limit page_key (nat limit)
        (filter (\<lambda>e. e_domain e = domain
           \<and> (case after of None \<Rightarrow> True | Some k \<Rightarrow> k < page_key e)) (entities s))))"

section \<open>Lemmas\<close>

lemma get_entityD: "get_entity i s = Some e \<Longrightarrow> e \<in> set (entities s) \<and> e_entity_uuid e = i"
  unfolding get_entity_def by (drule find_SomeD) simp

definition entities_inv :: "db \<Rightarrow> bool" where
  "entities_inv s \<longleftrightarrow> distinct (map e_entity_uuid (entities s))
     \<and> distinct (map (\<lambda>e. (e_source_id e, e_source_item_id e)) (entities s))
     \<and> list_all entity_index_checks (entities s)"

lemma upsert_cases:
  assumes "upsert_entity i vis ident c now s = Inr (e, s')"
  obtains (existing) "s' = s" "e \<in> set (entities s)"
      "has_identity (ei_source_id ident) (ei_source_item_id ident) e"
  | (created) cur where "resolve_now c now = Inr cur" "s' = s\<lparr>entities := entities s @ [e]\<rparr>"
      "\<forall>x\<in>set (entities s). \<not> has_identity (ei_source_id ident) (ei_source_item_id ident) x"
      "i \<notin> e_entity_uuid ` set (entities s)" "e_entity_uuid e = i"
      "e_projection_version e = 0" "e_confirmed_projection_version e = 0"
      "has_identity (ei_source_id ident) (ei_source_item_id ident) e" "e_domain e = ei_domain ident"
proof (cases "\<exists>x\<in>set (entities s). has_identity (ei_source_id ident) (ei_source_item_id ident) x")
  case True
  then have "s' = s \<and> find (\<lambda>e. has_identity (ei_source_id ident) (ei_source_item_id ident) e
      \<and> vis (e_entity_uuid e)) (entities s) = Some e"
    using assms by (auto simp: upsert_entity_def Let_def split: option.splits)
  then show thesis using existing by (auto dest: find_SomeD)
next
  case False
  obtain cur where cur: "resolve_now c now = Inr cur" using assms by (auto simp: upsert_entity_def)
  show thesis
    using assms False by (intro created [OF cur])
      (auto simp: cur upsert_entity_def Let_def has_identity_def image_iff split: if_splits)
qed

lemma upsert_inv:
  assumes "entities_inv s" and "upsert_entity i vis ident c now s = Inr (e, s')"
  shows "entities_inv s'"
  using assms(2)
proof (cases rule: upsert_cases)
  case existing
  then show ?thesis using assms(1) by simp
next
  case (created cur)
  then show ?thesis
    using assms(1) by (auto simp: entities_inv_def has_identity_def entity_index_checks_def)
qed

lemma entities_inv_upd:
  assumes "entities_inv s" and "\<And>e. e_entity_uuid (f e) = e_entity_uuid e"
    and "\<And>e. e_source_id (f e) = e_source_id e" and "\<And>e. e_source_item_id (f e) = e_source_item_id e"
    and "\<And>e. e \<in> set (entities s) \<Longrightarrow> q e \<Longrightarrow> entity_index_checks e \<Longrightarrow> entity_index_checks (f e)"
  shows "entities_inv (s\<lparr>entities := upd_where q f (entities s)\<rparr>)"
  using assms(1) list_all_upd_where [of entity_index_checks "entities s" q f] assms(2-5)
  by (simp add: entities_inv_def map_upd_where)

lemma get_entity_upd:
  assumes "\<And>e. e_entity_uuid (f e) = e_entity_uuid e"
  shows "get_entity i (s\<lparr>entities := upd_where q f (entities s)\<rparr>)
    = map_option (\<lambda>e. if q e then f e else e) (get_entity i s)"
  unfolding get_entity_def using assms by (simp add: find_upd_where)

end
