(* ===== verification/Projection.thy ===== *)
theory Projection
  imports Entities Job_Queue
begin

text \<open>
  \<open>repositories/projection.py\<close>: issuing projection versions (\<open>record_parse_result\<close>),
  the queue of projection tasks, and the acknowledgement of Mongo receipts
  (\<open>acknowledge_projection\<close>).

  Arguments of the definitions for what the code takes from elsewhere: \<open>sha\<close> is SHA-256 in
  hex, \<open>enc\<close> the canonical JSON bytes of a command, \<open>dec\<close> the JSON decoder of a
  \<open>domain.changed\<close> event, the fresh ids are those of \<open>new_entity_id()\<close> in the order of
  the calls, \<open>naive\<close> is what the driver makes of a naive datetime. A raised error rolls the
  transaction back.
\<close>

section \<open>Parse results\<close>

record parse_attempt_record =
  ap_raw_sha256 :: string
  ap_parser_version :: string
  ap_outcome :: string
  ap_domain :: string
  ap_fetch_id :: "uuid option"
  ap_job_id :: "uuid option"
  ap_source_id :: "uuid option"
  ap_records_count :: int
  ap_validation_errors_count :: int
  ap_error_code :: "string option"
  ap_error_message :: "ustr option"
  ap_started_at :: "ts option"
  ap_finished_at :: "ts option"

record parse_result =
  pr_parse_attempt :: parse_attempt
  pr_artifact :: normalized_artifact
  pr_task :: projection_task
  pr_command :: projection_command
  pr_outbox_event :: "outbox_event option"
  pr_created :: bool

definition SUCCESS_PARSE_OUTCOMES :: "string set" where
  "SUCCESS_PARSE_OUTCOMES = {''succeeded'', ''partial''}"

definition FAILED_PARSE_OUTCOMES :: "string set" where
  "FAILED_PARSE_OUTCOMES = {''failed'', ''skipped''}"

text \<open>The text that \<open>parse_key\<close> hashes: five fields joined by the separator U+001F.\<close>

definition parse_key_text :: "uuid \<Rightarrow> string \<Rightarrow> string \<Rightarrow> uuid \<Rightarrow> string \<Rightarrow> string" where
  "parse_key_text fetch_id raw_sha256 parser_version entity_uuid target_collection =
     uuid_str fetch_id @ [CHR 0x1F] @ raw_sha256 @ [CHR 0x1F] @ parser_version @ [CHR 0x1F]
     @ uuid_str entity_uuid @ [CHR 0x1F] @ target_collection"

definition parse_key ::
  "(string \<Rightarrow> string) \<Rightarrow> uuid \<Rightarrow> string \<Rightarrow> string \<Rightarrow> uuid \<Rightarrow> string \<Rightarrow> string" where
  "parse_key sha fetch_id raw_sha256 parser_version entity_uuid target_collection =
     sha (parse_key_text fetch_id raw_sha256 parser_version entity_uuid target_collection)"

definition require_consistent_lineage ::
  "parse_attempt_record \<Rightarrow> normalized_artifact_ref \<Rightarrow> unit res" where
  "require_consistent_lineage a ref =
     (if ap_fetch_id a = None then Inl InvalidValueError
      else if ap_fetch_id a \<noteq> Some (ar_fetch_id ref) \<or> ap_raw_sha256 a \<noteq> ar_raw_sha256 ref
        \<or> ap_parser_version a \<noteq> ar_parser_version ref \<or> ap_domain a \<noteq> domain_value (ar_domain ref)
      then Inl InvalidValueError else Inr ())"

text \<open>INSERT into \<open>parse_attempts\<close>: the enum and count CHECKs, and the primary key.\<close>

definition insert_parse_attempt ::
  "uuid \<Rightarrow> parse_attempt_record \<Rightarrow> ustr option \<Rightarrow> ts \<Rightarrow> db \<Rightarrow> (parse_attempt \<times> db) res" where
  "insert_parse_attempt new_id a message current s =
     (case (PARSE_OUTCOMES (ap_outcome a), domain_of (ap_domain a)) of
        (Some outcome, Some domain) \<Rightarrow>
          let row = \<lparr>pa_parse_attempt_id = new_id, pa_fetch_id = ap_fetch_id a, pa_job_id = ap_job_id a,
                     pa_source_id = ap_source_id a, pa_raw_sha256 = ap_raw_sha256 a,
                     pa_domain = domain, pa_parser_version = ap_parser_version a,
                     pa_outcome = outcome, pa_records_count = ap_records_count a,
                     pa_validation_errors_count = ap_validation_errors_count a,
                     pa_error_code = ap_error_code a, pa_error_message = message,
                     pa_started_at = ap_started_at a,
                     pa_finished_at = Some (case ap_finished_at a of None \<Rightarrow> current | Some t \<Rightarrow> t),
                     pa_created_at = current\<rparr>
          in if \<not> parse_attempt_checks row
                \<or> (\<exists>x\<in>set (parse_attempts s). pa_parse_attempt_id x = new_id)
             then Inl IntegrityError
             else Inr (row, s\<lparr>parse_attempts := parse_attempts s @ [row]\<rparr>)
      | _ \<Rightarrow> Inl IntegrityError)"

definition record_parse_failure ::
  "uuid \<Rightarrow> parse_attempt_record \<Rightarrow> ts \<Rightarrow> datetime option \<Rightarrow> db \<Rightarrow> (parse_attempt \<times> db) res" where
  "record_parse_failure new_id a utcnow now s =
     (if ap_outcome a \<notin> FAILED_PARSE_OUTCOMES then Inl InvalidValueError
      else bind_res (resolve_now utcnow now) (\<lambda>current.
        insert_parse_attempt new_id a (truncate_message (ap_error_message a)) current s))"

definition normalized_artifact_values ::
  "uuid \<Rightarrow> normalized_artifact_ref \<Rightarrow> string \<Rightarrow> ts \<Rightarrow> normalized_artifact" where
  "normalized_artifact_values new_id ref object_key now =
     \<lparr>n_artifact_id = new_id, n_object_key = object_key, n_entity_uuid = ar_entity_uuid ref,
      n_domain = ar_domain ref, n_uri = ar_uri ref, n_sha256 = ar_sha256 ref,
      n_size_bytes = ar_size_bytes ref, n_media_type = ar_media_type ref,
      n_schema_version = ar_schema_version ref, n_parser_version = ar_parser_version ref,
      n_parse_attempt_id = None, n_fetch_id = Some (ar_fetch_id ref),
      n_raw_sha256 = ar_raw_sha256 ref, n_raw_uri = ar_raw_uri ref, n_is_metadata_only = False,
      n_produced_at = ar_produced_at ref, n_created_at = now\<rparr>"

definition same_bytes :: "normalized_artifact_ref \<Rightarrow> normalized_artifact \<Rightarrow> bool" where
  "same_bytes ref a \<longleftrightarrow> n_sha256 a = ar_sha256 ref \<and> n_entity_uuid a = ar_entity_uuid ref"

definition artifact_for ::
  "uuid \<Rightarrow> normalized_artifact_ref \<Rightarrow> string \<Rightarrow> ts \<Rightarrow> db \<Rightarrow> (normalized_artifact \<times> db) res" where
  "artifact_for new_id ref object_key now s =
     (let row = normalized_artifact_values new_id ref object_key now;
          candidates = filter (\<lambda>a. n_object_key a = object_key \<or> same_bytes ref a) (normalized_artifacts s)
      in if \<not> normalized_artifact_checks row then Inl IntegrityError
         else if candidates = [] \<and> (\<forall>a\<in>set (normalized_artifacts s). n_artifact_id a \<noteq> new_id)
         then Inr (row, s\<lparr>normalized_artifacts := normalized_artifacts s @ [row]\<rparr>)
         else if \<exists>a\<in>set candidates. \<not> same_bytes ref a then Inl ConflictError
         else if candidates = [] then Inl NotFoundError
         else Inr (hd candidates, s))"

definition PROJECTION_COMMAND_EVENT_TYPE :: string where
  "PROJECTION_COMMAND_EVENT_TYPE = ''projection.command''"

definition CANONICAL_JSON_MEDIA_TYPE :: string where
  "CANONICAL_JSON_MEDIA_TYPE = ''application/json; charset=utf-8''"

definition command_outbox_row ::
  "(string \<Rightarrow> string) \<Rightarrow> (projection_command \<Rightarrow> string) \<Rightarrow> uuid \<Rightarrow> projection_command \<Rightarrow> ts \<Rightarrow> ts \<Rightarrow> outbox_event" where
  "command_outbox_row sha enc new_id command not_before now =
     (let payload = enc command
      in \<lparr>o_outbox_id = new_id, o_event_id = pc_task_id command, o_topic = Internal,
          o_event_type = PROJECTION_COMMAND_EVENT_TYPE, o_aggregate_id = pc_entity_uuid command,
          o_aggregate_version = pc_projection_version command,
          o_payload_schema_version = ''1.0'', o_payload_bytes = Some payload,
          o_payload_media_type = CANONICAL_JSON_MEDIA_TYPE, o_payload_sha256 = sha payload,
          o_payload_artifact_uri = None, o_available_at = not_before, o_published_at = None,
          o_parked_at = None, o_attempts = 0, o_delivery_attempts = 0, o_last_error_code = None,
          o_last_error_message = None, o_created_at = now, o_updated_at = now\<rparr>)"

definition insert_outbox :: "outbox_event \<Rightarrow> db \<Rightarrow> db res" where
  "insert_outbox row s =
     (if \<not> outbox_event_checks row
        \<or> (\<exists>e\<in>set (outbox_events s). o_outbox_id e = o_outbox_id row \<or> o_event_id e = o_event_id row)
      then Inl IntegrityError
      else Inr (s\<lparr>outbox_events := outbox_events s @ [row]\<rparr>))"

definition insert_task :: "projection_task \<Rightarrow> db \<Rightarrow> db res" where
  "insert_task row s =
     (if \<not> projection_task_checks row
        \<or> (\<exists>t\<in>set (projection_tasks s). t_task_id t = t_task_id row \<or> t_parse_key t = t_parse_key row
             \<or> (t_entity_uuid t = t_entity_uuid row \<and> t_projection_version t = t_projection_version row))
      then Inl IntegrityError
      else Inr (s\<lparr>projection_tasks := projection_tasks s @ [row]\<rparr>))"

definition get_projection_task :: "uuid \<Rightarrow> db \<Rightarrow> projection_task option" where
  "get_projection_task i s = find (\<lambda>t. t_task_id t = i) (projection_tasks s)"

definition get_acknowledgement :: "uuid \<Rightarrow> db \<Rightarrow> projection_ack option" where
  "get_acknowledgement i s = find (\<lambda>k. k_task_id k = i) (projection_acks s)"

definition is_acknowledged :: "projection_task \<Rightarrow> db \<Rightarrow> bool" where
  "is_acknowledged t s \<longleftrightarrow> t_status t = Succeeded \<and> get_acknowledgement (t_task_id t) s \<noteq> None"

definition existing_parse_result ::
  "projection_task \<Rightarrow> normalized_artifact_ref \<Rightarrow> db \<Rightarrow> (parse_result \<times> db) res" where
  "existing_parse_result t ref s =
     (case find (\<lambda>a. n_artifact_id a = t_artifact_id t) (normalized_artifacts s) of
        None \<Rightarrow> Inl NotFoundError
      | Some artifact \<Rightarrow>
          if n_sha256 artifact \<noteq> ar_sha256 ref \<or> t_entity_uuid t \<noteq> ar_entity_uuid ref then Inl ConflictError
          else
            let outbox_event = find (\<lambda>e. o_event_id e = t_task_id t) (outbox_events s);
                command = \<lparr>pc_task_id = t_task_id t, pc_entity_uuid = t_entity_uuid t,
                  pc_projection_version = t_projection_version t,
                  pc_target_collection = t_target_collection t,
                  pc_target_schema_version = t_target_schema_version t, pc_artifact = ref,
                  pc_priority = t_priority t, pc_not_before = Some (Aware (t_not_before t) 0),
                  pc_issued_at = t_created_at t\<rparr>
            in if outbox_event = None \<and> \<not> is_acknowledged t s then Inl ConflictError
               else (case (case t_parse_attempt_id t of None \<Rightarrow> None
                           | Some i \<Rightarrow> find (\<lambda>p. pa_parse_attempt_id p = i) (parse_attempts s)) of
                       None \<Rightarrow> Inl ConflictError
                     | Some pa \<Rightarrow>
                         if \<not> command_valid command then Inl ValueError
                         else Inr (\<lparr>pr_parse_attempt = pa, pr_artifact = artifact, pr_task = t,
                                    pr_command = command, pr_outbox_event = outbox_event,
                                    pr_created = False\<rparr>, s)))"

text \<open>The writes of a new parse result, once the entity and the artifact row are there.\<close>

definition issue_version ::
  "(string \<Rightarrow> string) \<Rightarrow> (projection_command \<Rightarrow> string) \<Rightarrow> (int \<Rightarrow> ts res) \<Rightarrow> uuid \<Rightarrow> uuid \<Rightarrow> uuid
   \<Rightarrow> parse_attempt_record \<Rightarrow> normalized_artifact_ref \<Rightarrow> normalized_artifact \<Rightarrow> entity_index \<Rightarrow> string
   \<Rightarrow> string \<Rightarrow> string \<Rightarrow> int \<Rightarrow> int \<Rightarrow> datetime option \<Rightarrow> ts \<Rightarrow> db \<Rightarrow> (parse_result \<times> db) res" where
  "issue_version sha enc naive attempt_id task_id outbox_id attempt ref artifact entity key
     target_collection target_schema_version priority max_attempts not_before current s =
     bind_res (insert_parse_attempt attempt_id attempt (ap_error_message attempt) current s) (\<lambda>(pa, s1).
     bind_res (case not_before of None \<Rightarrow> Inr current | Some d \<Rightarrow> bind_timestamptz naive d) (\<lambda>nb.
       let artifact' = (if n_parse_attempt_id artifact = None
                        then artifact\<lparr>n_parse_attempt_id := Some attempt_id\<rparr> else artifact);
           version = e_projection_version entity + 1;
           task = \<lparr>t_task_id = task_id, t_artifact_id = n_artifact_id artifact,
                   t_entity_uuid = e_entity_uuid entity, t_parse_attempt_id = Some attempt_id,
                   t_parse_key = key, t_projection_version = version,
                   t_target_collection = target_collection,
                   t_target_schema_version = target_schema_version, t_status = Pending,
                   t_priority = priority, t_attempt = 0, t_max_attempts = max_attempts,
                   t_not_before = nb, t_lease_owner = None, t_lease_expires_at = None,
                   t_leased_at = None, t_finished_at = None, t_last_error_code = None,
                   t_last_error_message = None, t_created_at = current, t_updated_at = current\<rparr>;
           s2 = s1\<lparr>normalized_artifacts := upd_where (\<lambda>a. n_artifact_id a = n_artifact_id artifact)
                     (\<lambda>_. artifact') (normalized_artifacts s1),
                   entities := upd_where (\<lambda>e. e_entity_uuid e = e_entity_uuid entity)
                     (\<lambda>e. e\<lparr>e_projection_version := version, e_updated_at := current\<rparr>) (entities s1)\<rparr>;
           command = \<lparr>pc_task_id = task_id, pc_entity_uuid = e_entity_uuid entity,
                      pc_projection_version = version, pc_target_collection = target_collection,
                      pc_target_schema_version = target_schema_version, pc_artifact = ref,
                      pc_priority = priority,
                      pc_not_before = Some (case not_before of None \<Rightarrow> Aware current 0 | Some d \<Rightarrow> d),
                      pc_issued_at = current\<rparr>;
           row = command_outbox_row sha enc outbox_id command nb current
       in bind_res (insert_task task s2) (\<lambda>s3.
            if \<not> command_valid command then Inl ValueError
            else bind_res (insert_outbox row s3) (\<lambda>s4.
              Inr (\<lparr>pr_parse_attempt = pa, pr_artifact = artifact', pr_task = task,
                     pr_command = command, pr_outbox_event = Some row, pr_created = True\<rparr>, s4)))))"

definition record_parse_result ::
  "(string \<Rightarrow> string) \<Rightarrow> (projection_command \<Rightarrow> string) \<Rightarrow> (int \<Rightarrow> ts res) \<Rightarrow> uuid \<Rightarrow> uuid \<Rightarrow> uuid \<Rightarrow> uuid
   \<Rightarrow> parse_attempt_record \<Rightarrow> normalized_artifact_ref \<Rightarrow> string \<Rightarrow> string \<Rightarrow> string \<Rightarrow> int \<Rightarrow> int
   \<Rightarrow> datetime option \<Rightarrow> ts \<Rightarrow> datetime option \<Rightarrow> db \<Rightarrow> (parse_result \<times> db) res" where
  "record_parse_result sha enc naive artifact_id attempt_id task_id outbox_id attempt ref object_key
     target_collection target_schema_version priority max_attempts not_before utcnow now s =
     (if ap_outcome attempt \<notin> SUCCESS_PARSE_OUTCOMES then Inl InvalidValueError
      else bind_res (require_consistent_lineage attempt ref) (\<lambda>_.
        bind_res (resolve_now utcnow now) (\<lambda>current.
        case get_entity (ar_entity_uuid ref) s of
          None \<Rightarrow> Inl NotFoundError
        | Some entity \<Rightarrow>
            let key = parse_key sha (ar_fetch_id ref) (ap_raw_sha256 attempt) (ap_parser_version attempt)
                        (ar_entity_uuid ref) target_collection
            in (case find (\<lambda>t. t_parse_key t = key) (projection_tasks s) of
                  Some t \<Rightarrow> existing_parse_result t ref s
                | None \<Rightarrow>
                    bind_res (artifact_for artifact_id ref object_key current s) (\<lambda>(artifact, s1).
                      issue_version sha enc naive attempt_id task_id outbox_id attempt ref artifact
                        entity key target_collection target_schema_version priority max_attempts
                        not_before current s1)))))"

section \<open>The queue of projection tasks\<close>

definition task_owned :: "uuid \<Rightarrow> string \<Rightarrow> projection_task \<Rightarrow> bool" where
  "task_owned i owner t \<longleftrightarrow> t_task_id t = i \<and> t_status t = Leased \<and> t_lease_owner t = Some owner"

definition task_key :: "projection_task \<Rightarrow> int \<times> ts \<times> uuid" where
  "task_key t = (- t_priority t, t_not_before t, t_task_id t)"

definition task_claimable :: "uuid list \<Rightarrow> string list \<Rightarrow> ts \<Rightarrow> projection_task \<Rightarrow> bool" where
  "task_claimable locked target_collections current t \<longleftrightarrow>
     claimable_status (t_status t) \<and> t_not_before t \<le> current
     \<and> (target_collections \<noteq> [] \<longrightarrow> t_target_collection t \<in> set target_collections)
     \<and> t_task_id t \<notin> set locked"

definition task_leased :: "string \<Rightarrow> int \<Rightarrow> ts \<Rightarrow> projection_task \<Rightarrow> projection_task" where
  "task_leased worker lease_seconds current t =
     t\<lparr>t_status := Leased, t_lease_owner := Some worker,
       t_lease_expires_at := Some (current + lease_seconds * second),
       t_leased_at := Some current, t_attempt := t_attempt t + 1, t_updated_at := current\<rparr>"

definition claim_projection_tasks ::
  "uuid list \<Rightarrow> string \<Rightarrow> int \<Rightarrow> string list \<Rightarrow> int \<Rightarrow> ts \<Rightarrow> datetime option \<Rightarrow> db
   \<Rightarrow> (projection_task list \<times> db) res" where
  "claim_projection_tasks locked worker lease_seconds target_collections limit utcnow now s =
     (if limit < 1 \<or> lease_seconds < 1 then Inl ValueError
      else bind_res (resolve_now utcnow now) (\<lambda>current.
        let candidates = order_limit task_key (nat limit)
              (filter (task_claimable locked target_collections current) (projection_tasks s));
            rows = upd_selected t_task_id candidates (task_leased worker lease_seconds current)
                     (projection_tasks s)
        in Inr (sort_key task_key (returning t_task_id candidates rows),
                s\<lparr>projection_tasks := rows\<rparr>)))"

definition heartbeat_projection_task ::
  "uuid \<Rightarrow> string \<Rightarrow> int \<Rightarrow> ts \<Rightarrow> datetime option \<Rightarrow> db \<Rightarrow> (ts \<times> db) res" where
  "heartbeat_projection_task i owner lease_seconds utcnow now s =
     bind_res (resolve_now utcnow now) (\<lambda>current.
       let expires = current + lease_seconds * second
       in if \<not> (\<exists>t\<in>set (projection_tasks s). task_owned i owner t) then Inl LeaseNotOwnedError
          else Inr (expires, s\<lparr>projection_tasks := upd_where (task_owned i owner)
                 (\<lambda>t. t\<lparr>t_lease_expires_at := Some expires, t_updated_at := current\<rparr>)
                 (projection_tasks s)\<rparr>))"

definition lock_owned_task :: "uuid \<Rightarrow> string \<Rightarrow> db \<Rightarrow> projection_task res" where
  "lock_owned_task i owner s =
     (case find (task_owned i owner) (projection_tasks s) of
        None \<Rightarrow> Inl LeaseNotOwnedError | Some t \<Rightarrow> Inr t)"

definition task_quarantined :: "string \<Rightarrow> ustr option \<Rightarrow> ts \<Rightarrow> projection_task \<Rightarrow> projection_task" where
  "task_quarantined error_code error_message now t =
     t\<lparr>t_status := Quarantined, t_lease_owner := None, t_lease_expires_at := None,
       t_finished_at := Some now, t_last_error_code := Some error_code,
       t_last_error_message := truncate_message error_message, t_updated_at := now\<rparr>"

definition task_retried :: "string \<Rightarrow> ustr option \<Rightarrow> ts \<Rightarrow> ts \<Rightarrow> projection_task \<Rightarrow> projection_task" where
  "task_retried error_code error_message not_before now t =
     t\<lparr>t_status := Retry, t_lease_owner := None, t_lease_expires_at := None,
       t_not_before := not_before, t_last_error_code := Some error_code,
       t_last_error_message := truncate_message error_message, t_updated_at := now\<rparr>"

definition upd_task :: "uuid \<Rightarrow> (projection_task \<Rightarrow> projection_task) \<Rightarrow> db \<Rightarrow> db" where
  "upd_task i f s = s\<lparr>projection_tasks := upd_where (\<lambda>t. t_task_id t = i) f (projection_tasks s)\<rparr>"

definition retry_projection_task ::
  "rat \<Rightarrow> uuid \<Rightarrow> string \<Rightarrow> string \<Rightarrow> ustr option \<Rightarrow> backoff_policy option \<Rightarrow> datetime option \<Rightarrow> ts
   \<Rightarrow> datetime option \<Rightarrow> db \<Rightarrow> (projection_task \<times> db) res" where
  "retry_projection_task r i owner error_code error_message policy not_before utcnow now s =
     bind_res (resolve_now utcnow now) (\<lambda>current.
     bind_res (lock_owned_task i owner s) (\<lambda>t.
       if t_max_attempts t \<le> t_attempt t
       then Inr (task_quarantined error_code error_message current t,
                 upd_task i (task_quarantined error_code error_message current) s)
       else bind_res (next_attempt_at (Aware current 0) (t_attempt t) policy r not_before) (\<lambda>nb.
         Inr (task_retried error_code error_message nb current t,
              upd_task i (task_retried error_code error_message nb current) s))))"

definition task_released :: "ts \<Rightarrow> ts \<Rightarrow> projection_task \<Rightarrow> projection_task" where
  "task_released not_before current t =
     t\<lparr>t_status := Pending, t_lease_owner := None, t_lease_expires_at := None, t_leased_at := None,
       t_not_before := not_before, t_attempt := max (t_attempt t - 1) 0, t_updated_at := current\<rparr>"

definition release_projection_task ::
  "uuid \<Rightarrow> string \<Rightarrow> datetime option \<Rightarrow> ts \<Rightarrow> datetime option \<Rightarrow> db \<Rightarrow> (projection_task \<times> db) res" where
  "release_projection_task i owner not_before utcnow now s =
     bind_res (resolve_now utcnow now) (\<lambda>current.
     bind_res (clamp_not_before not_before (Aware current 0)) (\<lambda>nb.
       case find (task_owned i owner) (projection_tasks s) of
         None \<Rightarrow> Inl LeaseNotOwnedError
       | Some t \<Rightarrow> Inr (task_released nb current t,
           s\<lparr>projection_tasks := upd_where (task_owned i owner) (task_released nb current)
              (projection_tasks s)\<rparr>)))"

definition quarantine_projection_task ::
  "uuid \<Rightarrow> string \<Rightarrow> ustr option \<Rightarrow> ts \<Rightarrow> datetime option \<Rightarrow> db \<Rightarrow> (projection_task \<times> db) res" where
  "quarantine_projection_task i error_code error_message utcnow now s =
     bind_res (resolve_now utcnow now) (\<lambda>current.
       case get_projection_task i s of
         None \<Rightarrow> Inl NotFoundError
       | Some t \<Rightarrow>
           if terminal_status (t_status t) then Inl LeaseNotOwnedError
           else Inr (task_quarantined error_code error_message current t,
                     upd_task i (task_quarantined error_code error_message current) s))"

definition task_expired :: "ts \<Rightarrow> projection_task \<Rightarrow> bool" where
  "task_expired current t \<longleftrightarrow> t_status t = Leased
     \<and> (case t_lease_expires_at t of None \<Rightarrow> False | Some e \<Rightarrow> e \<le> current)"

definition task_recovered :: "ts \<Rightarrow> projection_task \<Rightarrow> projection_task" where
  "task_recovered current t =
     t\<lparr>t_status := Pending, t_lease_owner := None, t_lease_expires_at := None, t_updated_at := current\<rparr>"

definition recover_expired_projection_leases ::
  "uuid list \<Rightarrow> int \<Rightarrow> ts \<Rightarrow> datetime option \<Rightarrow> db \<Rightarrow> (uuid list \<times> db) res" where
  "recover_expired_projection_leases locked limit utcnow now s =
     bind_res (resolve_now utcnow now) (\<lambda>current.
       if limit < 0 then Inl DataError
       else let expired = order_limit (\<lambda>t. expires_key (t_lease_expires_at t)) (nat limit)
                  (filter (\<lambda>t. task_expired current t \<and> t_task_id t \<notin> set locked) (projection_tasks s))
            in Inr (map t_task_id expired,
                    s\<lparr>projection_tasks := upd_selected t_task_id expired (task_recovered current)
                       (projection_tasks s)\<rparr>))"

section \<open>Acknowledgement\<close>

record acknowledge_result =
  ak_acknowledgement :: projection_ack
  ak_confirmed_projection_version :: int
  ak_change_event :: "change_event option"
  ak_outbox_event :: "outbox_event option"
  ak_created :: bool

definition receipt_event_sha256 :: "receipt \<Rightarrow> string option" where
  "receipt_event_sha256 r =
     (case rc_event_sha256 r of Some h \<Rightarrow> Some h | None \<Rightarrow> map_option av_sha256 (rc_event_artifact r))"

definition ack_of_receipt :: "uuid \<Rightarrow> receipt \<Rightarrow> ts \<Rightarrow> projection_ack" where
  "ack_of_receipt task_id r current =
     \<lparr>k_task_id = task_id, k_entity_uuid = rc_entity_uuid r,
      k_projection_version = rc_projection_version r, k_receipt_id = rc_projection_task_id r,
      k_receipt_cluster_time = rc_cluster_time r, k_mongo_document_id = Some (rc_document_id r),
      k_applied_to_current = rc_applied_to_current r, k_state_changed = rc_state_changed r,
      k_result_version = rc_result_version r, k_result_hash = rc_result_hash r,
      k_previous_hash = rc_previous_hash r, k_event_id = rc_event_id r,
      k_event_sha256 = receipt_event_sha256 r, k_acknowledged_at = current, k_created_at = current\<rparr>"

definition projection_ack_checks :: "projection_ack \<Rightarrow> bool" where
  "projection_ack_checks k \<longleftrightarrow> 1 \<le> k_projection_version k \<and> is_state_hash (k_result_hash k)
     \<and> (case k_event_sha256 k of None \<Rightarrow> True | Some h \<Rightarrow> is_hex64 h)"

definition require_same_receipt :: "projection_ack \<Rightarrow> receipt \<Rightarrow> unit res" where
  "require_same_receipt k r =
     (if k_entity_uuid k \<noteq> rc_entity_uuid r \<or> k_projection_version k \<noteq> rc_projection_version r
        \<or> k_receipt_cluster_time k \<noteq> rc_cluster_time r
        \<or> k_mongo_document_id k \<noteq> Some (rc_document_id r)
        \<or> k_applied_to_current k \<noteq> rc_applied_to_current r \<or> k_state_changed k \<noteq> rc_state_changed r
        \<or> k_result_version k \<noteq> rc_result_version r \<or> k_result_hash k \<noteq> rc_result_hash r
        \<or> k_previous_hash k \<noteq> rc_previous_hash r \<or> k_event_id k \<noteq> rc_event_id r
        \<or> k_event_sha256 k \<noteq> receipt_event_sha256 r
      then Inl ConflictError else Inr ())"

definition receipt_media_type :: "receipt \<Rightarrow> string option" where
  "receipt_media_type r =
     (case rc_event_media_type r of
        Some m \<Rightarrow> if m = [] then map_option av_media_type (rc_event_artifact r) else Some m
      | None \<Rightarrow> map_option av_media_type (rc_event_artifact r))"

definition change_event_row ::
  "uuid \<Rightarrow> receipt \<Rightarrow> domain_changed_event \<Rightarrow> string \<Rightarrow> string \<Rightarrow> ts \<Rightarrow> change_event" where
  "change_event_row new_id r descriptor media_type event_sha256 now =
     \<lparr>c_change_event_id = new_id, c_event_id = dc_event_id descriptor,
      c_aggregate_id = rc_entity_uuid r, c_aggregate_version = rc_projection_version r,
      c_event_type = dc_event_type descriptor,
      c_payload_schema_version = dc_payload_schema_version descriptor,
      c_projection_task_id = rc_projection_task_id r,
      c_previous_state_hash = rc_previous_hash r, c_result_state_hash = rc_result_hash r,
      c_event_bytes = rc_event_bytes r, c_event_media_type = media_type,
      c_event_sha256 = event_sha256,
      c_event_artifact_uri = map_option av_uri (rc_event_artifact r),
      c_event_artifact_size_bytes = map_option av_size_bytes (rc_event_artifact r),
      c_occurred_at = rc_committed_at r, c_created_at = now\<rparr>"

definition event_outbox_row ::
  "uuid \<Rightarrow> receipt \<Rightarrow> domain_changed_event \<Rightarrow> string \<Rightarrow> string \<Rightarrow> ts \<Rightarrow> outbox_event" where
  "event_outbox_row new_id r descriptor media_type event_sha256 now =
     \<lparr>o_outbox_id = new_id, o_event_id = dc_event_id descriptor, o_topic = Domain,
      o_event_type = dc_event_type descriptor, o_aggregate_id = rc_entity_uuid r,
      o_aggregate_version = rc_projection_version r,
      o_payload_schema_version = dc_payload_schema_version descriptor,
      o_payload_bytes = rc_event_bytes r, o_payload_media_type = media_type,
      o_payload_sha256 = event_sha256,
      o_payload_artifact_uri = map_option av_uri (rc_event_artifact r),
      o_available_at = now, o_published_at = None, o_parked_at = None,
      o_attempts = 0, o_delivery_attempts = 0, o_last_error_code = None,
      o_last_error_message = None, o_created_at = now, o_updated_at = now\<rparr>"

definition domain_changed_rows ::
  "(string \<Rightarrow> domain_changed_event res) \<Rightarrow> uuid \<Rightarrow> uuid \<Rightarrow> receipt \<Rightarrow> domain_changed_event option \<Rightarrow> ts
   \<Rightarrow> (change_event \<times> outbox_event) res" where
  "domain_changed_rows dec change_id outbox_id r event now =
     bind_res (case event of Some d \<Rightarrow> Inr d
               | None \<Rightarrow> (case rc_event_bytes r of Some b \<Rightarrow> dec b | None \<Rightarrow> Inl ConflictError)) (\<lambda>descriptor.
     if (case rc_event_id r of None \<Rightarrow> False | Some i \<Rightarrow> dc_event_id descriptor \<noteq> i) then Inl ConflictError
     else (case (receipt_event_sha256 r, receipt_media_type r) of
             (Some event_sha256, Some media_type) \<Rightarrow>
               Inr (change_event_row change_id r descriptor media_type event_sha256 now,
                    event_outbox_row outbox_id r descriptor media_type event_sha256 now)
           | _ \<Rightarrow> Inl ConflictError))"

definition insert_change_event :: "change_event \<Rightarrow> db \<Rightarrow> db res" where
  "insert_change_event row s =
     (if \<not> change_event_checks row
        \<or> (\<exists>c\<in>set (change_events s). c_change_event_id c = c_change_event_id row \<or> c_event_id c = c_event_id row)
      then Inl IntegrityError
      else Inr (s\<lparr>change_events := change_events s @ [row]\<rparr>))"

definition entity_confirmed :: "receipt \<Rightarrow> ts \<Rightarrow> entity_index \<Rightarrow> entity_index" where
  "entity_confirmed r current e =
     e\<lparr>e_confirmed_projection_version := max (e_confirmed_projection_version e) (rc_projection_version r),
       e_confirmed_at := Some current,
       e_mongo_collection := (case e_mongo_collection e of None \<Rightarrow> Some (rc_target_collection r) | x \<Rightarrow> x),
       e_mongo_document_id := (case e_mongo_document_id e of None \<Rightarrow> Some (rc_document_id r) | x \<Rightarrow> x),
       e_updated_at := current\<rparr>"

definition task_succeeded :: "ts \<Rightarrow> projection_task \<Rightarrow> projection_task" where
  "task_succeeded current t =
     t\<lparr>t_status := Succeeded, t_lease_owner := None, t_lease_expires_at := None,
       t_finished_at := Some current, t_updated_at := current\<rparr>"

definition emit_rows ::
  "(string \<Rightarrow> domain_changed_event res) \<Rightarrow> uuid \<Rightarrow> uuid \<Rightarrow> receipt \<Rightarrow> domain_changed_event option \<Rightarrow> ts \<Rightarrow> db
   \<Rightarrow> ((change_event option \<times> outbox_event option) \<times> db) res" where
  "emit_rows dec change_id outbox_id r event now s =
     (if should_emit_domain_changed r
      then bind_res (domain_changed_rows dec change_id outbox_id r event now) (\<lambda>(ce, oe).
           bind_res (insert_change_event ce s) (\<lambda>s1.
           bind_res (insert_outbox oe s1) (\<lambda>s2. Inr ((Some ce, Some oe), s2))))
      else Inr ((None, None), s))"

definition acknowledge_projection ::
  "(string \<Rightarrow> domain_changed_event res) \<Rightarrow> uuid \<Rightarrow> uuid \<Rightarrow> uuid \<Rightarrow> receipt \<Rightarrow> domain_changed_event option
   \<Rightarrow> string option \<Rightarrow> ts \<Rightarrow> datetime option \<Rightarrow> db \<Rightarrow> (acknowledge_result \<times> db) res" where
  "acknowledge_projection dec change_id outbox_id task_id r event owner utcnow now s =
     bind_res (resolve_now utcnow now) (\<lambda>current.
     if rc_projection_task_id r \<noteq> task_id then Inl ConflictError
     else bind_res (case owner of
         Some w \<Rightarrow> lock_owned_task task_id w s
       | None \<Rightarrow> (case get_projection_task task_id s of None \<Rightarrow> Inl NotFoundError | Some t \<Rightarrow> Inr t)) (\<lambda>t.
     if t_entity_uuid t \<noteq> rc_entity_uuid r \<or> t_projection_version t \<noteq> rc_projection_version r
     then Inl ConflictError
     else let row = ack_of_receipt task_id r current
     in if \<not> projection_ack_checks row then Inl IntegrityError
     else (case get_acknowledgement task_id s of
       Some existing \<Rightarrow>
         bind_res (require_same_receipt existing r) (\<lambda>_.
         bind_res (get_confirmed_version (rc_entity_uuid r) s) (\<lambda>confirmed.
           Inr (\<lparr>ak_acknowledgement = existing, ak_confirmed_projection_version = confirmed,
                  ak_change_event = None, ak_outbox_event = None, ak_created = False\<rparr>, s)))
     | None \<Rightarrow>
         (case get_entity (rc_entity_uuid r) s of
            None \<Rightarrow> Inl NotFoundError
          | Some e \<Rightarrow>
              if \<not> entity_index_checks (entity_confirmed r current e) then Inl IntegrityError
              else let s1 = (upd_task task_id (task_succeeded current) s)
                     \<lparr>projection_acks := projection_acks s @ [row],
                      entities := upd_where (\<lambda>x. e_entity_uuid x = rc_entity_uuid r)
                        (entity_confirmed r current) (entities s)\<rparr>
                   in bind_res (emit_rows dec change_id outbox_id r event current s1) (\<lambda>((ce, oe), s2).
                     Inr (\<lparr>ak_acknowledgement = row,
                            ak_confirmed_projection_version = e_confirmed_projection_version (entity_confirmed r current e),
                            ak_change_event = ce, ak_outbox_event = oe, ak_created = True\<rparr>, s2))))))"

section \<open>The operations as one step function\<close>

datatype proj_op =
    PUpsert uuid "uuid \<Rightarrow> bool" entity_identity ts "datetime option"
  | PBind uuid string uuid ts "datetime option"
  | PRecord "string \<Rightarrow> string" "projection_command \<Rightarrow> string" "int \<Rightarrow> ts res" uuid uuid uuid uuid
      parse_attempt_record normalized_artifact_ref string string string int int "datetime option"
      ts "datetime option"
  | PFailure uuid parse_attempt_record ts "datetime option"
  | PClaim "uuid list" string int "string list" int ts "datetime option"
  | PHeartbeat uuid string int ts "datetime option"
  | PRetry rat uuid string string "ustr option" "backoff_policy option" "datetime option" ts "datetime option"
  | PRelease uuid string "datetime option" ts "datetime option"
  | PQuarantine uuid string "ustr option" ts "datetime option"
  | PRecover "uuid list" int ts "datetime option"
  | PAck "string \<Rightarrow> domain_changed_event res" uuid uuid uuid receipt "domain_changed_event option"
      "string option" ts "datetime option"

fun proj_step :: "proj_op \<Rightarrow> db \<Rightarrow> db res" where
  "proj_step (PUpsert i v ident c now) s = drop_ret (upsert_entity i v ident c now s)"
| "proj_step (PBind i col d c now) s = drop_ret (set_mongo_document i col d c now s)"
| "proj_step (PRecord sha enc nv ai qi ti oi a ref ok tc sv pr m nb c now) s =
     drop_ret (record_parse_result sha enc nv ai qi ti oi a ref ok tc sv pr m nb c now s)"
| "proj_step (PFailure i a c now) s = drop_ret (record_parse_failure i a c now s)"
| "proj_step (PClaim lk w ls tcs n c now) s = drop_ret (claim_projection_tasks lk w ls tcs n c now s)"
| "proj_step (PHeartbeat i w ls c now) s = drop_ret (heartbeat_projection_task i w ls c now s)"
| "proj_step (PRetry r i w ec em p nb c now) s =
     drop_ret (retry_projection_task r i w ec em p nb c now s)"
| "proj_step (PRelease i w nb c now) s = drop_ret (release_projection_task i w nb c now s)"
| "proj_step (PQuarantine i ec em c now) s = drop_ret (quarantine_projection_task i ec em c now s)"
| "proj_step (PRecover lk n c now) s = drop_ret (recover_expired_projection_leases lk n c now s)"
| "proj_step (PAck dec ci oi i r ev w c now) s =
     drop_ret (acknowledge_projection dec ci oi i r ev w c now s)"

fun proj_actor :: "proj_op \<Rightarrow> string option" where
  "proj_actor (PClaim lk w ls tcs n c now) = Some w"
| "proj_actor (PHeartbeat i w ls c now) = Some w"
| "proj_actor (PRetry r i w ec em p nb c now) = Some w"
| "proj_actor (PRelease i w nb c now) = Some w"
| "proj_actor (PAck dec ci oi i r ev w c now) = w"
| "proj_actor _ = None"

section \<open>Rows\<close>

definition task_lease_state :: "projection_task \<Rightarrow> lease_state" where
  "task_lease_state t = (case t_status t of Pending \<Rightarrow> Free | Retry \<Rightarrow> Free
     | Leased \<Rightarrow> (case t_lease_owner t of None \<Rightarrow> Free | Some w \<Rightarrow> Held w)
     | Succeeded \<Rightarrow> Done | Quarantined \<Rightarrow> Done)"

definition task_lease :: "db \<Rightarrow> uuid \<Rightarrow> lease_state" where
  "task_lease s i = (case get_projection_task i s of None \<Rightarrow> Absent | Some t \<Rightarrow> task_lease_state t)"

text \<open>What no operation changes of a task: what it projects, and as which version.\<close>

definition same_task :: "projection_task \<Rightarrow> projection_task \<Rightarrow> bool" where
  "same_task a b \<longleftrightarrow> t_task_id a = t_task_id b \<and> t_artifact_id a = t_artifact_id b
     \<and> t_entity_uuid a = t_entity_uuid b \<and> t_parse_attempt_id a = t_parse_attempt_id b
     \<and> t_parse_key a = t_parse_key b \<and> t_projection_version a = t_projection_version b
     \<and> t_target_collection a = t_target_collection b
     \<and> t_target_schema_version a = t_target_schema_version b"

lemma same_task_refl [simp]: "same_task t t"
  by (simp add: same_task_def)

lemma same_task_trans: "same_task a b \<Longrightarrow> same_task b c \<Longrightarrow> same_task a c"
  by (simp add: same_task_def)

lemma get_taskD: "get_projection_task i s = Some t \<Longrightarrow> t \<in> set (projection_tasks s) \<and> t_task_id t = i"
  unfolding get_projection_task_def by (drule find_SomeD) simp

lemma get_task_upd:
  assumes "\<And>t. same_task t (f t)"
  shows "get_projection_task i (s\<lparr>projection_tasks := upd_where q f (projection_tasks s)\<rparr>)
    = map_option (\<lambda>t. if q t then f t else t) (get_projection_task i s)"
  unfolding get_projection_task_def using assms by (simp add: find_upd_where same_task_def)

text \<open>
  A move of the task queue: some tasks change their lease or status, by one step of the lease
  protocol each, without reaching or leaving \<open>succeeded\<close>; nothing else changes.
\<close>

definition moved :: "string option \<Rightarrow> projection_task \<Rightarrow> projection_task \<Rightarrow> bool" where
  "moved a t t' \<longleftrightarrow> lease_step a (task_lease_state t) (task_lease_state t')
     \<and> (projection_task_checks t \<longrightarrow> projection_task_checks t')
     \<and> t_status t \<noteq> Succeeded \<and> t_status t' \<noteq> Succeeded"

definition task_moves :: "string option \<Rightarrow> db \<Rightarrow> db \<Rightarrow> bool" where
  "task_moves a s s' \<longleftrightarrow> (\<exists>q f. s' = s\<lparr>projection_tasks := upd_where q f (projection_tasks s)\<rparr>
     \<and> (\<forall>t. same_task t (f t)) \<and> (\<forall>t\<in>set (projection_tasks s). q t \<longrightarrow> moved a t (f t)))"

lemma task_movesI:
  assumes "\<And>t. same_task t (f t)"
    and "\<And>t. t \<in> set (projection_tasks s) \<Longrightarrow> q t \<Longrightarrow> moved a t (f t)"
  shows "task_moves a s (s\<lparr>projection_tasks := upd_where q f (projection_tasks s)\<rparr>)"
  using assms unfolding task_moves_def by blast

lemma same_task_ops [simp]:
  "same_task t (task_leased w ls c t)" "same_task t (task_quarantined ec em c t)"
  "same_task t (task_retried ec em nb c t)" "same_task t (task_released nb c t)"
  "same_task t (task_recovered c t)" "same_task t (task_succeeded c t)"
  "same_task t (t\<lparr>t_lease_expires_at := x, t_updated_at := c\<rparr>)"
  by (simp_all add: same_task_def task_leased_def task_quarantined_def task_retried_def
      task_released_def task_recovered_def task_succeeded_def)

lemmas moved_defs = moved_def task_lease_state_def projection_task_checks_def lease_consistent_def

lemma moved_leased: "claimable_status (t_status t) \<Longrightarrow> moved (Some w) t (task_leased w ls c t)"
  by (auto simp: moved_defs task_leased_def claimable_status_def)

lemma moved_quarantined:
  "\<not> terminal_status (t_status t) \<Longrightarrow> moved None t (task_quarantined ec em c t)"
  by (cases "t_status t") (auto simp: moved_defs task_quarantined_def split: option.splits)

lemma moved_owned:
  assumes "task_owned i w t"
  shows "moved (Some w) t (task_quarantined ec em c t)" "moved (Some w) t (task_retried ec em nb c t)"
    "moved (Some w) t (task_released nb c t)"
    "moved (Some w) t (t\<lparr>t_lease_expires_at := Some e, t_updated_at := c\<rparr>)"
  using assms by (auto simp: task_owned_def moved_defs task_quarantined_def task_retried_def task_released_def)

lemma moved_recovered: "task_expired now t \<Longrightarrow> moved None t (task_recovered c t)"
  by (auto simp: moved_defs task_expired_def task_recovered_def split: option.splits)

section \<open>The invariant\<close>

definition entity_tasks :: "db \<Rightarrow> uuid \<Rightarrow> projection_task list" where
  "entity_tasks s i = filter (\<lambda>t. t_entity_uuid t = i) (projection_tasks s)"

definition entity_acks :: "db \<Rightarrow> uuid \<Rightarrow> projection_ack list" where
  "entity_acks s i = filter (\<lambda>k. k_entity_uuid k = i) (projection_acks s)"

definition ack_emits :: "projection_ack \<Rightarrow> bool" where
  "ack_emits k \<longleftrightarrow> k_applied_to_current k \<and> k_state_changed k"

definition max_version :: "projection_ack list \<Rightarrow> int" where
  "max_version ks = foldr (\<lambda>k. max (k_projection_version k)) ks 0"

text \<open>
  Keys and CHECKs; the versions of an entity's tasks are \<open>1, 2, \<dots>, projection_version\<close> in
  the order of their creation; a task is \<open>succeeded\<close> exactly when it is acknowledged, and the
  acknowledgement carries its entity and version; the confirmed version is the largest
  acknowledged one; the change events are those of the acknowledgements that applied and
  changed the state, in order.
\<close>

definition tasks_inv :: "db \<Rightarrow> bool" where
  "tasks_inv s \<longleftrightarrow> distinct (map t_task_id (projection_tasks s))
     \<and> distinct (map t_parse_key (projection_tasks s))
     \<and> list_all projection_task_checks (projection_tasks s)
     \<and> (\<forall>t\<in>set (projection_tasks s). t_entity_uuid t \<in> e_entity_uuid ` set (entities s))
     \<and> (\<forall>e\<in>set (entities s).
          map t_projection_version (entity_tasks s (e_entity_uuid e)) = [1..e_projection_version e])"

definition acks_inv :: "db \<Rightarrow> bool" where
  "acks_inv s \<longleftrightarrow> distinct (map k_task_id (projection_acks s))
     \<and> (\<forall>t\<in>set (projection_tasks s). t_status t = Succeeded \<longrightarrow> t_task_id t \<in> k_task_id ` set (projection_acks s))
     \<and> (\<forall>k\<in>set (projection_acks s). \<exists>t\<in>set (projection_tasks s). t_task_id t = k_task_id k
          \<and> t_status t = Succeeded \<and> t_entity_uuid t = k_entity_uuid k
          \<and> t_projection_version t = k_projection_version k)
     \<and> (\<forall>e\<in>set (entities s).
          e_confirmed_projection_version e = max_version (entity_acks s (e_entity_uuid e)))
     \<and> map c_projection_task_id (change_events s) = map k_task_id (filter ack_emits (projection_acks s))"

definition proj_inv :: "db \<Rightarrow> bool" where
  "proj_inv s \<longleftrightarrow> entities_inv s \<and> tasks_inv s \<and> acks_inv s"

lemma proj_inv_ids: "proj_inv s \<Longrightarrow> distinct (map t_task_id (projection_tasks s))"
  by (simp add: proj_inv_def tasks_inv_def)

lemma entity_tasks_upd:
  assumes "\<And>t. same_task t (f t)"
  shows "map t_projection_version (filter (\<lambda>t. t_entity_uuid t = i) (upd_where q f ts))
    = map t_projection_version (filter (\<lambda>t. t_entity_uuid t = i) ts)"
  using assms by (induction ts) (auto simp: same_task_def)

lemma task_moves_inv:
  assumes inv: "proj_inv s" and "task_moves a s s'"
  shows "proj_inv s'"
proof -
  obtain q f where s': "s' = s\<lparr>projection_tasks := upd_where q f (projection_tasks s)\<rparr>"
    and same: "\<And>t. same_task t (f t)"
    and mv: "\<And>t. t \<in> set (projection_tasks s) \<Longrightarrow> q t \<Longrightarrow> moved a t (f t)"
    using assms(2) unfolding task_moves_def by blast
  have keys: "t_task_id (f t) = t_task_id t" "t_parse_key (f t) = t_parse_key t"
    "t_entity_uuid (f t) = t_entity_uuid t" "t_projection_version (f t) = t_projection_version t" for t
    using same [of t] by (simp_all add: same_task_def)
  have "list_all projection_task_checks (projection_tasks s')"
    unfolding s' using inv mv
    by (simp, intro list_all_upd_where) (auto simp: proj_inv_def tasks_inv_def moved_def)
  then have "tasks_inv s'"
    using inv same by (auto simp: proj_inv_def tasks_inv_def s' map_upd_where keys entity_tasks_def
        entity_tasks_upd set_upd_where)
  moreover have "acks_inv s'"
  proof -
    have succ: "t_status t = Succeeded \<Longrightarrow> t \<in> set (projection_tasks s) \<Longrightarrow> t \<in> set (projection_tasks s')"
      and old: "t_status t' = Succeeded \<Longrightarrow> t' \<in> set (projection_tasks s') \<Longrightarrow> t' \<in> set (projection_tasks s)" for t t'
      using mv by (auto simp: s' set_upd_where moved_def)
    have "\<exists>t\<in>set (projection_tasks s'). t_task_id t = k_task_id k \<and> t_status t = Succeeded
        \<and> t_entity_uuid t = k_entity_uuid k \<and> t_projection_version t = k_projection_version k"
      if "k \<in> set (projection_acks s)" for k
      using inv that succ unfolding proj_inv_def acks_inv_def by blast
    moreover have "\<forall>t\<in>set (projection_tasks s'). t_status t = Succeeded \<longrightarrow> t_task_id t \<in> k_task_id ` set (projection_acks s)"
      using inv old unfolding proj_inv_def acks_inv_def by blast
    ultimately show ?thesis
      using inv by (simp add: proj_inv_def acks_inv_def s' entity_acks_def)
  qed
  ultimately show ?thesis using inv by (simp add: proj_inv_def entities_inv_def s')
qed

lemma task_moves_lease:
  assumes "task_moves a s s'" shows "lease_step a (task_lease s i) (task_lease s' i)"
proof -
  obtain q f where s': "s' = s\<lparr>projection_tasks := upd_where q f (projection_tasks s)\<rparr>"
    and same: "\<And>t. same_task t (f t)"
    and mv: "\<And>t. t \<in> set (projection_tasks s) \<Longrightarrow> q t \<Longrightarrow> moved a t (f t)"
    using assms unfolding task_moves_def by blast
  show ?thesis
    using mv get_taskD [of i s]
    by (cases "get_projection_task i s")
      (auto simp: task_lease_def s' get_task_upd same moved_def intro: ls_same)
qed

lemma task_moves_get:
  assumes "task_moves a s s'" and "get_projection_task i s = Some t"
  shows "\<exists>t'. get_projection_task i s' = Some t' \<and> same_task t t'"
  using assms unfolding task_moves_def by (auto simp: get_task_upd)

section \<open>The queue operations are moves\<close>

lemma lock_owned_taskD:
  "lock_owned_task i w s = Inr t \<Longrightarrow> t \<in> set (projection_tasks s) \<and> task_owned i w t"
  by (auto simp: lock_owned_task_def split: option.splits dest: find_SomeD)

lemma claim_moves:
  assumes inv: "proj_inv s" and "claim_projection_tasks lk w ls tcs n c now s = Inr (ts, s')"
  shows "task_moves (Some w) s s'"
proof -
  obtain cur where s': "s' = s\<lparr>projection_tasks := upd_where
      (\<lambda>t. t_task_id t \<in> t_task_id ` set (order_limit task_key (nat n)
        (filter (task_claimable lk tcs cur) (projection_tasks s))))
      (task_leased w ls cur) (projection_tasks s)\<rparr>"
    using assms(2) by (auto simp: claim_projection_tasks_def Let_def upd_selected_def split: if_splits)
  have "moved (Some w) t (task_leased w ls cur t)"
    if "t \<in> set (projection_tasks s)" "t_task_id t \<in> t_task_id ` set (order_limit task_key (nat n)
        (filter (task_claimable lk tcs cur) (projection_tasks s)))" for t
    using selected_row [OF proj_inv_ids [OF inv] that] by (intro moved_leased) (simp add: task_claimable_def)
  then show ?thesis unfolding s' by (intro task_movesI same_task_ops)
qed

lemma recover_moves:
  assumes inv: "proj_inv s" and "recover_expired_projection_leases lk n c now s = Inr (ts, s')"
  shows "task_moves None s s'"
proof -
  obtain cur where s': "s' = s\<lparr>projection_tasks := upd_where
      (\<lambda>t. t_task_id t \<in> t_task_id ` set (order_limit (\<lambda>t. expires_key (t_lease_expires_at t)) (nat n)
        (filter (\<lambda>t. task_expired cur t \<and> t_task_id t \<notin> set lk) (projection_tasks s))))
      (task_recovered cur) (projection_tasks s)\<rparr>"
    using assms(2)
    by (auto simp: recover_expired_projection_leases_def Let_def upd_selected_def split: if_splits)
  have "moved None t (task_recovered cur t)"
    if "t \<in> set (projection_tasks s)" "t_task_id t \<in> t_task_id ` set (order_limit
        (\<lambda>t. expires_key (t_lease_expires_at t)) (nat n)
        (filter (\<lambda>t. task_expired cur t \<and> t_task_id t \<notin> set lk) (projection_tasks s)))" for t
    using selected_row [OF proj_inv_ids [OF inv] that] by (intro moved_recovered [of cur]) simp
  then show ?thesis unfolding s' by (intro task_movesI same_task_ops)
qed

lemma owned_moves:
  assumes "\<And>t. same_task t (f t)" and "\<And>t. task_owned i w t \<Longrightarrow> moved (Some w) t (f t)"
  shows "task_moves (Some w) s (s\<lparr>projection_tasks := upd_where (task_owned i w) f (projection_tasks s)\<rparr>)"
  using assms by (intro task_movesI) auto

lemma heartbeat_moves:
  "heartbeat_projection_task i w ls c now s = Inr (e, s') \<Longrightarrow> task_moves (Some w) s s'"
  by (auto simp: heartbeat_projection_task_def Let_def split: if_splits intro!: owned_moves moved_owned)

lemma release_moves:
  "release_projection_task i w nb c now s = Inr (t, s') \<Longrightarrow> task_moves (Some w) s s'"
  by (auto simp: release_projection_task_def split: option.splits intro!: owned_moves moved_owned)

lemma one_task_moves:
  assumes inv: "proj_inv s" and t: "t \<in> set (projection_tasks s)" "t_task_id t = i"
    and "\<And>t. same_task t (f t)" and "moved a t (f t)"
  shows "task_moves a s (upd_task i f s)"
proof -
  have "x = t" if "x \<in> set (projection_tasks s)" "t_task_id x = i" for x
    using distinct_key_inj [OF proj_inv_ids [OF inv] that(1) t(1)] that(2) t(2) by simp
  then show ?thesis using assms(4,5) unfolding upd_task_def by (intro task_movesI) auto
qed

lemma retry_moves:
  assumes inv: "proj_inv s" and "retry_projection_task r i w ec em p nb c now s = Inr (t', s')"
  shows "task_moves (Some w) s s'"
proof -
  obtain cur t where t: "lock_owned_task i w s = Inr t"
    and s': "s' = upd_task i (task_quarantined ec em cur) s \<or> (\<exists>nb'. s' = upd_task i (task_retried ec em nb' cur) s)"
    using assms(2) by (auto simp: retry_projection_task_def split: if_splits)
  from lock_owned_taskD [OF t] have "t \<in> set (projection_tasks s)" "task_owned i w t" "t_task_id t = i"
    by (auto simp: task_owned_def)
  then show ?thesis using s' by (auto intro!: one_task_moves [OF inv] moved_owned)
qed

lemma quarantine_moves:
  assumes inv: "proj_inv s" and "quarantine_projection_task i ec em c now s = Inr (t', s')"
  shows "task_moves None s s'"
proof (cases "get_projection_task i s")
  case None
  then show ?thesis using assms(2) by (auto simp: quarantine_projection_task_def)
next
  case (Some t)
  then obtain cur where "s' = upd_task i (task_quarantined ec em cur) s" "\<not> terminal_status (t_status t)"
    using assms(2) by (auto simp: quarantine_projection_task_def split: if_splits)
  then show ?thesis
    using get_taskD [OF Some] by (auto intro!: one_task_moves [OF inv] moved_quarantined)
qed

section \<open>Recording a parse result\<close>

lemma insert_parse_attempt_tables:
  assumes "insert_parse_attempt i a m c s = Inr (p, s')"
  shows "s' = s\<lparr>parse_attempts := parse_attempts s @ [p]\<rparr> \<and> pa_parse_attempt_id p = i"
  using assms
  by (auto simp: insert_parse_attempt_def Let_def split: option.splits if_splits)

lemma artifact_for_cases:
  assumes "artifact_for i ref ok c s = Inr (a, s')"
  obtains (fresh) "s' = s\<lparr>normalized_artifacts := normalized_artifacts s @ [a]\<rparr>"
      "a = normalized_artifact_values i ref ok c"
  | (reused) "s' = s" "a \<in> set (normalized_artifacts s)" "same_bytes ref a"
proof -
  let ?cs = "filter (\<lambda>a. n_object_key a = ok \<or> same_bytes ref a) (normalized_artifacts s)"
  show thesis
  proof (cases "?cs = [] \<and> (\<forall>a\<in>set (normalized_artifacts s). n_artifact_id a \<noteq> i)")
    case True
    then show thesis
      using assms unfolding artifact_for_def Let_def by (intro fresh) (auto split: if_splits)
  next
    case False
    have shape: "y = hd cs \<and> cs \<noteq> [] \<and> (\<forall>a\<in>set cs. P a) \<and> s' = s"
      if "(if \<not> B then Inl IntegrityError else if (\<exists>a\<in>set cs. \<not> P a) then Inl ConflictError
        else if cs = [] then Inl NotFoundError else Inr (hd cs, s)) = Inr (y, s')"
      for B cs P and y :: normalized_artifact
      using that by (auto split: if_splits)
    have "a = hd ?cs \<and> ?cs \<noteq> [] \<and> (\<forall>a\<in>set ?cs. same_bytes ref a) \<and> s' = s"
      using assms unfolding artifact_for_def Let_def if_not_P [OF False] by (rule shape)
    moreover from this have "a \<in> set ?cs" using hd_in_set [of ?cs] by simp
    ultimately show thesis by (intro reused) auto
  qed
qed

lemma insert_task_Inr:
  "insert_task t s = Inr s' \<longleftrightarrow> s' = s\<lparr>projection_tasks := projection_tasks s @ [t]\<rparr>
     \<and> projection_task_checks t \<and> t_task_id t \<notin> t_task_id ` set (projection_tasks s)
     \<and> t_parse_key t \<notin> t_parse_key ` set (projection_tasks s)
     \<and> (\<forall>x\<in>set (projection_tasks s). t_entity_uuid x = t_entity_uuid t \<longrightarrow>
          t_projection_version x \<noteq> t_projection_version t)"
  by (force simp: insert_task_def image_iff)

lemma insert_outbox_Inr:
  "insert_outbox e s = Inr s' \<longleftrightarrow> s' = s\<lparr>outbox_events := outbox_events s @ [e]\<rparr>
     \<and> outbox_event_checks e
     \<and> (\<forall>x\<in>set (outbox_events s). o_outbox_id x \<noteq> o_outbox_id e \<and> o_event_id x \<noteq> o_event_id e)"
  by (auto simp: insert_outbox_def)

definition version_issued :: "int \<Rightarrow> ts \<Rightarrow> entity_index \<Rightarrow> entity_index" where
  "version_issued v c e = e\<lparr>e_projection_version := v, e_updated_at := c\<rparr>"

text \<open>What a new parse result leaves behind.\<close>

definition issued :: "entity_index \<Rightarrow> parse_result \<Rightarrow> ts \<Rightarrow> db \<Rightarrow> db \<Rightarrow> bool" where
  "issued entity r cur s s' \<longleftrightarrow>
     projection_tasks s' = projection_tasks s @ [pr_task r]
     \<and> entities s' = upd_where (\<lambda>e. e_entity_uuid e = e_entity_uuid entity)
         (version_issued (e_projection_version entity + 1) cur) (entities s)
     \<and> projection_acks s' = projection_acks s \<and> change_events s' = change_events s
     \<and> (\<exists>oe. pr_outbox_event r = Some oe \<and> outbox_events s' = outbox_events s @ [oe]
         \<and> o_event_id oe = t_task_id (pr_task r) \<and> o_topic oe = Internal \<and> o_published_at oe = None
         \<and> outbox_event_checks oe
         \<and> (\<forall>x\<in>set (outbox_events s). o_outbox_id x \<noteq> o_outbox_id oe \<and> o_event_id x \<noteq> o_event_id oe))
     \<and> t_entity_uuid (pr_task r) = e_entity_uuid entity
     \<and> t_projection_version (pr_task r) = e_projection_version entity + 1
     \<and> t_status (pr_task r) = Pending \<and> projection_task_checks (pr_task r)
     \<and> t_task_id (pr_task r) \<notin> t_task_id ` set (projection_tasks s)
     \<and> t_parse_key (pr_task r) \<notin> t_parse_key ` set (projection_tasks s) \<and> pr_created r"

lemma issue_version_issued:
  assumes "issue_version sha enc nv qi ti oi a ref art entity key tc sv pr m nb cur s = Inr (r, s')"
  shows "issued entity r cur s s' \<and> t_parse_key (pr_task r) = key \<and> t_task_id (pr_task r) = ti"
proof -
  obtain pa s1 nb' where 1: "insert_parse_attempt qi a (ap_error_message a) cur s = Inr (pa, s1)"
    and 2: "(case nb of None \<Rightarrow> Inr cur | Some d \<Rightarrow> bind_timestamptz nv d) = Inr nb'"
    using assms unfolding issue_version_def bind_res_eq_Inr by auto
  have s1: "s1 = s\<lparr>parse_attempts := parse_attempts s @ [pa]\<rparr>"
    using insert_parse_attempt_tables [OF 1] by simp
  show ?thesis
    using assms unfolding issue_version_def 1 2 bind_res.simps Let_def prod.case bind_res_eq_Inr
      insert_task_Inr insert_outbox_Inr
    by (auto simp: issued_def s1 version_issued_def [abs_def] command_outbox_row_def Let_def
        insert_outbox_Inr insert_task_Inr split: if_splits)
qed

lemma existing_unchanged:
  assumes "existing_parse_result t ref s = Inr (r, s')"
  shows "s' = s \<and> pr_task r = t \<and> \<not> pr_created r
    \<and> pr_outbox_event r = find (\<lambda>e. o_event_id e = t_task_id t) (outbox_events s)"
  using assms
  by (auto simp: existing_parse_result_def Let_def split: option.splits if_splits)

lemma record_cases:
  assumes "record_parse_result sha enc nv ai qi ti oi a ref ok tc sv pr m nb c now s = Inr (r, s')"
  obtains (existing) t where "s' = s" "pr_task r = t" "\<not> pr_created r" "t \<in> set (projection_tasks s)"
      "t_parse_key t = parse_key sha (ar_fetch_id ref) (ap_raw_sha256 a) (ap_parser_version a) (ar_entity_uuid ref) tc"
  | (created) entity cur s1 where "resolve_now c now = Inr cur" "get_entity (ar_entity_uuid ref) s = Some entity"
      "issued entity r cur s1 s'" "\<exists>x. s1 = s\<lparr>normalized_artifacts := x\<rparr>" "t_task_id (pr_task r) = ti"
      "t_parse_key (pr_task r) = parse_key sha (ar_fetch_id ref) (ap_raw_sha256 a) (ap_parser_version a) (ar_entity_uuid ref) tc"
      "\<forall>t\<in>set (projection_tasks s). t_parse_key t \<noteq> t_parse_key (pr_task r)"
proof -
  let ?k = "parse_key sha (ar_fetch_id ref) (ap_raw_sha256 a) (ap_parser_version a) (ar_entity_uuid ref) tc"
  obtain cur entity where cur: "resolve_now c now = Inr cur"
    and e: "get_entity (ar_entity_uuid ref) s = Some entity"
    and rest: "(case find (\<lambda>t. t_parse_key t = ?k) (projection_tasks s) of
        Some t \<Rightarrow> existing_parse_result t ref s
      | None \<Rightarrow> bind_res (artifact_for ai ref ok cur s) (\<lambda>(artifact, s1).
          issue_version sha enc nv qi ti oi a ref artifact entity ?k tc sv pr m nb cur s1)) = Inr (r, s')"
    using assms unfolding record_parse_result_def Let_def bind_res_eq_Inr
    by (auto split: if_splits option.splits)
  show thesis
  proof (cases "find (\<lambda>t. t_parse_key t = ?k) (projection_tasks s)")
    case (Some t)
    then have "existing_parse_result t ref s = Inr (r, s')" using rest by simp
    from existing_unchanged [OF this] find_SomeD [OF Some] show thesis by (intro existing) auto
  next
    case None
    then obtain art s1 where art: "artifact_for ai ref ok cur s = Inr (art, s1)"
      and iss: "issue_version sha enc nv qi ti oi a ref art entity ?k tc sv pr m nb cur s1 = Inr (r, s')"
      using rest by auto
    have "\<exists>x. s1 = s\<lparr>normalized_artifacts := x\<rparr>"
      using art
    proof (cases rule: artifact_for_cases)
      case reused
      then have "s1 = s\<lparr>normalized_artifacts := normalized_artifacts s\<rparr>" by simp
      then show ?thesis by blast
    qed auto
    then show thesis
      using created [OF cur e] issue_version_issued [OF iss] find_NoneD [OF None] by auto
  qed
qed

lemma max_version_append [simp]: "max_version (ks @ [k]) = max (max_version ks) (k_projection_version k)"
  unfolding max_version_def by (induction ks) (auto simp: max.assoc max.commute max.left_commute)

lemma entity_uuid_inj:
  "entities_inv s \<Longrightarrow> a \<in> set (entities s) \<Longrightarrow> b \<in> set (entities s) \<Longrightarrow> e_entity_uuid a = e_entity_uuid b \<Longrightarrow> a = b"
  unfolding entities_inv_def using distinct_key_inj [of e_entity_uuid "entities s" a b] by blast

lemma issued_inv:
  assumes inv: "proj_inv s" and e: "get_entity i s = Some entity" and iss: "issued entity r cur s s'"
  shows "proj_inv s'"
proof -
  let ?v = "e_projection_version entity + 1" and ?t = "pr_task r"
  note d = iss [unfolded issued_def]
  have en: "entity \<in> set (entities s)" using get_entityD [OF e] by simp
  have einv: "entities_inv s" and tinv: "tasks_inv s" and ainv: "acks_inv s"
    using inv by (simp_all add: proj_inv_def)
  have chk: "entity_index_checks entity" using einv en by (auto simp: entities_inv_def list_all_iff)
  have ents: "set (entities s') = (set (entities s) - {entity}) \<union> {version_issued ?v cur entity}"
    using d en entity_uuid_inj [OF einv _ en] by (auto simp: set_upd_where)
  have ids: "e_entity_uuid ` set (entities s') = e_entity_uuid ` set (entities s)"
    unfolding ents using en by (auto simp: version_issued_def)
  have "map e_entity_uuid (entities s') = map e_entity_uuid (entities s)"
    and "map (\<lambda>e. (e_source_id e, e_source_item_id e)) (entities s')
       = map (\<lambda>e. (e_source_id e, e_source_item_id e)) (entities s)"
    using d by (auto intro!: map_upd_where simp: version_issued_def)
  moreover have "list_all entity_index_checks (entities s')"
    using einv chk unfolding list_all_iff ents
    by (auto simp: entities_inv_def list_all_iff entity_index_checks_def version_issued_def)
  ultimately have E: "entities_inv s'" using einv by (simp add: entities_inv_def)
  have vers: "map t_projection_version (entity_tasks s' (e_entity_uuid x)) = [1..e_projection_version x]"
    if x: "x \<in> set (entities s')" for x
  proof (cases "x = version_issued ?v cur entity")
    case True
    have "map t_projection_version (entity_tasks s (e_entity_uuid entity)) = [1..e_projection_version entity]"
      using tinv en by (simp add: tasks_inv_def)
    moreover have "[1..?v] = [1..e_projection_version entity] @ [?v]"
      using chk upto_rec2 [of 1 ?v] by (simp add: entity_index_checks_def)
    ultimately show ?thesis
      using d True by (simp add: entity_tasks_def version_issued_def)
  next
    case False
    then have x': "x \<in> set (entities s)" "x \<noteq> entity" using x ents by auto
    then have "e_entity_uuid x \<noteq> e_entity_uuid entity" using entity_uuid_inj [OF einv _ en] by blast
    then have "entity_tasks s' (e_entity_uuid x) = entity_tasks s (e_entity_uuid x)"
      using d by (simp add: entity_tasks_def)
    then show ?thesis using tinv x' by (simp add: tasks_inv_def)
  qed
  have fk: "t_entity_uuid t \<in> e_entity_uuid ` set (entities s')" if "t \<in> set (projection_tasks s')" for t
    unfolding ids using that tinv d en by (auto simp: tasks_inv_def)
  have T: "tasks_inv s'"
    unfolding tasks_inv_def
  proof (intro conjI ballI)
    show "distinct (map t_task_id (projection_tasks s'))" "distinct (map t_parse_key (projection_tasks s'))"
      "list_all projection_task_checks (projection_tasks s')"
      using tinv d by (simp_all add: tasks_inv_def)
  qed (simp_all only: fk vers)
  have conf: "e_confirmed_projection_version x = max_version (entity_acks s' (e_entity_uuid x))"
    if "x \<in> set (entities s')" for x
    using that ents ainv en d by (auto simp: acks_inv_def entity_acks_def version_issued_def)
  have "acks_inv s'"
    using ainv d conf unfolding acks_inv_def by auto
  then show ?thesis using E T by (simp add: proj_inv_def)
qed

lemma proj_inv_artifacts [simp]: "proj_inv (s\<lparr>normalized_artifacts := x\<rparr>) = proj_inv s"
  "proj_inv (s\<lparr>parse_attempts := y\<rparr>) = proj_inv s"
  by (simp_all add: proj_inv_def entities_inv_def tasks_inv_def acks_inv_def entity_tasks_def entity_acks_def)

lemma record_inv:
  assumes inv: "proj_inv s"
    and run: "record_parse_result sha enc nv ai qi ti oi a ref ok tc sv pr m nb c now s = Inr (r, s')"
  shows "proj_inv s'"
  using run
proof (cases rule: record_cases)
  case existing
  then show ?thesis using inv by simp
next
  case (created entity cur s1)
  then have "get_entity (ar_entity_uuid ref) s1 = Some entity" "proj_inv s1"
    using inv by (auto simp: get_entity_def)
  then show ?thesis using issued_inv created(3) by blast
qed

section \<open>Acknowledging a receipt\<close>

text \<open>The event rows carry the bytes, hash and versions of the receipt.\<close>

definition event_of_receipt :: "receipt \<Rightarrow> change_event \<Rightarrow> outbox_event \<Rightarrow> bool" where
  "event_of_receipt r ce oe \<longleftrightarrow>
     c_projection_task_id ce = rc_projection_task_id r \<and> c_aggregate_id ce = rc_entity_uuid r
     \<and> c_aggregate_version ce = rc_projection_version r \<and> c_event_bytes ce = rc_event_bytes r
     \<and> receipt_event_sha256 r = Some (c_event_sha256 ce) \<and> c_result_state_hash ce = rc_result_hash r
     \<and> c_occurred_at ce = rc_committed_at r
     \<and> o_topic oe = Domain \<and> o_event_id oe = c_event_id ce \<and> o_aggregate_id oe = c_aggregate_id ce
     \<and> o_aggregate_version oe = c_aggregate_version ce \<and> o_payload_bytes oe = c_event_bytes ce
     \<and> o_payload_sha256 oe = c_event_sha256 ce \<and> o_payload_media_type oe = c_event_media_type ce
     \<and> o_published_at oe = None \<and> o_parked_at oe = None
     \<and> (\<forall>i. rc_event_id r = Some i \<longrightarrow> c_event_id ce = i)"

lemma domain_changed_rows_event:
  assumes "domain_changed_rows dec ci oi r ev now = Inr (ce, oe)"
  shows "event_of_receipt r ce oe"
proof -
  let ?bad = "\<lambda>d. case rc_event_id r of None \<Rightarrow> False | Some i \<Rightarrow> dc_event_id d \<noteq> i"
  let ?rows = "\<lambda>d. case (receipt_event_sha256 r, receipt_media_type r) of
     (Some h, Some m) \<Rightarrow> Inr (change_event_row ci r d m h now, event_outbox_row oi r d m h now)
   | _ \<Rightarrow> Inl ConflictError"
  obtain d where "(if ?bad d then Inl ConflictError else ?rows d) = Inr (ce, oe)"
    using assms unfolding domain_changed_rows_def bind_res_eq_Inr by blast
  then have ok: "\<not> ?bad d" and rows: "?rows d = Inr (ce, oe)" by (cases "?bad d"; simp)+
  from rows obtain h m where "receipt_event_sha256 r = Some h" "ce = change_event_row ci r d m h now"
    "oe = event_outbox_row oi r d m h now"
    by (cases "receipt_event_sha256 r"; cases "receipt_media_type r") auto
  moreover have "rc_event_id r = Some i \<Longrightarrow> dc_event_id d = i" for i using ok by simp
  ultimately show ?thesis
    by (simp add: event_of_receipt_def change_event_row_def event_outbox_row_def)
qed

lemma emit_rows_cases:
  assumes "emit_rows dec ci oi r ev now s = Inr ((ce, oe), s')"
  obtains (emitted) c v where "should_emit_domain_changed r" "ce = Some c" "oe = Some v"
      "s' = s\<lparr>change_events := change_events s @ [c], outbox_events := outbox_events s @ [v]\<rparr>"
      "event_of_receipt r c v" "outbox_event_checks v"
      "\<forall>x\<in>set (outbox_events s). o_outbox_id x \<noteq> o_outbox_id v \<and> o_event_id x \<noteq> o_event_id v"
  | (silent) "\<not> should_emit_domain_changed r" "ce = None" "oe = None" "s' = s"
proof (cases "should_emit_domain_changed r")
  case False
  then show thesis using assms silent by (simp add: emit_rows_def)
next
  case True
  then obtain c v s1 where 1: "domain_changed_rows dec ci oi r ev now = Inr (c, v)"
    and 2: "insert_change_event c s = Inr s1" and 3: "insert_outbox v s1 = Inr s'" "ce = Some c" "oe = Some v"
    using assms by (auto simp: emit_rows_def)
  have s1: "s1 = s\<lparr>change_events := change_events s @ [c]\<rparr>"
    using 2 by (simp add: insert_change_event_def split: if_splits)
  show thesis
    using 3 domain_changed_rows_event [OF 1]
    by (intro emitted [OF True, of c v]) (simp_all add: insert_outbox_Inr s1)
qed

lemma ack_cases:
  assumes "acknowledge_projection dec ci oi i r ev w c now s = Inr (res, s')"
  obtains (again) k where "s' = s" "get_acknowledgement i s = Some k" "require_same_receipt k r = Inr ()"
      "ak_acknowledgement res = k" "\<not> ak_created res" "ak_change_event res = None" "ak_outbox_event res = None"
  | (created) cur t e s1 where "resolve_now c now = Inr cur" "rc_projection_task_id r = i"
      "t \<in> set (projection_tasks s)" "t_task_id t = i" "\<And>x. w = Some x \<Longrightarrow> task_owned i x t"
      "t_entity_uuid t = rc_entity_uuid r" "t_projection_version t = rc_projection_version r"
      "get_acknowledgement i s = None" "get_entity (rc_entity_uuid r) s = Some e"
      "entity_index_checks (entity_confirmed r cur e)"
      "s1 = (upd_task i (task_succeeded cur) s)\<lparr>projection_acks := projection_acks s @ [ack_of_receipt i r cur],
          entities := upd_where (\<lambda>x. e_entity_uuid x = rc_entity_uuid r) (entity_confirmed r cur) (entities s)\<rparr>"
      "emit_rows dec ci oi r ev cur s1 = Inr ((ak_change_event res, ak_outbox_event res), s')"
      "ak_created res" "ak_acknowledgement res = ack_of_receipt i r cur"
      "ak_confirmed_projection_version res = e_confirmed_projection_version (entity_confirmed r cur e)"
proof -
  let ?lock = "case w of Some x \<Rightarrow> lock_owned_task i x s
       | None \<Rightarrow> (case get_projection_task i s of None \<Rightarrow> Inl NotFoundError | Some t \<Rightarrow> Inr t)"
  obtain cur t where cur: "resolve_now c now = Inr cur" and id: "rc_projection_task_id r = i"
    and lock: "?lock = Inr t"
    and match: "t_entity_uuid t = rc_entity_uuid r" "t_projection_version t = rc_projection_version r"
    using assms unfolding acknowledge_projection_def bind_res_eq_Inr
    by (auto simp: Let_def split: if_splits)
  have t: "t \<in> set (projection_tasks s)" "t_task_id t = i" "\<And>x. w = Some x \<Longrightarrow> task_owned i x t"
    using lock lock_owned_taskD [of i _ s t] get_taskD [of i s t]
    by (auto simp: task_owned_def split: option.splits)
  have chk: "projection_ack_checks (ack_of_receipt i r cur)"
    using assms cur id lock match by (auto simp: acknowledge_projection_def Let_def split: if_splits)
  show thesis
  proof (cases "get_acknowledgement i s")
    case (Some k)
    then show thesis
      using assms cur id lock match chk by (intro again [of k]) (auto simp: acknowledge_projection_def Let_def)
  next
    case None
    show thesis
    proof (cases "get_entity (rc_entity_uuid r) s")
      case none: None
      then show thesis using None assms cur id lock match chk by (simp add: acknowledge_projection_def Let_def)
    next
      case (Some e)
      then show thesis
        using None assms cur id lock match chk
        by (intro created [OF cur id t match None Some])
          (auto simp: acknowledge_projection_def Let_def split: if_splits)
    qed
  qed
qed

lemma ack_emits_receipt: "ack_emits (ack_of_receipt i r cur) = should_emit_domain_changed r"
  by (simp add: ack_emits_def ack_of_receipt_def should_emit_domain_changed_def)

lemma get_ackD: "get_acknowledgement i s = Some k \<Longrightarrow> k \<in> set (projection_acks s) \<and> k_task_id k = i"
  unfolding get_acknowledgement_def by (drule find_SomeD) simp

lemma entity_confirmed_simps [simp]:
  "e_entity_uuid (entity_confirmed r c e) = e_entity_uuid e"
  "e_source_id (entity_confirmed r c e) = e_source_id e"
  "e_source_item_id (entity_confirmed r c e) = e_source_item_id e"
  "e_projection_version (entity_confirmed r c e) = e_projection_version e"
  "e_confirmed_projection_version (entity_confirmed r c e)
     = max (e_confirmed_projection_version e) (rc_projection_version r)"
  by (simp_all add: entity_confirmed_def)

text \<open>The tables after a new acknowledgement.\<close>

definition acked :: "uuid \<Rightarrow> receipt \<Rightarrow> ts \<Rightarrow> db \<Rightarrow> db \<Rightarrow> bool" where
  "acked i r cur s s' \<longleftrightarrow>
     projection_tasks s' = upd_where (\<lambda>t. t_task_id t = i) (task_succeeded cur) (projection_tasks s)
     \<and> projection_acks s' = projection_acks s @ [ack_of_receipt i r cur]
     \<and> entities s' = upd_where (\<lambda>x. e_entity_uuid x = rc_entity_uuid r) (entity_confirmed r cur) (entities s)
     \<and> map c_projection_task_id (change_events s') = map c_projection_task_id (change_events s)
         @ (if should_emit_domain_changed r then [i] else [])"

lemma emit_acked:
  assumes "s1 = (upd_task i (task_succeeded cur) s)\<lparr>projection_acks := projection_acks s @ [ack_of_receipt i r cur],
          entities := upd_where (\<lambda>x. e_entity_uuid x = rc_entity_uuid r) (entity_confirmed r cur) (entities s)\<rparr>"
    and "emit_rows dec ci oi r ev cur s1 = Inr ((ce, oe), s')" and "rc_projection_task_id r = i"
  shows "acked i r cur s s'"
  using assms(2)
proof (cases rule: emit_rows_cases)
  case (emitted c v)
  then show ?thesis using assms(1,3) by (simp add: acked_def upd_task_def event_of_receipt_def)
next
  case silent
  then show ?thesis using assms(1) by (simp add: acked_def upd_task_def)
qed

lemma acked_inv:
  assumes inv: "proj_inv s" and a: "acked i r cur s s'"
    and t: "t \<in> set (projection_tasks s)" "t_task_id t = i"
      "t_entity_uuid t = rc_entity_uuid r" "t_projection_version t = rc_projection_version r"
    and no: "get_acknowledgement i s = None" and e: "get_entity (rc_entity_uuid r) s = Some e"
    and chk: "entity_index_checks (entity_confirmed r cur e)"
  shows "proj_inv s'"
proof -
  let ?k = "ack_of_receipt i r cur"
  note d = a [unfolded acked_def]
  have einv: "entities_inv s" and tinv: "tasks_inv s" and ainv: "acks_inv s"
    using inv by (simp_all add: proj_inv_def)
  have en: "e \<in> set (entities s)" "e_entity_uuid e = rc_entity_uuid r" using get_entityD [OF e] by simp_all
  have only_e: "x = e" if "x \<in> set (entities s)" "e_entity_uuid x = rc_entity_uuid r" for x
    using entity_uuid_inj [OF einv that(1) en(1)] that(2) en(2) by simp
  have only_t: "x = t" if "x \<in> set (projection_tasks s)" "t_task_id x = i" for x
    using distinct_key_inj [OF proj_inv_ids [OF inv] that(1) t(1)] that(2) t(2) by simp
  have k: "k_task_id ?k = i" "k_entity_uuid ?k = rc_entity_uuid r"
    "k_projection_version ?k = rc_projection_version r"
    by (simp_all add: ack_of_receipt_def)
  have "entities_inv (s\<lparr>entities := entities s'\<rparr>)"
    using d einv chk only_e by (auto intro!: entities_inv_upd)
  then have E: "entities_inv s'" by (simp add: entities_inv_def)
  have ids: "e_entity_uuid ` set (entities s') = e_entity_uuid ` set (entities s)"
  proof -
    have "map e_entity_uuid (entities s') = map e_entity_uuid (entities s)"
      using d by (simp add: map_upd_where)
    then show ?thesis by (metis list.set_map)
  qed
  have same: "same_task x (task_succeeded cur x)" for x by simp
  have tchk: "list_all projection_task_checks (projection_tasks s')"
    using d tinv by (auto intro!: list_all_upd_where
        simp: tasks_inv_def task_succeeded_def projection_task_checks_def lease_consistent_def)
  have vers: "map t_projection_version (entity_tasks s' (e_entity_uuid x)) = [1..e_projection_version x]"
    if "x \<in> set (entities s')" for x
    using that d tinv
    by (auto simp: entity_tasks_def entity_tasks_upd tasks_inv_def set_upd_where split: if_splits)
  have T: "tasks_inv s'"
    unfolding tasks_inv_def ids
  proof (intro conjI ballI)
    show "distinct (map t_task_id (projection_tasks s'))" "distinct (map t_parse_key (projection_tasks s'))"
      using d tinv by (simp_all add: tasks_inv_def map_upd_where task_succeeded_def)
    show "t_entity_uuid x \<in> e_entity_uuid ` set (entities s)" if "x \<in> set (projection_tasks s')" for x
      using that d tinv by (auto simp: tasks_inv_def set_upd_where task_succeeded_def)
  qed (simp_all only: tchk vers)
  have ts: "set (projection_tasks s') = (set (projection_tasks s) - {t}) \<union> {task_succeeded cur t}"
  proof -
    have "{x \<in> set (projection_tasks s). t_task_id x = i} = {t}"
      and "{x \<in> set (projection_tasks s). t_task_id x \<noteq> i} = set (projection_tasks s) - {t}"
      using only_t t(1,2) by blast+
    then show ?thesis using d by (simp add: set_upd_where)
  qed
  have "i \<notin> k_task_id ` set (projection_acks s)"
    using no by (auto simp: get_acknowledgement_def find_None_iff)
  then have dist: "distinct (map k_task_id (projection_acks s'))"
    using d ainv k by (simp add: acks_inv_def)
  have A2: "t_task_id x \<in> k_task_id ` set (projection_acks s')"
    if "x \<in> set (projection_tasks s')" "t_status x = Succeeded" for x
    using that ts ainv d k t(2) by (auto simp: acks_inv_def task_succeeded_def)
  have keep: "x = t \<or> x \<in> set (projection_tasks s')" if "x \<in> set (projection_tasks s)" for x
    using that ts by blast
  have A3: "\<exists>x\<in>set (projection_tasks s'). t_task_id x = k_task_id y \<and> t_status x = Succeeded
      \<and> t_entity_uuid x = k_entity_uuid y \<and> t_projection_version x = k_projection_version y"
    if y: "y \<in> set (projection_acks s')" for y
  proof (cases "y = ?k")
    case True
    have "task_succeeded cur t \<in> set (projection_tasks s')" using ts by simp
    then show ?thesis using True k t by (intro bexI [of _ "task_succeeded cur t"]) (simp_all add: task_succeeded_def)
  next
    case False
    then have y': "y \<in> set (projection_acks s)" using y d by simp
    then obtain x where x: "x \<in> set (projection_tasks s)" "t_task_id x = k_task_id y"
      "t_status x = Succeeded" "t_entity_uuid x = k_entity_uuid y"
      "t_projection_version x = k_projection_version y"
      using ainv unfolding acks_inv_def by blast
    have "k_task_id y \<noteq> i" using y' \<open>i \<notin> k_task_id ` set (projection_acks s)\<close> by blast
    then have "x \<noteq> t" using x(2) t(2) by auto
    then have "x \<in> set (projection_tasks s')" using keep [OF x(1)] by simp
    then show ?thesis using x(2-5) by (intro bexI [of _ x] conjI)
  qed
  have A4: "e_confirmed_projection_version x = max_version (entity_acks s' (e_entity_uuid x))"
    if x: "x \<in> set (entities s')" for x
  proof -
    have old: "e_confirmed_projection_version y = max_version (entity_acks s (e_entity_uuid y))"
      if "y \<in> set (entities s)" for y
      using ainv that by (simp add: acks_inv_def)
    obtain y where y: "y \<in> set (entities s)"
      "x = (if e_entity_uuid y = rc_entity_uuid r then entity_confirmed r cur y else y)"
      using x d by (auto simp: upd_where_def)
    show ?thesis using old [OF y(1)] y(2) d k by (simp add: entity_acks_def)
  qed
  have A5: "map c_projection_task_id (change_events s') = map k_task_id (filter ack_emits (projection_acks s'))"
    using d ainv k by (simp add: acks_inv_def ack_emits_receipt)
  have "acks_inv s'"
    unfolding acks_inv_def using dist A2 A3 A4 A5 by blast
  then show ?thesis using E T by (simp add: proj_inv_def)
qed

lemma ack_inv:
  assumes "proj_inv s" and "acknowledge_projection dec ci oi i r ev w c now s = Inr (res, s')"
  shows "proj_inv s'"
  using assms(2)
proof (cases rule: ack_cases)
  case again
  then show ?thesis using assms(1) by simp
next
  case (created cur t e s1)
  have "acked i r cur s s'" by (rule emit_acked [OF created(11,12,2)])
  then show ?thesis
    by (rule acked_inv [OF assms(1) _ created(3,4,6-10)])
qed

lemma upsert_proj_inv:
  assumes inv: "proj_inv s" and "upsert_entity i v ident c now s = Inr (e, s')"
  shows "proj_inv s'"
  using assms(2)
proof (cases rule: upsert_cases)
  case existing
  then show ?thesis using inv by simp
next
  case (created cur)
  have "entities_inv s'" using upsert_inv [OF _ assms(2)] inv by (simp add: proj_inv_def)
  moreover have noT: "t_entity_uuid t \<noteq> i" if "t \<in> set (projection_tasks s)" for t
    using inv that created(4) by (auto simp: proj_inv_def tasks_inv_def)
  moreover have "k_entity_uuid k \<noteq> i" if "k \<in> set (projection_acks s)" for k
    using inv that noT by (fastforce simp: proj_inv_def acks_inv_def)
  ultimately have "entity_tasks s i = []" "entity_acks s i = []"
    by (auto simp: entity_tasks_def entity_acks_def filter_empty_conv)
  then show ?thesis
    using inv created \<open>entities_inv s'\<close>
    by (auto simp: proj_inv_def tasks_inv_def acks_inv_def entity_tasks_def entity_acks_def max_version_def)
qed

lemma bind_proj_inv:
  assumes inv: "proj_inv s" and "set_mongo_document i col d c now s = Inr (e, s')"
  shows "proj_inv s'"
proof -
  obtain cur where s': "s' = s\<lparr>entities := upd_where (\<lambda>x. e_entity_uuid x = i) (mongo_bound col d cur) (entities s)\<rparr>"
    using assms(2) by (auto simp: set_mongo_document_def split: option.splits)
  have "entities_inv s'"
    unfolding s' using inv
    by (intro entities_inv_upd) (auto simp: proj_inv_def mongo_bound_def entity_index_checks_def)
  moreover have "map e_entity_uuid (entities s') = map e_entity_uuid (entities s)"
    unfolding s' by (simp add: map_upd_where mongo_bound_def)
  then have "e_entity_uuid ` set (entities s') = e_entity_uuid ` set (entities s)" by (metis list.set_map)
  ultimately show ?thesis
    using inv unfolding proj_inv_def tasks_inv_def acks_inv_def
    by (auto simp: s' set_upd_where mongo_bound_def entity_tasks_def entity_acks_def)
qed

lemma failure_proj_inv:
  "proj_inv s \<Longrightarrow> record_parse_failure i a c now s = Inr (p, s') \<Longrightarrow> proj_inv s'"
  by (auto simp: record_parse_failure_def split: if_splits dest!: insert_parse_attempt_tables)

lemmas task_move_rules = claim_moves heartbeat_moves retry_moves release_moves quarantine_moves recover_moves

lemma proj_step_inv:
  assumes "proj_inv s" and "proj_step p s = Inr s'"
  shows "proj_inv s'"
  using assms
  by (cases p) (auto dest: upsert_proj_inv bind_proj_inv record_inv failure_proj_inv ack_inv
      task_moves_inv [OF _ claim_moves] task_moves_inv [OF _ heartbeat_moves] task_moves_inv [OF _ retry_moves]
      task_moves_inv [OF _ release_moves] task_moves_inv [OF _ quarantine_moves] task_moves_inv [OF _ recover_moves])

interpretation projections: invariant_system proj_step proj_inv
  by unfold_locales (rule proj_step_inv)

section \<open>The task queue follows the lease protocol\<close>

lemma lease_step_same_tasks:
  "projection_tasks s' = projection_tasks s \<Longrightarrow> lease_step x (task_lease s i) (task_lease s' i)"
  by (simp add: task_lease_def get_projection_task_def ls_same)

lemma record_lease:
  assumes "record_parse_result sha enc nv ai qi ti oi a ref ok tc sv pr m nb c now s = Inr (r, s')"
  shows "lease_step x (task_lease s i) (task_lease s' i)"
  using assms
proof (cases rule: record_cases)
  case existing
  then show ?thesis by (simp add: ls_same)
next
  case (created entity cur s1)
  then have "projection_tasks s' = projection_tasks s @ [pr_task r]" "t_status (pr_task r) = Pending"
    by (auto simp: issued_def)
  then show ?thesis
    by (cases "find (\<lambda>t. t_task_id t = i) (projection_tasks s)")
      (auto simp: task_lease_def get_projection_task_def find_append_rows task_lease_state_def
        intro: lease_step_intros)
qed

lemma ack_lease:
  assumes inv: "proj_inv s" and "acknowledge_projection dec ci oi j r ev w c now s = Inr (res, s')"
  shows "lease_step w (task_lease s i) (task_lease s' i)"
  using assms(2)
proof (cases rule: ack_cases)
  case again
  then show ?thesis by (simp add: ls_same)
next
  case (created cur t e s1)
  have "projection_tasks s' = upd_where (\<lambda>t. t_task_id t = j) (task_succeeded cur) (projection_tasks s)"
    using emit_acked [OF created(11,12,2)] by (simp add: acked_def)
  then have "get_projection_task i s' = map_option (\<lambda>t. if t_task_id t = j then task_succeeded cur t else t)
      (get_projection_task i s)"
    using get_task_upd [where f = "task_succeeded cur" and i = i and s = s and q = "\<lambda>t. t_task_id t = j"]
    by (simp add: get_projection_task_def)
  moreover have "x = t" if "x \<in> set (projection_tasks s)" "t_task_id x = j" for x
    using distinct_key_inj [OF proj_inv_ids [OF inv] that(1) created(3)] that(2) created(4) by simp
  moreover have "lease_step w (task_lease_state t) Done"
  proof (cases w)
    case None
    then show ?thesis by (cases "task_lease_state t") (auto simp: task_lease_state_def split: job_status.splits option.splits)
  next
    case (Some v)
    then show ?thesis using created(5) by (simp add: task_owned_def task_lease_state_def)
  qed
  ultimately show ?thesis
    using get_taskD [of i s]
    by (cases "get_projection_task i s")
      (auto simp: task_lease_def task_succeeded_def task_lease_state_def intro: ls_same)
qed

lemma other_tables_lease:
  "upsert_entity k v ident c now s = Inr (e, s') \<Longrightarrow> lease_step x (task_lease s i) (task_lease s' i)"
  "set_mongo_document k col d c now s = Inr (e, s') \<Longrightarrow> lease_step x (task_lease s i) (task_lease s' i)"
  "record_parse_failure k a c now s = Inr (p, s') \<Longrightarrow> lease_step x (task_lease s i) (task_lease s' i)"
  by (rule lease_step_same_tasks, auto simp: set_mongo_document_def record_parse_failure_def
      split: option.splits if_splits elim!: upsert_cases dest!: insert_parse_attempt_tables)+

lemma proj_step_lease:
  assumes inv: "proj_inv s" and step: "proj_step p s = Inr s'"
  shows "lease_step (proj_actor p) (task_lease s i) (task_lease s' i)"
  using step
  by (cases p) (auto intro: record_lease ack_lease [OF inv] other_tables_lease
      task_moves_lease [OF claim_moves [OF inv]] task_moves_lease [OF heartbeat_moves]
      task_moves_lease [OF retry_moves [OF inv]] task_moves_lease [OF release_moves]
      task_moves_lease [OF quarantine_moves [OF inv]] task_moves_lease [OF recover_moves [OF inv]])

interpretation task_leases: lease_protocol proj_step proj_inv task_lease proj_actor
  by unfold_locales (fact proj_step_inv, fact proj_step_lease)

section \<open>What grows over a run\<close>

text \<open>Acknowledgements are only added, entities and tasks are never removed.\<close>

definition extends :: "db \<Rightarrow> db \<Rightarrow> bool" where
  "extends s s' \<longleftrightarrow> (\<exists>ks. projection_acks s' = projection_acks s @ ks)
     \<and> (\<forall>i e. get_entity i s = Some e \<longrightarrow> (\<exists>e'. get_entity i s' = Some e'))
     \<and> (\<forall>i t. get_projection_task i s = Some t \<longrightarrow>
          (\<exists>t'. get_projection_task i s' = Some t' \<and> same_task t t'))"

lemma extends_refl [simp]: "extends s s"
  by (simp add: extends_def)

lemma extends_trans: "extends a b \<Longrightarrow> extends b c \<Longrightarrow> extends a c"
  unfolding extends_def by (elim conjE, intro conjI) (fastforce, blast, blast intro: same_task_trans)

lemma extends_same:
  "projection_acks s' = projection_acks s \<Longrightarrow> entities s' = entities s \<Longrightarrow>
   projection_tasks s' = projection_tasks s \<Longrightarrow> extends s s'"
  by (simp add: extends_def get_entity_def get_projection_task_def)

lemma moves_extends: "task_moves a s s' \<Longrightarrow> extends s s'"
  using task_moves_get [of a s s'] by (auto simp: extends_def task_moves_def get_entity_def)

lemma find_snoc: "find p xs = Some x \<Longrightarrow> find p (xs @ ys) = Some x"
  by (simp add: find_append_rows)

lemma issued_extends:
  assumes "issued entity r cur s s'" shows "extends s s'"
  using assms
  by (auto simp: issued_def extends_def get_entity_def get_projection_task_def find_append_rows
      find_upd_where version_issued_def)

lemma acked_extends:
  assumes "acked i r cur s s'" shows "extends s s'"
proof -
  have "get_projection_task j s' = map_option (\<lambda>t. if t_task_id t = i then task_succeeded cur t else t)
      (get_projection_task j s)" for j
    using assms get_task_upd [where f = "task_succeeded cur" and i = j and s = s and q = "\<lambda>t. t_task_id t = i"]
    by (simp add: acked_def get_projection_task_def)
  then show ?thesis
    using assms by (auto simp: acked_def extends_def get_entity_def find_upd_where)
qed

lemma record_extends:
  assumes "record_parse_result sha enc nv ai qi ti oi a ref ok tc sv pr m nb c now s = Inr (r, s')"
  shows "extends s s'"
  using assms
proof (cases rule: record_cases)
  case (created entity cur s1)
  then have "extends s s1" by (auto intro!: extends_same)
  then show ?thesis using issued_extends [OF created(3)] extends_trans by blast
qed simp

lemma ack_extends:
  assumes "acknowledge_projection dec ci oi i r ev w c now s = Inr (res, s')"
  shows "extends s s'"
  using assms
proof (cases rule: ack_cases)
  case (created cur t e s1)
  then show ?thesis using acked_extends [OF emit_acked [OF created(11,12,2)]] by simp
qed simp

lemma entity_ops_extend:
  "upsert_entity k v ident c now s = Inr (e, s') \<Longrightarrow> extends s s'"
  "set_mongo_document k col d c now s = Inr (e, s') \<Longrightarrow> extends s s'"
  "record_parse_failure k a c now s = Inr (p, s') \<Longrightarrow> extends s s'"
  by (auto simp: extends_def get_entity_def get_projection_task_def set_mongo_document_def
      record_parse_failure_def find_append_rows find_upd_where mongo_bound_def
      split: option.splits if_splits elim!: upsert_cases dest!: insert_parse_attempt_tables)

lemma proj_step_extends:
  assumes "proj_inv s" and "proj_step p s = Inr s'"
  shows "extends s s'"
  using assms
  by (cases p) (auto dest: entity_ops_extend record_extends ack_extends
      moves_extends [OF claim_moves] moves_extends [OF heartbeat_moves] moves_extends [OF retry_moves]
      moves_extends [OF release_moves] moves_extends [OF quarantine_moves] moves_extends [OF recover_moves])

lemma proj_run_extends: "proj_inv s \<Longrightarrow> extends s (run_ops proj_step ops s)"
proof (induction ops arbitrary: s)
  case (Cons p ops)
  show ?case
  proof (cases "proj_step p s")
    case (Inr s')
    then show ?thesis
      using Cons.IH [OF proj_step_inv [OF Cons.prems Inr]] proj_step_extends [OF Cons.prems Inr]
        extends_trans by auto
  qed (use Cons in simp)
qed simp

lemma max_version_prefix: "max_version xs \<le> max_version (xs @ ys)"
proof -
  have "max_version xs \<le> foldr (\<lambda>k. max (k_projection_version k)) xs n" if "0 \<le> n" for n
    unfolding max_version_def using that by (induction xs) (auto simp: le_max_iff_disj)
  moreover have "0 \<le> max_version ys"
    unfolding max_version_def by (induction ys) (auto simp: le_max_iff_disj)
  ultimately show ?thesis unfolding max_version_def foldr_append by blast
qed

section \<open>Properties of the projection pipeline\<close>

text \<open>
  C17. Versions are gap-free: whatever is recorded, claimed, retried and acknowledged, the
  tasks of an entity carry the projection versions \<open>1, 2, \<dots>, projection_version\<close>, each
  exactly once, in the order in which they were issued.
\<close>

theorem versions_are_gap_free:
  assumes "proj_inv s" and "e \<in> set (entities (run_ops proj_step ops s))"
  shows "map t_projection_version (filter (\<lambda>t. t_entity_uuid t = e_entity_uuid e)
      (projection_tasks (run_ops proj_step ops s))) = [1..e_projection_version e]"
  using projections.run_inv [OF assms(1)] assms(2)
  by (simp add: proj_inv_def tasks_inv_def entity_tasks_def)

text \<open>A source item, its entity, and a parse of it, used by the witnesses.\<close>

definition demo_identity :: entity_identity where
  "demo_identity = \<lparr>ei_source_id = ''rst'', ei_source_item_id = ''42'', ei_domain = Vehicle,
     ei_entity_kind = VehicleListing, ei_identity_hash = None, ei_canonical_url = None\<rparr>"

definition demo_ref :: normalized_artifact_ref where
  "demo_ref = \<lparr>ar_uri = ''s3://b/k'', ar_sha256 = replicate 64 (CHR ''a''), ar_size_bytes = 2,
     ar_media_type = ''application/json'', ar_schema_version = ''1.0'', ar_entity_uuid = 5,
     ar_domain = Vehicle, ar_parser_version = ''p1'', ar_fetch_id = 9,
     ar_raw_sha256 = replicate 64 (CHR ''b''), ar_raw_uri = ''s3://b/raw'', ar_produced_at = 0\<rparr>"

definition demo_attempt :: parse_attempt_record where
  "demo_attempt = \<lparr>ap_raw_sha256 = replicate 64 (CHR ''b''), ap_parser_version = ''p1'',
     ap_outcome = ''succeeded'', ap_domain = ''vehicle'', ap_fetch_id = Some 9, ap_job_id = None,
     ap_source_id = None, ap_records_count = 1, ap_validation_errors_count = 0,
     ap_error_code = None, ap_error_message = None, ap_started_at = None, ap_finished_at = None\<rparr>"

definition demo_receipt :: receipt where
  "demo_receipt = \<lparr>rc_projection_task_id = 33, rc_entity_uuid = 5, rc_projection_version = 1,
     rc_target_collection = ''vehicles'', rc_document_id = 77, rc_applied_to_current = True,
     rc_state_changed = True, rc_previous_version = None, rc_previous_hash = None,
     rc_result_version = 1, rc_result_hash = ''v1:'' @ replicate 64 (CHR ''c''),
     rc_event_id = Some 55, rc_event_bytes = Some ''{}'', rc_event_media_type = Some ''application/json'',
     rc_event_sha256 = Some (replicate 64 (CHR ''d'')), rc_event_artifact = None,
     rc_committed_at = 3, rc_cluster_time = ''1:1''\<rparr>"

definition demo_changed :: domain_changed_event where
  "demo_changed = \<lparr>dc_event_id = 55, dc_event_type = ''vehicle.listing.changed'',
     dc_payload_schema_version = ''1.0''\<rparr>"

abbreviation "demo_sha \<equiv> (\<lambda>_. replicate 64 (CHR ''e''))"
abbreviation "demo_upsert \<equiv> PUpsert 5 (\<lambda>_. True) demo_identity 0 (utc 0)"
abbreviation "demo_record \<equiv> PRecord demo_sha (\<lambda>_. ''{}'') (\<lambda>_. Inl DataError) 31 32 33 34
   demo_attempt demo_ref ''k'' ''vehicles'' ''1.0'' 0 5 None 0 (utc 1)"
abbreviation "demo_ack \<equiv> PAck (\<lambda>_. Inr demo_changed) 41 42 33 demo_receipt None None 0 (utc 4)"

lemma proj_inv_empty [simp]: "proj_inv empty_db"
  by (simp add: proj_inv_def entities_inv_def tasks_inv_def acks_inv_def)

definition demo_projected :: db where
  "demo_projected = run_ops proj_step [demo_upsert, demo_record] empty_db"

lemma demo_projected_inv [simp]: "proj_inv demo_projected"
  unfolding demo_projected_def by (rule projections.run_inv) simp

lemma demo_projected_rows:
  "map e_projection_version (entities demo_projected) = [1]"
  "map t_task_id (projection_tasks demo_projected) = [33]"
  by code_simp+

theorem versions_are_gap_free_witness:
  "\<exists>e\<in>set (entities (run_ops proj_step [demo_upsert, demo_record] empty_db)).
     map t_projection_version (filter (\<lambda>t. t_entity_uuid t = e_entity_uuid e)
       (projection_tasks (run_ops proj_step [demo_upsert, demo_record] empty_db))) = [1..1]"
proof -
  obtain e where e: "e \<in> set (entities demo_projected)" "e_projection_version e = 1"
    using demo_projected_rows(1) by (cases "entities demo_projected") auto
  show ?thesis
    using versions_are_gap_free [OF proj_inv_empty e(1) [unfolded demo_projected_def]] e
    by (intro bexI [of _ e]) (simp_all add: demo_projected_def del: run_ops.simps)
qed

text \<open>
  C18. The confirmed version is the largest acknowledged one and never decreases: out-of-order
  acknowledgements (3, 1, 2) cannot lower it, and it never passes the issued version.
\<close>

theorem confirmed_version_is_monotone:
  assumes "proj_inv s" and "get_entity i s = Some e"
  shows "\<exists>e'. get_entity i (run_ops proj_step ops s) = Some e'
     \<and> e_confirmed_projection_version e \<le> e_confirmed_projection_version e'
     \<and> e_confirmed_projection_version e' \<le> e_projection_version e'
     \<and> e_confirmed_projection_version e'
         = Max (insert 0 (k_projection_version ` set (entity_acks (run_ops proj_step ops s) i)))"
proof -
  let ?t = "run_ops proj_step ops s"
  have ext: "extends s ?t" by (rule proj_run_extends [OF assms(1)])
  then obtain e' where e': "get_entity i ?t = Some e'" using assms(2) unfolding extends_def by blast
  obtain ks where ks: "projection_acks ?t = projection_acks s @ ks" using ext unfolding extends_def by blast
  have inv: "proj_inv ?t" by (rule projections.run_inv [OF assms(1)])
  have conf: "e_confirmed_projection_version x = max_version (entity_acks u i)"
    if "proj_inv u" "get_entity i u = Some x" for u x
    using that get_entityD [OF that(2)] by (auto simp: proj_inv_def acks_inv_def)
  have "entity_index_checks e'"
    using inv get_entityD [OF e'] by (auto simp: proj_inv_def entities_inv_def list_all_iff)
  moreover have "max_version (entity_acks s i) \<le> max_version (entity_acks ?t i)"
    by (simp add: entity_acks_def ks max_version_prefix)
  moreover have "max_version xs = Max (insert 0 (k_projection_version ` set xs))" for xs
  proof (induction xs)
    case (Cons k xs)
    have "Max (insert 0 (insert a A)) = max a (Max (insert 0 A))" if "finite A" for a :: int and A
      unfolding insert_commute [of 0] using that by (intro Max_insert) simp_all
    then show ?case using Cons by (simp add: max_version_def del: Max_insert)
  qed (simp add: max_version_def)
  ultimately show ?thesis
    using e' conf [OF assms] conf [OF inv e'] by (simp add: entity_index_checks_def)
qed

lemma demo_entity:
  "map_option (\<lambda>e. (e_projection_version e, e_confirmed_projection_version e)) (get_entity 5 demo_projected)
     = Some (1, 0)"
  by code_simp

theorem confirmed_version_is_monotone_witness:
  "\<exists>e'. get_entity 5 (run_ops proj_step [demo_ack] demo_projected) = Some e'
     \<and> 0 \<le> e_confirmed_projection_version e' \<and> e_confirmed_projection_version e' \<le> e_projection_version e'"
proof -
  obtain e where e: "get_entity 5 demo_projected = Some e" "e_confirmed_projection_version e = 0"
    using demo_entity by auto
  show ?thesis using confirmed_version_is_monotone [OF demo_projected_inv e(1), of "[demo_ack]"] e(2) by auto
qed

text \<open>
  A projection task is \<open>succeeded\<close> exactly when it has an acknowledgement, and the
  acknowledgement carries the task's entity and version. (The reconciler's
  \<open>projection_completeness\<close> relies on this when it counts only the status.)
\<close>

theorem succeeded_iff_acknowledged:
  assumes "proj_inv s" and "t \<in> set (projection_tasks (run_ops proj_step ops s))"
  shows "t_status t = Succeeded \<longleftrightarrow>
    (\<exists>k\<in>set (projection_acks (run_ops proj_step ops s)). k_task_id k = t_task_id t
       \<and> k_entity_uuid k = t_entity_uuid t \<and> k_projection_version k = t_projection_version t)"
proof -
  let ?s = "run_ops proj_step ops s"
  have inv: "proj_inv ?s" by (rule projections.run_inv [OF assms(1)])
  have uniq: "x = t" if "x \<in> set (projection_tasks ?s)" "t_task_id x = t_task_id t" for x
    using distinct_key_inj [OF proj_inv_ids [OF inv] that(1) assms(2) that(2)] .
  have "t_task_id t \<in> k_task_id ` set (projection_acks ?s)" if "t_status t = Succeeded"
    using inv assms(2) that unfolding proj_inv_def acks_inv_def by blast
  then have a: "\<exists>k\<in>set (projection_acks ?s). k_task_id k = t_task_id t" if "t_status t = Succeeded"
    using that unfolding image_iff by metis
  have b: "t_status t = Succeeded \<and> t_entity_uuid t = k_entity_uuid k \<and> t_projection_version t = k_projection_version k"
    if k: "k \<in> set (projection_acks ?s)" "k_task_id k = t_task_id t" for k
  proof -
    obtain x where "x \<in> set (projection_tasks ?s)" "t_task_id x = k_task_id k" "t_status x = Succeeded"
      "t_entity_uuid x = k_entity_uuid k" "t_projection_version x = k_projection_version k"
      using inv k(1) unfolding proj_inv_def acks_inv_def by blast
    then show ?thesis using uniq [of x] k(2) by simp
  qed
  show ?thesis
  proof
    assume st: "t_status t = Succeeded"
    then obtain k where "k \<in> set (projection_acks ?s)" "k_task_id k = t_task_id t" using a by blast
    with b [OF this] show "\<exists>k\<in>set (projection_acks ?s). k_task_id k = t_task_id t
       \<and> k_entity_uuid k = t_entity_uuid t \<and> k_projection_version k = t_projection_version t"
      by (intro bexI [of _ k]) simp_all
  qed (use b in blast)
qed

theorem succeeded_iff_acknowledged_witness:
  "\<exists>t\<in>set (projection_tasks (run_ops proj_step [demo_ack] demo_projected)).
     t_status t = Succeeded \<and> (\<exists>k\<in>set (projection_acks (run_ops proj_step [demo_ack] demo_projected)).
        k_task_id k = t_task_id t)"
proof -
  let ?s = "run_ops proj_step [demo_ack] demo_projected"
  have "list_ex (\<lambda>t. t_status t = Succeeded) (projection_tasks ?s)" by code_simp
  then obtain t where t: "t \<in> set (projection_tasks ?s)" "t_status t = Succeeded" by (auto simp: list_ex_iff)
  show ?thesis using succeeded_iff_acknowledged [OF demo_projected_inv t(1)] t by blast
qed

text \<open>
  C19. \<open>domain.changed\<close> is emitted exactly once for every acknowledged receipt with
  \<open>applied_to_current AND state_changed\<close>, and for no other: the change events, in order, are
  those of these acknowledgements.
\<close>

theorem events_exactly_for_applied_changes:
  assumes "proj_inv s"
  shows "map c_projection_task_id (change_events (run_ops proj_step ops s))
      = map k_task_id (filter (\<lambda>k. k_applied_to_current k \<and> k_state_changed k)
          (projection_acks (run_ops proj_step ops s)))
    \<and> distinct (map c_projection_task_id (change_events (run_ops proj_step ops s)))"
proof -
  have "acks_inv (run_ops proj_step ops s)" using projections.run_inv [OF assms] by (simp add: proj_inv_def)
  then have "distinct (map k_task_id (projection_acks (run_ops proj_step ops s)))"
    and eq: "map c_projection_task_id (change_events (run_ops proj_step ops s))
      = map k_task_id (filter ack_emits (projection_acks (run_ops proj_step ops s)))"
    by (simp_all add: acks_inv_def)
  then have "distinct (map c_projection_task_id (change_events (run_ops proj_step ops s)))"
    by (simp only: distinct_map_filter)
  then show ?thesis using eq by (simp add: ack_emits_def [abs_def])
qed

theorem events_exactly_for_applied_changes_witness:
  "distinct (map c_projection_task_id (change_events (run_ops proj_step [demo_ack, demo_ack] demo_projected)))"
  using events_exactly_for_applied_changes [OF demo_projected_inv] by blast

text \<open>
  The published event is the receipt's, byte for byte: when an acknowledgement emits, the
  row of \<open>change_events\<close> and the row of \<open>outbox_events\<close> (topic domain) both carry the
  receipt's bytes, hash, entity and version, under the event id of the receipt.
\<close>

theorem acknowledged_event_is_the_receipt:
  assumes "acknowledge_projection dec ci oi i r ev w c now s = Inr (res, s')"
    and "ak_created res" and "should_emit_domain_changed r" and "receipt_consistent sha r"
  shows "\<exists>ce oe id. change_events s' = change_events s @ [ce] \<and> outbox_events s' = outbox_events s @ [oe]
     \<and> rc_event_id r = Some id \<and> c_event_id ce = id \<and> o_event_id oe = id
     \<and> c_event_bytes ce = rc_event_bytes r \<and> o_payload_bytes oe = rc_event_bytes r
     \<and> (\<forall>b. rc_event_bytes r = Some b \<longrightarrow> c_event_sha256 ce = sha b \<and> o_payload_sha256 oe = sha b)
     \<and> o_topic oe = Domain \<and> o_published_at oe = None \<and> o_aggregate_id oe = rc_entity_uuid r
     \<and> o_aggregate_version oe = rc_projection_version r"
proof -
  obtain id where id: "rc_event_id r = Some id"
    using assms(3,4) by (auto simp: receipt_consistent_def Let_def)
  have h: "receipt_event_sha256 r = Some (sha b)" if "rc_event_bytes r = Some b" for b
    using assms(4) that by (auto simp: receipt_consistent_def receipt_event_sha256_def Let_def)
  show ?thesis
    using assms(1)
  proof (cases rule: ack_cases)
    case again
    then show ?thesis using assms(2) by simp
  next
    case (created cur t e s1)
    from created(12) show ?thesis
    proof (cases rule: emit_rows_cases)
      case (emitted ce oe)
      note ev = emitted(5) [unfolded event_of_receipt_def]
      have "c_event_sha256 ce = sha b" if "rc_event_bytes r = Some b" for b
        using h [OF that] ev by simp
      then show ?thesis
        using emitted(4) ev id created(11)
        by (intro exI [of _ ce] exI [of _ oe] exI [of _ id]) (simp add: upd_task_def)
    next
      case silent
      then show ?thesis using assms(3) by simp
    qed
  qed
qed

lemma demo_ack_run:
  "\<exists>res s'. acknowledge_projection (\<lambda>_. Inr demo_changed) 41 42 33 demo_receipt None None 0 (utc 4) demo_projected
     = Inr (res, s') \<and> ak_created res"
proof -
  let ?r = "acknowledge_projection (\<lambda>_. Inr demo_changed) 41 42 33 demo_receipt None None 0 (utc 4) demo_projected"
  have "map_sum id (\<lambda>(res, s'). ak_created res) ?r = Inr True" by code_simp
  then show ?thesis by (cases ?r) auto
qed

theorem acknowledged_event_is_the_receipt_witness:
  "\<exists>res s' oe. acknowledge_projection (\<lambda>_. Inr demo_changed) 41 42 33 demo_receipt None None 0 (utc 4) demo_projected
     = Inr (res, s') \<and> outbox_events s' = outbox_events demo_projected @ [oe] \<and> o_payload_bytes oe = Some ''{}''"
proof -
  obtain res s' where run: "acknowledge_projection (\<lambda>_. Inr demo_changed) 41 42 33 demo_receipt None None 0
      (utc 4) demo_projected = Inr (res, s')" "ak_created res"
    using demo_ack_run by blast
  have "should_emit_domain_changed demo_receipt" "receipt_consistent (\<lambda>_. replicate 64 (CHR ''d'')) demo_receipt"
    by code_simp+
  from acknowledged_event_is_the_receipt [OF run this]
  show ?thesis using run(1) by (auto simp: demo_receipt_def)
qed

section \<open>Repeated acknowledgements\<close>

lemma require_same_receipt_self: "require_same_receipt (ack_of_receipt i r cur) r = Inr ()"
  by (simp add: require_same_receipt_def ack_of_receipt_def)

lemma ack_checks_time:
  "projection_ack_checks (ack_of_receipt i r cur) = projection_ack_checks (ack_of_receipt i r cur')"
  by (simp add: projection_ack_checks_def ack_of_receipt_def)

text \<open>What an acknowledgement that returns has checked.\<close>

lemma ack_guards:
  assumes inv: "proj_inv s" and run: "acknowledge_projection dec ci oi i r ev w c now s = Inr (res, s')"
  shows "rc_projection_task_id r = i \<and> projection_ack_checks (ack_of_receipt i r cur)
    \<and> (\<exists>t. get_projection_task i s = Some t \<and> t_entity_uuid t = rc_entity_uuid r
         \<and> t_projection_version t = rc_projection_version r)
    \<and> get_entity (rc_entity_uuid r) s \<noteq> None"
proof -
  let ?lock = "case w of Some x \<Rightarrow> lock_owned_task i x s
       | None \<Rightarrow> (case get_projection_task i s of None \<Rightarrow> Inl NotFoundError | Some t \<Rightarrow> Inr t)"
  obtain cur' t where g: "resolve_now c now = Inr cur'" "rc_projection_task_id r = i" "?lock = Inr t"
    "t_entity_uuid t = rc_entity_uuid r" "t_projection_version t = rc_projection_version r"
    "projection_ack_checks (ack_of_receipt i r cur')"
    using run unfolding acknowledge_projection_def bind_res_eq_Inr
    by (auto simp: Let_def split: if_splits)
  have "t \<in> set (projection_tasks s) \<and> t_task_id t = i"
    using g(3) lock_owned_taskD [of i _ s t] get_taskD [of i s t] by (auto simp: task_owned_def split: option.splits)
  then have "get_projection_task i s = Some t"
    using find_distinct_key [OF proj_inv_ids [OF inv], of t] by (simp add: get_projection_task_def)
  moreover have "get_entity (rc_entity_uuid r) s \<noteq> None"
    using run g by (auto simp: acknowledge_projection_def get_confirmed_version_def Let_def split: option.splits)
  ultimately show ?thesis using g ack_checks_time by blast
qed

lemma ack_stored:
  assumes "acknowledge_projection dec ci oi i r ev w c now s = Inr (res, s')"
  shows "get_acknowledgement i s' = Some (ak_acknowledgement res)
    \<and> require_same_receipt (ak_acknowledgement res) r = Inr ()"
  using assms
proof (cases rule: ack_cases)
  case (again k)
  then show ?thesis by simp
next
  case (created cur t e s1)
  have a: "acked i r cur s s'" by (rule emit_acked [OF created(11,12,2)])
  have "k_task_id (ack_of_receipt i r cur) = i" by (simp add: ack_of_receipt_def)
  then have "get_acknowledgement i s' = Some (ack_of_receipt i r cur)"
    using a created(8) by (simp add: acked_def get_acknowledgement_def find_append_rows)
  then show ?thesis using created(14) require_same_receipt_self by simp
qed

lemma ack_kept:
  assumes "get_acknowledgement i s = Some k" and "extends s s'"
  shows "get_acknowledgement i s' = Some k"
  using assms by (auto simp: extends_def get_acknowledgement_def find_append_rows)

text \<open>
  Acknowledging is idempotent and refuses a contradiction. Once a receipt has been
  acknowledged, then after any further run, acknowledging the same receipt again (as the reconciler
  does after a crash, with no owner) returns the stored acknowledgement, reports that nothing was
  created and leaves the database exactly as it is: no second event. A well-formed receipt of the
  same task that differs from the stored one is a \<open>ConflictError\<close>.
\<close>

theorem acknowledge_is_idempotent:
  assumes inv: "proj_inv s" and first: "acknowledge_projection dec ci oi i r ev w c now s = Inr (res, s1)"
    and now': "resolve_now c' now' = Inr cur'"
  shows "(\<exists>res2. acknowledge_projection dec' ci' oi' i r ev' None c' now' (run_ops proj_step ops s1)
        = Inr (res2, run_ops proj_step ops s1)
      \<and> ak_acknowledgement res2 = ak_acknowledgement res \<and> \<not> ak_created res2
      \<and> ak_change_event res2 = None \<and> ak_outbox_event res2 = None)
    \<and> (rc_projection_task_id r' = i \<and> projection_ack_checks (ack_of_receipt i r' cur')
       \<and> require_same_receipt (ak_acknowledgement res) r' \<noteq> Inr () \<longrightarrow>
       acknowledge_projection dec' ci' oi' i r' ev' None c' now' (run_ops proj_step ops s1)
         = Inl ConflictError)"
proof -
  let ?s = "run_ops proj_step ops s1"
  have inv1: "proj_inv s1" using proj_step_inv [OF inv, of "PAck dec ci oi i r ev w c now"] first by simp
  have ext: "extends s1 ?s" by (rule proj_run_extends [OF inv1])
  note g = ack_guards [OF inv first, of cur'] and st = ack_stored [OF first]
  have k: "get_acknowledgement i ?s = Some (ak_acknowledgement res)"
    by (rule ack_kept [OF _ ext]) (use st in simp)
  have e2: "extends s ?s" by (rule extends_trans [OF ack_extends [OF first] ext])
  obtain t0 where t0: "get_projection_task i s = Some t0" "t_entity_uuid t0 = rc_entity_uuid r"
    "t_projection_version t0 = rc_projection_version r" using g by blast
  obtain t where t: "get_projection_task i ?s = Some t" "t_entity_uuid t = rc_entity_uuid r"
    "t_projection_version t = rc_projection_version r"
    using e2 t0 unfolding extends_def same_task_def by metis
  obtain e where e: "get_entity (rc_entity_uuid r) ?s = Some e"
    using e2 g unfolding extends_def by (metis not_None_eq)
  have "acknowledge_projection dec' ci' oi' i r ev' None c' now' ?s
      = Inr (\<lparr>ak_acknowledgement = ak_acknowledgement res,
              ak_confirmed_projection_version = e_confirmed_projection_version e,
              ak_change_event = None, ak_outbox_event = None, ak_created = False\<rparr>, ?s)"
    using now' g t k e st by (simp add: acknowledge_projection_def get_confirmed_version_def Let_def)
  moreover have "require_same_receipt (ak_acknowledgement res) r' = Inl ConflictError"
    if "require_same_receipt (ak_acknowledgement res) r' \<noteq> Inr ()"
    using that by (simp add: require_same_receipt_def split: if_splits)
  ultimately show ?thesis
    using now' t k by (auto simp: acknowledge_projection_def Let_def)
qed

lemma demo_ack_returns:
  "\<exists>res s1. acknowledge_projection (\<lambda>_. Inr demo_changed) 41 42 33 demo_receipt None None 0 (utc 4) demo_projected
     = Inr (res, s1)"
proof -
  have "map_sum (\<lambda>_. ()) (\<lambda>_. ()) (acknowledge_projection (\<lambda>_. Inr demo_changed) 41 42 33 demo_receipt
      None None 0 (utc 4) demo_projected) = Inr ()" by code_simp
  then show ?thesis by (cases "acknowledge_projection (\<lambda>_. Inr demo_changed) 41 42 33 demo_receipt
      None None 0 (utc 4) demo_projected") auto
qed

theorem acknowledge_is_idempotent_witness:
  "\<exists>res s1 res2.
     acknowledge_projection (\<lambda>_. Inr demo_changed) 41 42 33 demo_receipt None None 0 (utc 4) demo_projected
       = Inr (res, s1)
     \<and> acknowledge_projection (\<lambda>_. Inl ValueError) 43 44 33 demo_receipt None None 0 (utc 9)
         (run_ops proj_step [demo_record] s1) = Inr (res2, run_ops proj_step [demo_record] s1)
     \<and> ak_acknowledgement res2 = ak_acknowledgement res"
proof -
  obtain res s1 where f: "acknowledge_projection (\<lambda>_. Inr demo_changed) 41 42 33 demo_receipt None None 0 (utc 4)
      demo_projected = Inr (res, s1)" using demo_ack_returns by blast
  have n: "resolve_now 0 (utc 9) = Inr 9" by simp
  from acknowledge_is_idempotent [OF demo_projected_inv f n, THEN conjunct1]
  show ?thesis using f by blast
qed

text \<open>
  Fencing of projections: while a projector holds the lease of a task, no operation issued for
  another projector, an acknowledgement included, takes it away, and that acknowledgement is
  refused with \<open>LeaseNotOwnedError\<close>.
\<close>

theorem projection_lease_is_fenced:
  assumes "proj_inv s" and "get_projection_task i s = Some t" and "t_status t = Leased"
    and "t_lease_owner t = Some w"
    and "\<And>p. p \<in> set ops \<Longrightarrow> \<exists>w'. proj_actor p = Some w' \<and> w' \<noteq> w"
    and "w' \<noteq> w" and "rc_projection_task_id r = i" and "resolve_now c now = Inr cur"
  shows "(\<exists>t'. get_projection_task i (run_ops proj_step ops s) = Some t'
       \<and> t_status t' = Leased \<and> t_lease_owner t' = Some w)
    \<and> acknowledge_projection dec ci oi i r ev (Some w') c now (run_ops proj_step ops s)
        = Inl LeaseNotOwnedError"
proof -
  let ?s = "run_ops proj_step ops s"
  have inv: "proj_inv ?s" by (rule projections.run_inv [OF assms(1)])
  have "task_lease s i = Held w" using assms(2-4) by (simp add: task_lease_def task_lease_state_def)
  then have "task_lease ?s i = Held w" using task_leases.fenced assms(1,5) by blast
  then obtain t' where t': "get_projection_task i ?s = Some t'" "task_lease_state t' = Held w"
    by (auto simp: task_lease_def split: option.splits)
  then have st: "t_status t' = Leased" "t_lease_owner t' = Some w"
    by (auto simp: task_lease_state_def split: job_status.splits option.splits)
  have "\<not> task_owned i w' x" if "x \<in> set (projection_tasks ?s)" for x
  proof
    assume o': "task_owned i w' x"
    then have "x = t'" using distinct_key_inj [OF proj_inv_ids [OF inv] that, of t'] get_taskD [OF t'(1)]
      by (simp add: task_owned_def)
    then show False using o' st(2) assms(6) by (simp add: task_owned_def)
  qed
  then have "find (task_owned i w') (projection_tasks ?s) = None" by (simp add: find_None_iff)
  then have "lock_owned_task i w' ?s = Inl LeaseNotOwnedError" by (simp add: lock_owned_task_def)
  then show ?thesis using t' st assms(7,8) by (simp add: acknowledge_projection_def)
qed

theorem projection_lease_is_fenced_witness:
  "acknowledge_projection (\<lambda>_. Inr demo_changed) 41 42 33 demo_receipt None (Some ''w2'') 0 (utc 6)
     (run_ops proj_step [PClaim [] ''w2'' 60 [] 5 0 (utc 3)]
       (run_ops proj_step [PClaim [] ''w1'' 60 [] 5 0 (utc 2)] demo_projected)) = Inl LeaseNotOwnedError"
proof -
  let ?s = "run_ops proj_step [PClaim [] ''w1'' 60 [] 5 0 (utc 2)] demo_projected"
  have inv: "proj_inv ?s" by (rule projections.run_inv [OF demo_projected_inv])
  have "map_option (\<lambda>t. (t_status t, t_lease_owner t)) (get_projection_task 33 ?s) = Some (Leased, Some ''w1'')"
    by code_simp
  then obtain t where t: "get_projection_task 33 ?s = Some t" "t_status t = Leased"
    "t_lease_owner t = Some ''w1''" by auto
  show ?thesis
    by (rule projection_lease_is_fenced [OF inv t, THEN conjunct2]) (auto simp: demo_receipt_def)
qed

end
