(* ===== verification/Outbox.thy ===== *)
theory Outbox
  imports Audit_Log Backoff
begin

text \<open>
  \<open>repositories/outbox.py\<close>: the transactional outbox and its publisher's operations.
  \<open>locked\<close> are the rows other transactions hold locked (\<open>SKIP LOCKED\<close>), \<open>r\<close> is
  the random draw of the backoff's jitter.
\<close>

section \<open>Operations\<close>

definition DELIVERY_ATTEMPTS_EXHAUSTED :: string where
  "DELIVERY_ATTEMPTS_EXHAUSTED = ''delivery_attempts_exhausted''"

definition deliverable :: "uuid list \<Rightarrow> topic list \<Rightarrow> ts \<Rightarrow> outbox_event \<Rightarrow> bool" where
  "deliverable locked topics current e \<longleftrightarrow>
     o_published_at e = None \<and> o_parked_at e = None \<and> o_available_at e \<le> current
     \<and> o_topic e \<in> set topics \<and> o_outbox_id e \<notin> set locked"

definition event_leased :: "int \<Rightarrow> int \<Rightarrow> ts \<Rightarrow> outbox_event \<Rightarrow> outbox_event" where
  "event_leased visibility_seconds max_delivery_attempts current e =
     (let exhausted = max_delivery_attempts \<le> o_delivery_attempts e
      in e\<lparr>o_available_at := (if exhausted then o_available_at e
                              else current + visibility_seconds * second),
           o_delivery_attempts := (if exhausted then o_delivery_attempts e
                              else o_delivery_attempts e + 1),
           o_parked_at := (if exhausted then Some current else o_parked_at e),
           o_last_error_code := (if exhausted then Some DELIVERY_ATTEMPTS_EXHAUSTED
                              else o_last_error_code e),
           o_updated_at := current\<rparr>)"

definition fetch_unpublished ::
  "uuid list \<Rightarrow> topic list \<Rightarrow> int \<Rightarrow> int \<Rightarrow> int \<Rightarrow> ts \<Rightarrow> datetime option \<Rightarrow> db
   \<Rightarrow> (outbox_event list \<times> db) res" where
  "fetch_unpublished locked topics limit visibility_seconds max_delivery_attempts utcnow now s =
     (if limit < 1 \<or> visibility_seconds < 1 \<or> max_delivery_attempts < 1 then Inl ValueError
      else if topics = [] then Inl ValueError
      else bind_res (resolve_now utcnow now) (\<lambda>current.
        let candidates = order_limit (\<lambda>e. (o_available_at e, o_event_id e)) (nat limit)
              (filter (deliverable locked topics current) (outbox_events s));
            rows = upd_selected o_outbox_id candidates
              (event_leased visibility_seconds max_delivery_attempts current) (outbox_events s);
            leased = returning o_outbox_id candidates rows;
            delivered = filter (\<lambda>e. o_parked_at e = None) leased
        in Inr (sort_key (\<lambda>e. (o_created_at e, o_event_id e)) delivered,
                s\<lparr>outbox_events := rows\<rparr>)))"

definition event_published :: "ts \<Rightarrow> outbox_event \<Rightarrow> outbox_event" where
  "event_published current e =
     e\<lparr>o_published_at := Some current, o_last_error_code := None, o_last_error_message := None,
       o_updated_at := current\<rparr>"

definition mark_published ::
  "uuid list \<Rightarrow> ts \<Rightarrow> datetime option \<Rightarrow> db \<Rightarrow> (nat \<times> db) res" where
  "mark_published outbox_ids utcnow now s =
     (if outbox_ids = [] then Inr (0, s)
      else bind_res (resolve_now utcnow now) (\<lambda>current.
        let target = (\<lambda>e. o_outbox_id e \<in> set outbox_ids \<and> o_published_at e = None)
        in Inr (length (filter target (outbox_events s)),
                s\<lparr>outbox_events := upd_where target (event_published current) (outbox_events s)\<rparr>)))"

definition get_outbox :: "uuid \<Rightarrow> db \<Rightarrow> outbox_event option" where
  "get_outbox i s = find (\<lambda>e. o_outbox_id e = i) (outbox_events s)"

definition event_failed ::
  "string \<Rightarrow> ustr option \<Rightarrow> backoff_policy option \<Rightarrow> rat \<Rightarrow> int \<Rightarrow> ts \<Rightarrow> outbox_event \<Rightarrow> outbox_event" where
  "event_failed error_code error_message policy r max_attempts current e =
     (let e1 = e\<lparr>o_attempts := o_attempts e + 1, o_last_error_code := Some error_code,
                 o_last_error_message := truncate_message error_message, o_updated_at := current\<rparr>
      in if max_attempts \<le> o_attempts e1 then e1\<lparr>o_parked_at := Some current\<rparr>
         else e1\<lparr>o_available_at := current
                + delay_for (case policy of None \<Rightarrow> default_backoff | Some p \<Rightarrow> p) (o_attempts e1) r\<rparr>)"

definition mark_failed ::
  "rat \<Rightarrow> uuid \<Rightarrow> string \<Rightarrow> ustr option \<Rightarrow> backoff_policy option \<Rightarrow> int \<Rightarrow> ts \<Rightarrow> datetime option \<Rightarrow> db
   \<Rightarrow> (outbox_event \<times> db) res" where
  "mark_failed r i error_code error_message policy max_attempts utcnow now s =
     (if max_attempts < 1 then Inl ValueError
      else bind_res (resolve_now utcnow now) (\<lambda>current.
        case get_outbox i s of
          None \<Rightarrow> Inl NotFoundError
        | Some e \<Rightarrow>
            if o_published_at e \<noteq> None \<or> o_parked_at e \<noteq> None then Inr (e, s)
            else Inr (event_failed error_code error_message policy r max_attempts current e,
                   s\<lparr>outbox_events := upd_where (\<lambda>x. o_outbox_id x = i)
                      (event_failed error_code error_message policy r max_attempts current)
                      (outbox_events s)\<rparr>)))"

definition parked_key :: "outbox_event \<Rightarrow> ts \<times> uuid" where
  "parked_key e = (case o_parked_at e of None \<Rightarrow> 0 | Some t \<Rightarrow> t, o_event_id e)"

definition list_parked :: "nat \<Rightarrow> db \<Rightarrow> outbox_event list" where
  "list_parked limit s = order_limit parked_key limit
     (filter (\<lambda>e. o_parked_at e \<noteq> None \<and> o_published_at e = None) (outbox_events s))"

definition event_unparked :: "ts \<Rightarrow> outbox_event \<Rightarrow> outbox_event" where
  "event_unparked current e =
     e\<lparr>o_parked_at := None, o_attempts := 0, o_delivery_attempts := 0, o_available_at := current,
       o_updated_at := current\<rparr>"

definition unpark ::
  "uuid \<Rightarrow> uuid \<Rightarrow> ustr \<Rightarrow> ustr \<Rightarrow> string option \<Rightarrow> ts \<Rightarrow> datetime option \<Rightarrow> db
   \<Rightarrow> (outbox_event \<times> db) res" where
  "unpark audit_id i actor reason request_id utcnow now s =
     bind_res (require_audit_context (Some actor) (Some reason)) (\<lambda>_.
     bind_res (resolve_now utcnow now) (\<lambda>current.
       case get_outbox i s of
         None \<Rightarrow> Inl NotFoundError
       | Some e \<Rightarrow>
           if o_parked_at e = None \<or> o_published_at e \<noteq> None then Inl InvalidTransitionError
           else bind_res (append_audit audit_id utcnow actor ''outbox.unpark'' ''outbox_event''
               (ResUuid (o_event_id e))
               (Some (JObj [(''parked_at'', jopt_ts (o_parked_at e)), (''attempts'', JInt (o_attempts e)),
                  (''delivery_attempts'', JInt (o_delivery_attempts e)),
                  (''last_error_code'', jopt_text (o_last_error_code e))]))
               (Some (JObj [(''parked_at'', JNull), (''attempts'', JInt 0),
                  (''delivery_attempts'', JInt 0), (''reason'', JStr reason)]))
               request_id None (Some (Aware current 0))
               (s\<lparr>outbox_events := upd_where (\<lambda>x. o_outbox_id x = i) (event_unparked current)
                   (outbox_events s)\<rparr>))
             (\<lambda>(_, s'). Inr (event_unparked current e, s'))))"

text \<open>The EXISTS sub-query: the command's task succeeded and has an acknowledgement.\<close>

definition acknowledged :: "db \<Rightarrow> uuid \<Rightarrow> bool" where
  "acknowledged s event_id \<longleftrightarrow>
     (\<exists>t\<in>set (projection_tasks s). t_task_id t = event_id \<and> t_status t = Succeeded
        \<and> (\<exists>k\<in>set (projection_acks s). k_task_id k = t_task_id t))"

definition purgeable :: "db \<Rightarrow> ts \<Rightarrow> outbox_event \<Rightarrow> bool" where
  "purgeable s cutoff e \<longleftrightarrow>
     (o_topic e = Domain \<and> (case o_published_at e of None \<Rightarrow> False | Some t \<Rightarrow> t < cutoff))
     \<or> (o_topic e = Internal \<and> o_created_at e < cutoff \<and> acknowledged s (o_event_id e))"

record purge_result =
  pr_deleted :: nat
  pr_last_event_id :: "uuid option"

definition purge_published ::
  "uuid list \<Rightarrow> duration \<Rightarrow> uuid option \<Rightarrow> int \<Rightarrow> ts \<Rightarrow> datetime option \<Rightarrow> db
   \<Rightarrow> (purge_result \<times> db) res" where
  "purge_published locked older_than after limit utcnow now s =
     (if limit < 1 then Inl ValueError
      else if older_than < 0 then Inl ValueError
      else bind_res (resolve_now utcnow now) (\<lambda>current.
        let cutoff = current - older_than;
            rows = order_limit o_event_id (nat limit)
              (filter (\<lambda>e. purgeable s cutoff e \<and> o_outbox_id e \<notin> set locked
                 \<and> (case after of None \<Rightarrow> True | Some a \<Rightarrow> a < o_event_id e)) (outbox_events s));
            doomed = (\<lambda>e. o_outbox_id e \<in> o_outbox_id ` set rows)
        in if rows = [] then Inr (\<lparr>pr_deleted = 0, pr_last_event_id = None\<rparr>, s)
           else Inr (\<lparr>pr_deleted = length (filter doomed (outbox_events s)),
                      pr_last_event_id = Some (Max (o_event_id ` set rows))\<rparr>,
                     s\<lparr>outbox_events := filter (\<lambda>e. \<not> doomed e) (outbox_events s)\<rparr>)))"

definition get_event :: "uuid \<Rightarrow> db \<Rightarrow> outbox_event option" where
  "get_event event_id s = find (\<lambda>e. o_event_id e = event_id) (outbox_events s)"

definition undelivered :: "outbox_event \<Rightarrow> bool" where
  "undelivered e \<longleftrightarrow> o_published_at e = None \<and> o_parked_at e = None"

definition count_backlog :: "topic option \<Rightarrow> db \<Rightarrow> nat" where
  "count_backlog topic s = length (filter (\<lambda>e. undelivered e
     \<and> (case topic of None \<Rightarrow> True | Some t \<Rightarrow> o_topic e = t)) (outbox_events s))"

definition oldest_unpublished_age ::
  "topic list \<Rightarrow> ts \<Rightarrow> datetime option \<Rightarrow> db \<Rightarrow> duration option res" where
  "oldest_unpublished_age topics utcnow now s =
     (if topics = [] then Inl ValueError
      else bind_res (resolve_now utcnow now) (\<lambda>current.
        let waiting = filter (\<lambda>e. undelivered e \<and> o_topic e \<in> set topics) (outbox_events s)
        in Inr (if waiting = [] then None
                else Some (current - Min (o_created_at ` set waiting)))))"

section \<open>The operations as one step function\<close>

datatype outbox_op =
    OFetch "uuid list" "topic list" int int int ts "datetime option"
  | OPublished "uuid list" ts "datetime option"
  | OFailed rat uuid string "ustr option" "backoff_policy option" int ts "datetime option"
  | OUnpark uuid uuid ustr ustr "string option" ts "datetime option"
  | OPurge "uuid list" duration "uuid option" int ts "datetime option"

fun outbox_step :: "outbox_op \<Rightarrow> db \<Rightarrow> db res" where
  "outbox_step (OFetch lk ts' n v m c now) s = drop_ret (fetch_unpublished lk ts' n v m c now s)"
| "outbox_step (OPublished ids c now) s = drop_ret (mark_published ids c now s)"
| "outbox_step (OFailed r i ec em p m c now) s = drop_ret (mark_failed r i ec em p m c now s)"
| "outbox_step (OUnpark a i ac re rq c now) s = drop_ret (unpark a i ac re rq c now s)"
| "outbox_step (OPurge lk d af n c now) s = drop_ret (purge_published lk d af n c now s)"

section \<open>Rows and invariant\<close>

definition outbox_inv :: "db \<Rightarrow> bool" where
  "outbox_inv s \<longleftrightarrow> distinct (map o_outbox_id (outbox_events s))
     \<and> distinct (map o_event_id (outbox_events s)) \<and> list_all outbox_event_checks (outbox_events s)"

text \<open>What no operation ever changes of an event: its identity, topic and payload.\<close>

definition same_event :: "outbox_event \<Rightarrow> outbox_event \<Rightarrow> bool" where
  "same_event a b \<longleftrightarrow> o_outbox_id a = o_outbox_id b \<and> o_event_id a = o_event_id b
     \<and> o_topic a = o_topic b \<and> o_event_type a = o_event_type b
     \<and> o_aggregate_id a = o_aggregate_id b \<and> o_aggregate_version a = o_aggregate_version b
     \<and> o_payload_schema_version a = o_payload_schema_version b
     \<and> o_payload_bytes a = o_payload_bytes b \<and> o_payload_media_type a = o_payload_media_type b
     \<and> o_payload_sha256 a = o_payload_sha256 b \<and> o_payload_artifact_uri a = o_payload_artifact_uri b
     \<and> o_created_at a = o_created_at b"

lemma same_event_refl [simp]: "same_event a a"
  by (simp add: same_event_def)

lemma same_event_trans: "same_event a b \<Longrightarrow> same_event b c \<Longrightarrow> same_event a c"
  by (simp add: same_event_def)

lemma same_event_updates [simp]:
  "same_event e (event_leased v m cur e)" "same_event e (event_published cur e)"
  "same_event e (event_failed ec em p r n cur e)" "same_event e (event_unparked cur e)"
  by (simp_all add: same_event_def event_leased_def event_published_def event_failed_def
      event_unparked_def Let_def)

lemma published_updates [simp]:
  "o_published_at (event_leased v m cur e) = o_published_at e"
  "o_published_at (event_failed ec em p r n cur e) = o_published_at e"
  "o_published_at (event_unparked cur e) = o_published_at e"
  by (simp_all add: event_leased_def event_failed_def event_unparked_def Let_def)

lemma get_outboxD: "get_outbox i s = Some e \<Longrightarrow> e \<in> set (outbox_events s) \<and> o_outbox_id e = i"
  unfolding get_outbox_def by (drule find_SomeD) simp

lemma get_outboxI:
  "outbox_inv s \<Longrightarrow> e \<in> set (outbox_events s) \<Longrightarrow> get_outbox (o_outbox_id e) s = Some e"
  unfolding get_outbox_def outbox_inv_def by (simp add: find_distinct_key)

lemma get_outbox_upd:
  assumes "\<And>e. same_event e (f e)"
  shows "get_outbox i (s\<lparr>outbox_events := upd_where q f (outbox_events s)\<rparr>)
    = map_option (\<lambda>e. if q e then f e else e) (get_outbox i s)"
  unfolding get_outbox_def using assms by (simp add: find_upd_where same_event_def)

lemma get_outbox_audit [simp]: "get_outbox i (s\<lparr>audit_logs := as\<rparr>) = get_outbox i s"
  by (simp add: get_outbox_def)

lemma outbox_inv_upd:
  assumes inv: "outbox_inv s" and same: "\<And>e. same_event e (f e)"
    and "\<And>e. outbox_event_checks e \<Longrightarrow> 0 \<le> o_attempts (f e) \<and> 0 \<le> o_delivery_attempts (f e)"
  shows "outbox_inv (s\<lparr>outbox_events := upd_where q f (outbox_events s)\<rparr>)"
proof -
  have "outbox_event_checks (f e)" if "outbox_event_checks e" for e
    using that same [of e] assms(3) [OF that] by (simp add: outbox_event_checks_def same_event_def)
  then have "list_all outbox_event_checks (upd_where q f (outbox_events s))"
    using inv by (intro list_all_upd_where) (simp_all add: outbox_inv_def)
  moreover have "map o_outbox_id (upd_where q f (outbox_events s)) = map o_outbox_id (outbox_events s)"
    and "map o_event_id (upd_where q f (outbox_events s)) = map o_event_id (outbox_events s)"
    using same by (simp_all add: map_upd_where same_event_def)
  ultimately show ?thesis using inv by (simp add: outbox_inv_def)
qed

section \<open>What each operation does to an event\<close>

abbreviation fetch_rows :: "uuid list \<Rightarrow> topic list \<Rightarrow> int \<Rightarrow> ts \<Rightarrow> db \<Rightarrow> outbox_event list" where
  "fetch_rows lk tps n cur s \<equiv> order_limit (\<lambda>e. (o_available_at e, o_event_id e)) (nat n)
     (filter (deliverable lk tps cur) (outbox_events s))"

lemma fetch_rowsD:
  "e \<in> set (fetch_rows lk tps n cur s) \<Longrightarrow> e \<in> set (outbox_events s) \<and> deliverable lk tps cur e"
  using in_order_limit by fastforce

lemma fetch_rows_subset: "set (fetch_rows lk tps n cur s) \<subseteq> set (outbox_events s)"
  using fetch_rowsD by blast

lemma outbox_ids: "outbox_inv s \<Longrightarrow> distinct (map o_outbox_id (outbox_events s))"
  by (simp add: outbox_inv_def)

lemma event_leased_id [simp]: "o_outbox_id (event_leased v m cur e) = o_outbox_id e"
  by (simp add: event_leased_def Let_def)

lemma fetch_cases:
  assumes "fetch_unpublished lk tps n v m c now s = Inr (es, s')"
  obtains cur where "resolve_now c now = Inr cur" "1 \<le> n" "1 \<le> v" "1 \<le> m" "tps \<noteq> []"
    "s' = s\<lparr>outbox_events := upd_selected o_outbox_id (fetch_rows lk tps n cur s)
       (event_leased v m cur) (outbox_events s)\<rparr>"
    "set es = set (filter (\<lambda>e. o_parked_at e = None)
       (returning o_outbox_id (fetch_rows lk tps n cur s) (outbox_events s')))"
  using assms by (auto simp: fetch_unpublished_def Let_def split: if_splits)

lemma fetch_get:
  assumes inv: "outbox_inv s" and run: "fetch_unpublished lk tps n v m c now s = Inr (es, s')"
    and e: "get_outbox i s = Some e" and cur: "resolve_now c now = Inr cur"
  shows "get_outbox i s' = Some (if e \<in> set (fetch_rows lk tps n cur s) then event_leased v m cur e else e)"
  using run
proof (cases rule: fetch_cases)
  case (1 cur')
  have sel: "o_outbox_id e \<in> o_outbox_id ` set (fetch_rows lk tps n cur s)
      \<longleftrightarrow> e \<in> set (fetch_rows lk tps n cur s)"
    using selected_iff [OF outbox_ids [OF inv] fetch_rows_subset] get_outboxD [OF e] by blast
  have "cur' = cur" using 1(1) cur by simp
  then show ?thesis
    using 1(6) e sel by (simp add: upd_selected_def get_outbox_upd)
qed

lemma fetch_delivered:
  assumes inv: "outbox_inv s" and run: "fetch_unpublished lk tps n v m c now s = Inr (es, s')"
    and cur: "resolve_now c now = Inr cur"
  shows "set es = event_leased v m cur ` {e \<in> set (fetch_rows lk tps n cur s). o_delivery_attempts e < m}"
  using run
proof (cases rule: fetch_cases)
  case (1 cur')
  have cur': "cur' = cur" using 1(1) cur by simp
  let ?sel = "fetch_rows lk tps n cur s"
  have "set (returning o_outbox_id ?sel (outbox_events s')) = event_leased v m cur ` set ?sel"
    using set_returning [OF outbox_ids [OF inv] fetch_rows_subset, of "event_leased v m cur"]
    unfolding 1(6) cur' by simp
  moreover have "o_parked_at (event_leased v m cur e) = None \<longleftrightarrow> o_delivery_attempts e < m"
    if "e \<in> set ?sel" for e
    using fetch_rowsD [OF that] by (auto simp: event_leased_def deliverable_def Let_def split: if_splits)
  ultimately show ?thesis unfolding 1(7) cur' by auto
qed

lemma mark_published_get:
  assumes "mark_published ids c now s = Inr (k, s')" and "get_outbox i s = Some e"
  shows "\<exists>cur. get_outbox i s' = Some (if i \<in> set ids \<and> o_published_at e = None then event_published cur e else e)"
  using assms get_outboxD [OF assms(2)]
  by (cases ids) (auto simp: mark_published_def Let_def get_outbox_upd)

lemma mark_failed_cases:
  assumes "mark_failed r j ec em p n c now s = Inr (x, s')"
  obtains y cur where "get_outbox j s = Some y"
    "s' = (if undelivered y then s\<lparr>outbox_events := upd_where (\<lambda>x. o_outbox_id x = j)
       (event_failed ec em p r n cur) (outbox_events s)\<rparr> else s)"
proof (cases "get_outbox j s")
  case None
  then show thesis using assms by (simp add: mark_failed_def split: if_splits)
next
  case (Some y)
  show thesis
  proof (cases "undelivered y")
    case True
    then have "o_published_at y = None" "o_parked_at y = None" by (simp_all add: undelivered_def)
    then show thesis using assms Some True that [of y] by (auto simp: mark_failed_def split: if_splits)
  next
    case False
    then have "\<not> (o_published_at y = None \<and> o_parked_at y = None)" by (simp add: undelivered_def)
    then have "s' = s" using assms Some by (auto simp: mark_failed_def split: if_splits)
    then show thesis using Some False that [of y] by simp
  qed
qed

lemma mark_failed_get:
  assumes "mark_failed r j ec em p n c now s = Inr (x, s')" and "get_outbox i s = Some e"
  shows "\<exists>cur. get_outbox i s' = Some (if i = j \<and> undelivered e
      then event_failed ec em p r n cur e else e)"
  using assms(1)
proof (cases rule: mark_failed_cases)
  case (1 y cur)
  then show ?thesis
    using assms(2) get_outboxD [OF assms(2)] by (cases "i = j") (auto simp: get_outbox_upd)
qed

lemma unpark_cases:
  assumes "unpark a j ac re rq c now s = Inr (x, s')"
  obtains y cur lg where "get_outbox j s = Some y" "o_parked_at y \<noteq> None" "o_published_at y = None"
    "s' = (s\<lparr>outbox_events := upd_where (\<lambda>x. o_outbox_id x = j) (event_unparked cur)
      (outbox_events s)\<rparr>)\<lparr>audit_logs := audit_logs s @ [lg]\<rparr>"
    "a_actor lg = ac" "a_action lg = ''outbox.unpark''" "a_resource_id lg = ResUuid (o_event_id y)"
    "x = event_unparked cur y" "resolve_now c now = Inr cur"
proof (cases "get_outbox j s")
  case None
  then show thesis using assms by (auto simp: unpark_def)
next
  case (Some y)
  show thesis
  proof (cases "o_parked_at y = None \<or> o_published_at y \<noteq> None")
    case True
    then show thesis using assms Some by (auto simp: unpark_def)
  next
    case False
    then show thesis
      using assms Some that [of y] by (auto simp: unpark_def dest!: append_audit_None)
  qed
qed

lemma unpark_get:
  assumes "unpark a j ac re rq c now s = Inr (x, s')" and "get_outbox i s = Some e"
  shows "\<exists>cur. get_outbox i s' = Some (if i = j then event_unparked cur e else e)"
  using assms(1)
proof (cases rule: unpark_cases)
  case (1 y cur lg)
  then show ?thesis using assms(2) get_outboxD [OF assms(2)] by (auto simp: get_outbox_upd)
qed

abbreviation purge_rows :: "uuid list \<Rightarrow> ts \<Rightarrow> uuid option \<Rightarrow> int \<Rightarrow> db \<Rightarrow> outbox_event list" where
  "purge_rows lk cutoff af n s \<equiv> order_limit o_event_id (nat n)
     (filter (\<lambda>e. purgeable s cutoff e \<and> o_outbox_id e \<notin> set lk
        \<and> (case af of None \<Rightarrow> True | Some a \<Rightarrow> a < o_event_id e)) (outbox_events s))"

lemma purge_cases:
  assumes "purge_published lk d af n c now s = Inr (r, s')"
  obtains cur where "resolve_now c now = Inr cur" "1 \<le> n" "0 \<le> d"
    "s' = s\<lparr>outbox_events := filter (\<lambda>e. o_outbox_id e \<notin> o_outbox_id ` set (purge_rows lk (cur - d) af n s))
        (outbox_events s)\<rparr>"
    "pr_deleted r = length (filter (\<lambda>e. o_outbox_id e \<in> o_outbox_id ` set (purge_rows lk (cur - d) af n s))
        (outbox_events s))"
    "pr_last_event_id r = (if purge_rows lk (cur - d) af n s = [] then None
        else Some (Max (o_event_id ` set (purge_rows lk (cur - d) af n s))))"
  using assms by (auto simp: purge_published_def Let_def split: if_splits)

lemma purge_get:
  assumes inv: "outbox_inv s" and run: "purge_published lk d af n c now s = Inr (r, s')"
    and e: "get_outbox i s = Some e"
  shows "get_outbox i s' = Some e
     \<or> (get_outbox i s' = None \<and> (\<exists>cur. resolve_now c now = Inr cur \<and> purgeable s (cur - d) e))"
  using run
proof (cases rule: purge_cases)
  case (1 cur)
  note ids = inv [unfolded outbox_inv_def, THEN conjunct1]
  have "P e" if "o_outbox_id e \<in> o_outbox_id ` set (order_limit o_event_id (nat n) (filter P (outbox_events s)))" for P
    using selected_row [OF ids _ that] get_outboxD [OF e] by blast
  note doomed = this
  have "find (\<lambda>x. o_outbox_id x = i) (filter (\<lambda>x. o_outbox_id x \<notin> X) es)
      = (if i \<in> X then None else find (\<lambda>x. o_outbox_id x = i) es)" for X es
    by (induction es) auto
  note gone = this
  show ?thesis
    using 1(1,4) doomed e get_outboxD [OF e] by (auto simp: get_outbox_def gone)
qed

text \<open>No operation of the outbox creates an event or touches the projection's tables.\<close>

lemma outbox_step_tables:
  assumes "outbox_step p s = Inr s'"
  shows "acknowledged s' = acknowledged s"
  using assms
  by (cases p) (auto simp: acknowledged_def mark_published_def Let_def split: if_splits
      elim!: fetch_cases mark_failed_cases unpark_cases purge_cases)

lemma find_upd_None:
  assumes "\<And>e. q (f e) = q e" shows "find q (upd_where r f xs) = None \<longleftrightarrow> find q xs = None"
  using assms by (simp add: find_upd_where)

lemma outbox_step_creates_nothing:
  assumes "outbox_step p s = Inr s'" and "get_outbox i s = None"
  shows "get_outbox i s' = None"
proof -
  have "get_outbox i (s\<lparr>outbox_events := filter Q (outbox_events s)\<rparr>) = None" for Q
    using assms(2) by (auto simp: get_outbox_def find_None_iff)
  moreover have "get_outbox i (s\<lparr>outbox_events := upd_where q f (outbox_events s)\<rparr>) = None"
    if "\<And>e. same_event e (f e)" for q f
    using assms(2) that by (simp add: get_outbox_upd)
  ultimately show ?thesis
    using assms
    by (cases p) (auto simp: mark_published_def upd_selected_def Let_def split: if_splits
        elim!: fetch_cases mark_failed_cases unpark_cases purge_cases)
qed

lemma outbox_step_inv:
  assumes inv: "outbox_inv s" and step: "outbox_step p s = Inr s'"
  shows "outbox_inv s'"
proof -
  have audit: "outbox_inv (t\<lparr>audit_logs := lg\<rparr>) \<longleftrightarrow> outbox_inv t" for t lg by (simp add: outbox_inv_def)
  have del: "outbox_inv (s\<lparr>outbox_events := filter Q (outbox_events s)\<rparr>)" for Q
    using inv by (auto simp: outbox_inv_def distinct_map_filter list_all_iff)
  have upd: "outbox_inv (s\<lparr>outbox_events := upd_where q (event_leased v m cur) (outbox_events s)\<rparr>)"
    "outbox_inv (s\<lparr>outbox_events := upd_where q (event_published cur) (outbox_events s)\<rparr>)"
    "outbox_inv (s\<lparr>outbox_events := upd_where q (event_failed ec em po r n cur) (outbox_events s)\<rparr>)"
    "outbox_inv (s\<lparr>outbox_events := upd_where q (event_unparked cur) (outbox_events s)\<rparr>)"
    for q v m cur ec em po r n
    by (rule outbox_inv_upd [OF inv], simp, simp add: outbox_event_checks_def event_leased_def
        event_published_def event_failed_def event_unparked_def Let_def)+
  show ?thesis
    using step inv
    by (cases p) (auto simp: mark_published_def upd_selected_def Let_def audit del upd split: if_splits
        elim!: fetch_cases mark_failed_cases unpark_cases purge_cases)
qed

interpretation outbox: invariant_system outbox_step outbox_inv
  by unfold_locales (rule outbox_step_inv)

text \<open>An event after one step: the same event, or deleted because it could be purged.\<close>

lemma outbox_step_row:
  assumes inv: "outbox_inv s" and step: "outbox_step p s = Inr s'" and e: "get_outbox i s = Some e"
  shows "(\<exists>e'. get_outbox i s' = Some e' \<and> same_event e e'
        \<and> ((\<exists>ids c now. p = OPublished ids c now \<and> i \<in> set ids) \<or> o_published_at e' = o_published_at e))
     \<or> (get_outbox i s' = None \<and> (\<exists>cutoff. purgeable s cutoff e))"
proof (cases p)
  case (OFetch lk tps n v m c now)
  then obtain es where run: "fetch_unpublished lk tps n v m c now s = Inr (es, s')" using step by auto
  then obtain cur where "resolve_now c now = Inr cur" by (rule fetch_cases)
  from fetch_get [OF inv run e this] show ?thesis by (auto split: if_splits)
next
  case (OPublished ids c now)
  then obtain k where "mark_published ids c now s = Inr (k, s')" using step by auto
  from mark_published_get [OF this e] show ?thesis using OPublished by (auto split: if_splits)
next
  case (OFailed r j ec em po n c now)
  then obtain x where "mark_failed r j ec em po n c now s = Inr (x, s')" using step by auto
  from mark_failed_get [OF this e] show ?thesis by (auto split: if_splits)
next
  case (OUnpark a j ac re rq c now)
  then obtain x where "unpark a j ac re rq c now s = Inr (x, s')" using step by auto
  from unpark_get [OF this e] show ?thesis by (auto split: if_splits)
next
  case (OPurge lk d af n c now)
  then obtain r where "purge_published lk d af n c now s = Inr (r, s')" using step by auto
  from purge_get [OF inv this e] show ?thesis by auto
qed

section \<open>Deliveries over a run\<close>

text \<open>How often a run hands an event to a publisher.\<close>

fun delivers :: "uuid \<Rightarrow> outbox_op \<Rightarrow> db \<Rightarrow> nat" where
  "delivers i (OFetch lk tps n v m c now) s =
     (case fetch_unpublished lk tps n v m c now s of
        Inl _ \<Rightarrow> 0 | Inr (es, _) \<Rightarrow> if i \<in> o_outbox_id ` set es then 1 else 0)"
| "delivers i _ s = 0"

fun deliveries :: "uuid \<Rightarrow> outbox_op list \<Rightarrow> db \<Rightarrow> nat" where
  "deliveries i [] s = 0"
| "deliveries i (p # ps) s =
     delivers i p s + deliveries i ps (case outbox_step p s of Inl _ \<Rightarrow> s | Inr s' \<Rightarrow> s')"

text \<open>The delivery budget of the fetches of a run, and the rows an operator unparks.\<close>

fun budget_at_most :: "int \<Rightarrow> outbox_op \<Rightarrow> bool" where
  "budget_at_most M (OFetch lk tps n v m c now) \<longleftrightarrow> m \<le> M"
| "budget_at_most M _ \<longleftrightarrow> True"

fun unparks :: "uuid \<Rightarrow> outbox_op \<Rightarrow> bool" where
  "unparks i (OUnpark a j ac re rq c now) \<longleftrightarrow> i = j"
| "unparks i _ \<longleftrightarrow> False"

lemma delivers_error: "outbox_step p s = Inl x \<Longrightarrow> delivers i p s = 0"
  by (cases p) (auto split: sum.splits)

lemma fetch_delivers:
  assumes inv: "outbox_inv s" and run: "fetch_unpublished lk tps n v m c now s = Inr (es, s')"
    and cur: "resolve_now c now = Inr cur"
  shows "i \<in> o_outbox_id ` set es \<longleftrightarrow>
    (\<exists>e. get_outbox i s = Some e \<and> e \<in> set (fetch_rows lk tps n cur s) \<and> o_delivery_attempts e < m
       \<and> get_outbox i s' = Some (event_leased v m cur e))"
proof -
  have "i \<in> o_outbox_id ` set es \<longleftrightarrow> (\<exists>e \<in> set (fetch_rows lk tps n cur s). o_delivery_attempts e < m \<and> o_outbox_id e = i)"
    unfolding fetch_delivered [OF assms] by (auto simp: image_iff)
  also have "\<dots> \<longleftrightarrow> (\<exists>e. get_outbox i s = Some e \<and> e \<in> set (fetch_rows lk tps n cur s) \<and> o_delivery_attempts e < m)"
    using get_outboxI [OF inv] get_outboxD fetch_rowsD by metis
  finally show ?thesis using fetch_get [OF inv run _ cur] by auto
qed

lemma delivers_none: "outbox_inv s \<Longrightarrow> get_outbox i s = None \<Longrightarrow> delivers i p s = 0"
proof (cases p)
  case (OFetch lk tps n v m c now)
  assume "outbox_inv s" and "get_outbox i s = None"
  then have "i \<notin> o_outbox_id ` set es" if "fetch_unpublished lk tps n v m c now s = Inr (es, s')" for es s'
    using fetch_delivers [OF _ that, of _ i] that by (elim fetch_cases) auto
  then show ?thesis using OFetch by (auto split: sum.splits)
qed simp_all

text \<open>A step counts a delivery at most once, and only below the budget.\<close>

lemma step_delivery_count:
  assumes inv: "outbox_inv s" and step: "outbox_step p s = Inr s'" and e: "get_outbox i s = Some e"
    and e': "get_outbox i s' = Some e'" and "budget_at_most M p" and "\<not> unparks i p"
  shows "o_delivery_attempts e' = o_delivery_attempts e + int (delivers i p s)
    \<and> (delivers i p s = 0 \<or> o_delivery_attempts e < M)"
proof (cases p)
  case (OFetch lk tps n v m c now)
  then obtain es where run: "fetch_unpublished lk tps n v m c now s = Inr (es, s')" using step by auto
  then obtain cur where cur: "resolve_now c now = Inr cur" by (rule fetch_cases)
  show ?thesis
    using fetch_get [OF inv run e cur] fetch_delivers [OF inv run cur, of i] e e' OFetch run assms(5)
    by (auto simp: event_leased_def Let_def split: if_splits)
next
  case (OPublished ids c now)
  then obtain k where "mark_published ids c now s = Inr (k, s')" using step by auto
  from mark_published_get [OF this e] show ?thesis using OPublished e' by (auto simp: event_published_def)
next
  case (OFailed r j ec em po n c now)
  then obtain x where "mark_failed r j ec em po n c now s = Inr (x, s')" using step by auto
  from mark_failed_get [OF this e] show ?thesis
    using OFailed e' by (auto simp: event_failed_def Let_def split: if_splits)
next
  case (OUnpark a j ac re rq c now)
  then obtain x where "unpark a j ac re rq c now s = Inr (x, s')" using step by auto
  from unpark_get [OF this e] show ?thesis using OUnpark e' assms(6) by auto
next
  case (OPurge lk d af n c now)
  then obtain r where "purge_published lk d af n c now s = Inr (r, s')" using step by auto
  from purge_get [OF inv this e] show ?thesis using OPurge e' by auto
qed

lemma deliveries_none:
  "outbox_inv s \<Longrightarrow> get_outbox i s = None \<Longrightarrow> deliveries i ps s = 0"
  by (induction ps arbitrary: s)
    (auto simp: delivers_none split: sum.splits dest: outbox_step_inv outbox_step_creates_nothing)

lemma run_delivery_count:
  assumes "outbox_inv s" and "get_outbox i s = Some e"
    and "\<forall>p\<in>set ps. budget_at_most M p \<and> \<not> unparks i p"
  shows "int (deliveries i ps s) \<le> max 0 (M - o_delivery_attempts e)"
  using assms
proof (induction ps arbitrary: s e)
  case Nil
  then show ?case by simp
next
  case (Cons p ps)
  show ?case
  proof (cases "outbox_step p s")
    case (Inl x)
    then show ?thesis using Cons.IH [OF Cons.prems(1,2)] Cons.prems(3) delivers_error [OF Inl, of i] by simp
  next
    case (Inr s')
    note inv = outbox_step_inv [OF Cons.prems(1) Inr]
    show ?thesis
    proof (cases "get_outbox i s'")
      case None
      have "delivers i p s \<le> 1 \<and> (delivers i p s = 1 \<longrightarrow> get_outbox i s' \<noteq> None)"
      proof (cases p)
        case (OFetch lk tps n v m c now)
        then obtain es where run: "fetch_unpublished lk tps n v m c now s = Inr (es, s')" using Inr by auto
        then obtain cur where cur: "resolve_now c now = Inr cur" by (rule fetch_cases)
        show ?thesis using fetch_delivers [OF Cons.prems(1) run cur, of i] OFetch run by auto
      qed auto
      then have "delivers i p s = 0" using None by auto
      then show ?thesis using deliveries_none [OF inv None] Inr by simp
    next
      case (Some e')
      have "o_delivery_attempts e' = o_delivery_attempts e + int (delivers i p s)
          \<and> (delivers i p s = 0 \<or> o_delivery_attempts e < M)"
        using step_delivery_count [OF Cons.prems(1) Inr Cons.prems(2) Some, of M] Cons.prems(3) by simp
      moreover have "int (deliveries i ps s') \<le> max 0 (M - o_delivery_attempts e')"
        using Cons.IH [OF inv Some] Cons.prems(3) by simp
      moreover have "delivers i p s \<le> 1" by (cases p) (auto split: sum.splits)
      ultimately show ?thesis using Inr by auto
    qed
  qed
qed

text \<open>A hidden event: not available before \<open>T\<close>, through every step that only fetches at times
  before \<open>T\<close> and does not unpark the event or report its failure.\<close>

fun leaves_hidden :: "uuid \<Rightarrow> ts \<Rightarrow> outbox_op \<Rightarrow> bool" where
  "leaves_hidden i T (OFetch lk tps n v m c now) \<longleftrightarrow>
     (case resolve_now c now of Inl _ \<Rightarrow> True | Inr t \<Rightarrow> t < T)"
| "leaves_hidden i T (OUnpark a j ac re rq c now) \<longleftrightarrow> i \<noteq> j"
| "leaves_hidden i T (OFailed r j ec em po n c now) \<longleftrightarrow> i \<noteq> j"
| "leaves_hidden i T _ \<longleftrightarrow> True"

definition hidden :: "uuid \<Rightarrow> ts \<Rightarrow> db \<Rightarrow> bool" where
  "hidden i T s \<longleftrightarrow> (\<forall>e. get_outbox i s = Some e \<longrightarrow> T \<le> o_available_at e)"

lemma step_hidden:
  assumes inv: "outbox_inv s" and hid: "hidden i T s" and op: "leaves_hidden i T p"
    and step: "outbox_step p s = Inr s'"
  shows "delivers i p s = 0 \<and> hidden i T s'"
proof (cases "get_outbox i s")
  case None
  then show ?thesis
    using delivers_none [OF inv None] outbox_step_creates_nothing [OF step None] by (simp add: hidden_def)
next
  case (Some e)
  have T: "T \<le> o_available_at e" using hid Some by (simp add: hidden_def)
  show ?thesis
  proof (cases p)
    case (OFetch lk tps n v m c now)
    then obtain es where run: "fetch_unpublished lk tps n v m c now s = Inr (es, s')" using step by auto
    then obtain cur where cur: "resolve_now c now = Inr cur" by (rule fetch_cases)
    have "e \<notin> set (fetch_rows lk tps n cur s)"
    proof
      assume "e \<in> set (fetch_rows lk tps n cur s)"
      from fetch_rowsD [OF this] have "o_available_at e \<le> cur" by (simp add: deliverable_def)
      then show False using T op OFetch cur by simp
    qed
    then show ?thesis
      using fetch_get [OF inv run Some cur] fetch_delivers [OF inv run cur, of i] run Some T OFetch
      by (auto simp: hidden_def)
  next
    case (OPublished ids c now)
    then obtain k where "mark_published ids c now s = Inr (k, s')" using step by auto
    from mark_published_get [OF this Some] show ?thesis
      using OPublished T by (auto simp: hidden_def event_published_def)
  next
    case (OFailed r j ec em po n c now)
    then obtain x where "mark_failed r j ec em po n c now s = Inr (x, s')" using step by auto
    from mark_failed_get [OF this Some] show ?thesis using OFailed op T by (auto simp: hidden_def)
  next
    case (OUnpark a j ac re rq c now)
    then obtain x where "unpark a j ac re rq c now s = Inr (x, s')" using step by auto
    from unpark_get [OF this Some] show ?thesis using OUnpark op T by (auto simp: hidden_def)
  next
    case (OPurge lk d af n c now)
    then obtain r where "purge_published lk d af n c now s = Inr (r, s')" using step by auto
    from purge_get [OF inv this Some] show ?thesis using OPurge T by (auto simp: hidden_def)
  qed
qed

lemma run_hidden:
  "outbox_inv s \<Longrightarrow> hidden i T s \<Longrightarrow> \<forall>p\<in>set ps. leaves_hidden i T p \<Longrightarrow> deliveries i ps s = 0"
proof (induction ps arbitrary: s)
  case (Cons p ps)
  show ?case
  proof (cases "outbox_step p s")
    case (Inl x)
    then show ?thesis using Cons delivers_error [OF Inl, of i] by simp
  next
    case (Inr s')
    then show ?thesis
      using Cons step_hidden [OF Cons.prems(1,2) _ Inr] outbox_step_inv [OF Cons.prems(1) Inr] by simp
  qed
qed simp

section \<open>Properties of the outbox\<close>

definition publishes :: "uuid \<Rightarrow> outbox_op \<Rightarrow> bool" where
  "publishes i p \<longleftrightarrow> (case p of OPublished ids c now \<Rightarrow> i \<in> set ids | _ \<Rightarrow> False)"

definition still_needed :: "db \<Rightarrow> outbox_event \<Rightarrow> bool" where
  "still_needed s e \<longleftrightarrow> (case o_topic e of Domain \<Rightarrow> o_published_at e = None
     | Internal \<Rightarrow> \<not> acknowledged s (o_event_id e))"

lemma needed_not_purgeable: "still_needed s e \<Longrightarrow> \<not> purgeable s cutoff e"
  by (auto simp: still_needed_def purgeable_def split: topic.splits)

text \<open>
  C15. No loss: whatever the publishers, the operators and the retention job do, an event that
  still needs its delivery stays in the table with its identity and payload unchanged. For an
  event of topic \<open>domain\<close> that means: unpublished, and no \<open>mark_published\<close> of the run
  names it. For an internal command: its projection task is not both succeeded and acknowledged.
  Parked events are included.
\<close>

theorem needed_events_are_never_lost:
  assumes "outbox_inv s" and "get_outbox i s = Some e" and "still_needed s e"
    and "\<forall>p\<in>set ops. \<not> publishes i p"
  shows "\<exists>e'. get_outbox i (run_ops outbox_step ops s) = Some e' \<and> same_event e e'
     \<and> o_published_at e' = o_published_at e"
  using assms
proof (induction ops arbitrary: s e)
  case Nil
  then show ?case by simp
next
  case (Cons p ops)
  show ?case
  proof (cases "outbox_step p s")
    case (Inl x)
    then show ?thesis using Cons by simp
  next
    case (Inr s')
    have "\<not> (\<exists>ids c now. p = OPublished ids c now \<and> i \<in> set ids)"
      using Cons.prems(4) by (auto simp: publishes_def)
    then obtain e1 where e1: "get_outbox i s' = Some e1" "same_event e e1"
      "o_published_at e1 = o_published_at e"
      using outbox_step_row [OF Cons.prems(1) Inr Cons.prems(2)] needed_not_purgeable [OF Cons.prems(3)]
      by blast
    have "still_needed s' e1"
      using Cons.prems(3) e1(2,3) outbox_step_tables [OF Inr]
      by (simp add: still_needed_def same_event_def split: topic.splits)
    then obtain e2 where "get_outbox i (run_ops outbox_step ops s') = Some e2" "same_event e1 e2"
      "o_published_at e2 = o_published_at e1"
      using Cons.IH [OF outbox_step_inv [OF Cons.prems(1) Inr] e1(1)] Cons.prems(4) by auto
    then show ?thesis using Inr e1(2,3) same_event_trans by auto
  qed
qed

definition demo_event :: outbox_event where
  "demo_event = \<lparr>o_outbox_id = 1, o_event_id = 11, o_topic = Domain, o_event_type = ''domain.changed'',
     o_aggregate_id = 5, o_aggregate_version = 1, o_payload_schema_version = ''1.0'',
     o_payload_bytes = Some ''x'', o_payload_media_type = ''application/json'',
     o_payload_sha256 = replicate 64 (CHR ''0''), o_payload_artifact_uri = None, o_available_at = 0,
     o_published_at = None, o_parked_at = None, o_attempts = 0, o_delivery_attempts = 0,
     o_last_error_code = None, o_last_error_message = None, o_created_at = 0, o_updated_at = 0\<rparr>"

definition demo_outbox :: db where
  "demo_outbox = empty_db\<lparr>outbox_events := [demo_event]\<rparr>"

lemma demo_outbox_inv [simp]: "outbox_inv demo_outbox"
proof -
  have "outbox_event_checks demo_event"
    by (simp add: outbox_event_checks_def demo_event_def is_hex64_def list_all_iff INLINE_EVENT_LIMIT_BYTES_def)
  then show ?thesis by (simp add: demo_outbox_def outbox_inv_def)
qed

lemma demo_outbox_get [simp]: "get_outbox 1 demo_outbox = Some demo_event"
  by (simp add: demo_outbox_def demo_event_def get_outbox_def)

abbreviation "demo_fetch t \<equiv> OFetch [] [Domain] 10 60 1 0 (utc t)"

theorem needed_events_are_never_lost_witness:
  "\<exists>e'. get_outbox 1 (run_ops outbox_step [demo_fetch 5, OPurge [] 0 None 10 0 (utc 9000000000),
      demo_fetch 90000000] demo_outbox) = Some e' \<and> same_event demo_event e'"
proof -
  have "still_needed demo_outbox demo_event" by code_simp
  moreover have "\<forall>p\<in>set [demo_fetch 5, OPurge [] 0 None 10 0 (utc 9000000000), demo_fetch 90000000].
      \<not> publishes 1 p"
    by (simp add: publishes_def)
  ultimately show ?thesis
    using needed_events_are_never_lost [OF demo_outbox_inv demo_outbox_get] by blast
qed

text \<open>
  C16. A crashing publisher does not loop: over any run in which no operator unparks the
  event, it is handed out at most \<open>max_delivery_attempts\<close> times (less those already
  counted), whether or not a publisher ever reports back.
\<close>

theorem deliveries_bounded:
  assumes "outbox_inv s" and "get_outbox i s = Some e"
    and "\<forall>p\<in>set ops. budget_at_most M p \<and> \<not> unparks i p"
  shows "int (deliveries i ops s) \<le> max 0 (M - o_delivery_attempts e)"
  using run_delivery_count [OF assms] .

theorem deliveries_bounded_witness:
  "int (deliveries 1 [demo_fetch 5, demo_fetch 90000000, demo_fetch 900000000] demo_outbox) \<le> 1"
  using deliveries_bounded [OF demo_outbox_inv demo_outbox_get, of
      "[demo_fetch 5, demo_fetch 90000000, demo_fetch 900000000]" 1]
  by (simp add: demo_event_def del: deliveries.simps)

text \<open>
  The visibility lease: an event that \<open>fetch_unpublished\<close> handed out at time
  \<open>t\<close> is not handed out again, by any publisher, before \<open>t + visibility_seconds\<close>,
  unless its failure is reported or an operator unparks it.
\<close>

theorem visibility_lease_excludes:
  assumes "outbox_inv s" and "fetch_unpublished lk tps n v m c now s = Inr (es, s')"
    and "resolve_now c now = Inr t" and "e \<in> set es"
    and "\<forall>p\<in>set ops. leaves_hidden (o_outbox_id e) (t + v * 1000000) p"
  shows "deliveries (o_outbox_id e) ops s' = 0"
proof -
  have "outbox_step (OFetch lk tps n v m c now) s = Inr s'" using assms(2) by simp
  then have inv: "outbox_inv s'" by (rule outbox_step_inv [OF assms(1)])
  obtain x where "get_outbox (o_outbox_id e) s' = Some (event_leased v m t x)" "o_delivery_attempts x < m"
    using fetch_delivers [OF assms(1-3), of "o_outbox_id e"] assms(4) by auto
  then have "hidden (o_outbox_id e) (t + v * 1000000) s'"
    by (simp add: hidden_def event_leased_def second_def)
  then show ?thesis using run_hidden [OF inv] assms(5) by blast
qed

lemma demo_fetch_run:
  "\<exists>e s'. fetch_unpublished [] [Domain] 10 60 3 0 (utc 5) demo_outbox = Inr ([e], s') \<and> o_outbox_id e = 1"
proof -
  let ?r = "fetch_unpublished [] [Domain] 10 60 3 0 (utc 5) demo_outbox"
  have "map_sum id (\<lambda>(es, s'). map o_outbox_id es) ?r = Inr [1]" by code_simp
  then show ?thesis by (cases ?r) auto
qed

theorem visibility_lease_excludes_witness:
  "\<exists>e s'. fetch_unpublished [] [Domain] 10 60 3 0 (utc 5) demo_outbox = Inr ([e], s')
     \<and> deliveries 1 [demo_fetch 6, demo_fetch 59000000] s' = 0"
proof -
  obtain e s' where run: "fetch_unpublished [] [Domain] 10 60 3 0 (utc 5) demo_outbox = Inr ([e], s')"
    "o_outbox_id e = 1"
    using demo_fetch_run by blast
  have "deliveries (o_outbox_id e) [demo_fetch 6, demo_fetch 59000000] s' = 0"
    by (rule visibility_lease_excludes [OF demo_outbox_inv run(1), of 5]) simp_all
  then show ?thesis using run by auto
qed

text \<open>
  \<open>fetch_unpublished\<close> hands out only events that are due, neither published nor
  parked, of a requested topic and not locked elsewhere, each with its delivery counted and
  hidden for the visibility time; a candidate whose delivery budget is used up is parked with
  the error code instead; at most \<open>limit\<close> rows are touched, the ones available longest.
\<close>

theorem fetch_hands_out_due_events:
  assumes "outbox_inv s" and "fetch_unpublished lk tps n v m c now s = Inr (es, s')"
    and "resolve_now c now = Inr t" and "get_outbox i s = Some e"
  shows "(i \<in> o_outbox_id ` set es \<longrightarrow> o_published_at e = None \<and> o_parked_at e = None
        \<and> o_available_at e \<le> t \<and> o_topic e \<in> set tps \<and> i \<notin> set lk \<and> o_delivery_attempts e < m)
    \<and> (\<exists>e'. get_outbox i s' = Some e' \<and>
        (if i \<in> o_outbox_id ` set es
         then o_available_at e' = t + v * second \<and> o_delivery_attempts e' = o_delivery_attempts e + 1
           \<and> o_parked_at e' = None
         else e' = e \<or> (m \<le> o_delivery_attempts e \<and> o_parked_at e' = Some t
           \<and> o_last_error_code e' = Some DELIVERY_ATTEMPTS_EXHAUSTED)))
    \<and> int (card {x \<in> set (outbox_events s). get_outbox (o_outbox_id x) s' \<noteq> Some x}) \<le> n"
proof -
  let ?sel = "fetch_rows lk tps n t s"
  have n: "1 \<le> n" using assms(2) by (rule fetch_cases)
  have sub: "{x \<in> set (outbox_events s). get_outbox (o_outbox_id x) s' \<noteq> Some x} \<subseteq> set ?sel"
    using fetch_get [OF assms(1,2) get_outboxI [OF assms(1)] assms(3)] by (auto split: if_splits)
  have "card (set ?sel) \<le> nat n" by (rule order_trans [OF card_length]) simp
  then have "card {x \<in> set (outbox_events s). get_outbox (o_outbox_id x) s' \<noteq> Some x} \<le> nat n"
    using card_mono [OF _ sub] by (meson List.finite_set order_trans)
  then have few: "int (card {x \<in> set (outbox_events s). get_outbox (o_outbox_id x) s' \<noteq> Some x}) \<le> n"
    using n by linarith
  have i: "o_outbox_id e = i" using get_outboxD [OF assms(4)] by simp
  note get = fetch_get [OF assms(1,2,4,3)]
  have out: "i \<in> o_outbox_id ` set es \<longleftrightarrow> e \<in> set ?sel \<and> o_delivery_attempts e < m"
    using fetch_delivers [OF assms(1-3), of i] assms(4) get by auto
  show ?thesis
  proof (cases "e \<in> set ?sel")
    case True
    then have "deliverable lk tps t e" using fetch_rowsD by blast
    then show ?thesis
      using few get out i True by (simp add: deliverable_def event_leased_def Let_def)
  next
    case False
    then show ?thesis using few get out by simp
  qed
qed

theorem fetch_hands_out_due_events_witness:
  "\<exists>e s'. fetch_unpublished [] [Domain] 10 60 3 0 (utc 5) demo_outbox = Inr ([e], s')
     \<and> (\<exists>e'. get_outbox 1 s' = Some e' \<and> o_available_at e' = 60000005 \<and> o_delivery_attempts e' = 1)"
proof -
  obtain e s' where run: "fetch_unpublished [] [Domain] 10 60 3 0 (utc 5) demo_outbox = Inr ([e], s')"
    "o_outbox_id e = 1"
    using demo_fetch_run by blast
  show ?thesis
    using fetch_hands_out_due_events [OF demo_outbox_inv run(1) _ demo_outbox_get, of 5] run
    by (auto simp: demo_event_def second_def)
qed

lemma length_eq_card_keys: "distinct (map key rows) \<Longrightarrow> length rows = card (key ` set rows)"
  using distinct_card [of "map key rows"] by simp

text \<open>
  Retention: \<open>purge_published\<close> deletes only domain events published before the
  cutoff and internal commands whose task succeeded and is acknowledged; at most \<open>limit\<close>
  of them and none at or below the cursor; every other row stays as it is; and the returned
  cursor is the largest event id deleted, or \<open>None\<close> exactly when no candidate is left.
\<close>

theorem purge_deletes_only_finished_events:
  assumes "outbox_inv s" and "purge_published lk d af n c now s = Inr (r, s')"
    and "resolve_now c now = Inr t"
  shows "set (outbox_events s') \<subseteq> set (outbox_events s)
    \<and> (\<forall>e\<in>set (outbox_events s) - set (outbox_events s'). purgeable s (t - d) e
        \<and> o_outbox_id e \<notin> set lk \<and> (\<forall>a. af = Some a \<longrightarrow> a < o_event_id e)
        \<and> (\<exists>x. pr_last_event_id r = Some x \<and> o_event_id e \<le> x))
    \<and> int (pr_deleted r) \<le> n \<and> pr_deleted r + length (outbox_events s') = length (outbox_events s)
    \<and> (pr_last_event_id r = None \<longleftrightarrow> (\<forall>e\<in>set (outbox_events s). purgeable s (t - d) e
        \<and> o_outbox_id e \<notin> set lk \<longrightarrow> (\<exists>a. af = Some a \<and> o_event_id e \<le> a)))"
  using assms(2)
proof (cases rule: purge_cases)
  case (1 cur)
  have cur: "cur = t" using 1(1) assms(3) by simp
  let ?P = "\<lambda>e. purgeable s (t - d) e \<and> o_outbox_id e \<notin> set lk
        \<and> (case af of None \<Rightarrow> True | Some a \<Rightarrow> a < o_event_id e)"
  let ?rows = "purge_rows lk (t - d) af n s"
  note ids = outbox_ids [OF assms(1)]
  have sub: "set ?rows \<subseteq> set (outbox_events s)" using set_order_limit_subset by fastforce
  have sel: "o_outbox_id e \<in> o_outbox_id ` set ?rows \<longleftrightarrow> e \<in> set ?rows" if "e \<in> set (outbox_events s)" for e
    using selected_iff [OF ids sub that] .
  have P: "?P e" if "e \<in> set ?rows" for e using in_order_limit [OF that] by simp
  have left: "set (outbox_events s') = set (outbox_events s) - set ?rows"
    using 1(4) sel cur by auto
  have gone: "set (outbox_events s) - set (outbox_events s') = set ?rows" using left sub by blast
  have last: "\<exists>x. pr_last_event_id r = Some x \<and> o_event_id e \<le> x" if "e \<in> set ?rows" for e
    using that 1(6) cur by auto
  have "distinct (map o_outbox_id (filter (\<lambda>e. o_outbox_id e \<in> o_outbox_id ` set ?rows) (outbox_events s)))"
    using ids by (rule distinct_map_filter)
  then have "length (filter (\<lambda>e. o_outbox_id e \<in> o_outbox_id ` set ?rows) (outbox_events s))
      = card (o_outbox_id ` set (filter (\<lambda>e. o_outbox_id e \<in> o_outbox_id ` set ?rows) (outbox_events s)))"
    by (rule length_eq_card_keys)
  also have "\<dots> \<le> card (o_outbox_id ` set ?rows)" by (intro card_mono) auto
  also have "\<dots> \<le> length ?rows" using card_image_le card_length order_trans by blast
  also have "\<dots> \<le> nat n" by simp
  finally have few: "int (pr_deleted r) \<le> n" using 1(2,5) cur by simp
  have len: "pr_deleted r + length (outbox_events s') = length (outbox_events s)"
    using 1(4,5) sum_length_filter_compl [of "\<lambda>e. o_outbox_id e \<in> o_outbox_id ` set ?rows" "outbox_events s"] cur
    by simp
  have "?rows = [] \<longleftrightarrow> filter ?P (outbox_events s) = []"
    using 1(2) unfolding length_0_conv [symmetric] length_order_limit by (auto simp: min_def)
  also have "\<dots> \<longleftrightarrow> (\<forall>e\<in>set (outbox_events s). purgeable s (t - d) e \<and> o_outbox_id e \<notin> set lk
      \<longrightarrow> (\<exists>a. af = Some a \<and> o_event_id e \<le> a))"
    by (cases af) (auto simp: filter_empty_conv not_less)
  finally have none: "pr_last_event_id r = None \<longleftrightarrow> (\<forall>e\<in>set (outbox_events s). purgeable s (t - d) e
      \<and> o_outbox_id e \<notin> set lk \<longrightarrow> (\<exists>a. af = Some a \<and> o_event_id e \<le> a))"
    using 1(6) cur by auto
  have "purgeable s (t - d) e \<and> o_outbox_id e \<notin> set lk
      \<and> (\<forall>a. af = Some a \<longrightarrow> a < o_event_id e) \<and> (\<exists>x. pr_last_event_id r = Some x \<and> o_event_id e \<le> x)"
    if "e \<in> set ?rows" for e
    using P [OF that] last [OF that] by (cases af) simp_all
  then show ?thesis unfolding gone using left few len none by blast
qed

theorem purge_deletes_only_finished_events_witness:
  "\<exists>r s'. purge_published [] 0 None 10 0 (utc 9) demo_outbox = Inr (r, s')
     \<and> pr_last_event_id r = None \<and> pr_deleted r + length (outbox_events s') = 1"
proof -
  let ?r = "purge_published [] 0 None 10 0 (utc 9) demo_outbox"
  have "map_sum id (\<lambda>(r, _). pr_deleted r) ?r = Inr 0" by code_simp
  then obtain r s' where run: "?r = Inr (r, s')" by (cases ?r) auto
  have "\<not> purgeable demo_outbox 9 demo_event" by code_simp
  then show ?thesis
    using purge_deletes_only_finished_events [OF demo_outbox_inv run, of 9] run
    by (simp add: demo_outbox_def)
qed

end
