(* ===== verification/Pipeline.thy ===== *)
theory Pipeline
  imports Projection Outbox
begin

text \<open>
  The projection pipeline and the outbox on one database: the parse handler records results and
  their commands, projectors and the reconciler acknowledge, publishers deliver, operators unpark
  and the retention job deletes, in any order.
\<close>

section \<open>Mixed runs\<close>

datatype pipeline_op = Projecting proj_op | Delivering outbox_op

fun pipeline_step :: "pipeline_op \<Rightarrow> db \<Rightarrow> db res" where
  "pipeline_step (Projecting p) s = proj_step p s"
| "pipeline_step (Delivering p) s = outbox_step p s"

text \<open>The command of a task that is not done is in the outbox.\<close>

definition command_of :: "projection_task \<Rightarrow> outbox_event \<Rightarrow> bool" where
  "command_of t e \<longleftrightarrow> o_event_id e = t_task_id t \<and> o_topic e = Internal"

definition commands_kept :: "db \<Rightarrow> bool" where
  "commands_kept s \<longleftrightarrow>
     (\<forall>t\<in>set (projection_tasks s). t_status t \<noteq> Succeeded \<longrightarrow> (\<exists>e\<in>set (outbox_events s). command_of t e))"

definition pipeline_inv :: "db \<Rightarrow> bool" where
  "pipeline_inv s \<longleftrightarrow> proj_inv s \<and> outbox_inv s \<and> commands_kept s"

section \<open>What the outbox leaves of the projection tables\<close>

lemma outbox_step_projection:
  assumes "outbox_step p s = Inr s'"
  shows "projection_tasks s' = projection_tasks s \<and> projection_acks s' = projection_acks s
    \<and> entities s' = entities s \<and> change_events s' = change_events s"
  using assms
  by (cases p) (auto simp: mark_published_def Let_def split: if_splits
      elim!: fetch_cases mark_failed_cases unpark_cases purge_cases)

lemma proj_inv_cong:
  assumes "projection_tasks s' = projection_tasks s" and "projection_acks s' = projection_acks s"
    and "entities s' = entities s" and "change_events s' = change_events s"
  shows "proj_inv s' = proj_inv s"
  using assms by (simp add: proj_inv_def tasks_inv_def acks_inv_def entities_inv_def entity_tasks_def entity_acks_def)

lemma outbox_step_commands:
  assumes inv: "pipeline_inv s" and step: "outbox_step p s = Inr s'"
  shows "commands_kept s'"
  unfolding commands_kept_def
proof (intro ballI impI)
  fix t assume t: "t \<in> set (projection_tasks s')" "t_status t \<noteq> Succeeded"
  have ts: "t \<in> set (projection_tasks s)" using t(1) outbox_step_projection [OF step] by simp
  obtain e where e: "e \<in> set (outbox_events s)" "command_of t e"
    using inv ts t(2) by (auto simp: pipeline_inv_def commands_kept_def)
  have ob: "outbox_inv s" and pj: "proj_inv s" using inv by (simp_all add: pipeline_inv_def)
  have "x = t" if "x \<in> set (projection_tasks s)" "t_task_id x = t_task_id t" for x
    by (rule distinct_key_inj [OF proj_inv_ids [OF pj] that(1) ts that(2)])
  then have "\<not> acknowledged s (o_event_id e)"
    using e(2) t(2) by (auto simp: acknowledged_def command_of_def)
  then have np: "\<not> purgeable s cutoff e" for cutoff
    using e(2) by (auto simp: purgeable_def command_of_def)
  have "get_outbox (o_outbox_id e) s = Some e"
    using find_distinct_key [of o_outbox_id "outbox_events s" e] ob e(1)
    by (simp add: outbox_inv_def get_outbox_def)
  from outbox_step_row [OF ob step this] np obtain e' where
    e': "get_outbox (o_outbox_id e) s' = Some e'" "same_event e e'" by blast
  have "e' \<in> set (outbox_events s')"
    using e'(1) unfolding get_outbox_def by (drule_tac find_SomeD) simp
  then show "\<exists>e\<in>set (outbox_events s'). command_of t e"
    using e(2) e'(2) by (intro bexI [of _ e']) (auto simp: command_of_def same_event_def)
qed

section \<open>What the pipeline does to the outbox\<close>

text \<open>A step either appends one checked row with new identifiers, or leaves the outbox alone.\<close>

definition outbox_grows :: "db \<Rightarrow> db \<Rightarrow> bool" where
  "outbox_grows s s' \<longleftrightarrow> outbox_events s' = outbox_events s
     \<or> (\<exists>e. outbox_events s' = outbox_events s @ [e] \<and> outbox_event_checks e
          \<and> (\<forall>x\<in>set (outbox_events s). o_outbox_id x \<noteq> o_outbox_id e \<and> o_event_id x \<noteq> o_event_id e))"

lemma outbox_grows_inv:
  assumes "outbox_grows s s'" and inv: "outbox_inv s" shows "outbox_inv s'"
  using assms(1) unfolding outbox_grows_def
proof (elim disjE exE conjE)
  assume "outbox_events s' = outbox_events s"
  then show ?thesis using inv by (simp add: outbox_inv_def)
next
  fix e assume e: "outbox_events s' = outbox_events s @ [e]" "outbox_event_checks e"
    "\<forall>x\<in>set (outbox_events s). o_outbox_id x \<noteq> o_outbox_id e \<and> o_event_id x \<noteq> o_event_id e"
  have "o_outbox_id e \<notin> o_outbox_id ` set (outbox_events s)" "o_event_id e \<notin> o_event_id ` set (outbox_events s)"
    using e(3) by force+
  then show ?thesis using inv e(1,2) by (simp add: outbox_inv_def)
qed

lemma outbox_grows_mem: "outbox_grows s s' \<Longrightarrow> e \<in> set (outbox_events s) \<Longrightarrow> e \<in> set (outbox_events s')"
  by (auto simp: outbox_grows_def)

text \<open>
  An open task of the new state was open before, under the same identifier, or it is new and its
  command has come with it.
\<close>

definition open_tasks_known :: "db \<Rightarrow> db \<Rightarrow> bool" where
  "open_tasks_known s s' \<longleftrightarrow>
     (\<forall>t'\<in>set (projection_tasks s'). t_status t' \<noteq> Succeeded \<longrightarrow>
        (\<exists>t\<in>set (projection_tasks s). t_task_id t = t_task_id t' \<and> t_status t \<noteq> Succeeded)
        \<or> (\<exists>e\<in>set (outbox_events s'). command_of t' e))"

lemma moves_known:
  assumes "task_moves a s s'"
  shows "outbox_grows s s' \<and> open_tasks_known s s'"
proof -
  obtain q f where m: "s' = s\<lparr>projection_tasks := upd_where q f (projection_tasks s)\<rparr>"
    "\<And>t. same_task t (f t)" "\<And>t. t \<in> set (projection_tasks s) \<Longrightarrow> q t \<Longrightarrow> moved a t (f t)"
    using assms by (auto simp: task_moves_def)
  have "\<exists>t\<in>set (projection_tasks s). t_task_id t = t_task_id t' \<and> t_status t \<noteq> Succeeded"
    if "t' \<in> set (projection_tasks s')" "t_status t' \<noteq> Succeeded" for t'
  proof -
    from that(1) consider "t' \<in> set (projection_tasks s)" | t where "t \<in> set (projection_tasks s)" "q t" "t' = f t"
      by (auto simp: m(1) set_upd_where)
    then show ?thesis
    proof cases
      case 2
      then show ?thesis using m(3) [of t] m(2) [of t] by (intro bexI [of _ t]) (auto simp: moved_def same_task_def)
    qed (use that(2) in blast)
  qed
  then show ?thesis using m(1) by (auto simp: open_tasks_known_def outbox_grows_def)
qed

lemma same_tables_known:
  "projection_tasks s' = projection_tasks s \<Longrightarrow> outbox_events s' = outbox_events s \<Longrightarrow>
   outbox_grows s s' \<and> open_tasks_known s s'"
  by (auto simp: open_tasks_known_def outbox_grows_def)

lemma entity_ops_known:
  "upsert_entity k v ident c now s = Inr (e, s') \<Longrightarrow> outbox_grows s s' \<and> open_tasks_known s s'"
  "set_mongo_document k col d c now s = Inr (e, s') \<Longrightarrow> outbox_grows s s' \<and> open_tasks_known s s'"
  "record_parse_failure k a c now s = Inr (p, s') \<Longrightarrow> outbox_grows s s' \<and> open_tasks_known s s'"
  by (auto intro!: same_tables_known simp: set_mongo_document_def record_parse_failure_def
      split: option.splits if_splits elim!: upsert_cases dest!: insert_parse_attempt_tables)

lemma record_known:
  assumes "record_parse_result sha enc nv ai qi ti oi a ref ok tc sv pr m nb c now s = Inr (r, s')"
  shows "outbox_grows s s' \<and> open_tasks_known s s'"
  using assms
proof (cases rule: record_cases)
  case (existing t)
  then show ?thesis using same_tables_known [of s s] by simp
next
  case (created entity cur s1)
  then have s1: "projection_tasks s1 = projection_tasks s" "outbox_events s1 = outbox_events s" by auto
  obtain oe where oe: "outbox_events s' = outbox_events s @ [oe]" "command_of (pr_task r) oe"
    "outbox_event_checks oe"
    "\<forall>x\<in>set (outbox_events s). o_outbox_id x \<noteq> o_outbox_id oe \<and> o_event_id x \<noteq> o_event_id oe"
    using created(3) s1 by (auto simp: issued_def command_of_def)
  have "projection_tasks s' = projection_tasks s @ [pr_task r]" using created(3) s1 by (simp add: issued_def)
  then show ?thesis using oe by (auto simp: outbox_grows_def open_tasks_known_def)
qed

lemma ack_known:
  assumes "acknowledge_projection dec ci oi i r ev w c now s = Inr (res, s')"
  shows "outbox_grows s s' \<and> open_tasks_known s s'"
  using assms
proof (cases rule: ack_cases)
  case (again k)
  then show ?thesis using same_tables_known [of s s] by simp
next
  case (created cur t e s1)
  have s1: "outbox_events s1 = outbox_events s" using created(11) by (simp add: upd_task_def)
  have "outbox_grows s s'" using created(12) s1
    by (cases rule: emit_rows_cases) (auto simp: outbox_grows_def)
  moreover have "open_tasks_known s s'"
  proof -
    have "acked i r cur s s'" by (rule emit_acked [OF created(11,12,2)])
    then have "projection_tasks s' = upd_where (\<lambda>t. t_task_id t = i) (task_succeeded cur) (projection_tasks s)"
      by (simp add: acked_def)
    then show ?thesis by (auto simp: open_tasks_known_def set_upd_where task_succeeded_def)
  qed
  ultimately show ?thesis ..
qed

lemma proj_step_known:
  assumes "proj_inv s" and "proj_step p s = Inr s'"
  shows "outbox_grows s s' \<and> open_tasks_known s s'"
  using assms
  by (cases p) (auto dest: entity_ops_known record_known ack_known
      moves_known [OF claim_moves] moves_known [OF heartbeat_moves] moves_known [OF retry_moves]
      moves_known [OF release_moves] moves_known [OF quarantine_moves] moves_known [OF recover_moves])

section \<open>The invariant of the whole\<close>

lemma pipeline_step_inv:
  assumes inv: "pipeline_inv s" and step: "pipeline_step p s = Inr s'"
  shows "pipeline_inv s'"
proof (cases p)
  case (Projecting q)
  then have st: "proj_step q s = Inr s'" using step by simp
  have pj: "proj_inv s" and ob: "outbox_inv s" and ck: "commands_kept s"
    using inv by (simp_all add: pipeline_inv_def)
  note k = proj_step_known [OF pj st]
  have "commands_kept s'"
    unfolding commands_kept_def
  proof (intro ballI impI)
    fix t' assume t': "t' \<in> set (projection_tasks s')" "t_status t' \<noteq> Succeeded"
    then consider t where "t \<in> set (projection_tasks s)" "t_task_id t = t_task_id t'" "t_status t \<noteq> Succeeded"
      | "\<exists>e\<in>set (outbox_events s'). command_of t' e"
      using k unfolding open_tasks_known_def by blast
    then show "\<exists>e\<in>set (outbox_events s'). command_of t' e"
    proof cases
      case 1
      then obtain e where "e \<in> set (outbox_events s)" "command_of t e" using ck by (auto simp: commands_kept_def)
      then show ?thesis using outbox_grows_mem k 1(2) by (auto simp: command_of_def)
    qed
  qed
  then show ?thesis using proj_step_inv [OF pj st] outbox_grows_inv k ob by (auto simp: pipeline_inv_def)
next
  case (Delivering q)
  then have st: "outbox_step q s = Inr s'" using step by simp
  have "proj_inv s'"
    using inv proj_inv_cong [of s' s] outbox_step_projection [OF st] by (simp add: pipeline_inv_def)
  then show ?thesis
    using outbox_step_commands [OF inv st] outbox_step_inv [OF _ st] inv by (simp add: pipeline_inv_def)
qed

interpretation pipeline: invariant_system pipeline_step pipeline_inv
  by unfold_locales (fact pipeline_step_inv)

text \<open>
  C22. A command is there until it has been acknowledged. Parse results, claims, retries,
  quarantines, acknowledgements, deliveries, parking, unparking and retention run in any order; a
  projection task that is not yet succeeded always has its \<open>projection.command\<close> row in the
  outbox, so a crashed projector or the reconciler can replay it, and there is exactly one such row.
\<close>

theorem command_kept_until_acknowledged:
  assumes "pipeline_inv s" and "t \<in> set (projection_tasks (run_ops pipeline_step ops s))"
    and "t_status t \<noteq> Succeeded"
  shows "\<exists>!e. e \<in> set (outbox_events (run_ops pipeline_step ops s))
    \<and> o_event_id e = t_task_id t \<and> o_topic e = Internal"
proof -
  let ?s = "run_ops pipeline_step ops s"
  have inv: "pipeline_inv ?s" by (rule pipeline.run_inv [OF assms(1)])
  then obtain e where e: "e \<in> set (outbox_events ?s)" "o_event_id e = t_task_id t" "o_topic e = Internal"
    using assms(2,3) by (auto simp: pipeline_inv_def commands_kept_def command_of_def)
  have d: "distinct (map o_event_id (outbox_events ?s))"
    using inv by (simp add: pipeline_inv_def outbox_inv_def)
  show ?thesis
  proof (rule ex1I [of _ e])
    fix x assume "x \<in> set (outbox_events ?s) \<and> o_event_id x = t_task_id t \<and> o_topic x = Internal"
    then show "x = e" using distinct_key_inj [OF d _ e(1)] e(2) by simp
  qed (use e in simp)
qed

lemma pipeline_inv_empty: "pipeline_inv empty_db"
  by (simp add: pipeline_inv_def outbox_inv_def commands_kept_def)

theorem command_kept_until_acknowledged_witness:
  "\<exists>t\<in>set (projection_tasks (run_ops pipeline_step [Projecting demo_upsert, Projecting demo_record,
        Delivering (OPurge [] 0 None 100 0 (utc 9000))] empty_db)).
     t_status t = Pending \<and> (\<exists>!e. e \<in> set (outbox_events (run_ops pipeline_step
        [Projecting demo_upsert, Projecting demo_record, Delivering (OPurge [] 0 None 100 0 (utc 9000))] empty_db))
       \<and> o_event_id e = t_task_id t \<and> o_topic e = Internal)"
proof -
  let ?ops = "[Projecting demo_upsert, Projecting demo_record, Delivering (OPurge [] 0 None 100 0 (utc 9000))]"
  have "list_ex (\<lambda>t. t_status t = Pending) (projection_tasks (run_ops pipeline_step ?ops empty_db))" by code_simp
  then obtain t where t: "t \<in> set (projection_tasks (run_ops pipeline_step ?ops empty_db))" "t_status t = Pending"
    by (auto simp: list_ex_iff simp del: run_ops.simps)
  have "t_status t \<noteq> Succeeded" using t(2) by simp
  from command_kept_until_acknowledged [OF pipeline_inv_empty t(1) this] t(2)
  show ?thesis by (intro bexI [OF _ t(1)] conjI)
qed

end
