(* ===== verification/Artifacts.thy ===== *)
theory Artifacts
  imports Contracts
begin

text \<open>
  \<open>repositories/artifacts.py\<close>: the history of fetches, the content-addressed raw objects and
  the upload claims that fence every write to the artifact store. A claim is a lease on an object
  key with a generation that grows at each reacquisition; only the holder of the current
  generation can turn it into a reference.
\<close>

section \<open>Fetch history\<close>

record fetch_record =
  fr_requested_url :: string
  fr_outcome :: fetch_outcome
  fr_fetched_at :: datetime
  fr_job_id :: "uuid option"
  fr_source_id :: "uuid option"
  fr_final_url :: "string option"
  fr_request_variant :: "string option"
  fr_http_method :: string
  fr_http_status :: "int option"
  fr_content_access :: content_access
  fr_content_type :: "string option"
  fr_content_encoding :: "string option"
  fr_etag :: "string option"
  fr_last_modified_raw :: "string option"
  fr_response_bytes :: "int option"
  fr_duration_ms :: "int option"
  fr_raw_sha256 :: "string option"
  fr_error_code :: "string option"
  fr_error_message :: "ustr option"

definition record_fetch ::
  "uuid \<Rightarrow> (int \<Rightarrow> ts res) \<Rightarrow> fetch_record \<Rightarrow> ts \<Rightarrow> datetime option \<Rightarrow> db \<Rightarrow> (fetch_row \<times> db) res" where
  "record_fetch new_id naive r utcnow now s =
     bind_res (resolve_now utcnow now) (\<lambda>current.
     bind_res (bind_timestamptz naive (fr_fetched_at r)) (\<lambda>fetched.
       let row = \<lparr>f_fetch_id = new_id, f_fetched_at = fetched, f_job_id = fr_job_id r,
                  f_source_id = fr_source_id r, f_requested_url = fr_requested_url r,
                  f_final_url = fr_final_url r, f_request_variant = fr_request_variant r,
                  f_http_method = fr_http_method r, f_http_status = fr_http_status r,
                  f_outcome = fr_outcome r, f_content_access = fr_content_access r,
                  f_content_type = fr_content_type r, f_content_encoding = fr_content_encoding r,
                  f_etag = fr_etag r, f_last_modified_raw = fr_last_modified_raw r,
                  f_response_bytes = fr_response_bytes r, f_duration_ms = fr_duration_ms r,
                  f_raw_sha256 = fr_raw_sha256 r, f_error_code = fr_error_code r,
                  f_error_message = fr_error_message r, f_created_at = current\<rparr>
       in if \<not> fetch_checks row \<or> (\<exists>f\<in>set (fetches s). f_fetch_id f = new_id \<and> f_fetched_at f = fetched)
          then Inl IntegrityError
          else Inr (row, s\<lparr>fetches := fetches s @ [row]\<rparr>)))"

record validators =
  v_etag :: "string option"
  v_last_modified :: "string option"
  v_fetched_at :: ts

definition VALIDATOR_HTTP_STATUSES :: "int list" where
  "VALIDATOR_HTTP_STATUSES = [200, 206]"

definition validators_predicate :: "uuid \<Rightarrow> string \<Rightarrow> fetch_row \<Rightarrow> bool" where
  "validators_predicate source_uuid normalized_url f \<longleftrightarrow>
     f_source_id f = Some source_uuid \<and> f_requested_url f = normalized_url
     \<and> f_outcome f = FetchSuccess
     \<and> (case f_http_status f of None \<Rightarrow> False | Some c \<Rightarrow> c \<in> set VALIDATOR_HTTP_STATUSES)"

text \<open>\<open>tie\<close> is the order in which the database returns rows of the same \<open>fetched_at\<close>.\<close>

definition latest_validators ::
  "(fetch_row \<Rightarrow> nat) \<Rightarrow> uuid \<Rightarrow> string \<Rightarrow> db \<Rightarrow> validators option" where
  "latest_validators tie source_uuid normalized_url s =
     (case order_limit (\<lambda>f. (- f_fetched_at f, tie f)) 1
             (filter (validators_predicate source_uuid normalized_url) (fetches s)) of
        [] \<Rightarrow> None
      | f # _ \<Rightarrow> Some \<lparr>v_etag = f_etag f, v_last_modified = f_last_modified_raw f,
                        v_fetched_at = f_fetched_at f\<rparr>)"

definition count_retries_since :: "uuid \<Rightarrow> datetime \<Rightarrow> db \<Rightarrow> nat res" where
  "count_retries_since source_uuid since s =
     bind_res (require_aware_utc since) (\<lambda>lower_bound.
       Inr (length (filter (\<lambda>f. f_source_id f = Some source_uuid \<and> lower_bound \<le> f_fetched_at f
              \<and> f_outcome f = FetchRetryable) (fetches s))))"

section \<open>Raw objects\<close>

definition record_raw_object ::
  "uuid \<Rightarrow> string \<Rightarrow> string \<Rightarrow> string \<Rightarrow> int \<Rightarrow> string \<Rightarrow> string option \<Rightarrow> uuid option \<Rightarrow> ts
   \<Rightarrow> datetime option \<Rightarrow> db \<Rightarrow> (raw_object \<times> db) res" where
  "record_raw_object new_id sha256 object_key uri size_bytes media_type content_encoding
     first_fetch_id utcnow now s =
     bind_res (resolve_now utcnow now) (\<lambda>current.
       let row = \<lparr>w_raw_object_id = new_id, w_sha256 = sha256, w_object_key = object_key, w_uri = uri,
                  w_size_bytes = size_bytes, w_media_type = media_type,
                  w_content_encoding = content_encoding, w_first_fetch_id = first_fetch_id,
                  w_first_seen_at = current, w_created_at = current\<rparr>
       in if \<not> raw_object_checks row then Inl IntegrityError
          else case find (\<lambda>w. w_sha256 w = sha256) (raw_objects s) of
            Some existing \<Rightarrow> Inr (existing, s)
          | None \<Rightarrow>
              if \<exists>w\<in>set (raw_objects s). w_raw_object_id w = new_id \<or> w_object_key w = object_key
              then Inl IntegrityError
              else Inr (row, s\<lparr>raw_objects := raw_objects s @ [row]\<rparr>))"

section \<open>Upload claims\<close>

definition get_claim :: "string \<Rightarrow> db \<Rightarrow> claim_row option" where
  "get_claim object_key s = find (\<lambda>c. q_object_key c = object_key) (upload_claims s)"

definition put_claim :: "claim_row \<Rightarrow> db \<Rightarrow> db" where
  "put_claim c s = s\<lparr>upload_claims :=
     upd_where (\<lambda>x. q_object_key x = q_object_key c) (\<lambda>_. c) (upload_claims s)\<rparr>"

definition claim_alive :: "ts \<Rightarrow> claim_row \<Rightarrow> bool" where
  "claim_alive current c \<longleftrightarrow> q_status c = ClaimLeased \<and> current < q_lease_expires_at c"

definition claim_reacquired :: "string \<Rightarrow> ts \<Rightarrow> claim_row \<Rightarrow> claim_row" where
  "claim_reacquired owner current c =
     c\<lparr>q_claim_generation := q_claim_generation c + 1, q_owner := owner, q_acquired_at := current,
       q_released_at := None, q_status := ClaimLeased\<rparr>"

definition acquire_upload_claim ::
  "uuid \<Rightarrow> string \<Rightarrow> string \<Rightarrow> int \<Rightarrow> string option \<Rightarrow> ts \<Rightarrow> datetime option \<Rightarrow> db
   \<Rightarrow> (claim_row \<times> db) res" where
  "acquire_upload_claim new_id object_key owner lease_seconds media_type utcnow now s =
     (if lease_seconds < 1 then Inl ValueError
      else bind_res (resolve_now utcnow now) (\<lambda>current.
        let expires = current + lease_seconds * second
        in case get_claim object_key s of
             None \<Rightarrow>
               let row = \<lparr>q_claim_id = new_id, q_object_key = object_key, q_owner = owner,
                          q_status = ClaimLeased, q_claim_generation = 1, q_acquired_at = current,
                          q_lease_expires_at = expires, q_committed_at = None, q_released_at = None,
                          q_sha256 = None, q_size_bytes = None, q_uri = None,
                          q_media_type = media_type, q_created_at = current, q_updated_at = current\<rparr>
               in if \<exists>c\<in>set (upload_claims s). q_claim_id c = new_id then Inl IntegrityError
                  else Inr (row, s\<lparr>upload_claims := upload_claims s @ [row]\<rparr>)
           | Some c \<Rightarrow>
               if q_status c = ClaimCommitted then Inl StaleClaimError
               else if claim_alive current c \<and> q_owner c \<noteq> owner then Inl StaleClaimError
               else let c1 = (if claim_alive current c then c else claim_reacquired owner current c);
                        c2 = (case media_type of None \<Rightarrow> c1 | Some m \<Rightarrow> c1\<lparr>q_media_type := Some m\<rparr>);
                        c3 = c2\<lparr>q_lease_expires_at := expires, q_updated_at := current\<rparr>
                    in Inr (c3, put_claim c3 s)))"

text \<open>\<open>media_type or column\<close>: an empty text counts as absent.\<close>

definition or_else :: "string option \<Rightarrow> string option \<Rightarrow> string option" where
  "or_else a b = (case a of None \<Rightarrow> b | Some t \<Rightarrow> if t = [] then b else a)"

definition claim_committed :: "string \<Rightarrow> int \<Rightarrow> string \<Rightarrow> string option \<Rightarrow> ts \<Rightarrow> claim_row \<Rightarrow> claim_row" where
  "claim_committed sha256 size_bytes uri media_type current c =
     c\<lparr>q_status := ClaimCommitted, q_committed_at := Some current, q_sha256 := Some sha256,
       q_size_bytes := Some size_bytes, q_uri := Some uri,
       q_media_type := or_else media_type (q_media_type c), q_updated_at := current\<rparr>"

definition commit_predicate :: "string \<Rightarrow> int \<Rightarrow> ts \<Rightarrow> claim_row \<Rightarrow> bool" where
  "commit_predicate owner generation current c \<longleftrightarrow>
     q_owner c = owner \<and> q_claim_generation c = generation \<and> claim_alive current c"

definition commit_reference ::
  "string \<Rightarrow> int \<Rightarrow> string \<Rightarrow> string \<Rightarrow> int \<Rightarrow> string \<Rightarrow> string option \<Rightarrow> ts \<Rightarrow> datetime option \<Rightarrow> db
   \<Rightarrow> (claim_row \<times> db) res" where
  "commit_reference object_key generation owner sha256 size_bytes uri media_type utcnow now s =
     bind_res (resolve_now utcnow now) (\<lambda>current.
       case get_claim object_key s of
         None \<Rightarrow> Inl NotFoundError
       | Some c \<Rightarrow>
           if commit_predicate owner generation current c
           then let c' = claim_committed sha256 size_bytes uri media_type current c
                in if claim_checks c' then Inr (c', put_claim c' s) else Inl IntegrityError
           else if q_status c = ClaimCommitted \<and> q_claim_generation c = generation
                  \<and> q_owner c = owner \<and> q_sha256 c = Some sha256
           then Inr (c, s)
           else Inl StaleClaimError)"

definition claim_released :: "ts \<Rightarrow> claim_row \<Rightarrow> claim_row" where
  "claim_released current c =
     c\<lparr>q_status := ClaimReleased, q_released_at := Some current, q_updated_at := current\<rparr>"

definition release_claim ::
  "string \<Rightarrow> int \<Rightarrow> string \<Rightarrow> ts \<Rightarrow> datetime option \<Rightarrow> db \<Rightarrow> (claim_row option \<times> db) res" where
  "release_claim object_key generation owner utcnow now s =
     bind_res (resolve_now utcnow now) (\<lambda>current.
       case get_claim object_key s of
         None \<Rightarrow> Inr (None, s)
       | Some c \<Rightarrow>
           if q_owner c = owner \<and> q_claim_generation c = generation \<and> q_status c = ClaimLeased
           then Inr (Some (claim_released current c), put_claim (claim_released current c) s)
           else if q_status c \<in> {ClaimReleased, ClaimCommitted} then Inr (Some c, s)
           else Inr (None, s))"

definition claim_expired :: "ts \<Rightarrow> claim_row \<Rightarrow> claim_row" where
  "claim_expired current c = c\<lparr>q_status := ClaimExpired, q_updated_at := current\<rparr>"

definition expire_claims ::
  "uuid list \<Rightarrow> nat \<Rightarrow> ts \<Rightarrow> datetime option \<Rightarrow> db \<Rightarrow> (string list \<times> db) res" where
  "expire_claims locked limit utcnow now s =
     bind_res (resolve_now utcnow now) (\<lambda>current.
       let stale = order_limit q_lease_expires_at limit
             (filter (\<lambda>c. q_status c = ClaimLeased \<and> q_lease_expires_at c \<le> current
                \<and> q_claim_id c \<notin> set locked) (upload_claims s));
           rows = upd_selected q_claim_id stale (claim_expired current) (upload_claims s)
       in Inr (map q_object_key (returning q_claim_id stale rows), s\<lparr>upload_claims := rows\<rparr>))"

text \<open>
  \<open>collate\<close> is the collation of the database: a position for every text, in a dense order
  that any countable linear order embeds into.
\<close>

definition orphan :: "ts \<Rightarrow> db \<Rightarrow> claim_row \<Rightarrow> bool" where
  "orphan deadline s c \<longleftrightarrow>
     q_status c \<noteq> ClaimCommitted \<and> q_lease_expires_at c \<le> deadline
     \<and> (\<forall>a\<in>set (normalized_artifacts s). n_object_key a \<noteq> q_object_key c)
     \<and> (\<forall>w\<in>set (raw_objects s). w_object_key w \<noteq> q_object_key c)"

definition orphan_candidates_query :: "(string \<Rightarrow> rat) \<Rightarrow> ts \<Rightarrow> nat \<Rightarrow> db \<Rightarrow> string list" where
  "orphan_candidates_query collate deadline limit s =
     map q_object_key (order_limit (\<lambda>c. (q_lease_expires_at c, collate (q_object_key c))) limit
       (filter (orphan deadline s) (upload_claims s)))"

definition list_orphan_candidates ::
  "(string \<Rightarrow> rat) \<Rightarrow> duration \<Rightarrow> nat \<Rightarrow> ts \<Rightarrow> datetime option \<Rightarrow> db \<Rightarrow> string list res" where
  "list_orphan_candidates collate grace limit utcnow now s =
     (if grace < 0 then Inl ValueError
      else bind_res (resolve_now utcnow now) (\<lambda>current.
        Inr (orphan_candidates_query collate (current - grace) limit s)))"

definition get_normalized_artifact :: "uuid \<Rightarrow> db \<Rightarrow> normalized_artifact option" where
  "get_normalized_artifact i s = find (\<lambda>a. n_artifact_id a = i) (normalized_artifacts s)"

section \<open>What an operation does to the claims\<close>

definition claims_inv :: "db \<Rightarrow> bool" where
  "claims_inv s \<longleftrightarrow> distinct (map q_object_key (upload_claims s)) \<and> distinct (map q_claim_id (upload_claims s))"

text \<open>Only the claim of one key is written.\<close>

definition claim_written :: "claim_row \<Rightarrow> db \<Rightarrow> db \<Rightarrow> bool" where
  "claim_written c s s' \<longleftrightarrow>
     (\<forall>k. get_claim k s' = (if k = q_object_key c then Some c else get_claim k s))
     \<and> (\<exists>rows. s' = s\<lparr>upload_claims := rows\<rparr>) \<and> claims_inv s'"

lemma get_claim_SomeD: "get_claim k s = Some c \<Longrightarrow> c \<in> set (upload_claims s) \<and> q_object_key c = k"
  unfolding get_claim_def by (drule find_SomeD) simp

lemmas get_claim_key = get_claim_SomeD [THEN conjunct2]
lemmas get_claim_mem = get_claim_SomeD [THEN conjunct1]

lemma put_claim_written:
  assumes inv: "claims_inv s" and old: "get_claim (q_object_key c) s = Some c0"
    and ids: "q_claim_id c = q_claim_id c0"
  shows "claim_written c s (put_claim c s)"
proof -
  have k0: "q_object_key c0 = q_object_key c" using get_claim_key [OF old] by simp
  have c0: "c0 \<in> set (upload_claims s)"
    by (rule get_claim_mem [OF old])
  have keys: "map q_object_key (upload_claims (put_claim c s)) = map q_object_key (upload_claims s)"
    by (simp add: put_claim_def upd_where_def)
  have "(if q_object_key r = q_object_key c then q_claim_id c else q_claim_id r) = q_claim_id r"
    if "r \<in> set (upload_claims s)" for r
    using distinct_key_inj [of q_object_key "upload_claims s" r c0] inv that c0 k0 ids
    by (auto simp: claims_inv_def)
  then have ids': "map q_claim_id (upload_claims (put_claim c s)) = map q_claim_id (upload_claims s)"
    by (simp add: put_claim_def upd_where_def if_distrib [of q_claim_id])
  have "get_claim k (put_claim c s) = (if k = q_object_key c then Some c else get_claim k s)" for k
  proof (cases "k = q_object_key c")
    case True
    have "find (\<lambda>x. q_object_key x = q_object_key c)
        (upd_where (\<lambda>x. q_object_key x = q_object_key c) (\<lambda>_. c) (upload_claims s))
      = map_option (\<lambda>r. if q_object_key r = q_object_key c then c else r)
          (find (\<lambda>x. q_object_key x = q_object_key c) (upload_claims s))"
      by (rule find_upd_where) simp
    then show ?thesis using True old k0 by (simp add: get_claim_def put_claim_def)
  next
    case False
    have "find (\<lambda>x. q_object_key x = k)
        (upd_where (\<lambda>x. q_object_key x = q_object_key c) (\<lambda>_. c) (upload_claims s))
      = map_option (\<lambda>r. if q_object_key r = q_object_key c then c else r)
          (find (\<lambda>x. q_object_key x = k) (upload_claims s))"
      using False by (intro find_upd_where) simp
    also have "\<dots> = find (\<lambda>x. q_object_key x = k) (upload_claims s)"
      using False by (cases "find (\<lambda>x. q_object_key x = k) (upload_claims s)")
        (auto dest!: find_SomeD)
    finally show ?thesis using False by (simp add: get_claim_def put_claim_def)
  qed
  then show ?thesis
    unfolding claim_written_def using inv keys ids' by (auto simp: claims_inv_def put_claim_def)
qed

lemma append_claim_written:
  assumes "claims_inv s" and "get_claim (q_object_key c) s = None"
    and "\<forall>x\<in>set (upload_claims s). q_claim_id x \<noteq> q_claim_id c"
  shows "claim_written c s (s\<lparr>upload_claims := upload_claims s @ [c]\<rparr>)"
proof -
  have "get_claim k (s\<lparr>upload_claims := upload_claims s @ [c]\<rparr>)
      = (if k = q_object_key c then Some c else get_claim k s)" for k
    using assms(2) by (auto simp: get_claim_def find_append_rows split: option.split)
  moreover have "\<forall>x\<in>set (upload_claims s). q_object_key x \<noteq> q_object_key c"
    using assms(2) by (auto simp: get_claim_def find_None_iff)
  ultimately show ?thesis
    using assms(1,3) by (auto simp: claim_written_def claims_inv_def)
qed

text \<open>What \<open>acquire_upload_claim\<close> returns, on every branch that returns.\<close>

lemma acquire_claim_cases:
  assumes inv: "claims_inv s"
    and run: "acquire_upload_claim i k owner n m u0 (utc now) s = Inr (c, s')"
  shows "claim_written c s s' \<and> q_object_key c = k \<and> q_owner c = owner \<and> q_status c = ClaimLeased
    \<and> now < q_lease_expires_at c
    \<and> (case get_claim k s of None \<Rightarrow> q_claim_generation c = 1
       | Some c0 \<Rightarrow> q_status c0 \<noteq> ClaimCommitted \<and> (claim_alive now c0 \<longrightarrow> q_owner c0 = owner)
           \<and> q_claim_generation c = q_claim_generation c0 + (if claim_alive now c0 then 0 else 1))"
proof (cases "get_claim k s")
  case None
  then show ?thesis using run append_claim_written [OF inv, of c]
    by (auto simp: acquire_upload_claim_def Let_def split: if_splits)
next
  case (Some c0)
  let ?c1 = "if claim_alive now c0 then c0 else claim_reacquired owner now c0"
  have r: "c = (case m of None \<Rightarrow> ?c1 | Some x \<Rightarrow> ?c1\<lparr>q_media_type := Some x\<rparr>)
        \<lparr>q_lease_expires_at := now + n * second, q_updated_at := now\<rparr>"
    "s' = put_claim c s" "1 \<le> n" "q_status c0 \<noteq> ClaimCommitted"
    "claim_alive now c0 \<longrightarrow> q_owner c0 = owner"
    using run Some by (auto simp: acquire_upload_claim_def Let_def split: if_splits)
  have id: "q_claim_id c = q_claim_id c0" "q_object_key c = k"
    using r(1) get_claim_key [OF Some] by (auto simp: claim_reacquired_def split: option.splits)
  have e: "now < now + n * second" using r(3) by (simp add: second_def)
  have "claim_written c s s'"
    unfolding r(2) by (rule put_claim_written [OF inv, of _ c0]) (simp_all add: id Some)
  then show ?thesis
    using r e id Some
    by (auto simp: claim_reacquired_def claim_alive_def split: option.splits if_splits)
qed

lemma commit_cases:
  assumes inv: "claims_inv s"
    and run: "commit_reference k g owner h n uri m u0 (utc now) s = Inr (c, s')"
  shows "(s' = s \<and> get_claim k s = Some c \<and> q_status c = ClaimCommitted)
    \<or> (claim_written c s s' \<and> q_object_key c = k \<and> q_status c = ClaimCommitted \<and> q_sha256 c = Some h
       \<and> q_owner c = owner \<and> q_claim_generation c = g
       \<and> (\<exists>c0. get_claim k s = Some c0 \<and> commit_predicate owner g now c0))"
proof -
  obtain c0 where c0: "get_claim k s = Some c0"
    using run by (auto simp: commit_reference_def split: option.splits)
  show ?thesis
  proof (cases "commit_predicate owner g now c0")
    case True
    then have c: "c = claim_committed h n uri m now c0" "s' = put_claim c s"
      using run c0 by (auto simp: commit_reference_def Let_def split: if_splits)
    have k: "q_object_key c = k" "q_claim_id c = q_claim_id c0"
      using get_claim_key [OF c0] c(1) by (simp_all add: claim_committed_def)
    have "claim_written c s s'"
      unfolding c(2) by (rule put_claim_written [OF inv, of _ c0]) (simp_all add: k c0)
    then show ?thesis using True c0 k c(1) by (auto simp: claim_committed_def commit_predicate_def)
  next
    case False
    then show ?thesis using run c0 by (auto simp: commit_reference_def split: if_splits)
  qed
qed

lemma release_cases:
  assumes inv: "claims_inv s" and run: "release_claim k g owner u0 (utc now) s = Inr (r, s')"
  shows "s' = s \<or> (\<exists>c. r = Some c \<and> claim_written c s s' \<and> q_object_key c = k \<and> q_status c = ClaimReleased
    \<and> (\<exists>c0. get_claim k s = Some c0 \<and> q_owner c0 = owner \<and> q_status c0 = ClaimLeased
         \<and> q_claim_generation c = q_claim_generation c0))"
proof (cases "get_claim k s")
  case None
  then show ?thesis using run by (simp add: release_claim_def)
next
  case (Some c0)
  have "claim_written (claim_released now c0) s (put_claim (claim_released now c0) s)"
    by (rule put_claim_written [OF inv, of _ c0])
      (simp_all add: claim_released_def Some get_claim_key [OF Some])
  then show ?thesis using run Some get_claim_key [OF Some]
    by (auto simp: release_claim_def claim_released_def split: if_splits)
qed

lemma expire_cases:
  assumes inv: "claims_inv s" and run: "expire_claims locked n u0 (utc now) s = Inr (ks, s')"
  shows "claims_inv s' \<and> (\<exists>rows. s' = s\<lparr>upload_claims := rows\<rparr>)
    \<and> (\<forall>k. get_claim k s' = get_claim k s
        \<or> (\<exists>c. get_claim k s = Some c \<and> get_claim k s' = Some (claim_expired now c)
             \<and> q_status c = ClaimLeased \<and> q_lease_expires_at c \<le> now))"
proof -
  let ?P = "\<lambda>c. q_status c = ClaimLeased \<and> q_lease_expires_at c \<le> now \<and> q_claim_id c \<notin> set locked"
  let ?stale = "order_limit q_lease_expires_at n (filter ?P (upload_claims s))"
  let ?rows = "upd_selected q_claim_id ?stale (claim_expired now) (upload_claims s)"
  have s': "s' = s\<lparr>upload_claims := ?rows\<rparr>" using run by (auto simp: expire_claims_def Let_def)
  have ids: "distinct (map q_claim_id (upload_claims s))" using inv by (simp add: claims_inv_def)
  have keys: "map q_object_key ?rows = map q_object_key (upload_claims s)"
    "map q_claim_id ?rows = map q_claim_id (upload_claims s)"
    by (simp_all add: upd_selected_def map_upd_where claim_expired_def)
  have step: "get_claim k s' = map_option (\<lambda>c. if q_claim_id c \<in> q_claim_id ` set ?stale
      then claim_expired now c else c) (get_claim k s)" for k
    unfolding s' get_claim_def upd_selected_def by (simp add: find_upd_where claim_expired_def)
  have "get_claim k s' = get_claim k s
        \<or> (\<exists>c. get_claim k s = Some c \<and> get_claim k s' = Some (claim_expired now c)
             \<and> q_status c = ClaimLeased \<and> q_lease_expires_at c \<le> now)" for k
  proof (cases "get_claim k s")
    case None
    then show ?thesis using step [of k] by simp
  next
    case (Some c)
    then have c: "c \<in> set (upload_claims s)" by (rule get_claim_mem)
    show ?thesis
    proof (cases "q_claim_id c \<in> q_claim_id ` set ?stale")
      case True
      with selected_row [OF ids c True] step [of k] Some show ?thesis by simp
    next
      case False
      with step [of k] Some show ?thesis by simp
    qed
  qed
  then show ?thesis using inv keys s' by (auto simp: claims_inv_def)
qed

end
