(* ===== verification/Object_Store.thy ===== *)
theory Object_Store
  imports Contracts
begin

text \<open>
  \<open>storage/store.py\<close>, \<open>storage/testing.py\<close> and \<open>storage/keys.py\<close>: the artifact
  store. \<open>S3ArtifactStore\<close> is modelled over an S3 client given as a record of functions (the
  service is not part of the repository); \<open>FakeArtifactStore\<close>, the in-memory store with the same
  integrity contract, is modelled as it is written. SHA-256 is the argument \<open>sha\<close>.
\<close>

section \<open>Objects and locations\<close>

record object_head =
  oh_size :: int
  oh_sha256 :: string
  oh_etag :: "string option"
  oh_media_type :: "string option"

record stored_object = object_head +
  so_bucket :: string
  so_key :: string

definition location_uri :: "string \<Rightarrow> string \<Rightarrow> string" where
  "location_uri bucket key = ''s3://'' @ bucket @ ''/'' @ key"

definition stored_uri :: "stored_object \<Rightarrow> string" where
  "stored_uri so = location_uri (so_bucket so) (so_key so)"

definition SHA256_METADATA_KEY :: string where
  "SHA256_METADATA_KEY = ''sha256''"

definition validate_location :: "string \<Rightarrow> string \<Rightarrow> unit res" where
  "validate_location bucket key =
     (if bucket = [] \<or> CHR ''/'' \<in> set bucket \<or> bucket = ''.'' \<or> bucket = ''..'' then Inl ValueError
      else if key = [] \<or> hd key = CHR ''/'' \<or> CHR 0x00 \<in> set key then Inl ValueError
      else Inr ())"

definition validate_digest :: "string \<Rightarrow> unit res" where
  "validate_digest v = (if is_hex64 v then Inr () else Inl ValueError)"

lemma validate_Inr [simp]:
  "validate_digest v = Inr x \<longleftrightarrow> is_hex64 v"
  "validate_digest v = Inl e \<longleftrightarrow> \<not> is_hex64 v \<and> e = ValueError"
  by (auto simp: validate_digest_def)

definition raw_object_key :: "string \<Rightarrow> string res" where
  "raw_object_key sha256 = bind_res (validate_digest sha256) (\<lambda>_. Inr (''raw/'' @ sha256))"

definition normalized_object_key :: "uuid \<Rightarrow> string \<Rightarrow> string res" where
  "normalized_object_key entity_uuid sha256 =
     bind_res (validate_digest sha256)
       (\<lambda>_. Inr (''normalized/'' @ uuid_str entity_uuid @ ''/'' @ sha256 @ ''.json''))"

section \<open>The in-memory store\<close>

record memory_object =
  mo_data :: string
  mo_sha256 :: string
  mo_media_type :: string

record fake_store =
  fs_buckets :: "string list"
  fs_objects :: "string \<times> string \<rightharpoonup> memory_object"
  fs_put_calls :: "(string \<times> string) list"
  fs_head_calls :: "(string \<times> string) list"
  fs_delete_calls :: "(string \<times> string) list"

definition fake_init :: "string list option \<Rightarrow> fake_store" where
  "fake_init bs = \<lparr>fs_buckets = (case bs of Some (b # rest) \<Rightarrow> b # rest
      | _ \<Rightarrow> [''raw'', ''normalized'', ''events'', ''archive'']),
     fs_objects = Map.empty, fs_put_calls = [], fs_head_calls = [], fs_delete_calls = []\<rparr>"

definition fake_put ::
  "(string \<Rightarrow> string) \<Rightarrow> string \<Rightarrow> string \<Rightarrow> string \<Rightarrow> string \<Rightarrow> string \<Rightarrow> fake_store
   \<Rightarrow> (stored_object \<times> fake_store) res" where
  "fake_put sha bucket key data sha256 media_type st =
     bind_res (validate_location bucket key) (\<lambda>_.
     bind_res (validate_digest sha256) (\<lambda>_.
       if bucket \<notin> set (fs_buckets st) then Inl ArtifactNotFoundError
       else if sha data \<noteq> sha256 then Inl ArtifactIntegrityError
       else Inr (\<lparr>oh_size = int (length data), oh_sha256 = sha256, oh_etag = None,
                  oh_media_type = Some media_type, so_bucket = bucket, so_key = key\<rparr>,
            st\<lparr>fs_put_calls := fs_put_calls st @ [(bucket, key)],
               fs_objects := (fs_objects st)((bucket, key) \<mapsto>
                 \<lparr>mo_data = data, mo_sha256 = sha256, mo_media_type = media_type\<rparr>)\<rparr>)))"

text \<open>The call is recorded before the object is looked up, so it is recorded when it raises too.\<close>

definition fake_head :: "string \<Rightarrow> string \<Rightarrow> fake_store \<Rightarrow> object_head res \<times> fake_store" where
  "fake_head bucket key st =
     (case validate_location bucket key of
        Inl e \<Rightarrow> (Inl e, st)
      | Inr _ \<Rightarrow>
          ((case fs_objects st (bucket, key) of
              None \<Rightarrow> Inl ArtifactNotFoundError
            | Some o' \<Rightarrow> Inr \<lparr>oh_size = int (length (mo_data o')), oh_sha256 = mo_sha256 o',
                              oh_etag = None, oh_media_type = Some (mo_media_type o')\<rparr>),
           st\<lparr>fs_head_calls := fs_head_calls st @ [(bucket, key)]\<rparr>))"

definition fake_get ::
  "(string \<Rightarrow> string) \<Rightarrow> string \<Rightarrow> string \<Rightarrow> string \<Rightarrow> int option \<Rightarrow> fake_store \<Rightarrow> string res" where
  "fake_get sha bucket key expected_sha256 max_bytes st =
     (case fs_objects st (bucket, key) of
        None \<Rightarrow> Inl ArtifactNotFoundError
      | Some o' \<Rightarrow>
          if mo_sha256 o' \<noteq> expected_sha256 \<or> sha (mo_data o') \<noteq> expected_sha256
          then Inl ArtifactIntegrityError
          else if (case max_bytes of None \<Rightarrow> False | Some m \<Rightarrow> m < int (length (mo_data o')))
          then Inl ArtifactTooLargeError
          else Inr (mo_data o'))"

definition fake_delete :: "string \<Rightarrow> string \<Rightarrow> fake_store \<Rightarrow> fake_store res" where
  "fake_delete bucket key st =
     bind_res (validate_location bucket key) (\<lambda>_.
       Inr (st\<lparr>fs_delete_calls := fs_delete_calls st @ [(bucket, key)],
               fs_objects := (fs_objects st)((bucket, key) := None)\<rparr>))"

definition fake_check_ready :: "string \<Rightarrow> fake_store \<Rightarrow> unit res" where
  "fake_check_ready bucket st =
     (if bucket \<in> set (fs_buckets st) then Inr () else Inl ArtifactNotFoundError)"

definition fake_corrupt :: "string \<Rightarrow> string \<Rightarrow> string \<Rightarrow> fake_store \<Rightarrow> fake_store res" where
  "fake_corrupt bucket key data st =
     (case fs_objects st (bucket, key) of
        None \<Rightarrow> Inl KeyError
      | Some o' \<Rightarrow> Inr (st\<lparr>fs_objects := (fs_objects st)((bucket, key) \<mapsto> o'\<lparr>mo_data := data\<rparr>)\<rparr>))"

definition put_normalized ::
  "(string \<Rightarrow> string) \<Rightarrow> string \<Rightarrow> normalized_artifact_ref \<Rightarrow> string \<Rightarrow> fake_store
   \<Rightarrow> (stored_object \<times> fake_store) res" where
  "put_normalized sha bucket ref body st =
     (if sha body \<noteq> ar_sha256 ref \<or> int (length body) \<noteq> ar_size_bytes ref
      then Inl ArtifactIntegrityError
      else bind_res (normalized_object_key (ar_entity_uuid ref) (ar_sha256 ref)) (\<lambda>key.
        if ar_uri ref \<noteq> location_uri bucket key then Inl ValueError
        else fake_put sha bucket key body (ar_sha256 ref) (ar_media_type ref) st))"

section \<open>The S3 store\<close>

text \<open>
  The S3 client: \<open>put_object\<close> may fail with a \<open>ClientError\<close>, \<open>head_object\<close> and
  \<open>get_object\<close> return the error code of the service or the response; the body is read in
  the chunks the service delivers.
\<close>

record head_response =
  hr_metadata :: "(string \<times> string) list"
  hr_content_length :: int
  hr_etag :: "string option"
  hr_content_type :: "string option"

record 'w s3_client =
  put_object :: "string \<Rightarrow> string \<Rightarrow> string \<Rightarrow> string \<Rightarrow> (string \<times> string) list \<Rightarrow> 'w \<Rightarrow> 'w res"
  head_object :: "string \<Rightarrow> string \<Rightarrow> 'w \<Rightarrow> string + head_response"
  get_object :: "string \<Rightarrow> string \<Rightarrow> 'w \<Rightarrow> string + string list"
  delete_object :: "string \<Rightarrow> string \<Rightarrow> 'w \<Rightarrow> 'w res"

definition missing_code :: "string \<Rightarrow> bool" where
  "missing_code c \<longleftrightarrow> c \<in> set [''404'', ''NoSuchKey'', ''NotFound'']"

definition client_error :: "string \<Rightarrow> error" where
  "client_error code = (if missing_code code then ArtifactNotFoundError else StorageError)"

text \<open>\<open>str.lower\<close> on the octets of a metadata name (S3 metadata names are ASCII).\<close>

definition ascii_lower :: "char \<Rightarrow> char" where
  "ascii_lower c = (let n = of_char c :: nat in if 65 \<le> n \<and> n \<le> 90 then char_of (n + 32) else c)"

definition strip_quotes :: "string \<Rightarrow> string" where
  "strip_quotes s = rev (dropWhile (\<lambda>c. c = CHR 0x22) (rev (dropWhile (\<lambda>c. c = CHR 0x22) s)))"

definition s3_head :: "'w s3_client \<Rightarrow> string \<Rightarrow> string \<Rightarrow> 'w \<Rightarrow> object_head res" where
  "s3_head cl bucket key w =
     bind_res (validate_location bucket key) (\<lambda>_.
       case head_object cl bucket key w of
         Inl code \<Rightarrow> Inl (client_error code)
       | Inr r \<Rightarrow>
           (case map_of (rev (map (\<lambda>(k, v). (map ascii_lower k, v)) (hr_metadata r))) SHA256_METADATA_KEY of
              None \<Rightarrow> Inl ArtifactIntegrityError
            | Some digest \<Rightarrow>
                bind_res (validate_digest digest) (\<lambda>_.
                  let tag = strip_quotes (case hr_etag r of None \<Rightarrow> [] | Some t \<Rightarrow> t)
                  in Inr \<lparr>oh_size = hr_content_length r, oh_sha256 = digest,
                          oh_etag = (if tag = [] then None else Some tag),
                          oh_media_type = hr_content_type r\<rparr>)))"

definition s3_put ::
  "(string \<Rightarrow> string) \<Rightarrow> 'w s3_client \<Rightarrow> string \<Rightarrow> string \<Rightarrow> string \<Rightarrow> string \<Rightarrow> string \<Rightarrow> 'w
   \<Rightarrow> (stored_object \<times> 'w) res" where
  "s3_put sha cl bucket key data sha256 media_type w =
     bind_res (validate_location bucket key) (\<lambda>_.
     bind_res (validate_digest sha256) (\<lambda>_.
       if sha data \<noteq> sha256 then Inl ArtifactIntegrityError
       else bind_res (put_object cl bucket key data media_type [(SHA256_METADATA_KEY, sha256)] w) (\<lambda>w'.
            bind_res (s3_head cl bucket key w') (\<lambda>h.
              if oh_size h \<noteq> int (length data) \<or> oh_sha256 h \<noteq> sha256 then Inl ArtifactIntegrityError
              else Inr (\<lparr>oh_size = oh_size h, oh_sha256 = oh_sha256 h, oh_etag = oh_etag h,
                         oh_media_type = oh_media_type h, so_bucket = bucket, so_key = key\<rparr>, w')))))"

text \<open>
  The loop of \<open>_stream\<close> over the chunks of the body: it stops with an error as soon as more than
  \<open>max_bytes\<close> have come, and at the end compares the size and the digest of what it has seen.
\<close>

fun stream_chunks :: "int option \<Rightarrow> string list \<Rightarrow> string list \<Rightarrow> string res" where
  "stream_chunks max_bytes acc [] = Inr (concat acc)"
| "stream_chunks max_bytes acc (chunk # rest) =
     (if chunk = [] then Inr (concat acc)
      else if (case max_bytes of None \<Rightarrow> False | Some m \<Rightarrow> m < int (length (concat acc) + length chunk))
      then Inl ArtifactTooLargeError
      else stream_chunks max_bytes (acc @ [chunk]) rest)"

definition s3_stream ::
  "(string \<Rightarrow> string) \<Rightarrow> 'w s3_client \<Rightarrow> string \<Rightarrow> string \<Rightarrow> string \<Rightarrow> int option \<Rightarrow> 'w \<Rightarrow> string res" where
  "s3_stream sha cl bucket key expected_sha256 max_bytes w =
     bind_res (validate_location bucket key) (\<lambda>_.
     bind_res (validate_digest expected_sha256) (\<lambda>_.
     if (case max_bytes of None \<Rightarrow> False | Some m \<Rightarrow> m < 0) then Inl ValueError
     else bind_res (s3_head cl bucket key w) (\<lambda>h.
       if oh_sha256 h \<noteq> expected_sha256 then Inl ArtifactIntegrityError
       else if (case max_bytes of None \<Rightarrow> False | Some m \<Rightarrow> m < oh_size h) then Inl ArtifactTooLargeError
       else case get_object cl bucket key w of
              Inl code \<Rightarrow> Inl (client_error code)
            | Inr chunks \<Rightarrow>
                bind_res (stream_chunks max_bytes [] chunks) (\<lambda>body.
                  if int (length body) \<noteq> oh_size h \<or> sha body \<noteq> expected_sha256
                  then Inl ArtifactIntegrityError else Inr body))))"

definition s3_get ::
  "(string \<Rightarrow> string) \<Rightarrow> 'w s3_client \<Rightarrow> string \<Rightarrow> string \<Rightarrow> string \<Rightarrow> int \<Rightarrow> 'w \<Rightarrow> string res" where
  "s3_get sha cl bucket key expected_sha256 max_bytes w =
     (if max_bytes < 0 then Inl ValueError
      else s3_stream sha cl bucket key expected_sha256 (Some max_bytes) w)"

definition s3_delete :: "'w s3_client \<Rightarrow> string \<Rightarrow> string \<Rightarrow> 'w \<Rightarrow> 'w res" where
  "s3_delete cl bucket key w =
     bind_res (validate_location bucket key) (\<lambda>_. delete_object cl bucket key w)"

section \<open>Integrity\<close>

text \<open>
  What the store promises whatever the service does: bytes that come back have the digest and the
  bound that were asked for, and a write that returns has been read back.
\<close>

lemma stream_chunks_length:
  "stream_chunks (Some m) acc chunks = Inr body \<Longrightarrow> int (length (concat acc)) \<le> m \<Longrightarrow>
   int (length body) \<le> m"
  by (induction "Some m" acc chunks rule: stream_chunks.induct) (auto split: if_splits)

lemma stream_chunks_all:
  assumes "[] \<notin> set chunks"
    and "case max_bytes of None \<Rightarrow> True | Some m \<Rightarrow> int (length (concat acc @ concat chunks)) \<le> m"
  shows "stream_chunks max_bytes acc chunks = Inr (concat acc @ concat chunks)"
  using assms
  by (induction max_bytes acc chunks rule: stream_chunks.induct) (auto split: option.splits)

definition memory_client :: "fake_store s3_client" where
  "memory_client = \<lparr>
     put_object = (\<lambda>b k d m md st. case md of
        [(_, s)] \<Rightarrow> Inr (st\<lparr>fs_objects := (fs_objects st)((b, k) \<mapsto>
                      \<lparr>mo_data = d, mo_sha256 = s, mo_media_type = m\<rparr>)\<rparr>)
      | _ \<Rightarrow> Inl ClientError),
     head_object = (\<lambda>b k st. case fs_objects st (b, k) of
        None \<Rightarrow> Inl ''404''
      | Some x \<Rightarrow> Inr \<lparr>hr_metadata = [(SHA256_METADATA_KEY, mo_sha256 x)],
                       hr_content_length = int (length (mo_data x)), hr_etag = Some ''tag'',
                       hr_content_type = Some (mo_media_type x)\<rparr>),
     get_object = (\<lambda>b k st. case fs_objects st (b, k) of
        None \<Rightarrow> Inl ''NoSuchKey''
      | Some x \<Rightarrow> Inr (map (\<lambda>c. [c]) (mo_data x))),
     delete_object = (\<lambda>b k st. Inr (st\<lparr>fs_objects := (fs_objects st)((b, k) := None)\<rparr>))\<rparr>"

definition demo_sha :: "string \<Rightarrow> string" where
  "demo_sha d = replicate 64 (hex_digit (length d))"

definition demo_store :: fake_store where
  "demo_store = (fake_init None)\<lparr>fs_objects :=
     [(''raw'', ''raw/x'') \<mapsto> \<lparr>mo_data = ''abc'', mo_sha256 = demo_sha ''abc'', mo_media_type = ''text/html''\<rparr>]\<rparr>"

text \<open>
  The artifact store fails closed: over any S3 service whatsoever, bytes that
  \<open>S3ArtifactStore.get\<close> returns have the expected SHA-256 and are at most \<open>max_bytes\<close> long, so a
  corrupted, swapped or oversized object is never handed to a consumer.
\<close>

theorem get_returns_only_the_expected_bytes:
  assumes "s3_get sha cl bucket key expected_sha256 max_bytes w = Inr body"
  shows "sha body = expected_sha256 \<and> int (length body) \<le> max_bytes \<and> is_hex64 expected_sha256"
  using assms
  by (auto simp: s3_get_def s3_stream_def split: if_splits sum.splits
      dest!: stream_chunks_length)

theorem get_returns_only_the_expected_bytes_witness:
  "s3_get demo_sha memory_client ''raw'' ''raw/x'' (demo_sha ''abc'') 3 demo_store = Inr ''abc''
   \<and> is_hex64 (demo_sha ''abc'') \<and> int (length ''abc'') \<le> 3"
proof -
  have r: "s3_get demo_sha memory_client ''raw'' ''raw/x'' (demo_sha ''abc'') 3 demo_store = Inr ''abc''"
    by code_simp
  from get_returns_only_the_expected_bytes [OF r] show ?thesis
    using r by simp
qed

section \<open>The S3 store refines the in-memory store\<close>

text \<open>
  A world of the service shows the objects of an in-memory store when a HEAD answers with their
  size, digest and media type, a GET delivers their bytes in non-empty chunks, and both say that an
  object is missing when it is. A service is lawful when a PUT and a DELETE have that effect and
  nothing else: the documented read-after-write consistency of S3.
\<close>

definition shows_object :: "'w s3_client \<Rightarrow> string \<Rightarrow> string \<Rightarrow> 'w \<Rightarrow> memory_object \<Rightarrow> bool" where
  "shows_object cl b k w x \<longleftrightarrow>
     (\<exists>tag. head_object cl b k w =
        Inr \<lparr>hr_metadata = [(SHA256_METADATA_KEY, mo_sha256 x)],
             hr_content_length = int (length (mo_data x)), hr_etag = tag,
             hr_content_type = Some (mo_media_type x)\<rparr>)
     \<and> (\<exists>chunks. get_object cl b k w = Inr chunks \<and> concat chunks = mo_data x \<and> [] \<notin> set chunks)"

definition shows_nothing :: "'w s3_client \<Rightarrow> string \<Rightarrow> string \<Rightarrow> 'w \<Rightarrow> bool" where
  "shows_nothing cl b k w \<longleftrightarrow>
     (\<exists>c. head_object cl b k w = Inl c \<and> missing_code c)
     \<and> (\<exists>c. get_object cl b k w = Inl c \<and> missing_code c)"

definition s3_abs :: "'w s3_client \<Rightarrow> 'w \<Rightarrow> fake_store \<Rightarrow> bool" where
  "s3_abs cl w st \<longleftrightarrow>
     (\<forall>b k. case fs_objects st (b, k) of
        None \<Rightarrow> shows_nothing cl b k w | Some x \<Rightarrow> shows_object cl b k w x)"

definition s3_lawful :: "'w s3_client \<Rightarrow> string list \<Rightarrow> bool" where
  "s3_lawful cl bs \<longleftrightarrow>
     (\<forall>w st b k d m s. s3_abs cl w st \<and> b \<in> set bs \<longrightarrow>
        (\<exists>w'. put_object cl b k d m [(SHA256_METADATA_KEY, s)] w = Inr w'
          \<and> s3_abs cl w' (st\<lparr>fs_objects := (fs_objects st)((b, k) \<mapsto>
              \<lparr>mo_data = d, mo_sha256 = s, mo_media_type = m\<rparr>)\<rparr>)))
     \<and> (\<forall>w st b k. s3_abs cl w st \<longrightarrow>
        (\<exists>w'. delete_object cl b k w = Inr w'
          \<and> s3_abs cl w' (st\<lparr>fs_objects := (fs_objects st)((b, k) := None)\<rparr>)))"

text \<open>No object has been tampered with: its bytes have the digest of its metadata.\<close>

definition untampered :: "(string \<Rightarrow> string) \<Rightarrow> fake_store \<Rightarrow> bool" where
  "untampered sha st \<longleftrightarrow>
     (\<forall>loc x. fs_objects st loc = Some x \<longrightarrow> sha (mo_data x) = mo_sha256 x \<and> is_hex64 (mo_sha256 x))"

lemma ascii_lower_sha256 [simp]: "map ascii_lower SHA256_METADATA_KEY = SHA256_METADATA_KEY"
  by code_simp

lemma s3_abs_objects:
  "fs_objects st' = fs_objects st \<Longrightarrow> s3_abs cl w st' = s3_abs cl w st"
  by (simp add: s3_abs_def)

lemma s3_abs_None: "s3_abs cl w st \<Longrightarrow> fs_objects st (b, k) = None \<Longrightarrow> shows_nothing cl b k w"
  unfolding s3_abs_def by (drule spec [of _ b], drule spec [of _ k]) simp

lemma s3_abs_Some: "s3_abs cl w st \<Longrightarrow> fs_objects st (b, k) = Some x \<Longrightarrow> shows_object cl b k w x"
  unfolding s3_abs_def by (drule spec [of _ b], drule spec [of _ k]) simp

lemma s3_head_abs:
  assumes "s3_abs cl w st" and "untampered sha st"
  shows "map_sum id (\<lambda>h. h\<lparr>oh_etag := None\<rparr>) (s3_head cl b k w) = fst (fake_head b k st)"
proof (cases "validate_location b k")
  case (Inl e)
  then show ?thesis by (simp add: s3_head_def fake_head_def)
next
  case (Inr u)
  show ?thesis
  proof (cases "fs_objects st (b, k)")
    case None
    then have "shows_nothing cl b k w" by (rule s3_abs_None [OF assms(1)])
    then show ?thesis using Inr None
      by (auto simp: s3_head_def fake_head_def shows_nothing_def client_error_def)
  next
    case (Some x)
    then have "shows_object cl b k w x" by (rule s3_abs_Some [OF assms(1)])
    moreover have "is_hex64 (mo_sha256 x)" using assms(2) Some by (auto simp: untampered_def)
    ultimately show ?thesis using Inr Some
      by (auto simp: s3_head_def fake_head_def shows_object_def validate_digest_def Let_def)
  qed
qed

lemma s3_get_abs:
  assumes "s3_abs cl w st" and "untampered sha st"
    and "validate_location b k = Inr ()" and "is_hex64 e" and "0 \<le> m"
  shows "s3_get sha cl b k e m w = fake_get sha b k e (Some m) st"
proof (cases "fs_objects st (b, k)")
  case None
  then have "shows_nothing cl b k w" by (rule s3_abs_None [OF assms(1)])
  then show ?thesis using None assms(3-5)
    by (auto simp: s3_get_def s3_stream_def s3_head_def fake_get_def shows_nothing_def
        client_error_def validate_digest_def)
next
  case (Some x)
  then have "shows_object cl b k w x" by (rule s3_abs_Some [OF assms(1)])
  then obtain tag chunks where
    h: "head_object cl b k w = Inr \<lparr>hr_metadata = [(SHA256_METADATA_KEY, mo_sha256 x)],
        hr_content_length = int (length (mo_data x)), hr_etag = tag,
        hr_content_type = Some (mo_media_type x)\<rparr>"
    and g: "get_object cl b k w = Inr chunks" "concat chunks = mo_data x" "[] \<notin> set chunks"
    by (auto simp: shows_object_def)
  have x: "sha (mo_data x) = mo_sha256 x" "is_hex64 (mo_sha256 x)"
    using assms(2) Some by (auto simp: untampered_def)
  have "stream_chunks (Some m) [] chunks = Inr (mo_data x)" if "int (length (mo_data x)) \<le> m"
    using stream_chunks_all [where chunks = chunks and max_bytes = "Some m" and acc = "[]"] that g by simp
  then show ?thesis using Some assms(3-5) h g x
    by (auto simp: s3_get_def s3_stream_def s3_head_def fake_get_def validate_digest_def Let_def)
qed

lemma s3_put_abs:
  assumes law: "s3_lawful cl (fs_buckets st)" and abs: "s3_abs cl w st" and unt: "untampered sha st"
    and put: "fake_put sha b k d s m st = Inr (so, st')"
  shows "\<exists>so' w'. s3_put sha cl b k d s m w = Inr (so', w') \<and> so'\<lparr>oh_etag := None\<rparr> = so
    \<and> s3_abs cl w' st' \<and> untampered sha st'"
proof -
  from put have ok: "validate_location b k = Inr ()" "is_hex64 s" "b \<in> set (fs_buckets st)" "sha d = s"
    and so: "so = \<lparr>oh_size = int (length d), oh_sha256 = s, oh_etag = None, oh_media_type = Some m,
               so_bucket = b, so_key = k\<rparr>"
    and st': "fs_objects st' = (fs_objects st)((b, k) \<mapsto>
               \<lparr>mo_data = d, mo_sha256 = s, mo_media_type = m\<rparr>)"
    by (auto simp: fake_put_def split: if_splits)
  obtain w' where w': "put_object cl b k d m [(SHA256_METADATA_KEY, s)] w = Inr w'"
    and a: "s3_abs cl w' st'"
    using law abs ok(3) st' unfolding s3_lawful_def
    by (metis (no_types, lifting) fake_store.select_convs(2) fake_store.surjective
        fake_store.update_convs(2) s3_abs_objects)
  have u: "untampered sha st'" using unt ok st' by (auto simp: untampered_def)
  have "shows_object cl b k w' \<lparr>mo_data = d, mo_sha256 = s, mo_media_type = m\<rparr>"
    by (rule s3_abs_Some [OF a]) (simp add: st')
  then obtain h where h: "s3_head cl b k w' = Inr h" "oh_size h = int (length d)" "oh_sha256 h = s"
      "oh_media_type h = Some m"
    using ok by (auto simp: shows_object_def s3_head_def validate_digest_def Let_def)
  have "s3_put sha cl b k d s m w = Inr (\<lparr>oh_size = oh_size h, oh_sha256 = oh_sha256 h,
      oh_etag = oh_etag h, oh_media_type = oh_media_type h, so_bucket = b, so_key = k\<rparr>, w')"
    using ok w' h by (simp add: s3_put_def validate_digest_def)
  then show ?thesis using a u so h by simp
qed

lemma s3_put_error:
  assumes "fake_put sha b k d s m st = Inl e" and "b \<in> set (fs_buckets st)"
  shows "s3_put sha cl b k d s m w = Inl e"
  using assms by (cases "validate_location b k") (auto simp: fake_put_def s3_put_def validate_digest_def split: if_splits)

lemma s3_delete_abs:
  assumes "s3_lawful cl bs" and "s3_abs cl w st" and "untampered sha st"
    and "fake_delete b k st = Inr st'"
  shows "\<exists>w'. s3_delete cl b k w = Inr w' \<and> s3_abs cl w' st' \<and> untampered sha st'"
proof -
  from assms(4) have ok: "validate_location b k = Inr ()"
    and st': "fs_objects st' = (fs_objects st)((b, k) := None)"
    by (auto simp: fake_delete_def)
  obtain w' where w': "delete_object cl b k w = Inr w'"
    and "s3_abs cl w' (st\<lparr>fs_objects := (fs_objects st)((b, k) := None)\<rparr>)"
    using assms(1,2) unfolding s3_lawful_def by blast
  from this(2) have "s3_abs cl w' st'"
    by (rule s3_abs_objects [THEN iffD1, rotated]) (simp add: st')
  moreover have "untampered sha st'" using assms(3) by (auto simp: untampered_def st')
  ultimately show ?thesis using ok w' by (auto simp: s3_delete_def)
qed

lemma memory_client_abs: "s3_abs memory_client w st \<longleftrightarrow> fs_objects w = fs_objects st"
proof
  assume a: "s3_abs memory_client w st"
  show "fs_objects w = fs_objects st"
  proof
    fix loc :: "string \<times> string"
    obtain b k where loc: "loc = (b, k)" by (cases loc)
    show "fs_objects w loc = fs_objects st loc"
    proof (cases "fs_objects st (b, k)")
      case None
      with s3_abs_None [OF a this] loc show ?thesis
        by (auto simp: shows_nothing_def memory_client_def split: option.splits)
    next
      case (Some x)
      from s3_abs_Some [OF a this] obtain y where y: "fs_objects w (b, k) = Some y"
        "mo_sha256 y = mo_sha256 x" "mo_media_type y = mo_media_type x"
        "concat (map (\<lambda>c. [c]) (mo_data y)) = mo_data x"
        by (auto simp: shows_object_def memory_client_def split: option.splits)
      then have "y = x" by (cases x, cases y) simp
      then show ?thesis using y(1) Some loc by simp
    qed
  qed
next
  assume e: "fs_objects w = fs_objects st"
  have "shows_nothing memory_client b k w" if "fs_objects st (b, k) = None" for b k
    using that e by (simp add: shows_nothing_def memory_client_def missing_code_def)
  moreover have "shows_object memory_client b k w x" if "fs_objects st (b, k) = Some x" for b k x
    using that e by (auto simp: shows_object_def memory_client_def)
  ultimately show "s3_abs memory_client w st"
    by (simp add: s3_abs_def split: option.split)
qed

lemma memory_client_lawful: "s3_lawful memory_client bs"
  unfolding s3_lawful_def memory_client_abs by (simp add: memory_client_def)

text \<open>
  C21. \<open>S3ArtifactStore\<close> over a lawful service refines \<open>FakeArtifactStore\<close>: from related
  states, a PUT that the in-memory store accepts is accepted with the same description (up to the
  ETag, which only the service has) and leads to related states, one that it refuses in an existing
  bucket is refused with the same error, a HEAD gives the same answer, a GET of a well-formed
  location returns the same bytes or the same error, and a DELETE leads to related states. What the
  consumers prove against the in-memory store therefore holds for S3.
\<close>

theorem s3_store_refines_memory_store:
  assumes law: "s3_lawful cl (fs_buckets st)" and abs: "s3_abs cl w st" and unt: "untampered sha st"
  shows "(case fake_put sha b k d s m st of
        Inr (so, st') \<Rightarrow> \<exists>so' w'. s3_put sha cl b k d s m w = Inr (so', w')
          \<and> so'\<lparr>oh_etag := None\<rparr> = so \<and> s3_abs cl w' st' \<and> untampered sha st'
      | Inl e \<Rightarrow> (if b \<in> set (fs_buckets st) then s3_put sha cl b k d s m w = Inl e
                  else e \<in> {ValueError, ArtifactNotFoundError}))
    \<and> map_sum id (\<lambda>h. h\<lparr>oh_etag := None\<rparr>) (s3_head cl b k w) = fst (fake_head b k st)
    \<and> (if validate_location b k = Inr () \<and> is_hex64 s \<and> 0 \<le> n
       then s3_get sha cl b k s n w = fake_get sha b k s (Some n) st
       else \<exists>e. s3_get sha cl b k s n w = Inl e)
    \<and> (case fake_delete b k st of
        Inr st' \<Rightarrow> \<exists>w'. s3_delete cl b k w = Inr w' \<and> s3_abs cl w' st' \<and> untampered sha st'
      | Inl e \<Rightarrow> s3_delete cl b k w = Inl e)"
proof (intro conjI)
  show "case fake_put sha b k d s m st of
        Inr (so, st') \<Rightarrow> \<exists>so' w'. s3_put sha cl b k d s m w = Inr (so', w')
          \<and> so'\<lparr>oh_etag := None\<rparr> = so \<and> s3_abs cl w' st' \<and> untampered sha st'
      | Inl e \<Rightarrow> (if b \<in> set (fs_buckets st) then s3_put sha cl b k d s m w = Inl e
                  else e \<in> {ValueError, ArtifactNotFoundError})"
  proof (cases "fake_put sha b k d s m st")
    case (Inl e)
    then show ?thesis using s3_put_error [OF Inl]
      by (auto simp: fake_put_def validate_location_def validate_digest_def split: if_splits)
  next
    case (Inr r)
    then show ?thesis using s3_put_abs [OF law abs unt] by (cases r) simp
  qed
  show "map_sum id (\<lambda>h. h\<lparr>oh_etag := None\<rparr>) (s3_head cl b k w) = fst (fake_head b k st)"
    by (rule s3_head_abs [OF abs unt])
  show "if validate_location b k = Inr () \<and> is_hex64 s \<and> 0 \<le> n
       then s3_get sha cl b k s n w = fake_get sha b k s (Some n) st
       else \<exists>e. s3_get sha cl b k s n w = Inl e"
    using s3_get_abs [OF abs unt]
    by (cases "validate_location b k") (auto simp: s3_get_def s3_stream_def validate_digest_def)
  show "case fake_delete b k st of
        Inr st' \<Rightarrow> \<exists>w'. s3_delete cl b k w = Inr w' \<and> s3_abs cl w' st' \<and> untampered sha st'
      | Inl e \<Rightarrow> s3_delete cl b k w = Inl e"
  proof (cases "fake_delete b k st")
    case (Inl e)
    then show ?thesis
      by (cases "validate_location b k") (auto simp: fake_delete_def s3_delete_def)
  next
    case (Inr st')
    then show ?thesis using s3_delete_abs [OF law abs unt] by simp
  qed
qed

lemma demo_store_untampered: "untampered demo_sha demo_store"
proof -
  have "is_hex64 (demo_sha ''abc'')" by code_simp
  then show ?thesis by (auto simp: untampered_def demo_store_def fake_init_def split: if_splits)
qed

theorem s3_store_refines_memory_store_witness:
  "map_sum id (\<lambda>h. h\<lparr>oh_etag := None\<rparr>) (s3_head memory_client ''raw'' ''raw/x'' demo_store)
     = fst (fake_head ''raw'' ''raw/x'' demo_store)
   \<and> s3_get demo_sha memory_client ''raw'' ''raw/x'' (demo_sha ''abc'') 2 demo_store
     = Inl ArtifactTooLargeError"
proof -
  have abs: "s3_abs memory_client demo_store demo_store" by (simp add: memory_client_abs)
  have v: "validate_location ''raw'' ''raw/x'' = Inr () \<and> is_hex64 (demo_sha ''abc'') \<and> (0 :: int) \<le> 2"
    by code_simp
  have f: "fake_get demo_sha ''raw'' ''raw/x'' (demo_sha ''abc'') (Some 2) demo_store
      = Inl ArtifactTooLargeError" by code_simp
  note r = s3_store_refines_memory_store [where b = "''raw''" and k = "''raw/x''" and n = 2
      and s = "demo_sha ''abc''" and d = "''abc''" and m = "''text/html''",
      OF memory_client_lawful abs demo_store_untampered]
  from r [THEN conjunct2, THEN conjunct1] r [THEN conjunct2, THEN conjunct2, THEN conjunct1] v f
  show ?thesis by simp
qed

end
