(* ===== verification/Upload.thy ===== *)
theory Upload
  imports Artifacts Object_Store
begin

text \<open>
  \<open>storage/upload.py\<close> and \<open>storage/sweeper.py\<close>: the claimed PUT and the orphan
  sweeper, as programs whose steps interleave. One step is one transaction or one call of the
  store, so between two steps of a program any other program may run. A crash is a program that
  makes no further step.
\<close>

section \<open>ClaimedUploader.upload\<close>

text \<open>
  The program counter of one call: the loop's attempt, the generation of the claim held, the object
  the store described. \<open>URef\<close> is the branch for an object that is already committed.
\<close>

datatype 'r upload_pc =
    UAcquire nat
  | UCommitted nat
  | UVerify nat
  | URef nat stored_object
  | UPut nat int
  | UCommit nat int stored_object
  | UDone stored_object 'r bool nat
  | UFailed error

record 'r upload_task =
  ut_owner :: string
  ut_lease_seconds :: int
  ut_max_attempts :: nat
  ut_bucket :: string
  ut_key :: string
  ut_data :: string
  ut_sha256 :: string
  ut_media_type :: string
  ut_pc :: "'r upload_pc"

text \<open>The constructor's guards and the entry of \<open>upload\<close>.\<close>

definition start_upload ::
  "string \<Rightarrow> int \<Rightarrow> int \<Rightarrow> string \<Rightarrow> string \<Rightarrow> string \<Rightarrow> string \<Rightarrow> string \<Rightarrow> 'r upload_task res" where
  "start_upload owner lease_seconds max_attempts bucket key data sha256 media_type =
     (if owner = [] \<or> lease_seconds < 1 \<or> max_attempts < 1 then Inl ValueError
      else Inr \<lparr>ut_owner = owner, ut_lease_seconds = lease_seconds, ut_max_attempts = nat max_attempts,
                ut_bucket = bucket, ut_key = key, ut_data = data, ut_sha256 = sha256,
                ut_media_type = media_type, ut_pc = UAcquire 1\<rparr>)"

definition acquire_claim :: "uuid \<Rightarrow> ts \<Rightarrow> 'r upload_task \<Rightarrow> db \<Rightarrow> (claim_row \<times> db) res" where
  "acquire_claim new_id now t s =
     acquire_upload_claim new_id (ut_key t) (ut_owner t) (ut_lease_seconds t) (Some (ut_media_type t))
       now (utc now) s"

definition committed_claim :: "string \<Rightarrow> db \<Rightarrow> claim_row option" where
  "committed_claim key s =
     (case get_claim key s of None \<Rightarrow> None
      | Some c \<Rightarrow> if q_status c \<noteq> ClaimCommitted then None else Some c)"

definition verify_existing :: "'r upload_task \<Rightarrow> object_head res \<Rightarrow> stored_object res" where
  "verify_existing t head =
     bind_res head (\<lambda>h.
       if oh_sha256 h \<noteq> ut_sha256 t \<or> oh_size h \<noteq> int (length (ut_data t))
       then Inl ArtifactIntegrityError
       else Inr \<lparr>oh_size = oh_size h, oh_sha256 = oh_sha256 h, oh_etag = oh_etag h,
                 oh_media_type = or_else (oh_media_type h) (Some (ut_media_type t)),
                 so_bucket = ut_bucket t, so_key = ut_key t\<rparr>)"

text \<open>
  The transaction of the commit: the fenced claim commit and the caller's reference, or neither.
  \<open>commit\<close> is the callback \<open>CommitReference\<close>.
\<close>

definition commit_claim ::
  "(stored_object \<Rightarrow> db \<Rightarrow> ('r \<times> db) res) \<Rightarrow> ts \<Rightarrow> int \<Rightarrow> stored_object \<Rightarrow> 'r upload_task \<Rightarrow> db
   \<Rightarrow> ('r \<times> db) res" where
  "commit_claim commit now generation so t s =
     bind_res (commit_reference (ut_key t) generation (ut_owner t) (oh_sha256 so) (oh_size so)
         (stored_uri so) (oh_media_type so) now (utc now) s) (\<lambda>(_, s1). commit so s1)"

definition upload_step ::
  "(string \<Rightarrow> string) \<Rightarrow> (stored_object \<Rightarrow> db \<Rightarrow> ('r \<times> db) res) \<Rightarrow> uuid \<Rightarrow> ts \<Rightarrow> 'r upload_task
   \<Rightarrow> db \<Rightarrow> fake_store \<Rightarrow> 'r upload_pc \<times> db \<times> fake_store" where
  "upload_step sha commit new_id now t s st =
     (case ut_pc t of
        UAcquire attempt \<Rightarrow>
          if ut_max_attempts t < attempt then (UFailed UploadRetriesExhaustedError, s, st)
          else (case acquire_claim new_id now t s of
                  Inl StaleClaimError \<Rightarrow> (UCommitted attempt, s, st)
                | Inl e \<Rightarrow> (UFailed e, s, st)
                | Inr (c, s') \<Rightarrow> (UPut attempt (q_claim_generation c), s', st))
      | UCommitted attempt \<Rightarrow>
          (case committed_claim (ut_key t) s of
             None \<Rightarrow> (UFailed UploadBusyError, s, st)
           | Some _ \<Rightarrow> (UVerify attempt, s, st))
      | UVerify attempt \<Rightarrow>
          (let (head, st') = fake_head (ut_bucket t) (ut_key t) st
           in case verify_existing t head of
                Inl e \<Rightarrow> (UFailed e, s, st')
              | Inr so \<Rightarrow> (URef attempt so, s, st'))
      | URef attempt so \<Rightarrow>
          (case commit so s of
             Inl e \<Rightarrow> (UFailed e, s, st)
           | Inr (r, s') \<Rightarrow> (UDone so r True attempt, s', st))
      | UPut attempt generation \<Rightarrow>
          (case fake_put sha (ut_bucket t) (ut_key t) (ut_data t) (ut_sha256 t) (ut_media_type t) st of
             Inl e \<Rightarrow> (UFailed e, s, st)
           | Inr (so, st') \<Rightarrow> (UCommit attempt generation so, s, st'))
      | UCommit attempt generation so \<Rightarrow>
          (case commit_claim commit now generation so t s of
             Inl StaleClaimError \<Rightarrow> (UAcquire (attempt + 1), s, st)
           | Inl e \<Rightarrow> (UFailed e, s, st)
           | Inr (r, s') \<Rightarrow> (UDone so r False attempt, s', st))
      | pc \<Rightarrow> (pc, s, st))"

section \<open>sweep_orphans\<close>

datatype sweep_pc =
    SwList
  | SwLoop "string list"
  | SwDelete claim_row "string list"
  | SwRelease claim_row "error option" "string list"
  | SwDone
  | SwFailed error

record sweep_task =
  sw_owner :: string
  sw_lease_seconds :: int
  sw_grace :: duration
  sw_minimum_grace :: duration
  sw_limit :: nat
  sw_candidates :: nat
  sw_deleted :: "string list"
  sw_skipped :: "string list"
  sw_pc :: sweep_pc

definition start_sweep :: "string \<Rightarrow> int \<Rightarrow> duration \<Rightarrow> duration \<Rightarrow> nat \<Rightarrow> sweep_task res" where
  "start_sweep owner lease_seconds grace minimum_grace limit =
     (if grace \<le> minimum_grace then Inl ValueError
      else Inr \<lparr>sw_owner = owner, sw_lease_seconds = lease_seconds, sw_grace = grace,
                sw_minimum_grace = minimum_grace, sw_limit = limit, sw_candidates = 0,
                sw_deleted = [], sw_skipped = [], sw_pc = SwList\<rparr>)"

text \<open>
  The \<open>finally\<close> of the delete: the claim is released whether the delete returned or raised, and
  the exception of the delete is raised after it.
\<close>

definition sweep_step ::
  "(string \<Rightarrow> rat) \<Rightarrow> (string \<Rightarrow> string) \<Rightarrow> uuid \<Rightarrow> ts \<Rightarrow> sweep_task \<Rightarrow> db \<Rightarrow> fake_store
   \<Rightarrow> sweep_task \<times> db \<times> fake_store" where
  "sweep_step collate bucket_for_key new_id now t s st =
     (case sw_pc t of
        SwList \<Rightarrow>
          (case list_orphan_candidates collate (sw_grace t) (sw_limit t) now (utc now) s of
             Inl e \<Rightarrow> (t\<lparr>sw_pc := SwFailed e\<rparr>, s, st)
           | Inr keys \<Rightarrow> (t\<lparr>sw_candidates := length keys, sw_pc := SwLoop keys\<rparr>, s, st))
      | SwLoop [] \<Rightarrow> (t\<lparr>sw_pc := SwDone\<rparr>, s, st)
      | SwLoop (key # rest) \<Rightarrow>
          (case acquire_upload_claim new_id key (sw_owner t) (sw_lease_seconds t) None now (utc now) s of
             Inl StaleClaimError \<Rightarrow>
               (t\<lparr>sw_skipped := sw_skipped t @ [key], sw_pc := SwLoop rest\<rparr>, s, st)
           | Inl e \<Rightarrow> (t\<lparr>sw_pc := SwFailed e\<rparr>, s, st)
           | Inr (c, s') \<Rightarrow> (t\<lparr>sw_pc := SwDelete c rest\<rparr>, s', st))
      | SwDelete c rest \<Rightarrow>
          (case fake_delete (bucket_for_key (q_object_key c)) (q_object_key c) st of
             Inl e \<Rightarrow> (t\<lparr>sw_pc := SwRelease c (Some e) rest\<rparr>, s, st)
           | Inr st' \<Rightarrow> (t\<lparr>sw_deleted := sw_deleted t @ [q_object_key c],
                           sw_pc := SwRelease c None rest\<rparr>, s, st'))
      | SwRelease c err rest \<Rightarrow>
          (case release_claim (q_object_key c) (q_claim_generation c) (sw_owner t) now (utc now) s of
             Inl e \<Rightarrow> (t\<lparr>sw_pc := SwFailed e\<rparr>, s, st)
           | Inr (_, s') \<Rightarrow>
               (t\<lparr>sw_pc := (case err of None \<Rightarrow> SwLoop rest | Some e \<Rightarrow> SwFailed e)\<rparr>, s', st))
      | _ \<Rightarrow> (t, s, st))"

section \<open>The programs together\<close>

record 'r world =
  w_db :: db
  w_store :: fake_store
  w_now :: ts
  w_uploads :: "'r upload_task list"
  w_sweeps :: "sweep_task list"

text \<open>
  An event is one step of one program, or of the maintenance job that marks expired claims, with
  the identifier and the clock reading it draws.
\<close>

datatype world_event = EUpload nat uuid ts | ESweep nat uuid ts | EExpire "uuid list" nat ts

fun event_time :: "world_event \<Rightarrow> ts" where
  "event_time (EUpload _ _ now) = now"
| "event_time (ESweep _ _ now) = now"
| "event_time (EExpire _ _ now) = now"

fun world_exec ::
  "(string \<Rightarrow> string) \<Rightarrow> (stored_object \<Rightarrow> db \<Rightarrow> ('r \<times> db) res) \<Rightarrow> (string \<Rightarrow> rat) \<Rightarrow> (string \<Rightarrow> string)
   \<Rightarrow> world_event \<Rightarrow> 'r world \<Rightarrow> 'r world" where
  "world_exec sha commit collate bfk (EUpload i new_id now) w =
     (if i < length (w_uploads w)
      then let t = w_uploads w ! i; (pc, s, st) = upload_step sha commit new_id now t (w_db w) (w_store w)
           in w\<lparr>w_uploads := (w_uploads w)[i := t\<lparr>ut_pc := pc\<rparr>], w_db := s, w_store := st, w_now := now\<rparr>
      else w)"
| "world_exec sha commit collate bfk (ESweep i new_id now) w =
     (if i < length (w_sweeps w)
      then let (t, s, st) = sweep_step collate bfk new_id now (w_sweeps w ! i) (w_db w) (w_store w)
           in w\<lparr>w_sweeps := (w_sweeps w)[i := t], w_db := s, w_store := st, w_now := now\<rparr>
      else w)"
| "world_exec sha commit collate bfk (EExpire locked n now) w =
     (case expire_claims locked n now (utc now) (w_db w) of
        Inl _ \<Rightarrow> w | Inr (_, s) \<Rightarrow> w\<lparr>w_db := s, w_now := now\<rparr>)"

text \<open>
  The clocks agree (time does not go back from one event to the next), and a sweeper deletes
  before the lease it has taken ends.
\<close>

fun timely :: "world_event \<Rightarrow> 'r world \<Rightarrow> bool" where
  "timely (ESweep i _ now) w \<longleftrightarrow>
     (case map_option sw_pc (if i < length (w_sweeps w) then Some (w_sweeps w ! i) else None) of
        Some (SwDelete c _) \<Rightarrow> now < q_lease_expires_at c
      | _ \<Rightarrow> True)"
| "timely _ w \<longleftrightarrow> True"

inductive reaches ::
  "(string \<Rightarrow> string) \<Rightarrow> (stored_object \<Rightarrow> db \<Rightarrow> ('r \<times> db) res) \<Rightarrow> (string \<Rightarrow> rat) \<Rightarrow> (string \<Rightarrow> string)
   \<Rightarrow> 'r world \<Rightarrow> 'r world \<Rightarrow> bool" for sha commit collate bfk w0 where
  here: "reaches sha commit collate bfk w0 w0"
| step: "reaches sha commit collate bfk w0 w \<Longrightarrow> w_now w \<le> event_time e \<Longrightarrow> timely e w \<Longrightarrow>
    reaches sha commit collate bfk w0 (world_exec sha commit collate bfk e w)"

section \<open>How the claims may change\<close>

text \<open>
  Three facts carry the protocol. \<open>claims_progress\<close>: generations never go back, a claim that
  keeps its generation while leased keeps its owner, a committed claim is final.
  \<open>claims_kept\<close>: what one owner does leaves the live leases of all others alone.
  \<open>no_new_commits\<close>: only a commit commits.
\<close>

definition claims_progress :: "db \<Rightarrow> db \<Rightarrow> bool" where
  "claims_progress s s' \<longleftrightarrow>
     (\<forall>k c0. get_claim k s = Some c0 \<longrightarrow>
        (\<exists>c. get_claim k s' = Some c \<and> q_claim_generation c0 \<le> q_claim_generation c
           \<and> (q_status c = ClaimLeased \<and> q_claim_generation c = q_claim_generation c0 \<longrightarrow>
                q_status c0 = ClaimLeased \<and> q_owner c0 = q_owner c)
           \<and> (q_status c0 = ClaimCommitted \<longrightarrow> c = c0)))"

definition claims_kept :: "string \<Rightarrow> ts \<Rightarrow> db \<Rightarrow> db \<Rightarrow> bool" where
  "claims_kept owner now s s' \<longleftrightarrow>
     (\<forall>k c. get_claim k s = Some c \<and> claim_alive now c \<and> q_owner c \<noteq> owner \<longrightarrow> get_claim k s' = Some c)"

definition no_new_commits :: "db \<Rightarrow> db \<Rightarrow> bool" where
  "no_new_commits s s' \<longleftrightarrow>
     (\<forall>k c. get_claim k s' = Some c \<and> q_status c = ClaimCommitted \<longrightarrow> get_claim k s = Some c)"

lemmas claim_rels = claims_progress_def claims_kept_def no_new_commits_def

lemma claim_rels_same:
  assumes "\<And>k. get_claim k s' = get_claim k s"
  shows "claims_progress s s' \<and> claims_kept owner now s s' \<and> no_new_commits s s'"
  using assms by (simp add: claim_rels)

lemma acquire_rels:
  assumes "claims_inv s" and "acquire_upload_claim i k owner n m u0 (utc now) s = Inr (c, s')"
  shows "claims_inv s' \<and> claims_progress s s' \<and> claims_kept owner now s s' \<and> no_new_commits s s'"
proof -
  note a = acquire_claim_cases [OF assms]
  have w: "get_claim k' s' = (if k' = k then Some c else get_claim k' s)" for k'
    using a by (auto simp: claim_written_def)
  have "claims_progress s s'"
    unfolding claims_progress_def
  proof (intro allI impI)
    fix k' c0 assume "get_claim k' s = Some c0"
    then show "\<exists>c. get_claim k' s' = Some c \<and> q_claim_generation c0 \<le> q_claim_generation c
       \<and> (q_status c = ClaimLeased \<and> q_claim_generation c = q_claim_generation c0 \<longrightarrow>
            q_status c0 = ClaimLeased \<and> q_owner c0 = q_owner c)
       \<and> (q_status c0 = ClaimCommitted \<longrightarrow> c = c0)"
      using a w [of k'] by (cases "k' = k") (auto simp: claim_alive_def split: if_splits)
  qed
  moreover have "claims_kept owner now s s'"
    using a w by (auto simp: claims_kept_def split: option.splits)
  moreover have "no_new_commits s s'"
    using a w by (auto simp: no_new_commits_def split: if_splits)
  ultimately show ?thesis using a by (simp add: claim_written_def)
qed

lemma commit_rels:
  assumes "claims_inv s" and "commit_reference k g owner h n uri m u0 (utc now) s = Inr (c, s')"
  shows "claims_inv s' \<and> claims_progress s s' \<and> claims_kept owner now s s'
    \<and> (\<forall>k' c'. get_claim k' s' = Some c' \<and> q_status c' = ClaimCommitted \<longrightarrow>
         get_claim k' s = Some c' \<or> (k' = k \<and> c' = c \<and> q_sha256 c = Some h
           \<and> (\<exists>c0. get_claim k s = Some c0 \<and> commit_predicate owner g now c0)))"
proof -
  from commit_cases [OF assms] show ?thesis
  proof (elim disjE conjE exE)
    assume "s' = s"
    then show ?thesis using assms(1) by (simp add: claim_rels)
  next
    fix c0
    assume a: "claim_written c s s'" "q_object_key c = k" "q_status c = ClaimCommitted"
      "q_sha256 c = Some h" "q_owner c = owner" "q_claim_generation c = g"
      "get_claim k s = Some c0" "commit_predicate owner g now c0"
    have w: "get_claim k' s' = (if k' = k then Some c else get_claim k' s)" for k'
      using a by (auto simp: claim_written_def)
    have "claims_progress s s'"
      using a w by (auto simp: claims_progress_def commit_predicate_def claim_alive_def split: if_splits)
    moreover have "claims_kept owner now s s'"
      using a w by (auto simp: claims_kept_def commit_predicate_def)
    ultimately show ?thesis using a w by (auto simp: claim_written_def split: if_splits)
  qed
qed

lemma release_rels:
  assumes "claims_inv s" and "release_claim k g owner u0 (utc now) s = Inr (r, s')"
  shows "claims_inv s' \<and> claims_progress s s' \<and> claims_kept owner now s s' \<and> no_new_commits s s'"
proof -
  from release_cases [OF assms] show ?thesis
  proof (elim disjE conjE exE)
    assume "s' = s"
    then show ?thesis using assms(1) by (simp add: claim_rels)
  next
    fix c c0
    assume a: "claim_written c s s'" "q_object_key c = k" "q_status c = ClaimReleased"
      "get_claim k s = Some c0" "q_owner c0 = owner" "q_status c0 = ClaimLeased"
      "q_claim_generation c = q_claim_generation c0"
    have w: "get_claim k' s' = (if k' = k then Some c else get_claim k' s)" for k'
      using a by (auto simp: claim_written_def)
    show ?thesis using a w
      by (auto simp: claim_rels claim_written_def split: if_splits)
  qed
qed

lemma expire_rels:
  assumes "claims_inv s" and "expire_claims locked n u0 (utc now) s = Inr (ks, s')"
  shows "claims_inv s' \<and> claims_progress s s' \<and> (\<forall>owner. claims_kept owner now s s') \<and> no_new_commits s s'"
proof -
  from expire_cases [OF assms] have inv: "claims_inv s'" and e: "get_claim k s' = get_claim k s
      \<or> (\<exists>c. get_claim k s = Some c \<and> get_claim k s' = Some (claim_expired now c)
           \<and> q_status c = ClaimLeased \<and> q_lease_expires_at c \<le> now)" for k
    by auto
  have "claims_progress s s'"
    unfolding claims_progress_def
  proof (intro allI impI)
    fix k c0 assume "get_claim k s = Some c0"
    then show "\<exists>c. get_claim k s' = Some c \<and> q_claim_generation c0 \<le> q_claim_generation c
       \<and> (q_status c = ClaimLeased \<and> q_claim_generation c = q_claim_generation c0 \<longrightarrow>
            q_status c0 = ClaimLeased \<and> q_owner c0 = q_owner c)
       \<and> (q_status c0 = ClaimCommitted \<longrightarrow> c = c0)"
      using e [of k] by (auto simp: claim_expired_def)
  qed
  moreover have "claims_kept owner now s s'" for owner
    unfolding claims_kept_def
  proof (intro allI impI)
    fix k c assume "get_claim k s = Some c \<and> claim_alive now c \<and> q_owner c \<noteq> owner"
    then show "get_claim k s' = Some c" using e [of k] by (auto simp: claim_alive_def)
  qed
  moreover have "no_new_commits s s'"
    unfolding no_new_commits_def
  proof (intro allI impI)
    fix k c assume "get_claim k s' = Some c \<and> q_status c = ClaimCommitted"
    then show "get_claim k s = Some c" using e [of k] by (auto simp: claim_expired_def)
  qed
  ultimately show ?thesis using inv by blast
qed

section \<open>The invariant\<close>

text \<open>The key is the content address of the bytes, in the bucket the sweeper would look in.\<close>

definition addressed :: "(string \<Rightarrow> string) \<Rightarrow> 'r upload_task \<Rightarrow> bool" where
  "addressed bfk t \<longleftrightarrow> raw_object_key (ut_sha256 t) = Inr (ut_key t) \<and> ut_bucket t = bfk (ut_key t)"

fun held_generation :: "'r upload_pc \<Rightarrow> int option" where
  "held_generation (UPut _ g) = Some g"
| "held_generation (UCommit _ g _) = Some g"
| "held_generation _ = None"

definition holds_claim :: "'r upload_task \<Rightarrow> int \<Rightarrow> claim_row \<Rightarrow> bool" where
  "holds_claim t g c \<longleftrightarrow> q_status c = ClaimLeased \<and> q_owner c = ut_owner t \<and> q_claim_generation c = g"

definition upload_ok :: "(string \<Rightarrow> string) \<Rightarrow> db \<Rightarrow> fake_store \<Rightarrow> 'r upload_task \<Rightarrow> bool" where
  "upload_ok bfk s st t \<longleftrightarrow> addressed bfk t
     \<and> (\<forall>g. held_generation (ut_pc t) = Some g \<longrightarrow>
          (\<exists>c. get_claim (ut_key t) s = Some c \<and> g \<le> q_claim_generation c))
     \<and> (\<forall>a g so. ut_pc t = UCommit a g so \<longrightarrow> oh_sha256 so = ut_sha256 t
          \<and> (\<forall>c. get_claim (ut_key t) s = Some c \<and> holds_claim t g c \<longrightarrow>
               fs_objects st (ut_bucket t, ut_key t) \<noteq> None))"

definition store_ok :: "(string \<Rightarrow> string) \<Rightarrow> fake_store \<Rightarrow> bool" where
  "store_ok sha st \<longleftrightarrow>
     (\<forall>b k x. fs_objects st (b, k) = Some x \<longrightarrow>
        raw_object_key (mo_sha256 x) = Inr k \<and> sha (mo_data x) = mo_sha256 x)"

definition refs_ok :: "(string \<Rightarrow> string) \<Rightarrow> db \<Rightarrow> fake_store \<Rightarrow> bool" where
  "refs_ok bfk s st \<longleftrightarrow>
     (\<forall>k c. get_claim k s = Some c \<and> q_status c = ClaimCommitted \<longrightarrow>
        (\<exists>x. fs_objects st (bfk k, k) = Some x \<and> q_sha256 c = Some (mo_sha256 x)))"

definition sweep_ok :: "db \<Rightarrow> ts \<Rightarrow> sweep_task \<Rightarrow> bool" where
  "sweep_ok s now t \<longleftrightarrow>
     (\<forall>c rest. sw_pc t = SwDelete c rest \<longrightarrow>
        q_owner c = sw_owner t \<and> q_status c = ClaimLeased
        \<and> (now < q_lease_expires_at c \<longrightarrow> get_claim (q_object_key c) s = Some c))"

definition owners_apart :: "'r upload_task list \<Rightarrow> sweep_task list \<Rightarrow> bool" where
  "owners_apart us ws \<longleftrightarrow> distinct (map sw_owner ws) \<and> sw_owner ` set ws \<inter> ut_owner ` set us = {}"

definition world_inv :: "(string \<Rightarrow> string) \<Rightarrow> (string \<Rightarrow> string) \<Rightarrow> 'r world \<Rightarrow> bool" where
  "world_inv sha bfk w \<longleftrightarrow> claims_inv (w_db w) \<and> store_ok sha (w_store w)
     \<and> refs_ok bfk (w_db w) (w_store w)
     \<and> (\<forall>t\<in>set (w_uploads w). upload_ok bfk (w_db w) (w_store w) t)
     \<and> (\<forall>t\<in>set (w_sweeps w). sweep_ok (w_db w) (w_now w) t)
     \<and> owners_apart (w_uploads w) (w_sweeps w)"

lemma upload_ok_progress:
  assumes "upload_ok bfk s st t" and p: "claims_progress s s'"
    and st: "fs_objects st (ut_bucket t, ut_key t) \<noteq> None \<Longrightarrow> fs_objects st' (ut_bucket t, ut_key t) \<noteq> None"
  shows "upload_ok bfk s' st' t"
proof -
  have pr: "\<exists>c. get_claim k s' = Some c \<and> q_claim_generation c0 \<le> q_claim_generation c
           \<and> (q_status c = ClaimLeased \<and> q_claim_generation c = q_claim_generation c0 \<longrightarrow>
                q_status c0 = ClaimLeased \<and> q_owner c0 = q_owner c)"
    if "get_claim k s = Some c0" for k c0
    using p that by (fastforce simp: claims_progress_def)
  have gen: "\<exists>c. get_claim (ut_key t) s' = Some c \<and> g \<le> q_claim_generation c"
    if g: "held_generation (ut_pc t) = Some g" for g
  proof -
    obtain c0 where "get_claim (ut_key t) s = Some c0" "g \<le> q_claim_generation c0"
      using assms(1) g unfolding upload_ok_def by blast
    with pr [of "ut_key t" c0] show ?thesis by fastforce
  qed
  have "fs_objects st' (ut_bucket t, ut_key t) \<noteq> None"
    if pc: "ut_pc t = UCommit a g so" and c: "get_claim (ut_key t) s' = Some c" "holds_claim t g c" for a g so c
  proof -
    obtain c0 where c0: "get_claim (ut_key t) s = Some c0" "g \<le> q_claim_generation c0"
      using assms(1) pc unfolding upload_ok_def by (metis held_generation.simps(2))
    with pr [of "ut_key t" c0] c have "holds_claim t g c0" by (auto simp: holds_claim_def)
    then show ?thesis using assms(1) pc c0(1) st unfolding upload_ok_def by blast
  qed
  then show ?thesis using assms(1) gen unfolding upload_ok_def by blast
qed

lemma sweep_ok_kept:
  assumes "sweep_ok s now t" and "claims_kept owner now' s s'" and "sw_owner t \<noteq> owner" and "now \<le> now'"
  shows "sweep_ok s' now' t"
  using assms unfolding sweep_ok_def claims_kept_def claim_alive_def by fastforce

lemma refs_ok_progress:
  assumes "refs_ok bfk s st" and "no_new_commits s s'" and "\<And>loc. fs_objects st' loc = fs_objects st loc"
  shows "refs_ok bfk s' st'"
  using assms unfolding refs_ok_def no_new_commits_def by fastforce

section \<open>Every step keeps it\<close>

lemma get_claim_cong: "upload_claims s' = upload_claims s \<Longrightarrow> get_claim k s' = get_claim k s"
  by (simp add: get_claim_def)

lemma claims_inv_cong: "upload_claims s' = upload_claims s \<Longrightarrow> claims_inv s' = claims_inv s"
  by (simp add: claims_inv_def)

lemma raw_object_key_inj: "raw_object_key a = Inr k \<Longrightarrow> raw_object_key b = Inr k \<Longrightarrow> a = b"
  by (auto simp: raw_object_key_def)

text \<open>What a step of an upload guarantees to the rest of the world and to itself.\<close>

definition upload_effect ::
  "(string \<Rightarrow> string) \<Rightarrow> (string \<Rightarrow> string) \<Rightarrow> ts \<Rightarrow> 'r upload_task \<Rightarrow> db \<Rightarrow> fake_store
   \<Rightarrow> 'r upload_pc \<Rightarrow> db \<Rightarrow> fake_store \<Rightarrow> bool" where
  "upload_effect sha bfk now t s st pc s' st' \<longleftrightarrow>
     claims_inv s' \<and> store_ok sha st' \<and> refs_ok bfk s' st'
     \<and> claims_progress s s' \<and> claims_kept (ut_owner t) now s s'
     \<and> (\<forall>loc. fs_objects st loc \<noteq> None \<longrightarrow> fs_objects st' loc \<noteq> None)
     \<and> upload_ok bfk s' st' (t\<lparr>ut_pc := pc\<rparr>)"

text \<open>A step that touches no claim and no object.\<close>

lemma upload_effect_idle:
  assumes "claims_inv s" and "store_ok sha st" and "refs_ok bfk s st" and "addressed bfk t"
    and "upload_claims s' = upload_claims s" and "fs_objects st' = fs_objects st"
    and "held_generation pc = None"
  shows "upload_effect sha bfk now t s st pc s' st'"
proof -
  have g: "\<And>k. get_claim k s' = get_claim k s" by (rule get_claim_cong [OF assms(5)])
  have "upload_ok bfk s' st' (t\<lparr>ut_pc := pc\<rparr>)"
    using assms(4,7) by (auto simp: upload_ok_def addressed_def)
  then show ?thesis
    using assms claim_rels_same [OF g] claims_inv_cong [OF assms(5)]
      refs_ok_progress [of bfk s st s' st']
    by (simp add: upload_effect_def store_ok_def)
qed

lemma upload_effect_acquire:
  assumes "claims_inv s" and "store_ok sha st" and "refs_ok bfk s st" and "addressed bfk t"
    and run: "acquire_claim i now t s = Inr (c, s')"
  shows "upload_effect sha bfk now t s st (UPut a (q_claim_generation c)) s' st"
proof -
  have run': "acquire_upload_claim i (ut_key t) (ut_owner t) (ut_lease_seconds t) (Some (ut_media_type t))
      now (utc now) s = Inr (c, s')"
    using run by (simp add: acquire_claim_def)
  note r = acquire_rels [OF assms(1) run'] and a = acquire_claim_cases [OF assms(1) run']
  have "get_claim (ut_key t) s' = Some c" using a by (auto simp: claim_written_def)
  then have "upload_ok bfk s' st (t\<lparr>ut_pc := UPut a (q_claim_generation c)\<rparr>)"
    using assms(4) by (auto simp: upload_ok_def addressed_def)
  then show ?thesis using r assms(2) refs_ok_progress [OF assms(3), of s' st]
    by (simp add: upload_effect_def)
qed

lemma upload_effect_put:
  assumes inv: "claims_inv s" and st: "store_ok sha st" and refs: "refs_ok bfk s st"
    and t: "upload_ok bfk s st t" and pc: "ut_pc t = UPut a g"
    and run: "fake_put sha (ut_bucket t) (ut_key t) (ut_data t) (ut_sha256 t) (ut_media_type t) st
      = Inr (so, st')"
  shows "upload_effect sha bfk now t s st (UCommit a g so) s st'"
proof -
  from run have h: "sha (ut_data t) = ut_sha256 t" "oh_sha256 so = ut_sha256 t"
    and o': "fs_objects st' = (fs_objects st)((ut_bucket t, ut_key t) \<mapsto>
      \<lparr>mo_data = ut_data t, mo_sha256 = ut_sha256 t, mo_media_type = ut_media_type t\<rparr>)"
    by (auto simp: fake_put_def split: if_splits)
  have ad: "raw_object_key (ut_sha256 t) = Inr (ut_key t)"
    using t by (simp add: upload_ok_def addressed_def)
  have "store_ok sha st'" using st h ad by (auto simp: store_ok_def o')
  moreover have "refs_ok bfk s st'"
    unfolding refs_ok_def
  proof (intro allI impI)
    fix k c assume "get_claim k s = Some c \<and> q_status c = ClaimCommitted"
    then obtain x where x: "fs_objects st (bfk k, k) = Some x" "q_sha256 c = Some (mo_sha256 x)"
      using refs by (auto simp: refs_ok_def)
    have "raw_object_key (mo_sha256 x) = Inr k" using st x(1) by (auto simp: store_ok_def)
    then have "mo_sha256 x = ut_sha256 t" if "k = ut_key t" using raw_object_key_inj ad that by blast
    then show "\<exists>x. fs_objects st' (bfk k, k) = Some x \<and> q_sha256 c = Some (mo_sha256 x)"
      using x by (auto simp: o')
  qed
  moreover have "upload_ok bfk s st' (t\<lparr>ut_pc := UCommit a g so\<rparr>)"
    using t pc h(2) by (auto simp: upload_ok_def addressed_def o')
  ultimately show ?thesis
    using inv claim_rels_same [of s s] by (auto simp: upload_effect_def o')
qed

lemma upload_effect_commit:
  assumes cb: "\<And>so s r s'. commit so s = Inr (r, s') \<Longrightarrow> upload_claims s' = upload_claims s"
    and inv: "claims_inv s" and st: "store_ok sha st" and refs: "refs_ok bfk s st"
    and t: "upload_ok bfk s st t" and pc: "ut_pc t = UCommit a g so"
    and run: "commit_claim commit now g so t s = Inr (r, s')"
  shows "upload_effect sha bfk now t s st (UDone so r False a) s' st"
proof -
  obtain c s1 where c: "commit_reference (ut_key t) g (ut_owner t) (oh_sha256 so) (oh_size so)
      (stored_uri so) (oh_media_type so) now (utc now) s = Inr (c, s1)" and cr: "commit so s1 = Inr (r, s')"
    using run by (auto simp: commit_claim_def)
  have g: "get_claim k s' = get_claim k s1" for k by (rule get_claim_cong [OF cb [OF cr]])
  note m = commit_rels [OF inv c]
  have ad: "raw_object_key (ut_sha256 t) = Inr (ut_key t)" "ut_bucket t = bfk (ut_key t)"
    and so: "oh_sha256 so = ut_sha256 t"
    using t pc by (auto simp: upload_ok_def addressed_def)
  have "refs_ok bfk s' st"
    unfolding refs_ok_def
  proof (intro allI impI)
    fix k c' assume "get_claim k s' = Some c' \<and> q_status c' = ClaimCommitted"
    then consider "get_claim k s = Some c'" "q_status c' = ClaimCommitted"
      | c0 where "k = ut_key t" "q_sha256 c' = Some (ut_sha256 t)"
          "get_claim k s = Some c0" "commit_predicate (ut_owner t) g now c0"
      using m g [of k] so by auto
    then show "\<exists>x. fs_objects st (bfk k, k) = Some x \<and> q_sha256 c' = Some (mo_sha256 x)"
    proof cases
      case 1
      then show ?thesis using refs by (auto simp: refs_ok_def)
    next
      case (2 c0)
      then have "holds_claim t g c0" by (auto simp: holds_claim_def commit_predicate_def claim_alive_def)
      then obtain x where x: "fs_objects st (bfk k, k) = Some x"
        using t pc 2 ad(2) unfolding upload_ok_def by (metis not_None_eq)
      then have "raw_object_key (mo_sha256 x) = Inr k" using st by (auto simp: store_ok_def)
      then have "mo_sha256 x = ut_sha256 t" using raw_object_key_inj ad(1) 2(1) by blast
      then show ?thesis using x 2(2) by simp
    qed
  qed
  moreover have "upload_ok bfk s' st (t\<lparr>ut_pc := UDone so r False a\<rparr>)"
    using t by (auto simp: upload_ok_def addressed_def)
  ultimately show ?thesis
    using m st claims_inv_cong [OF cb [OF cr]]
    by (simp add: upload_effect_def claims_progress_def claims_kept_def g)
qed

lemma upload_step_effect:
  assumes cb: "\<And>so s r s'. commit so s = Inr (r, s') \<Longrightarrow> upload_claims s' = upload_claims s"
    and inv: "claims_inv s" and st: "store_ok sha st" and refs: "refs_ok bfk s st"
    and t: "upload_ok bfk s st t" and run: "upload_step sha commit i now t s st = (pc, s', st')"
  shows "upload_effect sha bfk now t s st pc s' st'"
proof -
  have ad: "addressed bfk t" using t by (simp add: upload_ok_def)
  note idle = upload_effect_idle [OF inv st refs ad]
  have same: "upload_effect sha bfk now t s st p s st" if "held_generation p = None" for p
    by (rule idle) (simp_all add: that)
  show ?thesis
  proof (cases "ut_pc t")
    case (UAcquire a)
    show ?thesis
    proof (cases "acquire_claim i now t s")
      case (Inl e)
      then show ?thesis using run UAcquire same
        by (cases e) (auto simp: upload_step_def split: if_splits)
    next
      case (Inr p)
      then show ?thesis using run UAcquire same upload_effect_acquire [OF inv st refs ad]
        by (cases p) (auto simp: upload_step_def split: if_splits)
    qed
  next
    case (UCommitted a)
    then show ?thesis using run same by (auto simp: upload_step_def split: option.splits)
  next
    case (UVerify a)
    have h: "fs_objects st1 = fs_objects st" if "fake_head b k st = (h, st1)" for b k h st1
      using that by (auto simp: fake_head_def split: sum.splits)
    obtain hd1 st1 where f: "fake_head (ut_bucket t) (ut_key t) st = (hd1, st1)"
      by (cases "fake_head (ut_bucket t) (ut_key t) st")
    show ?thesis using run UVerify f idle [OF refl h [OF f]]
      by (auto simp: upload_step_def split: sum.splits)
  next
    case (URef a so)
    then show ?thesis using run same idle cb
      by (auto simp: upload_step_def split: sum.splits)
  next
    case (UPut a g)
    then show ?thesis using run same upload_effect_put [OF inv st refs t UPut]
      by (auto simp: upload_step_def split: sum.splits)
  next
    case (UCommit a g so)
    show ?thesis
    proof (cases "commit_claim commit now g so t s")
      case (Inl e)
      then show ?thesis using run UCommit same
        by (cases e) (auto simp: upload_step_def)
    next
      case (Inr p)
      obtain r s1 where p: "p = (r, s1)" by (cases p)
      have "upload_effect sha bfk now t s st (UDone so r False a) s1 st"
        by (rule upload_effect_commit [where commit = commit, OF cb inv st refs t UCommit]) (simp_all add: Inr p)
      then show ?thesis using run UCommit Inr p by (simp add: upload_step_def)
    qed
  next
    case (UDone so r d a)
    with run have "pc = UDone so r d a" "s' = s" "st' = st" by (simp_all add: upload_step_def)
    then show ?thesis using same [of "UDone so r d a"] by simp
  next
    case (UFailed e)
    with run have "pc = UFailed e" "s' = s" "st' = st" by (simp_all add: upload_step_def)
    then show ?thesis using same [of "UFailed e"] by simp
  qed
qed

lemma upload_ok_without:
  assumes "upload_ok bfk s st t" and "get_claim k s = Some c" and "q_owner c \<noteq> ut_owner t"
    and "fs_objects st' = (fs_objects st)((bfk k, k) := None)"
  shows "upload_ok bfk s st' t"
  using assms unfolding upload_ok_def holds_claim_def by auto

lemma sweep_step_effect:
  assumes inv: "claims_inv s" and st: "store_ok sha st" and refs: "refs_ok bfk s st"
    and t: "sweep_ok s now0 t" and time: "now0 \<le> now"
    and due: "\<And>c rest. sw_pc t = SwDelete c rest \<Longrightarrow> now < q_lease_expires_at c"
    and run: "sweep_step collate bfk i now t s st = (t', s', st')"
  shows "claims_inv s' \<and> store_ok sha st' \<and> refs_ok bfk s' st' \<and> claims_kept (sw_owner t) now s s'
    \<and> sweep_ok s' now t' \<and> sw_owner t' = sw_owner t
    \<and> (\<forall>u. upload_ok bfk s st u \<and> ut_owner u \<noteq> sw_owner t \<longrightarrow> upload_ok bfk s' st' u)"
proof -
  have fin: ?thesis
    if "claims_inv s'" "claims_progress s s'" "claims_kept (sw_owner t) now s s'" "no_new_commits s s'"
      "st' = st" "sweep_ok s' now t'" "sw_owner t' = sw_owner t"
    using that st refs_ok_progress [OF refs, of s' st] upload_ok_progress [of bfk s st _ s' st] by auto
  have idle: ?thesis
    if "s' = s" "st' = st" "sw_owner t' = sw_owner t" "\<And>c rest. sw_pc t' \<noteq> SwDelete c rest"
    by (rule fin) (use that inv claim_rels_same [of s s] in \<open>auto simp: sweep_ok_def\<close>)
  show ?thesis
  proof (cases "sw_pc t")
    case SwList
    then show ?thesis by (intro idle) (use run in \<open>auto simp: sweep_step_def split: sum.splits\<close>)
  next
    case (SwLoop keys)
    show ?thesis
    proof (cases keys)
      case Nil
      then show ?thesis using SwLoop by (intro idle) (use run in \<open>auto simp: sweep_step_def\<close>)
    next
      case (Cons key rest)
      let ?acq = "acquire_upload_claim i key (sw_owner t) (sw_lease_seconds t) None now (utc now) s"
      show ?thesis
      proof (cases ?acq)
        case (Inl e)
        then show ?thesis using SwLoop Cons
          by (intro idle; cases e) (use run in \<open>auto simp: sweep_step_def\<close>)
      next
        case (Inr p)
        obtain c s1 where p: "?acq = Inr (c, s1)" using Inr by (cases p) simp
        have e: "t' = t\<lparr>sw_pc := SwDelete c rest\<rparr>" "s' = s1" "st' = st"
          using run SwLoop Cons p by (auto simp: sweep_step_def)
        have "sweep_ok s1 now t'"
          using acquire_claim_cases [OF inv p] e(1) by (auto simp: sweep_ok_def claim_written_def)
        then show ?thesis using acquire_rels [OF inv p] e by (intro fin) auto
      qed
    qed
  next
    case (SwDelete c rest)
    have own: "q_owner c = sw_owner t" "q_status c = ClaimLeased" "get_claim (q_object_key c) s = Some c"
      using t SwDelete due [OF SwDelete] time by (auto simp: sweep_ok_def)
    show ?thesis
    proof (cases "fake_delete (bfk (q_object_key c)) (q_object_key c) st")
      case (Inl e)
      then show ?thesis using SwDelete by (intro idle) (use run in \<open>auto simp: sweep_step_def\<close>)
    next
      case (Inr st1)
      have e: "s' = s" "st' = st1" "sw_owner t' = sw_owner t" "sw_pc t' = SwRelease c None rest"
        using run SwDelete Inr by (auto simp: sweep_step_def)
      have o': "fs_objects st1 = (fs_objects st)((bfk (q_object_key c), q_object_key c) := None)"
        using Inr by (auto simp: fake_delete_def)
      have "store_ok sha st1" using st by (auto simp: store_ok_def o')
      moreover have "refs_ok bfk s st1" using refs own by (auto simp: refs_ok_def o')
      moreover have "upload_ok bfk s st1 u" if "upload_ok bfk s st u" "ut_owner u \<noteq> sw_owner t" for u :: "'a upload_task"
        by (rule upload_ok_without [OF that(1) own(3) _ o']) (use that(2) own(1) in simp)
      moreover have "sweep_ok s now t'" using e(4) by (simp add: sweep_ok_def)
      ultimately show ?thesis using e inv claim_rels_same [of s s] by simp
    qed
  next
    case (SwRelease c err rest)
    show ?thesis
    proof (cases "release_claim (q_object_key c) (q_claim_generation c) (sw_owner t) now (utc now) s")
      case (Inl e)
      then show ?thesis using SwRelease by (intro idle) (use run in \<open>auto simp: sweep_step_def\<close>)
    next
      case (Inr p)
      obtain r s1 where p: "p = (r, s1)" by (cases p)
      have "s' = s1" "st' = st" "sw_owner t' = sw_owner t" "\<And>c rest. sw_pc t' \<noteq> SwDelete c rest"
        using run SwRelease Inr p by (auto simp: sweep_step_def split: option.splits)
      then show ?thesis using release_rels [OF inv Inr [unfolded p]]
        by (intro fin) (auto simp: sweep_ok_def)
    qed
  next
    case SwDone
    then show ?thesis by (intro idle) (use run in \<open>auto simp: sweep_step_def\<close>)
  next
    case (SwFailed e)
    then show ?thesis by (intro idle) (use run in \<open>auto simp: sweep_step_def\<close>)
  qed
qed

lemma in_set_update: "x \<in> set (xs[i := y]) \<Longrightarrow> i < length xs \<Longrightarrow> x = y \<or> (\<exists>j. j < length xs \<and> j \<noteq> i \<and> x = xs ! j)"
  by (auto simp: in_set_conv_nth nth_list_update split: if_splits)

lemma owners_apart_nth:
  assumes "owners_apart us ws" and "j < length ws"
  shows "i < length us \<Longrightarrow> sw_owner (ws ! j) \<noteq> ut_owner (us ! i)"
    and "i < length ws \<Longrightarrow> i \<noteq> j \<Longrightarrow> sw_owner (ws ! j) \<noteq> sw_owner (ws ! i)"
proof -
  show "i < length us \<Longrightarrow> sw_owner (ws ! j) \<noteq> ut_owner (us ! i)"
    using assms unfolding owners_apart_def by (metis disjoint_iff imageI nth_mem)
  show "i < length ws \<Longrightarrow> i \<noteq> j \<Longrightarrow> sw_owner (ws ! j) \<noteq> sw_owner (ws ! i)"
    using assms unfolding owners_apart_def by (auto simp: distinct_conv_nth)
qed

lemma owners_apart_update:
  "ut_owner t = ut_owner (us ! i) \<Longrightarrow> owners_apart (us[i := t]) ws = owners_apart us ws"
  "sw_owner u = sw_owner (ws ! i) \<Longrightarrow> owners_apart us (ws[i := u]) = owners_apart us ws"
proof -
  have "map ut_owner (us[i := t]) = map ut_owner us" if "ut_owner t = ut_owner (us ! i)"
    using that by (metis list_update_id map_update)
  then show "ut_owner t = ut_owner (us ! i) \<Longrightarrow> owners_apart (us[i := t]) ws = owners_apart us ws"
    by (metis (no_types, lifting) list.set_map owners_apart_def)
  have "map sw_owner (ws[i := u]) = map sw_owner ws" if "sw_owner u = sw_owner (ws ! i)"
    using that by (metis list_update_id map_update)
  then show "sw_owner u = sw_owner (ws ! i) \<Longrightarrow> owners_apart us (ws[i := u]) = owners_apart us ws"
    by (metis (no_types, lifting) list.set_map owners_apart_def)
qed

lemma world_exec_inv:
  assumes cb: "\<And>so s r s'. commit so s = Inr (r, s') \<Longrightarrow> upload_claims s' = upload_claims s"
    and inv: "world_inv sha bfk w" and time: "w_now w \<le> event_time e" and due: "timely e w"
  shows "world_inv sha bfk (world_exec sha commit collate bfk e w)"
proof -
  have ci: "claims_inv (w_db w)" and so: "store_ok sha (w_store w)"
    and ro: "refs_ok bfk (w_db w) (w_store w)"
    and uo: "\<And>i. i < length (w_uploads w) \<Longrightarrow> upload_ok bfk (w_db w) (w_store w) (w_uploads w ! i)"
    and wo: "\<And>i. i < length (w_sweeps w) \<Longrightarrow> sweep_ok (w_db w) (w_now w) (w_sweeps w ! i)"
    and oa: "owners_apart (w_uploads w) (w_sweeps w)"
    using inv by (auto simp: world_inv_def)
  show ?thesis
  proof (cases e)
    case (EUpload i new_id now)
    show ?thesis
    proof (cases "i < length (w_uploads w)")
      case False
      then show ?thesis using EUpload inv by simp
    next
      case True
      let ?t = "w_uploads w ! i"
      obtain pc s st where r: "upload_step sha commit new_id now ?t (w_db w) (w_store w) = (pc, s, st)"
        by (cases "upload_step sha commit new_id now ?t (w_db w) (w_store w)") auto
      have eff: "upload_effect sha bfk now ?t (w_db w) (w_store w) pc s st"
        by (rule upload_step_effect [where commit = commit, OF cb ci so ro uo [OF True] r])
      have up: "upload_ok bfk s st u" if u: "u \<in> set ((w_uploads w)[i := ?t\<lparr>ut_pc := pc\<rparr>])" for u
        using in_set_update [OF u True]
      proof (elim disjE exE conjE)
        assume "u = ?t\<lparr>ut_pc := pc\<rparr>"
        then show ?thesis using eff by (simp add: upload_effect_def)
      next
        fix j assume j: "j < length (w_uploads w)" "u = w_uploads w ! j"
        have p: "claims_progress (w_db w) s" and o': "\<And>loc. fs_objects (w_store w) loc \<noteq> None \<Longrightarrow> fs_objects st loc \<noteq> None"
          using eff by (auto simp: upload_effect_def)
        show ?thesis unfolding j(2) by (rule upload_ok_progress [OF uo [OF j(1)] p o'])
      qed
      have sw: "sweep_ok s now u" if u: "u \<in> set (w_sweeps w)" for u
      proof -
        obtain j where j: "j < length (w_sweeps w)" "u = w_sweeps w ! j"
          using u by (auto simp: in_set_conv_nth)
        have k: "claims_kept (ut_owner ?t) now (w_db w) s" using eff by (simp add: upload_effect_def)
        show ?thesis unfolding j(2)
          by (rule sweep_ok_kept [OF wo [OF j(1)] k owners_apart_nth(1) [OF oa j(1) True]])
            (use time EUpload in simp)
      qed
      show ?thesis using EUpload True r eff up sw oa
        by (simp add: world_inv_def upload_effect_def owners_apart_update)
    qed
  next
    case (ESweep i new_id now)
    show ?thesis
    proof (cases "i < length (w_sweeps w)")
      case False
      then show ?thesis using ESweep inv by simp
    next
      case True
      let ?t = "w_sweeps w ! i"
      obtain t' s st where r: "sweep_step collate bfk new_id now ?t (w_db w) (w_store w) = (t', s, st)"
        by (cases "sweep_step collate bfk new_id now ?t (w_db w) (w_store w)") auto
      have d: "now < q_lease_expires_at c" if "sw_pc ?t = SwDelete c rest" for c rest
        using due ESweep True that by simp
      have n: "w_now w \<le> now" using time ESweep by simp
      note eff = sweep_step_effect [where ?'a = 'a, OF ci so ro wo [OF True] n d r]
      have up: "upload_ok bfk s st u" if u: "u \<in> set (w_uploads w)" for u
      proof -
        obtain j where j: "j < length (w_uploads w)" "u = w_uploads w ! j"
          using u by (auto simp: in_set_conv_nth)
        show ?thesis using eff uo [OF j(1)] owners_apart_nth(1) [OF oa True j(1)] j(2) by auto
      qed
      have sw: "sweep_ok s now u" if u: "u \<in> set ((w_sweeps w)[i := t'])" for u
        using in_set_update [OF u True]
      proof (elim disjE exE conjE)
        assume "u = t'"
        then show ?thesis using eff by simp
      next
        fix j assume j: "j < length (w_sweeps w)" "j \<noteq> i" "u = w_sweeps w ! j"
        have k: "claims_kept (sw_owner ?t) now (w_db w) s" using eff by simp
        show ?thesis unfolding j(3)
          by (rule sweep_ok_kept [OF wo [OF j(1)] k _ n]) (use owners_apart_nth(2) [OF oa j(1) True] j(2) in simp)
      qed
      show ?thesis using ESweep True r eff up sw oa
        by (simp add: world_inv_def owners_apart_update)
    qed
  next
    case (EExpire locked n now)
    show ?thesis
    proof (cases "expire_claims locked n now (utc now) (w_db w)")
      case (Inl x)
      then show ?thesis using EExpire inv by simp
    next
      case (Inr p)
      obtain ks s where p: "p = (ks, s)" by (cases p)
      note eff = expire_rels [OF ci Inr [unfolded p]]
      have up: "upload_ok bfk s (w_store w) u" if u: "u \<in> set (w_uploads w)" for u
      proof -
        have "upload_ok bfk (w_db w) (w_store w) u" using u inv by (simp add: world_inv_def)
        then show ?thesis using eff by (auto intro: upload_ok_progress)
      qed
      have sw: "sweep_ok s now u" if u: "u \<in> set (w_sweeps w)" for u
      proof -
        have "sweep_ok (w_db w) (w_now w) u" using u inv by (simp add: world_inv_def)
        moreover have "claims_kept (''x'' @ sw_owner u) now (w_db w) s" using eff by blast
        ultimately show ?thesis by (rule sweep_ok_kept) (use time EExpire in simp_all)
      qed
      show ?thesis using EExpire Inr p eff up sw oa so refs_ok_progress [OF ro, of s "w_store w"]
        by (simp add: world_inv_def)
    qed
  qed
qed

lemma reaches_inv:
  assumes "reaches sha commit collate bfk w0 w"
    and "\<forall>so s r s'. commit so s = Inr (r, s') \<longrightarrow> upload_claims s' = upload_claims s"
    and "world_inv sha bfk w0"
  shows "world_inv sha bfk w"
  using assms
proof (induction rule: reaches.induct)
  case here
  then show ?case by simp
next
  case (step w e)
  show ?case
    by (rule world_exec_inv [where commit = commit]) (use step in auto)
qed

section \<open>Properties\<close>

definition fresh_world :: "(string \<Rightarrow> string) \<Rightarrow> 'r world \<Rightarrow> bool" where
  "fresh_world bfk w \<longleftrightarrow>
     upload_claims (w_db w) = [] \<and> fs_objects (w_store w) = Map.empty
     \<and> (\<forall>t\<in>set (w_uploads w). addressed bfk t \<and> ut_pc t = UAcquire 1)
     \<and> (\<forall>t\<in>set (w_sweeps w). sw_pc t = SwList)
     \<and> owners_apart (w_uploads w) (w_sweeps w)"

lemma fresh_world_inv: "fresh_world bfk w \<Longrightarrow> world_inv sha bfk w"
  by (auto simp: fresh_world_def world_inv_def claims_inv_def store_ok_def refs_ok_def get_claim_def
      upload_ok_def sweep_ok_def)

text \<open>
  C20. Committed objects are never lost. Any number of producers and sweepers run interleaved, each
  transaction and each call of the store being one step; producers may be slow, crash, lose their
  lease, repeat their PUT. As long as the clocks agree, a sweeper deletes before the end of the
  lease it has taken, and producers and sweepers use different owner names, every claim that has
  become a committed reference points to an object of the store whose bytes have the digest of the
  reference: reading it succeeds.
\<close>

theorem committed_objects_stay_readable:
  assumes "fresh_world bfk w0"
    and "\<forall>so s r s'. commit so s = Inr (r, s') \<longrightarrow> upload_claims s' = upload_claims s"
    and "reaches sha commit collate bfk w0 w"
    and "get_claim k (w_db w) = Some c" and "q_status c = ClaimCommitted"
  shows "\<exists>h body. q_sha256 c = Some h \<and> fake_get sha (bfk k) k h None (w_store w) = Inr body \<and> sha body = h"
proof -
  have "world_inv sha bfk w" by (rule reaches_inv [OF assms(3,2) fresh_world_inv [OF assms(1)]])
  then have r: "refs_ok bfk (w_db w) (w_store w)" and s: "store_ok sha (w_store w)"
    by (simp_all add: world_inv_def)
  obtain x where x: "fs_objects (w_store w) (bfk k, k) = Some x" "q_sha256 c = Some (mo_sha256 x)"
    using r assms(4,5) unfolding refs_ok_def by blast
  then have "sha (mo_data x) = mo_sha256 x" using s by (auto simp: store_ok_def)
  then show ?thesis using x by (simp add: fake_get_def)
qed

text \<open>A run given as a list of events, and whether each of them is admissible.\<close>

fun run_world ::
  "(string \<Rightarrow> string) \<Rightarrow> (stored_object \<Rightarrow> db \<Rightarrow> ('r \<times> db) res) \<Rightarrow> (string \<Rightarrow> rat) \<Rightarrow> (string \<Rightarrow> string)
   \<Rightarrow> world_event list \<Rightarrow> 'r world \<Rightarrow> 'r world" where
  "run_world sha commit collate bfk [] w = w"
| "run_world sha commit collate bfk (e # es) w =
     run_world sha commit collate bfk es (world_exec sha commit collate bfk e w)"

fun admitted ::
  "(string \<Rightarrow> string) \<Rightarrow> (stored_object \<Rightarrow> db \<Rightarrow> ('r \<times> db) res) \<Rightarrow> (string \<Rightarrow> rat) \<Rightarrow> (string \<Rightarrow> string)
   \<Rightarrow> world_event list \<Rightarrow> 'r world \<Rightarrow> bool" where
  "admitted sha commit collate bfk [] w \<longleftrightarrow> True"
| "admitted sha commit collate bfk (e # es) w \<longleftrightarrow>
     w_now w \<le> event_time e \<and> timely e w
     \<and> admitted sha commit collate bfk es (world_exec sha commit collate bfk e w)"

lemma reaches_run_world:
  "reaches sha commit collate bfk w0 w \<Longrightarrow> admitted sha commit collate bfk es w \<Longrightarrow>
   reaches sha commit collate bfk w0 (run_world sha commit collate bfk es w)"
  by (induction es arbitrary: w) (auto intro: reaches.step)

definition demo_digest :: string where
  "demo_digest = demo_sha ''abc''"

definition demo_upload :: "string \<Rightarrow> raw_object upload_task" where
  "demo_upload owner = \<lparr>ut_owner = owner, ut_lease_seconds = 10, ut_max_attempts = 3, ut_bucket = ''raw'',
     ut_key = ''raw/'' @ demo_digest, ut_data = ''abc'', ut_sha256 = demo_digest,
     ut_media_type = ''text/html'', ut_pc = UAcquire 1\<rparr>"

definition demo_sweep :: sweep_task where
  "demo_sweep = \<lparr>sw_owner = ''sweeper'', sw_lease_seconds = 10, sw_grace = 2, sw_minimum_grace = 1,
     sw_limit = 10, sw_candidates = 0, sw_deleted = [], sw_skipped = [], sw_pc = SwList\<rparr>"

definition demo_commit :: "stored_object \<Rightarrow> db \<Rightarrow> (raw_object \<times> db) res" where
  "demo_commit so s = record_raw_object 9 (oh_sha256 so) (so_key so) (stored_uri so) (oh_size so)
     ''text/html'' None None 0 (utc 0) s"

definition demo_world :: "raw_object world" where
  "demo_world = \<lparr>w_db = empty_db, w_store = fake_init None, w_now = 0,
     w_uploads = [demo_upload ''p1'', demo_upload ''p2''], w_sweeps = [demo_sweep]\<rparr>"

abbreviation demo_after :: "world_event list \<Rightarrow> raw_object world" where
  "demo_after es \<equiv> run_world demo_sha demo_commit (\<lambda>_. 0) (\<lambda>_. ''raw'') es demo_world"

text \<open>
  A producer puts its object and stalls past its lease; the sweeper takes the key, deletes the
  object and releases the key; the producer's commit is refused, it reacquires, puts again and
  commits; a second producer finds the committed object.
\<close>

definition demo_events :: "world_event list" where
  "demo_events = [EUpload 0 1 0, EUpload 0 1 1, ESweep 0 2 20000000, ESweep 0 2 20000001,
     EUpload 1 3 20000002, ESweep 0 2 20000003, ESweep 0 2 20000004, EUpload 0 1 20000005,
     EUpload 0 4 20000006, EUpload 0 4 20000007, EUpload 0 4 20000008]"

lemma fresh_demo_world: "fresh_world (\<lambda>_. ''raw'') demo_world"
proof -
  have "raw_object_key demo_digest = Inr (''raw/'' @ demo_digest)" by code_simp
  then show ?thesis
    by (simp add: fresh_world_def demo_world_def fake_init_def addressed_def demo_upload_def
        demo_sweep_def owners_apart_def)
qed

lemma demo_commit_claims: "demo_commit so s = Inr (r, s') \<Longrightarrow> upload_claims s' = upload_claims s"
  by (auto simp: demo_commit_def record_raw_object_def Let_def split: if_splits option.splits)

theorem committed_objects_stay_readable_witness:
  "\<exists>c. get_claim (''raw/'' @ demo_digest) (w_db (demo_after demo_events)) = Some c
     \<and> q_status c = ClaimCommitted \<and> q_claim_generation c = 3
     \<and> (\<exists>h body. q_sha256 c = Some h
          \<and> fake_get demo_sha ''raw'' (''raw/'' @ demo_digest) h None (w_store (demo_after demo_events)) = Inr body)"
proof -
  have adm: "admitted demo_sha demo_commit (\<lambda>_. 0) (\<lambda>_. ''raw'') demo_events demo_world" by code_simp
  have "map_option (\<lambda>c. (q_status c, q_claim_generation c))
      (get_claim (''raw/'' @ demo_digest) (w_db (demo_after demo_events))) = Some (ClaimCommitted, 3)"
    by code_simp
  then obtain c where c: "get_claim (''raw/'' @ demo_digest) (w_db (demo_after demo_events)) = Some c"
    "q_status c = ClaimCommitted" "q_claim_generation c = 3" by auto
  have "\<exists>h body. q_sha256 c = Some h
      \<and> fake_get demo_sha ''raw'' (''raw/'' @ demo_digest) h None (w_store (demo_after demo_events)) = Inr body
      \<and> demo_sha body = h"
    by (rule committed_objects_stay_readable [OF fresh_demo_world _ reaches_run_world [OF reaches.here adm] c(1,2)])
      (use demo_commit_claims in blast)
  then show ?thesis using c by blast
qed

text \<open>
  The condition on the sweeper is needed: the code does not look at its lease before the delete. A
  sweeper that stalls past its lease deletes an object that has been committed meanwhile.
\<close>

theorem late_delete_loses_a_committed_object:
  "map_option q_status (get_claim (''raw/'' @ demo_digest) (w_db (demo_after
      [EUpload 0 1 0, EUpload 0 1 1, ESweep 0 2 20000000, ESweep 0 2 20000001,
       EUpload 1 3 40000000, EUpload 1 3 40000001, EUpload 1 3 40000002, ESweep 0 2 40000003])))
     = Some ClaimCommitted
   \<and> fake_get demo_sha ''raw'' (''raw/'' @ demo_digest) demo_digest None (w_store (demo_after
      [EUpload 0 1 0, EUpload 0 1 1, ESweep 0 2 20000000, ESweep 0 2 20000001,
       EUpload 1 3 40000000, EUpload 1 3 40000001, EUpload 1 3 40000002, ESweep 0 2 40000003]))
     = Inl ArtifactNotFoundError"
  by code_simp

text \<open>How many steps an upload can still make, from the point it has reached.\<close>

fun steps_left :: "nat \<Rightarrow> 'r upload_pc \<Rightarrow> nat" where
  "steps_left m (UAcquire a) = 3 * (m + 1 - a) + 4"
| "steps_left m (UPut a _) = 3 * (m + 1 - a) + 3"
| "steps_left m (UCommit a _ _) = 3 * (m + 1 - a) + 2"
| "steps_left m (UCommitted _) = 3"
| "steps_left m (UVerify _) = 2"
| "steps_left m (URef _ _) = 1"
| "steps_left m (UDone _ _ _ _) = 0"
| "steps_left m (UFailed _) = 0"

fun in_loop :: "nat \<Rightarrow> 'r upload_pc \<Rightarrow> bool" where
  "in_loop m (UPut a _) \<longleftrightarrow> a \<le> m"
| "in_loop m (UCommit a _ _) \<longleftrightarrow> a \<le> m"
| "in_loop m _ \<longleftrightarrow> True"

fun finished :: "'r upload_pc \<Rightarrow> bool" where
  "finished (UDone _ _ _ _) \<longleftrightarrow> True"
| "finished (UFailed _) \<longleftrightarrow> True"
| "finished _ \<longleftrightarrow> False"

lemma finished_iff: "finished pc \<longleftrightarrow> steps_left m pc = 0"
  by (cases pc) auto

lemma finished_step: "finished (ut_pc t) \<Longrightarrow> upload_step sha commit i now t s st = (ut_pc t, s, st)"
  by (cases "ut_pc t") (simp_all add: upload_step_def)

lemma upload_step_descends:
  assumes "upload_step sha commit i now t s st = (pc, s', st')" and "in_loop (ut_max_attempts t) (ut_pc t)"
  shows "in_loop (ut_max_attempts t) pc
    \<and> (steps_left (ut_max_attempts t) pc < steps_left (ut_max_attempts t) (ut_pc t) \<or> finished pc)"
proof (cases "finished (ut_pc t)")
  case True
  then show ?thesis using assms finished_step [OF True] by auto
next
  case False
  then show ?thesis using assms
    by (cases "ut_pc t")
      (auto simp: upload_step_def split: if_splits sum.splits error.splits prod.splits option.splits)
qed

text \<open>
  One upload among others: at each of its steps the database and the store are whatever the rest of
  the world has made of them.
\<close>

fun upload_alone ::
  "(string \<Rightarrow> string) \<Rightarrow> (stored_object \<Rightarrow> db \<Rightarrow> ('r \<times> db) res) \<Rightarrow> (uuid \<times> ts \<times> db \<times> fake_store) list
   \<Rightarrow> 'r upload_task \<Rightarrow> 'r upload_task" where
  "upload_alone sha commit [] t = t"
| "upload_alone sha commit ((i, now, s, st) # es) t =
     upload_alone sha commit es (t\<lparr>ut_pc := fst (upload_step sha commit i now t s st)\<rparr>)"

lemma finished_stays:
  "finished (ut_pc t) \<Longrightarrow> finished (ut_pc (upload_alone sha commit es t))"
proof (induction es arbitrary: t)
  case (Cons e es)
  obtain i now s st where e: "e = (i, now, s, st)" by (cases e)
  have "finished (fst (upload_step sha commit i now t s st))"
    using Cons.prems by (simp add: finished_step)
  then show ?case by (simp add: e Cons.IH)
qed simp

lemma upload_alone_finishes:
  "in_loop (ut_max_attempts t) (ut_pc t) \<Longrightarrow> steps_left (ut_max_attempts t) (ut_pc t) \<le> length es \<Longrightarrow>
   finished (ut_pc (upload_alone sha commit es t))"
proof (induction es arbitrary: t)
  case Nil
  then show ?case using finished_iff by auto
next
  case (Cons e es)
  obtain i now s st where e: "e = (i, now, s, st)" by (cases e)
  obtain pc s' st' where r: "upload_step sha commit i now t s st = (pc, s', st')"
    by (cases "upload_step sha commit i now t s st") auto
  from upload_step_descends [OF r Cons.prems(1)]
  have d: "in_loop (ut_max_attempts t) pc"
    "steps_left (ut_max_attempts t) pc < steps_left (ut_max_attempts t) (ut_pc t) \<or> finished pc"
    by auto
  show ?case
  proof (cases "finished pc")
    case True
    then show ?thesis by (simp add: e r finished_stays)
  next
    case False
    with d Cons.prems(2) have "steps_left (ut_max_attempts t) pc \<le> length es" by simp
    then show ?thesis using Cons.IH [of "t\<lparr>ut_pc := pc\<rparr>"] d(1) by (simp add: e r)
  qed
qed

text \<open>
  An upload ends. Whatever the other producers, the sweepers and the clock do between its
  steps, a call of \<open>upload\<close> has returned or raised after at most \<open>3 * max_attempts + 4\<close> steps
  of its own: the retry loop is bounded.
\<close>

theorem upload_terminates:
  assumes "start_upload owner lease_seconds max_attempts bucket key data sha256 media_type = Inr t"
    and "3 * nat max_attempts + 4 \<le> length es"
  shows "finished (ut_pc (upload_alone sha commit es t))"
proof -
  have "ut_max_attempts t = nat max_attempts" "ut_pc t = UAcquire 1"
    using assms(1) by (auto simp: start_upload_def split: if_splits)
  then show ?thesis using assms(2) by (intro upload_alone_finishes) simp_all
qed

theorem upload_terminates_witness:
  "finished (ut_pc (upload_alone demo_sha demo_commit
     (replicate 13 (1, 0, empty_db, fake_init None)) (demo_upload ''p1'')))"
proof -
  have s: "start_upload ''p1'' 10 3 ''raw'' (''raw/'' @ demo_digest) ''abc'' demo_digest ''text/html''
      = Inr (demo_upload ''p1'')"
    by (simp add: start_upload_def demo_upload_def)
  show ?thesis by (rule upload_terminates [OF s]) simp
qed

end
