(* ===== verification/Segmenter.thy ===== *)
theory Segmenter
  imports Collector_Prelude
begin

text \<open>
  \<open>translation/segmenter.py\<close>: cleaned HTML is cut into immutable pieces and segments to
  translate. The state machine behind it is driven by the events of the standard library's
  \<open>HTMLParser\<close>: the model takes the list of events, each with the source text it stands for.
  \<open>html.unescape\<close> (\<open>unesc\<close>), \<open>str.lower\<close> (\<open>lower\<close>) and the value of a
  Unicode decimal digit (\<open>digit\<close>) are arguments. Text is a list of code points.
\<close>

section \<open>Tags and tokens\<close>

definition tags :: "string list \<Rightarrow> ustr set" where
  "tags xs = set (map ulit xs)"

definition INLINE_TAGS :: "ustr set" where
  "INLINE_TAGS = tags [''a'', ''abbr'', ''acronym'', ''b'', ''bdi'', ''bdo'', ''big'', ''br'', ''button'',
     ''cite'', ''data'', ''del'', ''dfn'', ''em'', ''font'', ''i'', ''img'', ''ins'', ''label'', ''mark'',
     ''nobr'', ''output'', ''q'', ''rp'', ''rt'', ''ruby'', ''s'', ''small'', ''span'', ''strike'',
     ''strong'', ''sub'', ''sup'', ''time'', ''tt'', ''u'', ''wbr'']"

definition PROTECTED_INLINE_TAGS :: "ustr set" where
  "PROTECTED_INLINE_TAGS = tags [''code'', ''kbd'', ''samp'', ''var'']"

definition SKIPPED_TAGS :: "ustr set" where
  "SKIPPED_TAGS = tags [''head'', ''math'', ''noscript'', ''pre'', ''script'', ''style'', ''svg'',
     ''template'', ''textarea'']"

definition VOID_TAGS :: "ustr set" where
  "VOID_TAGS = tags [''area'', ''base'', ''br'', ''col'', ''embed'', ''hr'', ''img'', ''input'', ''link'',
     ''meta'', ''param'', ''source'', ''track'', ''wbr'']"

text \<open>What a start tag closes implicitly, and where the search for it stops.\<close>

definition IMPLIED_END :: "ustr \<Rightarrow> ustr set \<times> ustr set" where
  "IMPLIED_END tag =
     (if tag = ulit ''li'' then (tags [''li''], tags [''ul'', ''ol'', ''menu''])
      else if tag = ulit ''dt'' \<or> tag = ulit ''dd'' then (tags [''dt'', ''dd''], tags [''dl''])
      else if tag = ulit ''td'' \<or> tag = ulit ''th'' then (tags [''td'', ''th''], tags [''tr'', ''table''])
      else if tag = ulit ''tr''
      then (tags [''tr'', ''td'', ''th''], tags [''table'', ''thead'', ''tbody'', ''tfoot''])
      else ({}, {}))"

definition IMPLIED_END_SCAN :: nat where
  "IMPLIED_END_SCAN = 256"

datatype token_kind = TextToken | TagToken | ProtectedToken
datatype segment_kind = TextSegment | AttributeSegment

record token =
  tk_kind :: token_kind
  tk_raw :: ustr
  tk_name :: ustr
  tk_closing :: bool

definition text_token :: "ustr \<Rightarrow> token" where
  "text_token raw = \<lparr>tk_kind = TextToken, tk_raw = raw, tk_name = [], tk_closing = False\<rparr>"

definition protected_token :: "ustr \<Rightarrow> token" where
  "protected_token raw = \<lparr>tk_kind = ProtectedToken, tk_raw = raw, tk_name = [], tk_closing = False\<rparr>"

definition tag_token :: "ustr \<Rightarrow> ustr \<Rightarrow> bool \<Rightarrow> token" where
  "tag_token raw name closing = \<lparr>tk_kind = TagToken, tk_raw = raw, tk_name = name, tk_closing = closing\<rparr>"

lemma token_simps [simp]:
  "tk_raw (text_token r) = r" "tk_kind (text_token r) = TextToken"
  "tk_raw (protected_token r) = r" "tk_kind (protected_token r) = ProtectedToken"
  "tk_raw (tag_token r n c) = r" "tk_kind (tag_token r n c) = TagToken"
  by (simp_all add: text_token_def protected_token_def tag_token_def)

record segment =
  sg_index :: nat
  sg_kind :: segment_kind
  sg_block :: ustr
  sg_lang :: "ustr option"
  sg_tokens :: "token list"

abbreviation raws :: "token list \<Rightarrow> ustr" where
  "raws ts \<equiv> concat (map tk_raw ts)"

definition segment_html :: "segment \<Rightarrow> ustr" where
  "segment_html s = raws (sg_tokens s)"

definition segment_text :: "(ustr \<Rightarrow> ustr) \<Rightarrow> segment \<Rightarrow> ustr" where
  "segment_text unesc s = concat (map (\<lambda>t.
     if tk_kind t = TextToken then unesc (tk_raw t)
     else if tk_kind t = ProtectedToken \<or> tk_name t = ulit ''br'' then [32] else []) (sg_tokens s))"

text \<open>A document is a list of pieces of the source and slots of segments.\<close>

datatype part = Piece ustr | Slot nat

record segmented_document =
  sd_parts :: "part list"
  sd_segments :: "segment list"
  sd_root_lang :: "ustr option"
  sd_unterminated_protected :: bool

section \<open>Pairs of tags\<close>

text \<open>The stack holds the positions and names of the open tags, innermost first.\<close>

fun matched_pairs :: "nat \<Rightarrow> (nat \<times> ustr) list \<Rightarrow> token list \<Rightarrow> (nat \<times> nat) list" where
  "matched_pairs i stack [] = []"
| "matched_pairs i stack (t # ts) =
     (if tk_kind t \<noteq> TagToken \<or> tk_name t \<in> VOID_TAGS then matched_pairs (i + 1) stack ts
      else if \<not> tk_closing t then matched_pairs (i + 1) ((i, tk_name t) # stack) ts
      else case stack of
             (j, name) # rest \<Rightarrow>
               if name = tk_name t then (j, i) # matched_pairs (i + 1) rest ts
               else matched_pairs (i + 1) stack ts
           | [] \<Rightarrow> matched_pairs (i + 1) stack ts)"

definition matched_tag_pairs :: "token list \<Rightarrow> (nat \<times> nat) list" where
  "matched_tag_pairs ts = matched_pairs 0 [] ts"

section \<open>Sentences\<close>

definition sentence_end :: "nat \<Rightarrow> bool" where
  "sentence_end c \<longleftrightarrow> c \<in> {46, 33, 63, 0x2026}"

definition closing_mark :: "nat \<Rightarrow> bool" where
  "closing_mark c \<longleftrightarrow> c \<in> {34, 39, 0xBB, 0x201D, 0x2019, 41}"

text \<open>
  \<open>[.!?\<dots>]["'\<guillemotright>)]*$\<close>: the marker \<open>$\<close> also matches before a newline at the end.
\<close>

definition ends_sentence :: "ustr \<Rightarrow> bool" where
  "ends_sentence s \<longleftrightarrow> (case dropWhile closing_mark (rev s) of [] \<Rightarrow> False | c # _ \<Rightarrow> sentence_end c)"

definition sentence_tail :: "ustr \<Rightarrow> bool" where
  "sentence_tail s \<longleftrightarrow> ends_sentence s \<or> (s \<noteq> [] \<and> last s = 10 \<and> ends_sentence (butlast s))"

text \<open>A cut before each run of white space that follows the end of a sentence.\<close>

fun cut_sentences :: "ustr \<Rightarrow> ustr \<Rightarrow> ustr list" where
  "cut_sentences cur [] = [cur]"
| "cut_sentences cur (c # cs) =
     (if cur \<noteq> [] \<and> sentence_end (last cur) \<and> py_isspace c then cur # cut_sentences [c] cs
      else cut_sentences (cur @ [c]) cs)"

definition split_keeping_whitespace :: "ustr \<Rightarrow> ustr list" where
  "split_keeping_whitespace raw = filter (\<lambda>p. p \<noteq> []) (cut_sentences [] raw)"

definition plain_length :: "(ustr \<Rightarrow> ustr) \<Rightarrow> token list \<Rightarrow> nat" where
  "plain_length unesc ts = sum_list (map (\<lambda>t. length (unesc (tk_raw t))) (filter (\<lambda>t. tk_kind t = TextToken) ts))"

section \<open>Attributes of a raw start tag\<close>

text \<open>
  \<open><[^\s/>]+\<close>, \<open>[\s/]*([^\s/>=][^\s/>=]*)\<close> and \<open>\s*=\s*("[^"]*"|'[^']*'|[^\s>]*)\<close>
  as scanners that return how much they consume.
\<close>

definition name_char :: "nat \<Rightarrow> bool" where
  "name_char c \<longleftrightarrow> \<not> py_isspace c \<and> c \<noteq> 47 \<and> c \<noteq> 62"

definition tag_name_end :: "ustr \<Rightarrow> nat option" where
  "tag_name_end raw =
     (case raw of [] \<Rightarrow> None
      | c # cs \<Rightarrow> let n = length (takeWhile name_char cs) in if c = 60 \<and> 0 < n then Some (n + 1) else None)"

definition attr_name :: "ustr \<Rightarrow> (nat \<times> ustr) option" where
  "attr_name s =
     (let skipped = takeWhile (\<lambda>c. py_isspace c \<or> c = 47) s;
          name = takeWhile (\<lambda>c. name_char c \<and> c \<noteq> 61) (drop (length skipped) s)
      in if name = [] then None else Some (length skipped + length name, name))"

definition quoted :: "nat \<Rightarrow> ustr \<Rightarrow> nat option" where
  "quoted q s = (case s of [] \<Rightarrow> None
     | c # cs \<Rightarrow> let body = takeWhile (\<lambda>x. x \<noteq> q) cs
                in if c = q \<and> length body < length cs then Some (length body + 2) else None)"

text \<open>The start and the length of the value after an attribute's name.\<close>

definition attr_value :: "ustr \<Rightarrow> (nat \<times> nat) option" where
  "attr_value s =
     (let a = length (takeWhile py_isspace s); rest = drop a s
      in case rest of [] \<Rightarrow> None
         | c # cs \<Rightarrow>
             if c \<noteq> 61 then None
             else let b = length (takeWhile py_isspace cs); v = drop b cs
                  in Some (a + 1 + b,
                       case quoted 34 v of Some n \<Rightarrow> n
                       | None \<Rightarrow> (case quoted 39 v of Some n \<Rightarrow> n
                           | None \<Rightarrow> length (takeWhile (\<lambda>x. \<not> py_isspace x \<and> x \<noteq> 62) v))))"

text \<open>The loop of \<open>_attribute_values\<close>: every round consumes a name, so the fuel \<open>length raw\<close> is enough.\<close>

fun attribute_loop :: "nat \<Rightarrow> (ustr \<Rightarrow> ustr) \<Rightarrow> ustr \<Rightarrow> nat \<Rightarrow> (ustr \<times> nat \<times> nat) list" where
  "attribute_loop 0 lower raw pos = []"
| "attribute_loop (Suc fuel) lower raw pos =
     (if length raw \<le> pos then []
      else case attr_name (drop pos raw) of
             None \<Rightarrow> []
           | Some (n, name) \<Rightarrow>
               (case attr_value (drop (pos + n) raw) of
                  None \<Rightarrow> attribute_loop fuel lower raw (pos + n)
                | Some (start, len) \<Rightarrow>
                    (lower name, pos + n + start, pos + n + start + len)
                      # attribute_loop fuel lower raw (pos + n + start + len)))"

definition attribute_values :: "(ustr \<Rightarrow> ustr) \<Rightarrow> ustr \<Rightarrow> (ustr \<times> nat \<times> nat) list" where
  "attribute_values lower raw =
     attribute_loop (length raw) lower raw (case tag_name_end raw of Some n \<Rightarrow> n | None \<Rightarrow> length raw)"

section \<open>The state of the segmenter\<close>

record skip =
  sk_name :: ustr
  sk_to_run :: bool
  sk_buffer :: "ustr list"
  sk_depth :: int
  sk_inner :: "ustr \<Rightarrow> int"
  sk_closers :: "ustr \<Rightarrow> int"

record segmenter =
  ss_parts :: "part list"
  ss_segments :: "segment list"
  ss_stack :: "(ustr \<times> ustr option) list"
  ss_open :: "ustr \<Rightarrow> int"
  ss_run :: "token list"
  ss_run_context :: "ustr \<times> ustr option"
  ss_skip :: "skip option"
  ss_root_lang :: "ustr option"
  ss_top_level :: nat
  ss_unterminated :: bool
  ss_pending_text :: "ustr list"

record segmenter_env =
  se_unesc :: "ustr \<Rightarrow> ustr"
  se_lower :: "ustr \<Rightarrow> ustr"
  se_attributes :: "ustr list"
  se_max_chars :: "nat option"

definition new_segmenter :: segmenter where
  "new_segmenter = \<lparr>ss_parts = [], ss_segments = [], ss_stack = [], ss_open = (\<lambda>_. 0), ss_run = [],
     ss_run_context = ([], None), ss_skip = None, ss_root_lang = None, ss_top_level = 0,
     ss_unterminated = False, ss_pending_text = []\<rparr>"

definition document :: "segmenter \<Rightarrow> segmented_document" where
  "document st = \<lparr>sd_parts = ss_parts st, sd_segments = ss_segments st, sd_root_lang = ss_root_lang st,
     sd_unterminated_protected = ss_unterminated st\<rparr>"

text \<open>The innermost element is the last of the stack.\<close>

definition context_of :: "segmenter \<Rightarrow> ustr \<times> ustr option" where
  "context_of st = (if ss_stack st = [] then ([], None) else last (ss_stack st))"

definition add_parts :: "part list \<Rightarrow> segmenter \<Rightarrow> segmenter" where
  "add_parts ps st = st\<lparr>ss_parts := ss_parts st @ ps\<rparr>"

definition run_append :: "token \<Rightarrow> segmenter \<Rightarrow> segmenter" where
  "run_append t st =
     (let st1 = (if ss_run st = [] then st\<lparr>ss_run_context := context_of st\<rparr> else st)
      in st1\<lparr>ss_run := ss_run st1 @ [t]\<rparr>)"

definition materialize_text :: "segmenter \<Rightarrow> segmenter" where
  "materialize_text st =
     (if ss_pending_text st = [] then st
      else run_append (text_token (concat (ss_pending_text st))) (st\<lparr>ss_pending_text := []\<rparr>))"

definition append_token :: "token \<Rightarrow> segmenter \<Rightarrow> segmenter" where
  "append_token t st = run_append t (if tk_kind t \<noteq> TextToken then materialize_text st else st)"

definition add_text :: "ustr \<Rightarrow> segmenter \<Rightarrow> segmenter" where
  "add_text raw st =
     (case ss_skip st of
        Some sk \<Rightarrow> st\<lparr>ss_skip := Some (sk\<lparr>sk_buffer := sk_buffer sk @ [raw]\<rparr>)\<rparr>
      | None \<Rightarrow>
          if ss_pending_text st \<noteq> [] then st\<lparr>ss_pending_text := ss_pending_text st @ [raw]\<rparr>
          else if ss_run st \<noteq> [] \<and> tk_kind (last (ss_run st)) = TextToken
          then st\<lparr>ss_pending_text := [tk_raw (last (ss_run st)), raw], ss_run := butlast (ss_run st)\<rparr>
          else st\<lparr>ss_pending_text := [raw]\<rparr>)"

definition add_opaque :: "ustr \<Rightarrow> segmenter \<Rightarrow> segmenter" where
  "add_opaque raw st =
     (case ss_skip st of
        Some sk \<Rightarrow> st\<lparr>ss_skip := Some (sk\<lparr>sk_buffer := sk_buffer sk @ [raw]\<rparr>)\<rparr>
      | None \<Rightarrow>
          if ss_run st \<noteq> [] \<or> ss_pending_text st \<noteq> [] then append_token (protected_token raw) st
          else add_parts [Piece raw] st)"

definition end_skip :: "segmenter \<Rightarrow> segmenter" where
  "end_skip st =
     (case ss_skip st of
        None \<Rightarrow> st
      | Some sk \<Rightarrow>
          let st1 = st\<lparr>ss_skip := None\<rparr>; raw = concat (sk_buffer sk)
          in if sk_to_run sk then append_token (protected_token raw) st1 else add_parts [Piece raw] st1)"

section \<open>Cutting a run into segments\<close>

text \<open>\<open>str.lstrip\<close> and \<open>str.rstrip\<close>.\<close>

definition lstrip :: "ustr \<Rightarrow> ustr" where
  "lstrip s = dropWhile py_isspace s"

definition rstrip :: "ustr \<Rightarrow> ustr" where
  "rstrip s = rev (dropWhile py_isspace (rev s))"

definition visible :: "(ustr \<Rightarrow> ustr) \<Rightarrow> token \<Rightarrow> bool" where
  "visible unesc t \<longleftrightarrow> tk_kind t = TextToken \<and> py_strip (unesc (tk_raw t)) \<noteq> []"

definition strip_head :: "token list \<Rightarrow> part list \<times> token list" where
  "strip_head ts =
     (case ts of [] \<Rightarrow> ([], [])
      | t # rest \<Rightarrow>
          if tk_kind t = TextToken
          then let head = tk_raw t; stripped = lstrip head
               in ([Piece (take (length head - length stripped) head)], text_token stripped # rest)
          else ([], ts))"

definition strip_tail :: "token list \<Rightarrow> token list \<times> ustr" where
  "strip_tail ts =
     (if ts \<noteq> [] \<and> tk_kind (last ts) = TextToken
      then let lst = tk_raw (last ts); stripped = rstrip lst
           in (butlast ts @ [text_token stripped], drop (length stripped) lst)
      else (ts, []))"

definition emit_segment :: "segmenter_env \<Rightarrow> token list \<Rightarrow> segmenter \<Rightarrow> segmenter" where
  "emit_segment env tokens st =
     (let ts = filter (\<lambda>t. tk_raw t \<noteq> []) tokens
      in if \<not> list_ex (visible (se_unesc env)) ts then add_parts (map (Piece \<circ> tk_raw) ts) st
         else let (lead, ts1) = strip_head ts;
                  (ts2, tail) = strip_tail ts1;
                  ts3 = filter (\<lambda>t. tk_raw t \<noteq> []) ts2;
                  index = length (ss_segments st);
                  seg = \<lparr>sg_index = index, sg_kind = TextSegment, sg_block = fst (ss_run_context st),
                         sg_lang = snd (ss_run_context st), sg_tokens = ts3\<rparr>
              in st\<lparr>ss_parts := ss_parts st @ lead @ [Slot index] @ (if tail \<noteq> [] then [Piece tail] else []),
                    ss_segments := ss_segments st @ [seg]\<rparr>)"

text \<open>Units end where a sentence ends outside of every pair of tags.\<close>

fun add_unit_tokens :: "token list list \<Rightarrow> ustr list \<Rightarrow> token list list" where
  "add_unit_tokens units [] = units"
| "add_unit_tokens units (s # ss) =
     add_unit_tokens
       (let u = butlast units @ [last units @ [text_token s]] in if sentence_tail s then u @ [[]] else u) ss"

definition depth_change :: "(nat \<times> nat) list \<Rightarrow> nat \<Rightarrow> int" where
  "depth_change pairs i = (if i \<in> snd ` set pairs then -1 else if i \<in> fst ` set pairs then 1 else 0)"

fun sentence_units :: "(nat \<times> nat) list \<Rightarrow> nat \<Rightarrow> int \<Rightarrow> token list list \<Rightarrow> token list \<Rightarrow> token list list" where
  "sentence_units pairs i depth units [] = units"
| "sentence_units pairs i depth units (t # ts) =
     (let d = depth + depth_change pairs i
      in if tk_kind t \<noteq> TextToken \<or> d \<noteq> 0
         then sentence_units pairs (i + 1) d (butlast units @ [last units @ [t]]) ts
         else sentence_units pairs (i + 1) d (add_unit_tokens units (split_keeping_whitespace (tk_raw t))) ts)"

fun pack_units :: "(ustr \<Rightarrow> ustr) \<Rightarrow> nat \<Rightarrow> token list list \<Rightarrow> token list list \<Rightarrow> token list list" where
  "pack_units unesc m chunks [] = chunks"
| "pack_units unesc m chunks (u # us) =
     pack_units unesc m
       (if chunks \<noteq> [] \<and> plain_length unesc (last chunks) + plain_length unesc u \<le> m
        then butlast chunks @ [last chunks @ u]
        else if u \<noteq> [] then chunks @ [u] else chunks) us"

definition chunks_of :: "segmenter_env \<Rightarrow> token list \<Rightarrow> token list list" where
  "chunks_of env ts =
     (case se_max_chars env of
        None \<Rightarrow> [ts]
      | Some m \<Rightarrow>
          if plain_length (se_unesc env) ts \<le> m then [ts]
          else pack_units (se_unesc env) m []
                 (sentence_units (matched_tag_pairs ts) 0 0 [[]] ts))"

text \<open>The tags at both ends of a run that have no partner in it stay outside of the segments.\<close>

definition loose :: "(nat \<times> nat) list \<Rightarrow> nat \<times> token \<Rightarrow> bool" where
  "loose pairs = (\<lambda>(i, t). tk_kind t = TagToken \<and> i \<notin> fst ` set pairs \<and> i \<notin> snd ` set pairs)"

definition trim_run :: "token list \<Rightarrow> token list \<times> token list \<times> token list" where
  "trim_run run =
     (let pairs = matched_tag_pairs run;
          numbered = enumerate 0 run;
          start = takeWhile (loose pairs) numbered;
          rest = dropWhile (loose pairs) numbered;
          tail = rev (takeWhile (loose pairs) (rev rest));
          mid = rev (dropWhile (loose pairs) (rev rest))
      in (map snd start, map snd mid, map snd tail))"

definition flush :: "segmenter_env \<Rightarrow> segmenter \<Rightarrow> segmenter" where
  "flush env st =
     (let st1 = materialize_text st; run = ss_run st1; st2 = st1\<lparr>ss_run := []\<rparr>
      in if run = [] then st2
         else let (start, mid, tail) = trim_run run;
                  st3 = add_parts (map (Piece \<circ> tk_raw) start) st2;
                  st4 = fold (emit_segment env) (chunks_of env mid) st3
              in add_parts (map (Piece \<circ> tk_raw) tail) st4)"

section \<open>Elements\<close>

definition pop_to :: "nat \<Rightarrow> segmenter \<Rightarrow> segmenter" where
  "pop_to n st =
     st\<lparr>ss_open := fold (\<lambda>(name, _) f. f(name := f name - 1)) (drop n (ss_stack st)) (ss_open st),
        ss_stack := take n (ss_stack st)\<rparr>"

text \<open>The search down the stack for an element that the start tag closes.\<close>

fun implied_position :: "ustr set \<Rightarrow> ustr set \<Rightarrow> nat \<Rightarrow> nat \<Rightarrow> (ustr \<times> ustr option) list \<Rightarrow> nat option" where
  "implied_position closes boundary lowest 0 stack = None"
| "implied_position closes boundary lowest (Suc p) stack =
     (if p < lowest then None
      else let name = fst (stack ! p)
           in if name \<in> boundary then None
              else if name \<in> closes then Some p
              else implied_position closes boundary lowest p stack)"

definition block_start :: "segmenter_env \<Rightarrow> ustr \<Rightarrow> ustr \<Rightarrow> ustr option \<Rightarrow> bool \<Rightarrow> segmenter \<Rightarrow> segmenter" where
  "block_start env tag raw lang void st =
     (let st1 = flush env st;
          st2 = (if ss_stack st1 \<noteq> [] \<and> fst (last (ss_stack st1)) = ulit ''p''
                 then pop_to (length (ss_stack st1) - 1) st1 else st1);
          (closes, boundary) = IMPLIED_END tag;
          lowest = length (ss_stack st2) - IMPLIED_END_SCAN;
          st3 = (if \<exists>name\<in>closes. ss_open st2 name \<noteq> 0
                 then (case implied_position closes boundary lowest (length (ss_stack st2)) (ss_stack st2) of
                         None \<Rightarrow> st2 | Some p \<Rightarrow> pop_to p st2)
                 else st2);
          st4 = add_parts [Piece raw] st3
      in if void then st4
         else st4\<lparr>ss_stack := ss_stack st4 @
                    [(tag, case lang of Some l \<Rightarrow> if l \<noteq> [] then Some l else snd (context_of st4)
                           | None \<Rightarrow> snd (context_of st4))],
                  ss_open := (ss_open st4)(tag := ss_open st4 tag + 1)\<rparr>)"

text \<open>Every attribute value to translate becomes a segment of its own.\<close>

fun digits_of :: "nat \<Rightarrow> nat \<Rightarrow> ustr" where
  "digits_of 0 n = []"
| "digits_of (Suc k) n = (if n < 10 then [48 + n] else digits_of k (n div 10) @ [48 + n mod 10])"

definition attr_slot :: "nat \<Rightarrow> ustr" where
  "attr_slot i = [0xFDD0] @ digits_of (i + 1) i @ [0xFDD1]"

fun collect_slots ::
  "segmenter_env \<Rightarrow> ustr \<Rightarrow> ustr \<Rightarrow> ustr option \<Rightarrow> ustr list \<Rightarrow> (ustr \<times> nat \<times> nat) list \<Rightarrow> segmenter
   \<Rightarrow> (nat \<times> nat \<times> nat) list \<times> segmenter" where
  "collect_slots env raw tag lang seen [] st = ([], st)"
| "collect_slots env raw tag lang seen ((name, a, b) # vs) st =
     (if name \<in> set seen then collect_slots env raw tag lang seen vs st
      else let v = take (b - a) (drop a raw);
               v' = (if v \<noteq> [] \<and> hd v \<in> {34, 39} then butlast (tl v) else v)
           in if name \<notin> set (se_attributes env) \<or> py_strip (se_unesc env v') = []
              then collect_slots env raw tag lang (name # seen) vs st
              else let index = length (ss_segments st);
                       seg = \<lparr>sg_index = index, sg_kind = AttributeSegment, sg_block = tag,
                              sg_lang = (case lang of Some l \<Rightarrow> if l \<noteq> [] then Some l else snd (context_of st)
                                         | None \<Rightarrow> snd (context_of st)),
                              sg_tokens = [text_token v']\<rparr>;
                       (slots, st') = collect_slots env raw tag lang (name # seen) vs
                                        (st\<lparr>ss_segments := ss_segments st @ [seg]\<rparr>)
                   in ((a, b, index) # slots, st'))"

definition attribute_slots :: "segmenter_env \<Rightarrow> ustr \<Rightarrow> ustr \<Rightarrow> ustr option \<Rightarrow> segmenter \<Rightarrow> ustr \<times> segmenter" where
  "attribute_slots env raw tag lang st =
     (let (slots, st') = collect_slots env raw tag lang [] (attribute_values (se_lower env) raw) st
      in (foldr (\<lambda>(a, b, index) r. take a r @ [34] @ attr_slot index @ [34] @ drop b r) slots raw, st'))"

text \<open>The open ancestors: the block stack and the inline tags of the run without a partner.\<close>

fun open_inline :: "ustr list \<Rightarrow> token list \<Rightarrow> ustr list" where
  "open_inline acc [] = acc"
| "open_inline acc (t # ts) =
     (if tk_kind t \<noteq> TagToken \<or> tk_name t \<in> VOID_TAGS then open_inline acc ts
      else if \<not> tk_closing t then open_inline (acc @ [tk_name t]) ts
      else if acc \<noteq> [] \<and> last acc = tk_name t then open_inline (butlast acc) ts
      else open_inline acc ts)"

definition open_ancestors :: "segmenter \<Rightarrow> (ustr \<Rightarrow> int)" where
  "open_ancestors st =
     (\<lambda>n. int (count_list (map fst (ss_stack st) @ open_inline [] (ss_run st)) n))"

definition truthy :: "ustr option \<Rightarrow> ustr" where
  "truthy v = (case v of None \<Rightarrow> [] | Some x \<Rightarrow> x)"

definition start_element ::
  "segmenter_env \<Rightarrow> ustr \<Rightarrow> (ustr \<times> ustr option) list \<Rightarrow> ustr \<Rightarrow> bool \<Rightarrow> segmenter \<Rightarrow> segmenter" where
  "start_element env tag attrs raw void st0 =
     (let attr_map = map_of (rev (map (\<lambda>(k, v). (se_lower env k, v)) attrs));
          lang = (case attr_map (ulit ''lang'') of None \<Rightarrow> None | Some v \<Rightarrow> v);
          st = (if ss_stack st0 = []
                then st0\<lparr>ss_top_level := ss_top_level st0 + 1,
                         ss_root_lang := (if ss_top_level st0 + 1 = 1 then lang else None)\<rparr>
                else st0);
          no_translate = se_lower env (truthy (case attr_map (ulit ''translate'') of None \<Rightarrow> None | Some v \<Rightarrow> v))
                           = ulit ''no'';
          inline = (tag \<in> INLINE_TAGS \<or> tag \<in> PROTECTED_INLINE_TAGS)
      in if tag \<in> SKIPPED_TAGS \<or> tag \<in> PROTECTED_INLINE_TAGS \<or> no_translate
         then if void then (if inline then add_opaque raw st else block_start env tag raw lang True st)
              else let st1 = (if inline then st else flush env st); st2 = materialize_text st1
                   in st2\<lparr>ss_skip := Some \<lparr>sk_name = tag, sk_to_run = inline, sk_buffer = [raw],
                        sk_depth = 1, sk_inner = (\<lambda>_. 0), sk_closers = open_ancestors st2\<rparr>\<rparr>
         else let (raw', st1) = attribute_slots env raw tag lang st
              in if tag \<in> INLINE_TAGS then append_token (tag_token raw' tag False) st1
                 else block_start env tag raw' lang void st1)"

definition start_event ::
  "segmenter_env \<Rightarrow> ustr \<Rightarrow> (ustr \<times> ustr option) list \<Rightarrow> ustr \<Rightarrow> bool \<Rightarrow> segmenter \<Rightarrow> segmenter" where
  "start_event env tag attrs raw void st =
     (case ss_skip st of
        None \<Rightarrow> start_element env tag attrs raw void st
      | Some sk \<Rightarrow>
          if sk_to_run sk \<and> tag \<notin> INLINE_TAGS \<union> PROTECTED_INLINE_TAGS
          then start_element env tag attrs raw void (end_skip st)
          else let sk1 = sk\<lparr>sk_buffer := sk_buffer sk @ [raw]\<rparr>;
                   sk2 = (if tag = sk_name sk \<and> \<not> void then sk1\<lparr>sk_depth := sk_depth sk1 + 1\<rparr>
                          else if \<not> void then sk1\<lparr>sk_inner := (sk_inner sk1)(tag := sk_inner sk1 tag + 1)\<rparr>
                          else sk1)
               in st\<lparr>ss_skip := Some sk2\<rparr>)"

definition end_raw :: "ustr \<Rightarrow> ustr" where
  "end_raw tag = ulit ''</'' @ tag @ ulit ''>''"

text \<open>The last position of the stack that holds the tag.\<close>

fun last_position :: "ustr \<Rightarrow> nat \<Rightarrow> (ustr \<times> ustr option) list \<Rightarrow> nat option" where
  "last_position tag 0 stack = None"
| "last_position tag (Suc p) stack =
     (if fst (stack ! p) = tag then Some p else last_position tag p stack)"

definition end_element :: "segmenter_env \<Rightarrow> ustr \<Rightarrow> segmenter \<Rightarrow> segmenter" where
  "end_element env tag st =
     (if tag \<in> INLINE_TAGS then append_token (tag_token (end_raw tag) tag True) st
      else let st1 = add_parts [Piece (end_raw tag)] (flush env st)
           in if ss_open st1 tag \<noteq> 0
              then (case last_position tag (length (ss_stack st1)) (ss_stack st1) of
                      None \<Rightarrow> st1 | Some p \<Rightarrow> pop_to p st1)
              else st1)"

definition end_event :: "segmenter_env \<Rightarrow> ustr \<Rightarrow> segmenter \<Rightarrow> segmenter" where
  "end_event env tag st =
     (case ss_skip st of
        None \<Rightarrow> end_element env tag st
      | Some sk \<Rightarrow>
          let buffered = sk\<lparr>sk_buffer := sk_buffer sk @ [end_raw tag]\<rparr>
          in if 0 < sk_inner sk tag
             then st\<lparr>ss_skip := Some (buffered\<lparr>sk_inner := (sk_inner sk)(tag := sk_inner sk tag - 1)\<rparr>)\<rparr>
             else if tag = sk_name sk
             then let st1 = st\<lparr>ss_skip := Some (buffered\<lparr>sk_depth := sk_depth sk - 1\<rparr>)\<rparr>
                  in if sk_depth sk - 1 = 0 then end_skip st1 else st1
             else if sk_closers sk tag = 0 then st\<lparr>ss_skip := Some buffered\<rparr>
             else end_element env tag (end_skip st))"

section \<open>The events of the parser\<close>

datatype html_event =
    StartTag ustr "(ustr \<times> ustr option) list" ustr
  | StartEndTag ustr "(ustr \<times> ustr option) list" ustr
  | EndTag ustr
  | Data ustr
  | EntityRef ustr
  | CharRef ustr
  | Comment ustr
  | Decl ustr
  | UnknownDecl ustr
  | PI ustr

definition unknown_decl_raw :: "ustr \<Rightarrow> ustr" where
  "unknown_decl_raw d =
     (if take 6 d = ulit ''CDATA['' then ulit ''<!['' @ d @ ulit '']]>'' else ulit ''<!['' @ d @ ulit '']>'')"

text \<open>\<open>get_starttag_text() or ...\<close>: the raw text of a start tag, or the bare tag if there is none.\<close>

fun event_raw :: "html_event \<Rightarrow> ustr" where
  "event_raw (StartTag tag attrs raw) = (if raw \<noteq> [] then raw else ulit ''<'' @ tag @ ulit ''>'')"
| "event_raw (StartEndTag tag attrs raw) = (if raw \<noteq> [] then raw else ulit ''<'' @ tag @ ulit ''/>'')"
| "event_raw (EndTag tag) = end_raw tag"
| "event_raw (Data d) = d"
| "event_raw (EntityRef n) = ulit ''&'' @ n @ ulit '';''"
| "event_raw (CharRef n) = ulit ''&#'' @ n @ ulit '';''"
| "event_raw (Comment d) = ulit ''<!--'' @ d @ ulit ''-->''"
| "event_raw (Decl d) = ulit ''<!'' @ d @ ulit ''>''"
| "event_raw (UnknownDecl d) = unknown_decl_raw d"
| "event_raw (PI d) = ulit ''<?'' @ d @ ulit ''>''"

fun handle_event :: "segmenter_env \<Rightarrow> html_event \<Rightarrow> segmenter \<Rightarrow> segmenter" where
  "handle_event env (StartTag tag attrs raw) st =
     start_event env tag attrs (event_raw (StartTag tag attrs raw)) (tag \<in> VOID_TAGS) st"
| "handle_event env (StartEndTag tag attrs raw) st =
     start_event env tag attrs (event_raw (StartEndTag tag attrs raw)) True st"
| "handle_event env (EndTag tag) st = end_event env tag st"
| "handle_event env (Data d) st = add_text d st"
| "handle_event env (EntityRef n) st = add_text (event_raw (EntityRef n)) st"
| "handle_event env (CharRef n) st = add_text (event_raw (CharRef n)) st"
| "handle_event env (Comment d) st = add_opaque (event_raw (Comment d)) st"
| "handle_event env (Decl d) st = add_opaque (event_raw (Decl d)) st"
| "handle_event env (UnknownDecl d) st = add_opaque (event_raw (UnknownDecl d)) st"
| "handle_event env (PI d) st = add_opaque (event_raw (PI d)) st"

definition close_parser :: "segmenter_env \<Rightarrow> segmenter \<Rightarrow> segmenter" where
  "close_parser env st =
     flush env (case ss_skip st of None \<Rightarrow> st | Some _ \<Rightarrow> end_skip (st\<lparr>ss_unterminated := True\<rparr>))"

definition segment_events :: "segmenter_env \<Rightarrow> html_event list \<Rightarrow> segmented_document" where
  "segment_events env events = document (close_parser env (fold (handle_event env) events new_segmenter))"

text \<open>
  \<open>segment_html\<close>: the two characters that mark a slot are replaced in the source first; the events
  are what the standard parser (\<open>parse\<close>) makes of it.
\<close>

definition segment_source ::
  "(ustr \<Rightarrow> html_event list) \<Rightarrow> (ustr \<Rightarrow> ustr) \<Rightarrow> (ustr \<Rightarrow> ustr) \<Rightarrow> nat option \<Rightarrow> ustr list \<Rightarrow> ustr \<Rightarrow> segmented_document" where
  "segment_source parse unesc lower max_segment_chars translate_attributes source =
     (let attributes = map lower translate_attributes;
          source' = (if attributes \<noteq> [] then map (\<lambda>c. if c = 0xFDD0 \<or> c = 0xFDD1 then 0xFFFD else c) source
                     else source)
      in segment_events \<lparr>se_unesc = unesc, se_lower = lower, se_attributes = attributes,
           se_max_chars = max_segment_chars\<rparr> (parse source'))"

section \<open>Reassembly\<close>

definition escape_char :: "bool \<Rightarrow> nat \<Rightarrow> ustr" where
  "escape_char quote c =
     (if c = 38 then ulit ''&amp;'' else if c = 60 then ulit ''&lt;'' else if c = 62 then ulit ''&gt;''
      else if quote \<and> c = 34 then ulit ''&quot;'' else if quote \<and> c = 39 then ulit ''&#x27;'' else [c])"

definition html_escape :: "bool \<Rightarrow> ustr \<Rightarrow> ustr" where
  "html_escape quote s = concat (map (escape_char quote) s)"

text \<open>\<open>_ATTR_SLOT_RE.sub\<close>: every marked number is replaced, the rest stays.\<close>

definition slot_number :: "(nat \<Rightarrow> nat option) \<Rightarrow> ustr \<Rightarrow> (nat \<times> ustr) option" where
  "slot_number digit s =
     (let ds = takeWhile (\<lambda>c. digit c \<noteq> None) s; rest = dropWhile (\<lambda>c. digit c \<noteq> None) s
      in if ds \<noteq> [] \<and> rest \<noteq> [] \<and> hd rest = 0xFDD1
         then Some (foldl (\<lambda>n c. 10 * n + the (digit c)) 0 ds, tl rest) else None)"

function fill_slots :: "(nat \<Rightarrow> nat option) \<Rightarrow> (nat \<Rightarrow> ustr) \<Rightarrow> ustr \<Rightarrow> ustr" where
  "fill_slots digit f [] = []"
| "fill_slots digit f (c # cs) =
     (if c \<noteq> 0xFDD0 then c # fill_slots digit f cs
      else case slot_number digit cs of
             None \<Rightarrow> c # fill_slots digit f cs
           | Some (n, rest) \<Rightarrow> f n @ fill_slots digit f rest)"
  by pat_completeness auto

lemma slot_number_shorter: "slot_number digit s = Some (n, rest) \<Longrightarrow> length rest < length s"
proof -
  assume a: "slot_number digit s = Some (n, rest)"
  then have "rest = tl (dropWhile (\<lambda>c. digit c \<noteq> None) s)" "dropWhile (\<lambda>c. digit c \<noteq> None) s \<noteq> []"
    by (auto simp: slot_number_def Let_def split: if_splits)
  then have "length rest < length (dropWhile (\<lambda>c. digit c \<noteq> None) s)" by simp
  also have "\<dots> \<le> length s" by (rule length_dropWhile_le)
  finally show ?thesis .
qed

termination fill_slots
  by (relation "measure (\<lambda>(_, _, s). length s)") (auto dest: slot_number_shorter)

definition reassemble ::
  "(nat \<Rightarrow> nat option) \<Rightarrow> segmented_document \<Rightarrow> ustr list \<Rightarrow> ustr res" where
  "reassemble digit doc translations =
     (if length translations \<noteq> length (sd_segments doc) then Inl ValueError
      else let joined = concat (map (\<lambda>p. case p of Piece s \<Rightarrow> s | Slot i \<Rightarrow> translations ! i) (sd_parts doc))
           in if \<not> list_ex (\<lambda>s. sg_kind s = AttributeSegment) (sd_segments doc) then Inr joined
              else Inr (fill_slots digit (\<lambda>i.
                if length (sd_segments doc) \<le> i \<or> sg_kind (sd_segments doc ! i) \<noteq> AttributeSegment
                then [0xFFFD] else html_escape True (translations ! i)) joined))"

section \<open>Nothing of a run is lost\<close>

text \<open>
  The reading of a state: the source text of the parts, with every segment in its slot, and the text
  that is still held in the run, in the pending text or in the element being skipped.
\<close>

definition render_parts :: "segment list \<Rightarrow> part list \<Rightarrow> ustr" where
  "render_parts segs ps = concat (map (\<lambda>p. case p of Piece s \<Rightarrow> s | Slot i \<Rightarrow> segment_html (segs ! i)) ps)"

definition slots_ok :: "segment list \<Rightarrow> part list \<Rightarrow> bool" where
  "slots_ok segs ps \<longleftrightarrow> (\<forall>i. Slot i \<in> set ps \<longrightarrow> i < length segs)"

definition skipped_text :: "skip option \<Rightarrow> ustr" where
  "skipped_text s = (case s of None \<Rightarrow> [] | Some sk \<Rightarrow> concat (sk_buffer sk))"

definition source_read :: "segmenter \<Rightarrow> ustr" where
  "source_read st = render_parts (ss_segments st) (ss_parts st) @ raws (ss_run st)
     @ concat (ss_pending_text st) @ skipped_text (ss_skip st)"

definition segmenter_inv :: "segmenter \<Rightarrow> bool" where
  "segmenter_inv st \<longleftrightarrow>
     slots_ok (ss_segments st) (ss_parts st)
     \<and> list_all (\<lambda>s. sg_kind s = TextSegment) (ss_segments st)
     \<and> (case ss_skip st of None \<Rightarrow> True | Some sk \<Rightarrow> sk_to_run sk \<or> ss_run st = [] \<and> ss_pending_text st = [])"

text \<open>An operation that reads \<open>raw\<close> outside of a skipped element.\<close>

definition reads :: "segmenter \<Rightarrow> ustr \<Rightarrow> segmenter \<Rightarrow> bool" where
  "reads st raw st' \<longleftrightarrow> segmenter_inv st' \<and> source_read st' = source_read st @ raw"

lemma render_parts_append [simp]: "render_parts segs (ps @ qs) = render_parts segs ps @ render_parts segs qs"
  by (simp add: render_parts_def)

lemma render_parts_Nil [simp]: "render_parts segs [] = []"
  by (simp add: render_parts_def)

lemma render_pieces [simp]: "render_parts segs (map (Piece \<circ> tk_raw) ts) = raws ts"
  by (induction ts) (simp_all add: render_parts_def)

lemma render_more_segments: "slots_ok segs ps \<Longrightarrow> render_parts (segs @ extra) ps = render_parts segs ps"
  unfolding render_parts_def slots_ok_def
  by (rule arg_cong [where f = concat], rule map_cong [OF refl]) (auto simp: nth_append split: part.split)

lemma slots_ok_append [simp]: "slots_ok segs (ps @ qs) \<longleftrightarrow> slots_ok segs ps \<and> slots_ok segs qs"
  by (auto simp: slots_ok_def)

lemma slots_ok_pieces [simp]: "slots_ok segs (map (Piece \<circ> tk_raw) ts)" "slots_ok segs []" "slots_ok segs [Piece r]"
  by (auto simp: slots_ok_def)

lemma slots_ok_more: "slots_ok segs ps \<Longrightarrow> slots_ok (segs @ extra) ps"
  by (auto simp: slots_ok_def)

lemma raws_nonempty [simp]: "raws (filter (\<lambda>t. tk_raw t \<noteq> []) ts) = raws ts"
  by (induction ts) simp_all

lemma strip_head_keeps:
  "strip_head ts = (lead, ts') \<Longrightarrow> render_parts segs lead @ raws ts' = raws ts \<and> slots_ok segs lead"
proof -
  have cut: "take (length s - length (lstrip s)) s @ lstrip s = s" for s :: ustr
  proof -
    have "length s = length (takeWhile py_isspace s) + length (lstrip s)"
      unfolding lstrip_def by (metis length_append takeWhile_dropWhile_id)
    then have "length s - length (lstrip s) = length (takeWhile py_isspace s)" by simp
    then show ?thesis
      unfolding lstrip_def by (metis append_eq_conv_conj takeWhile_dropWhile_id)
  qed
  assume "strip_head ts = (lead, ts')"
  then show ?thesis
    by (auto simp: strip_head_def Let_def render_parts_def cut split: list.splits if_splits)
qed

lemma strip_tail_keeps: "strip_tail ts = (ts', tail) \<Longrightarrow> raws ts' @ tail = raws ts"
proof -
  have cut: "rstrip s @ drop (length (rstrip s)) s = s" for s :: ustr
  proof -
    have "s = rstrip s @ rev (takeWhile py_isspace (rev s))"
      unfolding rstrip_def by (metis rev_append rev_rev_ident takeWhile_dropWhile_id)
    then show ?thesis by (metis append_eq_conv_conj)
  qed
  assume a: "strip_tail ts = (ts', tail)"
  show ?thesis
  proof (cases "ts \<noteq> [] \<and> tk_kind (last ts) = TextToken")
    case True
    then have "raws ts = raws (butlast ts @ [last ts])" by simp
    then have "raws ts = raws (butlast ts) @ tk_raw (last ts)" by simp
    then show ?thesis using a True cut [of "tk_raw (last ts)"] by (auto simp: strip_tail_def Let_def)
  next
    case False
    then show ?thesis using a by (auto simp: strip_tail_def)
  qed
qed

lemma emit_segment_keeps:
  assumes "slots_ok (ss_segments st) (ss_parts st)" "list_all (\<lambda>s. sg_kind s = TextSegment) (ss_segments st)"
  shows "\<exists>ps segs. emit_segment env ts st = st\<lparr>ss_parts := ss_parts st @ ps, ss_segments := ss_segments st @ segs\<rparr>
     \<and> slots_ok (ss_segments st @ segs) (ss_parts st @ ps)
     \<and> list_all (\<lambda>s. sg_kind s = TextSegment) (ss_segments st @ segs)
     \<and> render_parts (ss_segments st @ segs) ps = raws ts"
proof (cases "list_ex (visible (se_unesc env)) (filter (\<lambda>t. tk_raw t \<noteq> []) ts)")
  case False
  show ?thesis
    by (rule exI [of _ "map (Piece \<circ> tk_raw) (filter (\<lambda>t. tk_raw t \<noteq> []) ts)"], rule exI [of _ "[]"])
       (use False assms in \<open>simp add: emit_segment_def add_parts_def\<close>)
next
  case True
  obtain lead ts1 where h: "strip_head (filter (\<lambda>t. tk_raw t \<noteq> []) ts) = (lead, ts1)" by fastforce
  obtain ts2 tail where t: "strip_tail ts1 = (ts2, tail)" by fastforce
  define seg where "seg = \<lparr>sg_index = length (ss_segments st), sg_kind = TextSegment,
    sg_block = fst (ss_run_context st), sg_lang = snd (ss_run_context st),
    sg_tokens = filter (\<lambda>t. tk_raw t \<noteq> []) ts2\<rparr>"
  define ps where "ps = lead @ [Slot (length (ss_segments st))] @ (if tail \<noteq> [] then [Piece tail] else [])"
  have e: "emit_segment env ts st = st\<lparr>ss_parts := ss_parts st @ ps, ss_segments := ss_segments st @ [seg]\<rparr>"
    using True h t by (simp add: emit_segment_def Let_def seg_def ps_def)
  have lead: "render_parts (ss_segments st @ [seg]) lead @ raws ts1 = raws ts"
    "slots_ok (ss_segments st @ [seg]) lead"
    using strip_head_keeps [OF h] by simp_all
  have "segment_html seg @ tail = raws ts1"
    using strip_tail_keeps [OF t] by (simp add: segment_html_def seg_def)
  then have "render_parts (ss_segments st @ [seg]) ps = raws ts"
    using lead(1) by (auto simp: ps_def render_parts_def)
  moreover have "slots_ok (ss_segments st @ [seg]) (ss_parts st @ ps)"
    using assms(1) lead(2) by (auto simp: ps_def slots_ok_def)
  moreover have "list_all (\<lambda>s. sg_kind s = TextSegment) (ss_segments st @ [seg])"
    using assms(2) by (simp add: seg_def)
  ultimately show ?thesis using e by blast
qed

lemma concat_cut_sentences: "concat (cut_sentences cur s) = cur @ s"
  by (induction cur s rule: cut_sentences.induct) simp_all

lemma concat_nonempty: "concat (filter (\<lambda>p. p \<noteq> []) xs) = concat xs"
  by (induction xs) simp_all

lemma concat_split_keeping_whitespace [simp]: "concat (split_keeping_whitespace s) = s"
  by (simp add: split_keeping_whitespace_def concat_nonempty concat_cut_sentences)

lemma concat_snoc_last: "us \<noteq> [] \<Longrightarrow> concat (butlast us @ [last us @ x]) = concat us @ x"
  by (metis append.assoc append_butlast_last_id concat.simps(1) concat.simps(2) concat_append append_Nil2)

lemma add_unit_tokens_keeps:
  "us \<noteq> [] \<Longrightarrow> add_unit_tokens us ss \<noteq> [] \<and> concat (add_unit_tokens us ss) = concat us @ map text_token ss"
proof (induction us ss rule: add_unit_tokens.induct)
  case (2 units s ss)
  define v where "v = (let w = butlast units @ [last units @ [text_token s]] in if sentence_tail s then w @ [[]] else w)"
  have "v \<noteq> []" "concat v = concat units @ [text_token s]"
    using concat_snoc_last [OF 2(2), of "[text_token s]"] by (simp_all add: v_def Let_def)
  then show ?case using 2(1) by (simp add: v_def)
qed simp

lemma raws_text_tokens [simp]: "concat (map (tk_raw \<circ> text_token) ss) = concat ss"
  by (induction ss) simp_all

lemma sentence_units_keeps:
  "us \<noteq> [] \<Longrightarrow> raws (concat (sentence_units pairs i d us ts)) = raws (concat us) @ raws ts"
proof (induction pairs i d us ts rule: sentence_units.induct)
  case (2 pairs i depth units t ts)
  show ?case
  proof (cases "tk_kind t \<noteq> TextToken \<or> depth + depth_change pairs i \<noteq> 0")
    case True
    then have "raws (concat (sentence_units pairs i depth units (t # ts)))
        = raws (concat (butlast units @ [last units @ [t]])) @ raws ts"
      using 2(1) [OF refl True] by (simp add: Let_def)
    also have "\<dots> = raws (concat units) @ raws (t # ts)"
      by (subst concat_snoc_last [OF 2(3)]) simp
    finally show ?thesis .
  next
    case False
    then show ?thesis
      using 2(2) [OF refl False] add_unit_tokens_keeps [OF 2(3), of "split_keeping_whitespace (tk_raw t)"]
      by (simp add: Let_def)
  qed
qed simp

lemma pack_units_keeps: "concat (pack_units unesc m cs us) = concat cs @ concat us"
proof (induction unesc m cs us rule: pack_units.induct)
  case (2 unesc m chunks v us)
  then show ?case using concat_snoc_last [of chunks v] by simp
qed simp

lemma chunks_of_keeps: "raws (concat (chunks_of env ts)) = raws ts"
  by (simp add: chunks_of_def pack_units_keeps sentence_units_keeps split: option.split)

lemma trim_run_keeps: "trim_run run = (a, b, c) \<Longrightarrow> a @ b @ c = run"
proof -
  assume t: "trim_run run = (a, b, c)"
  define P where "P = loose (matched_tag_pairs run)"
  define r where "r = dropWhile P (enumerate 0 run)"
  have "a = map snd (takeWhile P (enumerate 0 run))" "b = map snd (rev (dropWhile P (rev r)))"
    "c = map snd (rev (takeWhile P (rev r)))"
    using t by (simp_all add: trim_run_def Let_def P_def r_def)
  moreover have "rev (dropWhile P (rev r)) @ rev (takeWhile P (rev r)) = r"
    by (metis rev_append rev_rev_ident takeWhile_dropWhile_id)
  moreover have "takeWhile P (enumerate 0 run) @ r = enumerate 0 run"
    by (simp add: r_def)
  ultimately show ?thesis by (metis map_append map_snd_enumerate)
qed

lemma fold_emit_keeps:
  assumes "slots_ok (ss_segments st) (ss_parts st)" "list_all (\<lambda>s. sg_kind s = TextSegment) (ss_segments st)"
  shows "\<exists>ps segs. fold (emit_segment env) cs st = st\<lparr>ss_parts := ss_parts st @ ps, ss_segments := ss_segments st @ segs\<rparr>
     \<and> slots_ok (ss_segments st @ segs) (ss_parts st @ ps)
     \<and> list_all (\<lambda>s. sg_kind s = TextSegment) (ss_segments st @ segs)
     \<and> render_parts (ss_segments st @ segs) ps = raws (concat cs)"
  using assms
proof (induction cs arbitrary: st)
  case Nil
  show ?case by (rule exI [of _ "[]"], rule exI [of _ "[]"]) (use Nil in simp)
next
  case (Cons c cs)
  obtain ps segs where one: "emit_segment env c st = st\<lparr>ss_parts := ss_parts st @ ps, ss_segments := ss_segments st @ segs\<rparr>"
    "slots_ok (ss_segments st @ segs) (ss_parts st @ ps)"
    "list_all (\<lambda>s. sg_kind s = TextSegment) (ss_segments st @ segs)"
    "render_parts (ss_segments st @ segs) ps = raws c"
    using emit_segment_keeps [OF Cons.prems] by blast
  define st1 where "st1 = emit_segment env c st"
  have st1: "ss_segments st1 = ss_segments st @ segs" "ss_parts st1 = ss_parts st @ ps"
    using one(1) by (simp_all add: st1_def)
  obtain ps' segs' where rest: "fold (emit_segment env) cs st1 = st1\<lparr>ss_parts := ss_parts st1 @ ps', ss_segments := ss_segments st1 @ segs'\<rparr>"
    "slots_ok (ss_segments st1 @ segs') (ss_parts st1 @ ps')"
    "list_all (\<lambda>s. sg_kind s = TextSegment) (ss_segments st1 @ segs')"
    "render_parts (ss_segments st1 @ segs') ps' = raws (concat cs)"
    using Cons.IH [of st1] one(2,3) st1 by auto
  have "slots_ok (ss_segments st @ segs) ps" using one(2) by simp
  then have "render_parts (ss_segments st @ segs @ segs') ps = raws c"
    using render_more_segments [of "ss_segments st @ segs" ps segs'] one(4) by simp
  then have "render_parts (ss_segments st @ segs @ segs') (ps @ ps') = raws (concat (c # cs))"
    using rest(4) st1 by simp
  moreover have "fold (emit_segment env) (c # cs) st
      = st\<lparr>ss_parts := ss_parts st @ ps @ ps', ss_segments := ss_segments st @ segs @ segs'\<rparr>"
    using rest(1) one(1) st1_def by simp
  moreover have "slots_ok (ss_segments st @ segs @ segs') (ss_parts st @ ps @ ps')"
    "list_all (\<lambda>s. sg_kind s = TextSegment) (ss_segments st @ segs @ segs')"
    using rest(2,3) st1 by simp_all
  ultimately show ?case by blast
qed

section \<open>Every event is read\<close>

lemma skipped_text_simps [simp]: "skipped_text None = []" "skipped_text (Some sk) = concat (sk_buffer sk)"
  by (simp_all add: skipped_text_def)

text \<open>A state outside of a skipped element, and one outside of a run too.\<close>

definition outside :: "segmenter \<Rightarrow> bool" where
  "outside st \<longleftrightarrow> segmenter_inv st \<and> ss_skip st = None"

definition between :: "segmenter \<Rightarrow> bool" where
  "between st \<longleftrightarrow> outside st \<and> ss_run st = [] \<and> ss_pending_text st = []"

lemma run_append_reads:
  "outside st \<Longrightarrow> ss_pending_text st = [] \<Longrightarrow>
   outside (run_append t st) \<and> source_read (run_append t st) = source_read st @ tk_raw t
   \<and> ss_pending_text (run_append t st) = []"
  by (simp add: run_append_def Let_def outside_def segmenter_inv_def source_read_def)

lemma materialize_text_reads:
  "outside st \<Longrightarrow> outside (materialize_text st) \<and> source_read (materialize_text st) = source_read st
   \<and> ss_pending_text (materialize_text st) = []"
  by (simp add: materialize_text_def run_append_def Let_def outside_def segmenter_inv_def source_read_def)

lemma append_token_reads:
  "outside st \<Longrightarrow> tk_kind t \<noteq> TextToken \<Longrightarrow>
   outside (append_token t st) \<and> source_read (append_token t st) = source_read st @ tk_raw t"
  using materialize_text_reads [of st] run_append_reads [of "materialize_text st" t]
  by (simp add: append_token_def)

lemma add_piece_reads:
  "between st \<Longrightarrow> between (add_parts [Piece raw] st) \<and> source_read (add_parts [Piece raw] st) = source_read st @ raw"
  by (simp add: add_parts_def between_def outside_def segmenter_inv_def source_read_def render_parts_def)

lemma add_piece_fields [simp]:
  "ss_stack (add_parts ps st) = ss_stack st" "ss_open (add_parts ps st) = ss_open st"
  by (simp_all add: add_parts_def)

lemma flush_reads:
  assumes "outside st"
  shows "between (flush env st) \<and> source_read (flush env st) = source_read st"
proof -
  define st1 where "st1 = materialize_text st"
  define st2 where "st2 = st1\<lparr>ss_run := []\<rparr>"
  have o: "outside st1" and src: "source_read st1 = source_read st" and p: "ss_pending_text st1 = []"
    using materialize_text_reads [OF assms] by (simp_all add: st1_def)
  have b2: "between st2" and s2: "source_read st1 = source_read st2 @ raws (ss_run st1)"
    using o p by (simp_all add: st2_def between_def outside_def segmenter_inv_def source_read_def)
  show ?thesis
  proof (cases "ss_run st1 = []")
    case True
    then have "flush env st = st2" by (simp add: flush_def Let_def st1_def st2_def)
    then show ?thesis using b2 s2 src True by simp
  next
    case False
    obtain a m c where t: "trim_run (ss_run st1) = (a, m, c)" by (cases "trim_run (ss_run st1)") auto
    define st3 where "st3 = add_parts (map (Piece \<circ> tk_raw) a) st2"
    have f: "flush env st = add_parts (map (Piece \<circ> tk_raw) c) (fold (emit_segment env) (chunks_of env m) st3)"
      using False t by (simp add: flush_def Let_def st1_def st2_def st3_def)
    have b3: "between st3" and s3: "source_read st3 = source_read st2 @ raws a"
      using b2 by (simp_all add: st3_def add_parts_def between_def outside_def segmenter_inv_def source_read_def)
    then have "slots_ok (ss_segments st3) (ss_parts st3)" "list_all (\<lambda>s. sg_kind s = TextSegment) (ss_segments st3)"
      by (simp_all add: between_def outside_def segmenter_inv_def)
    then obtain ps segs where
      e: "fold (emit_segment env) (chunks_of env m) st3
            = st3\<lparr>ss_parts := ss_parts st3 @ ps, ss_segments := ss_segments st3 @ segs\<rparr>"
      and k: "slots_ok (ss_segments st3 @ segs) (ss_parts st3 @ ps)"
        "list_all (\<lambda>s. sg_kind s = TextSegment) (ss_segments st3 @ segs)"
        "render_parts (ss_segments st3 @ segs) ps = raws (concat (chunks_of env m))"
      using fold_emit_keeps by blast
    have old: "render_parts (ss_segments st3 @ segs) (ss_parts st3) = render_parts (ss_segments st3) (ss_parts st3)"
      using b3 by (intro render_more_segments) (simp add: between_def outside_def segmenter_inv_def)
    have "between (flush env st)"
      using b3 k(1,2) by (simp add: f e add_parts_def between_def outside_def segmenter_inv_def)
    moreover have "source_read (flush env st) = source_read st3 @ raws m @ raws c"
      using b3 k(3) old chunks_of_keeps [of env m]
      by (simp add: f e add_parts_def between_def outside_def source_read_def)
    moreover have "raws a @ raws m @ raws c = raws (ss_run st1)"
      using arg_cong [OF trim_run_keeps [OF t], of raws] by simp
    ultimately show ?thesis using s3 s2 src by simp
  qed
qed

text \<open>Changes of the stack and of the counters leave what was read as it is.\<close>

lemma stack_update_reads:
  "between (st\<lparr>ss_stack := s, ss_open := f\<rparr>) = between st"
  "source_read (st\<lparr>ss_stack := s, ss_open := f\<rparr>) = source_read st"
  "between (st\<lparr>ss_open := f, ss_stack := s\<rparr>) = between st"
  "source_read (st\<lparr>ss_open := f, ss_stack := s\<rparr>) = source_read st"
  by (simp_all add: between_def outside_def segmenter_inv_def source_read_def split: option.split)

lemma pop_to_reads [simp]: "between (pop_to n st) = between st" "source_read (pop_to n st) = source_read st"
  by (simp_all add: pop_to_def stack_update_reads)

lemma block_start_reads:
  assumes "outside st"
  shows "between (block_start env tag raw lang void st)
     \<and> source_read (block_start env tag raw lang void st) = source_read st @ raw"
proof -
  define st1 where "st1 = flush env st"
  define st2 where "st2 = (if ss_stack st1 \<noteq> [] \<and> fst (last (ss_stack st1)) = ulit ''p''
                 then pop_to (length (ss_stack st1) - 1) st1 else st1)"
  obtain closes boundary where ie: "IMPLIED_END tag = (closes, boundary)" by fastforce
  define st3 where "st3 = (if \<exists>name\<in>closes. ss_open st2 name \<noteq> 0
                 then (case implied_position closes boundary (length (ss_stack st2) - IMPLIED_END_SCAN)
                              (length (ss_stack st2)) (ss_stack st2) of
                         None \<Rightarrow> st2 | Some p \<Rightarrow> pop_to p st2)
                 else st2)"
  have 1: "between st1" "source_read st1 = source_read st"
    using flush_reads [OF assms] by (simp_all add: st1_def)
  have 2: "between st2" "source_read st2 = source_read st" using 1 by (simp_all add: st2_def)
  have 3: "between st3" "source_read st3 = source_read st" using 2 by (simp_all add: st3_def split: option.split)
  have 4: "between (add_parts [Piece raw] st3)" "source_read (add_parts [Piece raw] st3) = source_read st @ raw"
    using add_piece_reads [OF 3(1)] 3(2) by simp_all
  have "block_start env tag raw lang void st =
      (let st4 = add_parts [Piece raw] st3 in if void then st4
         else st4\<lparr>ss_stack := ss_stack st4 @
                    [(tag, case lang of Some l \<Rightarrow> if l \<noteq> [] then Some l else snd (context_of st4)
                           | None \<Rightarrow> snd (context_of st4))],
                  ss_open := (ss_open st4)(tag := ss_open st4 tag + 1)\<rparr>)"
    unfolding block_start_def Let_def st1_def st2_def st3_def ie by simp
  then show ?thesis using 4 by (simp add: Let_def stack_update_reads)
qed

lemma collect_slots_none:
  "se_attributes env = [] \<Longrightarrow> collect_slots env raw tag lang seen vs st = ([], st)"
  by (induction vs arbitrary: seen) (auto simp: Let_def)

lemma attribute_slots_none: "se_attributes env = [] \<Longrightarrow> attribute_slots env raw tag lang st = (raw, st)"
  by (simp add: attribute_slots_def collect_slots_none)

lemma outside_reads: "outside st' \<Longrightarrow> source_read st' = source_read st @ raw \<Longrightarrow> reads st raw st'"
  by (simp add: reads_def outside_def)

lemma between_outside: "between st \<Longrightarrow> outside st"
  by (simp add: between_def)

lemma end_skip_reads:
  assumes "segmenter_inv st"
  shows "outside (end_skip st) \<and> source_read (end_skip st) = source_read st"
proof (cases "ss_skip st")
  case None
  then show ?thesis using assms by (simp add: end_skip_def outside_def)
next
  case (Some sk)
  define st1 where "st1 = st\<lparr>ss_skip := None\<rparr>"
  have o: "outside st1" and s: "source_read st = source_read st1 @ concat (sk_buffer sk)"
    using assms Some by (simp_all add: st1_def outside_def segmenter_inv_def source_read_def)
  show ?thesis
  proof (cases "sk_to_run sk")
    case True
    then show ?thesis using append_token_reads [OF o, of "protected_token (concat (sk_buffer sk))"] s Some
      by (simp add: end_skip_def st1_def)
  next
    case False
    then have "between st1" using assms Some o by (simp add: st1_def between_def segmenter_inv_def)
    then show ?thesis using add_piece_reads [of st1 "concat (sk_buffer sk)"] s Some False
      by (simp add: end_skip_def st1_def between_outside)
  qed
qed

text \<open>Inside of a skipped element everything goes to its buffer.\<close>

lemma buffered_reads:
  assumes "segmenter_inv st" "ss_skip st = Some sk" "sk_buffer sk' = sk_buffer sk @ [raw]" "sk_to_run sk' = sk_to_run sk"
  shows "reads st raw (st\<lparr>ss_skip := Some sk'\<rparr>)"
  using assms by (simp add: reads_def segmenter_inv_def source_read_def)

lemma add_text_reads: "segmenter_inv st \<Longrightarrow> reads st raw (add_text raw st)"
proof (cases "ss_skip st")
  case None
  assume i: "segmenter_inv st"
  show ?thesis
  proof (cases "ss_run st = []")
    case True
    then show ?thesis using i None
      by (simp add: add_text_def reads_def segmenter_inv_def source_read_def)
  next
    case False
    then have "raws (ss_run st) = raws (butlast (ss_run st) @ [last (ss_run st)])" by simp
    then show ?thesis using i None
      by (simp add: add_text_def reads_def segmenter_inv_def source_read_def)
  qed
next
  case (Some sk)
  assume "segmenter_inv st"
  then show ?thesis using Some by (simp add: add_text_def buffered_reads)
qed

lemma add_opaque_reads: "segmenter_inv st \<Longrightarrow> reads st raw (add_opaque raw st)"
proof (cases "ss_skip st")
  case None
  assume "segmenter_inv st"
  then have o: "outside st" using None by (simp add: outside_def)
  show ?thesis
  proof (cases "ss_run st \<noteq> [] \<or> ss_pending_text st \<noteq> []")
    case True
    then show ?thesis using append_token_reads [OF o, of "protected_token raw"] None
      by (simp add: add_opaque_def outside_reads)
  next
    case False
    then have "between st" using o by (simp add: between_def)
    then show ?thesis using add_piece_reads [of st raw] None False
      by (simp add: add_opaque_def outside_reads between_outside)
  qed
next
  case (Some sk)
  assume "segmenter_inv st"
  then show ?thesis using Some by (simp add: add_opaque_def buffered_reads)
qed

text \<open>The element that opens a skipped region.\<close>

lemma open_skip_reads:
  assumes "outside st" "sk_buffer sk = [raw]" "sk_to_run sk \<or> between st"
  shows "reads st raw ((materialize_text st)\<lparr>ss_skip := Some sk\<rparr>)"
proof -
  have "outside (materialize_text st)" "source_read (materialize_text st) = source_read st"
    "ss_pending_text (materialize_text st) = []"
    using materialize_text_reads [OF assms(1)] by simp_all
  moreover have "between st \<Longrightarrow> ss_run (materialize_text st) = []"
    by (simp add: materialize_text_def between_def)
  ultimately show ?thesis using assms(2,3)
    by (auto simp: reads_def outside_def segmenter_inv_def source_read_def)
qed

lemma start_element_reads:
  assumes "outside st0" "se_attributes env = []"
  shows "reads st0 raw (start_element env tag attrs raw void st0)"
proof -
  define attr_map where "attr_map = map_of (rev (map (\<lambda>(k, v). (se_lower env k, v)) attrs))"
  define lang where "lang = (case attr_map (ulit ''lang'') of None \<Rightarrow> None | Some v \<Rightarrow> v)"
  define st where "st = (if ss_stack st0 = []
      then st0\<lparr>ss_top_level := ss_top_level st0 + 1,
               ss_root_lang := (if ss_top_level st0 + 1 = 1 then lang else None)\<rparr> else st0)"
  define protect where "protect \<longleftrightarrow> (tag \<in> SKIPPED_TAGS \<or> tag \<in> PROTECTED_INLINE_TAGS \<or>
      se_lower env (truthy (case attr_map (ulit ''translate'') of None \<Rightarrow> None | Some v \<Rightarrow> v)) = ulit ''no'')"
  define inline where "inline \<longleftrightarrow> (tag \<in> INLINE_TAGS \<or> tag \<in> PROTECTED_INLINE_TAGS)"
  define st1 where "st1 = (if inline then st else flush env st)"
  define sk where "sk = \<lparr>sk_name = tag, sk_to_run = inline, sk_buffer = [raw], sk_depth = 1,
    sk_inner = (\<lambda>_. 0), sk_closers = open_ancestors (materialize_text st1)\<rparr>"
  have e: "start_element env tag attrs raw void st0 =
      (if protect then if void then (if inline then add_opaque raw st else block_start env tag raw lang True st)
                       else (materialize_text st1)\<lparr>ss_skip := Some sk\<rparr>
       else if tag \<in> INLINE_TAGS then append_token (tag_token raw tag False) st
       else block_start env tag raw lang void st)"
    unfolding start_element_def Let_def attribute_slots_none [OF assms(2)]
      st_def lang_def attr_map_def protect_def inline_def st1_def sk_def
    by simp
  have o: "outside st" and s: "source_read st = source_read st0"
    using assms(1) by (simp_all add: st_def outside_def segmenter_inv_def source_read_def)
  then have inv: "segmenter_inv st" by (simp add: outside_def)
  have o1: "outside st1" "inline \<or> between st1" "source_read st1 = source_read st"
    using o flush_reads [OF o, of env] by (auto simp: st1_def between_outside)
  have "reads st raw (start_element env tag attrs raw void st0)"
  proof (cases protect)
    case False
    then show ?thesis
      using append_token_reads [OF o, of "tag_token raw tag False"] block_start_reads [OF o, of env tag raw lang void]
      by (simp add: e outside_reads between_outside)
  next
    case True
    show ?thesis
    proof (cases void)
      case v: True
      then show ?thesis using True add_opaque_reads [of st raw] block_start_reads [OF o, of env tag raw lang True] inv
        unfolding e by (simp add: outside_reads between_outside)
    next
      case False
      have "reads st1 raw ((materialize_text st1)\<lparr>ss_skip := Some sk\<rparr>)"
        using o1(2) by (intro open_skip_reads [OF o1(1)]) (auto simp: sk_def)
      then show ?thesis using True False o1(3) unfolding e by (simp add: reads_def)
    qed
  qed
  then show ?thesis by (simp add: reads_def s)
qed

lemma start_event_reads:
  assumes "segmenter_inv st" "se_attributes env = []"
  shows "reads st raw (start_event env tag attrs raw void st)"
proof (cases "ss_skip st")
  case None
  then show ?thesis using start_element_reads [OF _ assms(2)] assms(1) by (simp add: start_event_def outside_def)
next
  case (Some sk)
  show ?thesis
  proof (cases "sk_to_run sk \<and> tag \<notin> INLINE_TAGS \<union> PROTECTED_INLINE_TAGS")
    case True
    have "outside (end_skip st)" and s: "source_read (end_skip st) = source_read st"
      using end_skip_reads [OF assms(1)] by simp_all
    then have "reads (end_skip st) raw (start_element env tag attrs raw void (end_skip st))"
      by (intro start_element_reads assms(2))
    moreover have "start_event env tag attrs raw void st = start_element env tag attrs raw void (end_skip st)"
      using True Some by (simp add: start_event_def)
    ultimately show ?thesis by (simp add: s reads_def)
  next
    case False
    show ?thesis
      unfolding start_event_def Some option.case if_not_P [OF False] Let_def
      by (rule buffered_reads [OF assms(1) Some]) simp_all
  qed
qed

lemma end_element_reads:
  assumes "outside st"
  shows "reads st (end_raw tag) (end_element env tag st)"
proof (cases "tag \<in> INLINE_TAGS")
  case True
  then show ?thesis using append_token_reads [OF assms, of "tag_token (end_raw tag) tag True"]
    by (simp add: end_element_def outside_reads)
next
  case False
  have "between (add_parts [Piece (end_raw tag)] (flush env st))"
    "source_read (add_parts [Piece (end_raw tag)] (flush env st)) = source_read st @ end_raw tag"
    using flush_reads [OF assms, of env] add_piece_reads [of "flush env st" "end_raw tag"] by simp_all
  then show ?thesis using False
    by (simp add: end_element_def Let_def outside_reads between_outside split: option.split)
qed

lemma end_event_reads:
  assumes "segmenter_inv st"
  shows "reads st (end_raw tag) (end_event env tag st)"
proof (cases "ss_skip st")
  case None
  then show ?thesis using end_element_reads assms by (simp add: end_event_def outside_def)
next
  case (Some sk)
  have b: "reads st (end_raw tag) (st\<lparr>ss_skip := Some sk'\<rparr>)"
    if "sk_buffer sk' = sk_buffer sk @ [end_raw tag]" "sk_to_run sk' = sk_to_run sk" for sk'
    by (rule buffered_reads [OF assms Some that])
  have closed: "reads st (end_raw tag) (end_skip st')" if "reads st (end_raw tag) st'" for st'
    using that end_skip_reads [of st'] by (simp add: reads_def outside_def)
  have left: "reads st (end_raw tag) (end_element env tag (end_skip st))"
    using end_element_reads [of "end_skip st" tag env] end_skip_reads [OF assms] by (simp add: reads_def)
  have cs: "reads st (end_raw tag) (if c then x else y)"
    if "reads st (end_raw tag) x" "reads st (end_raw tag) y" for c x y
    using that by simp
  show ?thesis
    unfolding end_event_def Some option.case Let_def
    by (intro cs b closed left) simp_all
qed

lemma handle_event_reads:
  "segmenter_inv st \<Longrightarrow> se_attributes env = [] \<Longrightarrow> reads st (event_raw ev) (handle_event env ev st)"
  by (cases ev) (simp_all add: start_event_reads end_event_reads add_text_reads add_opaque_reads del: event_raw.simps(1,2) add: event_raw.simps(3-))

lemma handle_events_read:
  "segmenter_inv st \<Longrightarrow> se_attributes env = [] \<Longrightarrow>
   reads st (concat (map event_raw evs)) (fold (handle_event env) evs st)"
proof (induction evs arbitrary: st)
  case Nil
  then show ?case by (simp add: reads_def)
next
  case (Cons ev evs)
  have one: "reads st (event_raw ev) (handle_event env ev st)"
    by (rule handle_event_reads [OF Cons.prems])
  then have "reads (handle_event env ev st) (concat (map event_raw evs)) (fold (handle_event env) evs (handle_event env ev st))"
    using Cons.IH Cons.prems(2) by (simp add: reads_def)
  then show ?case using one by (simp add: reads_def)
qed

lemma close_parser_reads:
  assumes "segmenter_inv st"
  shows "between (close_parser env st) \<and> source_read (close_parser env st) = source_read st"
proof (cases "ss_skip st")
  case None
  then show ?thesis using flush_reads [of st env] assms by (simp add: close_parser_def outside_def)
next
  case (Some sk)
  have "segmenter_inv (st\<lparr>ss_unterminated := True\<rparr>)" "source_read (st\<lparr>ss_unterminated := True\<rparr>) = source_read st"
    using assms Some by (simp_all add: segmenter_inv_def source_read_def)
  then have "outside (end_skip (st\<lparr>ss_unterminated := True\<rparr>))"
    "source_read (end_skip (st\<lparr>ss_unterminated := True\<rparr>)) = source_read st"
    using end_skip_reads [of "st\<lparr>ss_unterminated := True\<rparr>"] by simp_all
  then show ?thesis using flush_reads [of "end_skip (st\<lparr>ss_unterminated := True\<rparr>)" env] Some
    by (simp add: close_parser_def)
qed

text \<open>
  C23. Cutting a document into segments loses, repeats and reorders nothing: for every sequence of
  parser events, however badly nested or cut off, and for every limit on the length of a segment,
  putting each segment's own HTML back into its slot gives exactly the text of the events (with no
  attributes chosen for translation).
\<close>

theorem segment_reassemble_round_trip:
  assumes "se_attributes env = []"
  shows "reassemble digit (segment_events env events) (map segment_html (sd_segments (segment_events env events)))
         = Inr (concat (map event_raw events))"
proof -
  define st where "st = close_parser env (fold (handle_event env) events new_segmenter)"
  have "segmenter_inv new_segmenter" "source_read new_segmenter = []"
    by (simp_all add: segmenter_inv_def source_read_def new_segmenter_def)
  then have "reads new_segmenter (concat (map event_raw events)) (fold (handle_event env) events new_segmenter)"
    "source_read new_segmenter = []"
    using handle_events_read [OF _ assms] by blast+
  then have b: "between st" and s: "source_read st = concat (map event_raw events)"
    using close_parser_reads by (simp_all add: st_def reads_def)
  then have ok: "slots_ok (ss_segments st) (ss_parts st)" and k: "list_all (\<lambda>s. sg_kind s = TextSegment) (ss_segments st)"
    and r: "render_parts (ss_segments st) (ss_parts st) = concat (map event_raw events)"
    by (simp_all add: between_def outside_def segmenter_inv_def source_read_def)
  have d: "segment_events env events = document st" by (simp add: segment_events_def st_def)
  have "\<not> list_ex (\<lambda>s. sg_kind s = AttributeSegment) (ss_segments st)"
    using k by (induction "ss_segments st") (auto simp: list_all_iff list_ex_iff)
  moreover have m: "map (\<lambda>p. case p of Piece s \<Rightarrow> s | Slot i \<Rightarrow> map segment_html (ss_segments st) ! i) (ss_parts st)
      = map (\<lambda>p. case p of Piece s \<Rightarrow> s | Slot i \<Rightarrow> segment_html (ss_segments st ! i)) (ss_parts st)"
    using ok by (auto simp: slots_ok_def split: part.split)
  have "concat (map (\<lambda>p. case p of Piece s \<Rightarrow> s | Slot i \<Rightarrow> map segment_html (ss_segments st) ! i) (ss_parts st))
      = concat (map event_raw events)"
    using r unfolding m render_parts_def .
  ultimately show ?thesis
    by (simp add: d document_def reassemble_def)
qed

theorem segment_reassemble_round_trip_witness:
  "reassemble (\<lambda>_. None)
     (segment_events \<lparr>se_unesc = id, se_lower = id, se_attributes = [], se_max_chars = Some 4\<rparr>
        [StartTag (ulit ''p'') [] (ulit ''<p>''), Data (ulit ''One. Two. ''), StartTag (ulit ''em'') [] (ulit ''<em>''),
         Data (ulit ''x''), StartTag (ulit ''code'') [] (ulit ''<code>''), Data (ulit ''ls''), EndTag (ulit ''p'')])
     (map segment_html (sd_segments
        (segment_events \<lparr>se_unesc = id, se_lower = id, se_attributes = [], se_max_chars = Some 4\<rparr>
          [StartTag (ulit ''p'') [] (ulit ''<p>''), Data (ulit ''One. Two. ''), StartTag (ulit ''em'') [] (ulit ''<em>''),
           Data (ulit ''x''), StartTag (ulit ''code'') [] (ulit ''<code>''), Data (ulit ''ls''), EndTag (ulit ''p'')])))
   = Inr (ulit ''<p>One. Two. <em>x<code>ls</p>'')"
proof -
  have "concat (map event_raw [StartTag (ulit ''p'') [] (ulit ''<p>''), Data (ulit ''One. Two. ''),
         StartTag (ulit ''em'') [] (ulit ''<em>''), Data (ulit ''x''), StartTag (ulit ''code'') [] (ulit ''<code>''),
         Data (ulit ''ls''), EndTag (ulit ''p'')])
      = ulit ''<p>One. Two. <em>x<code>ls</p>''"
    by code_simp
  then show ?thesis
    by (subst segment_reassemble_round_trip) (simp_all only: segmenter_env.simps)
qed

end
