(* ===== verification/Resolution.thy ===== *)
theory Resolution
  imports Schema "HOL-Library.AList"
begin

text \<open>
  \<open>contracts/resolution.py\<close>: entity resolution as a replay of decisions. The highest version of
  every decision counts, a decision that is superseded by an effective one does not, and the effective
  ones are replayed in order into groups of entities. A Python dictionary is an association list, and
  the order in which Python walks through a set is an argument (\<open>ord\<close>) of everything that does.
\<close>

section \<open>Decisions\<close>

datatype resolution_action = MERGE | UNMERGE | REJECT | MANUAL_LINK | MANUAL_BLOCK

definition GROUP_ACTIONS :: "resolution_action set" where
  "GROUP_ACTIONS = {MERGE, MANUAL_LINK}"

record resolution_decision =
  rd_decision_id :: uuid
  rd_decision_version :: int
  rd_action :: resolution_action
  rd_member_entity_ids :: "uuid list"
  rd_canonical_group_id :: "uuid option"
  rd_evidence_refs :: "ustr list"
  rd_feature_values :: "(string \<times> json) list"
  rd_score :: "rat option"
  rd_calibration_version :: "ustr option"
  rd_rule_or_model_version :: ustr
  rd_actor :: ustr
  rd_reason :: ustr
  rd_effective_at :: ts
  rd_recorded_at :: ts
  rd_supersedes_decision_id :: "uuid option"

text \<open>The bounds of the fields, and the validator that looks at the action.\<close>

definition decision_fields_ok :: "resolution_decision \<Rightarrow> bool" where
  "decision_fields_ok d \<longleftrightarrow>
     1 \<le> rd_decision_version d \<and> rd_member_entity_ids d \<noteq> []
     \<and> (case rd_score d of None \<Rightarrow> True | Some s \<Rightarrow> 0 \<le> s \<and> s \<le> 1)"

definition shape_by_action :: "resolution_decision \<Rightarrow> resolution_decision res" where
  "shape_by_action d =
     (if length (remdups (rd_member_entity_ids d)) \<noteq> length (rd_member_entity_ids d) then Inl ValueError
      else if rd_action d \<in> GROUP_ACTIONS \<and> rd_canonical_group_id d = None then Inl ValueError
      else if rd_action d \<in> GROUP_ACTIONS \<and> length (rd_member_entity_ids d) < 2 then Inl ValueError
      else if rd_action d = MERGE \<and> rd_score d = None then Inl ValueError
      else if rd_action d = MANUAL_BLOCK \<and> length (rd_member_entity_ids d) < 2 then Inl ValueError
      else if rd_supersedes_decision_id d = Some (rd_decision_id d) then Inl ValueError
      else Inr d)"

definition required_group_id :: "resolution_decision \<Rightarrow> uuid res" where
  "required_group_id d = (case rd_canonical_group_id d of None \<Rightarrow> Inl ValueError | Some g \<Rightarrow> Inr g)"

section \<open>The effective decisions\<close>

text \<open>The dictionary of the highest version of every decision, in the order of first appearance.\<close>

definition keep_latest :: "resolution_decision \<Rightarrow> (uuid \<times> resolution_decision) list \<Rightarrow> (uuid \<times> resolution_decision) list" where
  "keep_latest d latest =
     (case map_of latest (rd_decision_id d) of
        None \<Rightarrow> AList.update (rd_decision_id d) d latest
      | Some current \<Rightarrow>
          if rd_decision_version current < rd_decision_version d
          then AList.update (rd_decision_id d) d latest else latest)"

definition latest_decisions :: "resolution_decision list \<Rightarrow> resolution_decision list" where
  "latest_decisions ds = map snd (fold keep_latest ds [])"

definition effective_without :: "uuid set \<Rightarrow> resolution_decision list \<Rightarrow> resolution_decision list" where
  "effective_without superseded cs = filter (\<lambda>d. rd_decision_id d \<notin> superseded) cs"

definition superseded_by :: "resolution_decision list \<Rightarrow> uuid set" where
  "superseded_by ds = set (List.map_filter rd_supersedes_decision_id ds)"

fun supersede_rounds ::
  "nat \<Rightarrow> resolution_decision list \<Rightarrow> uuid set \<Rightarrow> (resolution_decision list \<times> uuid set) res" where
  "supersede_rounds 0 cs superseded = Inl ValueError"
| "supersede_rounds (Suc n) cs superseded =
     (let effective = effective_without superseded cs; next_superseded = superseded_by effective
      in if next_superseded = superseded then Inr (effective, superseded)
         else supersede_rounds n cs next_superseded)"

definition effective_decisions :: "resolution_decision list \<Rightarrow> (resolution_decision list \<times> uuid set) res" where
  "effective_decisions ds =
     (let candidates = latest_decisions ds in supersede_rounds (length candidates + 1) candidates {})"

section \<open>The replay\<close>

record replay =
  rp_membership :: "(uuid \<times> uuid) list"
  rp_groups :: "(uuid \<times> uuid set) list"
  rp_blocked :: "(uuid \<times> uuid) set"
  rp_applied :: "uuid list"
  rp_skipped :: "uuid list"

definition replay_start :: replay where
  "replay_start = \<lparr>rp_membership = [], rp_groups = [], rp_blocked = {}, rp_applied = [], rp_skipped = []\<rparr>"

text \<open>\<open>for a in ordered: for b in the rest: (a, b)\<close> over the members in the order of their number.\<close>

fun ordered_pairs :: "uuid list \<Rightarrow> (uuid \<times> uuid) set" where
  "ordered_pairs [] = {}"
| "ordered_pairs (a # bs) = Pair a ` set bs \<union> ordered_pairs bs"

definition pairs_of :: "uuid list \<Rightarrow> (uuid \<times> uuid) set" where
  "pairs_of ids = ordered_pairs (sorted_list_of_set (set ids))"

definition leave :: "uuid \<Rightarrow> replay \<Rightarrow> replay res" where
  "leave e st =
     (case map_of (rp_membership st) e of
        None \<Rightarrow> Inr st
      | Some old \<Rightarrow>
          (case map_of (rp_groups st) old of
             None \<Rightarrow> Inl KeyError
           | Some s \<Rightarrow>
               Inr (st\<lparr>rp_membership := AList.delete e (rp_membership st),
                       rp_groups := (if s - {e} = {} then AList.delete old (rp_groups st)
                                     else AList.update old (s - {e}) (rp_groups st))\<rparr>)))"

fun leave_all :: "uuid list \<Rightarrow> replay \<Rightarrow> replay res" where
  "leave_all [] st = Inr st"
| "leave_all (e # es) st = bind_res (leave e st) (leave_all es)"

fun move_all :: "uuid \<Rightarrow> uuid list \<Rightarrow> replay \<Rightarrow> replay res" where
  "move_all gid [] st = Inr st"
| "move_all gid (e # es) st =
     bind_res (leave e st) (\<lambda>st1.
       move_all gid es (st1\<lparr>rp_membership := AList.update e gid (rp_membership st1)\<rparr>))"

fun add_groups_of :: "uuid list \<Rightarrow> replay \<Rightarrow> uuid set \<Rightarrow> uuid set res" where
  "add_groups_of [] st affected = Inr affected"
| "add_groups_of (m # ms) st affected =
     (case map_of (rp_membership st) m of
        None \<Rightarrow> add_groups_of ms st affected
      | Some current \<Rightarrow>
          (case map_of (rp_groups st) current of
             None \<Rightarrow> Inl KeyError
           | Some s \<Rightarrow> add_groups_of ms st (affected \<union> s)))"

definition group_step :: "(uuid set \<Rightarrow> uuid list) \<Rightarrow> resolution_decision \<Rightarrow> replay \<Rightarrow> replay res" where
  "group_step ord d st =
     (let members = set (rd_member_entity_ids d) in
      bind_res (required_group_id d) (\<lambda>gid.
      bind_res (add_groups_of (ord members) st members) (\<lambda>affected.
        if rd_action d = MERGE \<and> (\<exists>p\<in>rp_blocked st. fst p \<in> affected \<and> snd p \<in> affected)
        then Inr (st\<lparr>rp_skipped := rp_skipped st @ [rd_decision_id d]\<rparr>)
        else bind_res (move_all gid (ord affected) st) (\<lambda>st1.
          Inr (st1\<lparr>rp_groups :=
                     AList.update gid ((case map_of (rp_groups st1) gid of None \<Rightarrow> {} | Some s \<Rightarrow> s) \<union> affected)
                       (rp_groups st1),
                   rp_applied := rp_applied st1 @ [rd_decision_id d]\<rparr>)))))"

definition replay_step :: "(uuid set \<Rightarrow> uuid list) \<Rightarrow> resolution_decision \<Rightarrow> replay \<Rightarrow> replay res" where
  "replay_step ord d st =
     (if rd_action d \<in> GROUP_ACTIONS then group_step ord d st
      else if rd_action d = MANUAL_BLOCK
      then Inr (st\<lparr>rp_blocked := rp_blocked st \<union> pairs_of (rd_member_entity_ids d),
                   rp_applied := rp_applied st @ [rd_decision_id d]\<rparr>)
      else if rd_action d = UNMERGE
      then bind_res (leave_all (ord (set (rd_member_entity_ids d))) st) (\<lambda>st1.
             Inr (st1\<lparr>rp_applied := rp_applied st1 @ [rd_decision_id d]\<rparr>))
      else Inr (st\<lparr>rp_applied := rp_applied st @ [rd_decision_id d]\<rparr>))"

fun replay_all :: "(uuid set \<Rightarrow> uuid list) \<Rightarrow> resolution_decision list \<Rightarrow> replay \<Rightarrow> replay res" where
  "replay_all ord [] st = Inr st"
| "replay_all ord (d # ds) st = bind_res (replay_step ord d st) (replay_all ord ds)"

record resolution_snapshot =
  rs_groups :: "(uuid \<times> uuid list) list"
  rs_blocked_pairs :: "(uuid \<times> uuid) list"
  rs_applied_decision_ids :: "uuid list"
  rs_skipped_decision_ids :: "uuid list"
  rs_superseded_decision_ids :: "uuid list"

fun group_of :: "(uuid \<times> uuid list) list \<Rightarrow> uuid \<Rightarrow> uuid option" where
  "group_of [] e = None"
| "group_of ((g, members) # gs) e = (if e \<in> set members then Some g else group_of gs e)"

definition replay_key :: "resolution_decision \<Rightarrow> ts \<times> ts \<times> int \<times> uuid" where
  "replay_key d = (rd_effective_at d, rd_recorded_at d, rd_decision_version d, rd_decision_id d)"

definition replay_snapshot :: "replay \<Rightarrow> uuid set \<Rightarrow> resolution_snapshot" where
  "replay_snapshot st superseded =
     \<lparr>rs_groups = map (\<lambda>(g, s). (g, sorted_list_of_set s))
        (filter (\<lambda>(g, s). 2 \<le> card s) (sort_key fst (rp_groups st))),
      rs_blocked_pairs = sorted_list_of_set (rp_blocked st),
      rs_applied_decision_ids = rp_applied st, rs_skipped_decision_ids = rp_skipped st,
      rs_superseded_decision_ids = sorted_list_of_set superseded\<rparr>"

definition project_groups :: "(uuid set \<Rightarrow> uuid list) \<Rightarrow> resolution_decision list \<Rightarrow> resolution_snapshot res" where
  "project_groups ord ds =
     bind_res (effective_decisions ds) (\<lambda>(effective, superseded).
     bind_res (replay_all ord (sort_key replay_key effective) replay_start) (\<lambda>st.
       Inr (replay_snapshot st superseded)))"

text \<open>A lawful order of a set: every element once.\<close>

definition set_order :: "(uuid set \<Rightarrow> uuid list) \<Rightarrow> bool" where
  "set_order ord \<longleftrightarrow> (\<forall>s. finite s \<longrightarrow> distinct (ord s) \<and> set (ord s) = s)"

section \<open>What the replay computes\<close>

text \<open>
  The specification keeps one map from entities to groups; the dictionary of groups of the program is
  its inverse, kept beside it as an index.
\<close>

record resolution_spec =
  sp_group :: "uuid \<Rightarrow> uuid option"
  sp_blocked :: "(uuid \<times> uuid) set"
  sp_applied :: "uuid list"
  sp_skipped :: "uuid list"

definition together :: "(uuid \<Rightarrow> uuid option) \<Rightarrow> uuid set \<Rightarrow> uuid set" where
  "together \<mu> ms = ms \<union> {e. \<exists>m\<in>ms. \<mu> m \<noteq> None \<and> \<mu> e = \<mu> m}"

definition spec_step :: "resolution_decision \<Rightarrow> resolution_spec \<Rightarrow> resolution_spec" where
  "spec_step d s =
     (let members = set (rd_member_entity_ids d); affected = together (sp_group s) members;
          applied = s\<lparr>sp_applied := sp_applied s @ [rd_decision_id d]\<rparr>
      in case rd_action d of
           MERGE \<Rightarrow>
             if \<exists>(a, b)\<in>sp_blocked s. a \<in> affected \<and> b \<in> affected
             then s\<lparr>sp_skipped := sp_skipped s @ [rd_decision_id d]\<rparr>
             else applied\<lparr>sp_group := (\<lambda>e. if e \<in> affected then rd_canonical_group_id d else sp_group s e)\<rparr>
         | MANUAL_LINK \<Rightarrow>
             applied\<lparr>sp_group := (\<lambda>e. if e \<in> affected then rd_canonical_group_id d else sp_group s e)\<rparr>
         | MANUAL_BLOCK \<Rightarrow>
             applied\<lparr>sp_blocked := sp_blocked s \<union> {(a, b). a \<in> members \<and> b \<in> members \<and> a < b}\<rparr>
         | UNMERGE \<Rightarrow> applied\<lparr>sp_group := (\<lambda>e. if e \<in> members then None else sp_group s e)\<rparr>
         | REJECT \<Rightarrow> applied)"

definition spec_start :: resolution_spec where
  "spec_start = \<lparr>sp_group = (\<lambda>_. None), sp_blocked = {}, sp_applied = [], sp_skipped = []\<rparr>"

definition replay_abs :: "replay \<Rightarrow> resolution_spec" where
  "replay_abs st = \<lparr>sp_group = map_of (rp_membership st), sp_blocked = rp_blocked st,
     sp_applied = rp_applied st, sp_skipped = rp_skipped st\<rparr>"

definition group_members :: "(uuid \<Rightarrow> uuid option) \<Rightarrow> uuid \<Rightarrow> uuid set" where
  "group_members \<mu> g = {e. \<mu> e = Some g}"

definition indexes :: "(uuid \<times> uuid set) list \<Rightarrow> (uuid \<Rightarrow> uuid option) \<Rightarrow> bool" where
  "indexes grp \<mu> \<longleftrightarrow> distinct (map fst grp)
     \<and> (\<forall>g. map_of grp g = (if group_members \<mu> g = {} then None else Some (group_members \<mu> g)))"

definition replay_inv :: "replay \<Rightarrow> bool" where
  "replay_inv st \<longleftrightarrow> distinct (map fst (rp_membership st)) \<and> finite (rp_blocked st)
     \<and> indexes (rp_groups st) (map_of (rp_membership st))"

text \<open>A decision that passed its validators.\<close>

definition decision_valid :: "resolution_decision \<Rightarrow> bool" where
  "decision_valid d \<longleftrightarrow> decision_fields_ok d \<and> shape_by_action d = Inr d"

lemma decision_valid_facts:
  assumes "decision_valid d"
  shows "rd_member_entity_ids d \<noteq> []" "rd_action d \<in> GROUP_ACTIONS \<Longrightarrow> \<exists>g. rd_canonical_group_id d = Some g"
    "rd_supersedes_decision_id d \<noteq> Some (rd_decision_id d)"
  using assms by (auto simp: decision_valid_def decision_fields_ok_def shape_by_action_def split: if_splits)

lemma ordered_pairs_sorted: "sorted xs \<Longrightarrow> distinct xs \<Longrightarrow> ordered_pairs xs = {(a, b). a \<in> set xs \<and> b \<in> set xs \<and> a < b}"
  by (induction xs) (auto simp: order.order_iff_strict)

lemma pairs_of_eq: "pairs_of ids = {(a, b). a \<in> set ids \<and> b \<in> set ids \<and> a < b}"
  by (simp add: pairs_of_def ordered_pairs_sorted)

lemma restrict_all [simp]: "\<mu> |` UNIV = \<mu>"
  by (auto simp: restrict_map_def)

lemma leave_ok:
  assumes "distinct (map fst (rp_membership st))" "e \<notin> moved"
    "indexes (rp_groups st) (map_of (rp_membership st) |` (- moved))"
  shows "\<exists>mem grp. leave e st = Inr (st\<lparr>rp_membership := mem, rp_groups := grp\<rparr>)
     \<and> distinct (map fst mem) \<and> map_of mem = (map_of (rp_membership st))(e := None)
     \<and> indexes grp ((map_of (rp_membership st))(e := None) |` (- moved))"
proof (cases "map_of (rp_membership st) e")
  case None
  then have "(map_of (rp_membership st))(e := None) = map_of (rp_membership st)" by auto
  then show ?thesis using assms None
    by (intro exI [of _ "rp_membership st"] exI [of _ "rp_groups st"]) (simp add: leave_def)
next
  case (Some old)
  define \<mu> where "\<mu> = map_of (rp_membership st) |` (- moved)"
  define s where "s = group_members \<mu> old"
  have e: "e \<in> s" using Some assms(2) by (simp add: s_def group_members_def \<mu>_def)
  then have g: "map_of (rp_groups st) old = Some s"
    using assms(3) by (auto simp: indexes_def \<mu>_def s_def)
  define grp where "grp = (if s - {e} = {} then AList.delete old (rp_groups st)
                           else AList.update old (s - {e}) (rp_groups st))"
  have l: "leave e st = Inr (st\<lparr>rp_membership := AList.delete e (rp_membership st), rp_groups := grp\<rparr>)"
    using Some g by (simp add: leave_def grp_def)
  have new: "(map_of (rp_membership st))(e := None) |` (- moved) = \<mu>(e := None)"
    by (auto simp: \<mu>_def restrict_map_def)
  have same: "group_members (\<mu>(e := None)) g' = (if g' = old then s - {e} else group_members \<mu> g')" for g'
    using e by (auto simp: group_members_def s_def)
  have "indexes grp (\<mu>(e := None))"
    using assms(3) same
    by (auto simp: indexes_def grp_def \<mu>_def [symmetric] delete_conv' update_conv' distinct_update distinct_delete)
  then show ?thesis using l new assms(1)
    by (intro exI [of _ "AList.delete e (rp_membership st)"] exI [of _ grp])
       (simp add: delete_conv' distinct_delete)
qed

lemma leave_all_ok:
  assumes "distinct (map fst (rp_membership st))" "indexes (rp_groups st) (map_of (rp_membership st))"
  shows "\<exists>mem grp. leave_all es st = Inr (st\<lparr>rp_membership := mem, rp_groups := grp\<rparr>)
     \<and> distinct (map fst mem) \<and> map_of mem = (\<lambda>e. if e \<in> set es then None else map_of (rp_membership st) e)
     \<and> indexes grp (map_of mem)"
  using assms
proof (induction es arbitrary: st)
  case Nil
  then show ?case by (intro exI [of _ "rp_membership st"] exI [of _ "rp_groups st"]) simp
next
  case (Cons e es)
  obtain mem grp where one: "leave e st = Inr (st\<lparr>rp_membership := mem, rp_groups := grp\<rparr>)"
    "distinct (map fst mem)" "map_of mem = (map_of (rp_membership st))(e := None)" "indexes grp (map_of mem)"
    using leave_ok [of st e "{}"] Cons.prems by auto
  define st1 where "st1 = st\<lparr>rp_membership := mem, rp_groups := grp\<rparr>"
  have "distinct (map fst (rp_membership st1))" "indexes (rp_groups st1) (map_of (rp_membership st1))"
    using one(2,4) by (simp_all add: st1_def)
  from Cons.IH [OF this] obtain mem' grp' where
    rest: "leave_all es st1 = Inr (st1\<lparr>rp_membership := mem', rp_groups := grp'\<rparr>)"
    "distinct (map fst mem')" "map_of mem' = (\<lambda>e. if e \<in> set es then None else map_of (rp_membership st1) e)"
    "indexes grp' (map_of mem')"
    by blast
  have "map_of mem' = (\<lambda>x. if x \<in> set (e # es) then None else map_of (rp_membership st) x)"
    using rest(3) one(3) by (auto simp: st1_def)
  then show ?case using rest(1,2,4) one(1) unfolding st1_def
    by (intro exI [of _ mem'] exI [of _ grp']) simp
qed

lemma move_all_ok:
  assumes "distinct (map fst (rp_membership st))" "distinct es" "set es \<inter> moved = {}"
    "indexes (rp_groups st) (map_of (rp_membership st) |` (- moved))"
  shows "\<exists>mem grp. move_all gid es st = Inr (st\<lparr>rp_membership := mem, rp_groups := grp\<rparr>)
     \<and> distinct (map fst mem) \<and> map_of mem = (\<lambda>e. if e \<in> set es then Some gid else map_of (rp_membership st) e)
     \<and> indexes grp (map_of mem |` (- (moved \<union> set es)))"
  using assms
proof (induction es arbitrary: st moved)
  case Nil
  then show ?case by (intro exI [of _ "rp_membership st"] exI [of _ "rp_groups st"]) simp
next
  case (Cons e es)
  obtain mem grp where one: "leave e st = Inr (st\<lparr>rp_membership := mem, rp_groups := grp\<rparr>)"
    "distinct (map fst mem)" "map_of mem = (map_of (rp_membership st))(e := None)"
    "indexes grp ((map_of (rp_membership st))(e := None) |` (- moved))"
    using leave_ok [of st e moved] Cons.prems by auto
  define st1 where "st1 = st\<lparr>rp_membership := AList.update e gid mem, rp_groups := grp\<rparr>"
  have m1: "map_of (rp_membership st1) = (map_of (rp_membership st))(e \<mapsto> gid)"
    using one(3) by (simp add: st1_def update_conv')
  have "map_of (rp_membership st1) |` (- (insert e moved)) = (map_of (rp_membership st))(e := None) |` (- moved)"
    by (auto simp: m1 restrict_map_def)
  then obtain mem' grp' where rest: "move_all gid es st1 = Inr (st1\<lparr>rp_membership := mem', rp_groups := grp'\<rparr>)"
    "distinct (map fst mem')" "map_of mem' = (\<lambda>x. if x \<in> set es then Some gid else map_of (rp_membership st1) x)"
    "indexes grp' (map_of mem' |` (- (insert e moved \<union> set es)))"
    using Cons.IH [of st1 "insert e moved"] Cons.prems one(2,4) by (auto simp: st1_def distinct_update)
  have "map_of mem' = (\<lambda>x. if x \<in> set (e # es) then Some gid else map_of (rp_membership st) x)"
    using rest(3) m1 by auto
  moreover have "move_all gid (e # es) st = Inr (st\<lparr>rp_membership := mem', rp_groups := grp'\<rparr>)"
    using rest(1) one(1) by (simp add: st1_def)
      (metis (mono_tags) replay.surjective replay.update_convs(1,2))
  moreover have "insert e moved \<union> set es = moved \<union> set (e # es)" by auto
  ultimately show ?case using rest(2,4) by (intro exI [of _ mem'] exI [of _ grp']) simp
qed

lemma add_groups_of_ok:
  assumes "indexes (rp_groups st) (map_of (rp_membership st))"
  shows "add_groups_of ms st acc
     = Inr (acc \<union> {e. \<exists>m\<in>set ms. map_of (rp_membership st) m \<noteq> None \<and> map_of (rp_membership st) e = map_of (rp_membership st) m})"
proof (induction ms arbitrary: acc)
  case (Cons m ms)
  show ?case
  proof (cases "map_of (rp_membership st) m")
    case (Some g)
    then have "m \<in> group_members (map_of (rp_membership st)) g" by (simp add: group_members_def)
    then have "map_of (rp_groups st) g = Some (group_members (map_of (rp_membership st)) g)"
      using assms by (auto simp: indexes_def)
    then show ?thesis using Some Cons.IH by (auto simp: group_members_def)
  qed (use Cons.IH in simp)
qed simp

lemma group_step_skips:
  assumes "replay_inv st" "set_order ord" "decision_valid d" "rd_action d = MERGE"
    "\<exists>p\<in>rp_blocked st. fst p \<in> together (map_of (rp_membership st)) (set (rd_member_entity_ids d))
        \<and> snd p \<in> together (map_of (rp_membership st)) (set (rd_member_entity_ids d))"
  shows "group_step ord d st = Inr (st\<lparr>rp_skipped := rp_skipped st @ [rd_decision_id d]\<rparr>)"
proof -
  obtain gid where "rd_canonical_group_id d = Some gid"
    using decision_valid_facts(2) [OF assms(3)] assms(4) by (auto simp: GROUP_ACTIONS_def)
  moreover have "set (ord (set (rd_member_entity_ids d))) = set (rd_member_entity_ids d)"
    using assms(2) by (simp add: set_order_def)
  ultimately show ?thesis using assms(1,4,5)
    by (simp add: group_step_def required_group_id_def replay_inv_def add_groups_of_ok together_def)
qed

lemma group_step_moves:
  assumes "replay_inv st" "set_order ord" "decision_valid d" "rd_canonical_group_id d = Some gid"
    "affected = together (map_of (rp_membership st)) (set (rd_member_entity_ids d))"
    "\<not> (rd_action d = MERGE \<and> (\<exists>p\<in>rp_blocked st. fst p \<in> affected \<and> snd p \<in> affected))"
  shows "\<exists>mem grp. group_step ord d st = Inr (st\<lparr>rp_membership := mem, rp_groups := grp,
      rp_applied := rp_applied st @ [rd_decision_id d]\<rparr>)
     \<and> distinct (map fst mem) \<and> map_of mem = (\<lambda>e. if e \<in> affected then Some gid else map_of (rp_membership st) e)
     \<and> indexes grp (map_of mem)"
proof -
  define \<mu> where "\<mu> = map_of (rp_membership st)"
  have inv: "distinct (map fst (rp_membership st))" "indexes (rp_groups st) \<mu>"
    using assms(1) by (simp_all add: replay_inv_def \<mu>_def)
  have "affected \<subseteq> set (rd_member_entity_ids d) \<union> dom \<mu>"
    by (auto simp: assms(5) together_def \<mu>_def dom_def)
  then have "finite affected" by (rule finite_subset) (simp add: \<mu>_def finite_dom_map_of)
  then have o: "distinct (ord affected)" "set (ord affected) = affected"
    using assms(2) by (simp_all add: set_order_def)
  have "\<exists>mem grp. move_all gid (ord affected) st = Inr (st\<lparr>rp_membership := mem, rp_groups := grp\<rparr>)
    \<and> distinct (map fst mem) \<and> map_of mem = (\<lambda>e. if e \<in> affected then Some gid else \<mu> e)
    \<and> indexes grp (map_of mem |` (- affected))"
    using move_all_ok [OF inv(1) o(1), of "{}" gid] inv(2) o(2) by (simp add: \<mu>_def cong: if_cong)
  then obtain mem grp where mv: "move_all gid (ord affected) st = Inr (st\<lparr>rp_membership := mem, rp_groups := grp\<rparr>)"
    "distinct (map fst mem)" "map_of mem = (\<lambda>e. if e \<in> affected then Some gid else \<mu> e)"
    "indexes grp (map_of mem |` (- affected))"
    by blast
  define rest where "rest = group_members (map_of mem |` (- affected)) gid"
  define grp' where "grp' = AList.update gid ((case map_of grp gid of None \<Rightarrow> {} | Some s \<Rightarrow> s) \<union> affected) grp"
  have "(case map_of grp gid of None \<Rightarrow> {} | Some s \<Rightarrow> s) = rest"
    using mv(4) by (simp add: indexes_def rest_def)
  moreover have "affected \<noteq> {}"
    using decision_valid_facts(1) [OF assms(3)] by (simp add: assms(5) together_def)
  moreover have gid: "group_members (map_of mem) gid = rest \<union> affected"
    using mv(3) by (auto simp: group_members_def rest_def restrict_map_def)
  moreover have "group_members (map_of mem) g = group_members (map_of mem |` (- affected)) g" if "g \<noteq> gid" for g
    using that mv(3) by (auto simp: group_members_def restrict_map_def)
  ultimately have ix: "indexes grp' (map_of mem)"
    using mv(4) by (auto simp: indexes_def grp'_def update_conv' distinct_update)
  have "set (ord (set (rd_member_entity_ids d))) = set (rd_member_entity_ids d)"
    using assms(2) by (simp add: set_order_def)
  then have "add_groups_of (ord (set (rd_member_entity_ids d))) st (set (rd_member_entity_ids d)) = Inr affected"
    using inv(2) by (simp add: add_groups_of_ok \<mu>_def assms(5) together_def)
  then have "group_step ord d st = Inr (st\<lparr>rp_membership := mem, rp_groups := grp',
      rp_applied := rp_applied st @ [rd_decision_id d]\<rparr>)"
    using assms(4,6) mv(1) by (auto simp: group_step_def required_group_id_def grp'_def)
  then show ?thesis using mv(2,3) ix unfolding \<mu>_def by blast
qed

text \<open>One decision: the program never fails on a valid one and does what the specification says.\<close>

lemma replay_step_refines:
  assumes "replay_inv st" "set_order ord" "decision_valid d"
  shows "\<exists>st'. replay_step ord d st = Inr st' \<and> replay_inv st' \<and> replay_abs st' = spec_step d (replay_abs st)"
proof -
  define affected where "affected = together (map_of (rp_membership st)) (set (rd_member_entity_ids d))"
  show ?thesis
  proof (cases "rd_action d \<in> GROUP_ACTIONS")
    case True
    obtain gid where gid: "rd_canonical_group_id d = Some gid" using decision_valid_facts(2) [OF assms(3) True] by blast
    have step: "replay_step ord d st = group_step ord d st" using True by (simp add: replay_step_def)
    show ?thesis
    proof (cases "rd_action d = MERGE \<and> (\<exists>p\<in>rp_blocked st. fst p \<in> affected \<and> snd p \<in> affected)")
      case blk: True
      then have "group_step ord d st = Inr (st\<lparr>rp_skipped := rp_skipped st @ [rd_decision_id d]\<rparr>)"
        using group_step_skips [OF assms] by (simp add: affected_def)
      then show ?thesis using assms(1) blk step
        by (auto simp: replay_inv_def replay_abs_def spec_step_def affected_def Let_def)
    next
      case False
      obtain mem grp where g: "group_step ord d st = Inr (st\<lparr>rp_membership := mem, rp_groups := grp,
            rp_applied := rp_applied st @ [rd_decision_id d]\<rparr>)"
        "distinct (map fst mem)" "map_of mem = (\<lambda>e. if e \<in> affected then Some gid else map_of (rp_membership st) e)"
        "indexes grp (map_of mem)"
        using group_step_moves [OF assms gid affected_def False] by blast
      have "spec_step d (replay_abs st) = (replay_abs st)\<lparr>sp_applied := rp_applied st @ [rd_decision_id d],
          sp_group := (\<lambda>e. if e \<in> affected then Some gid else map_of (rp_membership st) e)\<rparr>"
        using True False gid
        by (cases "rd_action d") (auto simp: spec_step_def replay_abs_def affected_def Let_def GROUP_ACTIONS_def)
      then show ?thesis using g assms(1) step by (simp add: replay_inv_def replay_abs_def)
    qed
  next
    case False
    show ?thesis
    proof (cases "rd_action d")
      case UNMERGE
      obtain mem grp where l: "leave_all (ord (set (rd_member_entity_ids d))) st = Inr (st\<lparr>rp_membership := mem, rp_groups := grp\<rparr>)"
        "distinct (map fst mem)"
        "map_of mem = (\<lambda>e. if e \<in> set (rd_member_entity_ids d) then None else map_of (rp_membership st) e)"
        "indexes grp (map_of mem)"
        using leave_all_ok [of st "ord (set (rd_member_entity_ids d))"] assms(1,2)
        by (auto simp: replay_inv_def set_order_def)
      then show ?thesis using UNMERGE assms(1)
        by (simp add: replay_step_def GROUP_ACTIONS_def spec_step_def replay_abs_def replay_inv_def Let_def cong: if_cong)
    next
      case MANUAL_BLOCK
      have "finite (pairs_of (rd_member_entity_ids d))"
        by (rule finite_subset [of _ "set (rd_member_entity_ids d) \<times> set (rd_member_entity_ids d)"])
           (auto simp: pairs_of_eq)
      then show ?thesis using MANUAL_BLOCK assms(1)
        by (simp add: replay_step_def GROUP_ACTIONS_def spec_step_def replay_abs_def replay_inv_def Let_def pairs_of_eq)
    qed (use False assms(1) in \<open>simp_all add: replay_step_def GROUP_ACTIONS_def spec_step_def replay_abs_def replay_inv_def Let_def\<close>)
  qed
qed

lemma replay_start_ok [simp]: "replay_inv replay_start" "replay_abs replay_start = spec_start"
  by (simp_all add: replay_inv_def replay_start_def replay_abs_def spec_start_def indexes_def group_members_def)

lemma replay_all_refines:
  "replay_inv st \<Longrightarrow> set_order ord \<Longrightarrow> list_all decision_valid ds \<Longrightarrow>
   \<exists>st'. replay_all ord ds st = Inr st' \<and> replay_inv st' \<and> replay_abs st' = fold spec_step ds (replay_abs st)"
proof (induction ds arbitrary: st)
  case (Cons d ds)
  obtain st1 where one: "replay_step ord d st = Inr st1" "replay_inv st1" "replay_abs st1 = spec_step d (replay_abs st)"
    using replay_step_refines [OF Cons.prems(1,2), of d] Cons.prems(3) by auto
  then show ?case using Cons.IH [of st1] Cons.prems(2,3) by simp
qed simp

section \<open>The candidates\<close>

definition latest_map :: "resolution_decision list \<Rightarrow> (uuid \<Rightarrow> resolution_decision option) \<Rightarrow> bool" where
  "latest_map ds m \<longleftrightarrow>
     (\<forall>i d. m i = Some d \<longrightarrow> rd_decision_id d = i \<and> d \<in> set ds
        \<and> (\<forall>d'\<in>set ds. rd_decision_id d' = i \<longrightarrow> rd_decision_version d' \<le> rd_decision_version d))
     \<and> (\<forall>d\<in>set ds. m (rd_decision_id d) \<noteq> None)"

definition latest_of :: "resolution_decision list \<Rightarrow> (uuid \<times> resolution_decision) list \<Rightarrow> bool" where
  "latest_of ds l \<longleftrightarrow> distinct (map fst l) \<and> latest_map ds (map_of l)"

lemma latest_map_new:
  "latest_map ds m \<Longrightarrow> m (rd_decision_id d) = None \<Longrightarrow> latest_map (ds @ [d]) (m(rd_decision_id d \<mapsto> d))"
  unfolding latest_map_def by auto

lemma latest_map_newer:
  "latest_map ds m \<Longrightarrow> m (rd_decision_id d) = Some c \<Longrightarrow> rd_decision_version c < rd_decision_version d \<Longrightarrow>
   latest_map (ds @ [d]) (m(rd_decision_id d \<mapsto> d))"
proof -
  assume m: "latest_map ds m" "m (rd_decision_id d) = Some c" "rd_decision_version c < rd_decision_version d"
  then have "\<forall>d'\<in>set ds. rd_decision_id d' = rd_decision_id d \<longrightarrow> rd_decision_version d' \<le> rd_decision_version d"
    unfolding latest_map_def by (meson less_imp_le order_trans)
  then show ?thesis using m(1) unfolding latest_map_def by auto
qed

lemma latest_map_older:
  "latest_map ds m \<Longrightarrow> m (rd_decision_id d) = Some c \<Longrightarrow> \<not> rd_decision_version c < rd_decision_version d \<Longrightarrow>
   latest_map (ds @ [d]) m"
  unfolding latest_map_def by auto

lemma keep_latest_step: "latest_of ds l \<Longrightarrow> latest_of (ds @ [d]) (keep_latest d l)"
  using latest_map_new [of ds "map_of l" d] latest_map_newer [of ds "map_of l" d] latest_map_older [of ds "map_of l" d]
  by (auto simp: latest_of_def keep_latest_def distinct_update update_conv' split: option.split simp del: map_of_eq_Some_iff)

lemma latest_of_fold: "latest_of ds (fold keep_latest ds [])"
proof (induction ds rule: rev_induct)
  case Nil
  show ?case by (simp add: latest_of_def latest_map_def)
next
  case (snoc d ds)
  then show ?case using keep_latest_step by simp
qed

lemma set_latest_decisions:
  assumes "latest_of ds l"
  shows "set (map snd l) = {d. map_of l (rd_decision_id d) = Some d}"
    "map rd_decision_id (map snd l) = map fst l"
proof -
  have mem: "(i, d) \<in> set l \<longleftrightarrow> map_of l i = Some d" for i d
    using assms by (simp add: latest_of_def)
  have key: "map_of l i = Some d \<Longrightarrow> rd_decision_id d = i" for i d
    using assms by (auto simp: latest_of_def latest_map_def simp del: map_of_eq_Some_iff)
  show "set (map snd l) = {d. map_of l (rd_decision_id d) = Some d}"
  proof (intro set_eqI iffI)
    fix d assume "d \<in> set (map snd l)"
    then obtain i where "(i, d) \<in> set l" by auto
    then have "map_of l i = Some d" by (rule mem [THEN iffD1])
    then show "d \<in> {d. map_of l (rd_decision_id d) = Some d}" using key by blast
  next
    fix d assume "d \<in> {d. map_of l (rd_decision_id d) = Some d}"
    then have "(rd_decision_id d, d) \<in> set l" using mem by blast
    then show "d \<in> set (map snd l)" by force
  qed
  show "map rd_decision_id (map snd l) = map fst l"
    using mem key by auto
qed

lemma latest_decisions_distinct: "distinct (map rd_decision_id (latest_decisions ds))"
  using latest_of_fold [of ds] set_latest_decisions(2) [OF latest_of_fold, of ds]
  by (simp only: latest_decisions_def latest_of_def)

lemma latest_decisions_subset: "set (latest_decisions ds) \<subseteq> set ds"
proof
  fix d assume "d \<in> set (latest_decisions ds)"
  then have "map_of (fold keep_latest ds []) (rd_decision_id d) = Some d"
    using set_latest_decisions(1) [OF latest_of_fold, of ds] by (simp only: latest_decisions_def mem_Collect_eq)
  then show "d \<in> set ds"
    using latest_of_fold [of ds] by (auto simp: latest_of_def latest_map_def simp del: map_of_eq_Some_iff)
qed

text \<open>With one row for every decision and version, the candidates depend on the set of the rows only.\<close>

definition one_row_per_version :: "resolution_decision list \<Rightarrow> bool" where
  "one_row_per_version ds \<longleftrightarrow> (\<forall>d\<in>set ds. \<forall>d'\<in>set ds.
     rd_decision_id d = rd_decision_id d' \<longrightarrow> rd_decision_version d = rd_decision_version d' \<longrightarrow> d = d')"

lemma latest_decisions_set:
  assumes "one_row_per_version ds"
  shows "set (latest_decisions ds)
    = {d \<in> set ds. \<forall>d'\<in>set ds. rd_decision_id d' = rd_decision_id d \<longrightarrow> rd_decision_version d' \<le> rd_decision_version d}"
proof -
  define l where "l = fold keep_latest ds []"
  have l: "latest_of ds l" using latest_of_fold by (simp add: l_def)
  have "map_of l (rd_decision_id d) = Some d \<longleftrightarrow>
      d \<in> set ds \<and> (\<forall>d'\<in>set ds. rd_decision_id d' = rd_decision_id d \<longrightarrow> rd_decision_version d' \<le> rd_decision_version d)" for d
  proof
    assume "map_of l (rd_decision_id d) = Some d"
    then show "d \<in> set ds \<and> (\<forall>d'\<in>set ds. rd_decision_id d' = rd_decision_id d \<longrightarrow> rd_decision_version d' \<le> rd_decision_version d)"
      using l unfolding latest_of_def latest_map_def by blast
  next
    assume a: "d \<in> set ds \<and> (\<forall>d'\<in>set ds. rd_decision_id d' = rd_decision_id d \<longrightarrow> rd_decision_version d' \<le> rd_decision_version d)"
    then obtain c where c: "map_of l (rd_decision_id d) = Some c" using l unfolding latest_of_def latest_map_def by blast
    then have "c \<in> set ds" "rd_decision_id c = rd_decision_id d" "rd_decision_version d \<le> rd_decision_version c"
      using l a unfolding latest_of_def latest_map_def by blast+
    moreover have "rd_decision_version c \<le> rd_decision_version d" using a calculation by auto
    ultimately have "c = d" using assms a by (auto simp: one_row_per_version_def)
    then show "map_of l (rd_decision_id d) = Some d" using c by simp
  qed
  then show ?thesis using set_latest_decisions(1) [OF l] unfolding latest_decisions_def l_def by blast
qed

section \<open>The fixed point of supersession\<close>

lemma superseded_by_iff: "i \<in> superseded_by ds \<longleftrightarrow> (\<exists>d\<in>set ds. rd_supersedes_decision_id d = Some i)"
  by (auto simp: superseded_by_def List.map_filter_def image_iff)

lemma supersede_rounds_sound:
  "supersede_rounds n cs s0 = Inr (eff, s) \<Longrightarrow> eff = effective_without s cs \<and> s = superseded_by eff"
proof (induction n cs s0 rule: supersede_rounds.induct)
  case (2 n cs superseded)
  show ?case
  proof (cases "superseded_by (effective_without superseded cs) = superseded")
    case True
    then have "supersede_rounds (Suc n) cs superseded = Inr (effective_without superseded cs, superseded)"
      by (simp add: Let_def)
    then have "eff = effective_without superseded cs" "s = superseded"
      using "2.prems" by (simp_all del: supersede_rounds.simps)
    then show ?thesis using True by simp
  next
    case False
    then have "supersede_rounds n cs (superseded_by (effective_without superseded cs)) = Inr (eff, s)"
      using "2.prems" by (simp add: Let_def)
    then show ?thesis by (rule "2.IH" [OF refl refl False])
  qed
qed simp

text \<open>
  A rank that decreases from a decision to those that supersede it: once the rounds have passed the
  rank of a decision, it stays superseded or it stays effective.
\<close>

definition next_set :: "resolution_decision list \<Rightarrow> uuid set \<Rightarrow> uuid set" where
  "next_set cs s = superseded_by (effective_without s cs)"

lemma next_set_iff:
  "i \<in> next_set cs s \<longleftrightarrow> (\<exists>d\<in>set cs. rd_decision_id d \<notin> s \<and> rd_supersedes_decision_id d = Some i)"
  by (auto simp: next_set_def superseded_by_iff effective_without_def)

lemma rounds_stable:
  assumes "\<And>d i. d \<in> set cs \<Longrightarrow> rd_supersedes_decision_id d = Some i \<Longrightarrow> rank (rd_decision_id d) < rank i"
    "rank i \<le> k"
  shows "i \<in> (next_set cs ^^ Suc k) {} \<longleftrightarrow> i \<in> (next_set cs ^^ k) {}"
  using assms(2)
proof (induction k arbitrary: i)
  case 0
  have "d \<in> set cs \<Longrightarrow> rd_supersedes_decision_id d \<noteq> Some i" for d
    using assms(1) [of d i] 0 by auto
  then show ?case by (auto simp: next_set_iff)
next
  case (Suc k)
  define s where "s = (next_set cs ^^ k) {}"
  have same: "rd_decision_id d \<in> next_set cs s \<longleftrightarrow> rd_decision_id d \<in> s"
    if "d \<in> set cs" "rd_supersedes_decision_id d = Some i" for d
    using Suc.IH [of "rd_decision_id d"] Suc.prems assms(1) [OF that] by (simp add: s_def)
  have "i \<in> next_set cs (next_set cs s) \<longleftrightarrow> i \<in> next_set cs s"
    unfolding next_set_iff [of i cs "next_set cs s"] next_set_iff [of i cs s] using same by blast
  then show ?case by (simp add: s_def)
qed

lemma supersede_rounds_run:
  "(next_set cs ^^ Suc (k + n)) {} = (next_set cs ^^ (k + n)) {} \<Longrightarrow>
   \<exists>r. supersede_rounds (Suc n) cs ((next_set cs ^^ k) {}) = Inr r"
proof (induction n arbitrary: k)
  case 0
  then show ?case by (simp add: next_set_def [symmetric] Let_def)
next
  case (Suc n)
  have "\<exists>r. supersede_rounds (Suc n) cs ((next_set cs ^^ Suc k) {}) = Inr r"
    using Suc.IH [of "Suc k"] Suc.prems by simp
  then show ?case
    by (simp only: supersede_rounds.simps(2) [of "Suc n"] Let_def next_set_def [symmetric] funpow.simps o_apply) auto
qed

lemma supersede_rounds_enough:
  assumes "\<And>d i. d \<in> set cs \<Longrightarrow> rd_supersedes_decision_id d = Some i \<Longrightarrow> rank (rd_decision_id d) < rank i"
    "\<And>d i. d \<in> set cs \<Longrightarrow> rd_supersedes_decision_id d = Some i \<Longrightarrow> rank i \<le> length cs"
  shows "\<exists>eff s. supersede_rounds (length cs + 1) cs {} = Inr (eff, s)"
proof -
  have "i \<in> (next_set cs ^^ Suc (length cs)) {} \<longleftrightarrow> i \<in> (next_set cs ^^ length cs) {}" for i
  proof (cases "\<exists>d\<in>set cs. rd_supersedes_decision_id d = Some i")
    case True
    then have "rank i \<le> length cs" using assms(2) by blast
    then show ?thesis using rounds_stable [of cs rank, OF assms(1)] by blast
  next
    case False
    then have "i \<notin> (next_set cs ^^ n) {}" for n by (cases n) (auto simp: next_set_iff)
    then show ?thesis by blast
  qed
  then have "(next_set cs ^^ Suc (0 + length cs)) {} = (next_set cs ^^ (0 + length cs)) {}" by auto
  from supersede_rounds_run [OF this] show ?thesis by auto
qed

definition supersession :: "resolution_decision list \<Rightarrow> (uuid \<times> uuid) set" where
  "supersession cs = {(rd_decision_id d, i) | d i. d \<in> set cs \<and> rd_supersedes_decision_id d = Some i}"

text \<open>The rank of an identifier: how many decisions supersede it, directly or through others.\<close>

definition superseders :: "resolution_decision list \<Rightarrow> uuid \<Rightarrow> uuid set" where
  "superseders cs i = {j \<in> rd_decision_id ` set cs. (j, i) \<in> (supersession cs)\<^sup>+}"

lemma superseders_finite: "finite (superseders cs i)" "card (superseders cs i) \<le> length cs"
proof -
  show "finite (superseders cs i)" by (simp add: superseders_def)
  have "card (superseders cs i) \<le> card (rd_decision_id ` set cs)"
    by (rule card_mono) (auto simp: superseders_def)
  also have "\<dots> \<le> length cs" using card_image_le [of "set cs" rd_decision_id] card_length [of cs] by simp
  finally show "card (superseders cs i) \<le> length cs" .
qed

lemma superseders_grow:
  assumes "acyclic (supersession cs)" "d \<in> set cs" "rd_supersedes_decision_id d = Some i"
  shows "card (superseders cs (rd_decision_id d)) < card (superseders cs i)"
proof (rule psubset_card_mono [OF superseders_finite(1)])
  have r: "(rd_decision_id d, i) \<in> supersession cs" using assms(2,3) by (auto simp: supersession_def)
  have "rd_decision_id d \<in> superseders cs i" using r assms(2) by (auto simp: superseders_def)
  moreover have "rd_decision_id d \<notin> superseders cs (rd_decision_id d)"
    using assms(1) by (simp add: superseders_def acyclic_def)
  moreover have "superseders cs (rd_decision_id d) \<subseteq> superseders cs i"
    using r by (auto simp: superseders_def intro: trancl_into_trancl)
  ultimately show "superseders cs (rd_decision_id d) \<subset> superseders cs i" by blast
qed

text \<open>
  C24. Supersession is resolved: when no chain of latest decisions supersedes itself, the fixed point is
  found within the rounds the program allows, and then a latest decision counts exactly if no decision
  that counts supersedes it.
\<close>

theorem effective_decisions_fixed_point:
  assumes "acyclic (supersession (latest_decisions ds))"
  shows "\<exists>eff s. effective_decisions ds = Inr (eff, s) \<and> set eff \<subseteq> set (latest_decisions ds)
     \<and> (\<forall>d\<in>set (latest_decisions ds).
          d \<in> set eff \<longleftrightarrow> \<not> (\<exists>e\<in>set eff. rd_supersedes_decision_id e = Some (rd_decision_id d)))
     \<and> s = {i. \<exists>e\<in>set eff. rd_supersedes_decision_id e = Some i}"
proof -
  define cs where "cs = latest_decisions ds"
  obtain eff s where r: "supersede_rounds (length cs + 1) cs {} = Inr (eff, s)"
    using supersede_rounds_enough [of cs "\<lambda>i. card (superseders cs i)"] superseders_grow superseders_finite(2)
      assms cs_def by blast
  have e: "eff = effective_without s cs" and s: "s = superseded_by eff"
    using supersede_rounds_sound [OF r] by blast+
  have sup: "i \<in> s \<longleftrightarrow> (\<exists>x\<in>set eff. rd_supersedes_decision_id x = Some i)" for i
    using s superseded_by_iff by blast
  have "d \<in> set eff \<longleftrightarrow> d \<in> set cs \<and> rd_decision_id d \<notin> s" for d
    by (auto simp: e effective_without_def)
  moreover have "effective_decisions ds = Inr (eff, s)" using r by (simp add: effective_decisions_def Let_def cs_def)
  ultimately show ?thesis using sup unfolding cs_def [symmetric] by blast
qed

definition sample_decision :: "uuid \<Rightarrow> resolution_action \<Rightarrow> uuid list \<Rightarrow> uuid option \<Rightarrow> ts \<Rightarrow> uuid option \<Rightarrow> resolution_decision" where
  "sample_decision i action members gid t over =
     \<lparr>rd_decision_id = i, rd_decision_version = 1, rd_action = action, rd_member_entity_ids = members,
      rd_canonical_group_id = gid, rd_evidence_refs = [], rd_feature_values = [], rd_score = Some 1,
      rd_calibration_version = None, rd_rule_or_model_version = ulit ''r1'', rd_actor = ulit ''op'',
      rd_reason = ulit ''same'', rd_effective_at = t, rd_recorded_at = t, rd_supersedes_decision_id = over\<rparr>"

definition sample_chain :: "resolution_decision list" where
  "sample_chain = [sample_decision 1 MANUAL_BLOCK [7, 8] None 10 None,
     sample_decision 2 REJECT [7] None 20 (Some 1), sample_decision 3 REJECT [7] None 30 (Some 2)]"

theorem effective_decisions_fixed_point_witness:
  "acyclic (supersession (latest_decisions sample_chain))
   \<and> (\<exists>eff s. effective_decisions sample_chain = Inr (eff, s) \<and> set eff \<subseteq> set (latest_decisions sample_chain))
   \<and> map_sum id (\<lambda>(eff, s). (map rd_decision_id eff, s)) (effective_decisions sample_chain) = Inr ([1, 3], {2})"
proof (intro conjI)
  have "latest_decisions sample_chain = sample_chain" by code_simp
  moreover have "supersession sample_chain \<subseteq> measure (\<lambda>i. 10 - i)"
    by (auto simp: supersession_def sample_chain_def sample_decision_def)
  ultimately show a: "acyclic (supersession (latest_decisions sample_chain))"
    by (auto intro: acyclic_subset [OF wf_acyclic])
  show "\<exists>eff s. effective_decisions sample_chain = Inr (eff, s) \<and> set eff \<subseteq> set (latest_decisions sample_chain)"
    using effective_decisions_fixed_point [OF a] by blast
  show "map_sum id (\<lambda>(eff, s). (map rd_decision_id eff, s)) (effective_decisions sample_chain) = Inr ([1, 3], {2})"
    by code_simp
qed

text \<open>
  A cycle of supersession that a decision from outside breaks is not reported: the outsider makes one
  of the two ineffective for good, and the rounds settle.
\<close>

theorem broken_cycle_is_accepted:
  "map_sum id (\<lambda>(eff, s). (map rd_decision_id eff, s))
     (effective_decisions [sample_decision 1 REJECT [7] None 10 (Some 2), sample_decision 2 REJECT [7] None 20 (Some 1),
        sample_decision 3 REJECT [7] None 30 (Some 1)])
   = Inr ([2, 3], {1})"
  by code_simp

text \<open>
  The check of an auto merge looks at the members of the decision and of their groups, not at who is in the
  target group already: entities 7 and 8 are blocked, and the second merge puts 8 into the group of 7.
\<close>

theorem auto_merge_joins_a_blocked_pair:
  "map_sum id (\<lambda>s. (rs_groups s, rs_blocked_pairs s, rs_skipped_decision_ids s))
     (project_groups sorted_list_of_set
       [sample_decision 1 MANUAL_BLOCK [7, 8] None 10 None, sample_decision 2 MERGE [7, 9] (Some 100) 20 None,
        sample_decision 3 MERGE [8, 5] (Some 100) 30 None])
   = Inr ([(100, [5, 7, 8, 9])], [(7, 8)], [])"
  by code_simp

section \<open>The snapshot\<close>

lemma group_of_unique:
  "(\<And>g ms. (g, ms) \<in> set gs \<Longrightarrow> e \<in> set ms \<Longrightarrow> g = g0) \<Longrightarrow>
   group_of gs e = (if \<exists>ms. (g0, ms) \<in> set gs \<and> e \<in> set ms then Some g0 else None)"
proof (induction gs)
  case (Cons x gs)
  obtain g ms where x: "x = (g, ms)" by fastforce
  have "group_of gs e = (if \<exists>ms. (g0, ms) \<in> set gs \<and> e \<in> set ms then Some g0 else None)"
    by (rule Cons.IH) (use Cons.prems in auto)
  then show ?case using Cons.prems [of g ms] x by auto
qed simp

lemma replay_groups_iff:
  assumes "replay_inv st"
  shows "(g, s) \<in> set (rp_groups st) \<longleftrightarrow> s = group_members (map_of (rp_membership st)) g \<and> s \<noteq> {}"
proof -
  have "(g, s) \<in> set (rp_groups st) \<longleftrightarrow> map_of (rp_groups st) g = Some s"
    using assms unfolding replay_inv_def indexes_def by (metis map_of_eq_Some_iff)
  also have "\<dots> \<longleftrightarrow> s = group_members (map_of (rp_membership st)) g \<and> s \<noteq> {}"
    using assms by (auto simp: replay_inv_def indexes_def)
  finally show ?thesis .
qed

lemma group_members_finite: "finite (group_members (map_of m) g)"
  by (rule finite_subset [OF _ finite_dom_map_of [of m]]) (auto simp: group_members_def)

lemma snapshot_groups_iff:
  assumes "replay_inv st"
  shows "(g, ms) \<in> set (rs_groups (replay_snapshot st s)) \<longleftrightarrow>
    ms = sorted_list_of_set (group_members (sp_group (replay_abs st)) g) \<and> 2 \<le> card (group_members (sp_group (replay_abs st)) g)"
proof -
  have "(g, ms) \<in> set (rs_groups (replay_snapshot st s)) \<longleftrightarrow>
      (\<exists>t. (g, t) \<in> set (rp_groups st) \<and> 2 \<le> card t \<and> ms = sorted_list_of_set t)"
    by (force simp: replay_snapshot_def)
  then show ?thesis by (auto simp: replay_groups_iff [OF assms] replay_abs_def)
qed

lemma snapshot_group_of:
  assumes "replay_inv st"
  shows "group_of (rs_groups (replay_snapshot st s)) e =
    (case sp_group (replay_abs st) e of None \<Rightarrow> None
     | Some g \<Rightarrow> if 2 \<le> card (group_members (sp_group (replay_abs st)) g) then Some g else None)"
proof -
  have mem: "e \<in> set (sorted_list_of_set (group_members (sp_group (replay_abs st)) g)) \<longleftrightarrow> sp_group (replay_abs st) e = Some g" for g
  proof -
    have "finite (group_members (sp_group (replay_abs st)) g)" by (simp add: replay_abs_def group_members_finite)
    then show ?thesis by (simp add: group_members_def)
  qed
  show ?thesis
  proof (cases "sp_group (replay_abs st) e")
    case None
    then have "group_of (rs_groups (replay_snapshot st s)) e
        = (if \<exists>ms. (0, ms) \<in> set (rs_groups (replay_snapshot st s)) \<and> e \<in> set ms then Some 0 else None)"
      by (intro group_of_unique) (simp add: snapshot_groups_iff [OF assms] mem)
    then show ?thesis using None by (auto simp: snapshot_groups_iff [OF assms] mem)
  next
    case (Some g)
    then have "group_of (rs_groups (replay_snapshot st s)) e
        = (if \<exists>ms. (g, ms) \<in> set (rs_groups (replay_snapshot st s)) \<and> e \<in> set ms then Some g else None)"
      by (intro group_of_unique) (auto simp: snapshot_groups_iff [OF assms] mem)
    then show ?thesis using Some by (auto simp: snapshot_groups_iff [OF assms] mem)
  qed
qed

lemma effective_decisions_subset: "effective_decisions ds = Inr (eff, s) \<Longrightarrow> set eff \<subseteq> set (latest_decisions ds)"
proof -
  assume "effective_decisions ds = Inr (eff, s)"
  then have "supersede_rounds (length (latest_decisions ds) + 1) (latest_decisions ds) {} = Inr (eff, s)"
    by (simp only: effective_decisions_def Let_def)
  from supersede_rounds_sound [OF this] have "eff = effective_without s (latest_decisions ds)" by (rule conjunct1)
  then show ?thesis by (simp only: effective_without_def) (rule filter_is_subset)
qed

lemma replay_of_effective:
  assumes "set_order ord" "list_all decision_valid ds" "effective_decisions ds = Inr (eff, s)"
  shows "\<exists>st. replay_all ord (sort_key replay_key eff) replay_start = Inr st \<and> replay_inv st
     \<and> replay_abs st = fold spec_step (sort_key replay_key eff) spec_start"
proof -
  have "set eff \<subseteq> set ds"
    using effective_decisions_subset [OF assms(3)] latest_decisions_subset [of ds] by simp
  then have "list_all decision_valid (sort_key replay_key eff)"
    using assms(2) by (auto simp: list_all_iff)
  from replay_all_refines [OF replay_start_ok(1) assms(1) this] show ?thesis by simp
qed

text \<open>
  C25. The replay with its two dictionaries implements the specification with one map: on validated
  decisions it never looks up a missing group, every entity is found in the group the specification
  gives it (groups of one entity disappear), the groups come in the order of their identifiers,
  and blocks, applied and skipped decisions are those of the specification.
\<close>

theorem project_groups_refines_spec:
  assumes "set_order ord" "list_all decision_valid ds" "effective_decisions ds = Inr (eff, s)"
    "spec = fold spec_step (sort_key replay_key eff) spec_start"
  shows "\<exists>snap. project_groups ord ds = Inr snap
     \<and> (\<forall>e. group_of (rs_groups snap) e =
          (case sp_group spec e of None \<Rightarrow> None
           | Some g \<Rightarrow> if 2 \<le> card (group_members (sp_group spec) g) then Some g else None))
     \<and> sorted (map fst (rs_groups snap)) \<and> distinct (map fst (rs_groups snap))
     \<and> set (rs_blocked_pairs snap) = sp_blocked spec
     \<and> rs_applied_decision_ids snap = sp_applied spec \<and> rs_skipped_decision_ids snap = sp_skipped spec"
proof -
  obtain st where st: "replay_all ord (sort_key replay_key eff) replay_start = Inr st" "replay_inv st"
    "replay_abs st = spec"
    using replay_of_effective [OF assms(1-3)] assms(4) by blast
  define snap where "snap = replay_snapshot st s"
  have "project_groups ord ds = Inr snap"
    using assms(3) st(1) by (simp only: project_groups_def bind_res.simps prod.case snap_def)
  moreover have "group_of (rs_groups snap) e =
          (case sp_group spec e of None \<Rightarrow> None
           | Some g \<Rightarrow> if 2 \<le> card (group_members (sp_group spec) g) then Some g else None)" for e
    using snapshot_group_of [OF st(2), of s e] by (simp only: snap_def st(3))
  moreover have keys: "map fst (rs_groups snap) = map fst (filter (\<lambda>(g, s). 2 \<le> card s) (sort_key fst (rp_groups st)))"
    by (simp add: snap_def replay_snapshot_def case_prod_beta comp_def)
  have "sorted (map fst (sort_key fst (rp_groups st)))" by simp
  then have "sorted (map fst (rs_groups snap))" unfolding keys by (rule sorted_filter)
  moreover have "distinct (map fst (sort_key fst (rp_groups st)))"
    using st(2) by (simp add: replay_inv_def indexes_def distinct_map)
  then have "distinct (map fst (rs_groups snap))" unfolding keys by (rule distinct_map_filter)
  moreover have "set (rs_blocked_pairs snap) = sp_blocked spec"
    using st(2) by (simp add: snap_def replay_snapshot_def replay_inv_def st(3) [symmetric] replay_abs_def)
  moreover have "rs_applied_decision_ids snap = sp_applied spec" "rs_skipped_decision_ids snap = sp_skipped spec"
    by (simp_all add: snap_def replay_snapshot_def st(3) [symmetric] replay_abs_def)
  ultimately show ?thesis by blast
qed

lemma sorted_set_order [simp]: "set_order sorted_list_of_set"
  by (simp add: set_order_def)

definition sample_history :: "resolution_decision list" where
  "sample_history = [sample_decision 1 MERGE [7, 9] (Some 100) 10 None, sample_decision 2 MANUAL_BLOCK [8, 9] None 20 None,
     sample_decision 3 MERGE [8, 7] (Some 101) 30 None, sample_decision 4 MANUAL_LINK [5, 6] (Some 100) 40 None,
     sample_decision 5 UNMERGE [6] None 50 None]"

lemma sample_history_facts:
  "list_all decision_valid sample_history" "effective_decisions sample_history = Inr (sample_history, {})"
  "sort_key replay_key sample_history = sample_history"
proof -
  show "list_all decision_valid sample_history"
    by (simp add: sample_history_def decision_valid_def decision_fields_ok_def shape_by_action_def sample_decision_def GROUP_ACTIONS_def)
  show "effective_decisions sample_history = Inr (sample_history, {})" by code_simp
  show "sort_key replay_key sample_history = sample_history" by code_simp
qed

lemma sample_spec_two:
  "fold spec_step (take 2 sample_history) spec_start
     = \<lparr>sp_group = [7 \<mapsto> 100, 9 \<mapsto> 100], sp_blocked = {(8, 9)}, sp_applied = [1, 2], sp_skipped = []\<rparr>"
  by (auto simp: sample_history_def sample_decision_def spec_start_def spec_step_def together_def fun_eq_iff)

lemma sample_spec_three:
  "spec_step (sample_history ! 2)
       \<lparr>sp_group = [7 \<mapsto> 100, 9 \<mapsto> 100], sp_blocked = {(8, 9)}, sp_applied = [1, 2], sp_skipped = []\<rparr>
     = \<lparr>sp_group = [7 \<mapsto> 100, 9 \<mapsto> 100], sp_blocked = {(8, 9)}, sp_applied = [1, 2], sp_skipped = [3]\<rparr>"
  by (simp add: sample_history_def sample_decision_def spec_step_def together_def)

lemma sample_spec_four:
  "spec_step (sample_history ! 3)
       \<lparr>sp_group = [7 \<mapsto> 100, 9 \<mapsto> 100], sp_blocked = {(8, 9)}, sp_applied = [1, 2], sp_skipped = [3]\<rparr>
     = \<lparr>sp_group = [5 \<mapsto> 100, 6 \<mapsto> 100, 7 \<mapsto> 100, 9 \<mapsto> 100], sp_blocked = {(8, 9)},
        sp_applied = [1, 2, 4], sp_skipped = [3]\<rparr>"
  by (simp add: sample_history_def sample_decision_def spec_step_def together_def fun_eq_iff)

lemma sample_spec_five:
  "spec_step (sample_history ! 4)
       \<lparr>sp_group = [5 \<mapsto> 100, 6 \<mapsto> 100, 7 \<mapsto> 100, 9 \<mapsto> 100], sp_blocked = {(8, 9)},
        sp_applied = [1, 2, 4], sp_skipped = [3]\<rparr>
     = \<lparr>sp_group = [5 \<mapsto> 100, 7 \<mapsto> 100, 9 \<mapsto> 100], sp_blocked = {(8, 9)},
        sp_applied = [1, 2, 4, 5], sp_skipped = [3]\<rparr>"
  by (simp add: sample_history_def sample_decision_def spec_step_def fun_eq_iff)

lemma sample_spec:
  "fold spec_step sample_history spec_start
     = \<lparr>sp_group = [5 \<mapsto> 100, 7 \<mapsto> 100, 9 \<mapsto> 100], sp_blocked = {(8, 9)},
        sp_applied = [1, 2, 4, 5], sp_skipped = [3]\<rparr>"
proof -
  have h: "sample_history = take 2 sample_history @ [sample_history ! 2, sample_history ! 3, sample_history ! 4]"
    by (simp add: sample_history_def)
  have "fold spec_step sample_history spec_start
      = fold spec_step (take 2 sample_history @ [sample_history ! 2, sample_history ! 3, sample_history ! 4]) spec_start"
    by (rule arg_cong [OF h, of "\<lambda>x. fold spec_step x spec_start"])
  also have "\<dots> = spec_step (sample_history ! 4) (spec_step (sample_history ! 3) (spec_step (sample_history ! 2)
          (fold spec_step (take 2 sample_history) spec_start)))"
    by (simp only: fold_append fold_simps o_apply)
  finally show ?thesis by (simp only: sample_spec_two sample_spec_three sample_spec_four sample_spec_five)
qed

theorem project_groups_refines_spec_witness:
  "\<exists>snap. project_groups sorted_list_of_set sample_history = Inr snap
     \<and> group_of (rs_groups snap) 9 = Some 100 \<and> group_of (rs_groups snap) 6 = None
     \<and> rs_skipped_decision_ids snap = [3]"
proof -
  have "group_members [5 \<mapsto> 100, 7 \<mapsto> 100, 9 \<mapsto> 100] 100 = {5, 7, 9}"
    by (auto simp: group_members_def split: if_splits)
  then have "2 \<le> card (group_members [5 \<mapsto> 100, 7 \<mapsto> 100, 9 \<mapsto> 100] 100)" by simp
  moreover obtain snap where snap: "project_groups sorted_list_of_set sample_history = Inr snap"
    "\<forall>e. group_of (rs_groups snap) e =
       (case [5 \<mapsto> 100, 7 \<mapsto> 100, 9 \<mapsto> 100] e of None \<Rightarrow> None
        | Some g \<Rightarrow> if 2 \<le> card (group_members [5 \<mapsto> 100, 7 \<mapsto> 100, 9 \<mapsto> 100] g) then Some g else None)"
    "rs_skipped_decision_ids snap = [3]"
    using project_groups_refines_spec [OF sorted_set_order sample_history_facts(1,2) refl]
    unfolding sample_history_facts(3) sample_spec resolution_spec.simps by blast
  ultimately show ?thesis using spec [OF snap(2), of 9] spec [OF snap(2), of 6] by (intro exI [of _ snap]) simp
qed

section \<open>The order of the rows and of the sets does not matter\<close>

lemma replay_snapshot_abs:
  assumes "replay_inv st" "replay_inv st'" "replay_abs st = replay_abs st'"
  shows "replay_snapshot st s = replay_snapshot st' s"
proof -
  have m: "map_of (rp_membership st) = map_of (rp_membership st')"
    using arg_cong [OF assms(3), of sp_group] by (simp add: replay_abs_def)
  have "set (rp_groups st) = set (rp_groups st')"
    using replay_groups_iff [OF assms(1)] replay_groups_iff [OF assms(2)] m by auto
  moreover have d: "distinct (map fst (rp_groups st))" "distinct (map fst (rp_groups st'))"
    using assms(1,2) by (simp_all add: replay_inv_def indexes_def)
  ultimately have "sort_key fst (rp_groups st) = sort_key fst (rp_groups st')"
    by (intro map_sorted_distinct_set_unique [where f = fst]) (auto simp: distinct_map)
  then show ?thesis using assms(3) by (simp add: replay_snapshot_def replay_abs_def)
qed

lemma supersede_rounds_set:
  assumes "set cs = set cs'"
  shows "case supersede_rounds n cs s of Inl e \<Rightarrow> supersede_rounds n cs' s = Inl e
     | Inr (eff, t) \<Rightarrow> supersede_rounds n cs' s = Inr (effective_without t cs', t) \<and> eff = effective_without t cs"
proof (induction n arbitrary: s)
  case (Suc n)
  have same: "superseded_by (effective_without s cs') = superseded_by (effective_without s cs)"
    using assms by (auto simp: superseded_by_iff effective_without_def)
  show ?case
  proof (cases "superseded_by (effective_without s cs) = s")
    case True
    then show ?thesis using same by (simp add: Let_def)
  next
    case False
    have "supersede_rounds (Suc n) cs s = supersede_rounds n cs (superseded_by (effective_without s cs))"
      "supersede_rounds (Suc n) cs' s = supersede_rounds n cs' (superseded_by (effective_without s cs))"
      using False same by (simp_all add: Let_def)
    then show ?thesis using Suc.IH [of "superseded_by (effective_without s cs)"] by presburger
  qed
qed simp

lemma latest_decisions_perm:
  assumes "one_row_per_version ds" "mset ds = mset ds'"
  shows "set (latest_decisions ds) = set (latest_decisions ds')" "length (latest_decisions ds) = length (latest_decisions ds')"
proof -
  have s: "set ds = set ds'" using assms(2) by (rule mset_eq_setD)
  then have "one_row_per_version ds'" using assms(1) by (simp add: one_row_per_version_def)
  then show e: "set (latest_decisions ds) = set (latest_decisions ds')"
    using latest_decisions_set assms(1) s by simp
  have "distinct (latest_decisions ds)" "distinct (latest_decisions ds')"
    using latest_decisions_distinct distinct_map by blast+
  then show "length (latest_decisions ds) = length (latest_decisions ds')"
    using e by (metis distinct_card)
qed

lemma replay_order_unique:
  assumes "distinct (map rd_decision_id xs)" "distinct (map rd_decision_id ys)" "set xs = set ys"
  shows "sort_key replay_key xs = sort_key replay_key ys"
proof -
  have inj: "inj_on replay_key (set xs)"
    using assms(1) by (auto simp: inj_on_def distinct_map replay_key_def)
  have "distinct xs" "distinct ys" using assms(1,2) by (simp_all add: distinct_map)
  then show ?thesis using inj assms(3)
    by (intro map_sorted_distinct_set_unique [where f = replay_key]) (simp_all add: distinct_map)
qed

text \<open>
  The replay is deterministic: with one row for every decision and version, the snapshot does not
  depend on the order in which the rows were read nor on the order in which sets are walked through.
\<close>

theorem project_groups_deterministic:
  assumes "set_order ord" "set_order ord'" "mset ds = mset ds'" "one_row_per_version ds" "list_all decision_valid ds"
  shows "project_groups ord ds = project_groups ord' ds'"
proof -
  define cs where "cs = latest_decisions ds"
  define cs' where "cs' = latest_decisions ds'"
  have cs: "set cs = set cs'" "length cs = length cs'"
    using latest_decisions_perm [OF assms(4,3)] by (simp_all add: cs_def cs'_def)
  have valid': "list_all decision_valid ds'"
    using assms(5) mset_eq_setD [OF assms(3)] by (simp add: list_all_iff)
  have r: "case effective_decisions ds of Inl e \<Rightarrow> effective_decisions ds' = Inl e
     | Inr (eff, t) \<Rightarrow> effective_decisions ds' = Inr (effective_without t cs', t) \<and> eff = effective_without t cs"
    using supersede_rounds_set [OF cs(1), of "length cs + 1" "{}"]
    by (simp only: effective_decisions_def Let_def cs_def [symmetric] cs'_def [symmetric] cs(2))
  show ?thesis
  proof (cases "effective_decisions ds")
    case (Inl e)
    then show ?thesis using r by (simp add: project_groups_def)
  next
    case (Inr p)
    obtain eff t where p: "p = (eff, t)" by fastforce
    define eff' where "eff' = effective_without t cs'"
    have e: "effective_decisions ds = Inr (eff, t)" "effective_decisions ds' = Inr (eff', t)" "eff = effective_without t cs"
      using r Inr p by (simp_all add: eff'_def)
    have "sort_key replay_key eff = sort_key replay_key eff'"
    proof (rule replay_order_unique)
      show "set eff = set eff'" using cs(1) by (simp add: e(3) eff'_def effective_without_def)
      show "distinct (map rd_decision_id eff)"
        unfolding e(3) effective_without_def cs_def by (rule distinct_map_filter [OF latest_decisions_distinct])
      show "distinct (map rd_decision_id eff')"
        unfolding eff'_def effective_without_def cs'_def by (rule distinct_map_filter [OF latest_decisions_distinct])
    qed
    then obtain st st' where
      st: "replay_all ord (sort_key replay_key eff) replay_start = Inr st" "replay_inv st"
        "replay_all ord' (sort_key replay_key eff') replay_start = Inr st'" "replay_inv st'"
        "replay_abs st = replay_abs st'"
      using replay_of_effective [OF assms(1,5) e(1)] replay_of_effective [OF assms(2) valid' e(2)] by auto
    then show ?thesis using replay_snapshot_abs [OF st(2,4,5), of t] e(1,2)
      by (simp only: project_groups_def bind_res.simps prod.case)
  qed
qed

theorem project_groups_deterministic_witness:
  "project_groups sorted_list_of_set sample_history = project_groups (\<lambda>s. rev (sorted_list_of_set s)) (rev sample_history)"
proof (rule project_groups_deterministic)
  show "set_order (\<lambda>s. rev (sorted_list_of_set s))" by (simp add: set_order_def)
  show "one_row_per_version sample_history"
    by (simp add: one_row_per_version_def sample_history_def sample_decision_def)
qed (simp_all add: sample_history_facts(1))

section \<open>Blocks\<close>

text \<open>
  C26. A block holds against auto merges: if two blocked entities are not in one group, an auto merge whose
  target group is empty, or has no member besides those the decision moves, does not bring them
  together.
\<close>

theorem auto_merge_respects_blocks:
  assumes "replay_inv st" "set_order ord" "decision_valid d" "rd_action d = MERGE"
    "(a, b) \<in> rp_blocked st" "\<not> (\<exists>g. sp_group (replay_abs st) a = Some g \<and> sp_group (replay_abs st) b = Some g)"
    "group_members (sp_group (replay_abs st)) (the (rd_canonical_group_id d))
       \<subseteq> together (sp_group (replay_abs st)) (set (rd_member_entity_ids d))"
    "replay_step ord d st = Inr st'"
  shows "\<not> (\<exists>g. sp_group (replay_abs st') a = Some g \<and> sp_group (replay_abs st') b = Some g)"
proof -
  define affected where "affected = together (sp_group (replay_abs st)) (set (rd_member_entity_ids d))"
  obtain gid where gid: "rd_canonical_group_id d = Some gid"
    using decision_valid_facts(2) [OF assms(3)] assms(4) by (auto simp: GROUP_ACTIONS_def)
  have s: "replay_abs st' = spec_step d (replay_abs st)"
    using replay_step_refines [OF assms(1-3)] assms(8) by auto
  show ?thesis
  proof (cases "\<exists>(x, y)\<in>sp_blocked (replay_abs st). x \<in> affected \<and> y \<in> affected")
    case True
    then have "sp_group (replay_abs st') = sp_group (replay_abs st)"
      using s assms(4) by (simp add: spec_step_def Let_def affected_def)
    then show ?thesis using assms(6) by simp
  next
    case False
    then have new: "sp_group (replay_abs st') = (\<lambda>e. if e \<in> affected then Some gid else sp_group (replay_abs st) e)"
      using s assms(4) gid by (simp add: spec_step_def Let_def affected_def cong: if_cong)
    have "\<not> (a \<in> affected \<and> b \<in> affected)" using False assms(5) by (auto simp: replay_abs_def)
    moreover have "e \<in> affected" if "sp_group (replay_abs st) e = Some gid" for e
      using that assms(7) gid by (auto simp: group_members_def affected_def)
    ultimately show ?thesis using assms(6) by (auto simp: new)
  qed
qed

theorem auto_merge_respects_blocks_witness:
  "\<exists>st st'. replay_all sorted_list_of_set (take 2 sample_history) replay_start = Inr st
     \<and> replay_step sorted_list_of_set (sample_history ! 2) st = Inr st' \<and> (8, 9) \<in> rp_blocked st
     \<and> \<not> (\<exists>g. sp_group (replay_abs st') 8 = Some g \<and> sp_group (replay_abs st') 9 = Some g)"
proof -
  define d where "d = sample_history ! 2"
  have d: "d = sample_decision 3 MERGE [8, 7] (Some 101) 30 None" by (simp add: d_def sample_history_def)
  have two: "list_all decision_valid (take 2 sample_history)" "decision_valid d"
    using sample_history_facts(1) by (simp_all add: sample_history_def d_def)
  obtain st where st: "replay_all sorted_list_of_set (take 2 sample_history) replay_start = Inr st" "replay_inv st"
    "replay_abs st = fold spec_step (take 2 sample_history) spec_start"
    using replay_all_refines [OF replay_start_ok(1) sorted_set_order two(1)] by auto
  obtain st' where st': "replay_step sorted_list_of_set d st = Inr st'"
    using replay_step_refines [OF st(2) sorted_set_order two(2)] by auto
  have abs: "replay_abs st = \<lparr>sp_group = [7 \<mapsto> 100, 9 \<mapsto> 100], sp_blocked = {(8, 9)}, sp_applied = [1, 2], sp_skipped = []\<rparr>"
    unfolding st(3) by (rule sample_spec_two)
  have b: "(8, 9) \<in> rp_blocked st" using arg_cong [OF abs, of sp_blocked] by (simp add: replay_abs_def)
  have "\<not> (\<exists>g. sp_group (replay_abs st') 8 = Some g \<and> sp_group (replay_abs st') 9 = Some g)"
    by (rule auto_merge_respects_blocks [OF st(2) sorted_set_order two(2) _ b _ _ st'])
       (auto simp: d sample_decision_def abs group_members_def split: if_splits)
  then show ?thesis using st(1) st' b unfolding d_def by blast
qed

end
