(* ===== verification/Temporal.thy ===== *)
theory Temporal
  imports Contracts "HOL-Library.AList"
begin

text \<open>
  \<open>contracts/temporal.py\<close>: the source axis and the system axis of an entity, the effective time
  derived from them, and the two half-open intervals of every version of an entity. The datetimes of the
  models are instants: \<open>require_utc\<close> has refused the naive ones and those with an offset.
\<close>

section \<open>Times\<close>

datatype time_precision = Second | Minute | Hour | Day | Month | Year | UnknownPrecision
datatype effective_at_basis = SourceEvent | SourceUpdated | Observed

record source_time =
  so_source_event_at :: "ts option"
  so_source_updated_at :: "ts option"
  so_source_timezone_raw :: "ustr option"
  so_source_time_precision :: time_precision
  so_source_time_inferred :: bool
  so_source_time_raw_text :: "ustr option"
  so_source_locale_raw :: "ustr option"

record system_time =
  sy_observed_at :: ts
  sy_fetched_at :: ts
  sy_ingested_at :: ts

definition system_time_ordered :: "system_time \<Rightarrow> system_time res" where
  "system_time_ordered s = (if sy_ingested_at s < sy_fetched_at s then Inl ValueError else Inr s)"

record entity_time =
  et_source_event_at :: "ts option"
  et_source_updated_at :: "ts option"
  et_observed_at :: ts
  et_fetched_at :: ts
  et_ingested_at :: ts
  et_source_timezone_raw :: "ustr option"
  et_source_time_precision :: time_precision
  et_source_time_inferred :: bool

definition source_time_not_fetched_at :: "entity_time \<Rightarrow> entity_time res" where
  "source_time_not_fetched_at e =
     (if et_source_event_at e = Some (et_fetched_at e) then Inl ValueError
      else if et_source_updated_at e = Some (et_fetched_at e) then Inl ValueError
      else if et_ingested_at e < et_fetched_at e then Inl ValueError
      else Inr e)"

definition combine_time :: "source_time \<Rightarrow> system_time \<Rightarrow> entity_time res" where
  "combine_time source system =
     source_time_not_fetched_at
       \<lparr>et_source_event_at = so_source_event_at source, et_source_updated_at = so_source_updated_at source,
        et_observed_at = sy_observed_at system, et_fetched_at = sy_fetched_at system,
        et_ingested_at = sy_ingested_at system, et_source_timezone_raw = so_source_timezone_raw source,
        et_source_time_precision = so_source_time_precision source,
        et_source_time_inferred = so_source_time_inferred source\<rparr>"

record effective_time =
  ef_effective_at :: ts
  ef_effective_at_basis :: effective_at_basis
  ef_source_time_inferred :: bool

definition inferred_when_not_source_event :: "effective_time \<Rightarrow> effective_time res" where
  "inferred_when_not_source_event e =
     (if ef_effective_at_basis e \<noteq> SourceEvent \<and> \<not> ef_source_time_inferred e then Inl ValueError else Inr e)"

definition derive_effective_time :: "source_time \<Rightarrow> system_time \<Rightarrow> effective_time res" where
  "derive_effective_time source system =
     (case so_source_event_at source of
        Some t \<Rightarrow> inferred_when_not_source_event
          \<lparr>ef_effective_at = t, ef_effective_at_basis = SourceEvent, ef_source_time_inferred = so_source_time_inferred source\<rparr>
      | None \<Rightarrow>
          (case so_source_updated_at source of
             Some t \<Rightarrow> inferred_when_not_source_event
               \<lparr>ef_effective_at = t, ef_effective_at_basis = SourceUpdated, ef_source_time_inferred = True\<rparr>
           | None \<Rightarrow> inferred_when_not_source_event
               \<lparr>ef_effective_at = sy_observed_at system, ef_effective_at_basis = Observed, ef_source_time_inferred = True\<rparr>))"

section \<open>Intervals\<close>

record bitemporal_interval =
  bi_valid_from :: ts
  bi_valid_to :: "ts option"
  bi_known_from :: ts
  bi_known_to :: "ts option"

definition interval_ordered :: "bitemporal_interval \<Rightarrow> bitemporal_interval res" where
  "interval_ordered i =
     (if (case bi_valid_to i of None \<Rightarrow> False | Some t \<Rightarrow> t < bi_valid_from i) then Inl ValueError
      else if (case bi_known_to i of None \<Rightarrow> False | Some t \<Rightarrow> t \<le> bi_known_from i) then Inl ValueError
      else Inr i)"

definition interval_contains :: "bitemporal_interval \<Rightarrow> ts \<Rightarrow> ts \<Rightarrow> bool" where
  "interval_contains i as_of_valid_time as_known_at \<longleftrightarrow>
     (bi_valid_from i \<le> as_of_valid_time
        \<and> (case bi_valid_to i of None \<Rightarrow> True | Some t \<Rightarrow> as_of_valid_time < t))
     \<and> (bi_known_from i \<le> as_known_at
        \<and> (case bi_known_to i of None \<Rightarrow> True | Some t \<Rightarrow> as_known_at < t))"

record version_times =
  vt_projection_version :: int
  vt_effective_at :: ts
  vt_ingested_at :: ts

record version_interval =
  vi_projection_version :: int
  vi_interval :: bitemporal_interval

text \<open>The dictionary from a version to the next strictly later value of the axis, filled in order.\<close>

fun fill_later ::
  "(version_times \<Rightarrow> ts) \<Rightarrow> version_times list \<Rightarrow> (int \<times> ts option) list \<Rightarrow> (int \<times> ts option) list" where
  "fill_later axis [] result = result"
| "fill_later axis (v # vs) result =
     fill_later axis vs
       (AList.update (vt_projection_version v) (map_option axis (find (\<lambda>n. axis v < axis n) vs)) result)"

definition next_strictly_later :: "version_times list \<Rightarrow> (version_times \<Rightarrow> ts) \<Rightarrow> (int \<times> ts option) list" where
  "next_strictly_later versions axis =
     fill_later axis (sort_key (\<lambda>v. (axis v, vt_projection_version v)) versions) []"

text \<open>\<open>d[k]\<close> raises on a missing key.\<close>

definition dict_get :: "('k \<times> 'v) list \<Rightarrow> 'k \<Rightarrow> 'v res" where
  "dict_get d k = (case map_of d k of None \<Rightarrow> Inl KeyError | Some v \<Rightarrow> Inr v)"

definition version_interval_of ::
  "(int \<times> ts option) list \<Rightarrow> (int \<times> ts option) list \<Rightarrow> version_times \<Rightarrow> version_interval res" where
  "version_interval_of valid_to known_to v =
     bind_res (dict_get valid_to (vt_projection_version v)) (\<lambda>vt.
     bind_res (dict_get known_to (vt_projection_version v)) (\<lambda>kt.
     bind_res (interval_ordered \<lparr>bi_valid_from = vt_effective_at v, bi_valid_to = vt,
                 bi_known_from = vt_ingested_at v, bi_known_to = kt\<rparr>) (\<lambda>i.
       Inr \<lparr>vi_projection_version = vt_projection_version v, vi_interval = i\<rparr>)))"

fun traverse :: "('a \<Rightarrow> 'b res) \<Rightarrow> 'a list \<Rightarrow> 'b list res" where
  "traverse f [] = Inr []"
| "traverse f (x # xs) = bind_res (f x) (\<lambda>y. bind_res (traverse f xs) (\<lambda>ys. Inr (y # ys)))"

definition build_intervals :: "version_times list \<Rightarrow> version_interval list res" where
  "build_intervals versions =
     (if length (remdups (map vt_projection_version versions)) \<noteq> length versions then Inl ValueError
      else let valid_to = next_strictly_later versions vt_effective_at;
               known_to = next_strictly_later versions vt_ingested_at
           in traverse (version_interval_of valid_to known_to) (sort_key vt_projection_version versions))"

section \<open>The as-of query\<close>

text \<open>
  The reference: at a moment, a version is the latest on an axis if its value has been reached and no other
  version with a value reached has a later one.
\<close>

definition latest_on :: "(version_times \<Rightarrow> ts) \<Rightarrow> version_times list \<Rightarrow> ts \<Rightarrow> version_times \<Rightarrow> bool" where
  "latest_on axis versions t v \<longleftrightarrow> axis v \<le> t \<and> (\<forall>w\<in>set versions. axis w \<le> t \<longrightarrow> axis w \<le> axis v)"

definition open_until :: "(version_times \<Rightarrow> ts) \<Rightarrow> version_times list \<Rightarrow> version_times \<Rightarrow> ts option \<Rightarrow> bool" where
  "open_until axis versions v e \<longleftrightarrow>
     (case e of None \<Rightarrow> \<forall>w\<in>set versions. axis w \<le> axis v
      | Some t \<Rightarrow> axis v < t \<and> t \<in> axis ` set versions \<and> (\<forall>w\<in>set versions. axis w \<le> axis v \<or> t \<le> axis w))"

lemma open_until_latest:
  "v \<in> set versions \<Longrightarrow> open_until axis versions v e \<Longrightarrow>
   (axis v \<le> t \<and> (case e of None \<Rightarrow> True | Some u \<Rightarrow> t < u)) \<longleftrightarrow> latest_on axis versions t v"
  by (cases e) (auto simp: open_until_def latest_on_def)

lemma fill_later_other:
  "k \<notin> vt_projection_version ` set vs \<Longrightarrow> map_of (fill_later axis vs r) k = map_of r k"
  by (induction vs arbitrary: r) (auto simp: update_conv')

lemma find_sorted_later:
  assumes "sorted (map axis (v # vs))"
  shows "open_until axis (v # vs) v (map_option axis (find (\<lambda>n. axis v < axis n) vs))"
proof (cases "find (\<lambda>n. axis v < axis n) vs")
  case None
  moreover have "\<forall>w\<in>set vs. axis w \<le> axis v" using None by (auto simp: find_None_iff not_less)
  ultimately show ?thesis by (simp add: open_until_def)
next
  case (Some n)
  then obtain i where i: "i < length vs" "axis v < axis (vs ! i)" "n = vs ! i" "\<forall>j<i. \<not> axis v < axis (vs ! j)"
    by (auto simp: find_Some_iff)
  have "axis w \<le> axis v \<or> axis n \<le> axis w" if w: "w \<in> set vs" for w
  proof -
    obtain j where j: "j < length vs" "w = vs ! j" using w by (auto simp: in_set_conv_nth)
    show ?thesis
    proof (cases "j < i")
      case True
      then show ?thesis using i(4) j(2) by (auto simp: not_less)
    next
      case False
      then have "map axis vs ! i \<le> map axis vs ! j"
        using assms i(1) j(1) by (intro sorted_nth_mono) auto
      then show ?thesis using i(1,3) j by simp
    qed
  qed
  then show ?thesis using Some i by (auto simp: open_until_def)
qed

lemma fill_later_sorted:
  "sorted (map axis vs) \<Longrightarrow> distinct (map vt_projection_version vs) \<Longrightarrow> v \<in> set vs \<Longrightarrow>
   \<exists>e. map_of (fill_later axis vs r) (vt_projection_version v) = Some e \<and> open_until axis vs v e"
proof (induction vs arbitrary: r)
  case (Cons x vs)
  show ?case
  proof (cases "v = x")
    case True
    have "vt_projection_version x \<notin> vt_projection_version ` set vs" using Cons.prems(2) by simp
    then have "map_of (fill_later axis (x # vs) r) (vt_projection_version x)
        = Some (map_option axis (find (\<lambda>n. axis x < axis n) vs))"
      by (simp add: fill_later_other update_conv')
    then show ?thesis using find_sorted_later [OF Cons.prems(1)] True by blast
  next
    case False
    then have v: "v \<in> set vs" using Cons.prems(3) by simp
    obtain e where e: "map_of (fill_later axis (x # vs) r) (vt_projection_version v) = Some e" "open_until axis vs v e"
      using Cons.IH [OF _ _ v, of "AList.update (vt_projection_version x) (map_option axis (find (\<lambda>n. axis x < axis n) vs)) r"]
        Cons.prems(1,2) by auto
    have "axis x \<le> axis v" using Cons.prems(1) v by simp
    then have "open_until axis (x # vs) v e" using e(2) by (cases e) (auto simp: open_until_def)
    then show ?thesis using e(1) by blast
  qed
qed simp

lemma next_strictly_later_ok:
  assumes "distinct (map vt_projection_version versions)" "v \<in> set versions"
  shows "\<exists>e. dict_get (next_strictly_later versions axis) (vt_projection_version v) = Inr e
     \<and> open_until axis versions v e"
proof -
  define vs where "vs = sort_key (\<lambda>v. (axis v, vt_projection_version v)) versions"
  have "sorted (map (\<lambda>v. (axis v, vt_projection_version v)) vs)" by (simp add: vs_def)
  then have "sorted (map axis vs)" by (induction vs) auto
  moreover have "distinct (map vt_projection_version vs)" using assms(1) by (simp add: vs_def distinct_map)
  moreover have s: "set vs = set versions" by (simp add: vs_def)
  ultimately obtain e where "map_of (fill_later axis vs []) (vt_projection_version v) = Some e" "open_until axis vs v e"
    using fill_later_sorted assms(2) by blast
  moreover have "open_until axis vs v e = open_until axis versions v e" by (simp only: open_until_def s)
  ultimately show ?thesis by (simp add: dict_get_def next_strictly_later_def vs_def)
qed

lemma traverse_ok:
  "(\<And>x. x \<in> set xs \<Longrightarrow> \<exists>y. f x = Inr y \<and> P x y) \<Longrightarrow> \<exists>ys. traverse f xs = Inr ys \<and> list_all2 P xs ys"
proof (induction xs)
  case (Cons x xs)
  obtain y where "f x = Inr y" "P x y" using Cons.prems by force
  moreover obtain ys where "traverse f xs = Inr ys" "list_all2 P xs ys" using Cons by force
  ultimately show ?case by auto
qed simp

definition as_of_correct :: "version_times list \<Rightarrow> version_times \<Rightarrow> version_interval \<Rightarrow> bool" where
  "as_of_correct versions v vi \<longleftrightarrow> vi_projection_version vi = vt_projection_version v
     \<and> (\<forall>t k. interval_contains (vi_interval vi) t k
            \<longleftrightarrow> latest_on vt_effective_at versions t v \<and> latest_on vt_ingested_at versions k v)"

text \<open>
  C27. The intervals answer the as-of query: for versions with different numbers the function returns
  one interval for each, in the order of the versions, and the interval of a version contains a pair of
  moments exactly if the version is the latest one effective at the first and the latest one known at
  the second.
\<close>

theorem build_intervals_as_of:
  assumes "distinct (map vt_projection_version versions)"
  shows "\<exists>ivs. build_intervals versions = Inr ivs
     \<and> list_all2 (as_of_correct versions) (sort_key vt_projection_version versions) ivs"
proof -
  define valid_to where "valid_to = next_strictly_later versions vt_effective_at"
  define known_to where "known_to = next_strictly_later versions vt_ingested_at"
  have "\<exists>vi. version_interval_of valid_to known_to v = Inr vi \<and> as_of_correct versions v vi"
    if v: "v \<in> set (sort_key vt_projection_version versions)" for v
  proof -
    obtain e where e: "dict_get valid_to (vt_projection_version v) = Inr e" "open_until vt_effective_at versions v e"
      using next_strictly_later_ok [OF assms, of v] v by (auto simp: valid_to_def)
    obtain k where k: "dict_get known_to (vt_projection_version v) = Inr k" "open_until vt_ingested_at versions v k"
      using next_strictly_later_ok [OF assms, of v] v by (auto simp: known_to_def)
    have "\<forall>t. e = Some t \<longrightarrow> vt_effective_at v < t" "\<forall>t. k = Some t \<longrightarrow> vt_ingested_at v < t"
      using e(2) k(2) by (auto simp: open_until_def)
    then have "version_interval_of valid_to known_to v = Inr \<lparr>vi_projection_version = vt_projection_version v,
        vi_interval = \<lparr>bi_valid_from = vt_effective_at v, bi_valid_to = e, bi_known_from = vt_ingested_at v, bi_known_to = k\<rparr>\<rparr>"
      using e(1) k(1) by (auto simp: version_interval_of_def interval_ordered_def split: option.split)
    moreover have "v \<in> set versions" using v by simp
    ultimately show ?thesis
      by (simp add: as_of_correct_def interval_contains_def open_until_latest [OF _ e(2), symmetric]
          open_until_latest [OF _ k(2), symmetric])
  qed
  from traverse_ok [of _ "version_interval_of valid_to known_to" "as_of_correct versions", OF this]
  have "\<exists>ivs. traverse (version_interval_of valid_to known_to) (sort_key vt_projection_version versions) = Inr ivs
     \<and> list_all2 (as_of_correct versions) (sort_key vt_projection_version versions) ivs" by blast
  moreover have "length (remdups (map vt_projection_version versions)) = length versions"
    using assms by (metis distinct_remdups_id length_map)
  ultimately show ?thesis
    by (simp add: build_intervals_def Let_def valid_to_def known_to_def)
qed

definition sample_versions :: "version_times list" where
  "sample_versions = [\<lparr>vt_projection_version = 2, vt_effective_at = 10, vt_ingested_at = 60\<rparr>,
     \<lparr>vt_projection_version = 1, vt_effective_at = 20, vt_ingested_at = 30\<rparr>,
     \<lparr>vt_projection_version = 3, vt_effective_at = 20, vt_ingested_at = 70\<rparr>]"

theorem build_intervals_as_of_witness:
  "(\<exists>ivs. build_intervals sample_versions = Inr ivs
     \<and> list_all2 (as_of_correct sample_versions) (sort_key vt_projection_version sample_versions) ivs)
   \<and> map_sum id (map (\<lambda>v. (vi_projection_version v, bi_valid_to (vi_interval v), bi_known_to (vi_interval v))))
       (build_intervals sample_versions) = Inr [(1, None, Some 60), (2, Some 20, Some 70), (3, None, None)]"
proof (rule conjI)
  show "\<exists>ivs. build_intervals sample_versions = Inr ivs
     \<and> list_all2 (as_of_correct sample_versions) (sort_key vt_projection_version sample_versions) ivs"
    by (rule build_intervals_as_of) (simp add: sample_versions_def)
  show "map_sum id (map (\<lambda>v. (vi_projection_version v, bi_valid_to (vi_interval v), bi_known_to (vi_interval v))))
       (build_intervals sample_versions) = Inr [(1, None, Some 60), (2, Some 20, Some 70), (3, None, None)]"
    by code_simp
qed

text \<open>The derived time never fails and never is the time of the fetch unless the source or the snapshot says so.\<close>

lemma derive_effective_time_total:
  "\<exists>e. derive_effective_time source system = Inr e
     \<and> (ef_effective_at_basis e \<noteq> SourceEvent \<longrightarrow> ef_source_time_inferred e)
     \<and> ef_effective_at e \<in> set_option (so_source_event_at source) \<union> set_option (so_source_updated_at source) \<union> {sy_observed_at system}"
  by (auto simp: derive_effective_time_def inferred_when_not_source_event_def split: option.splits)

end
