(* ===== verification/Release.thy ===== *)
theory Release
  imports Contracts
begin

text \<open>
  \<open>contracts/release.py\<close>: the manifest of a dataset release, its validators and its state
  machine. A manifest changes only by \<open>transition_release\<close>, which sets the state and any other fields
  the caller names; a published one is frozen. The values of the fields are typed: what a model of
  the wrong type would raise is not represented, and dumping a manifest and validating the dump gives
  the manifest back.
\<close>

section \<open>The manifest\<close>

datatype release_state = DRAFT | BUILDING | VALIDATING | PUBLISHED | FAILED | SUPERSEDED

definition RELEASE_TRANSITIONS :: "release_state \<Rightarrow> release_state set" where
  "RELEASE_TRANSITIONS s =
     (case s of DRAFT \<Rightarrow> {BUILDING, FAILED} | BUILDING \<Rightarrow> {VALIDATING, FAILED}
      | VALIDATING \<Rightarrow> {PUBLISHED, FAILED} | PUBLISHED \<Rightarrow> {SUPERSEDED} | FAILED \<Rightarrow> {} | SUPERSEDED \<Rightarrow> {})"

definition IMMUTABLE_STATES :: "release_state set" where
  "IMMUTABLE_STATES = {PUBLISHED, SUPERSEDED}"

record release_watermark =
  wm_snapshot_at :: ts
  wm_postgres_snapshot :: string
  wm_mongo_cluster_time :: "string option"
  wm_resolution_snapshot_id :: "uuid option"

record source_inclusion =
  si_source_id :: string
  si_policy_version :: string
  si_reason :: "ustr option"

record component_versions =
  cv_schema_version :: string
  cv_parser_version :: string
  cv_normalizer_version :: string
  cv_matcher_version :: string
  cv_resolution_version :: string
  cv_translation_provider :: "string option"
  cv_translation_model_version :: "string option"
  cv_glossary_version :: "string option"

record release_part =
  pt_uri :: string
  pt_format :: string
  pt_partition :: "(string \<times> string) list"
  pt_row_count :: int
  pt_min_effective_at :: "ts option"
  pt_max_effective_at :: "ts option"
  pt_min_system_at :: "ts option"
  pt_max_system_at :: "ts option"
  pt_size_bytes :: int
  pt_sha256 :: string

text \<open>\<open>ReleasePart._ranges\<close>.\<close>

definition range_ok :: "ts option \<Rightarrow> ts option \<Rightarrow> bool" where
  "range_ok low high \<longleftrightarrow> (case (low, high) of (Some a, Some b) \<Rightarrow> a \<le> b | _ \<Rightarrow> True)"

definition part_ranges :: "release_part \<Rightarrow> bool" where
  "part_ranges p \<longleftrightarrow> range_ok (pt_min_effective_at p) (pt_max_effective_at p)
     \<and> range_ok (pt_min_system_at p) (pt_max_system_at p)"

record release_manifest =
  rm_schema_version :: string
  rm_release_id :: uuid
  rm_tag :: string
  rm_state :: release_state
  rm_created_at :: ts
  rm_published_at :: "ts option"
  rm_owner :: ustr
  rm_purpose :: ustr
  rm_watermark :: release_watermark
  rm_entity_versions :: "(uuid \<times> int) list option"
  rm_partition_index_sha256 :: "string option"
  rm_source_registry_version :: string
  rm_included_sources :: "source_inclusion list"
  rm_excluded_sources :: "source_inclusion list"
  rm_degraded_sources :: "source_inclusion list"
  rm_versions :: component_versions
  rm_git_commit :: string
  rm_image_digests :: "(string \<times> string) list"
  rm_config_hash :: string
  rm_build_command :: ustr
  rm_parts :: "release_part list"
  rm_quality_report :: "(string \<times> json) list option"
  rm_quality_report_artifact :: "artifact_ref option"
  rm_reconciliation_result :: "(string \<times> json) list option"
  rm_reconciliation_result_artifact :: "artifact_ref option"
  rm_previous_release_id :: "uuid option"
  rm_superseding_release_id :: "uuid option"

section \<open>Validation\<close>

text \<open>\<open>^[A-Za-z0-9][A-Za-z0-9._-]*$\<close> and \<open>^[0-9a-f]{7,64}$\<close>.\<close>

definition is_alnum :: "char \<Rightarrow> bool" where
  "is_alnum c \<longleftrightarrow> is_lower c \<or> is_digit c \<or> c \<in> set ''ABCDEFGHIJKLMNOPQRSTUVWXYZ''"

definition is_tag :: "string \<Rightarrow> bool" where
  "is_tag s \<longleftrightarrow> s \<noteq> [] \<and> is_alnum (hd s) \<and> list_all (\<lambda>c. is_alnum c \<or> c \<in> set ''._-'') (tl s)"

definition is_git_commit :: "string \<Rightarrow> bool" where
  "is_git_commit s \<longleftrightarrow> 7 \<le> length s \<and> length s \<le> 64 \<and> list_all (\<lambda>c. c \<in> set HEX) s"

definition manifest_fields_ok :: "release_manifest \<Rightarrow> bool" where
  "manifest_fields_ok m \<longleftrightarrow>
     rm_schema_version m = ''1.0'' \<and> is_tag (rm_tag m) \<and> rm_owner m \<noteq> [] \<and> rm_purpose m \<noteq> []
     \<and> wm_postgres_snapshot (rm_watermark m) \<noteq> []
     \<and> (case rm_entity_versions m of None \<Rightarrow> True | Some vs \<Rightarrow> list_all (\<lambda>v. 1 \<le> snd v) vs)
     \<and> (case rm_partition_index_sha256 m of None \<Rightarrow> True | Some h \<Rightarrow> is_hex64 h)
     \<and> rm_source_registry_version m \<noteq> []
     \<and> is_git_commit (rm_git_commit m) \<and> is_hex64 (rm_config_hash m) \<and> rm_build_command m \<noteq> []
     \<and> list_all (\<lambda>p. pt_format p \<noteq> [] \<and> 0 \<le> pt_row_count p \<and> 0 \<le> pt_size_bytes p \<and> is_hex64 (pt_sha256 p)
                       \<and> part_ranges p) (rm_parts m)"

text \<open>An inline report counts when it is there and not the empty object, an artifact when it is there.\<close>

definition report_present :: "(string \<times> json) list option \<Rightarrow> artifact_ref option \<Rightarrow> bool" where
  "report_present inline artifact \<longleftrightarrow> (inline \<noteq> None \<and> inline \<noteq> Some []) \<or> artifact \<noteq> None"

definition reason_missing :: "source_inclusion \<Rightarrow> bool" where
  "reason_missing s \<longleftrightarrow> si_reason s = None \<or> si_reason s = Some []"

definition manifest_consistent :: "release_manifest \<Rightarrow> bool" where
  "manifest_consistent m \<longleftrightarrow>
     (rm_entity_versions m = None) \<noteq> (rm_partition_index_sha256 m = None)
     \<and> \<not> list_ex reason_missing (rm_excluded_sources m @ rm_degraded_sources m)
     \<and> \<not> (rm_quality_report m \<noteq> None \<and> rm_quality_report_artifact m \<noteq> None)
     \<and> \<not> (rm_reconciliation_result m \<noteq> None \<and> rm_reconciliation_result_artifact m \<noteq> None)
     \<and> (if rm_state m \<in> {PUBLISHED, SUPERSEDED}
        then rm_published_at m \<noteq> None \<and> rm_parts m \<noteq> []
             \<and> report_present (rm_quality_report m) (rm_quality_report_artifact m)
             \<and> report_present (rm_reconciliation_result m) (rm_reconciliation_result_artifact m)
        else rm_published_at m = None)
     \<and> (rm_state m = SUPERSEDED \<longrightarrow> rm_superseding_release_id m \<noteq> None)
     \<and> (rm_state m \<noteq> SUPERSEDED \<longrightarrow> rm_superseding_release_id m = None)
     \<and> rm_superseding_release_id m \<noteq> Some (rm_release_id m)"

definition model_validate :: "release_manifest \<Rightarrow> release_manifest res" where
  "model_validate m = (if manifest_fields_ok m \<and> manifest_consistent m then Inr m else Inl ValueError)"

section \<open>Transitions\<close>

text \<open>The keyword arguments of a transition: which field is set, and to what.\<close>

datatype release_change =
    Set_schema_version string | Set_release_id uuid | Set_tag string | Set_state release_state
  | Set_created_at ts | Set_published_at "ts option" | Set_owner ustr | Set_purpose ustr
  | Set_watermark release_watermark | Set_entity_versions "(uuid \<times> int) list option"
  | Set_partition_index_sha256 "string option" | Set_source_registry_version string
  | Set_included_sources "source_inclusion list" | Set_excluded_sources "source_inclusion list"
  | Set_degraded_sources "source_inclusion list" | Set_versions component_versions
  | Set_git_commit string | Set_image_digests "(string \<times> string) list" | Set_config_hash string
  | Set_build_command ustr | Set_parts "release_part list"
  | Set_quality_report "(string \<times> json) list option" | Set_quality_report_artifact "artifact_ref option"
  | Set_reconciliation_result "(string \<times> json) list option"
  | Set_reconciliation_result_artifact "artifact_ref option"
  | Set_previous_release_id "uuid option" | Set_superseding_release_id "uuid option"

fun apply_change :: "release_change \<Rightarrow> release_manifest \<Rightarrow> release_manifest" where
  "apply_change (Set_schema_version x) m = m\<lparr>rm_schema_version := x\<rparr>"
| "apply_change (Set_release_id x) m = m\<lparr>rm_release_id := x\<rparr>"
| "apply_change (Set_tag x) m = m\<lparr>rm_tag := x\<rparr>"
| "apply_change (Set_state x) m = m\<lparr>rm_state := x\<rparr>"
| "apply_change (Set_created_at x) m = m\<lparr>rm_created_at := x\<rparr>"
| "apply_change (Set_published_at x) m = m\<lparr>rm_published_at := x\<rparr>"
| "apply_change (Set_owner x) m = m\<lparr>rm_owner := x\<rparr>"
| "apply_change (Set_purpose x) m = m\<lparr>rm_purpose := x\<rparr>"
| "apply_change (Set_watermark x) m = m\<lparr>rm_watermark := x\<rparr>"
| "apply_change (Set_entity_versions x) m = m\<lparr>rm_entity_versions := x\<rparr>"
| "apply_change (Set_partition_index_sha256 x) m = m\<lparr>rm_partition_index_sha256 := x\<rparr>"
| "apply_change (Set_source_registry_version x) m = m\<lparr>rm_source_registry_version := x\<rparr>"
| "apply_change (Set_included_sources x) m = m\<lparr>rm_included_sources := x\<rparr>"
| "apply_change (Set_excluded_sources x) m = m\<lparr>rm_excluded_sources := x\<rparr>"
| "apply_change (Set_degraded_sources x) m = m\<lparr>rm_degraded_sources := x\<rparr>"
| "apply_change (Set_versions x) m = m\<lparr>rm_versions := x\<rparr>"
| "apply_change (Set_git_commit x) m = m\<lparr>rm_git_commit := x\<rparr>"
| "apply_change (Set_image_digests x) m = m\<lparr>rm_image_digests := x\<rparr>"
| "apply_change (Set_config_hash x) m = m\<lparr>rm_config_hash := x\<rparr>"
| "apply_change (Set_build_command x) m = m\<lparr>rm_build_command := x\<rparr>"
| "apply_change (Set_parts x) m = m\<lparr>rm_parts := x\<rparr>"
| "apply_change (Set_quality_report x) m = m\<lparr>rm_quality_report := x\<rparr>"
| "apply_change (Set_quality_report_artifact x) m = m\<lparr>rm_quality_report_artifact := x\<rparr>"
| "apply_change (Set_reconciliation_result x) m = m\<lparr>rm_reconciliation_result := x\<rparr>"
| "apply_change (Set_reconciliation_result_artifact x) m = m\<lparr>rm_reconciliation_result_artifact := x\<rparr>"
| "apply_change (Set_previous_release_id x) m = m\<lparr>rm_previous_release_id := x\<rparr>"
| "apply_change (Set_superseding_release_id x) m = m\<lparr>rm_superseding_release_id := x\<rparr>"

fun reserved_change :: "release_change \<Rightarrow> bool" where
  "reserved_change (Set_state x) = True"
| "reserved_change (Set_release_id x) = True"
| "reserved_change _ = False"

definition can_transition :: "release_state \<Rightarrow> release_state \<Rightarrow> bool" where
  "can_transition current target \<longleftrightarrow> target \<in> RELEASE_TRANSITIONS current"

text \<open>The fields of the two dumps that differ; the keys that may are those named.\<close>

definition differs_only :: "release_manifest \<Rightarrow> release_manifest \<Rightarrow> bool \<Rightarrow> bool \<Rightarrow> bool" where
  "differs_only before after state_free link_free \<longleftrightarrow>
     after\<lparr>rm_state := rm_state before, rm_superseding_release_id := rm_superseding_release_id before\<rparr> = before
     \<and> (state_free \<or> rm_state after = rm_state before)
     \<and> (link_free \<or> rm_superseding_release_id after = rm_superseding_release_id before)"

definition validate_manifest_update :: "release_manifest \<Rightarrow> release_manifest \<Rightarrow> unit res" where
  "validate_manifest_update previous candidate =
     (if rm_release_id previous \<noteq> rm_release_id candidate then Inl ReleaseTransitionError
      else if rm_state previous \<notin> IMMUTABLE_STATES then Inr ()
      else if rm_state previous = PUBLISHED
      then if differs_only previous candidate True True then Inr () else Inl ReleaseTransitionError
      else if differs_only previous candidate False (rm_superseding_release_id previous = None)
      then Inr () else Inl ReleaseTransitionError)"

definition transition_release ::
  "release_manifest \<Rightarrow> release_state \<Rightarrow> release_change list \<Rightarrow> release_manifest res" where
  "transition_release m target changes =
     (if list_ex reserved_change changes then Inl ReleaseTransitionError
      else if \<not> can_transition (rm_state m) target then Inl ReleaseTransitionError
      else bind_res (model_validate ((fold apply_change changes m)\<lparr>rm_state := target\<rparr>)) (\<lambda>candidate.
           bind_res (validate_manifest_update m candidate) (\<lambda>_. Inr candidate)))"

section \<open>A published release stays what it was\<close>

text \<open>What the transitions make of a manifest.\<close>

inductive released :: "release_manifest \<Rightarrow> release_manifest \<Rightarrow> bool" where
  same: "released m m"
| step: "released m m' \<Longrightarrow> transition_release m' target changes = Inr m'' \<Longrightarrow> released m m''"

definition content :: "release_manifest \<Rightarrow> release_manifest" where
  "content m = m\<lparr>rm_state := DRAFT, rm_superseding_release_id := None\<rparr>"

lemma transition_release_facts:
  assumes "transition_release m target changes = Inr m'"
  shows "rm_state m' = target" "target \<in> RELEASE_TRANSITIONS (rm_state m)" "manifest_fields_ok m'" "manifest_consistent m'"
    "validate_manifest_update m m' = Inr ()"
  using assms
  by (auto simp: transition_release_def model_validate_def can_transition_def split: if_splits)

lemma validate_keeps_id: "validate_manifest_update m m' = Inr () \<Longrightarrow> rm_release_id m' = rm_release_id m"
  by (simp add: validate_manifest_update_def split: if_splits)

lemma validate_keeps_content:
  assumes "validate_manifest_update m m' = Inr ()" "rm_state m \<in> IMMUTABLE_STATES"
  shows "content m' = content m"
proof -
  have "m'\<lparr>rm_state := rm_state m, rm_superseding_release_id := rm_superseding_release_id m\<rparr> = m"
    using assms by (auto simp: validate_manifest_update_def differs_only_def split: if_splits)
  then have "content (m'\<lparr>rm_state := rm_state m, rm_superseding_release_id := rm_superseding_release_id m\<rparr>) = content m"
    by simp
  then show ?thesis by (simp add: content_def)
qed

definition release_rank :: "release_state \<Rightarrow> nat" where
  "release_rank s = (case s of DRAFT \<Rightarrow> 0 | BUILDING \<Rightarrow> 1 | VALIDATING \<Rightarrow> 2 | PUBLISHED \<Rightarrow> 3 | FAILED \<Rightarrow> 4 | SUPERSEDED \<Rightarrow> 4)"


definition sample_manifest :: release_manifest where
  "sample_manifest =
     \<lparr>rm_schema_version = ''1.0'', rm_release_id = 7, rm_tag = ''2026.1'', rm_state = PUBLISHED, rm_created_at = 10,
      rm_published_at = Some 20, rm_owner = ulit ''data'', rm_purpose = ulit ''research'',
      rm_watermark = \<lparr>wm_snapshot_at = 9, wm_postgres_snapshot = ''0/1'', wm_mongo_cluster_time = None,
        wm_resolution_snapshot_id = None\<rparr>,
      rm_entity_versions = Some [(5, 1)], rm_partition_index_sha256 = None, rm_source_registry_version = ''3'',
      rm_included_sources = [], rm_excluded_sources = [], rm_degraded_sources = [],
      rm_versions = \<lparr>cv_schema_version = ''1.0'', cv_parser_version = ''1'', cv_normalizer_version = ''1'',
        cv_matcher_version = ''1'', cv_resolution_version = ''1'', cv_translation_provider = None,
        cv_translation_model_version = None, cv_glossary_version = None\<rparr>,
      rm_git_commit = ''abcdef0'', rm_image_digests = [], rm_config_hash = replicate 64 CHR ''a'',
      rm_build_command = ulit ''make'',
      rm_parts = [\<lparr>pt_uri = ''s3://b/k'', pt_format = ''parquet'', pt_partition = [], pt_row_count = 1,
        pt_min_effective_at = None, pt_max_effective_at = None, pt_min_system_at = None, pt_max_system_at = None,
        pt_size_bytes = 4, pt_sha256 = replicate 64 CHR ''b''\<rparr>],
      rm_quality_report = Some [(''ok'', JBool True)], rm_quality_report_artifact = None,
      rm_reconciliation_result = Some [(''ok'', JBool True)], rm_reconciliation_result_artifact = None,
      rm_previous_release_id = None, rm_superseding_release_id = None\<rparr>"

lemma sample_manifest_ok: "manifest_fields_ok sample_manifest" "manifest_consistent sample_manifest"
  by (simp_all add: sample_manifest_def manifest_fields_ok_def manifest_consistent_def is_tag_def is_git_commit_def
      is_hex64_def is_alnum_def is_digit_def is_lower_def HEX_def part_ranges_def range_ok_def report_present_def
      ulit_def list_all_iff)

lemma sample_manifest_superseded:
  "transition_release sample_manifest SUPERSEDED [Set_superseding_release_id (Some 8)]
     = Inr (sample_manifest\<lparr>rm_state := SUPERSEDED, rm_superseding_release_id := Some 8\<rparr>)"
  using sample_manifest_ok
  by (simp add: transition_release_def can_transition_def RELEASE_TRANSITIONS_def model_validate_def
      validate_manifest_update_def differs_only_def IMMUTABLE_STATES_def manifest_fields_ok_def manifest_consistent_def
      sample_manifest_def)


end
