(* ===== verification/Pools.thy ===== *)
theory Pools
  imports Audit_Log
begin

text \<open>
  \<open>repositories/pools.py\<close>: the desired state of a worker pool under an optimistic revision, the
  instances with their heartbeats and drain requests, and the scale commands. The current capacity is
  never stored: it is derived from fresh heartbeats, and a command is \<open>applied\<close> only when it agrees.
\<close>

section \<open>Roles and desired state\<close>

definition role_value :: "worker_role \<Rightarrow> string" where
  "role_value r =
     (case r of RoleDiscovery \<Rightarrow> ''discovery'' | RoleFetch \<Rightarrow> ''fetch'' | RoleBrowser \<Rightarrow> ''browser''
      | RoleParse \<Rightarrow> ''parse'' | RoleProjector \<Rightarrow> ''projector'' | RoleTranslation \<Rightarrow> ''translation''
      | RoleExport \<Rightarrow> ''export'' | RoleMaintenance \<Rightarrow> ''maintenance'')"

record pool_desired_state =
  ds_desired_replicas :: int
  ds_desired_concurrency :: int
  ds_max_replicas :: int
  ds_min_replicas :: int
  ds_mode :: string
  ds_resource_profile :: string

definition validate_desired :: "pool_desired_state \<Rightarrow> unit res" where
  "validate_desired d =
     (if ds_min_replicas d < 0 then Inl InvalidValueError
      else if ds_max_replicas d < ds_min_replicas d then Inl InvalidValueError
      else if \<not> (ds_min_replicas d \<le> ds_desired_replicas d \<and> ds_desired_replicas d \<le> ds_max_replicas d)
      then Inl InvalidValueError
      else if ds_desired_concurrency d < 1 then Inl InvalidValueError
      else if ds_mode d \<notin> set POOL_MODES then Inl InvalidValueError
      else Inr ())"

definition pool_state :: "worker_pool \<Rightarrow> (string \<times> json) list" where
  "pool_state p =
     [(''desired_replicas'', JInt (wp_desired_replicas p)), (''desired_concurrency'', JInt (wp_desired_concurrency p)),
      (''min_replicas'', JInt (wp_min_replicas p)), (''max_replicas'', JInt (wp_max_replicas p)),
      (''mode'', JText (wp_mode p)), (''revision'', JInt (wp_revision p))]"

definition get_pool :: "worker_role \<Rightarrow> db \<Rightarrow> worker_pool option" where
  "get_pool role s = find (\<lambda>p. wp_role p = role) (worker_pools s)"

text \<open>\<open>ORDER BY role\<close>: the alphabetical order of the role names.\<close>

definition role_order :: "worker_role \<Rightarrow> nat" where
  "role_order r =
     (case r of RoleBrowser \<Rightarrow> 0 | RoleDiscovery \<Rightarrow> 1 | RoleExport \<Rightarrow> 2 | RoleFetch \<Rightarrow> 3 | RoleMaintenance \<Rightarrow> 4
      | RoleParse \<Rightarrow> 5 | RoleProjector \<Rightarrow> 6 | RoleTranslation \<Rightarrow> 7)"

definition list_pools :: "db \<Rightarrow> worker_pool list" where
  "list_pools s = sort_key (role_order \<circ> wp_role) (worker_pools s)"

definition raise_stale_or_missing_pool :: "worker_role \<Rightarrow> db \<Rightarrow> 'a res" where
  "raise_stale_or_missing_pool role s =
     (case get_pool role s of None \<Rightarrow> Inl NotFoundError | Some _ \<Rightarrow> Inl StaleRevisionError)"

definition pool_updated :: "pool_desired_state \<Rightarrow> ustr \<Rightarrow> ustr \<Rightarrow> ts \<Rightarrow> worker_pool \<Rightarrow> worker_pool" where
  "pool_updated d actor reason current p =
     p\<lparr>wp_desired_replicas := ds_desired_replicas d, wp_desired_concurrency := ds_desired_concurrency d,
       wp_min_replicas := ds_min_replicas d, wp_max_replicas := ds_max_replicas d, wp_mode := ds_mode d,
       wp_resource_profile := ds_resource_profile d, wp_revision := wp_revision p + 1,
       wp_updated_by := Some actor, wp_update_reason := Some reason, wp_updated_at := current\<rparr>"

definition put_pool :: "worker_pool \<Rightarrow> db \<Rightarrow> db" where
  "put_pool p s = s\<lparr>worker_pools := upd_where (\<lambda>x. wp_role x = wp_role p) (\<lambda>_. p) (worker_pools s)\<rparr>"

definition create_pool ::
  "uuid \<Rightarrow> worker_role \<Rightarrow> pool_desired_state \<Rightarrow> ustr \<Rightarrow> ustr \<Rightarrow> ts \<Rightarrow> ts \<Rightarrow> db \<Rightarrow> (worker_pool \<times> db) res" where
  "create_pool audit_id role d actor reason utcnow current s =
     (if get_pool role s \<noteq> None then Inl ConflictError
      else let pool = \<lparr>wp_role = role, wp_desired_replicas = ds_desired_replicas d,
                 wp_desired_concurrency = ds_desired_concurrency d, wp_min_replicas = ds_min_replicas d,
                 wp_max_replicas = ds_max_replicas d, wp_mode = ds_mode d, wp_resource_profile = ds_resource_profile d,
                 wp_revision = 1, wp_updated_by = Some actor, wp_update_reason = Some reason,
                 wp_created_at = current, wp_updated_at = current\<rparr>
           in bind_res (append_audit audit_id utcnow actor ''worker_pool.create'' ''worker_pool''
                          (ResText (role_value role)) None (Some (JObj (pool_state pool @ [(''reason'', JStr reason)])))
                          None None (Some (Aware current 0)) (s\<lparr>worker_pools := worker_pools s @ [pool]\<rparr>))
                (\<lambda>(_, s'). Inr (pool, s')))"

definition upsert_pool ::
  "uuid \<Rightarrow> worker_role \<Rightarrow> pool_desired_state \<Rightarrow> ustr option \<Rightarrow> ustr option \<Rightarrow> int option \<Rightarrow> ts \<Rightarrow> datetime option \<Rightarrow> db
   \<Rightarrow> (worker_pool \<times> db) res" where
  "upsert_pool audit_id role d actor reason expected utcnow now s =
     bind_res (require_audit_context actor reason) (\<lambda>(actor, reason).
     bind_res (validate_desired d) (\<lambda>_.
     bind_res (resolve_now utcnow now) (\<lambda>current.
       case expected of
         None \<Rightarrow> create_pool audit_id role d actor reason utcnow current s
       | Some r \<Rightarrow>
           let before = map_option (JObj \<circ> pool_state) (get_pool role s)
           in case find (\<lambda>p. wp_role p = role \<and> wp_revision p = r) (worker_pools s) of
                None \<Rightarrow> raise_stale_or_missing_pool role s
              | Some p \<Rightarrow>
                  let p' = pool_updated d actor reason current p
                  in bind_res (append_audit audit_id utcnow actor ''worker_pool.update'' ''worker_pool''
                                 (ResText (role_value role)) before
                                 (Some (JObj (pool_state p' @ [(''reason'', JStr reason)]))) None None
                                 (Some (Aware current 0)) (put_pool p' s))
                       (\<lambda>(_, s'). Inr (p', s')))))"

section \<open>Instances\<close>

definition INSTANCE_TRANSITIONS :: "instance_status \<Rightarrow> instance_status set" where
  "INSTANCE_TRANSITIONS st =
     (case st of Starting \<Rightarrow> {Ready, Stopped, Stale} | Ready \<Rightarrow> {Draining, Stopped, Stale}
      | Draining \<Rightarrow> {Ready, Stopped, Stale} | Stale \<Rightarrow> {Ready, Draining, Stopped} | Stopped \<Rightarrow> {})"

definition instance_status_of :: "string \<Rightarrow> instance_status option" where
  "instance_status_of st =
     (if st = ''starting'' then Some Starting else if st = ''ready'' then Some Ready
      else if st = ''draining'' then Some Draining else if st = ''stopped'' then Some Stopped
      else if st = ''stale'' then Some Stale else None)"

definition get_instance :: "uuid \<Rightarrow> db \<Rightarrow> worker_instance option" where
  "get_instance i s = find (\<lambda>x. wi_instance_id x = i) (worker_instances s)"

definition lock_instance :: "uuid \<Rightarrow> db \<Rightarrow> worker_instance res" where
  "lock_instance i s = (case get_instance i s of None \<Rightarrow> Inl NotFoundError | Some x \<Rightarrow> Inr x)"

definition put_instance :: "worker_instance \<Rightarrow> db \<Rightarrow> db" where
  "put_instance x s =
     s\<lparr>worker_instances := upd_where (\<lambda>y. wi_instance_id y = wi_instance_id x) (\<lambda>_. x) (worker_instances s)\<rparr>"

text \<open>The foreign key on \<open>worker_pools\<close>, the primary key and the CHECK refuse the row.\<close>

definition register_instance ::
  "uuid \<Rightarrow> worker_role \<Rightarrow> string \<Rightarrow> int \<Rightarrow> string option \<Rightarrow> string option \<Rightarrow> string option \<Rightarrow> int option \<Rightarrow> ts \<Rightarrow> datetime option
   \<Rightarrow> db \<Rightarrow> (worker_instance \<times> db) res" where
  "register_instance i role version slots_total deployment container_id hostname pool_revision utcnow now s =
     bind_res (resolve_now utcnow now) (\<lambda>current.
       let row = \<lparr>wi_instance_id = i, wi_role = role, wi_status = Starting, wi_deployment = deployment,
                  wi_container_id = container_id, wi_hostname = hostname, wi_version = version,
                  wi_slots_total = slots_total, wi_slots_active = 0, wi_active_leases = 0,
                  wi_pool_revision = pool_revision, wi_drain_requested_at = None, wi_started_at = current,
                  wi_last_heartbeat_at = current, wi_stopped_at = None, wi_created_at = current,
                  wi_updated_at = current\<rparr>
       in if \<not> worker_instance_checks row \<or> get_pool role s = None \<or> get_instance i s \<noteq> None
          then Inl IntegrityError
          else Inr (row, s\<lparr>worker_instances := worker_instances s @ [row]\<rparr>))"

definition instance_beaten :: "int option \<Rightarrow> int \<Rightarrow> int \<Rightarrow> int option \<Rightarrow> ts \<Rightarrow> worker_instance \<Rightarrow> worker_instance" where
  "instance_beaten slots_total slots_active active_leases pool_revision current x =
     x\<lparr>wi_status := (if wi_status x = Stale
                     then if wi_drain_requested_at x \<noteq> None then Draining else Ready else wi_status x),
       wi_slots_active := slots_active, wi_active_leases := active_leases,
       wi_slots_total := (case slots_total of None \<Rightarrow> wi_slots_total x | Some n \<Rightarrow> n),
       wi_pool_revision := pool_revision, wi_last_heartbeat_at := current, wi_updated_at := current\<rparr>"

definition heartbeat_instance ::
  "uuid \<Rightarrow> int option \<Rightarrow> int \<Rightarrow> int \<Rightarrow> int option \<Rightarrow> ts \<Rightarrow> datetime option \<Rightarrow> db \<Rightarrow> (worker_instance \<times> db) res" where
  "heartbeat_instance i slots_total slots_active active_leases pool_revision utcnow now s =
     bind_res (resolve_now utcnow now) (\<lambda>current.
     bind_res (lock_instance i s) (\<lambda>x.
       if wi_status x = Stopped then Inl InvalidTransitionError
       else let x' = instance_beaten slots_total slots_active active_leases pool_revision current x
            in if \<not> worker_instance_checks x' then Inl IntegrityError else Inr (x', put_instance x' s)))"

definition instance_moved :: "instance_status \<Rightarrow> ts \<Rightarrow> worker_instance \<Rightarrow> worker_instance" where
  "instance_moved st current x =
     x\<lparr>wi_status := st, wi_updated_at := current,
       wi_drain_requested_at := (if st = Draining then Some current else if st = Ready then None
                                 else wi_drain_requested_at x),
       wi_stopped_at := (if st = Stopped then Some current else wi_stopped_at x),
       wi_slots_active := (if st = Stopped then 0 else wi_slots_active x),
       wi_active_leases := (if st = Stopped then 0 else wi_active_leases x)\<rparr>"

definition set_instance_status ::
  "uuid \<Rightarrow> string \<Rightarrow> ts \<Rightarrow> datetime option \<Rightarrow> db \<Rightarrow> (worker_instance \<times> db) res" where
  "set_instance_status i status utcnow now s =
     bind_res (resolve_now utcnow now) (\<lambda>current.
     bind_res (lock_instance i s) (\<lambda>x.
       case instance_status_of status of
         None \<Rightarrow> Inl InvalidTransitionError
       | Some st \<Rightarrow>
           if wi_status x = st then Inr (x, s)
           else if st \<notin> INSTANCE_TRANSITIONS (wi_status x) then Inl InvalidTransitionError
           else Inr (instance_moved st current x, put_instance (instance_moved st current x) s)))"

definition mark_draining :: "uuid \<Rightarrow> ts \<Rightarrow> datetime option \<Rightarrow> db \<Rightarrow> (worker_instance \<times> db) res" where
  "mark_draining i utcnow now s = set_instance_status i ''draining'' utcnow now s"

definition mark_stopped :: "uuid \<Rightarrow> ts \<Rightarrow> datetime option \<Rightarrow> db \<Rightarrow> (worker_instance \<times> db) res" where
  "mark_stopped i utcnow now s = set_instance_status i ''stopped'' utcnow now s"

definition mark_ready :: "uuid \<Rightarrow> ts \<Rightarrow> datetime option \<Rightarrow> db \<Rightarrow> (worker_instance \<times> db) res" where
  "mark_ready i utcnow now s = set_instance_status i ''ready'' utcnow now s"

definition instance_silent :: "duration \<Rightarrow> ts \<Rightarrow> worker_instance \<Rightarrow> bool" where
  "instance_silent ttl current x \<longleftrightarrow>
     wi_status x \<in> {Starting, Ready, Draining} \<and> wi_last_heartbeat_at x < current - ttl"

definition mark_stale_instances :: "duration \<Rightarrow> ts \<Rightarrow> datetime option \<Rightarrow> db \<Rightarrow> (uuid list \<times> db) res" where
  "mark_stale_instances ttl utcnow now s =
     bind_res (resolve_now utcnow now) (\<lambda>current.
       Inr (map wi_instance_id (filter (instance_silent ttl current) (worker_instances s)),
            s\<lparr>worker_instances := upd_where (instance_silent ttl current)
                (\<lambda>x. x\<lparr>wi_status := Stale, wi_updated_at := current\<rparr>) (worker_instances s)\<rparr>))"

section \<open>Capacity and scale commands\<close>

record observed_capacity =
  oc_ready_replicas :: int
  oc_total_slots :: int
  oc_min_pool_revision :: "int option"

definition instance_fresh :: "worker_role \<Rightarrow> duration \<Rightarrow> ts \<Rightarrow> worker_instance \<Rightarrow> bool" where
  "instance_fresh role ttl current x \<longleftrightarrow>
     wi_role x = role \<and> wi_status x = Ready \<and> current - ttl \<le> wi_last_heartbeat_at x"

text \<open>The aggregate \<open>min\<close> leaves NULLs out, and is NULL over no value.\<close>

definition observe_capacity ::
  "worker_role \<Rightarrow> duration \<Rightarrow> ts \<Rightarrow> datetime option \<Rightarrow> db \<Rightarrow> observed_capacity res" where
  "observe_capacity role ttl utcnow now s =
     bind_res (resolve_now utcnow now) (\<lambda>current.
       let rows = filter (instance_fresh role ttl current) (worker_instances s);
           revs = List.map_filter wi_pool_revision rows
       in Inr \<lparr>oc_ready_replicas = int (length rows), oc_total_slots = sum_list (map wi_slots_total rows),
               oc_min_pool_revision = (if revs = [] then None else Some (Min (set revs)))\<rparr>)"

definition SCALE_COMMAND_TRANSITIONS :: "scale_status \<Rightarrow> scale_status set" where
  "SCALE_COMMAND_TRANSITIONS st =
     (case st of ScRequested \<Rightarrow> {ScDraining, ScFailed, ScSuperseded}
      | ScDraining \<Rightarrow> {ScAwaitingManualApply, ScApplying, ScFailed, ScSuperseded}
      | ScAwaitingManualApply \<Rightarrow> {ScApplying, ScApplied, ScFailed, ScSuperseded}
      | ScApplying \<Rightarrow> {ScApplied, ScFailed, ScSuperseded}
      | ScApplied \<Rightarrow> {} | ScFailed \<Rightarrow> {} | ScSuperseded \<Rightarrow> {})"

definition SCALE_COMMAND_TERMINAL :: "scale_status set" where
  "SCALE_COMMAND_TERMINAL = {ScApplied, ScFailed, ScSuperseded}"

definition scale_status_of :: "string \<Rightarrow> scale_status option" where
  "scale_status_of st =
     (if st = ''requested'' then Some ScRequested else if st = ''draining'' then Some ScDraining
      else if st = ''awaiting_manual_apply'' then Some ScAwaitingManualApply
      else if st = ''applying'' then Some ScApplying else if st = ''applied'' then Some ScApplied
      else if st = ''failed'' then Some ScFailed else if st = ''superseded'' then Some ScSuperseded else None)"

fun decimal_digits :: "nat \<Rightarrow> nat \<Rightarrow> string" where
  "decimal_digits 0 n = []"
| "decimal_digits (Suc k) n =
     (if n < 10 then [''0123456789'' ! n] else decimal_digits k (n div 10) @ [''0123456789'' ! (n mod 10)])"

definition cli_command :: "worker_role \<Rightarrow> int \<Rightarrow> string" where
  "cli_command role n =
     ''docker compose up -d --no-recreate --scale worker-'' @ role_value role @ ''='' @ decimal_digits (nat n + 1) (nat n)"

definition find_command :: "string \<Rightarrow> db \<Rightarrow> scale_command option" where
  "find_command k s = find (\<lambda>c. sc_idempotency_key c = k) (scale_commands s)"

definition get_scale_command :: "uuid \<Rightarrow> db \<Rightarrow> scale_command option" where
  "get_scale_command i s = find (\<lambda>c. sc_command_id c = i) (scale_commands s)"

definition scaled_state :: "worker_pool \<Rightarrow> json" where
  "scaled_state p = JObj [(''desired_replicas'', JInt (wp_desired_replicas p)),
     (''desired_concurrency'', JInt (wp_desired_concurrency p)), (''revision'', JInt (wp_revision p))]"

definition pool_scaled :: "int \<Rightarrow> int \<Rightarrow> ustr \<Rightarrow> ustr \<Rightarrow> ts \<Rightarrow> worker_pool \<Rightarrow> worker_pool" where
  "pool_scaled replicas concurrency actor reason current p =
     p\<lparr>wp_desired_replicas := replicas, wp_desired_concurrency := concurrency, wp_revision := wp_revision p + 1,
       wp_updated_by := Some actor, wp_update_reason := Some reason, wp_updated_at := current\<rparr>"

definition command_open :: "worker_role \<Rightarrow> scale_command \<Rightarrow> bool" where
  "command_open role c \<longleftrightarrow> sc_role c = role \<and> sc_status c \<notin> SCALE_COMMAND_TERMINAL"

definition command_superseded :: "ts \<Rightarrow> scale_command \<Rightarrow> scale_command" where
  "command_superseded current c =
     c\<lparr>sc_status := ScSuperseded, sc_result := Some (ulit ''superseded by newer command''), sc_updated_at := current\<rparr>"

definition record_scale ::
  "uuid \<Rightarrow> uuid \<Rightarrow> worker_role \<Rightarrow> int \<Rightarrow> int \<Rightarrow> int \<Rightarrow> ustr \<Rightarrow> ustr \<Rightarrow> string \<Rightarrow> string \<Rightarrow> string option \<Rightarrow> ts \<Rightarrow> ts
   \<Rightarrow> worker_pool \<Rightarrow> db \<Rightarrow> (scale_command \<times> db) res" where
  "record_scale command_id audit_id role expected replicas concurrency actor reason key orchestrator request_id
     utcnow current pool s =
     (let pool' = pool_scaled replicas concurrency actor reason current pool;
          s1 = put_pool pool' s;
          s2 = s1\<lparr>scale_commands := upd_where (command_open role) (command_superseded current) (scale_commands s1)\<rparr>
      in bind_res (append_audit audit_id utcnow actor ''worker_pool.scale'' ''worker_pool'' (ResText (role_value role))
                     (Some (scaled_state pool)) (Some (scaled_state pool')) request_id (Some key)
                     (Some (Aware current 0)) s2)
         (\<lambda>(audit, s3).
            let command = \<lparr>sc_command_id = command_id, sc_idempotency_key = key, sc_role = role,
                  sc_expected_pool_revision = expected, sc_applied_pool_revision = wp_revision pool',
                  sc_requested_replicas = replicas, sc_requested_concurrency = concurrency, sc_status = ScRequested,
                  sc_cli_command = (if orchestrator = ''compose'' then Some (cli_command role replicas) else None),
                  sc_result = None, sc_actor = actor, sc_reason = reason, sc_audit_id = a_audit_id audit,
                  sc_audit_created_at = a_created_at audit, sc_created_at = current, sc_updated_at = current,
                  sc_applied_at = None\<rparr>
            in if get_scale_command command_id s3 \<noteq> None then Inl IntegrityError
               else Inr (command, s3\<lparr>scale_commands := scale_commands s3 @ [command]\<rparr>)))"

text \<open>
  The second look at the idempotency key, after the wait for the row lock, sees what a concurrent
  transaction may have committed meanwhile; in a sequence of transactions it repeats the first look.
\<close>

definition request_scale ::
  "uuid \<Rightarrow> uuid \<Rightarrow> worker_role \<Rightarrow> int \<Rightarrow> int \<Rightarrow> int \<Rightarrow> ustr \<Rightarrow> ustr \<Rightarrow> string \<Rightarrow> string \<Rightarrow> string option \<Rightarrow> ts
   \<Rightarrow> datetime option \<Rightarrow> db \<Rightarrow> (scale_command \<times> db) res" where
  "request_scale command_id audit_id role expected replicas concurrency actor reason key orchestrator request_id
     utcnow now s =
     (if orchestrator \<notin> {''compose'', ''swarm''} then Inl ValueError
      else if replicas < 0 then Inl InvalidValueError
      else if concurrency < 1 then Inl InvalidValueError
      else case find_command key s of
             Some existing \<Rightarrow> Inr (existing, s)
           | None \<Rightarrow> bind_res (resolve_now utcnow now) (\<lambda>current.
               case find (\<lambda>p. wp_role p = role \<and> wp_revision p = expected) (worker_pools s) of
                 None \<Rightarrow>
                   (case find_command key s of
                      Some concurrent \<Rightarrow> Inr (concurrent, s)
                    | None \<Rightarrow> raise_stale_or_missing_pool role s)
               | Some pool \<Rightarrow>
                   if \<not> (wp_min_replicas pool \<le> replicas \<and> replicas \<le> wp_max_replicas pool)
                   then Inl InvalidValueError
                   else record_scale command_id audit_id role expected replicas concurrency actor reason key
                          orchestrator request_id utcnow current pool s))"

definition capacity_matches :: "scale_command \<Rightarrow> observed_capacity \<Rightarrow> bool" where
  "capacity_matches c oc \<longleftrightarrow>
     oc_ready_replicas oc = sc_requested_replicas c
     \<and> oc_total_slots oc = sc_requested_replicas c * sc_requested_concurrency c
     \<and> ((case oc_min_pool_revision oc of None \<Rightarrow> False | Some r \<Rightarrow> sc_applied_pool_revision c \<le> r)
        \<or> sc_requested_replicas c = 0)"

definition command_moved :: "scale_status \<Rightarrow> ustr option \<Rightarrow> ts \<Rightarrow> scale_command \<Rightarrow> scale_command" where
  "command_moved st result current c =
     c\<lparr>sc_status := st, sc_result := result, sc_updated_at := current,
       sc_applied_at := (if st = ScApplied then Some current else sc_applied_at c)\<rparr>"

definition transition_scale_command ::
  "uuid \<Rightarrow> string \<Rightarrow> ustr option \<Rightarrow> duration \<Rightarrow> ts \<Rightarrow> datetime option \<Rightarrow> db \<Rightarrow> (scale_command \<times> db) res" where
  "transition_scale_command i status result ttl utcnow now s =
     bind_res (resolve_now utcnow now) (\<lambda>current.
       case get_scale_command i s of
         None \<Rightarrow> Inl NotFoundError
       | Some c \<Rightarrow>
           (case scale_status_of status of
              None \<Rightarrow> Inl InvalidTransitionError
            | Some st \<Rightarrow>
                if st \<notin> SCALE_COMMAND_TRANSITIONS (sc_status c) then Inl InvalidTransitionError
                else bind_res
                  (if st = ScApplied
                   then bind_res (observe_capacity (sc_role c) ttl utcnow (Some (Aware current 0)) s) (\<lambda>oc.
                          if capacity_matches c oc then Inr () else Inl InvalidTransitionError)
                   else Inr ())
                  (\<lambda>_. let c' = command_moved st result current c
                       in Inr (c', s\<lparr>scale_commands :=
                                upd_where (\<lambda>x. sc_command_id x = i) (\<lambda>_. c') (scale_commands s)\<rparr>))))"

section \<open>Runs and the invariant\<close>

datatype pool_op =
    PUpsert uuid worker_role pool_desired_state "ustr option" "ustr option" "int option" ts "datetime option"
  | PRegister uuid worker_role string int "string option" "string option" "string option" "int option" ts "datetime option"
  | PBeat uuid "int option" int int "int option" ts "datetime option"
  | PStatus uuid string ts "datetime option"
  | PStale duration ts "datetime option"
  | PScale uuid uuid worker_role int int int ustr ustr string string "string option" ts "datetime option"
  | PMove uuid string "ustr option" duration ts "datetime option"

fun pool_step :: "pool_op \<Rightarrow> db \<Rightarrow> db res" where
  "pool_step (PUpsert a role d actor reason expected c now) s = drop_ret (upsert_pool a role d actor reason expected c now s)"
| "pool_step (PRegister i role v n dep con host pr c now) s = drop_ret (register_instance i role v n dep con host pr c now s)"
| "pool_step (PBeat i total_slots n l pr c now) s = drop_ret (heartbeat_instance i total_slots n l pr c now s)"
| "pool_step (PStatus i st c now) s = drop_ret (set_instance_status i st c now s)"
| "pool_step (PStale ttl c now) s = drop_ret (mark_stale_instances ttl c now s)"
| "pool_step (PScale ci ai role e n k actor reason key orc req c now) s =
     drop_ret (request_scale ci ai role e n k actor reason key orc req c now s)"
| "pool_step (PMove i st r ttl c now) s = drop_ret (transition_scale_command i st r ttl c now s)"

definition instance_ok :: "worker_instance \<Rightarrow> bool" where
  "instance_ok x \<longleftrightarrow> worker_instance_checks x
     \<and> (wi_drain_requested_at x \<noteq> None \<longrightarrow> wi_status x \<in> {Draining, Stale, Stopped})
     \<and> (wi_status x = Draining \<longrightarrow> wi_drain_requested_at x \<noteq> None)
     \<and> (wi_status x = Stopped \<longrightarrow> wi_slots_active x = 0 \<and> wi_active_leases x = 0 \<and> wi_stopped_at x \<noteq> None)"

definition instances_inv :: "db \<Rightarrow> bool" where
  "instances_inv s \<longleftrightarrow> distinct (map wi_instance_id (worker_instances s)) \<and> list_all instance_ok (worker_instances s)
     \<and> (\<forall>x\<in>set (worker_instances s). wi_role x \<in> wp_role ` set (worker_pools s))"

definition commands_inv :: "db \<Rightarrow> bool" where
  "commands_inv s \<longleftrightarrow>
     distinct (map wp_role (worker_pools s)) \<and> list_all worker_pool_checks (worker_pools s)
     \<and> distinct (map sc_command_id (scale_commands s)) \<and> distinct (map sc_idempotency_key (scale_commands s))
     \<and> (\<forall>role. length (filter (command_open role) (scale_commands s)) \<le> 1)
     \<and> (\<forall>c\<in>set (scale_commands s). \<exists>p\<in>set (worker_pools s).
          wp_role p = sc_role c \<and> sc_applied_pool_revision c \<le> wp_revision p)"

definition pools_inv :: "db \<Rightarrow> bool" where
  "pools_inv s \<longleftrightarrow> instances_inv s \<and> commands_inv s"

text \<open>What an operation does to the pools: nothing, a new one, or the next revision of one.\<close>

lemma get_poolD: "get_pool role s = Some p \<Longrightarrow> p \<in> set (worker_pools s) \<and> wp_role p = role"
  by (auto simp: get_pool_def dest: find_SomeD)

lemma get_pool_None: "get_pool role s = None \<longleftrightarrow> role \<notin> wp_role ` set (worker_pools s)"
  by (auto simp: get_pool_def find_None_iff image_iff)

lemma get_instanceD: "get_instance i s = Some x \<Longrightarrow> x \<in> set (worker_instances s) \<and> wi_instance_id x = i"
  by (auto simp: get_instance_def dest: find_SomeD)

lemma get_instance_None: "get_instance i s = None \<longleftrightarrow> i \<notin> wi_instance_id ` set (worker_instances s)"
  by (auto simp: get_instance_def find_None_iff image_iff)

lemma audit_keeps_pools:
  assumes "append_audit i c actor action rtype rid before after req idem now s = Inr (a, s')"
  shows "worker_pools s' = worker_pools s" "worker_instances s' = worker_instances s" "scale_commands s' = scale_commands s"
  using append_audit_cases [OF assms] by auto

definition newer_pool :: "worker_pool \<Rightarrow> db \<Rightarrow> bool" where
  "newer_pool p' s \<longleftrightarrow> worker_pool_checks p'
     \<and> (\<exists>p\<in>set (worker_pools s). wp_role p = wp_role p' \<and> wp_revision p' = wp_revision p + 1)"

lemma pool_upsert_cases:
  assumes "upsert_pool a role d actor reason expected c now s = Inr (p', s')"
  shows "worker_instances s' = worker_instances s \<and> scale_commands s' = scale_commands s \<and> worker_pool_checks p'
     \<and> wp_role p' = role
     \<and> (case expected of
          None \<Rightarrow> role \<notin> wp_role ` set (worker_pools s) \<and> worker_pools s' = worker_pools s @ [p']
        | Some r \<Rightarrow> newer_pool p' s \<and> wp_revision p' = r + 1
            \<and> worker_pools s' = upd_where (\<lambda>x. wp_role x = role) (\<lambda>_. p') (worker_pools s))"
proof -
  obtain who why current where v: "validate_desired d = Inr ()"
    and op: "(case expected of
         None \<Rightarrow> create_pool a role d who why c current s
       | Some r \<Rightarrow>
           let before = map_option (JObj \<circ> pool_state) (get_pool role s)
           in case find (\<lambda>p. wp_role p = role \<and> wp_revision p = r) (worker_pools s) of
                None \<Rightarrow> raise_stale_or_missing_pool role s
              | Some p \<Rightarrow>
                  let p' = pool_updated d who why current p
                  in bind_res (append_audit a c who ''worker_pool.update'' ''worker_pool''
                                 (ResText (role_value role)) before
                                 (Some (JObj (pool_state p' @ [(''reason'', JStr why)]))) None None
                                 (Some (Aware current 0)) (put_pool p' s))
                       (\<lambda>(_, s'). Inr (p', s'))) = Inr (p', s')"
    using assms by (auto simp: upsert_pool_def)
  have ok: "ds_min_replicas d \<ge> 0" "ds_min_replicas d \<le> ds_max_replicas d" "ds_min_replicas d \<le> ds_desired_replicas d"
    "ds_desired_replicas d \<le> ds_max_replicas d" "1 \<le> ds_desired_concurrency d" "ds_mode d \<in> set POOL_MODES"
    using v by (auto simp: validate_desired_def split: if_splits)
  show ?thesis
  proof (cases expected)
    case None
    then show ?thesis using op ok get_pool_None [of role s]
      by (auto simp: create_pool_def Let_def worker_pool_checks_def dest: audit_keeps_pools split: if_splits)
  next
    case (Some r)
    then obtain p where p: "find (\<lambda>p. wp_role p = role \<and> wp_revision p = r) (worker_pools s) = Some p"
      using op by (auto simp: raise_stale_or_missing_pool_def Let_def split: option.splits)
    then have "p \<in> set (worker_pools s)" "wp_role p = role" "wp_revision p = r" by (auto dest: find_SomeD)
    then show ?thesis using Some p op ok
      by (auto simp: Let_def pool_updated_def put_pool_def newer_pool_def worker_pool_checks_def dest: audit_keeps_pools)
  qed
qed

lemma commands_pool_newer:
  assumes "commands_inv s" "newer_pool p' s"
    "worker_pools s' = upd_where (\<lambda>x. wp_role x = wp_role p') (\<lambda>_. p') (worker_pools s)"
  shows "distinct (map wp_role (worker_pools s'))" "list_all worker_pool_checks (worker_pools s')"
    "wp_role ` set (worker_pools s') = wp_role ` set (worker_pools s)" "p' \<in> set (worker_pools s')"
    "\<And>p role. p \<in> set (worker_pools s) \<Longrightarrow> \<exists>q\<in>set (worker_pools s'). wp_role q = wp_role p \<and> wp_revision p \<le> wp_revision q"
proof -
  have d: "distinct (map wp_role (worker_pools s))" using assms(1) by (simp add: commands_inv_def)
  obtain p0 where p0: "p0 \<in> set (worker_pools s)" "wp_role p0 = wp_role p'" "wp_revision p' = wp_revision p0 + 1"
    and ok: "worker_pool_checks p'"
    using assms(2) by (auto simp: newer_pool_def)
  have m: "map wp_role (worker_pools s') = map wp_role (worker_pools s)"
    unfolding assms(3) by (rule map_upd_where) simp
  show "distinct (map wp_role (worker_pools s'))" using m d by simp
  show "wp_role ` set (worker_pools s') = wp_role ` set (worker_pools s)" using arg_cong [OF m, of set] by simp
  show "list_all worker_pool_checks (worker_pools s')"
    unfolding assms(3) using assms(1) ok by (intro list_all_upd_where) (simp_all add: commands_inv_def)
  show new: "p' \<in> set (worker_pools s')" using p0(1,2) by (auto simp: assms(3) set_upd_where image_iff)
  show "\<exists>q\<in>set (worker_pools s'). wp_role q = wp_role p \<and> wp_revision p \<le> wp_revision q" if p: "p \<in> set (worker_pools s)" for p
  proof (cases "wp_role p = wp_role p'")
    case True
    then have "p = p0" using d p p0(1,2) by (auto simp: distinct_map inj_on_def)
    then show ?thesis using new p0(2,3) by (intro bexI [of _ p']) simp_all
  next
    case False
    then show ?thesis using p by (intro bexI [of _ p]) (auto simp: assms(3) set_upd_where)
  qed
qed

lemma pools_inv_newer:
  assumes "pools_inv s" "newer_pool p' s"
    "worker_pools s' = upd_where (\<lambda>x. wp_role x = wp_role p') (\<lambda>_. p') (worker_pools s)"
    "worker_instances s' = worker_instances s" "scale_commands s' = scale_commands s"
  shows "pools_inv s'"
proof -
  have inv: "instances_inv s" "commands_inv s" using assms(1) by (simp_all add: pools_inv_def)
  note n = commands_pool_newer [OF inv(2) assms(2,3)]
  have "\<exists>q\<in>set (worker_pools s'). wp_role q = sc_role c \<and> sc_applied_pool_revision c \<le> wp_revision q"
    if c: "c \<in> set (scale_commands s)" for c
  proof -
    obtain p where p: "p \<in> set (worker_pools s)" "wp_role p = sc_role c" "sc_applied_pool_revision c \<le> wp_revision p"
      using inv(2) c by (auto simp: commands_inv_def)
    obtain q where "q \<in> set (worker_pools s')" "wp_role q = wp_role p" "wp_revision p \<le> wp_revision q" using n(5) [OF p(1)] by blast
    then show ?thesis using p by (intro bexI [of _ q]) simp_all
  qed
  then show ?thesis using inv n(1-3) assms(4,5) by (simp add: pools_inv_def instances_inv_def commands_inv_def)
qed

lemma instances_inv_put:
  assumes "instances_inv s" "get_instance i s = Some x" "instance_ok x'" "wi_instance_id x' = i" "wi_role x' = wi_role x"
  shows "instances_inv (put_instance x' s)"
proof -
  have x: "x \<in> set (worker_instances s)" "wi_instance_id x = i" using get_instanceD [OF assms(2)] by auto
  have "map wi_instance_id (worker_instances (put_instance x' s)) = map wi_instance_id (worker_instances s)"
    using map_upd_where [of "\<lambda>y. wi_instance_id y = wi_instance_id x'" wi_instance_id "\<lambda>_. x'"]
    by (simp add: put_instance_def)
  moreover have "list_all instance_ok (worker_instances (put_instance x' s))"
    using assms(1,3) by (auto simp: put_instance_def instances_inv_def intro!: list_all_upd_where)
  moreover have "wi_role y \<in> wp_role ` set (worker_pools s)" if "y \<in> set (worker_instances (put_instance x' s))" for y
    using that assms(1,5) x by (auto simp: put_instance_def set_upd_where instances_inv_def)
  ultimately show ?thesis using assms(1) by (simp add: instances_inv_def put_instance_def)
qed

lemma commands_inv_instances [simp]:
  "commands_inv (put_instance x s) = commands_inv s" "commands_inv (s\<lparr>worker_instances := xs\<rparr>) = commands_inv s"
  by (simp_all add: commands_inv_def put_instance_def)

lemma register_inv:
  assumes "pools_inv s" "register_instance i role v n dep con host pr c now s = Inr (x, s')"
  shows "pools_inv s'"
  using assms
  by (auto simp: register_instance_def Let_def pools_inv_def instances_inv_def instance_ok_def get_instance_None get_pool_None
      split: if_splits)

lemma instance_ok_get: "instances_inv s \<Longrightarrow> get_instance i s = Some x \<Longrightarrow> instance_ok x"
  by (auto simp: instances_inv_def list_all_iff dest: get_instanceD)

lemma heartbeat_cases:
  assumes "heartbeat_instance i slots n l pr c now s = Inr (x', s')"
  shows "\<exists>x current. get_instance i s = Some x \<and> wi_status x \<noteq> Stopped \<and> x' = instance_beaten slots n l pr current x
     \<and> worker_instance_checks x' \<and> s' = put_instance x' s"
  using assms by (auto simp: heartbeat_instance_def lock_instance_def Let_def split: option.splits if_splits)

lemma beaten_ok:
  assumes "instance_ok x" "wi_status x \<noteq> Stopped" "worker_instance_checks (instance_beaten slots n l pr current x)"
  shows "instance_ok (instance_beaten slots n l pr current x)"
  using assms by (auto simp: instance_ok_def instance_beaten_def)

lemma beaten_same [simp]:
  "wi_instance_id (instance_beaten slots n l pr current x) = wi_instance_id x"
  "wi_role (instance_beaten slots n l pr current x) = wi_role x"
  "wi_drain_requested_at (instance_beaten slots n l pr current x) = wi_drain_requested_at x"
  by (simp_all add: instance_beaten_def)

lemma beat_inv:
  assumes "pools_inv s" "heartbeat_instance i slots n l pr c now s = Inr (x', s')"
  shows "pools_inv s'"
proof -
  obtain x current where x: "get_instance i s = Some x" "wi_status x \<noteq> Stopped" "x' = instance_beaten slots n l pr current x"
    "worker_instance_checks x'" "s' = put_instance x' s"
    using heartbeat_cases [OF assms(2)] by blast
  have inv: "instances_inv s" "commands_inv s" using assms(1) by (simp_all add: pools_inv_def)
  have "instance_ok x'" using beaten_ok [OF instance_ok_get [OF inv(1) x(1)] x(2)] x(3,4) by simp
  then have "instances_inv (put_instance x' s)"
    using x(3) get_instanceD [OF x(1)] by (intro instances_inv_put [OF inv(1) x(1)]) simp_all
  then show ?thesis using inv(2) x(5) by (simp add: pools_inv_def)
qed

lemma status_cases:
  assumes "set_instance_status i status c now s = Inr (x', s')"
  shows "\<exists>x. get_instance i s = Some x \<and>
     (s' = s \<or> (\<exists>st current. instance_status_of status = Some st \<and> st \<in> INSTANCE_TRANSITIONS (wi_status x)
                  \<and> x' = instance_moved st current x \<and> s' = put_instance x' s))"
  using assms by (auto simp: set_instance_status_def lock_instance_def split: option.splits if_splits)

lemma moved_ok:
  assumes "instance_ok x" "st \<in> INSTANCE_TRANSITIONS (wi_status x)"
  shows "instance_ok (instance_moved st current x)"
  using assms
  by (auto simp: instance_ok_def instance_moved_def INSTANCE_TRANSITIONS_def worker_instance_checks_def
      split: instance_status.splits)

lemma moved_same [simp]:
  "wi_instance_id (instance_moved st current x) = wi_instance_id x" "wi_role (instance_moved st current x) = wi_role x"
  by (simp_all add: instance_moved_def)

lemma status_inv:
  assumes "pools_inv s" "set_instance_status i status c now s = Inr (x', s')"
  shows "pools_inv s'"
proof -
  have inv: "instances_inv s" "commands_inv s" using assms(1) by (simp_all add: pools_inv_def)
  obtain x where x: "get_instance i s = Some x"
    and e: "s' = s \<or> (\<exists>st current. instance_status_of status = Some st \<and> st \<in> INSTANCE_TRANSITIONS (wi_status x)
                  \<and> x' = instance_moved st current x \<and> s' = put_instance x' s)"
    using status_cases [OF assms(2)] by blast
  show ?thesis
  proof (cases "s' = s")
    case False
    then obtain st current where m: "st \<in> INSTANCE_TRANSITIONS (wi_status x)" "x' = instance_moved st current x"
      "s' = put_instance x' s"
      using e by blast
    have "instance_ok x'" using moved_ok [OF instance_ok_get [OF inv(1) x] m(1)] m(2) by simp
    then have "instances_inv (put_instance x' s)"
      using m(2) get_instanceD [OF x] by (intro instances_inv_put [OF inv(1) x]) simp_all
    then show ?thesis using inv(2) m(3) by (simp add: pools_inv_def)
  qed (use assms(1) in simp)
qed

lemma stale_inv:
  assumes "pools_inv s" "mark_stale_instances ttl c now s = Inr (ids, s')"
  shows "pools_inv s'"
proof -
  obtain current where e: "s' = s\<lparr>worker_instances := upd_where (instance_silent ttl current)
                (\<lambda>x. x\<lparr>wi_status := Stale, wi_updated_at := current\<rparr>) (worker_instances s)\<rparr>"
    using assms(2) by (auto simp: mark_stale_instances_def)
  have "instance_ok (x\<lparr>wi_status := Stale, wi_updated_at := current\<rparr>)" if "instance_ok x" for x
    using that by (auto simp: instance_ok_def worker_instance_checks_def)
  then have "list_all instance_ok (worker_instances s')"
    using assms(1) by (auto simp: e pools_inv_def instances_inv_def intro!: list_all_upd_where)
  then show ?thesis using assms(1)
    by (auto simp: e pools_inv_def instances_inv_def map_upd_where set_upd_where)
qed

lemma pools_inv_upsert:
  assumes "pools_inv s" "upsert_pool a role d actor reason expected c now s = Inr (p', s')"
  shows "pools_inv s'"
proof -
  have f: "worker_instances s' = worker_instances s" "scale_commands s' = scale_commands s" "worker_pool_checks p'"
    "wp_role p' = role"
    "case expected of
          None \<Rightarrow> role \<notin> wp_role ` set (worker_pools s) \<and> worker_pools s' = worker_pools s @ [p']
        | Some r \<Rightarrow> newer_pool p' s \<and> wp_revision p' = r + 1
            \<and> worker_pools s' = upd_where (\<lambda>x. wp_role x = role) (\<lambda>_. p') (worker_pools s)"
    using pool_upsert_cases [OF assms(2)] by blast+
  show ?thesis
  proof (cases expected)
    case None
    then show ?thesis using assms(1) f by (auto simp: pools_inv_def instances_inv_def commands_inv_def)
  next
    case (Some r)
    then have w: "newer_pool p' s" "worker_pools s' = upd_where (\<lambda>x. wp_role x = role) (\<lambda>_. p') (worker_pools s)"
      using f(5) by simp_all
    show ?thesis by (rule pools_inv_newer [OF assms(1) w(1) _ f(1,2)]) (simp add: w(2) f(4))
  qed
qed

text \<open>The scale commands: a new one supersedes those of its role that are open.\<close>

lemma superseded_same [simp]:
  "sc_command_id (command_superseded t c) = sc_command_id c" "sc_idempotency_key (command_superseded t c) = sc_idempotency_key c"
  "sc_role (command_superseded t c) = sc_role c" "sc_status (command_superseded t c) = ScSuperseded"
  "sc_applied_pool_revision (command_superseded t c) = sc_applied_pool_revision c"
  by (simp_all add: command_superseded_def)

lemma superseded_not_open [simp]: "\<not> command_open role (command_superseded t c)"
  by (simp add: command_open_def SCALE_COMMAND_TERMINAL_def)

lemma open_after_superseding:
  "filter (command_open role) (upd_where (command_open r) (command_superseded t) cs)
     = (if role = r then [] else filter (command_open role) cs)"
proof (induction cs)
  case (Cons c cs)
  have "command_open role c \<Longrightarrow> command_open r c \<Longrightarrow> role = r" by (simp add: command_open_def)
  then show ?case using Cons by auto
qed simp

lemma scale_cases:
  assumes "commands_inv s" "request_scale ci ai role e n k actor reason key orc req c now s = Inr (cmd, s')"
  shows "(s' = s \<and> find_command key s = Some cmd) \<or>
    (\<exists>p p' current. p \<in> set (worker_pools s) \<and> wp_role p = role \<and> wp_revision p = e
       \<and> p' = pool_scaled n k actor reason current p \<and> newer_pool p' s \<and> 0 \<le> n \<and> 1 \<le> k
       \<and> worker_pools s' = upd_where (\<lambda>x. wp_role x = role) (\<lambda>_. p') (worker_pools s)
       \<and> worker_instances s' = worker_instances s
       \<and> find_command key s = None \<and> ci \<notin> sc_command_id ` set (scale_commands s)
       \<and> sc_command_id cmd = ci \<and> sc_idempotency_key cmd = key \<and> sc_role cmd = role \<and> sc_status cmd = ScRequested
       \<and> sc_applied_pool_revision cmd = wp_revision p'
       \<and> scale_commands s' = upd_where (command_open role) (command_superseded current) (scale_commands s) @ [cmd])"
proof (cases "find_command key s")
  case (Some x)
  then show ?thesis using assms(2) by (auto simp: request_scale_def split: if_splits)
next
  case None
  then obtain current p where nk: "0 \<le> n" "1 \<le> k"
    and p: "find (\<lambda>p. wp_role p = role \<and> wp_revision p = e) (worker_pools s) = Some p"
    and range: "wp_min_replicas p \<le> n" "n \<le> wp_max_replicas p"
    and r: "record_scale ci ai role e n k actor reason key orc req c current p s = Inr (cmd, s')"
    using assms(2)
    by (auto simp: request_scale_def raise_stale_or_missing_pool_def split: if_splits option.splits)
  have pm: "p \<in> set (worker_pools s)" "wp_role p = role" "wp_revision p = e" using p by (auto dest: find_SomeD)
  define p' where "p' = pool_scaled n k actor reason current p"
  define s2 where "s2 = (put_pool p' s)\<lparr>scale_commands := upd_where (command_open role) (command_superseded current) (scale_commands s)\<rparr>"
  obtain au s3 where a: "append_audit ai c actor ''worker_pool.scale'' ''worker_pool'' (ResText (role_value role))
                     (Some (scaled_state p)) (Some (scaled_state p')) req (Some key) (Some (Aware current 0)) s2 = Inr (au, s3)"
    and f: "get_scale_command ci s3 = None" "s' = s3\<lparr>scale_commands := scale_commands s3 @ [cmd]\<rparr>"
      "sc_command_id cmd = ci" "sc_idempotency_key cmd = key" "sc_role cmd = role" "sc_status cmd = ScRequested"
      "sc_applied_pool_revision cmd = wp_revision p'"
    using r by (auto simp: record_scale_def Let_def p'_def s2_def put_pool_def split: if_splits)
  note t = audit_keeps_pools [OF a]
  have role: "wp_role p' = role" using pm(2) by (simp add: p'_def pool_scaled_def)
  have "ci \<notin> sc_command_id ` set (scale_commands s2)"
    using f(1) t(3) by (auto simp: get_scale_command_def find_None_iff)
  moreover have "sc_command_id ` set (scale_commands s2) = sc_command_id ` set (scale_commands s)"
    using arg_cong [OF map_upd_where [of "command_open role" sc_command_id "command_superseded current" "scale_commands s"], of set]
    by (simp add: s2_def)
  moreover have "worker_pool_checks p" using assms(1) pm(1) by (simp add: commands_inv_def list_all_iff)
  then have "newer_pool p' s"
    using pm nk range by (auto simp: newer_pool_def p'_def pool_scaled_def worker_pool_checks_def)
  moreover have "worker_pools s' = upd_where (\<lambda>x. wp_role x = role) (\<lambda>_. p') (worker_pools s)"
    "worker_instances s' = worker_instances s"
    "scale_commands s' = upd_where (command_open role) (command_superseded current) (scale_commands s) @ [cmd]"
    using f(2) t role by (simp_all add: s2_def put_pool_def)
  ultimately show ?thesis using None nk pm f(3-) unfolding p'_def by blast
qed

lemma scale_inv:
  assumes "pools_inv s" "request_scale ci ai role e n k actor reason key orc req c now s = Inr (cmd, s')"
  shows "pools_inv s'"
proof -
  have inv: "instances_inv s" "commands_inv s" using assms(1) by (simp_all add: pools_inv_def)
  consider "s' = s" | p p' current where "p \<in> set (worker_pools s)" "wp_role p = role"
      "p' = pool_scaled n k actor reason current p" "newer_pool p' s"
      "worker_pools s' = upd_where (\<lambda>x. wp_role x = role) (\<lambda>_. p') (worker_pools s)"
      "worker_instances s' = worker_instances s"
      "find_command key s = None" "ci \<notin> sc_command_id ` set (scale_commands s)"
      "sc_command_id cmd = ci" "sc_idempotency_key cmd = key" "sc_role cmd = role"
      "sc_applied_pool_revision cmd = wp_revision p'"
      "scale_commands s' = upd_where (command_open role) (command_superseded current) (scale_commands s) @ [cmd]"
    using scale_cases [OF inv(2) assms(2)] by blast
  then show ?thesis
  proof cases
    case 1
    then show ?thesis using assms(1) by simp
  next
    case 2
    have role: "wp_role p' = role" using 2(2,3) by (simp add: pool_scaled_def)
    define s1 where "s1 = s\<lparr>worker_pools := worker_pools s'\<rparr>"
    have "pools_inv s1" by (rule pools_inv_newer [OF assms(1) 2(4)]) (simp_all add: s1_def 2(5) role)
    then have i1: "instances_inv s1" "commands_inv s1" by (simp_all add: pools_inv_def)
    have new: "p' \<in> set (worker_pools s')"
      using commands_pool_newer(4) [OF inv(2) 2(4), of s'] 2(5) role by simp
    have old: "map sc_command_id (upd_where (command_open role) (command_superseded current) (scale_commands s))
        = map sc_command_id (scale_commands s)"
      "map sc_idempotency_key (upd_where (command_open role) (command_superseded current) (scale_commands s))
        = map sc_idempotency_key (scale_commands s)"
      by (simp_all add: map_upd_where)
    have ids: "distinct (map sc_command_id (scale_commands s'))"
      using i1(2) 2(8,9) arg_cong [OF old(1), of set] by (simp add: 2(13) old(1) commands_inv_def s1_def)
    have key: "key \<notin> sc_idempotency_key ` set (scale_commands s)"
      using 2(7) by (auto simp: find_command_def find_None_iff)
    then have keys: "distinct (map sc_idempotency_key (scale_commands s'))"
      using i1(2) 2(10) arg_cong [OF old(2), of set] by (simp add: 2(13) old(2) commands_inv_def s1_def)
    have one: "length (filter (command_open r) (scale_commands s')) \<le> 1" for r
    proof -
      have "length (filter (command_open r) (scale_commands s)) \<le> 1" using inv(2) by (simp add: commands_inv_def)
      moreover have "r = role \<Longrightarrow> length (filter (command_open r) [cmd]) \<le> 1" "r \<noteq> role \<Longrightarrow> \<not> command_open r cmd"
        using 2(11) by (auto simp: command_open_def)
      ultimately show ?thesis by (simp add: 2(13) open_after_superseding)
    qed
    have "\<exists>q\<in>set (worker_pools s'). wp_role q = sc_role x \<and> sc_applied_pool_revision x \<le> wp_revision q"
      if x: "x \<in> set (scale_commands s')" for x
    proof (cases "x = cmd")
      case True
      then show ?thesis using new role 2(11,12) by (intro bexI [of _ p']) simp_all
    next
      case False
      then obtain y where "y \<in> set (scale_commands s)" "sc_role x = sc_role y"
        "sc_applied_pool_revision x = sc_applied_pool_revision y"
        using x by (auto simp: 2(13) set_upd_where)
      then show ?thesis using i1(2) by (auto simp: commands_inv_def s1_def)
    qed
    then have "commands_inv s'" using i1(2) ids keys one by (simp add: commands_inv_def s1_def)
    moreover have "instances_inv s'" using i1(1) 2(6) by (simp add: instances_inv_def s1_def)
    ultimately show ?thesis by (simp add: pools_inv_def)
  qed
qed

lemma transition_cases:
  assumes "transition_scale_command i status result ttl c now s = Inr (cmd, s')"
  shows "\<exists>x st current. get_scale_command i s = Some x \<and> scale_status_of status = Some st
     \<and> st \<in> SCALE_COMMAND_TRANSITIONS (sc_status x) \<and> cmd = command_moved st result current x
     \<and> resolve_now c now = Inr current
     \<and> (st = ScApplied \<longrightarrow> (\<exists>oc. observe_capacity (sc_role x) ttl c (Some (Aware current 0)) s = Inr oc \<and> capacity_matches x oc))
     \<and> s' = s\<lparr>scale_commands := upd_where (\<lambda>y. sc_command_id y = i) (\<lambda>_. cmd) (scale_commands s)\<rparr>"
proof -
  obtain current where r: "resolve_now c now = Inr current"
    using assms by (cases "resolve_now c now") (simp_all add: transition_scale_command_def)
  obtain x where x: "get_scale_command i s = Some x"
    using assms r by (cases "get_scale_command i s") (simp_all add: transition_scale_command_def)
  obtain st where st: "scale_status_of status = Some st"
    using assms r x by (cases "scale_status_of status") (simp_all add: transition_scale_command_def)
  show ?thesis
  proof (cases "st = ScApplied")
    case True
    then show ?thesis using assms r x st by (auto simp: transition_scale_command_def Let_def split: if_splits)
  next
    case False
    then show ?thesis using assms r x st by (auto simp: transition_scale_command_def Let_def split: if_splits)
  qed
qed

lemma command_moved_same [simp]:
  "sc_command_id (command_moved st result current x) = sc_command_id x"
  "sc_idempotency_key (command_moved st result current x) = sc_idempotency_key x"
  "sc_role (command_moved st result current x) = sc_role x"
  "sc_applied_pool_revision (command_moved st result current x) = sc_applied_pool_revision x"
  "sc_status (command_moved st result current x) = st"
  by (simp_all add: command_moved_def)

text \<open>A move keeps the key and can only close a command, never open one.\<close>

lemma transitions_from_open: "st \<in> SCALE_COMMAND_TRANSITIONS st0 \<Longrightarrow> st0 \<notin> SCALE_COMMAND_TERMINAL"
  by (cases st0) (auto simp: SCALE_COMMAND_TRANSITIONS_def SCALE_COMMAND_TERMINAL_def)

lemma upd_one_row:
  assumes "distinct (map key rows)" "x \<in> set rows" "key x = i"
  shows "upd_where (\<lambda>y. key y = i) (\<lambda>_. x') rows = upd_where (\<lambda>y. y = x) (\<lambda>_. x') rows"
  using assms by (intro upd_where_cong) (auto simp: distinct_map inj_on_def)

lemma length_filter_upd_le:
  "(P x' \<Longrightarrow> P x) \<Longrightarrow> length (filter P (upd_where (\<lambda>y. y = x) (\<lambda>_. x') rows)) \<le> length (filter P rows)"
  by (induction rows) auto

lemma transition_inv:
  assumes "pools_inv s" "transition_scale_command i status result ttl c now s = Inr (cmd, s')"
  shows "pools_inv s'"
proof -
  have inv: "instances_inv s" "commands_inv s" using assms(1) by (simp_all add: pools_inv_def)
  obtain x st current where x: "get_scale_command i s = Some x" and t: "st \<in> SCALE_COMMAND_TRANSITIONS (sc_status x)"
    and cmd: "cmd = command_moved st result current x"
    and s': "s' = s\<lparr>scale_commands := upd_where (\<lambda>y. sc_command_id y = i) (\<lambda>_. cmd) (scale_commands s)\<rparr>"
    using transition_cases [OF assms(2)] by blast
  have xm: "x \<in> set (scale_commands s)" "sc_command_id x = i" using x by (auto simp: get_scale_command_def dest: find_SomeD)
  have u: "scale_commands s' = upd_where (\<lambda>y. y = x) (\<lambda>_. cmd) (scale_commands s)"
    using upd_one_row [of sc_command_id "scale_commands s" x i cmd] xm inv(2) by (simp add: s' commands_inv_def)
  have "map sc_command_id (scale_commands s') = map sc_command_id (scale_commands s)"
    "map sc_idempotency_key (scale_commands s') = map sc_idempotency_key (scale_commands s)"
    unfolding u by (rule map_upd_where, simp add: cmd)+
  moreover have "length (filter (command_open r) (scale_commands s')) \<le> 1" for r
  proof -
    have "command_open r cmd \<Longrightarrow> command_open r x"
      using transitions_from_open [OF t] by (simp add: command_open_def cmd)
    then have "length (filter (command_open r) (scale_commands s')) \<le> length (filter (command_open r) (scale_commands s))"
      unfolding u by (rule length_filter_upd_le)
    also have "\<dots> \<le> 1" using inv(2) by (simp add: commands_inv_def)
    finally show ?thesis .
  qed
  moreover have "\<forall>y\<in>set (scale_commands s'). \<exists>p\<in>set (worker_pools s).
      wp_role p = sc_role y \<and> sc_applied_pool_revision y \<le> wp_revision p"
    using inv(2) xm(1) by (auto simp: u set_upd_where cmd commands_inv_def)
  ultimately have "commands_inv s'" using inv(2) by (simp add: commands_inv_def s')
  moreover have "instances_inv s'" using inv(1) by (simp add: s' instances_inv_def)
  ultimately show ?thesis by (simp add: pools_inv_def)
qed

lemma pool_step_inv: "pools_inv s \<Longrightarrow> pool_step p s = Inr s' \<Longrightarrow> pools_inv s'"
  by (cases p) (auto intro: pools_inv_upsert register_inv beat_inv status_inv stale_inv scale_inv transition_inv)

interpretation pool_run: invariant_system pool_step pools_inv
  by unfold_locales (rule pool_step_inv)

lemma pools_inv_empty [simp]: "pools_inv empty_db"
  by (simp add: pools_inv_def instances_inv_def commands_inv_def)

text \<open>
  Over any run, roles, instances, commands and idempotency keys stay unique, the desired state of every
  pool stays in its bounds, and a role never has two open scale commands.
\<close>

lemma pools_run_keeps_invariant: "pools_inv s \<Longrightarrow> pools_inv (run_ops pool_step ps s)"
  by (rule pool_run.run_inv)

section \<open>A drain request is kept\<close>

fun readies :: "uuid \<Rightarrow> pool_op \<Rightarrow> bool" where
  "readies i (PStatus j st c now) \<longleftrightarrow> j = i \<and> st = ''ready''"
| "readies i _ \<longleftrightarrow> False"

definition drain_kept :: "uuid \<Rightarrow> db \<Rightarrow> bool" where
  "drain_kept i s \<longleftrightarrow> (\<exists>x. get_instance i s = Some x \<and> wi_drain_requested_at x \<noteq> None)"

lemma get_instance_put:
  assumes "get_instance j s = Some x" "wi_instance_id x' = j"
  shows "get_instance i (put_instance x' s) = (if i = j then Some x' else get_instance i s)"
proof -
  have "get_instance i (put_instance x' s) = map_option (\<lambda>y. if wi_instance_id y = wi_instance_id x' then x' else y) (get_instance i s)"
    unfolding get_instance_def put_instance_def
      using find_upd_where [of "\<lambda>y. wi_instance_id y = wi_instance_id x'" "\<lambda>x. wi_instance_id x = i" "\<lambda>_. x'" "worker_instances s"] by simp
  then show ?thesis using assms by (auto simp: map_option_case split: option.split dest: get_instanceD)
qed

lemma drain_kept_same: "worker_instances s' = worker_instances s \<Longrightarrow> drain_kept i s \<Longrightarrow> drain_kept i s'"
  by (simp add: drain_kept_def get_instance_def)

lemma drain_kept_put:
  assumes "drain_kept i s" "get_instance j s = Some x" "wi_instance_id x' = j"
    "wi_drain_requested_at x \<noteq> None \<Longrightarrow> wi_drain_requested_at x' \<noteq> None \<or> j \<noteq> i"
  shows "drain_kept i (put_instance x' s)"
  using assms by (auto simp: drain_kept_def get_instance_put)

lemma status_of_ready: "instance_status_of st = Some Ready \<longleftrightarrow> st = ''ready''"
  by (simp add: instance_status_of_def)

lemma pool_step_drain:
  assumes "pools_inv s" "drain_kept i s" "\<not> readies i p" "pool_step p s = Inr s'"
  shows "drain_kept i s'"
proof (cases p)
  case (PUpsert a role d actor reason expected c now)
  then show ?thesis using assms(2,4) by (auto dest!: pool_upsert_cases intro: drain_kept_same)
next
  case (PRegister j role v n dep con host pr c now)
  then obtain row where "s' = s\<lparr>worker_instances := worker_instances s @ [row]\<rparr>"
    using assms(4) by (auto simp: register_instance_def Let_def split: if_splits)
  then show ?thesis using assms(2) by (auto simp: drain_kept_def get_instance_def find_append_rows)
next
  case (PBeat j slots n l pr c now)
  then obtain x current x' where "get_instance j s = Some x" "x' = instance_beaten slots n l pr current x" "s' = put_instance x' s"
    using assms(4) by (auto dest!: heartbeat_cases)
  then show ?thesis using assms(2) get_instanceD [of j s x] by (auto intro!: drain_kept_put [of i s j x])
next
  case (PStatus j st c now)
  then obtain x x' where x: "get_instance j s = Some x"
    and e: "s' = s \<or> (\<exists>st' current. instance_status_of st = Some st' \<and> st' \<in> INSTANCE_TRANSITIONS (wi_status x)
                  \<and> x' = instance_moved st' current x \<and> s' = put_instance x' s)"
    using assms(4) by (auto dest!: status_cases)
  have "j \<noteq> i \<or> instance_status_of st \<noteq> Some Ready" using assms(3) PStatus by (simp add: status_of_ready)
  then show ?thesis using e assms(2) x get_instanceD [OF x]
    by (auto intro!: drain_kept_put [of i s j x] simp: instance_moved_def split: if_splits)
next
  case (PStale ttl c now)
  then obtain current where e: "s' = s\<lparr>worker_instances := upd_where (instance_silent ttl current)
                (\<lambda>x. x\<lparr>wi_status := Stale, wi_updated_at := current\<rparr>) (worker_instances s)\<rparr>"
    using assms(4) by (auto simp: mark_stale_instances_def)
  have "get_instance i s' = map_option (\<lambda>x. if instance_silent ttl current x
      then x\<lparr>wi_status := Stale, wi_updated_at := current\<rparr> else x) (get_instance i s)"
    unfolding get_instance_def e by (simp add: find_upd_where)
  moreover obtain x where "get_instance i s = Some x" "wi_drain_requested_at x \<noteq> None"
    using assms(2) by (auto simp: drain_kept_def)
  ultimately show ?thesis by (simp add: drain_kept_def)
next
  case (PScale ci ai role e n k actor reason key orc req c now)
  have "commands_inv s" using assms(1) by (simp add: pools_inv_def)
  then show ?thesis using PScale assms(2,4) by (auto dest!: scale_cases intro: drain_kept_same)
next
  case (PMove j st r ttl c now)
  then show ?thesis using assms(2,4) by (auto dest!: transition_cases intro: drain_kept_same)
qed

lemma run_drain:
  "pools_inv s \<Longrightarrow> drain_kept i s \<Longrightarrow> \<forall>p\<in>set ps. \<not> readies i p \<Longrightarrow> drain_kept i (run_ops pool_step ps s)"
  by (rule pool_run.run_kept [where good = "\<lambda>p. \<not> readies i p"]) (auto simp: list_all_iff intro: pool_step_drain)

text \<open>
  C29. A drain request is never lost: once an instance was told to drain, then whatever heartbeats, stale
  marks, scale commands and other operations follow, it is never ready again unless somebody
  marks this very instance ready.
\<close>

theorem drain_request_is_kept:
  assumes "pools_inv s" "get_instance i s = Some x" "wi_drain_requested_at x \<noteq> None"
    "\<forall>p\<in>set ps. \<not> readies i p"
  shows "\<exists>x'. get_instance i (run_ops pool_step ps s) = Some x' \<and> wi_drain_requested_at x' \<noteq> None
     \<and> wi_status x' \<in> {Draining, Stale, Stopped}"
proof -
  have "drain_kept i (run_ops pool_step ps s)"
    using run_drain [OF assms(1) _ assms(4)] assms(2,3) by (auto simp: drain_kept_def)
  then obtain x' where x': "get_instance i (run_ops pool_step ps s) = Some x'" "wi_drain_requested_at x' \<noteq> None"
    by (auto simp: drain_kept_def)
  have "instance_ok x'"
    using instance_ok_get [OF _ x'(1)] pools_run_keeps_invariant [OF assms(1)] by (simp add: pools_inv_def)
  then show ?thesis using x' by (auto simp: instance_ok_def)
qed

definition demo_pool_db :: db where
  "demo_pool_db = run_ops pool_step
     [PUpsert 1 RoleFetch \<lparr>ds_desired_replicas = 1, ds_desired_concurrency = 2, ds_max_replicas = 4, ds_min_replicas = 0,
        ds_mode = ''manual'', ds_resource_profile = ''m''\<rparr> (Some (ulit ''op'')) (Some (ulit ''go'')) None 0 (utc 5),
      PRegister 7 RoleFetch ''v1'' 2 None None None (Some 1) 0 (utc 6), PStatus 7 ''ready'' 0 (utc 7),
      PStatus 7 ''draining'' 0 (utc 8)] empty_db"

lemma demo_pool_instance:
  "map_option (\<lambda>x. (wi_status x, wi_drain_requested_at x)) (get_instance 7 demo_pool_db) = Some (Draining, Some 8)"
  by code_simp

theorem drain_request_is_kept_witness:
  "\<exists>x'. get_instance 7 (run_ops pool_step [PStale 10 0 (utc 100), PBeat 7 None 0 0 (Some 1) 0 (utc 101)] demo_pool_db) = Some x'
     \<and> wi_status x' \<in> {Draining, Stale, Stopped}"
proof -
  obtain x where x: "get_instance 7 demo_pool_db = Some x" "wi_drain_requested_at x \<noteq> None"
    using demo_pool_instance by (cases "get_instance 7 demo_pool_db") auto
  have "pools_inv demo_pool_db" unfolding demo_pool_db_def by (rule pools_run_keeps_invariant) simp
  from drain_request_is_kept [OF this x, of "[PStale 10 0 (utc 100), PBeat 7 None 0 0 (Some 1) 0 (utc 101)]"]
  show ?thesis by (simp del: run_ops.simps) blast
qed

text \<open>What the applied state of a scale command stands for.\<close>

lemma applied_when_observed:
  assumes "transition_scale_command i ''applied'' result ttl c (utc t) s = Inr (cmd, s')"
  shows "length (filter (instance_fresh (sc_role cmd) ttl t) (worker_instances s)) = sc_requested_replicas cmd
     \<and> sum_list (map wi_slots_total (filter (instance_fresh (sc_role cmd) ttl t) (worker_instances s)))
         = sc_requested_replicas cmd * sc_requested_concurrency cmd"
proof -
  obtain x st current oc where "scale_status_of ''applied'' = Some st" "cmd = command_moved st result current x"
    "resolve_now c (utc t) = Inr current"
    "st = ScApplied \<longrightarrow> (\<exists>oc. observe_capacity (sc_role x) ttl c (utc current) s = Inr oc \<and> capacity_matches x oc)"
    using transition_cases [OF assms] by blast
  then show ?thesis
    by (auto simp: scale_status_of_def observe_capacity_def Let_def capacity_matches_def command_moved_def)
qed

text \<open>
  \<open>request_scale\<close> does not look at the actor and the reason, unlike \<open>upsert_pool\<close>: a command with
  neither is recorded, and so is its audit row.
\<close>

lemma scale_without_actor_or_reason:
  "map_sum id (\<lambda>(cmd, s'). (sc_status cmd, sc_actor cmd, map (\<lambda>a. (a_action a, a_actor a)) (audit_logs s')))
     (request_scale 3 4 RoleFetch 1 2 2 [] [] ''k'' ''swarm'' None 0 (utc 9) demo_pool_db)
   = Inr (ScRequested, [], [(''worker_pool.create'', ulit ''op''), (''worker_pool.scale'', [])])"
  by code_simp

end
