(* ===== verification/Sources.thy ===== *)
theory Sources
  imports Audit_Log
begin

text \<open>
  \<open>repositories/sources.py\<close>: the control plane of the sources. A source carries its planning state
  and its current policy under an optimistic revision, policies are immutable numbered versions, a
  route has a circuit breaker that counts failures, a cursor remembers where discovery goes on. Every
  decision is recorded in the audit log in the transaction that makes it.

  \<open>naive\<close> is what the driver makes of a naive datetime that is bound without a check.
\<close>

section \<open>Data\<close>

record policy_snapshot =
  ps_requests_per_second :: rat
  ps_max_concurrency :: int
  ps_crawl_interval_seconds :: int
  ps_robots_policy :: string
  ps_manifest_sha256 :: string
  ps_burst_tokens :: int
  ps_browser_allowed :: bool
  ps_manifest_uri :: "string option"

record fetch_preflight =
  fp_source_pk :: uuid
  fp_source_id :: string
  fp_source_state :: source_state
  fp_policy :: "policy_snapshot option"
  fp_policy_version :: "int option"
  fp_route_id :: uuid
  fp_route_state :: route_state
  fp_route_revision :: int
  fp_route_kind :: string
  fp_circuit_open_until :: "ts option"

definition source_state_value :: "source_state \<Rightarrow> string" where
  "source_state_value st =
     (case st of Enabled \<Rightarrow> ''enabled'' | Paused \<Rightarrow> ''paused'' | Disabled \<Rightarrow> ''disabled''
      | BlockedAnonymous \<Rightarrow> ''blocked_anonymous'')"

definition route_state_value :: "route_state \<Rightarrow> string" where
  "route_state_value st =
     (case st of Healthy \<Rightarrow> ''healthy'' | Degraded \<Rightarrow> ''degraded'' | CircuitOpen \<Rightarrow> ''circuit_open''
      | Unsupported \<Rightarrow> ''unsupported'')"

text \<open>
  \<open>NUMERIC(10,4)\<close>: PostgreSQL rounds half away from zero to four places and refuses a value of more
  than six digits before the point.
\<close>

definition numeric_10_4 :: "rat \<Rightarrow> rat res" where
  "numeric_10_4 x =
     (let n = (if 0 \<le> x then \<lfloor>x * 10000 + 1/2\<rfloor> else - \<lfloor>- x * 10000 + 1/2\<rfloor>)
      in if 10 ^ 10 \<le> \<bar>n\<bar> then Inl DataError else Inr (of_int n / 10000))"

definition source_by_pk :: "uuid \<Rightarrow> db \<Rightarrow> source option" where
  "source_by_pk i s = find (\<lambda>x. sr_id x = i) (sources s)"

definition route_by_id :: "uuid \<Rightarrow> db \<Rightarrow> source_route option" where
  "route_by_id i s = find (\<lambda>r. rt_id r = i) (source_routes s)"

definition policy_by_id :: "uuid \<Rightarrow> db \<Rightarrow> source_policy_version option" where
  "policy_by_id i s = find (\<lambda>v. pv_id v = i) (source_policy_versions s)"

definition put_source :: "source \<Rightarrow> db \<Rightarrow> db" where
  "put_source x s = s\<lparr>sources := upd_where (\<lambda>y. sr_id y = sr_id x) (\<lambda>_. x) (sources s)\<rparr>"

definition put_route :: "source_route \<Rightarrow> db \<Rightarrow> db" where
  "put_route r s = s\<lparr>source_routes := upd_where (\<lambda>y. rt_id y = rt_id r) (\<lambda>_. r) (source_routes s)\<rparr>"

definition put_cursor :: "source_cursor \<Rightarrow> db \<Rightarrow> db" where
  "put_cursor c s = s\<lparr>source_cursors := upd_where (\<lambda>y. cu_id y = cu_id c) (\<lambda>_. c) (source_cursors s)\<rparr>"

section \<open>The fetch preflight\<close>

definition policy_snapshot_of :: "source_policy_version \<Rightarrow> policy_snapshot" where
  "policy_snapshot_of v =
     \<lparr>ps_requests_per_second = pv_requests_per_second v, ps_max_concurrency = pv_max_concurrency v,
      ps_crawl_interval_seconds = pv_crawl_interval_seconds v, ps_robots_policy = pv_robots_policy v,
      ps_manifest_sha256 = pv_manifest_sha256 v, ps_burst_tokens = pv_burst_tokens v,
      ps_browser_allowed = pv_browser_allowed v, ps_manifest_uri = pv_manifest_uri v\<rparr>"

definition get_fetch_preflight :: "uuid \<Rightarrow> uuid \<Rightarrow> db \<Rightarrow> fetch_preflight option" where
  "get_fetch_preflight source_uuid route_id s =
     (case source_by_pk source_uuid s of
        None \<Rightarrow> None
      | Some src \<Rightarrow>
          (case find (\<lambda>r. rt_source_id r = sr_id src \<and> rt_id r = route_id) (source_routes s) of
             None \<Rightarrow> None
           | Some route \<Rightarrow>
               (let version = (case sr_current_policy_version_id src of None \<Rightarrow> None | Some i \<Rightarrow> policy_by_id i s)
                in Some \<lparr>fp_source_pk = sr_id src, fp_source_id = sr_source_id src, fp_source_state = sr_state src,
                     fp_policy = map_option policy_snapshot_of version, fp_policy_version = map_option pv_version version,
                     fp_route_id = rt_id route, fp_route_state = rt_state route, fp_route_revision = rt_revision route,
                     fp_route_kind = rt_route_kind route, fp_circuit_open_until = rt_circuit_open_until route\<rparr>)))"

section \<open>Sources and their policies\<close>

definition get_source :: "string \<Rightarrow> db \<Rightarrow> source option" where
  "get_source k s = find (\<lambda>x. sr_source_id x = k) (sources s)"

definition raise_stale_or_missing :: "uuid \<Rightarrow> db \<Rightarrow> 'a res" where
  "raise_stale_or_missing pk s =
     (case source_by_pk pk s of None \<Rightarrow> Inl NotFoundError | Some _ \<Rightarrow> Inl StaleRevisionError)"

definition create_source ::
  "uuid \<Rightarrow> string \<Rightarrow> data_domain \<Rightarrow> string \<Rightarrow> source_state \<Rightarrow> ustr option \<Rightarrow> ts \<Rightarrow> datetime option \<Rightarrow> db \<Rightarrow> (source \<times> db) res" where
  "create_source new_id source_id domain country state actor utcnow now s =
     bind_res (resolve_now utcnow now) (\<lambda>current.
       if get_source source_id s \<noteq> None then Inl ConflictError
       else let row = \<lparr>sr_id = new_id, sr_source_id = source_id, sr_domain = domain, sr_country = country, sr_state = state,
                  sr_state_reason = None, sr_current_policy_version_id = None, sr_revision = 1, sr_updated_by = actor,
                  sr_created_at = current, sr_updated_at = current\<rparr>
            in if source_by_pk new_id s \<noteq> None then Inl IntegrityError
               else Inr (row, s\<lparr>sources := sources s @ [row]\<rparr>))"

definition source_moved :: "source_state \<Rightarrow> ustr \<Rightarrow> ustr \<Rightarrow> ts \<Rightarrow> source \<Rightarrow> source" where
  "source_moved state reason actor current x =
     x\<lparr>sr_state := state, sr_state_reason := Some reason, sr_revision := sr_revision x + 1,
       sr_updated_by := Some actor, sr_updated_at := current\<rparr>"

definition set_source_state ::
  "uuid \<Rightarrow> uuid \<Rightarrow> source_state \<Rightarrow> int \<Rightarrow> ustr option \<Rightarrow> ustr option \<Rightarrow> string option \<Rightarrow> ts \<Rightarrow> datetime option \<Rightarrow> db
   \<Rightarrow> (source \<times> db) res" where
  "set_source_state audit_id pk state expected reason_arg actor_arg request_id utcnow now s =
     bind_res (require_audit_context actor_arg reason_arg) (\<lambda>(actor, reason).
       bind_res (resolve_now utcnow now) (\<lambda>current.
         let before_state = map_option sr_state (source_by_pk pk s)
         in case find (\<lambda>x. sr_id x = pk \<and> sr_revision x = expected) (sources s) of
              None \<Rightarrow> raise_stale_or_missing pk s
            | Some x \<Rightarrow>
                (let x' = source_moved state reason actor current x
                 in bind_res (append_audit audit_id utcnow actor ''source.set_state'' ''source'' (ResText (sr_source_id x'))
                        (Some (JObj [(''state'', jopt_text (map_option source_state_value before_state)), (''revision'', JInt expected)]))
                        (Some (JObj [(''state'', JText (source_state_value (sr_state x'))), (''revision'', JInt (sr_revision x')),
                                     (''reason'', JStr reason)]))
                        request_id None (Some (Aware current 0)) (put_source x' s))
                      (\<lambda>(_, s'). Inr (x', s')))))"

text \<open>\<open>ORDER BY version DESC LIMIT 1\<close> is the largest version of the source.\<close>

definition last_policy_version :: "uuid \<Rightarrow> db \<Rightarrow> int option" where
  "last_policy_version pk s =
     (case map pv_version (filter (\<lambda>v. pv_source_id v = pk) (source_policy_versions s)) of
        [] \<Rightarrow> None | n # ns \<Rightarrow> Some (fold max ns n))"

definition source_with_policy :: "uuid \<Rightarrow> ustr \<Rightarrow> ts \<Rightarrow> source \<Rightarrow> source" where
  "source_with_policy version_id actor current x =
     x\<lparr>sr_current_policy_version_id := Some version_id, sr_revision := sr_revision x + 1,
       sr_updated_by := Some actor, sr_updated_at := current\<rparr>"

definition policy_version_row ::
  "uuid \<Rightarrow> uuid \<Rightarrow> policy_snapshot \<Rightarrow> ustr \<Rightarrow> ts \<Rightarrow> int option \<Rightarrow> rat \<Rightarrow> ts \<Rightarrow> source_policy_version" where
  "policy_version_row version_id pk policy actor current last_version rps effective =
     \<lparr>pv_id = version_id, pv_source_id = pk, pv_version = (case last_version of None \<Rightarrow> 0 | Some n \<Rightarrow> n) + 1,
      pv_requests_per_second = rps, pv_max_concurrency = ps_max_concurrency policy,
      pv_burst_tokens = ps_burst_tokens policy, pv_crawl_interval_seconds = ps_crawl_interval_seconds policy,
      pv_browser_allowed = ps_browser_allowed policy, pv_robots_policy = ps_robots_policy policy,
      pv_manifest_sha256 = ps_manifest_sha256 policy, pv_manifest_uri = ps_manifest_uri policy,
      pv_effective_from = effective, pv_created_by = Some actor, pv_created_at = current\<rparr>"

definition add_policy_version ::
  "(int \<Rightarrow> ts res) \<Rightarrow> uuid \<Rightarrow> uuid \<Rightarrow> uuid \<Rightarrow> policy_snapshot \<Rightarrow> int \<Rightarrow> ustr option \<Rightarrow> ustr option \<Rightarrow> datetime option
   \<Rightarrow> string option \<Rightarrow> ts \<Rightarrow> datetime option \<Rightarrow> db \<Rightarrow> (source_policy_version \<times> db) res" where
  "add_policy_version naive audit_id version_id pk policy expected actor_arg reason_arg effective_from request_id
     utcnow now s =
     bind_res (require_audit_context actor_arg reason_arg) (\<lambda>(actor, reason).
       bind_res (resolve_now utcnow now) (\<lambda>current.
         case find (\<lambda>x. sr_id x = pk \<and> sr_revision x = expected) (sources s) of
           None \<Rightarrow> raise_stale_or_missing pk s
         | Some x \<Rightarrow>
             bind_res (case effective_from of None \<Rightarrow> Inr current | Some d \<Rightarrow> bind_timestamptz naive d) (\<lambda>effective.
             bind_res (numeric_10_4 (ps_requests_per_second policy)) (\<lambda>rps.
               let v = policy_version_row version_id pk policy actor current (last_policy_version pk s) rps effective;
                   x' = source_with_policy version_id actor current x
               in if policy_by_id version_id s \<noteq> None then Inl IntegrityError
                  else bind_res (append_audit audit_id utcnow actor ''source.add_policy_version'' ''source''
                        (ResText (sr_source_id x))
                        (Some (JObj [(''current_policy_version_id'',
                                      case sr_current_policy_version_id x of None \<Rightarrow> JNull | Some i \<Rightarrow> JUuid i),
                                     (''revision'', JInt expected)]))
                        (Some (JObj [(''current_policy_version_id'', JUuid version_id), (''policy_version'', JInt (pv_version v)),
                                     (''manifest_sha256'', JText (ps_manifest_sha256 policy)),
                                     (''revision'', JInt (sr_revision x')), (''reason'', JStr reason)]))
                        request_id None (Some (Aware current 0))
                        (put_source x' (s\<lparr>source_policy_versions := source_policy_versions s @ [v]\<rparr>)))
                      (\<lambda>(_, s'). Inr (v, s'))))))"

section \<open>Routes\<close>

definition same_route :: "uuid \<Rightarrow> string \<Rightarrow> string \<Rightarrow> source_route \<Rightarrow> bool" where
  "same_route pk kind key r \<longleftrightarrow> rt_source_id r = pk \<and> rt_route_kind r = kind \<and> rt_route_key r = key"

text \<open>
  \<open>INSERT ... ON CONFLICT DO NOTHING\<close> on the natural key; the foreign key and the primary key refuse
  the row otherwise.
\<close>

definition upsert_route ::
  "uuid \<Rightarrow> uuid \<Rightarrow> uuid \<Rightarrow> string \<Rightarrow> string \<Rightarrow> ustr option \<Rightarrow> ustr option \<Rightarrow> string option \<Rightarrow> ts \<Rightarrow> datetime option \<Rightarrow> db
   \<Rightarrow> (source_route \<times> db) res" where
  "upsert_route audit_id new_id pk kind key actor_arg reason_arg request_id utcnow now s =
     bind_res (require_audit_context actor_arg reason_arg) (\<lambda>(actor, reason).
       if kind \<notin> set ROUTE_KINDS then Inl ValueError
       else bind_res (resolve_now utcnow now) (\<lambda>current.
         case find (same_route pk kind key) (source_routes s) of
           Some existing \<Rightarrow> Inr (existing, s)
         | None \<Rightarrow>
             (let r = \<lparr>rt_id = new_id, rt_source_id = pk, rt_route_kind = kind, rt_route_key = key, rt_state = Healthy,
                       rt_state_reason = None, rt_consecutive_failures = 0, rt_circuit_open_until = None,
                       rt_last_success_at = None, rt_last_failure_at = None, rt_revision = 1, rt_created_at = current,
                       rt_updated_at = current\<rparr>
              in if source_by_pk pk s = None \<or> route_by_id new_id s \<noteq> None then Inl IntegrityError
                 else bind_res (append_audit audit_id utcnow actor ''source_route.create'' ''source_route'' (ResUuid new_id)
                        None (Some (JObj [(''route_kind'', JText kind), (''route_key'', JText key),
                                          (''state'', JText (route_state_value Healthy)), (''reason'', JStr reason)]))
                        request_id None (Some (Aware current 0)) (s\<lparr>source_routes := source_routes s @ [r]\<rparr>))
                      (\<lambda>(_, s'). Inr (r, s')))))"

definition route_moved :: "route_state \<Rightarrow> ustr \<Rightarrow> ts option \<Rightarrow> ts \<Rightarrow> source_route \<Rightarrow> source_route" where
  "route_moved state reason open_until current r =
     r\<lparr>rt_state := state, rt_state_reason := Some reason, rt_circuit_open_until := open_until,
       rt_revision := rt_revision r + 1, rt_updated_at := current\<rparr>"

fun bind_opt_timestamptz :: "(int \<Rightarrow> ts res) \<Rightarrow> datetime option \<Rightarrow> ts option res" where
  "bind_opt_timestamptz naive None = Inr None"
| "bind_opt_timestamptz naive (Some d) = bind_res (bind_timestamptz naive d) (\<lambda>t. Inr (Some t))"

definition set_route_state ::
  "(int \<Rightarrow> ts res) \<Rightarrow> uuid \<Rightarrow> uuid \<Rightarrow> route_state \<Rightarrow> int \<Rightarrow> ustr option \<Rightarrow> ustr option \<Rightarrow> datetime option \<Rightarrow> string option
   \<Rightarrow> ts \<Rightarrow> datetime option \<Rightarrow> db \<Rightarrow> (source_route \<times> db) res" where
  "set_route_state naive audit_id route_id state expected actor_arg reason_arg circuit_open_until request_id utcnow now s =
     bind_res (require_audit_context actor_arg reason_arg) (\<lambda>(actor, reason).
       bind_res (resolve_now utcnow now) (\<lambda>current.
       bind_res (bind_opt_timestamptz naive circuit_open_until) (\<lambda>open_until.
         let before_state = map_option rt_state (route_by_id route_id s)
         in case find (\<lambda>r. rt_id r = route_id \<and> rt_revision r = expected) (source_routes s) of
              None \<Rightarrow> (case route_by_id route_id s of None \<Rightarrow> Inl NotFoundError | Some _ \<Rightarrow> Inl StaleRevisionError)
            | Some r \<Rightarrow>
                (let r' = route_moved state reason open_until current r
                 in bind_res (append_audit audit_id utcnow actor ''source_route.set_state'' ''source_route'' (ResUuid (rt_id r'))
                        (Some (JObj [(''state'', jopt_text (map_option route_state_value before_state)), (''revision'', JInt expected)]))
                        (Some (JObj [(''state'', JText (route_state_value (rt_state r'))), (''revision'', JInt (rt_revision r')),
                                     (''circuit_open_until'', case circuit_open_until of None \<Rightarrow> JNull | Some d \<Rightarrow> JIsoOf d),
                                     (''reason'', JStr reason)]))
                        request_id None (Some (Aware current 0)) (put_route r' s))
                      (\<lambda>(_, s'). Inr (r', s'))))))"

definition CIRCUIT_OPENABLE_ROUTE_STATES :: "route_state set" where
  "CIRCUIT_OPENABLE_ROUTE_STATES = {Healthy, Degraded}"

definition route_failed :: "ts \<Rightarrow> source_route \<Rightarrow> source_route" where
  "route_failed current r =
     r\<lparr>rt_consecutive_failures := rt_consecutive_failures r + 1, rt_last_failure_at := Some current, rt_updated_at := current\<rparr>"

definition record_route_failure ::
  "uuid \<Rightarrow> uuid \<Rightarrow> ustr option \<Rightarrow> ustr option \<Rightarrow> int \<Rightarrow> duration option \<Rightarrow> string option \<Rightarrow> ts \<Rightarrow> datetime option \<Rightarrow> db
   \<Rightarrow> (route_state \<times> db) res" where
  "record_route_failure audit_id route_id actor_arg reason_arg threshold circuit_open_for request_id utcnow now s =
     bind_res (require_audit_context actor_arg reason_arg) (\<lambda>(actor, reason).
       if threshold < 1 then Inl ValueError
       else if (case circuit_open_for of None \<Rightarrow> False | Some d \<Rightarrow> d \<le> 0) then Inl ValueError
       else bind_res (resolve_now utcnow now) (\<lambda>current.
         case route_by_id route_id s of
           None \<Rightarrow> Inl NotFoundError
         | Some r \<Rightarrow>
             (let r1 = route_failed current r; s1 = put_route r1 s
              in if rt_consecutive_failures r1 < threshold \<or> rt_state r1 \<notin> CIRCUIT_OPENABLE_ROUTE_STATES
                 then Inr (rt_state r1, s1)
                 else let open_until = map_option (\<lambda>d. current + d) circuit_open_for;
                          r2 = route_moved CircuitOpen reason open_until current r1
                      in bind_res (append_audit audit_id utcnow actor ''source_route.circuit_open'' ''source_route''
                           (ResUuid route_id)
                           (Some (JObj [(''state'', JText (route_state_value (rt_state r1))), (''revision'', JInt (rt_revision r1))]))
                           (Some (JObj [(''state'', JText (route_state_value CircuitOpen)), (''revision'', JInt (rt_revision r1 + 1)),
                              (''consecutive_failures'', JInt (rt_consecutive_failures r1)), (''threshold'', JInt threshold),
                              (''circuit_open_until'', jopt_ts open_until), (''reason'', JStr reason)]))
                           request_id None (Some (Aware current 0)) (put_route r2 s1))
                         (\<lambda>(_, s'). Inr (CircuitOpen, s')))))"

definition route_succeeded :: "ts \<Rightarrow> source_route \<Rightarrow> source_route" where
  "route_succeeded current r =
     r\<lparr>rt_consecutive_failures := 0, rt_last_success_at := Some current, rt_updated_at := current\<rparr>"

definition reset_route_failures :: "uuid \<Rightarrow> ts \<Rightarrow> datetime option \<Rightarrow> db \<Rightarrow> (route_state \<times> db) res" where
  "reset_route_failures route_id utcnow now s =
     bind_res (resolve_now utcnow now) (\<lambda>current.
       case route_by_id route_id s of
         None \<Rightarrow> Inl NotFoundError
       | Some r \<Rightarrow> Inr (rt_state r, put_route (route_succeeded current r) s))"

section \<open>Cursors\<close>

definition same_cursor :: "uuid \<Rightarrow> string \<Rightarrow> string \<Rightarrow> source_cursor \<Rightarrow> bool" where
  "same_cursor pk kind key c \<longleftrightarrow> cu_source_id c = pk \<and> cu_cursor_kind c = kind \<and> cu_cursor_key c = key"

definition cursor_by_id :: "uuid \<Rightarrow> db \<Rightarrow> source_cursor option" where
  "cursor_by_id i s = find (\<lambda>c. cu_id c = i) (source_cursors s)"

definition cursor_moved :: "uuid option \<Rightarrow> string \<Rightarrow> ts option \<Rightarrow> ts \<Rightarrow> source_cursor \<Rightarrow> source_cursor" where
  "cursor_moved route_id v cursor_at current c =
     c\<lparr>cu_cursor_value := v, cu_cursor_at := cursor_at, cu_route_id := route_id, cu_revision := cu_revision c + 1,
       cu_updated_at := current\<rparr>"

definition audit_cursor ::
  "uuid \<Rightarrow> ts \<Rightarrow> ustr \<Rightarrow> ustr \<Rightarrow> string option \<Rightarrow> string option \<Rightarrow> ts \<Rightarrow> source_cursor \<Rightarrow> db \<Rightarrow> (source_cursor \<times> db) res" where
  "audit_cursor audit_id utcnow actor reason before_value request_id current c s =
     bind_res (append_audit audit_id utcnow actor ''source_cursor.upsert'' ''source_cursor'' (ResUuid (cu_id c))
        (Some (JObj [(''cursor_value'', jopt_text before_value)]))
        (Some (JObj [(''cursor_kind'', JText (cu_cursor_kind c)), (''cursor_key'', JText (cu_cursor_key c)),
                     (''cursor_value'', JText (cu_cursor_value c)), (''revision'', JInt (cu_revision c)), (''reason'', JStr reason)]))
        request_id None (Some (Aware current 0)) s)
      (\<lambda>(_, s'). Inr (c, s'))"

definition upsert_cursor ::
  "(int \<Rightarrow> ts res) \<Rightarrow> uuid \<Rightarrow> uuid \<Rightarrow> uuid \<Rightarrow> string \<Rightarrow> string \<Rightarrow> string \<Rightarrow> ustr option \<Rightarrow> ustr option \<Rightarrow> uuid option
   \<Rightarrow> datetime option \<Rightarrow> string option \<Rightarrow> ts \<Rightarrow> datetime option \<Rightarrow> db \<Rightarrow> (source_cursor \<times> db) res" where
  "upsert_cursor naive audit_id new_id pk kind key v actor_arg reason_arg route_id cursor_at_arg request_id utcnow now s =
     bind_res (require_audit_context actor_arg reason_arg) (\<lambda>(actor, reason).
       bind_res (resolve_now utcnow now) (\<lambda>current.
       bind_res (bind_opt_timestamptz naive cursor_at_arg) (\<lambda>cursor_at.
         let before_value = map_option cu_cursor_value (find (same_cursor pk kind key) (source_cursors s));
             route_known = (case route_id of None \<Rightarrow> True | Some i \<Rightarrow> route_by_id i s \<noteq> None)
         in case find (same_cursor pk kind key) (source_cursors s) of
              Some c \<Rightarrow>
                if cu_cursor_value c = v \<and> cu_cursor_at c = cursor_at \<and> cu_route_id c = route_id then Inr (c, s)
                else if \<not> route_known then Inl IntegrityError
                else let c' = cursor_moved route_id v cursor_at current c
                     in audit_cursor audit_id utcnow actor reason before_value request_id current c' (put_cursor c' s)
            | None \<Rightarrow>
                (let c = \<lparr>cu_id = new_id, cu_source_id = pk, cu_route_id = route_id, cu_cursor_kind = kind, cu_cursor_key = key,
                          cu_cursor_value = v, cu_cursor_at = cursor_at, cu_revision = 1, cu_created_at = current,
                          cu_updated_at = current\<rparr>
                 in if source_by_pk pk s = None \<or> \<not> route_known \<or> cursor_by_id new_id s \<noteq> None then Inl IntegrityError
                    else audit_cursor audit_id utcnow actor reason before_value request_id current c
                           (s\<lparr>source_cursors := source_cursors s @ [c]\<rparr>)))))"

section \<open>Runs and what they keep\<close>

datatype source_op =
    SCreate uuid string data_domain string source_state "ustr option" ts "datetime option"
  | SState uuid uuid source_state int "ustr option" "ustr option" "string option" ts "datetime option"
  | SPolicy uuid uuid uuid policy_snapshot int "ustr option" "ustr option" "datetime option" "string option" ts "datetime option"
  | SRoute uuid uuid uuid string string "ustr option" "ustr option" "string option" ts "datetime option"
  | SRouteState uuid uuid route_state int "ustr option" "ustr option" "datetime option" "string option" ts "datetime option"
  | SFail uuid uuid "ustr option" "ustr option" int "duration option" "string option" ts "datetime option"
  | SReset uuid ts "datetime option"
  | SCursor uuid uuid uuid string string string "ustr option" "ustr option" "uuid option" "datetime option" "string option" ts "datetime option"

fun source_step :: "(int \<Rightarrow> ts res) \<Rightarrow> source_op \<Rightarrow> db \<Rightarrow> db res" where
  "source_step naive (SCreate i k d co st actor c now) s = drop_ret (create_source i k d co st actor c now s)"
| "source_step naive (SState a pk st e reason actor req c now) s = drop_ret (set_source_state a pk st e reason actor req c now s)"
| "source_step naive (SPolicy a v pk p e actor reason eff req c now) s =
     drop_ret (add_policy_version naive a v pk p e actor reason eff req c now s)"
| "source_step naive (SRoute a i pk k key actor reason req c now) s = drop_ret (upsert_route a i pk k key actor reason req c now s)"
| "source_step naive (SRouteState a i st e actor reason till req c now) s =
     drop_ret (set_route_state naive a i st e actor reason till req c now s)"
| "source_step naive (SFail a i actor reason th d req c now) s = drop_ret (record_route_failure a i actor reason th d req c now s)"
| "source_step naive (SReset i c now) s = drop_ret (reset_route_failures i c now s)"
| "source_step naive (SCursor a i pk k key v actor reason r t req c now) s =
     drop_ret (upsert_cursor naive a i pk k key v actor reason r t req c now s)"

text \<open>The policies of a source, oldest first.\<close>

definition policies_of :: "uuid \<Rightarrow> db \<Rightarrow> source_policy_version list" where
  "policies_of pk s = filter (\<lambda>v. pv_source_id v = pk) (source_policy_versions s)"

definition policies_ok :: "db \<Rightarrow> source \<Rightarrow> bool" where
  "policies_ok s x \<longleftrightarrow>
     map pv_version (policies_of (sr_id x) s) = map int [1..<Suc (length (policies_of (sr_id x) s))]
     \<and> sr_current_policy_version_id x
         = (if policies_of (sr_id x) s = [] then None else Some (pv_id (last (policies_of (sr_id x) s))))
     \<and> int (length (policies_of (sr_id x) s)) < sr_revision x"

definition routes_inv :: "db \<Rightarrow> bool" where
  "routes_inv s \<longleftrightarrow> distinct (map rt_id (source_routes s))
     \<and> distinct (map (\<lambda>r. (rt_source_id r, rt_route_kind r, rt_route_key r)) (source_routes s))
     \<and> (\<forall>r\<in>set (source_routes s). rt_source_id r \<in> sr_id ` set (sources s) \<and> rt_route_kind r \<in> set ROUTE_KINDS
           \<and> 0 \<le> rt_consecutive_failures r \<and> 1 \<le> rt_revision r)"

definition cursors_inv :: "db \<Rightarrow> bool" where
  "cursors_inv s \<longleftrightarrow> distinct (map cu_id (source_cursors s))
     \<and> distinct (map (\<lambda>c. (cu_source_id c, cu_cursor_kind c, cu_cursor_key c)) (source_cursors s))
     \<and> (\<forall>c\<in>set (source_cursors s). cu_source_id c \<in> sr_id ` set (sources s)
           \<and> (\<forall>i. cu_route_id c = Some i \<longrightarrow> i \<in> rt_id ` set (source_routes s)))"

definition policy_inv :: "db \<Rightarrow> bool" where
  "policy_inv s \<longleftrightarrow> distinct (map sr_id (sources s)) \<and> distinct (map sr_source_id (sources s))
     \<and> distinct (map pv_id (source_policy_versions s))
     \<and> (\<forall>v\<in>set (source_policy_versions s). pv_source_id v \<in> sr_id ` set (sources s))
     \<and> (\<forall>x\<in>set (sources s). policies_ok s x)"

definition sources_inv :: "db \<Rightarrow> bool" where
  "sources_inv s \<longleftrightarrow> policy_inv s \<and> routes_inv s \<and> cursors_inv s"

text \<open>
  The decisions of the control plane: everything but the failure counter of a route and the moments
  that go with it.
\<close>

definition route_decision :: "source_route \<Rightarrow> source_route" where
  "route_decision r = r\<lparr>rt_consecutive_failures := 0, rt_last_success_at := None, rt_last_failure_at := None, rt_updated_at := 0\<rparr>"

definition control_plane ::
  "db \<Rightarrow> source list \<times> source_policy_version list \<times> source_route list \<times> source_cursor list" where
  "control_plane s = (sources s, source_policy_versions s, map route_decision (source_routes s), source_cursors s)"

text \<open>\<open>s'\<close> is \<open>s\<close> with one more audit record, which names who and why.\<close>

definition traced :: "db \<Rightarrow> db \<Rightarrow> bool" where
  "traced s s' \<longleftrightarrow> (\<exists>a fs r. s' = s\<lparr>audit_logs := audit_logs s @ [a]\<rparr> \<and> py_strip (a_actor a) \<noteq> []
     \<and> a_after_state a = Some (JObj fs) \<and> map_of fs ''reason'' = Some (JStr r) \<and> py_strip r \<noteq> [])"

subsection \<open>What each call does\<close>

lemma audit_tracedD:
  assumes "append_audit i c actor action rtype rid before (Some (JObj fs)) req None now s = Inr (a, s')"
  shows "py_strip actor \<noteq> [] \<longrightarrow> (\<forall>r. map_of fs ''reason'' = Some (JStr r) \<longrightarrow> py_strip r \<noteq> [] \<longrightarrow> traced s s')"
  using assms by (auto simp: append_audit_def Let_def traced_def split: if_splits)

lemma raise_stale_or_missing_not_Inr [simp]: "raise_stale_or_missing pk s \<noteq> Inr z"
  by (simp add: raise_stale_or_missing_def split: option.split)

lemma find_key_SomeD:
  "find (\<lambda>x. k x = i \<and> q x) rows = Some r \<Longrightarrow> r \<in> set rows \<and> k r = i \<and> q r"
  by (auto dest: find_SomeD)

lemma source_by_pkD: "source_by_pk i s = Some x \<Longrightarrow> x \<in> set (sources s) \<and> sr_id x = i"
  by (auto simp: source_by_pk_def dest: find_SomeD)

lemma source_by_pk_None: "source_by_pk i s = None \<longleftrightarrow> i \<notin> sr_id ` set (sources s)"
  by (auto simp: source_by_pk_def find_None_iff)

lemma route_by_idD: "route_by_id i s = Some r \<Longrightarrow> r \<in> set (source_routes s) \<and> rt_id r = i"
  by (auto simp: route_by_id_def dest: find_SomeD)

lemma route_by_id_None: "route_by_id i s = None \<longleftrightarrow> i \<notin> rt_id ` set (source_routes s)"
  by (auto simp: route_by_id_def find_None_iff)

lemma create_source_cases:
  assumes "create_source i k d co st actor c now s = Inr (row, s')"
  shows "s' = s\<lparr>sources := sources s @ [row]\<rparr> \<and> sr_id row = i \<and> sr_source_id row = k \<and> i \<notin> sr_id ` set (sources s)
     \<and> k \<notin> sr_source_id ` set (sources s) \<and> sr_revision row = 1 \<and> sr_current_policy_version_id row = None"
  using assms
  by (auto simp: create_source_def Let_def get_source_def source_by_pk_def find_None_iff split: if_splits)

lemma set_source_state_cases:
  assumes "set_source_state a pk st e reason actor req c now s = Inr (x', s')"
  shows "\<exists>x r w t. x \<in> set (sources s) \<and> sr_id x = pk \<and> sr_revision x = e \<and> x' = source_moved st r w t x
     \<and> traced (put_source x' s) s'"
proof (cases "find (\<lambda>x. sr_id x = pk \<and> sr_revision x = e) (sources s)")
  case None
  then show ?thesis using assms by (auto simp: set_source_state_def)
next
  case (Some x)
  then show ?thesis using assms find_key_SomeD [OF Some]
    by (auto simp: set_source_state_def Let_def require_audit_context_Inr intro!: exI [of _ x] dest!: audit_tracedD)
qed

lemma add_policy_version_cases:
  assumes "add_policy_version naive a i pk p e actor reason eff req c now s = Inr (v, s')"
  shows "\<exists>x w t rps te. x \<in> set (sources s) \<and> sr_id x = pk \<and> sr_revision x = e
     \<and> v = policy_version_row i pk p w t (last_policy_version pk s) rps te \<and> i \<notin> pv_id ` set (source_policy_versions s)
     \<and> traced (put_source (source_with_policy i w t x) (s\<lparr>source_policy_versions := source_policy_versions s @ [v]\<rparr>)) s'"
proof (cases "find (\<lambda>x. sr_id x = pk \<and> sr_revision x = e) (sources s)")
  case None
  then show ?thesis using assms by (auto simp: add_policy_version_def)
next
  case (Some x)
  have free: "policy_by_id i s = None"
    using assms Some by (auto simp: add_policy_version_def Let_def split: if_splits)
  then have "i \<notin> pv_id ` set (source_policy_versions s)" by (auto simp: policy_by_id_def find_None_iff)
  then show ?thesis using assms find_key_SomeD [OF Some] Some free
    by (auto simp: add_policy_version_def Let_def require_audit_context_Inr intro!: exI [of _ x]
          dest!: audit_tracedD) blast
qed

lemma upsert_route_cases:
  assumes "upsert_route a i pk k key actor reason req c now s = Inr (r, s')"
  shows "(s' = s \<and> r \<in> set (source_routes s) \<and> same_route pk k key r) \<or>
    (rt_id r = i \<and> i \<notin> rt_id ` set (source_routes s) \<and> pk \<in> sr_id ` set (sources s) \<and> k \<in> set ROUTE_KINDS
     \<and> (\<forall>y\<in>set (source_routes s). \<not> same_route pk k key y) \<and> same_route pk k key r \<and> rt_consecutive_failures r = 0
     \<and> rt_revision r = 1 \<and> traced (s\<lparr>source_routes := source_routes s @ [r]\<rparr>) s')"
proof (cases "find (same_route pk k key) (source_routes s)")
  case None
  then have "\<forall>y\<in>set (source_routes s). \<not> same_route pk k key y" by (auto simp: find_None_iff)
  moreover have free: "source_by_pk pk s \<noteq> None" "route_by_id i s = None" "k \<in> set ROUTE_KINDS"
    using assms None by (auto simp: upsert_route_def Let_def split: if_splits)
  moreover have "pk \<in> sr_id ` set (sources s)" "i \<notin> rt_id ` set (source_routes s)"
    using free source_by_pk_None [of pk s] route_by_id_None [of i s] by auto
  ultimately show ?thesis using None assms
    by (auto simp: upsert_route_def Let_def require_audit_context_Inr same_route_def dest!: audit_tracedD)
next
  case (Some r0)
  with assms find_SomeD [OF Some] show ?thesis by (auto simp: upsert_route_def split: if_splits)
qed

lemma set_route_state_cases:
  assumes "set_route_state naive a i st e actor reason till req c now s = Inr (r', s')"
  shows "\<exists>r w u t. r \<in> set (source_routes s) \<and> rt_id r = i \<and> rt_revision r = e \<and> r' = route_moved st w u t r
     \<and> traced (put_route r' s) s'"
proof (cases "find (\<lambda>r. rt_id r = i \<and> rt_revision r = e) (source_routes s)")
  case None
  then show ?thesis using assms by (cases "route_by_id i s") (auto simp: set_route_state_def)
next
  case (Some r)
  then show ?thesis using assms find_key_SomeD [OF Some]
    by (auto simp: set_route_state_def Let_def require_audit_context_Inr intro!: exI [of _ r] dest!: audit_tracedD)
qed

lemma record_failure_cases:
  assumes "record_route_failure a i actor reason th d req c now s = Inr (st, s')"
  shows "\<exists>r t. route_by_id i s = Some r \<and> resolve_now c now = Inr t \<and> 1 \<le> th \<and>
    (if rt_consecutive_failures r + 1 < th \<or> rt_state r \<notin> CIRCUIT_OPENABLE_ROUTE_STATES
     then st = rt_state r \<and> s' = put_route (route_failed t r) s
     else st = CircuitOpen
       \<and> (\<exists>w. traced (put_route (route_moved CircuitOpen w (map_option (\<lambda>x. t + x) d) t (route_failed t r)) (put_route (route_failed t r) s)) s'))"
proof (cases "route_by_id i s")
  case None
  then show ?thesis using assms by (auto simp: record_route_failure_def split: if_splits)
next
  case (Some r)
  have eq: "rt_consecutive_failures (route_failed t r) = rt_consecutive_failures r + 1" "rt_state (route_failed t r) = rt_state r" for t
    by (simp_all add: route_failed_def)
  show ?thesis
  proof (cases "rt_consecutive_failures r + 1 < th \<or> rt_state r \<notin> CIRCUIT_OPENABLE_ROUTE_STATES")
    case True
    then show ?thesis using assms Some eq
      by (auto simp: record_route_failure_def Let_def require_audit_context_Inr split: if_splits)
  next
    case False
    then show ?thesis using assms Some eq
      by (auto simp: record_route_failure_def Let_def require_audit_context_Inr dest!: audit_tracedD split: if_splits)
  qed
qed

lemma put_route_twice:
  "rt_id r' = rt_id r \<Longrightarrow> put_route r' (put_route r s) = put_route r' s"
  using upd_where_upd_where [of "\<lambda>y. rt_id y = rt_id r" "\<lambda>y. rt_id y = rt_id r" "\<lambda>_. r" "\<lambda>_. r'" "source_routes s"]
  by (simp add: put_route_def comp_def)

lemma reset_failures_cases:
  assumes "reset_route_failures i c now s = Inr (st, s')"
  shows "\<exists>r t. route_by_id i s = Some r \<and> resolve_now c now = Inr t \<and> st = rt_state r \<and> s' = put_route (route_succeeded t r) s"
  using assms by (cases "route_by_id i s") (auto simp: reset_route_failures_def)

lemma audit_cursor_cases:
  assumes "audit_cursor a c actor reason bv req t row s = Inr (y, s')" "py_strip actor \<noteq> []" "py_strip reason \<noteq> []"
  shows "y = row \<and> traced s s'"
  using assms by (auto simp: audit_cursor_def dest!: audit_tracedD)

lemma upsert_cursor_cases:
  assumes "upsert_cursor naive a i pk k key v actor reason r at_arg req c now s = Inr (y, s')"
  shows "(s' = s \<and> y \<in> set (source_cursors s)) \<or>
    (\<exists>x t1 t2. x \<in> set (source_cursors s) \<and> same_cursor pk k key x \<and> y = cursor_moved r v t1 t2 x
        \<and> (\<forall>j. r = Some j \<longrightarrow> j \<in> rt_id ` set (source_routes s)) \<and> traced (put_cursor y s) s') \<or>
    (cu_id y = i \<and> i \<notin> cu_id ` set (source_cursors s) \<and> pk \<in> sr_id ` set (sources s) \<and> cu_route_id y = r
     \<and> (\<forall>x\<in>set (source_cursors s). \<not> same_cursor pk k key x) \<and> same_cursor pk k key y
     \<and> (\<forall>j. r = Some j \<longrightarrow> j \<in> rt_id ` set (source_routes s)) \<and> traced (s\<lparr>source_cursors := source_cursors s @ [y]\<rparr>) s')"
proof -
  obtain w rs t t1 where ctx: "actor = Some w" "reason = Some rs" "py_strip w \<noteq> []" "py_strip rs \<noteq> []"
    "resolve_now c now = Inr t" "bind_opt_timestamptz naive at_arg = Inr t1"
    using assms by (auto simp: upsert_cursor_def require_audit_context_Inr)
  have route: "(case r of None \<Rightarrow> True | Some j \<Rightarrow> route_by_id j s \<noteq> None) \<longleftrightarrow> (\<forall>j. r = Some j \<longrightarrow> j \<in> rt_id ` set (source_routes s))"
    using route_by_id_None by (auto split: option.split)
  show ?thesis
  proof (cases "find (same_cursor pk k key) (source_cursors s)")
    case None
    then have none: "\<forall>x\<in>set (source_cursors s). \<not> same_cursor pk k key x" by (auto simp: find_None_iff)
    have "cursor_by_id i s = None \<longleftrightarrow> i \<notin> cu_id ` set (source_cursors s)"
      by (auto simp: cursor_by_id_def find_None_iff)
    then show ?thesis using assms None none ctx source_by_pk_None [of pk s]
      by (auto simp: upsert_cursor_def Let_def require_audit_context_Inr route same_cursor_def dest!: audit_cursor_cases split: if_splits)
  next
    case (Some x)
    then show ?thesis using assms ctx find_SomeD [OF Some]
      by (auto simp: upsert_cursor_def Let_def require_audit_context_Inr route dest!: audit_cursor_cases split: if_splits) blast+
  qed
qed

subsection \<open>The invariant\<close>

lemma traced_same:
  assumes "traced s s'"
  shows "sources s' = sources s" "source_policy_versions s' = source_policy_versions s" "source_routes s' = source_routes s"
    "source_cursors s' = source_cursors s"
  using assms by (auto simp: traced_def)

lemmas source_table_defs = policy_inv_def policies_ok_def policies_of_def routes_inv_def cursors_inv_def

lemma sources_inv_audit [simp]: "sources_inv (s\<lparr>audit_logs := l\<rparr>) = sources_inv s"
  by (simp add: sources_inv_def source_table_defs cong: if_cong del: upt_Suc)

lemma traced_inv: "traced s s' \<Longrightarrow> sources_inv s \<Longrightarrow> sources_inv s'"
  by (auto simp: traced_def)

lemma last_policy_version_eq:
  assumes "map pv_version (policies_of pk s) = map int [1..<Suc n]"
  shows "last_policy_version pk s = (if n = 0 then None else Some (int n))"
proof (cases n)
  case 0
  then show ?thesis using assms by (simp add: last_policy_version_def policies_of_def)
next
  case (Suc m)
  have vs: "map pv_version (filter (\<lambda>v. pv_source_id v = pk) (source_policy_versions s)) = 1 # map int [2..<Suc n]"
    using assms Suc by (simp add: policies_of_def upt_conv_Cons numeral_2_eq_2 del: upt_Suc)
  have "fold max (map int [2..<Suc n]) 1 = Max (set (1 # map int [2..<Suc n]))"
    by (rule Max.set_eq_fold [symmetric])
  also have "set (1 # map int [2..<Suc n]) = int ` {1..n}"
    using Suc by (auto simp: image_iff)
  also have "Max (int ` {1..n}) = int n"
    using Suc by (intro Max_eqI imageI) auto
  finally show ?thesis using Suc vs by (simp add: last_policy_version_def del: upt_Suc)
qed

lemma ids_put_source [simp]: "sr_id ` set (sources (put_source x s)) = sr_id ` set (sources s)"
proof -
  have "map sr_id (sources (put_source x s)) = map sr_id (sources s)"
    using map_upd_where [of "\<lambda>y. sr_id y = sr_id x" sr_id "\<lambda>_. x"] by (simp add: put_source_def)
  then show ?thesis by (metis list.set_map)
qed

lemma policy_inv_put:
  assumes "policy_inv s" "x \<in> set (sources s)" "sr_id x' = sr_id x" "sr_source_id x' = sr_source_id x" "policies_ok s x'"
  shows "policy_inv (put_source x' s)"
proof -
  have d: "distinct (map sr_id (sources s))" using assms(1) by (simp add: policy_inv_def)
  have keys: "map k (upd_where (\<lambda>y. sr_id y = sr_id x') (\<lambda>_. x') (sources s)) = map k (sources s)" if "k x' = k x" for k :: "source \<Rightarrow> 'k"
  proof -
    have "k x' = k y" if "y \<in> set (sources s)" "sr_id y = sr_id x'" for y
      using distinct_key_inj [OF d that(1) assms(2)] that \<open>k x' = k x\<close> assms(3) by simp
    then show ?thesis by (auto simp: upd_where_def)
  qed
  have ids: "sr_id ` set (upd_where (\<lambda>y. sr_id y = sr_id x') (\<lambda>_. x') (sources s)) = sr_id ` set (sources s)"
    using keys [of sr_id] assms(3) by (metis list.set_map)
  show ?thesis using assms keys [of sr_id] keys [of sr_source_id] ids
    by (auto simp: policy_inv_def put_source_def set_upd_where policies_ok_def policies_of_def)
qed

lemma policy_inv_add:
  assumes inv: "policy_inv s" and x: "x \<in> set (sources s)" and v: "pv_source_id v = sr_id x"
    "pv_version v = (case last_policy_version (sr_id x) s of None \<Rightarrow> 0 | Some n \<Rightarrow> n) + 1"
    "pv_id v \<notin> pv_id ` set (source_policy_versions s)"
    and x': "sr_id x' = sr_id x" "sr_source_id x' = sr_source_id x" "sr_revision x' = sr_revision x + 1"
      "sr_current_policy_version_id x' = Some (pv_id v)"
  shows "policy_inv (put_source x' (s\<lparr>source_policy_versions := source_policy_versions s @ [v]\<rparr>))"
proof -
  let ?s = "s\<lparr>source_policy_versions := source_policy_versions s @ [v]\<rparr>"
  have ok: "policies_ok s x" using inv x by (simp add: policy_inv_def)
  have vs: "policies_of (sr_id x) ?s = policies_of (sr_id x) s @ [v]" using v by (simp add: policies_of_def)
  have other: "policies_of j ?s = policies_of j s" if "j \<noteq> sr_id x" for j using v that by (simp add: policies_of_def)
  have "pv_version v = int (length (policies_of (sr_id x) s)) + 1"
    using v(2) last_policy_version_eq [of "sr_id x" s "length (policies_of (sr_id x) s)"] ok by (auto simp: policies_ok_def)
  then have ok': "policies_ok ?s x'"
    using ok x' vs by (auto simp: policies_ok_def split: if_splits)
  have d: "distinct (map sr_id (sources s))" using inv by (simp add: policy_inv_def)
  let ?m = "put_source x' ?s"
  have "policies_ok ?m y" if "y \<in> set (sources ?m)" for y
  proof (cases "y = x'")
    case True
    then show ?thesis using ok' by (simp add: policies_ok_def policies_of_def put_source_def)
  next
    case False
    then have y: "y \<in> set (sources s)" "sr_id y \<noteq> sr_id x" using that x' by (auto simp: put_source_def set_upd_where)
    then have "policies_ok s y" using inv by (simp add: policy_inv_def)
    then show ?thesis using other [OF y(2)] by (simp add: policies_ok_def policies_of_def put_source_def)
  qed
  moreover have "map sr_id (sources ?m) = map sr_id (sources s) \<and> map sr_source_id (sources ?m) = map sr_source_id (sources s)"
    using x' distinct_key_inj [OF d _ x] by (auto simp: put_source_def upd_where_def)
  moreover have "sr_id ` set (sources ?m) = sr_id ` set (sources s)" using calculation(2) by (metis list.set_map)
  moreover have "source_policy_versions ?m = source_policy_versions s @ [v]" by (simp add: put_source_def)
  ultimately show ?thesis using inv v(1,3) x unfolding policy_inv_def by (auto simp: distinct_append)
qed

lemma policies_ok_bump:
  assumes "policies_ok s x" "sr_id x' = sr_id x" "sr_current_policy_version_id x' = sr_current_policy_version_id x"
    "sr_revision x \<le> sr_revision x'"
  shows "policies_ok s x'"
  using assms by (auto simp: policies_ok_def)

lemma routes_inv_put:
  assumes "routes_inv s" "r \<in> set (source_routes s)" "rt_id r' = rt_id r"
    "rt_source_id r' = rt_source_id r" "rt_route_kind r' = rt_route_kind r" "rt_route_key r' = rt_route_key r"
    "0 \<le> rt_consecutive_failures r'" "1 \<le> rt_revision r'"
  shows "routes_inv (put_route r' s)" "rt_id ` set (source_routes (put_route r' s)) = rt_id ` set (source_routes s)"
proof -
  have d: "distinct (map rt_id (source_routes s))" using assms(1) by (simp add: routes_inv_def)
  have keys: "map k (source_routes (put_route r' s)) = map k (source_routes s)" if "k r' = k r" for k :: "source_route \<Rightarrow> 'k"
    using that distinct_key_inj [OF d _ assms(2)] assms(3) by (auto simp: put_route_def upd_where_def)
  have "\<forall>y\<in>set (source_routes (put_route r' s)). y = r' \<or> y \<in> set (source_routes s)"
    by (auto simp: put_route_def set_upd_where)
  moreover have "sources (put_route r' s) = sources s" by (simp add: put_route_def)
  ultimately show "routes_inv (put_route r' s)" using assms keys [of rt_id]
      keys [of "\<lambda>r. (rt_source_id r, rt_route_kind r, rt_route_key r)"]
    unfolding routes_inv_def by metis
  show "rt_id ` set (source_routes (put_route r' s)) = rt_id ` set (source_routes s)"
    using keys [of rt_id] assms(3) by (metis list.set_map)
qed

lemma sources_inv_put_route:
  assumes "sources_inv s" "r \<in> set (source_routes s)" "rt_id r' = rt_id r"
    "rt_source_id r' = rt_source_id r" "rt_route_kind r' = rt_route_kind r" "rt_route_key r' = rt_route_key r"
    "0 \<le> rt_consecutive_failures r'" "1 \<le> rt_revision r'"
  shows "sources_inv (put_route r' s)"
proof -
  have "policy_inv (put_route r' s) = policy_inv s"
    by (simp add: policy_inv_def policies_ok_def policies_of_def put_route_def cong: if_cong del: upt_Suc)
  moreover have "cursors_inv (put_route r' s) = cursors_inv s"
    using routes_inv_put(2) [of s r r'] assms unfolding cursors_inv_def sources_inv_def by (simp add: put_route_def)
  ultimately show ?thesis using assms routes_inv_put(1) [of s r r'] by (simp add: sources_inv_def)
qed

lemma route_ok:
  assumes "sources_inv s" "r \<in> set (source_routes s)"
  shows "0 \<le> rt_consecutive_failures r" "1 \<le> rt_revision r"
  using assms by (auto simp: sources_inv_def routes_inv_def)

lemma put_source_others [simp]:
  "source_routes (put_source x s) = source_routes s" "source_cursors (put_source x s) = source_cursors s"
  by (simp_all add: put_source_def)

lemma sources_inv_put_source:
  "sources_inv s \<Longrightarrow> policy_inv (put_source x' s) \<Longrightarrow> sources_inv (put_source x' s)"
  by (simp add: sources_inv_def routes_inv_def cursors_inv_def)

lemma create_source_inv:
  assumes "sources_inv s" "create_source i k d co st actor c now s = Inr (row, s')"
  shows "sources_inv s'"
proof -
  note c = create_source_cases [OF assms(2)]
  have "pv_source_id v \<noteq> i" if "v \<in> set (source_policy_versions s)" for v
    using assms(1) c that unfolding sources_inv_def policy_inv_def by metis
  then have "policies_of i s = []" by (simp add: policies_of_def filter_empty_conv)
  then have "policies_ok s' row" using c by (simp add: policies_ok_def policies_of_def)
  moreover have "policies_ok s' y" if "policies_ok s y" for y
    using that c by (simp add: policies_ok_def policies_of_def cong: if_cong del: upt_Suc)
  ultimately have "policy_inv s'" using assms(1) c by (auto simp: sources_inv_def policy_inv_def)
  moreover have "routes_inv s'" "cursors_inv s'"
    using assms(1) c by (auto simp: sources_inv_def routes_inv_def cursors_inv_def)
  ultimately show ?thesis by (simp add: sources_inv_def)
qed

lemma set_source_state_inv:
  assumes "sources_inv s" "set_source_state a pk st e reason actor req c now s = Inr (x', s')"
  shows "sources_inv s'"
proof -
  obtain x r w t where x: "x \<in> set (sources s)" "x' = source_moved st r w t x" "traced (put_source x' s) s'"
    using set_source_state_cases [OF assms(2)] by blast
  have "policies_ok s x" using assms(1) x by (simp add: sources_inv_def policy_inv_def)
  then have "policies_ok s x'" by (rule policies_ok_bump) (simp_all add: x(2) source_moved_def)
  then have "policy_inv (put_source x' s)"
    using assms(1) x by (intro policy_inv_put [of s x]) (simp_all add: sources_inv_def source_moved_def)
  then show ?thesis using sources_inv_put_source [OF assms(1)] traced_inv [OF x(3)] by simp
qed

lemma add_policy_version_inv:
  assumes "sources_inv s" "add_policy_version naive a i pk p e actor reason eff req c now s = Inr (v, s')"
  shows "sources_inv s'"
proof -
  let ?s = "s\<lparr>source_policy_versions := source_policy_versions s @ [v]\<rparr>"
  obtain x w t rps te where x: "x \<in> set (sources s)" "sr_id x = pk"
      "v = policy_version_row i pk p w t (last_policy_version pk s) rps te" "i \<notin> pv_id ` set (source_policy_versions s)"
      "traced (put_source (source_with_policy i w t x) ?s) s'"
    using add_policy_version_cases [OF assms(2)] by blast
  have pol: "policy_inv (put_source (source_with_policy i w t x) ?s)"
    using assms(1) x by (intro policy_inv_add [of s x]) (simp_all add: sources_inv_def policy_version_row_def source_with_policy_def)
  have "sources_inv (put_source (source_with_policy i w t x) ?s)"
    using assms(1) pol by (simp add: sources_inv_def routes_inv_def cursors_inv_def)
  then show ?thesis by (rule traced_inv [OF x(5)])
qed

lemma upsert_route_inv:
  assumes "sources_inv s" "upsert_route a i pk k key actor reason req c now s = Inr (r, s')"
  shows "sources_inv s'"
proof -
  have "sources_inv (s\<lparr>source_routes := source_routes s @ [r]\<rparr>)"
    if "rt_id r = i" "i \<notin> rt_id ` set (source_routes s)" "pk \<in> sr_id ` set (sources s)" "k \<in> set ROUTE_KINDS"
      "\<forall>y\<in>set (source_routes s). \<not> same_route pk k key y" "same_route pk k key r" "rt_consecutive_failures r = 0" "rt_revision r = 1"
  proof -
    have "policy_inv (s\<lparr>source_routes := source_routes s @ [r]\<rparr>) = policy_inv s"
      by (simp add: policy_inv_def policies_ok_def policies_of_def cong: if_cong del: upt_Suc)
    moreover have "routes_inv (s\<lparr>source_routes := source_routes s @ [r]\<rparr>)"
      using assms(1) that by (auto simp: sources_inv_def routes_inv_def same_route_def)
    moreover have "cursors_inv (s\<lparr>source_routes := source_routes s @ [r]\<rparr>)"
      using assms(1) by (auto simp: sources_inv_def cursors_inv_def)
    ultimately show ?thesis using assms(1) by (simp add: sources_inv_def)
  qed
  then show ?thesis using upsert_route_cases [OF assms(2)] assms(1) traced_inv by blast
qed

lemma set_route_state_inv:
  assumes "sources_inv s" "set_route_state naive a i st e actor reason till req c now s = Inr (r', s')"
  shows "sources_inv s'"
proof -
  obtain r w u1 t where r: "r \<in> set (source_routes s)" "r' = route_moved st w u1 t r" "traced (put_route r' s) s'"
    using set_route_state_cases [OF assms(2)] by blast
  have "sources_inv (put_route r' s)"
    using assms(1) r route_ok [OF assms(1) r(1)] by (intro sources_inv_put_route [of s r]) (simp_all add: route_moved_def)
  then show ?thesis by (rule traced_inv [OF r(3)])
qed

lemma record_route_failure_inv:
  assumes "sources_inv s" "record_route_failure a i actor reason th d req c now s = Inr (st, s')"
  shows "sources_inv s'"
proof -
  obtain r t where r: "r \<in> set (source_routes s)"
    and out: "s' = put_route (route_failed t r) s \<or>
      (\<exists>w till. traced (put_route (route_moved CircuitOpen w till t (route_failed t r)) (put_route (route_failed t r) s)) s')"
    using record_failure_cases [OF assms(2)] by (auto split: if_splits dest: route_by_idD)
  note ok = route_ok [OF assms(1) r]
  have "sources_inv (put_route (route_failed t r) s)"
    using assms(1) r ok by (intro sources_inv_put_route [of s r]) (simp_all add: route_failed_def)
  moreover have "sources_inv (put_route (route_moved CircuitOpen w till t (route_failed t r)) (put_route (route_failed t r) s))" for w till
    using assms(1) r ok
    by (subst put_route_twice) (auto simp: route_moved_def route_failed_def intro!: sources_inv_put_route [of s r])
  ultimately show ?thesis using out traced_inv by blast
qed

lemma reset_route_failures_inv:
  assumes "sources_inv s" "reset_route_failures i c now s = Inr (st, s')"
  shows "sources_inv s'"
proof -
  obtain r t where r: "r \<in> set (source_routes s)" "s' = put_route (route_succeeded t r) s"
    using reset_failures_cases [OF assms(2)] by (auto dest: route_by_idD)
  then show ?thesis using assms(1) route_ok [OF assms(1) r(1)]
    by (auto intro!: sources_inv_put_route [of s r] simp: route_succeeded_def)
qed

lemma sources_inv_put_cursor:
  assumes "sources_inv s" "x \<in> set (source_cursors s)" "cu_id y = cu_id x" "cu_source_id y = cu_source_id x"
    "cu_cursor_kind y = cu_cursor_kind x" "cu_cursor_key y = cu_cursor_key x"
    "\<forall>j. cu_route_id y = Some j \<longrightarrow> j \<in> rt_id ` set (source_routes s)"
  shows "sources_inv (put_cursor y s)"
proof -
  have d: "distinct (map cu_id (source_cursors s))" using assms(1) by (simp add: sources_inv_def cursors_inv_def)
  have keys: "map k (source_cursors (put_cursor y s)) = map k (source_cursors s)" if "k y = k x" for k :: "source_cursor \<Rightarrow> 'k"
    using that distinct_key_inj [OF d _ assms(2)] assms(3) by (auto simp: put_cursor_def upd_where_def)
  have "\<forall>z\<in>set (source_cursors (put_cursor y s)). z = y \<or> z \<in> set (source_cursors s)"
    by (auto simp: put_cursor_def set_upd_where)
  moreover have "sources (put_cursor y s) = sources s" "source_routes (put_cursor y s) = source_routes s"
    by (simp_all add: put_cursor_def)
  ultimately have "cursors_inv (put_cursor y s)" using assms keys [of cu_id]
      keys [of "\<lambda>c. (cu_source_id c, cu_cursor_kind c, cu_cursor_key c)"]
    unfolding cursors_inv_def sources_inv_def by metis
  moreover have "policy_inv (put_cursor y s) = policy_inv s" "routes_inv (put_cursor y s) = routes_inv s"
    by (simp_all add: policy_inv_def policies_ok_def policies_of_def routes_inv_def put_cursor_def cong: if_cong del: upt_Suc)
  ultimately show ?thesis using assms(1) by (simp add: sources_inv_def)
qed

lemma upsert_cursor_inv:
  assumes "sources_inv s" "upsert_cursor naive a i pk k key v actor reason r at_arg req c now s = Inr (y, s')"
  shows "sources_inv s'"
proof -
  have moved: "sources_inv (put_cursor (cursor_moved r v t1 t2 x) s)"
    if "x \<in> set (source_cursors s)" "\<forall>j. r = Some j \<longrightarrow> j \<in> rt_id ` set (source_routes s)" for x t1 t2
    using that by (intro sources_inv_put_cursor [OF assms(1)]) (simp_all add: cursor_moved_def)
  have new: "sources_inv (s\<lparr>source_cursors := source_cursors s @ [y]\<rparr>)"
    if "cu_id y = i" "i \<notin> cu_id ` set (source_cursors s)" "pk \<in> sr_id ` set (sources s)" "cu_route_id y = r"
      "\<forall>x\<in>set (source_cursors s). \<not> same_cursor pk k key x" "same_cursor pk k key y"
      "\<forall>j. r = Some j \<longrightarrow> j \<in> rt_id ` set (source_routes s)"
  proof -
    have "policy_inv (s\<lparr>source_cursors := source_cursors s @ [y]\<rparr>) = policy_inv s"
      "routes_inv (s\<lparr>source_cursors := source_cursors s @ [y]\<rparr>) = routes_inv s"
      by (simp_all add: policy_inv_def policies_ok_def policies_of_def routes_inv_def cong: if_cong del: upt_Suc)
    moreover have "cursors_inv (s\<lparr>source_cursors := source_cursors s @ [y]\<rparr>)"
      using assms(1) that by (auto simp: sources_inv_def cursors_inv_def same_cursor_def)
    ultimately show ?thesis using assms(1) by (simp add: sources_inv_def)
  qed
  show ?thesis using upsert_cursor_cases [OF assms(2)] assms(1) moved new traced_inv by blast
qed

lemmas source_op_invs = create_source_inv set_source_state_inv add_policy_version_inv upsert_route_inv
  set_route_state_inv record_route_failure_inv reset_route_failures_inv upsert_cursor_inv

lemma source_step_inv: "sources_inv s \<Longrightarrow> source_step naive p s = Inr s' \<Longrightarrow> sources_inv s'"
  by (cases p) (auto dest: source_op_invs)

interpretation source_run: invariant_system "source_step naive" sources_inv for naive
  by unfold_locales (rule source_step_inv)

lemma sources_inv_empty [simp]: "sources_inv empty_db"
  by (simp add: sources_inv_def policy_inv_def routes_inv_def cursors_inv_def)

text \<open>
  Over any run of the control plane, the policies of a source are numbered 1, 2, 3, ... in the
  order they were made, its current policy is the last of them, names and natural keys stay unique,
  and routes and cursors refer to rows that exist.
\<close>

theorem source_policies_are_numbered:
  assumes "sources_inv s" "x \<in> set (sources (run_ops (source_step naive) ps s))"
  shows "sources_inv (run_ops (source_step naive) ps s)
     \<and> map pv_version (policies_of (sr_id x) (run_ops (source_step naive) ps s))
         = map int [1..<Suc (length (policies_of (sr_id x) (run_ops (source_step naive) ps s)))]
     \<and> (policies_of (sr_id x) (run_ops (source_step naive) ps s) \<noteq> []
         \<longrightarrow> sr_current_policy_version_id x = Some (pv_id (last (policies_of (sr_id x) (run_ops (source_step naive) ps s)))))"
proof -
  have inv: "sources_inv (run_ops (source_step naive) ps s)" by (rule source_run.run_inv [OF assms(1)])
  then have "policies_ok (run_ops (source_step naive) ps s) x" using assms(2) by (simp add: sources_inv_def policy_inv_def)
  then show ?thesis using inv by (simp add: policies_ok_def del: upt_Suc)
qed

definition demo_policy :: policy_snapshot where
  "demo_policy = \<lparr>ps_requests_per_second = 1/2, ps_max_concurrency = 1, ps_crawl_interval_seconds = 60, ps_robots_policy = ''obey'',
     ps_manifest_sha256 = ''h'', ps_burst_tokens = 1, ps_browser_allowed = False, ps_manifest_uri = None\<rparr>"

definition demo_sources :: "source_op list" where
  "demo_sources =
     [SCreate 1 ''olx'' Catalog ''ua'' Paused None 0 (utc 1),
      SPolicy 10 2 1 demo_policy 1 (Some (ulit ''op'')) (Some (ulit ''go'')) None None 0 (utc 2)]"

lemma demo_sources_run:
  "map_option (\<lambda>x. (sr_current_policy_version_id x, sr_revision x)) (source_by_pk 1 (run_ops (source_step Inr) demo_sources empty_db))
     = Some (Some 2, 2)"
  by code_simp

theorem source_policies_are_numbered_witness:
  "map pv_version (policies_of 1 (run_ops (source_step Inr) demo_sources empty_db))
     = map int [1..<Suc (length (policies_of 1 (run_ops (source_step Inr) demo_sources empty_db)))]"
proof -
  obtain x where "source_by_pk 1 (run_ops (source_step Inr) demo_sources empty_db) = Some x"
    using demo_sources_run by auto
  then have x: "x \<in> set (sources (run_ops (source_step Inr) demo_sources empty_db))" "sr_id x = 1" by (auto dest: source_by_pkD)
  from source_policies_are_numbered [OF sources_inv_empty x(1)] x(2) show ?thesis by simp
qed

section \<open>No decision without a trace\<close>

lemma upd_where_changes:
  assumes "r \<in> set rows" "p r" "g (f r) \<noteq> g r"
  shows "map g (upd_where p f rows) \<noteq> map g rows"
  using assms by (induction rows) auto

lemma put_source_changes:
  assumes "x \<in> set (sources s)" "sr_id x' = sr_id x" "sr_revision x' \<noteq> sr_revision x"
  shows "sources (put_source x' s) \<noteq> sources s"
  using upd_where_changes [of x "sources s" "\<lambda>y. sr_id y = sr_id x'" sr_revision "\<lambda>_. x'"] assms
  by (auto simp: put_source_def)

lemma put_cursor_changes:
  assumes "x \<in> set (source_cursors s)" "cu_id x' = cu_id x" "cu_revision x' \<noteq> cu_revision x"
  shows "source_cursors (put_cursor x' s) \<noteq> source_cursors s"
  using upd_where_changes [of x "source_cursors s" "\<lambda>y. cu_id y = cu_id x'" cu_revision "\<lambda>_. x'"] assms
  by (auto simp: put_cursor_def)

lemma put_route_changes:
  assumes "r \<in> set (source_routes s)" "rt_id r' = rt_id r" "rt_revision r' \<noteq> rt_revision r"
  shows "map route_decision (source_routes (put_route r' s)) \<noteq> map route_decision (source_routes s)"
proof -
  have "map rt_revision (source_routes (put_route r' s)) \<noteq> map rt_revision (source_routes s)"
    using upd_where_changes [of r "source_routes s" "\<lambda>y. rt_id y = rt_id r'" rt_revision "\<lambda>_. r'"] assms
    by (auto simp: put_route_def)
  moreover have "map rt_revision rs = map rt_revision (map route_decision rs)" for rs by (simp add: route_decision_def)
  ultimately show ?thesis by metis
qed

lemma put_route_same:
  assumes "sources_inv s" "r \<in> set (source_routes s)" "rt_id r' = rt_id r" "route_decision r' = route_decision r"
  shows "map route_decision (source_routes (put_route r' s)) = map route_decision (source_routes s)"
proof -
  have "distinct (map rt_id (source_routes s))" using assms(1) by (simp add: sources_inv_def routes_inv_def)
  then show ?thesis using assms distinct_key_inj [of rt_id "source_routes s" _ r] by (auto simp: put_route_def upd_where_def)
qed

lemma traced_control: "traced s1 s' \<Longrightarrow> audit_logs s1 = audit_logs s \<Longrightarrow> control_plane s1 \<noteq> control_plane s \<Longrightarrow>
  control_plane s' \<noteq> control_plane s \<and> (\<exists>a fs r. audit_logs s' = audit_logs s @ [a] \<and> py_strip (a_actor a) \<noteq> []
     \<and> a_after_state a = Some (JObj fs) \<and> map_of fs ''reason'' = Some (JStr r) \<and> py_strip r \<noteq> [])"
  by (auto simp: traced_def control_plane_def)

lemma audit_untouched [simp]:
  "audit_logs (put_source x s) = audit_logs s" "audit_logs (put_route r s) = audit_logs s" "audit_logs (put_cursor c s) = audit_logs s"
  by (simp_all add: put_source_def put_route_def put_cursor_def)

definition decided :: "db \<Rightarrow> db \<Rightarrow> bool" where
  "decided s s' \<longleftrightarrow> control_plane s' \<noteq> control_plane s \<and> (\<exists>a fs r. audit_logs s' = audit_logs s @ [a] \<and> py_strip (a_actor a) \<noteq> []
     \<and> a_after_state a = Some (JObj fs) \<and> map_of fs ''reason'' = Some (JStr r) \<and> py_strip r \<noteq> [])"

definition undecided :: "db \<Rightarrow> db \<Rightarrow> bool" where
  "undecided s s' \<longleftrightarrow> control_plane s' = control_plane s \<and> audit_logs s' = audit_logs s"

lemma decidedI:
  "traced s1 s' \<Longrightarrow> audit_logs s1 = audit_logs s \<Longrightarrow> control_plane s1 \<noteq> control_plane s \<Longrightarrow> decided s s'"
  unfolding decided_def by (rule traced_control)

lemma put_route_undecided:
  assumes "sources_inv s" "r \<in> set (source_routes s)" "rt_id r' = rt_id r" "route_decision r' = route_decision r"
  shows "undecided s (put_route r' s)"
  using put_route_same [OF assms] by (simp add: undecided_def control_plane_def) (simp add: put_route_def)

lemma failure_decides:
  assumes inv: "sources_inv s" and f: "record_route_failure a i actor reason th d req c now s = Inr (st, s')"
  shows "undecided s s' \<or> decided s s'"
proof -
  obtain r t where r: "r \<in> set (source_routes s)"
    and out: "s' = put_route (route_failed t r) s \<or>
      (\<exists>w till. traced (put_route (route_moved CircuitOpen w till t (route_failed t r)) (put_route (route_failed t r) s)) s')"
    using record_failure_cases [OF f] by (auto split: if_splits dest: route_by_idD)
  have "undecided s (put_route (route_failed t r) s)"
    using inv r by (rule put_route_undecided) (simp_all add: route_failed_def route_decision_def)
  moreover have "decided s s'"
    if "traced (put_route (route_moved CircuitOpen w till t (route_failed t r)) (put_route (route_failed t r) s)) s'" for w till
  proof -
    have one: "put_route (route_moved CircuitOpen w till t (route_failed t r)) (put_route (route_failed t r) s)
        = put_route (route_moved CircuitOpen w till t (route_failed t r)) s"
      by (rule put_route_twice) (simp add: route_moved_def)
    show ?thesis
    proof (rule decidedI [OF that [unfolded one]])
      show "control_plane (put_route (route_moved CircuitOpen w till t (route_failed t r)) s) \<noteq> control_plane s"
        using put_route_changes [OF r, of "route_moved CircuitOpen w till t (route_failed t r)"]
        by (simp add: control_plane_def route_moved_def route_failed_def)
    qed simp
  qed
  ultimately show ?thesis using out by blast
qed

lemma cursor_decides:
  assumes "upsert_cursor naive a i pk k key v actor reason r cat req c now s = Inr (y, s')"
  shows "undecided s s' \<or> decided s s'"
proof -
  have "control_plane (put_cursor (cursor_moved r v t1 t2 x) s) \<noteq> control_plane s" if "x \<in> set (source_cursors s)" for x t1 t2
    using put_cursor_changes [OF that, of "cursor_moved r v t1 t2 x"] by (simp add: control_plane_def cursor_moved_def)
  then show ?thesis
    using upsert_cursor_cases [OF assms] by (auto intro!: decidedI simp: undecided_def) (auto simp: control_plane_def)
qed

fun creates :: "source_op \<Rightarrow> bool" where
  "creates (SCreate i k d co st actor c now) = True"
| "creates _ = False"

text \<open>
  Every call of the control plane but \<open>create_source\<close> either changes no decision and leaves the
  audit log as it is, or changes one and adds exactly one audit record, with a non-blank actor and a
  non-blank reason.
\<close>

theorem control_changes_are_audited:
  assumes inv: "sources_inv s" and st: "source_step naive p s = Inr s'" and new: "\<not> creates p"
  shows "(control_plane s' = control_plane s \<and> audit_logs s' = audit_logs s)
     \<or> (control_plane s' \<noteq> control_plane s \<and> (\<exists>a fs r. audit_logs s' = audit_logs s @ [a] \<and> py_strip (a_actor a) \<noteq> []
          \<and> a_after_state a = Some (JObj fs) \<and> map_of fs ''reason'' = Some (JStr r) \<and> py_strip r \<noteq> []))"
  unfolding undecided_def [symmetric] decided_def [symmetric]
proof (cases p)
  case (SState a pk state e reason actor req c now)
  then obtain x r w t where "x \<in> set (sources s)" "traced (put_source (source_moved state r w t x) s) s'"
    using st by (auto dest!: set_source_state_cases)
  then show "undecided s s' \<or> decided s s'"
    using put_source_changes [of x s "source_moved state r w t x"]
    by (auto intro!: decidedI simp: control_plane_def source_moved_def)
next
  case (SPolicy a i pk pol e actor reason eff req c now)
  then obtain x w t v where "traced (put_source (source_with_policy i w t x) (s\<lparr>source_policy_versions := source_policy_versions s @ [v]\<rparr>)) s'"
    using st by (auto dest!: add_policy_version_cases)
  then show "undecided s s' \<or> decided s s'" by (auto intro!: decidedI simp: control_plane_def put_source_def)
next
  case (SRoute a i pk k key actor reason req c now)
  then show "undecided s s' \<or> decided s s'"
    using st by (auto dest!: upsert_route_cases intro!: decidedI simp: control_plane_def undecided_def)
next
  case (SRouteState a i state e actor reason till req c now)
  then obtain r w u1 t where "r \<in> set (source_routes s)" "traced (put_route (route_moved state w u1 t r) s) s'"
    using st by (auto dest!: set_route_state_cases)
  then show "undecided s s' \<or> decided s s'"
    using put_route_changes [of r s "route_moved state w u1 t r"]
    by (auto intro!: decidedI simp: control_plane_def route_moved_def)
next
  case (SFail a i actor reason th d req c now)
  then show "undecided s s' \<or> decided s s'" using st by (auto dest: failure_decides [OF inv])
next
  case (SReset i c now)
  then obtain r t where "r \<in> set (source_routes s)" "s' = put_route (route_succeeded t r) s"
    using st by (auto dest!: reset_failures_cases route_by_idD)
  then show "undecided s s' \<or> decided s s'"
    using put_route_undecided [OF inv, of r "route_succeeded t r"] by (simp add: route_succeeded_def route_decision_def)
next
  case (SCursor a i pk k key v actor reason r cat req c now)
  then show "undecided s s' \<or> decided s s'" using st by (auto dest: cursor_decides)
qed (use new in simp)

lemma demo_route_step:
  "map_sum id (\<lambda>s'. length (audit_logs s'))
     (source_step Inr (SRoute 12 4 1 ''rss'' ''main'' (Some (ulit ''op'')) (Some (ulit ''go'')) None 0 (utc 4))
        (run_ops (source_step Inr) (take 1 demo_sources) empty_db)) = Inr 1"
  by code_simp

theorem control_changes_are_audited_witness:
  "\<exists>s'. source_step Inr (SRoute 12 4 1 ''rss'' ''main'' (Some (ulit ''op'')) (Some (ulit ''go'')) None 0 (utc 4))
        (run_ops (source_step Inr) (take 1 demo_sources) empty_db) = Inr s'
     \<and> (control_plane s' = control_plane (run_ops (source_step Inr) (take 1 demo_sources) empty_db)
          \<or> length (audit_logs s') = length (audit_logs (run_ops (source_step Inr) (take 1 demo_sources) empty_db)) + 1)"
proof -
  let ?s = "run_ops (source_step Inr) (take 1 demo_sources) empty_db"
  let ?p = "SRoute 12 4 1 ''rss'' ''main'' (Some (ulit ''op'')) (Some (ulit ''go'')) None 0 (utc 4)"
  obtain s' where s': "source_step Inr ?p ?s = Inr s'" using demo_route_step by (cases "source_step Inr ?p ?s") auto
  have "sources_inv ?s" by (rule source_run.run_inv) simp
  from control_changes_are_audited [OF this s'] s' show ?thesis by auto
qed

text \<open>
  Creating a source is the one change of the control plane that leaves no trace.
\<close>

lemma created_source_is_not_audited:
  assumes "create_source i k d co st actor c now s = Inr (row, s')"
  shows "control_plane s' \<noteq> control_plane s \<and> audit_logs s' = audit_logs s"
  using create_source_cases [OF assms] by (simp add: control_plane_def)

section \<open>The circuit breaker\<close>

text \<open>
  The fetches of one route as the fetcher reports them: \<open>(True, audit_id, now)\<close> for a failure,
  \<open>(False, _, now)\<close> for a success.
\<close>

fun report_fetches ::
  "uuid \<Rightarrow> ustr \<Rightarrow> ustr \<Rightarrow> int \<Rightarrow> duration option \<Rightarrow> (bool \<times> uuid \<times> ts) list \<Rightarrow> db \<Rightarrow> db res" where
  "report_fetches i actor reason th d [] s = Inr s"
| "report_fetches i actor reason th d ((failed, a, t) # es) s =
     bind_res (drop_ret (if failed then record_route_failure a i (Some actor) (Some reason) th d None 0 (utc t) s
                         else reset_route_failures i 0 (utc t) s))
       (report_fetches i actor reason th d es)"

text \<open>The reference: somewhere in the reports there are \<open>n\<close> failures in a row.\<close>

definition has_streak :: "nat \<Rightarrow> bool list \<Rightarrow> bool" where
  "has_streak n bs \<longleftrightarrow> (\<exists>us vs. bs = us @ replicate n True @ vs)"

definition tail_failures :: "bool list \<Rightarrow> nat" where
  "tail_failures bs = length (takeWhile id (List.rev bs))"

lemma tail_failures_snoc [simp]:
  "tail_failures [] = 0" "tail_failures (bs @ [b]) = (if b then tail_failures bs + 1 else 0)"
  by (auto simp: tail_failures_def)

lemma tail_failures_replicate: "n \<le> tail_failures bs \<longleftrightarrow> (\<exists>us. bs = us @ replicate n True)"
proof (induction n arbitrary: bs)
  case (Suc n)
  show ?case
  proof (cases bs rule: rev_cases)
    case (snoc cs c)
    show ?thesis
    proof
      assume "Suc n \<le> tail_failures bs"
      then have "c" "n \<le> tail_failures cs" using snoc by (auto split: if_splits)
      then obtain us where "cs = us @ replicate n True" using Suc.IH by blast
      then show "\<exists>us. bs = us @ replicate (Suc n) True"
        using snoc \<open>c\<close> by (auto simp: replicate_append_same)
    next
      assume "\<exists>us. bs = us @ replicate (Suc n) True"
      then obtain us where "bs = us @ replicate n True @ [True]" by (auto simp: replicate_append_same)
      then have "cs = us @ replicate n True" "c" using snoc by (metis append_assoc butlast_snoc last_snoc)+
      then have "n \<le> tail_failures cs" using Suc.IH by blast
      then show "Suc n \<le> tail_failures bs" using \<open>c\<close> unfolding snoc by simp
    qed
  qed (auto simp: tail_failures_def)
qed auto

lemma has_streak_snoc:
  assumes "0 < n"
  shows "has_streak n (bs @ [b]) \<longleftrightarrow> has_streak n bs \<or> n \<le> tail_failures (bs @ [b])"
proof
  assume "has_streak n (bs @ [b])"
  then obtain us vs where "bs @ [b] = us @ replicate n True @ vs" by (auto simp: has_streak_def)
  then show "has_streak n bs \<or> n \<le> tail_failures (bs @ [b])"
    by (cases vs rule: rev_cases) (auto simp: has_streak_def tail_failures_replicate simp del: tail_failures_snoc)
next
  assume "has_streak n bs \<or> n \<le> tail_failures (bs @ [b])"
  then show "has_streak n (bs @ [b])"
    by (auto simp: has_streak_def tail_failures_replicate simp del: tail_failures_snoc) (metis append_assoc append_Nil2)+
qed

lemma route_by_id_put:
  assumes "route_by_id i s = Some r" "rt_id r' = i"
  shows "route_by_id i (put_route r' s) = Some r'"
proof -
  have "route_by_id i (put_route r' s) = map_option (\<lambda>y. if rt_id y = rt_id r' then r' else y) (route_by_id i s)"
    unfolding route_by_id_def put_route_def
    using find_upd_where [of "\<lambda>y. rt_id y = rt_id r'" "\<lambda>x. rt_id x = i" "\<lambda>_. r'" "source_routes s"] by simp
  then show ?thesis using assms by (auto dest: route_by_idD)
qed

lemma route_by_id_traced: "traced s s' \<Longrightarrow> route_by_id i s' = route_by_id i s"
  by (simp add: route_by_id_def traced_same)

text \<open>One report: what it does to the counter and to the state of the route.\<close>

lemma failure_on_route:
  assumes "record_route_failure a i actor reason th d req c now s = Inr (st, s')" "route_by_id i s = Some r"
  shows "\<exists>r'. route_by_id i s' = Some r' \<and> rt_consecutive_failures r' = rt_consecutive_failures r + 1
     \<and> rt_state r' = (if th \<le> rt_consecutive_failures r + 1 \<and> rt_state r \<in> CIRCUIT_OPENABLE_ROUTE_STATES then CircuitOpen else rt_state r)"
proof -
  let ?quiet = "rt_consecutive_failures r + 1 < th \<or> rt_state r \<notin> CIRCUIT_OPENABLE_ROUTE_STATES"
  obtain t w till where quiet: "?quiet \<Longrightarrow> s' = put_route (route_failed t r) s"
    and opened: "\<not> ?quiet \<Longrightarrow> traced (put_route (route_moved CircuitOpen w till t (route_failed t r)) (put_route (route_failed t r) s)) s'"
    using record_failure_cases [OF assms(1)] assms(2) by (cases ?quiet) auto
  have id: "rt_id r = i" using assms(2) by (auto dest: route_by_idD)
  have 1: "route_by_id i (put_route (route_failed t r) s) = Some (route_failed t r)"
    by (rule route_by_id_put [OF assms(2)]) (simp add: route_failed_def id)
  have 2: "route_by_id i (put_route (route_moved CircuitOpen w till t (route_failed t r)) (put_route (route_failed t r) s))
      = Some (route_moved CircuitOpen w till t (route_failed t r))"
    by (rule route_by_id_put [OF 1]) (simp add: route_moved_def route_failed_def id)
  show ?thesis
  proof (cases ?quiet)
    case True
    then show ?thesis using 1 quiet by (auto simp: route_failed_def)
  next
    case False
    then show ?thesis using 2 route_by_id_traced [OF opened [OF False]] by (simp add: route_failed_def route_moved_def)
  qed
qed

lemma success_on_route:
  assumes "reset_route_failures i c now s = Inr (st, s')" "route_by_id i s = Some r"
  shows "\<exists>r'. route_by_id i s' = Some r' \<and> rt_consecutive_failures r' = 0 \<and> rt_state r' = rt_state r"
  using reset_failures_cases [OF assms(1)] assms(2) route_by_id_put [OF assms(2)]
  by (fastforce simp: route_succeeded_def dest: route_by_idD)

lemma report_fetches_snoc:
  "report_fetches i actor reason th d (es @ es') s
     = bind_res (report_fetches i actor reason th d es s) (report_fetches i actor reason th d es')"
proof (induction es arbitrary: s)
  case (Cons e es)
  obtain f a t where e: "e = (f, a, t)" by (cases e)
  show ?case
    by (cases "drop_ret (if f then record_route_failure a i (Some actor) (Some reason) th d None 0 (utc t) s
                         else reset_route_failures i 0 (utc t) s)") (auto simp: e Cons.IH)
qed simp

lemma reports_on_route:
  assumes "report_fetches i actor reason th d es s = Inr s'" "route_by_id i s = Some r"
    "rt_state r = Healthy" "rt_consecutive_failures r = 0" "1 \<le> th"
  shows "\<exists>r'. route_by_id i s' = Some r' \<and> rt_consecutive_failures r' = int (tail_failures (map fst es))
     \<and> rt_state r' = (if has_streak (nat th) (map fst es) then CircuitOpen else Healthy)"
  using assms(1)
proof (induction es arbitrary: s' rule: rev_induct)
  case Nil
  then show ?case using assms by (simp add: has_streak_def)
next
  case (snoc e es)
  obtain f a t where e: "e = (f, a, t)" by (cases e)
  obtain s1 where s1: "report_fetches i actor reason th d es s = Inr s1"
    and st: "drop_ret (if f then record_route_failure a i (Some actor) (Some reason) th d None 0 (utc t) s1
                         else reset_route_failures i 0 (utc t) s1) = Inr s'"
    using snoc.prems by (auto simp: report_fetches_snoc e)
  obtain r1 where r1: "route_by_id i s1 = Some r1" "rt_consecutive_failures r1 = int (tail_failures (map fst es))"
      "rt_state r1 = (if has_streak (nat th) (map fst es) then CircuitOpen else Healthy)"
    using snoc.IH [OF s1] by blast
  have streak: "has_streak (nat th) (map fst es @ [f]) \<longleftrightarrow> has_streak (nat th) (map fst es) \<or> nat th \<le> tail_failures (map fst es @ [f])"
    using assms(5) by (intro has_streak_snoc) simp
  obtain r' where r': "route_by_id i s' = Some r'"
    "rt_consecutive_failures r' = (if f then rt_consecutive_failures r1 + 1 else 0)"
    "rt_state r' = (if f \<and> th \<le> rt_consecutive_failures r1 + 1 \<and> rt_state r1 \<in> CIRCUIT_OPENABLE_ROUTE_STATES
                    then CircuitOpen else rt_state r1)"
    using st failure_on_route [OF _ r1(1)] success_on_route [OF _ r1(1)] by (cases f) (auto, blast+)
  have cmp: "nat th \<le> tail_failures (map fst es @ [f]) \<longleftrightarrow> f \<and> th \<le> rt_consecutive_failures r1 + 1"
    using assms(5) r1(2) by (auto simp: nat_le_iff)
  have "rt_consecutive_failures r' = int (tail_failures (map fst es @ [f]))" using r'(2) r1(2) by simp
  moreover have "rt_state r' = (if has_streak (nat th) (map fst es @ [f]) then CircuitOpen else Healthy)"
    using r'(3) r1(3) unfolding streak cmp by (auto simp: CIRCUIT_OPENABLE_ROUTE_STATES_def)
  ultimately show ?case using r'(1) by (simp add: e)
qed

text \<open>
  C30. The circuit of a healthy route opens if and only if the fetches reported for it contain
  \<open>threshold\<close> failures in a row; successes in between, and anything after, make no difference.
\<close>

theorem circuit_opens_on_a_streak:
  assumes "report_fetches i actor reason threshold d es s = Inr s'" "route_by_id i s = Some r"
    "rt_state r = Healthy" "rt_consecutive_failures r = 0" "1 \<le> threshold"
  shows "map_option rt_state (route_by_id i s') = Some CircuitOpen \<longleftrightarrow> has_streak (nat threshold) (map fst es)"
  using reports_on_route [OF assms] by (auto split: if_splits)

definition demo_route_db :: db where
  "demo_route_db = empty_db\<lparr>source_routes := [\<lparr>rt_id = 4, rt_source_id = 1, rt_route_kind = ''rss'', rt_route_key = ''main'',
     rt_state = Healthy, rt_state_reason = None, rt_consecutive_failures = 0, rt_circuit_open_until = None,
     rt_last_success_at = None, rt_last_failure_at = None, rt_revision = 1, rt_created_at = 1, rt_updated_at = 1\<rparr>]\<rparr>"

lemma demo_reports:
  "map_sum id (\<lambda>s'. map rt_revision (source_routes s'))
     (report_fetches 4 (ulit ''w'') (ulit ''http'') 1 (Some 60) [(False, 2, 10), (True, 3, 11)] demo_route_db)
   = Inr [2]"
  by code_simp

theorem circuit_opens_on_a_streak_witness:
  "\<exists>s'. report_fetches 4 (ulit ''w'') (ulit ''http'') 1 (Some 60) [(False, 2, 10), (True, 3, 11)] demo_route_db = Inr s'
     \<and> map_option rt_state (route_by_id 4 s') = Some CircuitOpen"
proof -
  let ?es = "[(False, 2, 10), (True, 3, 11)] :: (bool \<times> uuid \<times> ts) list"
  obtain s' where s': "report_fetches 4 (ulit ''w'') (ulit ''http'') 1 (Some 60) ?es demo_route_db = Inr s'"
    using demo_reports by (cases "report_fetches 4 (ulit ''w'') (ulit ''http'') 1 (Some 60) ?es demo_route_db") auto
  have "map fst ?es = [False] @ replicate (nat 1) True @ []" by simp
  then have "has_streak (nat 1) (map fst ?es)" unfolding has_streak_def by blast
  moreover obtain r where "route_by_id 4 demo_route_db = Some r" "rt_state r = Healthy" "rt_consecutive_failures r = 0"
    by (simp add: demo_route_db_def route_by_id_def)
  ultimately have "map_option rt_state (route_by_id 4 s') = Some CircuitOpen" using circuit_opens_on_a_streak [OF s'] by blast
  with s' show ?thesis by blast
qed

end
