(* ===== verification/Worker_Config.thy ===== *)
theory Worker_Config
  imports Pools Backoff
begin

text \<open>
  \<open>workers/config.py\<close>, \<open>workers/handlers.py\<close> and \<open>workers/roles.py\<close>: the parameters of one
  worker process with the windows derived from them, the default state of each pool, and what a
  handler tells the runtime about a task. Floating point is modelled by exact rationals, in seconds;
  an environment variable is text and \<open>float()\<close> and \<open>int()\<close> are arguments of the readers.
\<close>

section \<open>Pools\<close>

record pool_spec =
  ps_desired_replicas :: int
  ps_desired_concurrency :: int
  ps_min_replicas :: int
  ps_max_replicas :: int
  ps_resource_profile :: string

text \<open>\<open>cpus\<close> is \<open>os.process_cpu_count()\<close>, which may be unknown.\<close>

definition parse_worker_concurrency :: "int option \<Rightarrow> int" where
  "parse_worker_concurrency cpus = max (case cpus of None \<Rightarrow> 2 | Some n \<Rightarrow> if n = 0 then 2 else n) 2"

definition pool_spec_of :: "int \<Rightarrow> int \<Rightarrow> int \<Rightarrow> int \<Rightarrow> string \<Rightarrow> pool_spec" where
  "pool_spec_of r c lo hi profile = \<lparr>ps_desired_replicas = r, ps_desired_concurrency = c, ps_min_replicas = lo,
     ps_max_replicas = hi, ps_resource_profile = profile\<rparr>"

definition default_pool_spec :: "int option \<Rightarrow> worker_role \<Rightarrow> pool_spec" where
  "default_pool_spec cpus role =
     (case role of
        RoleDiscovery \<Rightarrow> pool_spec_of 1 4 0 4 ''small''
      | RoleFetch \<Rightarrow> pool_spec_of 2 8 0 8 ''medium''
      | RoleBrowser \<Rightarrow> pool_spec_of 0 1 0 4 ''large''
      | RoleParse \<Rightarrow> pool_spec_of 2 (parse_worker_concurrency cpus) 0 8 ''large''
      | RoleProjector \<Rightarrow> pool_spec_of 1 8 0 4 ''medium''
      | RoleTranslation \<Rightarrow> pool_spec_of 1 4 0 4 ''small''
      | RoleExport \<Rightarrow> pool_spec_of 1 2 0 2 ''medium''
      | RoleMaintenance \<Rightarrow> pool_spec_of 1 1 0 1 ''small'')"

definition SCHEDULER_DB_ROLE :: string where
  "SCHEDULER_DB_ROLE = ''collector_scheduler''"

definition db_role_for :: "worker_role \<Rightarrow> string" where
  "db_role_for role =
     (case role of
        RoleDiscovery \<Rightarrow> ''collector_fetcher'' | RoleFetch \<Rightarrow> ''collector_fetcher'' | RoleBrowser \<Rightarrow> ''collector_fetcher''
      | RoleParse \<Rightarrow> ''collector_parser'' | RoleProjector \<Rightarrow> ''collector_projector''
      | RoleTranslation \<Rightarrow> ''collector_translation'' | RoleExport \<Rightarrow> SCHEDULER_DB_ROLE
      | RoleMaintenance \<Rightarrow> SCHEDULER_DB_ROLE)"

section \<open>Configuration of a worker process\<close>

record worker_config =
  wc_role :: worker_role
  wc_lease_seconds :: int
  wc_heartbeat_seconds :: rat
  wc_poll_seconds :: rat
  wc_stop_grace_seconds :: rat
  wc_claim_batch :: int
  wc_fence_after_seconds :: "rat option"
  wc_max_concurrency :: "int option"
  wc_max_defer_seconds :: rat

definition FENCE_RATIO :: rat where "FENCE_RATIO = 1/2"
definition WATCHDOG_STEPS :: rat where "WATCHDOG_STEPS = 4"
definition HEARTBEAT_BUDGET_RATIO :: rat where "HEARTBEAT_BUDGET_RATIO = 2"
definition MISSED_BEATS_BUDGET :: rat where "MISSED_BEATS_BUDGET = 3"
definition DEFAULT_MAX_DEFER_SECONDS :: rat where "DEFAULT_MAX_DEFER_SECONDS = 24 * 60 * 60"
definition MAX_SLOTS_UNBOUNDED :: int where "MAX_SLOTS_UNBOUNDED = 1000000"

definition config_post_init :: "worker_config \<Rightarrow> unit res" where
  "config_post_init c =
     (if wc_lease_seconds c < 1 then Inl WorkerConfigError
      else if of_int (wc_lease_seconds c) < wc_heartbeat_seconds c * MISSED_BEATS_BUDGET then Inl WorkerConfigError
      else if (case wc_max_concurrency c of None \<Rightarrow> False | Some n \<Rightarrow> n < 1) then Inl WorkerConfigError
      else if wc_claim_batch c < 1 then Inl WorkerConfigError
      else if wc_max_defer_seconds c \<le> 0 then Inl WorkerConfigError
      else if (case wc_fence_after_seconds c of None \<Rightarrow> False | Some f \<Rightarrow> \<not> (0 < f \<and> f \<le> of_int (wc_lease_seconds c)))
      then Inl WorkerConfigError
      else Inr ())"

definition fence_after :: "worker_config \<Rightarrow> rat" where
  "fence_after c = (case wc_fence_after_seconds c of Some f \<Rightarrow> f | None \<Rightarrow> of_int (wc_lease_seconds c) * FENCE_RATIO)"

definition watchdog_interval :: "worker_config \<Rightarrow> rat" where
  "watchdog_interval c = max (min (fence_after c / WATCHDOG_STEPS) (wc_heartbeat_seconds c)) (1/100)"

definition heartbeat_tick_budget :: "worker_config \<Rightarrow> rat" where
  "heartbeat_tick_budget c = fence_after c * HEARTBEAT_BUDGET_RATIO"

text \<open>\<open>int(x)\<close> of a positive float is its floor.\<close>

definition statement_timeout_ms :: "worker_config \<Rightarrow> int" where
  "statement_timeout_ms c = max \<lfloor>fence_after c * 1000\<rfloor> 100"

definition command_timeout :: "worker_config \<Rightarrow> rat" where
  "command_timeout c = max (fence_after c) 1"

definition max_slots :: "worker_config \<Rightarrow> int" where
  "max_slots c = (case wc_max_concurrency c of Some n \<Rightarrow> n | None \<Rightarrow> MAX_SLOTS_UNBOUNDED)"

subsection \<open>Reading the environment\<close>

text \<open>
  A variable that is unset or blank keeps the default. \<open>to_float\<close> and \<open>to_int\<close> are Python's
  conversions of the stripped text; \<open>None\<close> is the \<open>ValueError\<close> they raise.
\<close>

definition env_text :: "(string \<Rightarrow> ustr option) \<Rightarrow> string \<Rightarrow> ustr" where
  "env_text env name = (case env name of None \<Rightarrow> [] | Some v \<Rightarrow> py_strip v)"

definition positive_float :: "(ustr \<Rightarrow> rat option) \<Rightarrow> (string \<Rightarrow> ustr option) \<Rightarrow> string \<Rightarrow> rat \<Rightarrow> rat res" where
  "positive_float to_float env name def =
     (let raw = env_text env name
      in if raw = [] then Inr def
         else case to_float raw of None \<Rightarrow> Inl WorkerConfigError
              | Some v \<Rightarrow> if v \<le> 0 then Inl WorkerConfigError else Inr v)"

definition positive_int :: "(ustr \<Rightarrow> int option) \<Rightarrow> (string \<Rightarrow> ustr option) \<Rightarrow> string \<Rightarrow> int \<Rightarrow> int res" where
  "positive_int to_int env name def =
     (let raw = env_text env name
      in if raw = [] then Inr def
         else case to_int raw of None \<Rightarrow> Inl WorkerConfigError
              | Some v \<Rightarrow> if v < 1 then Inl WorkerConfigError else Inr v)"

definition WORKER_ENV_PREFIX :: string where
  "WORKER_ENV_PREFIX = ''COLLECTOR_WORKER_''"

definition config_from_env ::
  "(ustr \<Rightarrow> rat option) \<Rightarrow> (ustr \<Rightarrow> int option) \<Rightarrow> int option \<Rightarrow> worker_role \<Rightarrow> (string \<Rightarrow> ustr option) \<Rightarrow> worker_config res" where
  "config_from_env to_float to_int cpus role env =
     bind_res (positive_int to_int env (WORKER_ENV_PREFIX @ ''LEASE_SECONDS'') 60) (\<lambda>lease.
     bind_res (positive_float to_float env (WORKER_ENV_PREFIX @ ''HEARTBEAT_SECONDS'') 20) (\<lambda>beat.
     bind_res (positive_float to_float env (WORKER_ENV_PREFIX @ ''POLL_SECONDS'') 1) (\<lambda>poll.
     bind_res (positive_float to_float env (WORKER_ENV_PREFIX @ ''STOP_GRACE_SECONDS'') 90) (\<lambda>grace.
     bind_res (positive_int to_int env (WORKER_ENV_PREFIX @ ''CLAIM_BATCH'') 8) (\<lambda>batch.
     bind_res (positive_float to_float env (WORKER_ENV_PREFIX @ ''FENCE_AFTER_SECONDS'') 0) (\<lambda>fence.
     bind_res (positive_int to_int env (WORKER_ENV_PREFIX @ ''MAX_CONCURRENCY'')
                 (ps_desired_concurrency (default_pool_spec cpus role))) (\<lambda>slots.
     bind_res (positive_float to_float env (WORKER_ENV_PREFIX @ ''MAX_DEFER_SECONDS'') DEFAULT_MAX_DEFER_SECONDS) (\<lambda>defer.
     let c = \<lparr>wc_role = role, wc_lease_seconds = lease, wc_heartbeat_seconds = beat, wc_poll_seconds = poll,
              wc_stop_grace_seconds = grace, wc_claim_batch = batch,
              wc_fence_after_seconds = (if fence = 0 then None else Some fence),
              wc_max_concurrency = Some slots, wc_max_defer_seconds = defer\<rparr>
     in bind_res (config_post_init c) (\<lambda>_. Inr c)))))))))"

section \<open>What a handler returns\<close>

record task =
  tk_job_id :: uuid
  tk_job_type :: string
  tk_attempt :: int
  tk_max_attempts :: int
  tk_priority :: int
  tk_not_before :: ts
  tk_run_id :: "uuid option"
  tk_source_id :: "uuid option"

datatype disposition = Complete | RetryLater | QuarantineNow | Defer

record 'o task_result =
  tr_disposition :: disposition
  tr_error_code :: "string option"
  tr_error_message :: "ustr option"
  tr_not_before :: "datetime option"
  tr_output :: "'o option"

definition ERROR_CODE_MAX_LENGTH :: nat where
  "ERROR_CODE_MAX_LENGTH = 64"

definition require_aware :: "datetime \<Rightarrow> unit res" where
  "require_aware d = (case d of Naive _ \<Rightarrow> Inl ValueError | Aware _ _ \<Rightarrow> Inr ())"

definition task_result_post_init :: "'o task_result \<Rightarrow> unit res" where
  "task_result_post_init r =
     (if tr_output r \<noteq> None \<and> tr_disposition r \<noteq> Complete then Inl ValueError
      else bind_res (case tr_not_before r of
                       None \<Rightarrow> Inr ()
                     | Some d \<Rightarrow> if tr_disposition r \<notin> {RetryLater, Defer} then Inl ValueError else require_aware d) (\<lambda>_.
        if tr_disposition r = Complete
        then if tr_error_code r \<noteq> None \<or> tr_error_message r \<noteq> None then Inl ValueError else Inr ()
        else case tr_error_code r of
               None \<Rightarrow> Inl ValueError
             | Some code \<Rightarrow>
                 if code = [] then Inl ValueError
                 else if ERROR_CODE_MAX_LENGTH < length code then Inl ValueError
                 else if tr_disposition r = Defer
                 then if tr_not_before r = None then Inl ValueError
                      else if tr_error_message r \<noteq> None then Inl ValueError else Inr ()
                 else Inr ()))"

definition make_task_result :: "'o task_result \<Rightarrow> 'o task_result res" where
  "make_task_result r = bind_res (task_result_post_init r) (\<lambda>_. Inr r)"

definition success :: "'o option \<Rightarrow> 'o task_result res" where
  "success out = make_task_result \<lparr>tr_disposition = Complete, tr_error_code = None, tr_error_message = None, tr_not_before = None, tr_output = out\<rparr>"

definition retryable :: "string \<Rightarrow> ustr option \<Rightarrow> datetime option \<Rightarrow> 'o task_result res" where
  "retryable code msg nb =
     make_task_result \<lparr>tr_disposition = RetryLater, tr_error_code = Some code, tr_error_message = msg, tr_not_before = nb, tr_output = None\<rparr>"

definition permanent :: "string \<Rightarrow> ustr option \<Rightarrow> 'o task_result res" where
  "permanent code msg =
     make_task_result \<lparr>tr_disposition = QuarantineNow, tr_error_code = Some code, tr_error_message = msg, tr_not_before = None, tr_output = None\<rparr>"

definition deferred :: "datetime \<Rightarrow> string \<Rightarrow> 'o task_result res" where
  "deferred till code =
     make_task_result \<lparr>tr_disposition = Defer, tr_error_code = Some code, tr_error_message = None, tr_not_before = Some till, tr_output = None\<rparr>"

text \<open>
  An exception of a handler: \<open>PermanentTaskError\<close> with its code, or any other. The text of the
  message, after redaction, is an argument.
\<close>

datatype handler_exception = PermanentTaskError string | OtherException

definition result_for_exception :: "handler_exception \<Rightarrow> ustr \<Rightarrow> 'o task_result res" where
  "result_for_exception e message =
     (case e of PermanentTaskError code \<Rightarrow> permanent code (Some message)
      | OtherException \<Rightarrow> retryable ''handler_error'' (Some message) None)"

section \<open>Tabular retry delays\<close>

record retry_schedule =
  rs_delays :: "duration list"
  rs_jitter_ratio :: rat

definition retry_schedule_post_init :: "retry_schedule \<Rightarrow> unit res" where
  "retry_schedule_post_init sch =
     (if rs_delays sch = [] then Inl ValueError
      else if list_ex (\<lambda>d. d \<le> 0) (rs_delays sch) then Inl ValueError
      else if \<not> (0 \<le> rs_jitter_ratio sch \<and> rs_jitter_ratio sch \<le> 1) then Inl ValueError
      else Inr ())"

text \<open>\<open>rng.uniform(0, w)\<close> is \<open>w * r\<close>.\<close>

definition schedule_delay :: "retry_schedule \<Rightarrow> int \<Rightarrow> rat \<Rightarrow> duration" where
  "schedule_delay sch attempt r =
     (let base = rs_delays sch ! nat (min (max attempt 1) (int (length (rs_delays sch))) - 1)
      in if rs_jitter_ratio sch \<le> 0 then base
         else base + timedelta_seconds ((total_seconds base * rs_jitter_ratio sch) * r))"

end
