(* ===== verification/Backends.thy ===== *)
theory Backends
  imports Worker_Config Job_Queue Projection
begin

text \<open>
  \<open>workers/backends.py\<close>: the queue a worker talks to. The protocol \<open>QueueBackend\<close> is a record of
  functions, one field per method; \<open>CrawlJobsBackend\<close> and \<open>ProjectionTasksBackend\<close> are the two
  values of it, thin adapters over the job queue and the projection queue. The locale
  \<open>lease_backend\<close> states what the runtime relies on, and both backends satisfy it.

  A worker passes its own clock as \<open>now\<close>, always aware and in UTC. What a transaction takes from
  elsewhere (rows locked by others, fresh UUIDs, a random number, the decoder of event bytes) is a
  \<open>call_env\<close>.
\<close>

section \<open>The protocol\<close>

record call_env =
  ce_locked :: "uuid list"
  ce_dead_letter_id :: uuid
  ce_audit_id :: uuid
  ce_change_id :: uuid
  ce_outbox_id :: uuid
  ce_random :: rat
  ce_decode :: "string \<Rightarrow> domain_changed_event res"

text \<open>The output of a successful task: a receipt, a receipt with its event, or anything else.\<close>

datatype task_output = ReceiptOutput receipt | AckOutput receipt "domain_changed_event option" | OtherOutput

record queue_backend =
  qb_name :: string
  qb_check_output :: "task_output option \<Rightarrow> unit res"
  qb_claim :: "call_env \<Rightarrow> string list \<Rightarrow> string \<Rightarrow> int \<Rightarrow> int \<Rightarrow> ts \<Rightarrow> db \<Rightarrow> (task list \<times> db) res"
  qb_heartbeat :: "call_env \<Rightarrow> uuid \<Rightarrow> string \<Rightarrow> int \<Rightarrow> ts \<Rightarrow> db \<Rightarrow> db res"
  qb_complete :: "call_env \<Rightarrow> task \<Rightarrow> string \<Rightarrow> task_output option \<Rightarrow> ts \<Rightarrow> db \<Rightarrow> db res"
  qb_retry :: "call_env \<Rightarrow> uuid \<Rightarrow> string \<Rightarrow> string \<Rightarrow> ustr option \<Rightarrow> ts option \<Rightarrow> ts \<Rightarrow> db \<Rightarrow> (job_status \<times> db) res"
  qb_defer :: "call_env \<Rightarrow> uuid \<Rightarrow> string \<Rightarrow> ts \<Rightarrow> ts \<Rightarrow> db \<Rightarrow> db res"
  qb_quarantine :: "call_env \<Rightarrow> uuid \<Rightarrow> string \<Rightarrow> string \<Rightarrow> ustr option \<Rightarrow> ts \<Rightarrow> db \<Rightarrow> db res"
  qb_release :: "call_env \<Rightarrow> uuid \<Rightarrow> string \<Rightarrow> ts \<Rightarrow> db \<Rightarrow> db res"
  qb_recover_expired :: "call_env \<Rightarrow> int \<Rightarrow> ts \<Rightarrow> db \<Rightarrow> (uuid list \<times> db) res"

definition IMMEDIATE_POLICY :: backoff_policy where
  "IMMEDIATE_POLICY = default_backoff\<lparr>bp_base := 0, bp_jitter_ratio := 0\<rparr>"

section \<open>crawl\_jobs\<close>

definition task_from_job :: "crawl_job \<Rightarrow> task" where
  "task_from_job j =
     \<lparr>tk_job_id = j_job_id j, tk_job_type = j_job_type j, tk_attempt = j_attempt j, tk_max_attempts = j_max_attempts j,
      tk_priority = j_priority j, tk_not_before = j_not_before j, tk_run_id = j_run_id j, tk_source_id = j_source_id j\<rparr>"

definition crawl_check_output :: "task_output option \<Rightarrow> unit res" where
  "crawl_check_output out = (if out \<noteq> None then Inl InvalidHandlerOutputError else Inr ())"

definition crawl_claim :: "call_env \<Rightarrow> string list \<Rightarrow> string \<Rightarrow> int \<Rightarrow> int \<Rightarrow> ts \<Rightarrow> db \<Rightarrow> (task list \<times> db) res" where
  "crawl_claim e job_types owner lease_seconds limit now s =
     bind_res (claim (ce_locked e) job_types owner lease_seconds limit now (utc now) s)
       (\<lambda>(jobs, s'). Inr (map task_from_job jobs, s'))"

definition crawl_heartbeat :: "call_env \<Rightarrow> uuid \<Rightarrow> string \<Rightarrow> int \<Rightarrow> ts \<Rightarrow> db \<Rightarrow> db res" where
  "crawl_heartbeat e i owner lease_seconds now s = drop_ret (heartbeat i owner lease_seconds now (utc now) s)"

definition crawl_complete :: "call_env \<Rightarrow> task \<Rightarrow> string \<Rightarrow> task_output option \<Rightarrow> ts \<Rightarrow> db \<Rightarrow> db res" where
  "crawl_complete e t owner out now s =
     bind_res (crawl_check_output out) (\<lambda>_. drop_ret (complete (tk_job_id t) owner now (utc now) s))"

definition crawl_retry ::
  "call_env \<Rightarrow> uuid \<Rightarrow> string \<Rightarrow> string \<Rightarrow> ustr option \<Rightarrow> ts option \<Rightarrow> ts \<Rightarrow> db \<Rightarrow> (job_status \<times> db) res" where
  "crawl_retry e i owner error_code error_message not_before now s =
     (case not_before of
        None \<Rightarrow> bind_res (retry (ce_dead_letter_id e) (ce_random e) i owner error_code error_message None None now (utc now) s)
                  (\<lambda>(j, s'). Inr (j_status j, s'))
      | Some t \<Rightarrow> bind_res (retry (ce_dead_letter_id e) (ce_random e) i owner error_code error_message (Some IMMEDIATE_POLICY)
                             (utc t) now (utc now) s)
                  (\<lambda>(j, s'). Inr (j_status j, s')))"

definition crawl_defer :: "call_env \<Rightarrow> uuid \<Rightarrow> string \<Rightarrow> ts \<Rightarrow> ts \<Rightarrow> db \<Rightarrow> db res" where
  "crawl_defer e i owner till now s = drop_ret (release i owner (utc till) now (utc now) s)"

definition crawl_quarantine :: "call_env \<Rightarrow> uuid \<Rightarrow> string \<Rightarrow> string \<Rightarrow> ustr option \<Rightarrow> ts \<Rightarrow> db \<Rightarrow> db res" where
  "crawl_quarantine e i owner error_code error_message now s =
     drop_ret (quarantine (ce_dead_letter_id e) (ce_audit_id e) i (Some owner) error_code error_message None None None now (utc now) s)"

definition crawl_release :: "call_env \<Rightarrow> uuid \<Rightarrow> string \<Rightarrow> ts \<Rightarrow> db \<Rightarrow> db res" where
  "crawl_release e i owner now s = drop_ret (release i owner None now (utc now) s)"

definition crawl_recover_expired :: "call_env \<Rightarrow> int \<Rightarrow> ts \<Rightarrow> db \<Rightarrow> (uuid list \<times> db) res" where
  "crawl_recover_expired e limit now s = recover_expired_leases (ce_locked e) limit now (utc now) s"

definition CRAWL_JOBS :: queue_backend where
  "CRAWL_JOBS = \<lparr>qb_name = ''crawl_jobs'', qb_check_output = crawl_check_output, qb_claim = crawl_claim,
     qb_heartbeat = crawl_heartbeat, qb_complete = crawl_complete, qb_retry = crawl_retry, qb_defer = crawl_defer,
     qb_quarantine = crawl_quarantine, qb_release = crawl_release, qb_recover_expired = crawl_recover_expired\<rparr>"

section \<open>projection\_tasks\<close>

definition task_from_projection :: "projection_task \<Rightarrow> task" where
  "task_from_projection t =
     \<lparr>tk_job_id = t_task_id t, tk_job_type = t_target_collection t, tk_attempt = t_attempt t, tk_max_attempts = t_max_attempts t,
      tk_priority = t_priority t, tk_not_before = t_not_before t, tk_run_id = None, tk_source_id = None\<rparr>"

definition projection_output :: "task_output option \<Rightarrow> (receipt \<times> domain_changed_event option) res" where
  "projection_output out =
     (case out of
        Some (AckOutput r ev) \<Rightarrow> Inr (r, ev)
      | Some (ReceiptOutput r) \<Rightarrow> Inr (r, None)
      | _ \<Rightarrow> Inl InvalidHandlerOutputError)"

definition proj_check_output :: "task_output option \<Rightarrow> unit res" where
  "proj_check_output out = map_sum id (\<lambda>_. ()) (projection_output out)"

definition proj_claim :: "call_env \<Rightarrow> string list \<Rightarrow> string \<Rightarrow> int \<Rightarrow> int \<Rightarrow> ts \<Rightarrow> db \<Rightarrow> (task list \<times> db) res" where
  "proj_claim e job_types owner lease_seconds limit now s =
     bind_res (claim_projection_tasks (ce_locked e) owner lease_seconds job_types limit now (utc now) s)
       (\<lambda>(ts, s'). Inr (map task_from_projection ts, s'))"

definition proj_heartbeat :: "call_env \<Rightarrow> uuid \<Rightarrow> string \<Rightarrow> int \<Rightarrow> ts \<Rightarrow> db \<Rightarrow> db res" where
  "proj_heartbeat e i owner lease_seconds now s = drop_ret (heartbeat_projection_task i owner lease_seconds now (utc now) s)"

definition proj_complete :: "call_env \<Rightarrow> task \<Rightarrow> string \<Rightarrow> task_output option \<Rightarrow> ts \<Rightarrow> db \<Rightarrow> db res" where
  "proj_complete e t owner out now s =
     bind_res (projection_output out) (\<lambda>(r, ev).
       drop_ret (acknowledge_projection (ce_decode e) (ce_change_id e) (ce_outbox_id e) (tk_job_id t) r ev (Some owner) now (utc now) s))"

definition proj_retry ::
  "call_env \<Rightarrow> uuid \<Rightarrow> string \<Rightarrow> string \<Rightarrow> ustr option \<Rightarrow> ts option \<Rightarrow> ts \<Rightarrow> db \<Rightarrow> (job_status \<times> db) res" where
  "proj_retry e i owner error_code error_message not_before now s =
     (case not_before of
        None \<Rightarrow> bind_res (retry_projection_task (ce_random e) i owner error_code error_message None None now (utc now) s)
                  (\<lambda>(t, s'). Inr (t_status t, s'))
      | Some nb \<Rightarrow> bind_res (retry_projection_task (ce_random e) i owner error_code error_message (Some IMMEDIATE_POLICY)
                             (utc nb) now (utc now) s)
                  (\<lambda>(t, s'). Inr (t_status t, s')))"

definition proj_defer :: "call_env \<Rightarrow> uuid \<Rightarrow> string \<Rightarrow> ts \<Rightarrow> ts \<Rightarrow> db \<Rightarrow> db res" where
  "proj_defer e i owner till now s = drop_ret (release_projection_task i owner (utc till) now (utc now) s)"

text \<open>
  The worker's quarantine takes the lock and the proof of ownership from a heartbeat in the same
  transaction, because \<open>quarantine_projection_task\<close> itself does not look at the lease.
\<close>

definition proj_quarantine :: "call_env \<Rightarrow> uuid \<Rightarrow> string \<Rightarrow> string \<Rightarrow> ustr option \<Rightarrow> ts \<Rightarrow> db \<Rightarrow> db res" where
  "proj_quarantine e i owner error_code error_message now s =
     bind_res (heartbeat_projection_task i owner 1 now (utc now) s) (\<lambda>(_, s1).
       drop_ret (quarantine_projection_task i error_code error_message now (utc now) s1))"

definition proj_release :: "call_env \<Rightarrow> uuid \<Rightarrow> string \<Rightarrow> ts \<Rightarrow> db \<Rightarrow> db res" where
  "proj_release e i owner now s = drop_ret (release_projection_task i owner None now (utc now) s)"

definition proj_recover_expired :: "call_env \<Rightarrow> int \<Rightarrow> ts \<Rightarrow> db \<Rightarrow> (uuid list \<times> db) res" where
  "proj_recover_expired e limit now s = recover_expired_projection_leases (ce_locked e) limit now (utc now) s"

definition PROJECTION_TASKS :: queue_backend where
  "PROJECTION_TASKS = \<lparr>qb_name = ''projection_tasks'', qb_check_output = proj_check_output, qb_claim = proj_claim,
     qb_heartbeat = proj_heartbeat, qb_complete = proj_complete, qb_retry = proj_retry, qb_defer = proj_defer,
     qb_quarantine = proj_quarantine, qb_release = proj_release, qb_recover_expired = proj_recover_expired\<rparr>"

section \<open>What the runtime relies on\<close>

text \<open>
  \<open>lease s i\<close> is who holds row \<open>i\<close>, \<open>expiry s i\<close> until when. A claim takes free rows and leases them to
  the worker from \<open>now\<close>; a heartbeat renews a row of the worker and fails for any other; a report ends
  the worker's lease; a recovery frees only rows whose lease has run out.
\<close>

locale lease_backend =
  fixes B :: queue_backend
    and inv :: "db \<Rightarrow> bool"
    and lease :: "db \<Rightarrow> uuid \<Rightarrow> lease_state"
    and expiry :: "db \<Rightarrow> uuid \<Rightarrow> ts"
  assumes claim_law: "inv s \<Longrightarrow> qb_claim B e tys w ls n now s = Inr (tks, s') \<Longrightarrow>
      inv s' \<and> length tks \<le> nat n \<and> (\<forall>i. if i \<in> tk_job_id ` set tks then lease s i = Free \<and> lease s' i = Held w \<and> expiry s' i = now + ls * second
                     else lease s' i = lease s i \<and> expiry s' i = expiry s i)"
    and beat_law: "inv s \<Longrightarrow> qb_heartbeat B e i w ls now s = Inr s' \<Longrightarrow>
      inv s' \<and> lease s i = Held w \<and> expiry s' i = now + ls * second \<and> (\<forall>j. lease s' j = lease s j \<and> (j \<noteq> i \<longrightarrow> expiry s' j = expiry s j))"
    and beat_lost: "inv s \<Longrightarrow> qb_heartbeat B e i w ls now s = Inl x \<Longrightarrow> x = LeaseNotOwnedError \<and> lease s i \<noteq> Held w"
    and complete_law: "inv s \<Longrightarrow> qb_complete B e t w out now s = Inr s' \<Longrightarrow>
      inv s' \<and> lease s (tk_job_id t) = Held w \<and> lease s' (tk_job_id t) = Done
      \<and> (\<forall>j. j \<noteq> tk_job_id t \<longrightarrow> lease s' j = lease s j \<and> expiry s' j = expiry s j)"
    and retry_law: "inv s \<Longrightarrow> qb_retry B e i w ec em nb now s = Inr (st, s') \<Longrightarrow>
      inv s' \<and> lease s i = Held w \<and> lease s' i \<in> {Free, Done} \<and> (\<forall>j. j \<noteq> i \<longrightarrow> lease s' j = lease s j \<and> expiry s' j = expiry s j)"
    and defer_law: "inv s \<Longrightarrow> qb_defer B e i w till now s = Inr s' \<Longrightarrow>
      inv s' \<and> lease s i = Held w \<and> lease s' i = Free \<and> (\<forall>j. j \<noteq> i \<longrightarrow> lease s' j = lease s j \<and> expiry s' j = expiry s j)"
    and quarantine_law: "inv s \<Longrightarrow> qb_quarantine B e i w ec em now s = Inr s' \<Longrightarrow>
      inv s' \<and> lease s i = Held w \<and> lease s' i = Done \<and> (\<forall>j. j \<noteq> i \<longrightarrow> lease s' j = lease s j \<and> expiry s' j = expiry s j)"
    and release_law: "inv s \<Longrightarrow> qb_release B e i w now s = Inr s' \<Longrightarrow>
      inv s' \<and> lease s i = Held w \<and> lease s' i = Free \<and> (\<forall>j. j \<noteq> i \<longrightarrow> lease s' j = lease s j \<and> expiry s' j = expiry s j)"
    and output_law: "qb_check_output B out = Inl x \<Longrightarrow> x = InvalidHandlerOutputError"
    and recover_law: "inv s \<Longrightarrow> qb_recover_expired B e n now s = Inr (is, s') \<Longrightarrow>
      inv s' \<and> (\<forall>i. if i \<in> set is then (\<exists>w. lease s i = Held w) \<and> expiry s i \<le> now \<and> lease s' i = Free
                     else lease s' i = lease s i \<and> expiry s' i = expiry s i)"

text \<open>\<open>UPDATE ... RETURNING\<close> returns no more rows than were selected.\<close>

lemma length_returning_le:
  assumes "distinct (map key rows)" and "set sel \<subseteq> set rows" and "\<And>r. key (f r) = key r"
  shows "length (returning key sel (upd_selected key sel f rows)) \<le> length sel"
proof -
  have "map key (upd_selected key sel f rows) = map key rows"
    using assms(3) by (simp add: upd_selected_def map_upd_where)
  then have "distinct (returning key sel (upd_selected key sel f rows))"
    using assms(1) by (metis distinct_filter distinct_map returning_def)
  then have "length (returning key sel (upd_selected key sel f rows)) = card (f ` set sel)"
    using distinct_card set_returning [OF assms] by fastforce
  also have "\<dots> \<le> length sel" using card_image_le [OF finite_set, of f sel] card_length [of sel] by linarith
  finally show ?thesis .
qed

section \<open>The job queue as a backend\<close>

definition job_expiry :: "db \<Rightarrow> uuid \<Rightarrow> ts" where
  "job_expiry s i = (case get_job i s of None \<Rightarrow> 0 | Some j \<Rightarrow> expires_key (j_lease_expires_at j))"

lemma get_job_upd_where:
  assumes "\<And>j. j_job_id (f j) = j_job_id j"
  shows "get_job i (s\<lparr>crawl_jobs := upd_where p f (crawl_jobs s)\<rparr>) = map_option (\<lambda>j. if p j then f j else j) (get_job i s)"
  unfolding get_job_def by (simp add: find_upd_where assms)

text \<open>An update of one row leaves the view of every other row as it is.\<close>

lemma job_view_upd_other:
  assumes "\<And>j. j_job_id (f j) = j_job_id j" "\<And>j. p j \<Longrightarrow> j_job_id j = i" "k \<noteq> i"
  shows "job_lease (s\<lparr>crawl_jobs := upd_where p f (crawl_jobs s)\<rparr>) k = job_lease s k"
    "job_expiry (s\<lparr>crawl_jobs := upd_where p f (crawl_jobs s)\<rparr>) k = job_expiry s k"
proof -
  have "get_job k (s\<lparr>crawl_jobs := upd_where p f (crawl_jobs s)\<rparr>) = get_job k s"
    using get_jobD [of k s] assms(2,3) unfolding get_job_upd_where [of f, OF assms(1)] by (cases "get_job k s") auto
  then show "job_lease (s\<lparr>crawl_jobs := upd_where p f (crawl_jobs s)\<rparr>) k = job_lease s k"
    "job_expiry (s\<lparr>crawl_jobs := upd_where p f (crawl_jobs s)\<rparr>) k = job_expiry s k"
    by (simp_all add: job_lease_def job_expiry_def)
qed

lemma owned_get_job:
  assumes "queue_inv s" "j \<in> set (crawl_jobs s)" "job_owned i w j"
  shows "get_job i s = Some j"
  using find_distinct_key [OF queue_invD(1) [OF assms(1)] assms(2)] assms(3) by (simp add: get_job_def job_owned_def)

text \<open>The shape of every report: the row the worker owns moves to a state without a lease.\<close>

lemma job_report:
  assumes inv: "queue_inv s" and j: "j \<in> set (crawl_jobs s) \<and> job_owned i w j"
    and s': "crawl_jobs s' = upd_where p f (crawl_jobs s)"
    and f: "\<And>x. j_job_id (f x) = j_job_id x" and p: "p j" "\<And>x. p x \<Longrightarrow> j_job_id x = i" and st: "j_status (f j) = st" "st \<noteq> Leased"
  shows "job_lease s i = Held w \<and> job_lease s' i = (if terminal_status st then Done else Free)
     \<and> (\<forall>k. k \<noteq> i \<longrightarrow> job_lease s' k = job_lease s k \<and> job_expiry s' k = job_expiry s k)"
proof -
  let ?s = "s\<lparr>crawl_jobs := upd_where p f (crawl_jobs s)\<rparr>"
  have eq: "get_job k s' = get_job k ?s" for k using s' by (simp add: get_job_def)
  have g: "get_job i s = Some j" using owned_get_job [OF inv] j by blast
  then have "get_job i s' = Some (f j)" using eq p(1) get_job_upd_where [where f = f and i = i and s = s and p = p, OF f] by auto
  then have "job_lease s' i = (if terminal_status st then Done else Free)"
    using st by (cases st) (auto simp: job_lease_def job_lease_state_def)
  moreover have "job_lease s i = Held w" using g j by (auto simp: job_lease_def job_owned_lease)
  moreover have "job_lease s' k = job_lease s k \<and> job_expiry s' k = job_expiry s k" if "k \<noteq> i" for k
    using job_view_upd_other [where f = f and p = p and i = i and k = k and s = s, OF f p(2) that] eq [of k]
    by (simp add: job_expiry_def job_lease_def)
  ultimately show ?thesis by blast
qed

lemma find_ownedD: "find (job_owned i w) (crawl_jobs s) = Some j \<Longrightarrow> j \<in> set (crawl_jobs s) \<and> job_owned i w j"
  by (rule find_SomeD)

lemma owned_find_None:
  assumes "queue_inv s" "find (job_owned i w) (crawl_jobs s) = None"
  shows "job_lease s i \<noteq> Held w"
proof (cases "get_job i s")
  case (Some j)
  then have j: "j \<in> set (crawl_jobs s)" "j_job_id j = i" by (auto dest: get_jobD)
  then have "\<not> job_owned i w j" using assms(2) by (auto simp: find_None_iff)
  moreover have "lease_consistent (j_status j) (j_lease_owner j) (j_lease_expires_at j)"
    using queue_invD(3) [OF assms(1) j(1)] by (simp add: crawl_job_checks_def)
  ultimately show ?thesis using Some j(2)
    by (auto simp: job_lease_def job_lease_state_def job_owned_def lease_consistent_def split: job_status.splits option.splits)
qed (simp add: job_lease_def)

lemma crawl_claim_law:
  assumes inv: "queue_inv s" and cl: "crawl_claim e tys w ls n now s = Inr (tks, s')"
  shows "queue_inv s' \<and> length tks \<le> nat n \<and> (\<forall>i. if i \<in> tk_job_id ` set tks then job_lease s i = Free \<and> job_lease s' i = Held w \<and> job_expiry s' i = now + ls * second
     else job_lease s' i = job_lease s i \<and> job_expiry s' i = job_expiry s i)"
proof (cases "tys = []")
  case True
  then show ?thesis using assms by (auto simp: crawl_claim_def claim_def)
next
  case False
  define sel where "sel = order_limit claim_key (nat n) (filter (job_claimable (ce_locked e) tys now) (crawl_jobs s))"
  have sub: "set sel \<subseteq> set (crawl_jobs s)" "\<And>j. j \<in> set sel \<Longrightarrow> claimable_status (j_status j)"
    unfolding sel_def using set_order_limit_subset by (force simp: job_claimable_def)+
  have d: "distinct (map j_job_id (crawl_jobs s))" by (rule queue_invD(1) [OF inv])
  obtain jobs where c: "claim (ce_locked e) tys w ls n now (utc now) s = Inr (jobs, s')" "tks = map task_from_job jobs"
    using cl by (auto simp: crawl_claim_def)
  have s': "s' = s\<lparr>crawl_jobs := upd_where (\<lambda>j. j_job_id j \<in> j_job_id ` set sel) (job_leased w ls now) (crawl_jobs s)\<rparr>"
    and jobs: "jobs = sort_key claim_key (returning j_job_id sel (upd_selected j_job_id sel (job_leased w ls now) (crawl_jobs s)))"
    using c(1) False by (auto simp: claim_def Let_def sel_def upd_selected_def split: if_splits)
  have "set jobs = job_leased w ls now ` set sel"
    unfolding jobs using set_returning [OF d sub(1), of "job_leased w ls now"] by (simp add: job_leased_def)
  then have ids: "tk_job_id ` set tks = j_job_id ` set sel"
    unfolding c(2) by (simp add: image_image task_from_job_def job_leased_def)
  have "length tks \<le> length sel"
    unfolding c(2) jobs using length_returning_le [OF d sub(1), of "job_leased w ls now"] by (simp add: job_leased_def)
  then have len: "length tks \<le> nat n" by (simp add: sel_def)
  have get: "get_job i s' = map_option (\<lambda>j. if j_job_id j \<in> j_job_id ` set sel then job_leased w ls now j else j) (get_job i s)" for i
    unfolding s' by (rule get_job_upd_where) (simp add: job_leased_def)
  have "queue_inv s'" by (rule claim_inv [OF inv c(1)])
  moreover have "job_lease s i = Free \<and> job_lease s' i = Held w \<and> job_expiry s' i = now + ls * second" if isel: "i \<in> j_job_id ` set sel" for i
  proof -
    obtain j where j: "j \<in> set sel" "j_job_id j = i" using isel by auto
    then have "get_job i s = Some j" using find_distinct_key [OF d, of j] sub(1) by (auto simp: get_job_def)
    then show ?thesis using get [of i] j sub(2) [OF j(1)] claimable_lease [of j]
      by (auto simp: job_lease_def job_expiry_def job_leased_def job_lease_state_def expires_key_def)
  qed
  moreover have "job_lease s' i = job_lease s i \<and> job_expiry s' i = job_expiry s i" if "i \<notin> j_job_id ` set sel" for i
  proof -
    have "get_job i s' = get_job i s" using that get [of i] get_jobD [of i s] by (cases "get_job i s") auto
    then show ?thesis by (simp add: job_lease_def job_expiry_def)
  qed
  ultimately show ?thesis using len unfolding ids by simp
qed

lemma crawl_heartbeat_law:
  assumes inv: "queue_inv s" and b: "crawl_heartbeat e i w ls now s = Inr s'"
  shows "queue_inv s' \<and> job_lease s i = Held w \<and> job_expiry s' i = now + ls * second
     \<and> (\<forall>j. job_lease s' j = job_lease s j \<and> (j \<noteq> i \<longrightarrow> job_expiry s' j = job_expiry s j))"
proof -
  let ?f = "\<lambda>j. j\<lparr>j_lease_expires_at := Some (now + ls * second), j_updated_at := now\<rparr>"
  obtain x where h: "heartbeat i w ls now (utc now) s = Inr (x, s')" using b by (auto simp: crawl_heartbeat_def)
  then obtain j where j: "j \<in> set (crawl_jobs s)" "job_owned i w j"
    and s': "s' = s\<lparr>crawl_jobs := upd_where (job_owned i w) ?f (crawl_jobs s)\<rparr>"
    by (auto simp: heartbeat_def Let_def split: if_splits)
  have get: "get_job k s' = map_option (\<lambda>j. if job_owned i w j then ?f j else j) (get_job k s)" for k
    unfolding s' by (rule get_job_upd_where) simp
  have "job_lease s' k = job_lease s k" for k
    using get [of k] by (cases "get_job k s") (auto simp: job_lease_def job_lease_state_def split: job_status.split)
  moreover have "job_expiry s' i = now + ls * second"
    using get [of i] owned_get_job [OF inv j] j(2) by (simp add: job_expiry_def expires_key_def)
  moreover have "job_expiry s' k = job_expiry s k" if "k \<noteq> i" for k
    unfolding s' using that by (intro job_view_upd_other(2)) (simp_all add: job_owned_def)
  moreover have "job_lease s i = Held w" using owned_get_job [OF inv j] j(2) by (simp add: job_lease_def job_owned_lease)
  ultimately show ?thesis using heartbeat_inv [OF inv h] by blast
qed

lemma crawl_beat_lost:
  assumes "queue_inv s" "crawl_heartbeat e i w ls now s = Inl x"
  shows "x = LeaseNotOwnedError \<and> job_lease s i \<noteq> Held w"
proof -
  have "heartbeat i w ls now (utc now) s = Inl x"
    using assms(2) by (cases "heartbeat i w ls now (utc now) s") (auto simp: crawl_heartbeat_def)
  then have "x = LeaseNotOwnedError" "find (job_owned i w) (crawl_jobs s) = None"
    by (auto simp: heartbeat_def Let_def find_None_iff split: if_splits)
  then show ?thesis using owned_find_None [OF assms(1)] by blast
qed

lemma crawl_complete_law:
  assumes inv: "queue_inv s" and b: "crawl_complete e t w out now s = Inr s'"
  shows "queue_inv s' \<and> job_lease s (tk_job_id t) = Held w \<and> job_lease s' (tk_job_id t) = Done
     \<and> (\<forall>j. j \<noteq> tk_job_id t \<longrightarrow> job_lease s' j = job_lease s j \<and> job_expiry s' j = job_expiry s j)"
proof -
  obtain q where c: "complete (tk_job_id t) w now (utc now) s = Inr (q, s')" using b by (auto simp: crawl_complete_def)
  then obtain j where j: "find (job_owned (tk_job_id t) w) (crawl_jobs s) = Some j"
    and s': "s' = s\<lparr>crawl_jobs := upd_where (job_owned (tk_job_id t) w) (job_succeeded now) (crawl_jobs s)\<rparr>"
    by (auto simp: complete_def split: option.splits)
  have "job_lease s (tk_job_id t) = Held w \<and> job_lease s' (tk_job_id t) = (if terminal_status Succeeded then Done else Free)
     \<and> (\<forall>k. k \<noteq> tk_job_id t \<longrightarrow> job_lease s' k = job_lease s k \<and> job_expiry s' k = job_expiry s k)"
    by (rule job_report [where p = "job_owned (tk_job_id t) w" and f = "job_succeeded now", OF inv find_ownedD [OF j]])
      (use find_ownedD [OF j] in \<open>simp_all add: s' job_succeeded_def job_owned_def\<close>)
  then show ?thesis using complete_inv [OF inv c] by simp
qed

lemma release_view:
  assumes inv: "queue_inv s" and r: "release i w nb now (utc now) s = Inr (q, s')"
  shows "queue_inv s' \<and> job_lease s i = Held w \<and> job_lease s' i = Free
     \<and> (\<forall>j. j \<noteq> i \<longrightarrow> job_lease s' j = job_lease s j \<and> job_expiry s' j = job_expiry s j)"
proof -
  obtain j nb' where j: "find (job_owned i w) (crawl_jobs s) = Some j"
    and s': "s' = s\<lparr>crawl_jobs := upd_where (job_owned i w) (job_released nb' now) (crawl_jobs s)\<rparr>"
    using r by (cases "find (job_owned i w) (crawl_jobs s)") (auto simp: release_def)
  have "job_lease s i = Held w \<and> job_lease s' i = (if terminal_status Pending then Done else Free)
     \<and> (\<forall>k. k \<noteq> i \<longrightarrow> job_lease s' k = job_lease s k \<and> job_expiry s' k = job_expiry s k)"
    by (rule job_report [where p = "job_owned i w" and f = "job_released nb' now", OF inv find_ownedD [OF j]])
      (use find_ownedD [OF j] in \<open>simp_all add: s' job_released_def job_owned_def\<close>)
  then show ?thesis using release_inv [OF inv r] by simp
qed

lemma quarantine_locked_view:
  assumes inv: "queue_inv s" and j: "j \<in> set (crawl_jobs s) \<and> job_owned i w j"
    and q: "quarantine_locked d j reason ec em now s = Inr (x, s')"
  shows "job_lease s i = Held w \<and> job_lease s' i = Done \<and> (\<forall>k. k \<noteq> i \<longrightarrow> job_lease s' k = job_lease s k \<and> job_expiry s' k = job_expiry s k)"
proof -
  have s': "crawl_jobs s' = upd_where (\<lambda>x. j_job_id x = j_job_id j) (job_quarantined ec em now) (crawl_jobs s)"
    using q by (auto simp: quarantine_locked_def Let_def split: if_splits)
  have "job_lease s i = Held w \<and> job_lease s' i = (if terminal_status Quarantined then Done else Free)
     \<and> (\<forall>k. k \<noteq> i \<longrightarrow> job_lease s' k = job_lease s k \<and> job_expiry s' k = job_expiry s k)"
    by (rule job_report [where p = "\<lambda>x. j_job_id x = j_job_id j" and f = "job_quarantined ec em now", OF inv j])
      (use j in \<open>simp_all add: s' job_quarantined_def job_owned_def\<close>)
  then show ?thesis by simp
qed

lemma crawl_retry_law:
  assumes inv: "queue_inv s" and r: "crawl_retry e i w ec em nb now s = Inr (st, s')"
  shows "queue_inv s' \<and> job_lease s i = Held w \<and> job_lease s' i \<in> {Free, Done}
     \<and> (\<forall>j. j \<noteq> i \<longrightarrow> job_lease s' j = job_lease s j \<and> job_expiry s' j = job_expiry s j)"
proof -
  obtain pol till x where rt: "retry (ce_dead_letter_id e) (ce_random e) i w ec em pol till now (utc now) s = Inr (x, s')"
    using r by (auto simp: crawl_retry_def split: option.splits)
  then obtain j where j: "find (job_owned i w) (crawl_jobs s) = Some j"
    by (cases "find (job_owned i w) (crawl_jobs s)") (auto simp: retry_def lock_owned_def)
  note owned = find_ownedD [OF j]
  show ?thesis
  proof (cases "j_max_attempts j \<le> j_attempt j")
    case True
    then have "quarantine_locked (ce_dead_letter_id e) j MaxAttempts ec em now s = Inr (x, s')"
      using rt j by (simp add: retry_def lock_owned_def)
    then show ?thesis using quarantine_locked_view [OF inv owned] retry_inv [OF inv rt] by blast
  next
    case False
    then obtain nb' where s': "s' = s\<lparr>crawl_jobs := upd_where (\<lambda>x. j_job_id x = j_job_id j) (job_retried ec em nb' now) (crawl_jobs s)\<rparr>"
      using rt j by (auto simp: retry_def lock_owned_def)
    have "job_lease s i = Held w \<and> job_lease s' i = (if terminal_status Retry then Done else Free)
       \<and> (\<forall>k. k \<noteq> i \<longrightarrow> job_lease s' k = job_lease s k \<and> job_expiry s' k = job_expiry s k)"
      by (rule job_report [where p = "\<lambda>x. j_job_id x = j_job_id j" and f = "job_retried ec em nb' now", OF inv owned])
        (use owned in \<open>simp_all add: s' job_retried_def job_owned_def\<close>)
    then show ?thesis using retry_inv [OF inv rt] by simp
  qed
qed

lemma crawl_quarantine_law:
  assumes inv: "queue_inv s" and q: "crawl_quarantine e i w ec em now s = Inr s'"
  shows "queue_inv s' \<and> job_lease s i = Held w \<and> job_lease s' i = Done
     \<and> (\<forall>j. j \<noteq> i \<longrightarrow> job_lease s' j = job_lease s j \<and> job_expiry s' j = job_expiry s j)"
proof -
  obtain x where qr: "quarantine (ce_dead_letter_id e) (ce_audit_id e) i (Some w) ec em None None None now (utc now) s = Inr (x, s')"
    using q by (auto simp: crawl_quarantine_def)
  then obtain j where j: "find (job_owned i w) (crawl_jobs s) = Some j"
    by (cases "find (job_owned i w) (crawl_jobs s)") (auto simp: quarantine_def lock_owned_def)
  then have "quarantine_locked (ce_dead_letter_id e) j QuarantineReason ec em now s = Inr (x, s')"
    using qr by (auto simp: quarantine_def lock_owned_def)
  then show ?thesis using quarantine_locked_view [OF inv find_ownedD [OF j]] quarantine_inv [OF inv qr] by blast
qed

lemma crawl_recover_law:
  assumes inv: "queue_inv s" and r: "crawl_recover_expired e n now s = Inr (ids, s')"
  shows "queue_inv s' \<and> (\<forall>i. if i \<in> set ids then (\<exists>w. job_lease s i = Held w) \<and> job_expiry s i \<le> now \<and> job_lease s' i = Free
     else job_lease s' i = job_lease s i \<and> job_expiry s' i = job_expiry s i)"
proof -
  define sel where "sel = order_limit (\<lambda>j. expires_key (j_lease_expires_at j)) (nat n)
      (filter (\<lambda>j. job_expired now j \<and> j_job_id j \<notin> set (ce_locked e)) (crawl_jobs s))"
  have sub: "set sel \<subseteq> set (crawl_jobs s)" "\<And>j. j \<in> set sel \<Longrightarrow> job_expired now j"
    unfolding sel_def using set_order_limit_subset by force+
  have d: "distinct (map j_job_id (crawl_jobs s))" by (rule queue_invD(1) [OF inv])
  have rr: "recover_expired_leases (ce_locked e) n now (utc now) s = Inr (ids, s')" using r by (simp add: crawl_recover_expired_def)
  then have ids: "ids = map j_job_id sel"
    and s': "s' = s\<lparr>crawl_jobs := upd_where (\<lambda>j. j_job_id j \<in> j_job_id ` set sel) (job_recovered now) (crawl_jobs s)\<rparr>"
    by (auto simp: recover_expired_leases_def Let_def sel_def upd_selected_def split: if_splits)
  have get: "get_job i s' = map_option (\<lambda>j. if j_job_id j \<in> j_job_id ` set sel then job_recovered now j else j) (get_job i s)" for i
    unfolding s' by (rule get_job_upd_where) (simp add: job_recovered_def)
  have "(\<exists>w. job_lease s i = Held w) \<and> job_expiry s i \<le> now \<and> job_lease s' i = Free" if isel: "i \<in> j_job_id ` set sel" for i
  proof -
    obtain j where j: "j \<in> set sel" "j_job_id j = i" using isel by auto
    then have "get_job i s = Some j" using find_distinct_key [OF d, of j] sub(1) by (auto simp: get_job_def)
    then show ?thesis using get [of i] j sub(2) [OF j(1)]
      by (auto simp: job_lease_def job_expiry_def job_recovered_def job_lease_state_def job_expired_def expires_key_def split: option.splits)
  qed
  moreover have "job_lease s' i = job_lease s i \<and> job_expiry s' i = job_expiry s i" if "i \<notin> j_job_id ` set sel" for i
  proof -
    have "get_job i s' = get_job i s" using that get [of i] get_jobD [of i s] by (cases "get_job i s") auto
    then show ?thesis by (simp add: job_lease_def job_expiry_def)
  qed
  ultimately show ?thesis using recover_inv [OF inv rr] unfolding ids by simp
qed

lemma crawl_defer_law:
  assumes inv: "queue_inv s" and r: "crawl_defer e i w till now s = Inr s'"
  shows "queue_inv s' \<and> job_lease s i = Held w \<and> job_lease s' i = Free
     \<and> (\<forall>j. j \<noteq> i \<longrightarrow> job_lease s' j = job_lease s j \<and> job_expiry s' j = job_expiry s j)"
  using r by (auto simp: crawl_defer_def dest: release_view [OF inv])

lemma crawl_release_law:
  assumes inv: "queue_inv s" and r: "crawl_release e i w now s = Inr s'"
  shows "queue_inv s' \<and> job_lease s i = Held w \<and> job_lease s' i = Free
     \<and> (\<forall>j. j \<noteq> i \<longrightarrow> job_lease s' j = job_lease s j \<and> job_expiry s' j = job_expiry s j)"
  using r by (auto simp: crawl_release_def dest: release_view [OF inv])

lemma crawl_output_law: "crawl_check_output out = Inl x \<Longrightarrow> x = InvalidHandlerOutputError"
  by (auto simp: crawl_check_output_def split: if_splits option.splits task_output.splits)

lemmas crawl_laws = crawl_claim_law crawl_heartbeat_law crawl_beat_lost crawl_complete_law crawl_retry_law crawl_defer_law
  crawl_quarantine_law crawl_release_law crawl_recover_law

interpretation crawl_backend: lease_backend CRAWL_JOBS queue_inv job_lease job_expiry
  unfolding CRAWL_JOBS_def by unfold_locales (unfold queue_backend.select_convs, (erule crawl_output_law | erule (1) crawl_laws)+)

section \<open>The projection queue as a backend\<close>

definition task_expiry :: "db \<Rightarrow> uuid \<Rightarrow> ts" where
  "task_expiry s i = (case get_projection_task i s of None \<Rightarrow> 0 | Some t \<Rightarrow> expires_key (t_lease_expires_at t))"

text \<open>What an update of the task table does to the view of a row it touches, and of one it does not.\<close>

lemma task_view_upd:
  assumes inv: "proj_inv s" and t: "t \<in> set (projection_tasks s)"
    and f: "\<And>t. same_task t (f t)" and s': "projection_tasks s' = upd_where q f (projection_tasks s)"
  shows "task_lease s (t_task_id t) = task_lease_state t \<and> task_expiry s (t_task_id t) = expires_key (t_lease_expires_at t)
     \<and> task_lease s' (t_task_id t) = task_lease_state (if q t then f t else t)
     \<and> task_expiry s' (t_task_id t) = expires_key (t_lease_expires_at (if q t then f t else t))"
proof -
  have g: "get_projection_task (t_task_id t) s = Some t"
    using find_distinct_key [OF proj_inv_ids [OF inv] t] by (simp add: get_projection_task_def)
  have "get_projection_task i s' = get_projection_task i (s\<lparr>projection_tasks := upd_where q f (projection_tasks s)\<rparr>)" for i
    using s' by (simp add: get_projection_task_def)
  then have "get_projection_task (t_task_id t) s' = Some (if q t then f t else t)"
    using g by (simp add: get_task_upd [of f, OF f])
  with g show ?thesis by (simp add: task_lease_def task_expiry_def)
qed

lemma task_view_same:
  assumes f: "\<And>t. same_task t (f t)" and s': "projection_tasks s' = upd_where q f (projection_tasks s)"
    and q: "\<And>t. t \<in> set (projection_tasks s) \<Longrightarrow> q t \<Longrightarrow> t_task_id t \<noteq> i"
  shows "task_lease s' i = task_lease s i \<and> task_expiry s' i = task_expiry s i"
proof -
  have "get_projection_task i s' = get_projection_task i (s\<lparr>projection_tasks := upd_where q f (projection_tasks s)\<rparr>)"
    using s' by (simp add: get_projection_task_def)
  then have "get_projection_task i s' = get_projection_task i s"
    using get_taskD [of i s] q by (cases "get_projection_task i s") (auto simp: get_task_upd [of f, OF f])
  then show ?thesis by (simp add: task_lease_def task_expiry_def)
qed

lemma task_report:
  assumes inv: "proj_inv s" and t: "t \<in> set (projection_tasks s) \<and> task_owned i w t"
    and s': "projection_tasks s' = upd_where q f (projection_tasks s)"
    and f: "\<And>t. same_task t (f t)" and q: "q t" "\<And>x. q x \<Longrightarrow> t_task_id x = i" and st: "t_status (f t) = st" "st \<noteq> Leased"
  shows "task_lease s i = Held w \<and> task_lease s' i = (if terminal_status st then Done else Free)
     \<and> (\<forall>k. k \<noteq> i \<longrightarrow> task_lease s' k = task_lease s k \<and> task_expiry s' k = task_expiry s k)"
proof -
  have i: "t_task_id t = i" "task_lease_state t = Held w" using t by (auto simp: task_owned_def task_lease_state_def)
  have "task_lease_state (f t) = (if terminal_status st then Done else Free)"
    using st by (cases st) (auto simp: task_lease_state_def)
  then have "task_lease s i = Held w \<and> task_lease s' i = (if terminal_status st then Done else Free)"
    using task_view_upd [OF inv _ f s'] t i q(1) by auto
  moreover have "task_lease s' k = task_lease s k \<and> task_expiry s' k = task_expiry s k" if "k \<noteq> i" for k
    by (rule task_view_same [OF f s']) (use q(2) that in auto)
  ultimately show ?thesis by blast
qed

lemma proj_claim_law:
  assumes inv: "proj_inv s" and cl: "proj_claim e tys w ls n now s = Inr (tks, s')"
  shows "proj_inv s' \<and> length tks \<le> nat n \<and> (\<forall>i. if i \<in> tk_job_id ` set tks then task_lease s i = Free \<and> task_lease s' i = Held w \<and> task_expiry s' i = now + ls * second
     else task_lease s' i = task_lease s i \<and> task_expiry s' i = task_expiry s i)"
proof -
  define sel where "sel = order_limit task_key (nat n) (filter (task_claimable (ce_locked e) tys now) (projection_tasks s))"
  have sub: "set sel \<subseteq> set (projection_tasks s)" "\<And>t. t \<in> set sel \<Longrightarrow> claimable_status (t_status t)"
    unfolding sel_def using set_order_limit_subset by (force simp: task_claimable_def)+
  obtain ts where c: "claim_projection_tasks (ce_locked e) w ls tys n now (utc now) s = Inr (ts, s')" "tks = map task_from_projection ts"
    using cl by (auto simp: proj_claim_def)
  have s': "projection_tasks s' = upd_where (\<lambda>t. t_task_id t \<in> t_task_id ` set sel) (task_leased w ls now) (projection_tasks s)"
    and ts: "ts = sort_key task_key (returning t_task_id sel (upd_selected t_task_id sel (task_leased w ls now) (projection_tasks s)))"
    using c(1) by (auto simp: claim_projection_tasks_def Let_def sel_def upd_selected_def split: if_splits)
  have "set ts = task_leased w ls now ` set sel"
    unfolding ts using set_returning [OF proj_inv_ids [OF inv] sub(1), of "task_leased w ls now"] by (simp add: task_leased_def)
  then have ids: "tk_job_id ` set tks = t_task_id ` set sel"
    unfolding c(2) by (simp add: image_image task_from_projection_def task_leased_def)
  have "length tks \<le> length sel"
    unfolding c(2) ts using length_returning_le [OF proj_inv_ids [OF inv] sub(1), of "task_leased w ls now"] by (simp add: task_leased_def)
  then have len: "length tks \<le> nat n" by (simp add: sel_def)
  have "task_lease s i = Free \<and> task_lease s' i = Held w \<and> task_expiry s' i = now + ls * second" if isel: "i \<in> t_task_id ` set sel" for i
  proof -
    obtain t where t: "t \<in> set sel" "t_task_id t = i" using isel by auto
    then have "t \<in> set (projection_tasks s)" "task_lease_state t = Free"
      using sub(1) sub(2) [OF t(1)] by (auto simp: task_lease_state_def claimable_status_def)
    then show ?thesis using task_view_upd [OF inv _ same_task_ops(1) s', of t] t isel
      by (simp add: task_leased_def task_lease_state_def expires_key_def)
  qed
  moreover have "task_lease s' i = task_lease s i \<and> task_expiry s' i = task_expiry s i" if "i \<notin> t_task_id ` set sel" for i
    by (rule task_view_same [OF same_task_ops(1) s']) (use that in auto)
  ultimately show ?thesis using len task_moves_inv [OF inv claim_moves [OF inv c(1)]] unfolding ids by simp
qed

lemma proj_heartbeat_law:
  assumes inv: "proj_inv s" and b: "proj_heartbeat e i w ls now s = Inr s'"
  shows "proj_inv s' \<and> task_lease s i = Held w \<and> task_expiry s' i = now + ls * second
     \<and> (\<forall>j. task_lease s' j = task_lease s j \<and> (j \<noteq> i \<longrightarrow> task_expiry s' j = task_expiry s j))"
proof -
  let ?f = "\<lambda>t. t\<lparr>t_lease_expires_at := Some (now + ls * second), t_updated_at := now\<rparr>"
  obtain x where h: "heartbeat_projection_task i w ls now (utc now) s = Inr (x, s')" using b by (auto simp: proj_heartbeat_def)
  then obtain t where t: "t \<in> set (projection_tasks s)" "task_owned i w t"
    and s': "projection_tasks s' = upd_where (task_owned i w) ?f (projection_tasks s)"
    by (auto simp: heartbeat_projection_task_def Let_def split: if_splits)
  have "task_lease s i = Held w \<and> task_lease s' i = Held w \<and> task_expiry s' i = now + ls * second"
    using task_view_upd [OF inv t(1) same_task_ops(7) s'] t(2) by (auto simp: task_owned_def task_lease_state_def expires_key_def)
  moreover have "task_lease s' k = task_lease s k \<and> task_expiry s' k = task_expiry s k" if "k \<noteq> i" for k
    by (rule task_view_same [OF same_task_ops(7) s']) (use that in \<open>auto simp: task_owned_def\<close>)
  ultimately show ?thesis using task_moves_inv [OF inv heartbeat_moves [OF h]] by metis
qed

lemma find_task_None:
  assumes "proj_inv s" "find (task_owned i w) (projection_tasks s) = None"
  shows "task_lease s i \<noteq> Held w"
proof (cases "get_projection_task i s")
  case (Some t)
  then have t: "t \<in> set (projection_tasks s)" "t_task_id t = i" by (auto dest: get_taskD)
  then have "\<not> task_owned i w t" using assms(2) by (auto simp: find_None_iff)
  moreover have "lease_consistent (t_status t) (t_lease_owner t) (t_lease_expires_at t)"
    using assms(1) t(1) by (auto simp: proj_inv_def tasks_inv_def list_all_iff projection_task_checks_def)
  ultimately show ?thesis using Some t(2)
    by (auto simp: task_lease_def task_lease_state_def task_owned_def lease_consistent_def split: job_status.splits option.splits)
qed (simp add: task_lease_def)

lemma proj_beat_lost:
  assumes "proj_inv s" "proj_heartbeat e i w ls now s = Inl x"
  shows "x = LeaseNotOwnedError \<and> task_lease s i \<noteq> Held w"
proof -
  have "heartbeat_projection_task i w ls now (utc now) s = Inl x"
    using assms(2) by (cases "heartbeat_projection_task i w ls now (utc now) s") (auto simp: proj_heartbeat_def)
  then have "x = LeaseNotOwnedError" "find (task_owned i w) (projection_tasks s) = None"
    by (auto simp: heartbeat_projection_task_def Let_def find_None_iff split: if_splits)
  then show ?thesis using find_task_None [OF assms(1)] by blast
qed

text \<open>
  The worker acknowledges under its lease. A leased task has no acknowledgement yet, so the branch
  for a repeated receipt is never taken.
\<close>

lemma proj_complete_law:
  assumes inv: "proj_inv s" and b: "proj_complete e t w out now s = Inr s'"
  shows "proj_inv s' \<and> task_lease s (tk_job_id t) = Held w \<and> task_lease s' (tk_job_id t) = Done
     \<and> (\<forall>j. j \<noteq> tk_job_id t \<longrightarrow> task_lease s' j = task_lease s j \<and> task_expiry s' j = task_expiry s j)"
proof -
  let ?i = "tk_job_id t"
  obtain r ev res where a: "acknowledge_projection (ce_decode e) (ce_change_id e) (ce_outbox_id e) ?i r ev (Some w) now (utc now) s = Inr (res, s')"
    using b by (auto simp: proj_complete_def)
  then obtain x where x: "lock_owned_task ?i w s = Inr x"
    by (auto simp: acknowledge_projection_def split: if_splits)
  have own: "x \<in> set (projection_tasks s) \<and> task_owned ?i w x" by (rule lock_owned_taskD [OF x])
  have none: "get_acknowledgement ?i s = None"
  proof (rule ccontr)
    assume "get_acknowledgement ?i s \<noteq> None"
    then obtain k where "k \<in> set (projection_acks s)" "k_task_id k = ?i" by (auto dest: get_ackD)
    then obtain y where y: "y \<in> set (projection_tasks s)" "t_task_id y = ?i" "t_status y = Succeeded"
      using inv by (auto simp: proj_inv_def acks_inv_def)
    then have "y = x" using own distinct_key_inj [OF proj_inv_ids [OF inv], of y x] by (simp add: task_owned_def)
    then show False using y(3) own by (simp add: task_owned_def)
  qed
  have "\<exists>cur. projection_tasks s' = upd_where (\<lambda>t. t_task_id t = ?i) (task_succeeded cur) (projection_tasks s)"
    using a
  proof (cases rule: ack_cases)
    case (created cur t' en s1)
    then show ?thesis using emit_acked [OF created(11,12,2)] by (auto simp: acked_def)
  qed (use none in simp)
  then obtain cur where s': "projection_tasks s' = upd_where (\<lambda>t. t_task_id t = ?i) (task_succeeded cur) (projection_tasks s)" ..
  have "task_lease s ?i = Held w \<and> task_lease s' ?i = (if terminal_status Succeeded then Done else Free)
     \<and> (\<forall>k. k \<noteq> ?i \<longrightarrow> task_lease s' k = task_lease s k \<and> task_expiry s' k = task_expiry s k)"
    by (rule task_report [OF inv own s']) (use own in \<open>simp_all add: task_succeeded_def task_owned_def same_task_def\<close>)
  then show ?thesis using ack_inv [OF inv a] by simp
qed

lemma release_task_view:
  assumes inv: "proj_inv s" and r: "release_projection_task i w nb now (utc now) s = Inr (q, s')"
  shows "proj_inv s' \<and> task_lease s i = Held w \<and> task_lease s' i = Free
     \<and> (\<forall>j. j \<noteq> i \<longrightarrow> task_lease s' j = task_lease s j \<and> task_expiry s' j = task_expiry s j)"
proof -
  obtain t nb' where t: "find (task_owned i w) (projection_tasks s) = Some t"
    and s': "projection_tasks s' = upd_where (task_owned i w) (task_released nb' now) (projection_tasks s)"
    using r by (cases "find (task_owned i w) (projection_tasks s)") (auto simp: release_projection_task_def)
  have own: "t \<in> set (projection_tasks s) \<and> task_owned i w t" by (rule find_SomeD [OF t])
  have "task_lease s i = Held w \<and> task_lease s' i = (if terminal_status Pending then Done else Free)
     \<and> (\<forall>k. k \<noteq> i \<longrightarrow> task_lease s' k = task_lease s k \<and> task_expiry s' k = task_expiry s k)"
    by (rule task_report [OF inv own s']) (use own in \<open>simp_all add: task_released_def task_owned_def same_task_def\<close>)
  then show ?thesis using task_moves_inv [OF inv release_moves [OF r]] by simp
qed

lemma proj_defer_law:
  assumes inv: "proj_inv s" and r: "proj_defer e i w till now s = Inr s'"
  shows "proj_inv s' \<and> task_lease s i = Held w \<and> task_lease s' i = Free
     \<and> (\<forall>j. j \<noteq> i \<longrightarrow> task_lease s' j = task_lease s j \<and> task_expiry s' j = task_expiry s j)"
  using r by (auto simp: proj_defer_def dest: release_task_view [OF inv])

lemma proj_release_law:
  assumes inv: "proj_inv s" and r: "proj_release e i w now s = Inr s'"
  shows "proj_inv s' \<and> task_lease s i = Held w \<and> task_lease s' i = Free
     \<and> (\<forall>j. j \<noteq> i \<longrightarrow> task_lease s' j = task_lease s j \<and> task_expiry s' j = task_expiry s j)"
  using r by (auto simp: proj_release_def dest: release_task_view [OF inv])

lemma proj_retry_law:
  assumes inv: "proj_inv s" and r: "proj_retry e i w ec em nb now s = Inr (st, s')"
  shows "proj_inv s' \<and> task_lease s i = Held w \<and> task_lease s' i \<in> {Free, Done}
     \<and> (\<forall>j. j \<noteq> i \<longrightarrow> task_lease s' j = task_lease s j \<and> task_expiry s' j = task_expiry s j)"
proof -
  obtain pol till x where rt: "retry_projection_task (ce_random e) i w ec em pol till now (utc now) s = Inr (x, s')"
    using r by (auto simp: proj_retry_def split: option.splits)
  then obtain t f st' where t: "lock_owned_task i w s = Inr t"
    and s': "projection_tasks s' = upd_where (\<lambda>t. t_task_id t = i) f (projection_tasks s)"
    and f: "\<And>t. same_task t (f t)" "t_status (f t) = st'" "st' \<noteq> Leased"
  proof -
    obtain t where t: "lock_owned_task i w s = Inr t" using rt by (auto simp: retry_projection_task_def)
    then have "s' = upd_task i (task_quarantined ec em now) s \<or> (\<exists>nb'. s' = upd_task i (task_retried ec em nb' now) s)"
      using rt by (auto simp: retry_projection_task_def split: if_splits)
    then show thesis
    proof
      assume "s' = upd_task i (task_quarantined ec em now) s"
      then show thesis using t by (intro that [of t "task_quarantined ec em now" Quarantined]) (simp_all add: upd_task_def task_quarantined_def same_task_def)
    next
      assume "\<exists>nb'. s' = upd_task i (task_retried ec em nb' now) s"
      then obtain nb' where "s' = upd_task i (task_retried ec em nb' now) s" ..
      then show thesis using t by (intro that [of t "task_retried ec em nb' now" Retry]) (simp_all add: upd_task_def task_retried_def same_task_def)
    qed
  qed
  have own: "t \<in> set (projection_tasks s) \<and> task_owned i w t" by (rule lock_owned_taskD [OF t])
  have "task_lease s i = Held w \<and> task_lease s' i = (if terminal_status st' then Done else Free)
     \<and> (\<forall>k. k \<noteq> i \<longrightarrow> task_lease s' k = task_lease s k \<and> task_expiry s' k = task_expiry s k)"
    by (rule task_report [OF inv own s' f(1)]) (use own f in \<open>simp_all add: task_owned_def\<close>)
  then show ?thesis using task_moves_inv [OF inv retry_moves [OF inv rt]] by simp
qed

lemma proj_quarantine_law:
  assumes inv: "proj_inv s" and q: "proj_quarantine e i w ec em now s = Inr s'"
  shows "proj_inv s' \<and> task_lease s i = Held w \<and> task_lease s' i = Done
     \<and> (\<forall>j. j \<noteq> i \<longrightarrow> task_lease s' j = task_lease s j \<and> task_expiry s' j = task_expiry s j)"
proof -
  obtain x s1 y where h: "heartbeat_projection_task i w 1 now (utc now) s = Inr (x, s1)"
    and qt: "quarantine_projection_task i ec em now (utc now) s1 = Inr (y, s')"
    using q by (auto simp: proj_quarantine_def)
  have 1: "proj_inv s1 \<and> task_lease s i = Held w \<and> task_expiry s1 i = now + 1 * second
     \<and> (\<forall>j. task_lease s1 j = task_lease s j \<and> (j \<noteq> i \<longrightarrow> task_expiry s1 j = task_expiry s j))"
    by (rule proj_heartbeat_law [where e = e], use inv h in \<open>simp_all add: proj_heartbeat_def\<close>)
  then have held: "task_lease s1 i = Held w" and inv1: "proj_inv s1" by simp_all
  then obtain t where g: "get_projection_task i s1 = Some t" and own: "t_status t = Leased" "t_lease_owner t = Some w"
    by (auto simp: task_lease_def task_lease_state_def split: option.splits job_status.splits)
  then have own': "t \<in> set (projection_tasks s1) \<and> task_owned i w t" using get_taskD [OF g] by (simp add: task_owned_def)
  have s': "projection_tasks s' = upd_where (\<lambda>t. t_task_id t = i) (task_quarantined ec em now) (projection_tasks s1)"
    using qt g by (auto simp: quarantine_projection_task_def upd_task_def split: if_splits)
  have "task_lease s1 i = Held w \<and> task_lease s' i = (if terminal_status Quarantined then Done else Free)
     \<and> (\<forall>k. k \<noteq> i \<longrightarrow> task_lease s' k = task_lease s1 k \<and> task_expiry s' k = task_expiry s1 k)"
    by (rule task_report [OF inv1 own' s']) (use own' in \<open>simp_all add: task_quarantined_def task_owned_def same_task_def\<close>)
  then show ?thesis using 1 task_moves_inv [OF inv1 quarantine_moves [OF inv1 qt]] by simp
qed

lemma proj_recover_law:
  assumes inv: "proj_inv s" and r: "proj_recover_expired e n now s = Inr (ids, s')"
  shows "proj_inv s' \<and> (\<forall>i. if i \<in> set ids then (\<exists>w. task_lease s i = Held w) \<and> task_expiry s i \<le> now \<and> task_lease s' i = Free
     else task_lease s' i = task_lease s i \<and> task_expiry s' i = task_expiry s i)"
proof -
  define sel where "sel = order_limit (\<lambda>t. expires_key (t_lease_expires_at t)) (nat n)
      (filter (\<lambda>t. task_expired now t \<and> t_task_id t \<notin> set (ce_locked e)) (projection_tasks s))"
  have sub: "set sel \<subseteq> set (projection_tasks s)" "\<And>t. t \<in> set sel \<Longrightarrow> task_expired now t"
    unfolding sel_def using set_order_limit_subset by force+
  have rr: "recover_expired_projection_leases (ce_locked e) n now (utc now) s = Inr (ids, s')"
    using r by (simp add: proj_recover_expired_def)
  then have ids: "ids = map t_task_id sel"
    and s': "projection_tasks s' = upd_where (\<lambda>t. t_task_id t \<in> t_task_id ` set sel) (task_recovered now) (projection_tasks s)"
    by (auto simp: recover_expired_projection_leases_def Let_def sel_def upd_selected_def split: if_splits)
  have "(\<exists>w. task_lease s i = Held w) \<and> task_expiry s i \<le> now \<and> task_lease s' i = Free" if isel: "i \<in> t_task_id ` set sel" for i
  proof -
    obtain t where t: "t \<in> set sel" "t_task_id t = i" using isel by auto
    then have "t \<in> set (projection_tasks s)" "task_expired now t" using sub by auto
    moreover have "lease_consistent (t_status t) (t_lease_owner t) (t_lease_expires_at t)"
      using inv \<open>t \<in> set (projection_tasks s)\<close> by (auto simp: proj_inv_def tasks_inv_def list_all_iff projection_task_checks_def)
    ultimately show ?thesis using task_view_upd [OF inv _ same_task_ops(5) s', of t] t
      by (auto simp: task_recovered_def task_lease_state_def expires_key_def task_expired_def lease_consistent_def split: option.splits)
  qed
  moreover have "task_lease s' i = task_lease s i \<and> task_expiry s' i = task_expiry s i" if "i \<notin> t_task_id ` set sel" for i
    by (rule task_view_same [OF same_task_ops(5) s']) (use that in auto)
  ultimately show ?thesis using task_moves_inv [OF inv recover_moves [OF inv rr]] unfolding ids by simp
qed

lemma proj_output_law: "proj_check_output out = Inl x \<Longrightarrow> x = InvalidHandlerOutputError"
  by (auto simp: proj_check_output_def projection_output_def split: if_splits option.splits task_output.splits)

lemmas proj_laws = proj_claim_law proj_heartbeat_law proj_beat_lost proj_complete_law proj_retry_law proj_defer_law
  proj_quarantine_law proj_release_law proj_recover_law

interpretation projection_backend: lease_backend PROJECTION_TASKS proj_inv task_lease task_expiry
  unfolding PROJECTION_TASKS_def by unfold_locales (unfold queue_backend.select_convs, (erule proj_output_law | erule (1) proj_laws)+)

end
