(* ===== verification/Runtime.thy ===== *)
theory Runtime
  imports Backends "HOL-Library.AList"
begin

text \<open>
  \<open>workers/runtime.py\<close>: one worker process. Its state is the record \<open>worker\<close>, one field per
  attribute of \<open>WorkerRuntime\<close> that decides what it does (the wake-up event only shortens pauses). A
  coroutine that awaits the database is split where other coroutines of the process may run: the
  transaction, and what the coroutine does with its outcome in the state it then finds.

  The wall clock of the process is \<open>now\<close>, its monotonic clock \<open>mt\<close> in seconds. What a handler
  returns, and what the driver does to a transaction, are arguments.
\<close>

section \<open>Bindings of a role\<close>

record handler =
  hd_async :: bool
  hd_job_types :: "string list"
  hd_retry_schedule :: "retry_schedule option"

record binding =
  hb_backend :: queue_backend
  hb_handler :: handler

definition check_handler_contract :: "handler \<Rightarrow> unit res" where
  "check_handler_contract h =
     (if \<not> hd_async h then Inl TypeError else if hd_job_types h = [] then Inl ValueError else Inr ())"

definition noop_handler :: "worker_role \<Rightarrow> handler" where
  "noop_handler role = \<lparr>hd_async = True, hd_job_types = [role_value role], hd_retry_schedule = None\<rparr>"

text \<open>What a factory returns: a handler, a sequence of bindings, or anything else.\<close>

datatype produced = Handler handler | Bindings "binding list" | OtherProduct

fun check_bindings :: "(string \<times> string list) list \<Rightarrow> binding list \<Rightarrow> unit res" where
  "check_bindings seen [] = Inr ()"
| "check_bindings seen (b # bs) =
     bind_res (check_handler_contract (hb_handler b)) (\<lambda>_.
       let name = qb_name (hb_backend b);
           claimed = (case map_of seen name of None \<Rightarrow> [] | Some ts \<Rightarrow> ts)
       in if \<exists>t\<in>set (hd_job_types (hb_handler b)). t \<in> set claimed then Inl HandlerRegistryError
          else check_bindings (AList.update name (claimed @ hd_job_types (hb_handler b)) seen) bs)"

definition as_bindings :: "produced \<Rightarrow> binding list res" where
  "as_bindings p =
     bind_res (case p of
         Handler h \<Rightarrow> Inr [\<lparr>hb_backend = CRAWL_JOBS, hb_handler = h\<rparr>]
       | Bindings bs \<Rightarrow> if bs = [] then Inl HandlerRegistryError else Inr bs
       | OtherProduct \<Rightarrow> Inl HandlerRegistryError) (\<lambda>bs.
     bind_res (check_bindings [] bs) (\<lambda>_. Inr bs))"

section \<open>State\<close>

record pool_snapshot =
  sn_desired_concurrency :: int
  sn_revision :: int

record worker =
  w_config :: worker_config
  w_instance_id :: uuid
  w_bindings :: "binding list"
  w_next_binding :: nat
  w_active :: "(uuid \<times> task \<times> binding) list"
  w_cancelled :: "uuid list"
  w_claim_failures :: nat
  w_claim_backoff :: rat
  w_pool :: pool_snapshot
  w_status :: string
  w_drain_barrier :: bool
  w_stop :: bool
  w_last_heartbeat_ok :: rat
  w_fenced :: bool
  w_heartbeats :: nat
  w_lost_leases :: nat
  w_fences :: nat
  w_reports :: nat
  w_report_failures :: nat
  w_claims_by_backend :: "(string \<times> nat) list"

definition new_worker :: "int option \<Rightarrow> worker_config \<Rightarrow> uuid \<Rightarrow> binding list \<Rightarrow> rat \<Rightarrow> worker" where
  "new_worker cpus config instance_id bindings mt =
     \<lparr>w_config = config, w_instance_id = instance_id, w_bindings = bindings, w_next_binding = 0, w_active = [],
      w_cancelled = [], w_claim_failures = 0, w_claim_backoff = 0,
      w_pool = \<lparr>sn_desired_concurrency = ps_desired_concurrency (default_pool_spec cpus (wc_role config)), sn_revision = 0\<rparr>,
      w_status = ''starting'', w_drain_barrier = False, w_stop = False, w_last_heartbeat_ok = mt, w_fenced = False,
      w_heartbeats = 0, w_lost_leases = 0, w_fences = 0, w_reports = 0, w_report_failures = 0, w_claims_by_backend = []\<rparr>"

definition owner :: "worker \<Rightarrow> string" where
  "owner w = uuid_str (w_instance_id w)"

definition effective_concurrency :: "worker \<Rightarrow> int" where
  "effective_concurrency w = min (sn_desired_concurrency (w_pool w)) (max_slots (w_config w))"

definition claiming :: "worker \<Rightarrow> bool" where
  "claiming w \<longleftrightarrow> \<not> w_stop w \<and> \<not> w_drain_barrier w \<and> \<not> w_fenced w \<and> w_status w = ''ready''"

definition request_stop :: "worker \<Rightarrow> worker" where
  "request_stop w = w\<lparr>w_stop := True\<rparr>"

text \<open>\<open>SQLAlchemyError\<close>, \<open>OSError\<close> and \<open>PersistenceError\<close> with their subclasses.\<close>

definition db_error :: "error \<Rightarrow> bool" where
  "db_error e \<longleftrightarrow> e \<in> {OperationalError, IntegrityError, DataError, OSError, NotFoundError, StaleRevisionError,
     LeaseNotOwnedError, InvalidTransitionError, ConflictError, StaleClaimError, InvalidValueError}"

text \<open>
  What the connection does to a transaction: nothing; it cannot be opened; the commit fails and is
  rolled back; or the commit succeeds but the client sees an error. An error of the body rolls back.
\<close>

datatype fault = NoFault | ConnectFails error | CommitFails error | CommitUnknown error

definition transaction :: "fault \<Rightarrow> (db \<Rightarrow> ('a \<times> db) res) \<Rightarrow> db \<Rightarrow> 'a res \<times> db" where
  "transaction fl body s =
     (case fl of ConnectFails e \<Rightarrow> (Inl e, s)
      | _ \<Rightarrow> (case body s of
            Inl e \<Rightarrow> (Inl e, s)
          | Inr (x, s') \<Rightarrow> (case fl of CommitFails e \<Rightarrow> (Inl e, s) | CommitUnknown e \<Rightarrow> (Inl e, s') | _ \<Rightarrow> (Inr x, s'))))"

definition no_ret :: "(db \<Rightarrow> db res) \<Rightarrow> db \<Rightarrow> (unit \<times> db) res" where
  "no_ret f s = map_sum id (Pair ()) (f s)"

section \<open>Fencing, pool and drain\<close>

definition abandon :: "uuid \<Rightarrow> worker \<Rightarrow> worker" where
  "abandon i w =
     (if map_of (w_active w) i = None then w
      else w\<lparr>w_active := AList.delete i (w_active w), w_lost_leases := w_lost_leases w + 1, w_cancelled := w_cancelled w @ [i]\<rparr>)"

definition fence_if_lease_unconfirmed :: "rat \<Rightarrow> worker \<Rightarrow> worker" where
  "fence_if_lease_unconfirmed mt w =
     (if w_fenced w then w
      else if mt - w_last_heartbeat_ok w < fence_after (w_config w) then w
      else fold abandon (map fst (w_active w)) (w\<lparr>w_fenced := True, w_fences := w_fences w + 1\<rparr>))"

definition unfence :: "worker \<Rightarrow> worker" where
  "unfence w = w\<lparr>w_fenced := False\<rparr>"

definition apply_pool :: "pool_snapshot \<Rightarrow> worker \<Rightarrow> worker" where
  "apply_pool snapshot w = w\<lparr>w_pool := snapshot\<rparr>"

definition apply_drain_barrier :: "bool \<Rightarrow> worker \<Rightarrow> worker" where
  "apply_drain_barrier requested w = w\<lparr>w_drain_barrier := requested\<rparr>"

definition set_status :: "fault \<Rightarrow> string \<Rightarrow> ts \<Rightarrow> worker \<Rightarrow> db \<Rightarrow> bool res \<times> worker \<times> db" where
  "set_status fl status now w s =
     (case transaction fl (set_instance_status (w_instance_id w) status now (utc now)) s of
        (Inl e, s') \<Rightarrow> (if db_error e then Inr False else Inl e, w, s')
      | (Inr _, s') \<Rightarrow> (Inr True, w\<lparr>w_status := status\<rparr>, s'))"

section \<open>Boot\<close>

definition BOOTSTRAP_REASON :: ustr where
  "BOOTSTRAP_REASON = ulit ''bootstrap default pool ('' @ [0xA7] @ ulit ''7.6)''"

definition READY_RETRY_ATTEMPTS :: nat where
  "READY_RETRY_ATTEMPTS = 5"

definition snapshot_of :: "worker_pool \<Rightarrow> pool_snapshot" where
  "snapshot_of p = \<lparr>sn_desired_concurrency = wp_desired_concurrency p, sn_revision = wp_revision p\<rparr>"

definition bootstrap_state :: "pool_spec \<Rightarrow> pool_desired_state" where
  "bootstrap_state spec =
     \<lparr>ds_desired_replicas = ps_desired_replicas spec, ds_desired_concurrency = ps_desired_concurrency spec,
      ds_max_replicas = ps_max_replicas spec, ds_min_replicas = ps_min_replicas spec, ds_mode = ''manual'',
      ds_resource_profile = ps_resource_profile spec\<rparr>"

text \<open>Three transactions: look, create, and look again when another replica was faster (\<open>f1\<close>, \<open>f2\<close>, \<open>f3\<close>).\<close>

definition ensure_pool ::
  "fault \<Rightarrow> fault \<Rightarrow> fault \<Rightarrow> int option \<Rightarrow> uuid \<Rightarrow> ts \<Rightarrow> worker \<Rightarrow> (db \<Rightarrow> db) \<Rightarrow> db \<Rightarrow> pool_snapshot res \<times> db" where
  "ensure_pool f1 f2 f3 cpus audit_id now w between s =
     (let role = wc_role (w_config w); look = (\<lambda>x. Inr (get_pool role x, x))
      in case transaction f1 look s of
           (Inl e, s1) \<Rightarrow> (Inl e, s1)
         | (Inr (Some p), s1) \<Rightarrow> (Inr (snapshot_of p), s1)
         | (Inr None, s1) \<Rightarrow>
             (case transaction f2 (upsert_pool audit_id role (bootstrap_state (default_pool_spec cpus role))
                     (Some (ulit (''worker:'' @ uuid_str (w_instance_id w)))) (Some BOOTSTRAP_REASON) None now (utc now)) (between s1) of
                (Inr p, s2) \<Rightarrow> (Inr (snapshot_of p), s2)
              | (Inl e, s2) \<Rightarrow>
                  if e \<notin> {ConflictError, IntegrityError} then (Inl e, s2)
                  else (case transaction f3 look s2 of
                          (Inl e', s3) \<Rightarrow> (Inl e', s3)
                        | (Inr None, s3) \<Rightarrow> (Inl ConflictError, s3)
                        | (Inr (Some p), s3) \<Rightarrow> (Inr (snapshot_of p), s3))))"

fun become_ready :: "(fault \<times> ts) list \<Rightarrow> worker \<Rightarrow> db \<Rightarrow> unit res \<times> worker \<times> db" where
  "become_ready [] w s = (Inl WorkerRuntimeError, w, s)"
| "become_ready ((fl, now) # tries) w s =
     (case set_status fl ''ready'' now w s of
        (Inl e, w', s') \<Rightarrow> (Inl e, w', s')
      | (Inr True, w', s') \<Rightarrow> (Inr (), w', s')
      | (Inr False, w', s') \<Rightarrow> become_ready tries w' s')"

text \<open>
  \<open>login\<close> is the verdict of \<open>verify_component_login\<close> and \<open>ready\<close> that of \<open>_check_ready\<close>; \<open>tries\<close> is what
  happens to each of the \<open>READY_RETRY_ATTEMPTS\<close> attempts to become ready.
\<close>

record boot_env =
  bo_login :: "unit res"
  bo_faults :: "fault \<times> fault \<times> fault"
  bo_audit_id :: uuid
  bo_between :: "db \<Rightarrow> db"
  bo_register :: fault
  bo_version :: string
  bo_deployment :: "string option"
  bo_container_id :: "string option"
  bo_hostname :: "string option"
  bo_ready :: "unit res"
  bo_tries :: "nat \<Rightarrow> fault \<times> ts"

definition boot :: "boot_env \<Rightarrow> int option \<Rightarrow> ts \<Rightarrow> rat \<Rightarrow> worker \<Rightarrow> db \<Rightarrow> unit res \<times> worker \<times> db" where
  "boot b cpus now mt w s =
     (case bo_login b of Inl e \<Rightarrow> (Inl e, w, s)
      | Inr _ \<Rightarrow>
          (let (f1, f2, f3) = bo_faults b
           in case ensure_pool f1 f2 f3 cpus (bo_audit_id b) now w (bo_between b) s of
             (Inl e, s1) \<Rightarrow> (Inl e, w, s1)
           | (Inr snap, s1) \<Rightarrow>
               let w1 = w\<lparr>w_pool := snap\<rparr>
               in case transaction (bo_register b) (register_instance (w_instance_id w) (wc_role (w_config w)) (bo_version b)
                         (sn_desired_concurrency snap) (bo_deployment b) (bo_container_id b) (bo_hostname b)
                         (Some (sn_revision snap)) now (utc now)) s1 of
                    (Inl e, s2) \<Rightarrow> (Inl e, w1, s2)
                  | (Inr _, s2) \<Rightarrow>
                      (case bo_ready b of Inl e \<Rightarrow> (Inl e, w1, s2)
                       | Inr _ \<Rightarrow>
                           (case become_ready (map (bo_tries b) [0..<READY_RETRY_ATTEMPTS]) w1 s2 of
                              (Inl e, w2, s3) \<Rightarrow> (Inl e, w2, s3)
                            | (Inr _, w2, s3) \<Rightarrow> (Inr (), w2\<lparr>w_last_heartbeat_ok := mt\<rparr>, s3)))))"

section \<open>Claiming\<close>

definition MAX_CLAIM_BACKOFF_SECONDS :: rat where
  "MAX_CLAIM_BACKOFF_SECONDS = 30"

text \<open>The drain barrier is read from the row of the instance, in the transaction of the claim.\<close>

definition claim_allowed :: "worker \<Rightarrow> db \<Rightarrow> bool \<times> worker" where
  "claim_allowed w s =
     (case get_instance (w_instance_id w) s of
        None \<Rightarrow> (False, w)
      | Some x \<Rightarrow> if wi_drain_requested_at x \<noteq> None then (False, apply_drain_barrier True w) else (wi_status x = Ready, w))"

text \<open>
  One pass over the bindings. \<open>envs k\<close> is the call to the \<open>k\<close>-th binding visited, or the error the
  connection raises in it. The cursor survives a pass that fails.
\<close>

fun claim_pass ::
  "worker \<Rightarrow> int \<Rightarrow> ts \<Rightarrow> (nat \<Rightarrow> error + call_env) \<Rightarrow> nat \<Rightarrow> nat list \<Rightarrow> nat \<Rightarrow> (task \<times> binding) list \<Rightarrow> db
   \<Rightarrow> nat \<times> ((task \<times> binding) list \<times> db) res" where
  "claim_pass w limit now envs start [] next claimed s = (next, Inr (claimed, s))"
| "claim_pass w limit now envs start (k # ks) next claimed s =
     (let remaining = limit - int (length claimed); count = length (w_bindings w);
          index = (start + k) mod count; b = w_bindings w ! index
      in if remaining \<le> 0 then (next, Inr (claimed, s))
         else case envs k of
             Inl x \<Rightarrow> (next, Inl x)
           | Inr e \<Rightarrow>
               (case qb_claim (hb_backend b) e (hd_job_types (hb_handler b)) (owner w) (wc_lease_seconds (w_config w)) remaining now s of
                  Inl x \<Rightarrow> (next, Inl x)
                | Inr (ts, s') \<Rightarrow>
                    if ts = [] then claim_pass w limit now envs start ks next claimed s'
                    else claim_pass w limit now envs start ks ((index + 1) mod count) (claimed @ map (\<lambda>t. (t, b)) ts) s'))"

text \<open>The transaction: \<open>None\<close> when the barrier refuses it, otherwise what was claimed.\<close>

definition claim_tx ::
  "fault \<Rightarrow> (nat \<Rightarrow> error + call_env) \<Rightarrow> int \<Rightarrow> ts \<Rightarrow> worker \<Rightarrow> db \<Rightarrow> (task \<times> binding) list option res \<times> worker \<times> db" where
  "claim_tx fl envs limit now w s =
     (case fl of ConnectFails e \<Rightarrow> (Inl e, w, s)
      | _ \<Rightarrow>
        (let (allowed, w1) = claim_allowed w s
         in if \<not> allowed
            then (case transaction fl (\<lambda>x. Inr (None, x)) s of (r, s') \<Rightarrow> (r, w1, s'))
            else (let (next, r) = claim_pass w1 limit now envs (w_next_binding w1) [0..<length (w_bindings w1)] (w_next_binding w1) [] s;
                      w2 = w1\<lparr>w_next_binding := next\<rparr>
                  in case transaction fl (\<lambda>_. r) s of
                       (Inl e, s') \<Rightarrow> (Inl e, w2, s')
                     | (Inr claimed, s') \<Rightarrow> (Inr (Some claimed), w2, s'))))"

definition start_task :: "task \<times> binding \<Rightarrow> worker \<Rightarrow> worker" where
  "start_task tb w =
     (let name = qb_name (hb_backend (snd tb));
          n = (case map_of (w_claims_by_backend w) name of None \<Rightarrow> 0 | Some k \<Rightarrow> k)
      in w\<lparr>w_claims_by_backend := AList.update name (n + 1) (w_claims_by_backend w),
           w_active := AList.update (tk_job_id (fst tb)) tb (w_active w)\<rparr>)"

text \<open>What the coroutine does with the outcome. A fence raised in the meantime leaves the leases to expire.\<close>

definition claim_return :: "(task \<times> binding) list option res \<Rightarrow> worker \<Rightarrow> nat res \<times> worker" where
  "claim_return r w =
     (case r of
        Inl e \<Rightarrow>
          if db_error e
          then (let n = w_claim_failures w + 1
                in (Inr 0, w\<lparr>w_claim_failures := n,
                    w_claim_backoff := min (wc_poll_seconds (w_config w) * 2 ^ n) MAX_CLAIM_BACKOFF_SECONDS\<rparr>))
          else (Inl e, w)
      | Inr None \<Rightarrow> (Inr 0, w)
      | Inr (Some claimed) \<Rightarrow>
          (let w1 = w\<lparr>w_claim_failures := 0, w_claim_backoff := 0\<rparr>
           in if w_fenced w1 then (Inr 0, w1\<lparr>w_lost_leases := w_lost_leases w1 + length claimed\<rparr>)
              else (Inr (length claimed), fold start_task claimed w1)))"

definition claim_limit :: "worker \<Rightarrow> int" where
  "claim_limit w =
     (if \<not> claiming w then 0
      else max 0 (min (effective_concurrency w - int (length (w_active w))) (wc_claim_batch (w_config w))))"

text \<open>The pause after a pass that claimed nothing.\<close>

definition claim_pause :: "worker \<Rightarrow> rat" where
  "claim_pause w = (if claiming w then max (wc_poll_seconds (w_config w)) (w_claim_backoff w) else wc_poll_seconds (w_config w))"

section \<open>Reporting a result\<close>

text \<open>The instant of an aware datetime; a naive one does not get past \<open>TaskResult\<close>.\<close>

definition instant :: "datetime \<Rightarrow> ts" where
  "instant d = (case d of Naive x \<Rightarrow> x | Aware x off \<Rightarrow> x - off)"

definition clamp_until :: "worker_config \<Rightarrow> ts \<Rightarrow> ts \<Rightarrow> ts" where
  "clamp_until c v now =
     (if v < now then now
      else let ceiling = now + timedelta_seconds (wc_max_defer_seconds c)
           in if ceiling < v then ceiling else v)"

definition retry_not_before :: "worker_config \<Rightarrow> rat \<Rightarrow> task \<Rightarrow> binding \<Rightarrow> 'o task_result \<Rightarrow> ts \<Rightarrow> ts option" where
  "retry_not_before c r t b result now =
     (let schedule = hd_retry_schedule (hb_handler b)
      in if schedule = None \<and> tr_not_before result = None then None
         else let delay = (case schedule of Some sch \<Rightarrow> schedule_delay sch (tk_attempt t) r
                           | None \<Rightarrow> delay_for default_backoff (tk_attempt t) r);
                  lower = (case tr_not_before result of Some d \<Rightarrow> clamp_until c (instant d) now | None \<Rightarrow> now)
              in Some (max (now + delay) lower))"

definition defer_until :: "worker_config \<Rightarrow> 'o task_result \<Rightarrow> ts \<Rightarrow> ts res" where
  "defer_until c result now =
     (case tr_not_before result of None \<Rightarrow> Inl ValueError | Some d \<Rightarrow> Inr (clamp_until c (instant d) now))"

definition error_code_or_unknown :: "'o task_result \<Rightarrow> string" where
  "error_code_or_unknown result =
     (case tr_error_code result of None \<Rightarrow> ''unknown'' | Some c \<Rightarrow> if c = [] then ''unknown'' else c)"

text \<open>An output the queue cannot take turns the result into a quarantine.\<close>

definition checked_result :: "queue_backend \<Rightarrow> ustr \<Rightarrow> task_output task_result \<Rightarrow> task_output task_result res" where
  "checked_result B message result =
     (if tr_disposition result = Complete
      then (case qb_check_output B (tr_output result) of
              Inr _ \<Rightarrow> Inr result
            | Inl e \<Rightarrow> if e = InvalidHandlerOutputError then permanent ''invalid_handler_output'' (Some message) else Inl e)
      else Inr result)"

definition report_body ::
  "call_env \<Rightarrow> task \<Rightarrow> binding \<Rightarrow> task_output task_result \<Rightarrow> ts \<Rightarrow> worker \<Rightarrow> db \<Rightarrow> (unit \<times> db) res" where
  "report_body e t b result now w s =
     (let B = hb_backend b
      in case tr_disposition result of
           Complete \<Rightarrow> no_ret (qb_complete B e t (owner w) (tr_output result) now) s
         | RetryLater \<Rightarrow> no_ret (\<lambda>x. drop_ret (qb_retry B e (tk_job_id t) (owner w) (error_code_or_unknown result) (tr_error_message result)
                             (retry_not_before (w_config w) (ce_random e) t b result now) now x)) s
         | Defer \<Rightarrow> bind_res (defer_until (w_config w) result now) (\<lambda>till.
                      no_ret (qb_defer B e (tk_job_id t) (owner w) till now) s)
         | QuarantineNow \<Rightarrow> no_ret (qb_quarantine B e (tk_job_id t) (owner w) (error_code_or_unknown result) (tr_error_message result) now) s)"

definition report ::
  "fault \<Rightarrow> call_env \<Rightarrow> task \<Rightarrow> binding \<Rightarrow> task_output task_result \<Rightarrow> ustr \<Rightarrow> ts \<Rightarrow> worker \<Rightarrow> db \<Rightarrow> unit res \<times> worker \<times> db" where
  "report fl e t b result message now w s =
     (case checked_result (hb_backend b) message result of
        Inl x \<Rightarrow> (Inl x, w, s)
      | Inr res \<Rightarrow>
          (let w1 = w\<lparr>w_reports := w_reports w + 1\<rparr>
           in case transaction fl (report_body e t b res now w) s of
                (Inr _, s') \<Rightarrow> (Inr (), w1, s')
              | (Inl x, s') \<Rightarrow>
                  if x = LeaseNotOwnedError then (Inr (), w1\<lparr>w_lost_leases := w_lost_leases w + 1\<rparr>, s')
                  else (Inr (), w1\<lparr>w_report_failures := w_report_failures w + 1\<rparr>, s')))"

text \<open>How a call of \<open>handle\<close> ends, unless it is cancelled; \<open>message\<close> is the redacted text of an exception.\<close>

datatype handled = Returned "task_output task_result" | Raised handler_exception

definition execute ::
  "fault \<Rightarrow> call_env \<Rightarrow> task \<Rightarrow> binding \<Rightarrow> handled \<Rightarrow> ustr \<Rightarrow> ts \<Rightarrow> worker \<Rightarrow> db \<Rightarrow> unit res \<times> worker \<times> db" where
  "execute fl e t b h message now w s =
     (case (case h of Returned r \<Rightarrow> Inr r | Raised x \<Rightarrow> result_for_exception x message) of
        Inl x \<Rightarrow> (Inl x, w\<lparr>w_active := AList.delete (tk_job_id t) (w_active w)\<rparr>, s)
      | Inr result \<Rightarrow>
          (case report fl e t b result message now w s of
             (r, w1, s') \<Rightarrow> (r, w1\<lparr>w_active := AList.delete (tk_job_id t) (w_active w1)\<rparr>, s')))"

section \<open>Heartbeat\<close>

text \<open>The transaction of a tick, over the tasks that were active when it began.\<close>

fun beat_tasks :: "call_env \<Rightarrow> string \<Rightarrow> int \<Rightarrow> ts \<Rightarrow> (uuid \<times> queue_backend) list \<Rightarrow> uuid list \<Rightarrow> db \<Rightarrow> (uuid list \<times> db) res" where
  "beat_tasks e own lease now [] lost s = Inr (lost, s)"
| "beat_tasks e own lease now ((i, B) # active) lost s =
     (case qb_heartbeat B e i own lease now s of
        Inr s' \<Rightarrow> beat_tasks e own lease now active lost s'
      | Inl x \<Rightarrow> if x = LeaseNotOwnedError then beat_tasks e own lease now active (lost @ [i]) s else Inl x)"

definition active_backends :: "worker \<Rightarrow> (uuid \<times> queue_backend) list" where
  "active_backends w = map (\<lambda>(i, t, b). (i, hb_backend b)) (w_active w)"

record tick_outcome =
  tk_snapshot :: pool_snapshot
  tk_drain_requested :: bool
  tk_lost :: "uuid list"

definition beat_body :: "call_env \<Rightarrow> ts \<Rightarrow> worker \<Rightarrow> db \<Rightarrow> (tick_outcome \<times> db) res" where
  "beat_body e now w s =
     (let active = active_backends w;
          snap = (case get_pool (wc_role (w_config w)) s of Some p \<Rightarrow> snapshot_of p | None \<Rightarrow> w_pool w)
      in bind_res (heartbeat_instance (w_instance_id w) (Some (min (sn_desired_concurrency snap) (max_slots (w_config w))))
                     (int (length active)) (int (length active)) (Some (sn_revision snap)) now (utc now) s) (\<lambda>(x, s1).
         bind_res (beat_tasks e (owner w) (wc_lease_seconds (w_config w)) now active [] s1) (\<lambda>(lost, s2).
           Inr (\<lparr>tk_snapshot = snap, tk_drain_requested = (wi_drain_requested_at x \<noteq> None), tk_lost = lost\<rparr>, s2))))"

text \<open>
  What the tick does with the outcome, at the instant \<open>mt\<close> of the confirmation: \<open>st\<close> is the
  transaction and the clock of a late \<open>starting \<rightarrow> ready\<close>.
\<close>

definition beat_return :: "tick_outcome res \<Rightarrow> rat \<Rightarrow> fault \<times> ts \<Rightarrow> worker \<Rightarrow> db \<Rightarrow> unit res \<times> worker \<times> db" where
  "beat_return r mt st w s =
     (case r of
        Inl e \<Rightarrow>
          if e = InvalidTransitionError then (Inr (), request_stop w, s)
          else if db_error e then (Inr (), fence_if_lease_unconfirmed mt w, s)
          else (Inl e, w, s)
      | Inr o' \<Rightarrow>
          (let w1 = unfence (w\<lparr>w_heartbeats := w_heartbeats w + 1, w_last_heartbeat_ok := mt\<rparr>);
               (r2, w2, s2) = (if w_status w1 = ''starting'' \<and> \<not> w_stop w1 then set_status (fst st) ''ready'' (snd st) w1 s
                               else (Inr True, w1, s))
           in case r2 of
                Inl e \<Rightarrow> (Inl e, w2, s2)
              | Inr _ \<Rightarrow> (Inr (), fold abandon (tk_lost o') (apply_drain_barrier (tk_drain_requested o') (apply_pool (tk_snapshot o') w2)), s2)))"

section \<open>Drain\<close>

fun release_leases :: "(uuid \<Rightarrow> fault \<times> call_env) \<Rightarrow> ts \<Rightarrow> (uuid \<times> task \<times> binding) list \<Rightarrow> worker \<Rightarrow> db \<Rightarrow> unit res \<times> worker \<times> db" where
  "release_leases env now [] w s = (Inr (), w, s)"
| "release_leases env now ((i, t, b) # entries) w s =
     (case transaction (fst (env i)) (no_ret (qb_release (hb_backend b) (snd (env i)) i (owner w) now)) s of
        (r, s') \<Rightarrow>
          if (case r of Inr _ \<Rightarrow> True | Inl e \<Rightarrow> db_error e)
          then release_leases env now entries (w\<lparr>w_active := AList.delete i (w_active w)\<rparr>) s'
          else (case r of Inl e \<Rightarrow> (Inl e, w, s') | Inr _ \<Rightarrow> (Inr (), w, s')))"

text \<open>
  The end of \<open>_drain\<close>, once the grace period is over: the tasks still pending are cancelled (a
  cancelled task stays in \<open>w_active\<close>), their leases returned and the instance stopped.
\<close>

definition drain_end :: "bool \<Rightarrow> (uuid \<Rightarrow> fault \<times> call_env) \<Rightarrow> fault \<Rightarrow> ts \<Rightarrow> worker \<Rightarrow> db \<Rightarrow> unit res \<times> worker \<times> db" where
  "drain_end pending env fl now w s =
     (case (if pending then release_leases env now (w_active w) w s else (Inr (), w, s)) of
        (Inl e, w1, s1) \<Rightarrow> (Inl e, w1, s1)
      | (Inr _, w1, s1) \<Rightarrow>
          (case set_status fl ''stopped'' now (w1\<lparr>w_cancelled := []\<rparr>) s1 of
             (Inl e, w2, s2) \<Rightarrow> (Inl e, w2, s2)
           | (Inr _, w2, s2) \<Rightarrow> (Inr (), w2, s2)))"

section \<open>Transactions and reports\<close>

lemma transaction_cases:
  assumes "transaction fl body s = (r, s')"
  obtains "s' = s" "\<exists>e. r = Inl e" | x where "body s = Inr (x, s')" "r = Inr x \<or> (\<exists>e. r = Inl e)"
  using assms by (auto simp: transaction_def split: fault.splits sum.splits)

lemma transaction_Inr: "transaction fl body s = (Inr x, s') \<Longrightarrow> body s = Inr (x, s')"
  by (auto simp: transaction_def split: fault.splits sum.splits)

lemma transaction_NoFault [simp]:
  "transaction NoFault body s = (case body s of Inl e \<Rightarrow> (Inl e, s) | Inr (x, s') \<Rightarrow> (Inr x, s'))"
  by (simp add: transaction_def split: sum.splits)

lemma no_ret_eq_Inr [simp]: "no_ret f s = Inr (x, s') \<longleftrightarrow> f s = Inr s'"
  by (cases "f s") (auto simp: no_ret_def)

lemma checked_result_total:
  assumes "\<And>out x. qb_check_output B out = Inl x \<Longrightarrow> x = InvalidHandlerOutputError"
  shows "\<exists>res. checked_result B message result = Inr res"
proof (cases "qb_check_output B (tr_output result)")
  case (Inl x)
  then show ?thesis using assms
    by (auto simp: checked_result_def permanent_def make_task_result_def task_result_post_init_def ERROR_CODE_MAX_LENGTH_def)
qed (simp add: checked_result_def)

context lease_backend
begin

text \<open>A report that commits ends the lease of the worker, and touches no other row.\<close>

lemma report_body_law:
  assumes inv: "inv s" and b: "hb_backend b = B" and r: "report_body e t b res now w s = Inr (x, s')"
  shows "inv s' \<and> lease s (tk_job_id t) = Held (owner w) \<and> lease s' (tk_job_id t) \<in> {Free, Done}
     \<and> (\<forall>j. j \<noteq> tk_job_id t \<longrightarrow> lease s' j = lease s j \<and> expiry s' j = expiry s j)"
proof (cases "tr_disposition res")
  case Complete
  then have "qb_complete B e t (owner w) (tr_output res) now s = Inr s'" using r b by (simp add: report_body_def)
  then show ?thesis using complete_law [OF inv] by blast
next
  case RetryLater
  then show ?thesis using r b retry_law [OF inv] by (simp add: report_body_def) blast
next
  case QuarantineNow
  then show ?thesis using r b quarantine_law [OF inv] by (simp add: report_body_def)
next
  case Defer
  then show ?thesis using r b defer_law [OF inv] by (simp add: report_body_def) blast
qed

text \<open>Whatever the handler returned and whatever the connection does, a report ends and is counted.\<close>

lemma report_law:
  assumes inv: "inv s" and b: "hb_backend b = B" and rep: "report fl e t b result message now w s = (r, w', s')"
  shows "r = Inr () \<and> inv s'
     \<and> (s' = s \<or> lease s (tk_job_id t) = Held (owner w) \<and> lease s' (tk_job_id t) \<in> {Free, Done})
     \<and> (\<forall>j. j \<noteq> tk_job_id t \<longrightarrow> lease s' j = lease s j \<and> expiry s' j = expiry s j)
     \<and> w' = w\<lparr>w_reports := w_reports w + 1, w_lost_leases := w_lost_leases w', w_report_failures := w_report_failures w'\<rparr>
     \<and> w_lost_leases w' + w_report_failures w' \<le> w_lost_leases w + w_report_failures w + 1
     \<and> (lease s (tk_job_id t) \<noteq> Held (owner w) \<longrightarrow> s' = s
        \<and> w_lost_leases w' + w_report_failures w' = w_lost_leases w + w_report_failures w + 1)"
proof -
  obtain res where res: "checked_result B message result = Inr res"
    using checked_result_total output_law by blast
  obtain r' s1 where tx1: "transaction fl (report_body e t b res now w) s = (r', s1)" by fastforce
  then have tx: "transaction fl (report_body e t b res now w) s = (r', s')"
    using rep res b by (auto simp: report_def Let_def split: sum.splits if_splits)
  have w': "r = Inr ()" "w' = w\<lparr>w_reports := w_reports w + 1, w_lost_leases := w_lost_leases w', w_report_failures := w_report_failures w'\<rparr>"
    "w_lost_leases w' + w_report_failures w' = w_lost_leases w + w_report_failures w + (case r' of Inl _ \<Rightarrow> 1 | Inr _ \<Rightarrow> 0)"
    using rep res b tx by (auto simp: report_def Let_def split: sum.splits if_splits)
  from tx show ?thesis
  proof (cases rule: transaction_cases)
    case 1
    then show ?thesis using w' inv by (auto split: sum.splits)
  next
    case (2 x)
    then show ?thesis using w' report_body_law [OF inv b 2(1)] by (auto split: sum.splits)
  qed
qed

end

section \<open>The tasks a worker runs\<close>

definition active_ids :: "worker \<Rightarrow> uuid set" where
  "active_ids w = fst ` set (w_active w)"

text \<open>
  A worker is well formed: one entry per job, under the id of its task and with a binding of the
  role; a cursor inside the bindings; and nothing runs behind the fence.
\<close>

definition worker_ok :: "worker \<Rightarrow> bool" where
  "worker_ok w \<longleftrightarrow> distinct (map fst (w_active w))
     \<and> (\<forall>(i, t, b)\<in>set (w_active w). tk_job_id t = i \<and> b \<in> set (w_bindings w))
     \<and> (w_bindings w \<noteq> [] \<longrightarrow> w_next_binding w < length (w_bindings w))
     \<and> (w_fenced w \<longrightarrow> w_active w = [])"

text \<open>What no step of the runtime changes: configuration, instance and bindings.\<close>

definition same_worker :: "worker \<Rightarrow> worker \<Rightarrow> bool" where
  "same_worker w w' \<longleftrightarrow> w_config w' = w_config w \<and> w_instance_id w' = w_instance_id w \<and> w_bindings w' = w_bindings w"

lemma same_worker_refl [simp]: "same_worker w w"
  by (simp add: same_worker_def)

lemma same_worker_trans: "same_worker w w' \<Longrightarrow> same_worker w' w'' \<Longrightarrow> same_worker w w''"
  by (simp add: same_worker_def)

lemma same_owner: "same_worker w w' \<Longrightarrow> owner w' = owner w"
  by (simp add: same_worker_def owner_def)

lemma set_delete_subset: "set (AList.delete i xs) \<subseteq> set xs"
  by (auto simp: AList.delete_eq)

lemma fst_delete [simp]: "fst ` set (AList.delete i xs) = fst ` set xs - {i}"
  by (force simp: AList.delete_eq)

lemma worker_ok_delete:
  assumes "worker_ok w"
  shows "worker_ok (w\<lparr>w_active := AList.delete i (w_active w)\<rparr>)"
  using assms set_delete_subset [of i "w_active w"] by (auto simp: worker_ok_def distinct_delete)

definition lighter :: "worker \<Rightarrow> worker \<Rightarrow> bool" where
  "lighter w w' \<longleftrightarrow> same_worker w w' \<and> w_fenced w' = w_fenced w \<and> w_last_heartbeat_ok w' = w_last_heartbeat_ok w
     \<and> w_next_binding w' = w_next_binding w \<and> length (w_active w') \<le> length (w_active w) \<and> (worker_ok w \<longrightarrow> worker_ok w')"

lemma lighter_refl [simp]: "lighter w w"
  by (simp add: lighter_def)

lemma lighter_trans: "lighter w w' \<Longrightarrow> lighter w' w'' \<Longrightarrow> lighter w w''"
  by (auto simp: lighter_def intro: same_worker_trans)

lemma abandon_facts: "lighter w (abandon i w) \<and> active_ids (abandon i w) = active_ids w - {i}"
proof (cases "map_of (w_active w) i")
  case None
  then have "i \<notin> active_ids w" by (simp add: active_ids_def map_of_eq_None_iff)
  then show ?thesis using None by (simp add: abandon_def)
next
  case (Some y)
  have "worker_ok w \<longrightarrow> worker_ok (w\<lparr>w_active := AList.delete i (w_active w)\<rparr>)" by (blast intro: worker_ok_delete)
  with Some show ?thesis
    by (simp add: abandon_def active_ids_def same_worker_def worker_ok_def length_delete_le lighter_def)
qed

lemma fold_abandon_facts: "lighter w (fold abandon js w) \<and> active_ids (fold abandon js w) = active_ids w - set js"
proof (induction js arbitrary: w)
  case (Cons i js)
  show ?case using Cons.IH [of "abandon i w"] abandon_facts [of w i] lighter_trans by fastforce
qed simp

lemma active_ids_empty: "active_ids w = {} \<longleftrightarrow> w_active w = []"
  by (simp add: active_ids_def)

lemma fence_facts:
  assumes "worker_ok w"
  shows "same_worker w (fence_if_lease_unconfirmed mt w) \<and> worker_ok (fence_if_lease_unconfirmed mt w)
     \<and> w_last_heartbeat_ok (fence_if_lease_unconfirmed mt w) = w_last_heartbeat_ok w
     \<and> length (w_active (fence_if_lease_unconfirmed mt w)) \<le> length (w_active w)
     \<and> (fence_if_lease_unconfirmed mt w = w \<or> w_fenced (fence_if_lease_unconfirmed mt w) \<and> w_active (fence_if_lease_unconfirmed mt w) = [])
     \<and> (w_fenced (fence_if_lease_unconfirmed mt w) \<or> mt - w_last_heartbeat_ok w < fence_after (w_config w))"
proof (cases "w_fenced w \<or> mt - w_last_heartbeat_ok w < fence_after (w_config w)")
  case True
  then show ?thesis using assms by (auto simp: fence_if_lease_unconfirmed_def)
next
  case False
  let ?w = "w\<lparr>w_fenced := True, w_fences := w_fences w + 1\<rparr>" and ?js = "map fst (w_active w)"
  have eq: "fence_if_lease_unconfirmed mt w = fold abandon ?js ?w" using False by (simp add: fence_if_lease_unconfirmed_def)
  have "active_ids (fold abandon ?js ?w) = {}" using fold_abandon_facts [of ?w ?js] by (simp add: active_ids_def)
  then have none: "w_active (fold abandon ?js ?w) = []" by (simp add: active_ids_empty)
  moreover have "lighter ?w (fold abandon ?js ?w)" using fold_abandon_facts by blast
  ultimately show ?thesis unfolding eq using assms by (simp add: worker_ok_def same_worker_def lighter_def)
qed

section \<open>Claims\<close>

definition claimed_ids :: "(task \<times> binding) list \<Rightarrow> uuid set" where
  "claimed_ids cl = (\<lambda>tb. tk_job_id (fst tb)) ` set cl"

lemma claimed_ids_simps [simp]:
  "claimed_ids [] = {}" "claimed_ids (xs @ ys) = claimed_ids xs \<union> claimed_ids ys"
  "claimed_ids (map (\<lambda>t. (t, b)) ts) = tk_job_id ` set ts"
  by (auto simp: claimed_ids_def image_image)

lemma claim_pass_step:
  assumes "claim_pass w limit now envs start (k # ks) next claimed s = (next', Inr (claimed', s'))" and "int (length claimed) < limit"
  defines "b \<equiv> w_bindings w ! ((start + k) mod length (w_bindings w))"
  shows "\<exists>e ts s1 nx. envs k = Inr e
     \<and> qb_claim (hb_backend b) e (hd_job_types (hb_handler b)) (owner w) (wc_lease_seconds (w_config w)) (limit - int (length claimed)) now s = Inr (ts, s1)
     \<and> claim_pass w limit now envs start ks nx (claimed @ map (\<lambda>t. (t, b)) ts) s1 = (next', Inr (claimed', s'))"
proof (cases "envs k")
  case (Inl x)
  then show ?thesis using assms(1,2) by (simp add: Let_def)
next
  case (Inr e)
  show ?thesis
  proof (cases "qb_claim (hb_backend b) e (hd_job_types (hb_handler b)) (owner w) (wc_lease_seconds (w_config w)) (limit - int (length claimed)) now s")
    case (Inl x)
    then show ?thesis using assms Inr by (simp add: Let_def)
  next
    case res: (Inr p)
    obtain ts s1 where p: "p = (ts, s1)" by fastforce
    have "\<exists>nx. claim_pass w limit now envs start ks nx (claimed @ map (\<lambda>t. (t, b)) ts) s1 = (next', Inr (claimed', s'))"
      using assms(1,2) Inr res p unfolding b_def by (cases "ts = []") (simp_all add: Let_def, blast+)
    then show ?thesis using Inr res p by blast
  qed
qed

context lease_backend
begin

text \<open>From \<open>s\<close> to \<open>s'\<close> the worker took exactly the rows \<open>ids\<close>, which were free.\<close>

definition took :: "string \<Rightarrow> ts \<Rightarrow> uuid set \<Rightarrow> db \<Rightarrow> db \<Rightarrow> bool" where
  "took own till ids s s' \<longleftrightarrow> inv s'
     \<and> (\<forall>i. if i \<in> ids then lease s i = Free \<and> lease s' i = Held own \<and> expiry s' i = till
            else lease s' i = lease s i \<and> expiry s' i = expiry s i)"

lemma took_none: "inv s \<Longrightarrow> took own till {} s s"
  by (simp add: took_def)

lemma took_trans: "took own till A s s' \<Longrightarrow> took own till A' s' s'' \<Longrightarrow> took own till (A \<union> A') s s''"
  unfolding took_def by (smt (verit) UnE UnI1 UnI2 lease_state.distinct(7))

lemma claim_pass_law:
  assumes "inv s" and "\<forall>b\<in>set (w_bindings w). hb_backend b = B" and "w_bindings w \<noteq> []"
    and "claim_pass w limit now envs start ks next claimed s = (next', Inr (claimed', s'))"
  shows "\<exists>new. claimed' = claimed @ new \<and> (\<forall>tb\<in>set new. snd tb \<in> set (w_bindings w))
     \<and> int (length claimed') \<le> max limit (int (length claimed))
     \<and> took (owner w) (now + wc_lease_seconds (w_config w) * second) (claimed_ids new) s s'"
  using assms(1,4)
proof (induction ks arbitrary: "next" claimed s)
  case Nil
  then show ?case by (simp add: took_none)
next
  case (Cons k ks)
  let ?b = "w_bindings w ! ((start + k) mod length (w_bindings w))" and ?rem = "limit - int (length claimed)"
  have b: "?b \<in> set (w_bindings w)" "hb_backend ?b = B" using assms(2,3) by simp_all
  show ?case
  proof (cases "?rem \<le> 0")
    case True
    then show ?thesis using Cons.prems by (simp add: took_none)
  next
    case False
    then obtain e ts s1 where c: "qb_claim B e (hd_job_types (hb_handler ?b)) (owner w) (wc_lease_seconds (w_config w)) ?rem now s = Inr (ts, s1)"
      and rest: "\<exists>nx. claim_pass w limit now envs start ks nx (claimed @ map (\<lambda>t. (t, ?b)) ts) s1 = (next', Inr (claimed', s'))"
      using claim_pass_step [OF Cons.prems(2)] b(2) by auto
    note cl = claim_law [OF Cons.prems(1) c]
    have took1: "took (owner w) (now + wc_lease_seconds (w_config w) * second) (tk_job_id ` set ts) s s1"
      using cl by (simp add: took_def)
    obtain new where new: "claimed' = claimed @ map (\<lambda>t. (t, ?b)) ts @ new" "\<forall>tb\<in>set new. snd tb \<in> set (w_bindings w)"
      "int (length claimed') \<le> max limit (int (length claimed) + int (length ts))"
      "took (owner w) (now + wc_lease_seconds (w_config w) * second) (claimed_ids new) s1 s'"
      using Cons.IH [of s1] rest cl by fastforce
    have "int (length claimed') \<le> max limit (int (length claimed))" using new(3) cl False by linarith
    then show ?thesis using new took_trans [OF took1 new(4)] b(1)
      by (intro exI [of _ "map (\<lambda>t. (t, ?b)) ts @ new"]) auto
  qed
qed

end

lemma claim_pass_cursor:
  assumes "w_bindings w \<noteq> []" and "next < length (w_bindings w)"
  shows "fst (claim_pass w limit now envs start ks next claimed s) < length (w_bindings w)"
  using assms(2)
proof (induction ks arbitrary: "next" claimed s)
  case (Cons k ks)
  then show ?case using assms(1) by (auto simp: Let_def split: sum.splits)
qed simp

lemma claim_tx_worker:
  assumes "claim_tx fl envs limit now w s = (r, w', s')"
  shows "same_worker w w' \<and> w_active w' = w_active w \<and> w_fenced w' = w_fenced w \<and> w_last_heartbeat_ok w' = w_last_heartbeat_ok w
     \<and> (worker_ok w \<longrightarrow> worker_ok w')"
proof -
  obtain ok w1 where a: "claim_allowed w s = (ok, w1)" by fastforce
  then have w1: "w1 = w \<or> w1 = apply_drain_barrier True w"
    by (auto simp: claim_allowed_def split: option.splits if_splits)
  obtain nx q where p: "claim_pass w1 limit now envs (w_next_binding w1) [0..<length (w_bindings w1)] (w_next_binding w1) [] s = (nx, q)"
    by fastforce
  have "w_bindings w1 \<noteq> [] \<Longrightarrow> w_next_binding w1 < length (w_bindings w1) \<Longrightarrow> nx < length (w_bindings w1)"
    using claim_pass_cursor [of w1] p by (metis fst_conv)
  moreover have "w' = w \<or> w' = w1 \<or> w' = w1\<lparr>w_next_binding := nx\<rparr>"
    using assms a p by (auto simp: claim_tx_def Let_def split: fault.splits if_splits prod.splits sum.splits)
  ultimately show ?thesis using w1
    by (auto simp: same_worker_def worker_ok_def apply_drain_barrier_def)
qed

context lease_backend
begin

lemma claim_tx_law:
  assumes inv: "inv s" and B: "\<forall>b\<in>set (w_bindings w). hb_backend b = B" and tx: "claim_tx fl envs limit now w s = (r, w', s')"
  shows "\<exists>ids. took (owner w) (now + wc_lease_seconds (w_config w) * second) ids s s'
     \<and> (\<forall>cl. r = Inr (Some cl) \<longrightarrow> ids = claimed_ids cl \<and> (\<forall>tb\<in>set cl. snd tb \<in> set (w_bindings w)) \<and> int (length cl) \<le> max limit 0)"
proof -
  obtain ok w1 where a: "claim_allowed w s = (ok, w1)" by fastforce
  have w1: "w_bindings w1 = w_bindings w" "owner w1 = owner w" "w_config w1 = w_config w"
    using a by (auto simp: claim_allowed_def apply_drain_barrier_def owner_def split: option.splits if_splits)
  obtain nx q where p: "claim_pass w1 limit now envs (w_next_binding w1) [0..<length (w_bindings w1)] (w_next_binding w1) [] s = (nx, q)"
    by fastforce
  have none: ?thesis if "s' = s" "\<nexists>cl. r = Inr (Some cl)" using that inv took_none [of s] by blast
  show ?thesis
  proof (cases "ok \<and> (\<nexists>x. fl = ConnectFails x)")
    case False
    then show ?thesis using tx a by (intro none) (auto simp: claim_tx_def transaction_def split: fault.splits)
  next
    case True
    then obtain r1 where t: "transaction fl (\<lambda>_. q) s = (r1, s')" "r = map_sum id Some r1"
      using tx a p by (auto simp: claim_tx_def Let_def split: fault.splits sum.splits prod.splits)
    show ?thesis
      using t(1)
    proof (cases rule: transaction_cases)
      case 1
      then show ?thesis using t(2) by (intro none) auto
    next
      case (2 cl)
      have "\<exists>new. cl = [] @ new \<and> (\<forall>tb\<in>set new. snd tb \<in> set (w_bindings w1)) \<and> int (length cl) \<le> max limit (int (length []))
          \<and> took (owner w1) (now + wc_lease_seconds (w_config w1) * second) (claimed_ids new) s s'"
      proof (cases "w_bindings w1 = []")
        case True
        then show ?thesis using p 2 inv by (auto simp: took_none)
      next
        case False
        have "claim_pass w1 limit now envs (w_next_binding w1) [0..<length (w_bindings w1)] (w_next_binding w1) [] s = (nx, Inr (cl, s'))"
          using p 2 by simp
        then show ?thesis using claim_pass_law [OF inv _ False] B w1 by fastforce
      qed
      then show ?thesis using 2(2) t(2) w1 by auto
    qed
  qed
qed

lemma beat_tasks_law:
  assumes "inv s" and "\<forall>(i, C)\<in>set act. C = B" and "beat_tasks e own ls now act lost s = Inr (lost', s')"
  shows "inv s' \<and> (\<forall>i. lease s' i = lease s i
     \<and> expiry s' i = (if i \<in> fst ` set act \<and> lease s i = Held own then now + ls * second else expiry s i))"
  using assms
proof (induction act arbitrary: lost s)
  case (Cons p act)
  obtain i where p: "p = (i, B)" using Cons.prems(2) by (cases p) auto
  show ?case
  proof (cases "qb_heartbeat B e i own ls now s")
    case (Inr s1)
    note bl = beat_law [OF Cons.prems(1) Inr]
    have "beat_tasks e own ls now act lost s1 = Inr (lost', s')" using Cons.prems(3) p Inr by simp
    then have "inv s' \<and> (\<forall>k. lease s' k = lease s1 k
        \<and> expiry s' k = (if k \<in> fst ` set act \<and> lease s1 k = Held own then now + ls * second else expiry s1 k))"
      by (intro Cons.IH) (use Cons.prems(2) bl in auto)
    then show ?thesis using bl p by auto
  next
    case (Inl x)
    then have x: "x = LeaseNotOwnedError" "lease s i \<noteq> Held own" using beat_lost [OF Cons.prems(1)] by blast+
    then have "beat_tasks e own ls now act (lost @ [i]) s = Inr (lost', s')" using Cons.prems(3) p Inl by simp
    then have "inv s' \<and> (\<forall>k. lease s' k = lease s k
        \<and> expiry s' k = (if k \<in> fst ` set act \<and> lease s k = Held own then now + ls * second else expiry s k))"
      by (intro Cons.IH) (use Cons.prems(1,2) in auto)
    then show ?thesis using x p by auto
  qed
qed simp

end

section \<open>A queue beside the registry of instances\<close>

text \<open>A write to \<open>worker_instances\<close> does not concern the queue.\<close>

locale worker_queue = lease_backend +
  assumes inv_instances: "inv (s\<lparr>worker_instances := x\<rparr>) = inv s"
    and lease_instances: "lease (s\<lparr>worker_instances := x\<rparr>) = lease s"
    and expiry_instances: "expiry (s\<lparr>worker_instances := x\<rparr>) = expiry s"
begin

lemma beat_body_law:
  assumes inv: "inv s" and B: "\<forall>(i, t, b)\<in>set (w_active w). hb_backend b = B" and bb: "beat_body e now w s = Inr (res, s')"
  shows "inv s' \<and> (\<forall>i. lease s' i = lease s i
     \<and> expiry s' i = (if i \<in> active_ids w \<and> lease s i = Held (owner w) then now + wc_lease_seconds (w_config w) * second else expiry s i))"
proof -
  obtain x y s1 lost where h: "s1 = s\<lparr>worker_instances := y\<rparr>"
    and bt: "beat_tasks e (owner w) (wc_lease_seconds (w_config w)) now (active_backends w) [] s1 = Inr (lost, s')"
    using bb by (auto simp: beat_body_def Let_def heartbeat_instance_def put_instance_def split: if_splits)
  have "fst ` set (active_backends w) = active_ids w" by (force simp: active_backends_def active_ids_def)
  moreover have "\<forall>(i, C)\<in>set (active_backends w). C = B" using B by (auto simp: active_backends_def)
  ultimately show ?thesis
    using beat_tasks_law [OF _ _ bt] inv by (simp add: h inv_instances lease_instances expiry_instances)
qed

end

interpretation crawl_queue: worker_queue CRAWL_JOBS queue_inv job_lease job_expiry
  by unfold_locales (simp_all add: queue_inv_def list_all_iff letters_match_def letters_of_def job_lease_def job_expiry_def get_job_def fun_eq_iff)

interpretation projection_queue: worker_queue PROJECTION_TASKS proj_inv task_lease task_expiry
  by unfold_locales (simp_all add: proj_inv_def entities_inv_def tasks_inv_def acks_inv_def entity_tasks_def entity_acks_def
      task_lease_def task_expiry_def get_projection_task_def fun_eq_iff)

section \<open>What the coroutines do to the worker\<close>

lemma start_task_facts:
  "same_worker w (start_task tb w) \<and> active_ids (start_task tb w) = insert (tk_job_id (fst tb)) (active_ids w)
   \<and> w_fenced (start_task tb w) = w_fenced w \<and> w_last_heartbeat_ok (start_task tb w) = w_last_heartbeat_ok w
   \<and> length (w_active (start_task tb w)) \<le> length (w_active w) + 1
   \<and> (worker_ok w \<longrightarrow> snd tb \<in> set (w_bindings w) \<longrightarrow> \<not> w_fenced w \<longrightarrow> worker_ok (start_task tb w))"
proof -
  let ?i = "tk_job_id (fst tb)"
  have len: "length (AList.update k v xs) \<le> length xs + 1" for k v and xs :: "(uuid \<times> task \<times> binding) list"
    by (induction xs) auto
  have "set (AList.update ?i tb xs) \<subseteq> insert (?i, tb) (set xs)" for xs :: "(uuid \<times> task \<times> binding) list"
    by (induction xs) auto
  then have "\<forall>(i, t, b)\<in>set (AList.update ?i tb (w_active w)). tk_job_id t = i \<and> b \<in> set (w_bindings w)"
    if "worker_ok w" "snd tb \<in> set (w_bindings w)"
    using that by (fastforce simp: worker_ok_def)
  then show ?thesis
    using len by (auto simp: start_task_def Let_def same_worker_def active_ids_def dom_update worker_ok_def distinct_update)
qed

lemma start_tasks_facts:
  assumes "\<forall>tb\<in>set cl. snd tb \<in> set (w_bindings w)" and "\<not> w_fenced w" and "worker_ok w"
  shows "same_worker w (fold start_task cl w) \<and> active_ids (fold start_task cl w) = active_ids w \<union> claimed_ids cl
   \<and> w_fenced (fold start_task cl w) = w_fenced w \<and> w_last_heartbeat_ok (fold start_task cl w) = w_last_heartbeat_ok w
   \<and> length (w_active (fold start_task cl w)) \<le> length (w_active w) + length cl \<and> worker_ok (fold start_task cl w)"
  using assms
proof (induction cl arbitrary: w)
  case (Cons tb cl)
  have f: "same_worker w (start_task tb w)" "active_ids (start_task tb w) = insert (tk_job_id (fst tb)) (active_ids w)"
    "w_fenced (start_task tb w) = w_fenced w" "w_last_heartbeat_ok (start_task tb w) = w_last_heartbeat_ok w"
    "length (w_active (start_task tb w)) \<le> length (w_active w) + 1" "worker_ok (start_task tb w)"
    using start_task_facts [of w tb] Cons.prems by simp_all
  have "w_bindings (start_task tb w) = w_bindings w" using f(1) by (simp add: same_worker_def)
  then have "same_worker (start_task tb w) (fold start_task cl (start_task tb w))"
    "active_ids (fold start_task cl (start_task tb w)) = active_ids (start_task tb w) \<union> claimed_ids cl"
    "w_fenced (fold start_task cl (start_task tb w)) = w_fenced (start_task tb w)"
    "w_last_heartbeat_ok (fold start_task cl (start_task tb w)) = w_last_heartbeat_ok (start_task tb w)"
    "length (w_active (fold start_task cl (start_task tb w))) \<le> length (w_active (start_task tb w)) + length cl"
    "worker_ok (fold start_task cl (start_task tb w))"
    using Cons.IH [of "start_task tb w"] Cons.prems f by simp_all
  then show ?case using f same_worker_trans by (auto simp: claimed_ids_def)
qed (simp add: claimed_ids_def)

lemma claim_return_facts:
  assumes "claim_return r w = (r', w')" and "worker_ok w" and "\<And>cl. r = Inr (Some cl) \<Longrightarrow> \<forall>tb\<in>set cl. snd tb \<in> set (w_bindings w)"
  shows "same_worker w w' \<and> w_fenced w' = w_fenced w \<and> w_last_heartbeat_ok w' = w_last_heartbeat_ok w \<and> worker_ok w'
     \<and> (case r of Inr (Some cl) \<Rightarrow> length (w_active w') \<le> length (w_active w) + length cl
          \<and> active_ids w' = (if w_fenced w then active_ids w else active_ids w \<union> claimed_ids cl)
        | _ \<Rightarrow> w_active w' = w_active w)"
proof (cases "\<exists>cl. r = Inr (Some cl) \<and> \<not> w_fenced w")
  case True
  then obtain cl where cl: "r = Inr (Some cl)" "\<not> w_fenced w" by blast
  let ?w = "w\<lparr>w_claim_failures := 0, w_claim_backoff := 0\<rparr>"
  have "w' = fold start_task cl ?w" using assms(1) cl by (simp add: claim_return_def Let_def)
  moreover have "worker_ok ?w" "\<forall>tb\<in>set cl. snd tb \<in> set (w_bindings ?w)" using assms(2,3) cl(1) by (simp_all add: worker_ok_def)
  ultimately show ?thesis using start_tasks_facts [of cl ?w] cl by (simp add: same_worker_def active_ids_def)
next
  case False
  then show ?thesis using assms(1,2)
    by (auto simp: claim_return_def Let_def same_worker_def worker_ok_def active_ids_def split: sum.splits option.splits if_splits)
qed

lemma same_instances: "\<exists>x. s = s\<lparr>worker_instances := x\<rparr>"
  by (rule exI [of _ "worker_instances s"]) simp

lemma set_status_facts:
  assumes "set_status fl st now w s = (r, w', s')"
  shows "(w' = w \<or> w' = w\<lparr>w_status := st\<rparr>) \<and> (\<exists>x. s' = s\<lparr>worker_instances := x\<rparr>)"
proof -
  have *: "\<exists>z. s1 = s\<lparr>worker_instances := z\<rparr>" if "set_instance_status i st now n s = Inr (x, s1)" for i n x s1
  proof -
    have "s1 = s \<or> (\<exists>y. s1 = put_instance y s)"
      using that by (auto simp: set_instance_status_def split: option.splits if_splits)
    then show ?thesis using same_instances unfolding put_instance_def by blast
  qed
  obtain q where t: "transaction fl (set_instance_status (w_instance_id w) st now (utc now)) s = (q, s')"
    using assms by (auto simp: set_status_def split: prod.splits sum.splits)
  then have "\<exists>x. s' = s\<lparr>worker_instances := x\<rparr>"
    by (cases rule: transaction_cases) (use * same_instances [of s] in blast)+
  then show ?thesis using assms t by (auto simp: set_status_def split: sum.splits)
qed

lemma beat_return_facts:
  assumes "beat_return r mt st w s = (Inr (), w', s')" and "worker_ok w"
  shows "same_worker w w' \<and> worker_ok w' \<and> length (w_active w') \<le> length (w_active w) \<and> (\<exists>x. s' = s\<lparr>worker_instances := x\<rparr>)
     \<and> (case r of
          Inl _ \<Rightarrow> w_last_heartbeat_ok w' = w_last_heartbeat_ok w
            \<and> (w_active w' = w_active w \<and> w_fenced w' = w_fenced w \<or> w_active w' = [] \<and> w_fenced w')
        | Inr res \<Rightarrow> w_last_heartbeat_ok w' = mt \<and> \<not> w_fenced w' \<and> active_ids w' = active_ids w - set (tk_lost res))"
proof (cases r)
  case (Inl e)
  then have s': "s' = s" and w': "w' = request_stop w \<or> w' = fence_if_lease_unconfirmed mt w"
    using assms(1) by (auto simp: beat_return_def split: if_splits)
  have "same_worker w (request_stop w) \<and> worker_ok (request_stop w) \<and> w_active (request_stop w) = w_active w
     \<and> w_fenced (request_stop w) = w_fenced w \<and> w_last_heartbeat_ok (request_stop w) = w_last_heartbeat_ok w"
    using assms(2) by (simp add: request_stop_def same_worker_def worker_ok_def)
  then have "same_worker w w' \<and> worker_ok w' \<and> length (w_active w') \<le> length (w_active w) \<and> w_last_heartbeat_ok w' = w_last_heartbeat_ok w
     \<and> (w_active w' = w_active w \<and> w_fenced w' = w_fenced w \<or> w_active w' = [] \<and> w_fenced w')"
    using w' fence_facts [OF assms(2), of mt] by auto
  then show ?thesis using same_instances [of s] unfolding s' Inl sum.case by blast
next
  case (Inr res)
  let ?w1 = "unfence (w\<lparr>w_heartbeats := w_heartbeats w + 1, w_last_heartbeat_ok := mt\<rparr>)"
  let ?tx = "if w_status ?w1 = ''starting'' \<and> \<not> w_stop ?w1 then set_status (fst st) ''ready'' (snd st) ?w1 s else (Inr True, ?w1, s)"
  obtain q w2 s2 where tx: "?tx = (q, w2, s2)" by (metis prod_cases3)
  have "(w2 = ?w1 \<or> w2 = ?w1\<lparr>w_status := ''ready''\<rparr>) \<and> (\<exists>x. s2 = s\<lparr>worker_instances := x\<rparr>)"
    using tx set_status_facts [of "fst st" "''ready''" "snd st" ?w1 s]
      same_instances [of s]
    by (cases "w_status ?w1 = ''starting'' \<and> \<not> w_stop ?w1") auto
  moreover define w3 where "w3 = apply_drain_barrier (tk_drain_requested res) (apply_pool (tk_snapshot res) w2)"
  moreover have "w' = fold abandon (tk_lost res) w3 \<and> s' = s2"
    using assms(1) Inr tx by (auto simp: beat_return_def w3_def split: sum.splits prod.splits if_splits)
  ultimately have "same_worker w w3" "worker_ok w3" "w_active w3 = w_active w" "\<not> w_fenced w3" "w_last_heartbeat_ok w3 = mt"
    "w' = fold abandon (tk_lost res) w3" "\<exists>x. s' = s\<lparr>worker_instances := x\<rparr>"
    using assms(2) by (auto simp: same_worker_def worker_ok_def unfence_def apply_drain_barrier_def apply_pool_def)
  then show ?thesis using fold_abandon_facts [of w3 "tk_lost res"] Inr same_worker_trans [of w w3]
    by (auto simp: lighter_def active_ids_def)
qed

context worker_queue
begin

text \<open>A task that ends, whatever its end, leaves the worker and at most its own row.\<close>

lemma execute_law:
  assumes inv: "inv s" and b: "hb_backend b = B" and ok: "worker_ok w" and ex: "execute fl e t b h message now w s = (r, w', s')"
  shows "inv s' \<and> (s' = s \<or> lease s (tk_job_id t) = Held (owner w))
     \<and> (\<forall>j. j \<noteq> tk_job_id t \<longrightarrow> lease s' j = lease s j \<and> expiry s' j = expiry s j)
     \<and> lighter w w' \<and> active_ids w' = active_ids w - {tk_job_id t}"
proof -
  have drop: "lighter w (w\<lparr>w_active := AList.delete i (w_active w)\<rparr>)" for i
    using ok worker_ok_delete [OF ok] by (simp add: lighter_def same_worker_def length_delete_le)
  show ?thesis
  proof (cases "case h of Returned r \<Rightarrow> Inr r | Raised x \<Rightarrow> result_for_exception x message")
    case (Inl x)
    then have "w' = w\<lparr>w_active := AList.delete (tk_job_id t) (w_active w)\<rparr>" "s' = s" using ex by (simp_all add: execute_def)
    then show ?thesis using inv drop by (simp add: active_ids_def)
  next
    case (Inr result)
    obtain r1 w1 s1 where rep: "report fl e t b result message now w s = (r1, w1, s1)" by (metis prod_cases3)
    then have w': "w' = w1\<lparr>w_active := AList.delete (tk_job_id t) (w_active w1)\<rparr>" "s1 = s'"
      using ex Inr by (simp_all add: execute_def)
    note rl = report_law [OF inv b rep]
    then obtain n l f where w1: "w1 = w\<lparr>w_reports := n, w_lost_leases := l, w_report_failures := f\<rparr>" by blast
    have "lighter w w'" "active_ids w' = active_ids w - {tk_job_id t}"
      using drop [of "tk_job_id t"] ok by (simp_all add: w' w1 lighter_def same_worker_def worker_ok_def active_ids_def)
    then show ?thesis using rl w'(2) by blast
  qed
qed

text \<open>Returning the leases of a worker touches no row of another one.\<close>

lemma release_leases_law:
  assumes "inv s" and "\<forall>(i, t, b)\<in>set entries. hb_backend b = B" and "release_leases env now entries w s = (r, w', s')"
  shows "inv s' \<and> owner w' = owner w \<and> (\<forall>j. lease s j \<noteq> Held (owner w) \<longrightarrow> lease s' j = lease s j \<and> expiry s' j = expiry s j)"
  using assms
proof (induction entries arbitrary: w s)
  case (Cons p entries)
  obtain i t b where p: "p = (i, t, b)" "hb_backend b = B" using Cons.prems(2) by (cases p) auto
  obtain r1 s1 where tx: "transaction (fst (env i)) (no_ret (qb_release B (snd (env i)) i (owner w) now)) s = (r1, s1)" by fastforce
  have 1: "inv s1 \<and> (\<forall>j. lease s j \<noteq> Held (owner w) \<longrightarrow> lease s1 j = lease s j \<and> expiry s1 j = expiry s j)"
    using tx
  proof (cases rule: transaction_cases)
    case 1
    then show ?thesis using Cons.prems(1) by simp
  next
    case (2 x)
    then show ?thesis using release_law [OF Cons.prems(1)] by fastforce
  qed
  show ?case
  proof (cases "case r1 of Inr _ \<Rightarrow> True | Inl e \<Rightarrow> db_error e")
    case True
    let ?w = "w\<lparr>w_active := AList.delete i (w_active w)\<rparr>"
    have "release_leases env now entries ?w s1 = (r, w', s')" using Cons.prems(3) p tx True by simp
    then have "inv s' \<and> owner w' = owner ?w \<and> (\<forall>j. lease s1 j \<noteq> Held (owner ?w) \<longrightarrow> lease s' j = lease s1 j \<and> expiry s' j = expiry s1 j)"
      using Cons.IH Cons.prems(2) 1 by auto
    then show ?thesis using 1 by (simp add: owner_def)
  next
    case False
    then have "s' = s1" "w' = w" using Cons.prems(3) p tx by (auto split: sum.splits)
    then show ?thesis using 1 by simp
  qed
qed simp

lemma drain_end_law:
  assumes "inv s" and "\<forall>(i, t, b)\<in>set (w_active w). hb_backend b = B" and "drain_end pending env fl now w s = (r, w', s')"
  shows "inv s' \<and> (\<forall>j. lease s j \<noteq> Held (owner w) \<longrightarrow> lease s' j = lease s j \<and> expiry s' j = expiry s j)"
proof -
  obtain r1 w1 s1 where d: "(if pending then release_leases env now (w_active w) w s else (Inr (), w, s)) = (r1, w1, s1)"
    by (metis prod_cases3)
  have 1: "inv s1 \<and> (\<forall>j. lease s j \<noteq> Held (owner w) \<longrightarrow> lease s1 j = lease s j \<and> expiry s1 j = expiry s j)"
    using d release_leases_law [OF assms(1,2)] assms(1) by (cases pending) auto
  have "s' = s1 \<or> (\<exists>x. s' = s1\<lparr>worker_instances := x\<rparr>)"
    using assms(3) d set_status_facts by (auto simp: drain_end_def split: sum.splits prod.splits)
  then show ?thesis using 1 by (auto simp: inv_instances lease_instances expiry_instances)
qed

end

section \<open>Concrete values\<close>

definition demo_row :: crawl_job where
  "demo_row = \<lparr>j_job_id = 7, j_run_id = None, j_source_id = None, j_job_type = ''fetch'', j_status = Pending, j_priority = 0,
     j_idempotency_key = ''k'', j_args = ''{}'', j_attempt = 0, j_max_attempts = 5, j_not_before = 0, j_lease_owner = None,
     j_lease_expires_at = None, j_leased_at = None, j_finished_at = None, j_last_error_code = None, j_last_error_message = None,
     j_created_at = 0, j_updated_at = 0\<rparr>"

definition demo_instance :: "uuid \<Rightarrow> worker_instance" where
  "demo_instance i = \<lparr>wi_instance_id = i, wi_role = RoleFetch, wi_status = Ready, wi_deployment = None, wi_container_id = None,
     wi_hostname = None, wi_version = ''1'', wi_slots_total = 8, wi_slots_active = 0, wi_active_leases = 0, wi_pool_revision = None,
     wi_drain_requested_at = None, wi_started_at = 0, wi_last_heartbeat_at = 0, wi_stopped_at = None, wi_created_at = 0,
     wi_updated_at = 0\<rparr>"

definition demo_env :: call_env where
  "demo_env = \<lparr>ce_locked = [], ce_dead_letter_id = 0, ce_audit_id = 0, ce_change_id = 0, ce_outbox_id = 0, ce_random = 0,
     ce_decode = (\<lambda>_. Inl ValueError)\<rparr>"

definition demo_config :: worker_config where
  "demo_config = \<lparr>wc_role = RoleFetch, wc_lease_seconds = 60, wc_heartbeat_seconds = 20, wc_poll_seconds = 1,
     wc_stop_grace_seconds = 90, wc_claim_batch = 8, wc_fence_after_seconds = None, wc_max_concurrency = Some 8,
     wc_max_defer_seconds = DEFAULT_MAX_DEFER_SECONDS\<rparr>"

definition demo_binding :: binding where
  "demo_binding = \<lparr>hb_backend = CRAWL_JOBS, hb_handler = \<lparr>hd_async = True, hd_job_types = [''fetch''], hd_retry_schedule = None\<rparr>\<rparr>"

definition demo_worker :: "uuid \<Rightarrow> ts \<Rightarrow> worker" where
  "demo_worker i t = (new_worker None demo_config i [demo_binding] (total_seconds t))\<lparr>w_status := ''ready''\<rparr>"

definition demo_store :: "crawl_job list \<Rightarrow> worker_instance list \<Rightarrow> db" where
  "demo_store js xs = empty_db\<lparr>crawl_jobs := js, worker_instances := xs\<rparr>"

lemma demo_config_simps [simp]:
  "config_post_init demo_config = Inr ()" "fence_after demo_config = 30" "wc_lease_seconds demo_config = 60"
  by (simp_all add: demo_config_def config_post_init_def fence_after_def FENCE_RATIO_def MISSED_BEATS_BUDGET_def DEFAULT_MAX_DEFER_SECONDS_def)

lemma demo_worker_simps [simp]: "w_config (demo_worker i t) = demo_config" "owner (demo_worker i t) = uuid_str i"
  by (simp_all add: demo_worker_def new_worker_def owner_def)

lemma demo_store_inv: "queue_inv (demo_store [demo_row] xs)" "queue_inv (demo_store [job_leased w ls now demo_row] xs)"
  by (simp_all add: demo_store_def queue_inv_def demo_row_def crawl_job_checks_def lease_consistent_def letters_match_def letters_of_def
      JOB_ARGS_MAX_BYTES_def job_leased_def)

text \<open>A claim over a queue of one due job takes it.\<close>

lemma demo_qb_claim:
  assumes "job_claimable [] [''fetch''] now j" and "0 < n"
  shows "qb_claim CRAWL_JOBS demo_env [''fetch''] w 60 n now (demo_store [j] xs)
      = Inr ([task_from_job (job_leased w 60 now j)], demo_store [job_leased w 60 now j] xs)"
  using assms
  by (simp add: CRAWL_JOBS_def crawl_claim_def claim_def demo_env_def demo_store_def order_limit_def upd_selected_def returning_def job_leased_def)

lemma demo_row_due [simp]: "j_job_id demo_row = 7" "0 \<le> t \<Longrightarrow> job_claimable [] [''fetch''] t demo_row"
  by (simp_all add: demo_row_def job_claimable_def)

section \<open>Reports\<close>



lemma clamp_until_bounds:
  assumes "0 \<le> wc_max_defer_seconds c"
  shows "now \<le> clamp_until c v now \<and> clamp_until c v now \<le> now + timedelta_seconds (wc_max_defer_seconds c)"
proof -
  have "0 \<le> timedelta_seconds (wc_max_defer_seconds c)" using assms unfolding timedelta_seconds_def by (intro py_round_nonneg) simp
  then show ?thesis by (auto simp: clamp_until_def Let_def)
qed

text \<open>
  A deferred job comes back: the report leaves it pending, not before now and at most
  \<open>max_defer_seconds\<close> away whatever the handler asked for, with the attempt of this claim given back, the
  error fields as they were and no dead letter.
\<close>

theorem deferred_job_comes_back:
  assumes inv: "queue_inv s" and b: "hb_backend b = CRAWL_JOBS" and d: "tr_disposition result = Defer" "tr_not_before result = Some dt"
    and cfg: "config_post_init (w_config w) = Inr ()" and held: "job_lease s (tk_job_id t) = Held (owner w)"
    and rep: "report NoFault e t b result message now w s = (r, w', s')"
  shows "\<exists>j j'. get_job (tk_job_id t) s = Some j \<and> get_job (tk_job_id t) s' = Some j' \<and> j_status j' = Pending
     \<and> now \<le> j_not_before j' \<and> j_not_before j' \<le> now + timedelta_seconds (wc_max_defer_seconds (w_config w))
     \<and> j_attempt j' = max (j_attempt j - 1) 0 \<and> j_last_error_code j' = j_last_error_code j \<and> dead_letters s' = dead_letters s"
proof -
  let ?i = "tk_job_id t" and ?u = "clamp_until (w_config w) (instant dt) now"
  have max: "0 \<le> wc_max_defer_seconds (w_config w)" using cfg by (auto simp: config_post_init_def split: if_splits)
  note u = clamp_until_bounds [OF max, of now "instant dt"]
  obtain j where j: "find (job_owned ?i (owner w)) (crawl_jobs s) = Some j"
    using owned_find_None [OF inv, of ?i "owner w"] held by fastforce
  then have "release ?i (owner w) (utc ?u) now (utc now) s = Inr (job_released ?u now j,
      s\<lparr>crawl_jobs := upd_where (job_owned ?i (owner w)) (job_released ?u now) (crawl_jobs s)\<rparr>)"
    using u by (simp add: release_def clamp_not_before_def)
  then have s': "s' = s\<lparr>crawl_jobs := upd_where (job_owned ?i (owner w)) (job_released ?u now) (crawl_jobs s)\<rparr>"
    using rep b d by (simp add: report_def checked_result_def report_body_def defer_until_def no_ret_def CRAWL_JOBS_def crawl_defer_def Let_def)
  have g: "get_job ?i s = Some j" using owned_get_job [OF inv] find_ownedD [OF j] by blast
  have "get_job ?i s' = map_option (\<lambda>j. if job_owned ?i (owner w) j then job_released ?u now j else j) (get_job ?i s)"
    unfolding s' by (rule get_job_upd_where) (simp add: job_released_def)
  then have "get_job ?i s' = Some (job_released ?u now j)" using g find_ownedD [OF j] by simp
  then show ?thesis using g u s' by (auto simp: job_released_def)
qed

theorem deferred_job_comes_back_witness:
  "\<exists>r w' s' j'. report NoFault demo_env (task_from_job demo_row) demo_binding
       \<lparr>tr_disposition = Defer, tr_error_code = Some ''origin_busy'', tr_error_message = None, tr_not_before = utc (10 ^ 15), tr_output = None\<rparr>
       [] 5 (demo_worker 11 0) (demo_store [job_leased (uuid_str 11) 60 0 demo_row] []) = (r, w', s')
     \<and> get_job 7 s' = Some j' \<and> j_status j' = Pending \<and> j_not_before j' \<le> 5 + 86400 * second"
proof -
  let ?r = "\<lparr>tr_disposition = Defer, tr_error_code = Some ''origin_busy'', tr_error_message = None, tr_not_before = utc (10 ^ 15), tr_output = None\<rparr>"
  let ?s = "demo_store [job_leased (uuid_str 11) 60 0 demo_row] []"
  obtain r w' s' where rep: "report NoFault demo_env (task_from_job demo_row) demo_binding ?r [] 5 (demo_worker 11 0) ?s = (r, w', s')"
    by (metis prod_cases3)
  have id: "tk_job_id (task_from_job demo_row) = 7" by (simp add: task_from_job_def demo_row_def)
  have "job_lease ?s (tk_job_id (task_from_job demo_row)) = Held (owner (demo_worker 11 0))"
    unfolding id by (simp add: job_lease_def get_job_def demo_store_def demo_row_def job_leased_def job_lease_state_def)
  moreover have "hb_backend demo_binding = CRAWL_JOBS" by (simp add: demo_binding_def)
  moreover have "timedelta_seconds (wc_max_defer_seconds demo_config) = 86400 * second"
    using timedelta_total_seconds [of "86400 * second"]
    by (simp add: demo_config_def DEFAULT_MAX_DEFER_SECONDS_def total_seconds_def second_def)
  ultimately show ?thesis using deferred_job_comes_back [OF demo_store_inv(2) _ _ _ _ _ rep] rep id by fastforce
qed

section \<open>Round robin over the bindings\<close>

text \<open>A claim that finds nothing leaves the database as it was.\<close>

definition quiet :: "queue_backend \<Rightarrow> bool" where
  "quiet C \<longleftrightarrow> (\<forall>e tys w ls n now s s'. qb_claim C e tys w ls n now s = Inr ([], s') \<longrightarrow> s' = s)"

lemma sort_key_empty: "sort_key k xs = [] \<longleftrightarrow> xs = []"
  by (metis length_0_conv length_sort)

lemma nothing_returned:
  assumes "set sel \<subseteq> set rows" and "\<And>r. key (f r) = key r" and "returning key sel (upd_selected key sel f rows) = []"
  shows "upd_selected key sel f rows = rows"
proof -
  have "key r \<notin> key ` set sel" if "r \<in> set rows" for r
  proof
    assume k: "key r \<in> key ` set sel"
    then have "f r \<in> set (returning key sel (upd_selected key sel f rows))"
      using that assms(2) by (auto simp: returning_def upd_selected_def set_upd_where)
    then show False using assms(3) by simp
  qed
  then show ?thesis by (simp add: upd_selected_def upd_where_none)
qed

lemma quiet_backends [simp]: "quiet CRAWL_JOBS" "quiet PROJECTION_TASKS"
proof -
  have "s' = s" if "crawl_claim e tys w ls n now s = Inr ([], s')" for e tys w ls n now s s'
  proof (cases "tys = []")
    case True
    then show ?thesis using that by (auto simp: crawl_claim_def claim_def)
  next
    case False
    let ?sel = "order_limit claim_key (nat n) (filter (job_claimable (ce_locked e) tys now) (crawl_jobs s))"
    have "returning j_job_id ?sel (upd_selected j_job_id ?sel (job_leased w ls now) (crawl_jobs s)) = []"
      and s': "s' = s\<lparr>crawl_jobs := upd_selected j_job_id ?sel (job_leased w ls now) (crawl_jobs s)\<rparr>"
      using that False by (auto simp: crawl_claim_def claim_def Let_def sort_key_empty split: if_splits)
    moreover have "set ?sel \<subseteq> set (crawl_jobs s)" using set_order_limit_subset by fastforce
    ultimately show ?thesis using nothing_returned [of ?sel "crawl_jobs s" j_job_id "job_leased w ls now"] by (simp add: job_leased_def)
  qed
  then show "quiet CRAWL_JOBS" by (simp add: quiet_def CRAWL_JOBS_def)
next
  have "s' = s" if "proj_claim e tys w ls n now s = Inr ([], s')" for e tys w ls n now s s'
  proof -
    let ?sel = "order_limit task_key (nat n) (filter (task_claimable (ce_locked e) tys now) (projection_tasks s))"
    have "returning t_task_id ?sel (upd_selected t_task_id ?sel (task_leased w ls now) (projection_tasks s)) = []"
      and s': "s' = s\<lparr>projection_tasks := upd_selected t_task_id ?sel (task_leased w ls now) (projection_tasks s)\<rparr>"
      using that by (auto simp: proj_claim_def claim_projection_tasks_def Let_def sort_key_empty split: if_splits)
    moreover have "set ?sel \<subseteq> set (projection_tasks s)" using set_order_limit_subset by fastforce
    ultimately show ?thesis using nothing_returned [of ?sel "projection_tasks s" t_task_id "task_leased w ls now"] by (simp add: task_leased_def)
  qed
  then show "quiet PROJECTION_TASKS" by (simp add: quiet_def PROJECTION_TASKS_def)
qed

text \<open>Binding \<open>J\<close> has work for a call in \<open>s\<close>.\<close>

definition has_work :: "worker \<Rightarrow> ts \<Rightarrow> call_env \<Rightarrow> nat \<Rightarrow> db \<Rightarrow> bool" where
  "has_work w now e J s \<longleftrightarrow> (let b = w_bindings w ! J in
     \<exists>t ts s'. qb_claim (hb_backend b) e (hd_job_types (hb_handler b)) (owner w) (wc_lease_seconds (w_config w)) 1 now s = Inr (t # ts, s'))"

text \<open>
  A pass for one slot takes from the first binding with work, counted from the cursor, and moves the
  cursor behind it.
\<close>

lemma claim_pass_first:
  assumes "\<forall>b\<in>set (w_bindings w). quiet (hb_backend b)" and n: "n = length (w_bindings w)" "0 < n"
    and "m \<le> K" and K: "K < n" and "\<And>e. envs K = Inr e \<Longrightarrow> has_work w now e ((start + K) mod n) s"
    and "claim_pass w 1 now envs start [m..<n] next [] s = (c', Inr (cl, s'))"
  shows "\<exists>k\<le>K. m \<le> k \<and> cl \<noteq> [] \<and> (\<forall>tb\<in>set cl. snd tb = w_bindings w ! ((start + k) mod n)) \<and> c' = ((start + k) mod n + 1) mod n"
  using assms(4,6,7)
proof (induction "n - m" arbitrary: m "next")
  case 0
  then show ?case using K by simp
next
  case (Suc d)
  have ks: "[m..<n] = m # [Suc m..<n]" using Suc.hyps(2) by (simp add: upt_conv_Cons)
  let ?b = "w_bindings w ! ((start + m) mod n)"
  obtain e where e: "envs m = Inr e" using Suc.prems(3) ks by (cases "envs m") (simp_all add: Let_def)
  let ?c = "qb_claim (hb_backend ?b) e (hd_job_types (hb_handler ?b)) (owner w) (wc_lease_seconds (w_config w)) 1 now s"
  obtain ts s1 where c: "?c = Inr (ts, s1)" using Suc.prems(3) ks e n(1) by (cases ?c) (auto simp: Let_def)
  show ?case
  proof (cases "ts = []")
    case True
    have "?b \<in> set (w_bindings w)" using n by simp
    then have s1: "s1 = s" using assms(1) c True by (auto simp: quiet_def)
    have "m \<noteq> K"
    proof
      assume "m = K"
      then have "has_work w now e ((start + m) mod n) s" using Suc.prems(2) e by simp
      then show False using c True by (simp add: has_work_def Let_def)
    qed
    then have "Suc m \<le> K" using Suc.prems(1) by simp
    moreover have "claim_pass w 1 now envs start [Suc m..<n] next [] s = (c', Inr (cl, s'))"
      using Suc.prems(3) ks e c True s1 n(1) by (simp add: Let_def)
    ultimately have "\<exists>k\<le>K. Suc m \<le> k \<and> cl \<noteq> [] \<and> (\<forall>tb\<in>set cl. snd tb = w_bindings w ! ((start + k) mod n)) \<and> c' = ((start + k) mod n + 1) mod n"
      using Suc.hyps(1) [of "Suc m" "next"] Suc.hyps(2) Suc.prems(2) by simp
    then show ?thesis using Suc_leD by blast
  next
    case False
    have stop: "claim_pass w 1 now envs start ks nx (map (\<lambda>t. (t, ?b)) ts) s1 = (nx, Inr (map (\<lambda>t. (t, ?b)) ts, s1))" for ks nx
      using False by (cases ks; cases ts) (simp_all add: Let_def)
    then have "cl = map (\<lambda>t. (t, ?b)) ts \<and> c' = ((start + m) mod n + 1) mod n"
      using Suc.prems(3) ks e c False n(1) by (simp add: Let_def)
    then show ?thesis using False Suc.prems(1) by (intro exI [of _ m]) auto
  qed
qed

text \<open>Passes one after the other, each in the database it finds; the result lists what each claimed.\<close>

fun passes :: "worker \<Rightarrow> nat \<Rightarrow> (ts \<times> (nat \<Rightarrow> error + call_env) \<times> db) list \<Rightarrow> (task \<times> binding) list res list" where
  "passes w c [] = []"
| "passes w c ((now, envs, s) # ps) =
     (let (c', r) = claim_pass w 1 now envs c [0..<length (w_bindings w)] c [] s
      in map_sum id fst r # passes w c' ps)"

lemma cursor_reaches:
  assumes "J < n" and "c < n"
  shows "(c + (J + n - c) mod n) mod n = J" "(J + n - c) mod n < (n :: nat)"
proof -
  have "(c + (J + n - c) mod n) mod n = (c + (J + n - c)) mod n" by (rule mod_add_right_eq)
  also have "\<dots> = J" using assms by simp
  finally show "(c + (J + n - c) mod n) mod n = J" .
  show "(J + n - c) mod n < n" by (rule mod_less_divisor) (use assms in linarith)
qed

lemma mod_distance:
  assumes "J = (c + r) mod n" and "c < n" and "r < (n :: nat)"
  shows "(J + n - c) mod n = r"
proof (cases "c + r < n")
  case True
  then have "J + n - c = r + n" using assms by simp
  then show ?thesis using assms(3) by simp
next
  case False
  then have "J = c + r - n" using assms by (simp add: mod_if)
  then have "J + n - c = r" using False by linarith
  then show ?thesis using assms(3) by simp
qed

lemma cursor_distance:
  assumes "J < (n :: nat)" and "c < n" and "k < (J + n - c) mod n"
  shows "(J + n - ((c + k) mod n + 1) mod n) mod n < (J + n - c) mod n"
proof -
  let ?d = "(J + n - c) mod n"
  have d: "(c + ?d) mod n = J" and "?d < n" by (rule cursor_reaches [OF assms(1,2)])+
  have succ: "((c + k) mod n + 1) mod n = (c + k + 1) mod n" by (simp add: mod_simps)
  have J: "J = ((c + k + 1) mod n + (?d - (k + 1))) mod n"
  proof -
    have "(c + k + 1) + (?d - (k + 1)) = c + ?d" using assms(3) by simp
    then show ?thesis using d by (metis mod_add_left_eq)
  qed
  let ?c = "(c + k + 1) mod n" and ?r = "?d - (k + 1)"
  have r: "?r < n" using \<open>?d < n\<close> by linarith
  have rc: "?c < n" by (rule mod_less_divisor) (use assms(1) in linarith)
  have "(J + n - ?c) mod n = ?r" by (rule mod_distance [OF J rc r])
  then show ?thesis unfolding succ using assms(3) by simp
qed

text \<open>
  C34. No queue starves. Let a worker with one free slot make one pass after the other, in whatever
  database it finds each time. If binding \<open>J\<close> has work in every one of them and the passes return, then
  within as many passes as the role has bindings one of them claims from binding \<open>J\<close>.
\<close>

theorem no_binding_starves:
  assumes "\<forall>b\<in>set (w_bindings w). hb_backend b \<in> {CRAWL_JOBS, PROJECTION_TASKS}" and "J < length (w_bindings w)"
    and "c < length (w_bindings w)" and "length ps = length (w_bindings w)"
    and "\<forall>(now, envs, s)\<in>set ps. \<forall>k e. envs k = Inr e \<longrightarrow> has_work w now e J s" and "\<forall>r\<in>set (passes w c ps). \<exists>cl. r = Inr cl"
  shows "\<exists>cl. Inr cl \<in> set (passes w c ps) \<and> cl \<noteq> [] \<and> (\<forall>tb\<in>set cl. snd tb = w_bindings w ! J)"
proof -
  let ?n = "length (w_bindings w)"
  have q: "\<forall>b\<in>set (w_bindings w). quiet (hb_backend b)" using assms(1) by auto
  have "\<exists>cl. Inr cl \<in> set (passes w c ps) \<and> cl \<noteq> [] \<and> (\<forall>tb\<in>set cl. snd tb = w_bindings w ! J)"
    if "c < ?n" "(J + ?n - c) mod ?n < length ps" "\<forall>(now, envs, s)\<in>set ps. \<forall>k e. envs k = Inr e \<longrightarrow> has_work w now e J s"
      "\<forall>r\<in>set (passes w c ps). \<exists>cl. r = Inr cl" for c ps
    using that
  proof (induction ps arbitrary: c)
    case (Cons p ps)
    obtain now envs s where p: "p = (now, envs, s)" by (metis prod_cases3)
    obtain c' r where cp: "claim_pass w 1 now envs c [0..<?n] c [] s = (c', r)" by fastforce
    obtain cl s' where r: "r = Inr (cl, s')" using Cons.prems(4) p cp by (cases r) (auto simp: Let_def)
    let ?d = "(J + ?n - c) mod ?n"
    have J: "(c + ?d) mod ?n = J" and d: "?d < ?n" by (rule cursor_reaches [OF assms(2) Cons.prems(1)])+
    then have work: "has_work w now e ((c + ?d) mod ?n) s" if "envs ?d = Inr e" for e
      using Cons.prems(3) p that by simp
    obtain k where k: "k \<le> ?d" "cl \<noteq> []" "\<forall>tb\<in>set cl. snd tb = w_bindings w ! ((c + k) mod ?n)" "c' = ((c + k) mod ?n + 1) mod ?n"
      using claim_pass_first [where m = 0 and K = ?d and envs = envs and c' = c' and cl = cl and s' = s' and start = c and s = s and now = now, OF q refl _ _ d work]
        cp r assms(2) by fastforce
    show ?case
    proof (cases "k = ?d")
      case True
      then have "\<forall>tb\<in>set cl. snd tb = w_bindings w ! J" using k(3) J by simp
      then show ?thesis using k(2) p cp r by auto
    next
      case False
      then have "(J + ?n - c') mod ?n < ?d" unfolding k(4) using k(1) by (intro cursor_distance [OF assms(2) Cons.prems(1)]) simp
      moreover have "c' < ?n" unfolding k(4) by (rule mod_less_divisor) (use assms(2) in linarith)
      ultimately have "\<exists>cl. Inr cl \<in> set (passes w c' ps) \<and> cl \<noteq> [] \<and> (\<forall>tb\<in>set cl. snd tb = w_bindings w ! J)"
        using Cons.prems p cp by (intro Cons.IH) (auto simp: Let_def)
      then show ?thesis using p cp by (auto simp: Let_def)
    qed
  qed simp
  then show ?thesis using assms(3-6) cursor_reaches(2) [OF assms(2,3)] by simp
qed

definition demo_idle :: binding where
  "demo_idle = demo_binding\<lparr>hb_handler := \<lparr>hd_async = True, hd_job_types = [''parse''], hd_retry_schedule = None\<rparr>\<rparr>"

theorem no_binding_starves_witness:
  "\<exists>cl. Inr cl \<in> set (passes ((demo_worker 11 0)\<lparr>w_bindings := [demo_idle, demo_binding]\<rparr>) 0
       [(5, \<lambda>_. Inr demo_env, demo_store [demo_row] []), (6, \<lambda>_. Inr demo_env, demo_store [demo_row] [])])
     \<and> cl \<noteq> [] \<and> (\<forall>tb\<in>set cl. snd tb = demo_binding)"
proof -
  let ?w = "(demo_worker 11 0)\<lparr>w_bindings := [demo_idle, demo_binding]\<rparr>"
  let ?ps = "[(5, \<lambda>_. Inr demo_env, demo_store [demo_row] []), (6, \<lambda>_. Inr demo_env, demo_store [demo_row] [])]
    :: (ts \<times> (nat \<Rightarrow> error + call_env) \<times> db) list"
  have own: "owner ((demo_worker 11 0)\<lparr>w_bindings := bs\<rparr>) = uuid_str 11" for bs by (simp add: demo_worker_def new_worker_def owner_def)
  have work: "has_work ?w t demo_env 1 (demo_store [demo_row] [])" if "0 \<le> t" for t
    using demo_qb_claim [OF demo_row_due(2) [OF that], of 1] by (simp add: has_work_def Let_def demo_binding_def own)
  have idle: "qb_claim CRAWL_JOBS demo_env [''parse''] w 60 n t (demo_store [demo_row] []) = Inr ([], demo_store [demo_row] [])" if "0 < n" for w n t
    using that by (simp add: CRAWL_JOBS_def crawl_claim_def claim_def demo_env_def demo_store_def order_limit_def upd_selected_def returning_def
        job_claimable_def demo_row_def)
  have "\<exists>cl. claim_pass ?w 1 t (\<lambda>_. Inr demo_env) 0 [0, 1] 0 [] (demo_store [demo_row] []) = (0, Inr cl)" if "0 \<le> t" for t
    using demo_qb_claim [OF demo_row_due(2) [OF that], of 1 "uuid_str 11" "[]"] idle [of 1 "uuid_str 11" t]
    by (simp add: Let_def demo_idle_def demo_binding_def own)
  then obtain c5 c6 where "claim_pass ?w 1 5 (\<lambda>_. Inr demo_env) 0 [0, 1] 0 [] (demo_store [demo_row] []) = (0, Inr c5)"
    "claim_pass ?w 1 6 (\<lambda>_. Inr demo_env) 0 [0, 1] 0 [] (demo_store [demo_row] []) = (0, Inr c6)"
    by (metis order_refl zero_le_numeral)
  moreover have "[0..<2] = [0, 1 :: nat]" by (simp add: upt_rec)
  ultimately have "\<forall>r\<in>set (passes ?w 0 ?ps). \<exists>cl. r = Inr cl" by simp
  then show ?thesis
    using no_binding_starves [of ?w 1 0 ?ps] work [of 5] work [of 6] by (simp add: demo_idle_def demo_binding_def)
qed

text \<open>
  A \<open>PermanentTaskError\<close> whose code \<open>TaskResult\<close> refuses (empty, or longer than 64 characters) is not
  reported at all: \<open>result_for_exception\<close> raises, nothing is written or counted, and the lease is left to expire.
\<close>

lemma permanent_error_with_a_bad_code:
  assumes "code = [] \<or> ERROR_CODE_MAX_LENGTH < length code"
  shows "execute fl e t b (Raised (PermanentTaskError code)) message now w s
    = (Inl ValueError, w\<lparr>w_active := AList.delete (tk_job_id t) (w_active w)\<rparr>, s)"
  using assms by (auto simp: execute_def result_for_exception_def permanent_def make_task_result_def task_result_post_init_def)

end
