(* ===== verification/Fencing.thy ===== *)
theory Fencing
  imports Runtime
begin

text \<open>
  Several workers over one database, in time. A world is the clock, the database and the processes;
  a process is its worker with the claim and the heartbeat that are under way. A step is one of the
  atomic pieces of \<open>Runtime\<close>: a coroutine starts, its transaction commits (or fails), it returns; the
  watchdog looks; a task ends; a process joins, drains or is killed; maintenance recovers leases; any
  other client writes. The clocks of the processes and of the scheduler are one clock.

  The question is the one self-fencing answers in the code: can a job run in two processes at once?
  It cannot, when the event loop is never later than \<open>W\<close> seconds with the watchdog, a transaction of
  the runtime takes at most \<open>D\<close> seconds, and \<open>fence_after + W + 3 * D < lease_seconds\<close>. A cancelled handler
  is taken to stop at once.
\<close>

section \<open>Worlds\<close>

record claim_call =
  cc_now :: ts
  cc_limit :: int
  cc_out :: "(task \<times> binding) list option res option"

record beat_call =
  bc_now :: ts
  bc_worker :: worker
  bc_out :: "tick_outcome res option"

record process =
  pr_worker :: worker
  pr_claim :: "claim_call option"
  pr_beat :: "beat_call option"

record world =
  wd_now :: ts
  wd_db :: db
  wd_procs :: "process list"

text \<open>
  The process has not overslept: an unfenced worker is not older than its fencing window and the
  slack of the watchdog, and no transaction is older than \<open>D\<close>.
\<close>

definition punctual :: "rat \<Rightarrow> rat \<Rightarrow> ts \<Rightarrow> process \<Rightarrow> bool" where
  "punctual W D t p \<longleftrightarrow>
     (\<not> w_fenced (pr_worker p) \<longrightarrow> total_seconds t \<le> w_last_heartbeat_ok (pr_worker p) + fence_after (w_config (pr_worker p)) + W)
     \<and> (\<forall>c. pr_claim p = Some c \<longrightarrow> total_seconds t \<le> total_seconds (cc_now c) + D)
     \<and> (\<forall>c. pr_beat p = Some c \<longrightarrow> total_seconds t \<le> total_seconds (bc_now c) + D)"

text \<open>The margin a configuration leaves between the fence and the end of the lease.\<close>

definition safe_config :: "rat \<Rightarrow> rat \<Rightarrow> worker_config \<Rightarrow> bool" where
  "safe_config W D c \<longleftrightarrow> fence_after c + W + 3 * D < of_int (wc_lease_seconds c)"

text \<open>A worker that has just booted.\<close>

definition fresh_worker :: "queue_backend \<Rightarrow> ts \<Rightarrow> worker \<Rightarrow> bool" where
  "fresh_worker B t w \<longleftrightarrow> w_active w = [] \<and> w_last_heartbeat_ok w = total_seconds t \<and> w_next_binding w = 0
     \<and> (\<forall>b\<in>set (w_bindings w). hb_backend b = B)"

text \<open>\<open>accept\<close> says which configurations run, \<open>client\<close> what the other clients of the database do.\<close>

definition put_proc :: "nat \<Rightarrow> process \<Rightarrow> world \<Rightarrow> world" where
  "put_proc a p x = x\<lparr>wd_procs := (wd_procs x)[a := p]\<rparr>"

inductive world_step ::
  "queue_backend \<Rightarrow> rat \<Rightarrow> rat \<Rightarrow> (worker_config \<Rightarrow> bool) \<Rightarrow> (db \<Rightarrow> db \<Rightarrow> bool) \<Rightarrow> world \<Rightarrow> world \<Rightarrow> bool"
  for B :: queue_backend and W D :: rat and accept :: "worker_config \<Rightarrow> bool" and client :: "db \<Rightarrow> db \<Rightarrow> bool" where
  time_passes: "0 \<le> d \<Longrightarrow> \<forall>p\<in>set (wd_procs x). punctual W D (wd_now x + d) p
    \<Longrightarrow> world_step B W D accept client x (x\<lparr>wd_now := wd_now x + d\<rparr>)"
| joins: "fresh_worker B (wd_now x) w \<Longrightarrow> config_post_init (w_config w) = Inr () \<Longrightarrow> accept (w_config w)
    \<Longrightarrow> owner w \<notin> (owner \<circ> pr_worker) ` set (wd_procs x)
    \<Longrightarrow> world_step B W D accept client x (x\<lparr>wd_procs := wd_procs x @ [\<lparr>pr_worker = w, pr_claim = None, pr_beat = None\<rparr>]\<rparr>)"
| claim_begins: "a < length (wd_procs x) \<Longrightarrow> p = wd_procs x ! a \<Longrightarrow> pr_claim p = None \<Longrightarrow> 0 < claim_limit (pr_worker p)
    \<Longrightarrow> world_step B W D accept client x
          (put_proc a (p\<lparr>pr_claim := Some \<lparr>cc_now = wd_now x, cc_limit = claim_limit (pr_worker p), cc_out = None\<rparr>\<rparr>) x)"
| claim_commits: "a < length (wd_procs x) \<Longrightarrow> p = wd_procs x ! a \<Longrightarrow> pr_claim p = Some c \<Longrightarrow> cc_out c = None
    \<Longrightarrow> claim_tx fl envs (cc_limit c) (cc_now c) (pr_worker p) (wd_db x) = (r, w', s')
    \<Longrightarrow> world_step B W D accept client x
          (put_proc a (p\<lparr>pr_worker := w', pr_claim := Some (c\<lparr>cc_out := Some r\<rparr>)\<rparr>) (x\<lparr>wd_db := s'\<rparr>))"
| claim_returns: "a < length (wd_procs x) \<Longrightarrow> p = wd_procs x ! a \<Longrightarrow> pr_claim p = Some c \<Longrightarrow> cc_out c = Some r
    \<Longrightarrow> claim_return r (pr_worker p) = (Inr n, w')
    \<Longrightarrow> world_step B W D accept client x (put_proc a (p\<lparr>pr_worker := w', pr_claim := None\<rparr>) x)"
| beat_begins: "a < length (wd_procs x) \<Longrightarrow> p = wd_procs x ! a \<Longrightarrow> pr_beat p = None
    \<Longrightarrow> world_step B W D accept client x
          (put_proc a (p\<lparr>pr_beat := Some \<lparr>bc_now = wd_now x, bc_worker = pr_worker p, bc_out = None\<rparr>\<rparr>) x)"
| beat_commits: "a < length (wd_procs x) \<Longrightarrow> p = wd_procs x ! a \<Longrightarrow> pr_beat p = Some c \<Longrightarrow> bc_out c = None
    \<Longrightarrow> transaction fl (beat_body e (bc_now c) (bc_worker c)) (wd_db x) = (r, s')
    \<Longrightarrow> world_step B W D accept client x (put_proc a (p\<lparr>pr_beat := Some (c\<lparr>bc_out := Some r\<rparr>)\<rparr>) (x\<lparr>wd_db := s'\<rparr>))"
| beat_returns: "a < length (wd_procs x) \<Longrightarrow> p = wd_procs x ! a \<Longrightarrow> pr_beat p = Some c \<Longrightarrow> bc_out c = Some r
    \<Longrightarrow> beat_return r (total_seconds (wd_now x)) st (pr_worker p) (wd_db x) = (Inr (), w', s')
    \<Longrightarrow> world_step B W D accept client x (put_proc a (p\<lparr>pr_worker := w', pr_beat := None\<rparr>) (x\<lparr>wd_db := s'\<rparr>))"
| beat_times_out: "a < length (wd_procs x) \<Longrightarrow> p = wd_procs x ! a \<Longrightarrow> pr_beat p = Some c
    \<Longrightarrow> world_step B W D accept client x
          (put_proc a (p\<lparr>pr_worker := fence_if_lease_unconfirmed (total_seconds (wd_now x)) (pr_worker p), pr_beat := None\<rparr>) x)"
| watchdog: "a < length (wd_procs x) \<Longrightarrow> p = wd_procs x ! a
    \<Longrightarrow> world_step B W D accept client x
          (put_proc a (p\<lparr>pr_worker := fence_if_lease_unconfirmed (total_seconds (wd_now x)) (pr_worker p)\<rparr>) x)"
| task_ends: "a < length (wd_procs x) \<Longrightarrow> p = wd_procs x ! a \<Longrightarrow> (i, t, b) \<in> set (w_active (pr_worker p))
    \<Longrightarrow> execute fl e t b h message now (pr_worker p) (wd_db x) = (r, w', s')
    \<Longrightarrow> world_step B W D accept client x (put_proc a (p\<lparr>pr_worker := w'\<rparr>) (x\<lparr>wd_db := s'\<rparr>))"
| drains: "a < length (wd_procs x) \<Longrightarrow> p = wd_procs x ! a
    \<Longrightarrow> drain_end pending env fl now (pr_worker p) (wd_db x) = (r, w', s')
    \<Longrightarrow> world_step B W D accept client x (x\<lparr>wd_db := s', wd_procs := take a (wd_procs x) @ drop (Suc a) (wd_procs x)\<rparr>)"
| dies: "a < length (wd_procs x)
    \<Longrightarrow> world_step B W D accept client x (x\<lparr>wd_procs := take a (wd_procs x) @ drop (Suc a) (wd_procs x)\<rparr>)"
| recovers: "now \<le> wd_now x \<Longrightarrow> qb_recover_expired B e n now (wd_db x) = Inr (ids, s')
    \<Longrightarrow> world_step B W D accept client x (x\<lparr>wd_db := s'\<rparr>)"
| client_writes: "client (wd_db x) s' \<Longrightarrow> world_step B W D accept client x (x\<lparr>wd_db := s'\<rparr>)"

section \<open>The invariant\<close>

definition pending_ids :: "process \<Rightarrow> uuid set" where
  "pending_ids p = (case pr_claim p of None \<Rightarrow> {}
     | Some c \<Rightarrow> (case cc_out c of Some (Inr (Some cl)) \<Rightarrow> claimed_ids cl | _ \<Rightarrow> {}))"

text \<open>The rows a process works on, or will work on as soon as its claim returns.\<close>

definition mine :: "process \<Rightarrow> uuid set" where
  "mine p = active_ids (pr_worker p) \<union> pending_ids p"

definition proc_base :: "queue_backend \<Rightarrow> rat \<Rightarrow> rat \<Rightarrow> ts \<Rightarrow> process \<Rightarrow> bool" where
  "proc_base B W D t p \<longleftrightarrow> (let w = pr_worker p in
     worker_ok w \<and> config_post_init (w_config w) = Inr () \<and> safe_config W D (w_config w)
     \<and> (\<forall>b\<in>set (w_bindings w). hb_backend b = B)
     \<and> w_last_heartbeat_ok w \<le> total_seconds t \<and> punctual W D t p
     \<and> active_ids w \<inter> pending_ids p = {}
     \<and> (\<forall>c. pr_claim p = Some c \<longrightarrow> cc_now c \<le> t
          \<and> (\<forall>cl. cc_out c = Some (Inr (Some cl)) \<longrightarrow> (\<forall>tb\<in>set cl. snd tb \<in> set (w_bindings w))))
     \<and> (\<forall>c. pr_beat p = Some c \<longrightarrow> bc_now c \<le> t \<and> w_last_heartbeat_ok w \<le> total_seconds (bc_now c)
          \<and> same_worker w (bc_worker c) \<and> worker_ok (bc_worker c)))"

definition proc_slots :: "process \<Rightarrow> bool" where
  "proc_slots p \<longleftrightarrow>
     int (length (w_active (pr_worker p))) + (case pr_claim p of None \<Rightarrow> 0 | Some c \<Rightarrow> cc_limit c) \<le> max_slots (w_config (pr_worker p))
     \<and> (\<forall>c. pr_claim p = Some c \<longrightarrow> 0 \<le> cc_limit c \<and> (\<forall>cl. cc_out c = Some (Inr (Some cl)) \<longrightarrow> int (length cl) \<le> cc_limit c))"

text \<open>
  How long the lease of a row lasts: past the last confirmed heartbeat, past the claim that took it,
  and past the heartbeat that is under way, unless that one will renew it or has failed.
\<close>

definition row_safe :: "rat \<Rightarrow> process \<Rightarrow> rat \<Rightarrow> uuid \<Rightarrow> bool" where
  "row_safe D p till i \<longleftrightarrow> (let w = pr_worker p; L = of_int (wc_lease_seconds (w_config w)) in
     w_last_heartbeat_ok w - 3 * D + L \<le> till
     \<and> (\<forall>c. pr_claim p = Some c \<longrightarrow> i \<in> pending_ids p \<longrightarrow> total_seconds (cc_now c) - D + L \<le> till)
     \<and> (\<forall>c. pr_beat p = Some c \<longrightarrow> bc_out c = None \<and> i \<in> active_ids (bc_worker c)
          \<or> (\<exists>e. bc_out c = Some (Inl e)) \<or> total_seconds (bc_now c) - 2 * D + L \<le> till))"

text \<open>A lease that lasts from every point the process can refer to lasts long enough.\<close>

lemma row_safeI:
  assumes "w_last_heartbeat_ok (pr_worker p) - 3 * D + of_int (wc_lease_seconds (w_config (pr_worker p))) \<le> till"
    and "\<And>c. pr_claim p = Some c \<Longrightarrow> i \<in> pending_ids p \<Longrightarrow> total_seconds (cc_now c) - D + of_int (wc_lease_seconds (w_config (pr_worker p))) \<le> till"
    and "\<And>c. pr_beat p = Some c \<Longrightarrow> bc_out c = None \<and> i \<in> active_ids (bc_worker c) \<or> (\<exists>e. bc_out c = Some (Inl e))
          \<or> total_seconds (bc_now c) - 2 * D + of_int (wc_lease_seconds (w_config (pr_worker p))) \<le> till"
  shows "row_safe D p till i"
  using assms by (auto simp: row_safe_def Let_def)

lemma total_seconds_le: "total_seconds a \<le> total_seconds b \<longleftrightarrow> a \<le> b"
  by (simp add: total_seconds_def divide_le_cancel)

lemma total_seconds_add_seconds: "total_seconds (a + n * second) = total_seconds a + of_int n"
  by (simp add: total_seconds_def second_def add_divide_distrib)

lemma fence_after_pos: "config_post_init c = Inr () \<Longrightarrow> 0 < fence_after c"
  by (auto simp: config_post_init_def fence_after_def FENCE_RATIO_def split: if_splits option.splits)

lemma max_slots_pos: "config_post_init c = Inr () \<Longrightarrow> 1 \<le> max_slots c"
  by (auto simp: config_post_init_def max_slots_def MAX_SLOTS_UNBOUNDED_def split: if_splits option.splits)

lemma worker_backends:
  assumes "worker_ok w" and "\<forall>b\<in>set (w_bindings w). hb_backend b = B"
  shows "\<forall>(i, t, b)\<in>set (w_active w). hb_backend b = B"
  using assms by (fastforce simp: worker_ok_def)

context worker_queue
begin

definition proc_leases :: "rat \<Rightarrow> db \<Rightarrow> process \<Rightarrow> bool" where
  "proc_leases D s p \<longleftrightarrow> (\<forall>i\<in>mine p. lease s i = Held (owner (pr_worker p)) \<and> row_safe D p (total_seconds (expiry s i)) i)"

definition proc_inv :: "rat \<Rightarrow> rat \<Rightarrow> db \<Rightarrow> ts \<Rightarrow> process \<Rightarrow> bool" where
  "proc_inv W D s t p \<longleftrightarrow> proc_base B W D t p \<and> proc_slots p \<and> proc_leases D s p"

definition world_inv :: "rat \<Rightarrow> rat \<Rightarrow> world \<Rightarrow> bool" where
  "world_inv W D x \<longleftrightarrow> inv (wd_db x) \<and> distinct (map (owner \<circ> pr_worker) (wd_procs x))
     \<and> (\<forall>p\<in>set (wd_procs x). proc_inv W D (wd_db x) (wd_now x) p)"

text \<open>A write that leaves the rows of an owner alone does not concern his process.\<close>

lemma proc_inv_frame:
  assumes "proc_inv W D s t p"
    and "\<And>i. lease s i = Held (owner (pr_worker p)) \<Longrightarrow> lease s' i = lease s i \<and> expiry s' i = expiry s i"
  shows "proc_inv W D s' t p"
  using assms by (simp add: proc_inv_def proc_leases_def)

lemma world_inv_put:
  assumes x: "world_inv W D x" and a: "a < length (wd_procs x)" and own: "owner (pr_worker p') = owner (pr_worker (wd_procs x ! a))"
    and s': "inv s'" and p': "proc_inv W D s' (wd_now x) p'"
    and frame: "\<And>i w. lease (wd_db x) i = Held w \<Longrightarrow> w \<noteq> owner (pr_worker p') \<Longrightarrow> lease s' i = Held w \<and> expiry s' i = expiry (wd_db x) i"
  shows "world_inv W D (put_proc a p' (x\<lparr>wd_db := s'\<rparr>))"
proof -
  let ?ps = "wd_procs x"
  have d: "distinct (map (owner \<circ> pr_worker) ?ps)" and all: "\<And>p. p \<in> set ?ps \<Longrightarrow> proc_inv W D (wd_db x) (wd_now x) p"
    using x by (simp_all add: world_inv_def)
  have "map (owner \<circ> pr_worker) (?ps[a := p']) = map (owner \<circ> pr_worker) ?ps"
    using own a by (metis comp_apply list_update_id map_update nth_map)
  moreover have "proc_inv W D s' (wd_now x) q" if "q \<in> set (?ps[a := p'])" for q
  proof -
    obtain b where b: "b < length ?ps" "q = ?ps[a := p'] ! b" using \<open>q \<in> set (?ps[a := p'])\<close> by (auto simp: in_set_conv_nth)
    show ?thesis
    proof (cases "b = a")
      case True
      then show ?thesis using b p' by simp
    next
      case False
      then have "owner (pr_worker (?ps ! b)) \<noteq> owner (pr_worker (?ps ! a))"
        using d a b(1) by (auto simp: distinct_conv_nth)
      then show ?thesis
        using b False frame own by (intro proc_inv_frame [OF all]) auto
    qed
  qed
  ultimately show ?thesis using s' d by (simp add: world_inv_def put_proc_def)
qed

end

context worker_queue
begin

lemma world_proc: "world_inv W D x \<Longrightarrow> a < length (wd_procs x) \<Longrightarrow> proc_inv W D (wd_db x) (wd_now x) (wd_procs x ! a)"
  by (simp add: world_inv_def)

lemma took_held: "took own till ids s s' \<Longrightarrow> lease s i = Held w \<Longrightarrow> i \<notin> ids \<and> lease s' i = Held w \<and> expiry s' i = expiry s i"
  unfolding took_def by (metis lease_state.distinct(7))

lemma world_put_same_db:
  assumes "world_inv W D x" and "a < length (wd_procs x)" and "owner (pr_worker p') = owner (pr_worker (wd_procs x ! a))"
    and "proc_inv W D (wd_db x) (wd_now x) p'"
  shows "world_inv W D (put_proc a p' x)"
  using world_inv_put [OF assms(1-3) _ assms(4)] assms(1) by (simp add: world_inv_def)

lemma time_passes_inv:
  assumes x: "world_inv W D x" and d: "0 \<le> d" and pu: "\<forall>p\<in>set (wd_procs x). punctual W D (wd_now x + d) p"
  shows "world_inv W D (x\<lparr>wd_now := wd_now x + d\<rparr>)"
proof -
  have "proc_base B W D (wd_now x + d) p" if p: "p \<in> set (wd_procs x)" for p
  proof -
    have b: "proc_base B W D (wd_now x) p" using x p by (simp add: world_inv_def proc_inv_def)
    have "w_last_heartbeat_ok (pr_worker p) \<le> total_seconds (wd_now x)" using b by (simp add: proc_base_def Let_def)
    also have "\<dots> \<le> total_seconds (wd_now x + d)" using d by (simp add: total_seconds_le)
    finally show ?thesis using b pu p d by (auto simp: proc_base_def Let_def)
  qed
  then show ?thesis using x by (simp add: world_inv_def proc_inv_def)
qed

lemma joins_inv:
  assumes x: "world_inv W D x" and w: "fresh_worker B (wd_now x) w" "config_post_init (w_config w) = Inr ()" "safe_config W D (w_config w)"
    and new: "owner w \<notin> (owner \<circ> pr_worker) ` set (wd_procs x)" and W: "0 \<le> W"
  shows "world_inv W D (x\<lparr>wd_procs := wd_procs x @ [\<lparr>pr_worker = w, pr_claim = None, pr_beat = None\<rparr>]\<rparr>)"
proof -
  let ?p = "\<lparr>pr_worker = w, pr_claim = None, pr_beat = None\<rparr>"
  have "proc_base B W D (wd_now x) ?p"
    using w fence_after_pos [OF w(2)] W
    by (simp add: proc_base_def fresh_worker_def worker_ok_def active_ids_def punctual_def)
  moreover have "proc_slots ?p" using w(1) max_slots_pos [OF w(2)] by (simp add: proc_slots_def fresh_worker_def)
  moreover have "proc_leases D (wd_db x) ?p" using w(1) by (simp add: proc_leases_def mine_def pending_ids_def active_ids_def fresh_worker_def)
  ultimately show ?thesis using x new by (auto simp: world_inv_def proc_inv_def)
qed

lemma claim_begins_inv:
  assumes x: "world_inv W D x" and a: "a < length (wd_procs x)" and p: "p = wd_procs x ! a" and none: "pr_claim p = None"
    and lim: "0 < claim_limit (pr_worker p)" and D: "0 \<le> D"
  shows "world_inv W D (put_proc a (p\<lparr>pr_claim := Some \<lparr>cc_now = wd_now x, cc_limit = claim_limit (pr_worker p), cc_out = None\<rparr>\<rparr>) x)"
proof (rule world_put_same_db [OF x a])
  let ?p = "p\<lparr>pr_claim := Some \<lparr>cc_now = wd_now x, cc_limit = claim_limit (pr_worker p), cc_out = None\<rparr>\<rparr>"
  show "owner (pr_worker ?p) = owner (pr_worker (wd_procs x ! a))" using p by simp
  have inv: "proc_inv W D (wd_db x) (wd_now x) p" using world_proc [OF x a] p by simp
  have ids: "pending_ids ?p = {}" "mine ?p = active_ids (pr_worker p)" by (simp_all add: pending_ids_def mine_def)
  have "proc_base B W D (wd_now x) ?p"
    using inv D by (simp add: proc_inv_def proc_base_def Let_def ids punctual_def)
  moreover have "proc_slots ?p"
    using lim by (auto simp: proc_slots_def claim_limit_def effective_concurrency_def split: if_splits)
  moreover have "proc_leases D (wd_db x) ?p"
    using inv by (simp add: proc_inv_def proc_leases_def ids row_safe_def Let_def) (simp add: mine_def)
  ultimately show "proc_inv W D (wd_db x) (wd_now x) ?p" by (simp add: proc_inv_def)
qed

lemma claim_commits_inv:
  assumes x: "world_inv W D x" and a: "a < length (wd_procs x)" and p: "p = wd_procs x ! a" and c: "pr_claim p = Some c" "cc_out c = None"
    and tx: "claim_tx fl envs (cc_limit c) (cc_now c) (pr_worker p) (wd_db x) = (r, w', s')" and D: "0 \<le> D"
  shows "world_inv W D (put_proc a (p\<lparr>pr_worker := w', pr_claim := Some (c\<lparr>cc_out := Some r\<rparr>)\<rparr>) (x\<lparr>wd_db := s'\<rparr>))"
proof -
  let ?p = "p\<lparr>pr_worker := w', pr_claim := Some (c\<lparr>cc_out := Some r\<rparr>)\<rparr>" and ?w = "pr_worker p" and ?s = "wd_db x"
  let ?L = "of_int (wc_lease_seconds (w_config ?w)) :: rat"
  have inv: "proc_inv W D ?s (wd_now x) p" using world_proc [OF x a] p by simp
  have base: "proc_base B W D (wd_now x) p" and rows: "proc_leases D ?s p" and slots: "proc_slots p" using inv by (simp_all add: proc_inv_def)
  note w' = claim_tx_worker [OF tx]
  have own: "owner w' = owner ?w" using w' same_owner by blast
  have "inv ?s" using x by (simp add: world_inv_def)
  moreover have B: "\<forall>b\<in>set (w_bindings ?w). hb_backend b = B" using base by (simp add: proc_base_def Let_def)
  ultimately obtain ids where took: "took (owner ?w) (cc_now c + wc_lease_seconds (w_config ?w) * second) ids ?s s'"
    and ids: "\<And>cl. r = Inr (Some cl) \<Longrightarrow> ids = claimed_ids cl \<and> (\<forall>tb\<in>set cl. snd tb \<in> set (w_bindings ?w)) \<and> int (length cl) \<le> max (cc_limit c) 0"
    using claim_tx_law [OF _ _ tx] by meson
  have pend: "pending_ids p = {}" using c by (simp add: pending_ids_def)
  have pend': "pending_ids ?p \<subseteq> ids" using ids by (auto simp: pending_ids_def split: sum.splits option.splits)
  have act: "active_ids w' = active_ids ?w" using w' by (simp add: active_ids_def)
  have held: "lease ?s i = Held (owner ?w)" "row_safe D p (total_seconds (expiry ?s i)) i" if "i \<in> active_ids ?w" for i
    using rows that by (simp_all add: proc_leases_def mine_def)
  have old: "i \<notin> ids \<and> lease s' i = lease ?s i \<and> expiry s' i = expiry ?s i" if "i \<in> active_ids ?w" for i
    using held(1) [OF that] took_held [OF took] by simp
  have cfg: "w_config w' = w_config ?w" "w_last_heartbeat_ok w' = w_last_heartbeat_ok ?w" "w_bindings w' = w_bindings ?w" "w_fenced w' = w_fenced ?w"
    using w' by (simp_all add: same_worker_def)
  have now: "total_seconds (wd_now x) \<le> total_seconds (cc_now c) + D" using base c by (simp add: proc_base_def Let_def punctual_def)
  have base': "proc_base B W D (wd_now x) ?p"
    using base w' c ids pend' old same_worker_trans [of w' ?w] act
    by (auto simp: proc_base_def Let_def cfg punctual_def same_worker_def)
  have slots': "proc_slots ?p" using slots c ids w' by (auto simp: proc_slots_def cfg)
  have rows': "lease s' i = Held (owner w') \<and> row_safe D ?p (total_seconds (expiry s' i)) i" if i: "i \<in> mine ?p" for i
  proof (cases "i \<in> active_ids ?w")
    case True
    then have "i \<notin> pending_ids ?p" using old pend' by blast
    then show ?thesis using held [OF True] old [OF True] own by (auto simp: row_safe_def Let_def cfg)
  next
    case False
    then have "i \<in> ids" using i act pend' by (auto simp: mine_def)
    then have e: "lease s' i = Held (owner ?w)" "total_seconds (expiry s' i) = total_seconds (cc_now c) + ?L"
      using took by (simp_all add: took_def total_seconds_add_seconds)
    have last: "w_last_heartbeat_ok ?w \<le> total_seconds (wd_now x)" using base by (simp add: proc_base_def Let_def)
    have beat: "total_seconds (bc_now b) \<le> total_seconds (wd_now x)" if "pr_beat p = Some b" for b
      using base that by (simp add: proc_base_def Let_def total_seconds_le)
    have "row_safe D ?p (total_seconds (expiry s' i)) i"
    proof (rule row_safeI)
      fix b assume "pr_beat ?p = Some b"
      then have "total_seconds (bc_now b) - 2 * D + ?L \<le> total_seconds (expiry s' i)" using beat [of b] now D e(2) by (simp add: algebra_simps)
      then show "bc_out b = None \<and> i \<in> active_ids (bc_worker b) \<or> (\<exists>e. bc_out b = Some (Inl e))
          \<or> total_seconds (bc_now b) - 2 * D + of_int (wc_lease_seconds (w_config (pr_worker ?p))) \<le> total_seconds (expiry s' i)"
        by (simp add: cfg)
    qed (use last now D e(2) c in \<open>auto simp: cfg\<close>)
    then show ?thesis using e own by simp
  qed
  show ?thesis
    by (rule world_inv_put [OF x a])
      (use base' slots' rows' own took p took_held [OF took] in \<open>simp_all add: proc_inv_def proc_leases_def took_def\<close>)
qed

end

context worker_queue
begin

text \<open>
  The common case: a step that leaves the database and the last confirmed heartbeat alone, and after
  which the process works on no more rows than before.
\<close>

lemma row_safe_mono:
  assumes "row_safe D p till i" and "w_config (pr_worker p') = w_config (pr_worker p)"
    and "w_last_heartbeat_ok (pr_worker p') = w_last_heartbeat_ok (pr_worker p)"
    and "pr_claim p' = None \<or> pr_claim p' = pr_claim p" and "pr_beat p' = None \<or> pr_beat p' = pr_beat p"
  shows "row_safe D p' till i"
proof -
  have "pr_claim p' = pr_claim p \<Longrightarrow> pending_ids p' = pending_ids p" by (simp add: pending_ids_def)
  then show ?thesis using assms unfolding row_safe_def Let_def by (metis option.distinct(1))
qed

lemma proc_leases_mono:
  assumes "proc_leases D s p" and "mine p' \<subseteq> mine p" and "same_worker (pr_worker p) (pr_worker p')"
    and "w_last_heartbeat_ok (pr_worker p') = w_last_heartbeat_ok (pr_worker p)"
    and "pr_claim p' = None \<or> pr_claim p' = pr_claim p" and "pr_beat p' = None \<or> pr_beat p' = pr_beat p"
    and "\<And>i. i \<in> mine p' \<Longrightarrow> lease s' i = lease s i \<and> expiry s' i = expiry s i"
  shows "proc_leases D s' p'"
proof -
  have cfg: "w_config (pr_worker p') = w_config (pr_worker p)" using assms(3) by (simp add: same_worker_def)
  show ?thesis
    using assms(1,2,7) row_safe_mono [OF _ cfg assms(4-6)] same_owner [OF assms(3)] by (auto simp: proc_leases_def subset_iff)
qed

lemma claim_returns_inv:
  assumes x: "world_inv W D x" and a: "a < length (wd_procs x)" and p: "p = wd_procs x ! a" and c: "pr_claim p = Some c" "cc_out c = Some r"
    and ret: "claim_return r (pr_worker p) = (Inr n, w')"
  shows "world_inv W D (put_proc a (p\<lparr>pr_worker := w', pr_claim := None\<rparr>) x)"
proof (rule world_put_same_db [OF x a])
  let ?p = "p\<lparr>pr_worker := w', pr_claim := None\<rparr>" and ?w = "pr_worker p"
  have base: "proc_base B W D (wd_now x) p" and rows: "proc_leases D (wd_db x) p" and slots: "proc_slots p"
    using world_proc [OF x a] p by (simp_all add: proc_inv_def)
  have "\<And>cl. r = Inr (Some cl) \<Longrightarrow> \<forall>tb\<in>set cl. snd tb \<in> set (w_bindings ?w)" "worker_ok ?w"
    using base c by (auto simp: proc_base_def Let_def)
  note w' = claim_return_facts [OF ret this(2,1)]
  have cfg: "w_config w' = w_config ?w" "w_last_heartbeat_ok w' = w_last_heartbeat_ok ?w" "w_bindings w' = w_bindings ?w" "w_fenced w' = w_fenced ?w"
    "w_instance_id w' = w_instance_id ?w"
    using w' by (simp_all add: same_worker_def)
  show own: "owner (pr_worker ?p) = owner (pr_worker (wd_procs x ! a))" using p by (simp add: owner_def cfg)
  have sub: "mine ?p \<subseteq> mine p"
    using w' c by (auto simp: mine_def pending_ids_def active_ids_def split: sum.splits option.splits if_splits)
  have "proc_base B W D (wd_now x) ?p"
    using base w' by (auto simp: proc_base_def Let_def cfg punctual_def pending_ids_def same_worker_def)
  moreover have "proc_slots ?p"
    using slots c w' by (cases r) (auto simp: proc_slots_def cfg split: option.splits)
  moreover have "proc_leases D (wd_db x) ?p"
    by (rule proc_leases_mono [OF rows sub]) (use w' in simp_all)
  ultimately show "proc_inv W D (wd_db x) (wd_now x) ?p" by (simp add: proc_inv_def)
qed

lemma beat_begins_inv:
  assumes x: "world_inv W D x" and a: "a < length (wd_procs x)" and p: "p = wd_procs x ! a" and none: "pr_beat p = None" and D: "0 \<le> D"
  shows "world_inv W D (put_proc a (p\<lparr>pr_beat := Some \<lparr>bc_now = wd_now x, bc_worker = pr_worker p, bc_out = None\<rparr>\<rparr>) x)"
proof (rule world_put_same_db [OF x a])
  let ?p = "p\<lparr>pr_beat := Some \<lparr>bc_now = wd_now x, bc_worker = pr_worker p, bc_out = None\<rparr>\<rparr>"
  show own: "owner (pr_worker ?p) = owner (pr_worker (wd_procs x ! a))" using p by simp
  have base: "proc_base B W D (wd_now x) p" and rows: "proc_leases D (wd_db x) p" and slots: "proc_slots p"
    using world_proc [OF x a] p by (simp_all add: proc_inv_def)
  have ids: "pending_ids ?p = pending_ids p" "mine ?p = mine p" by (simp_all add: pending_ids_def mine_def)
  have "proc_base B W D (wd_now x) ?p" using base D by (simp add: proc_base_def Let_def ids punctual_def)
  moreover have "proc_slots ?p" using slots by (simp add: proc_slots_def)
  moreover have "row_safe D ?p till i" if r: "row_safe D p till i" and i: "i \<in> mine p" for till i
  proof (cases "i \<in> active_ids (pr_worker p)")
    case True
    then show ?thesis using r by (simp add: row_safe_def Let_def ids)
  next
    case False
    then obtain c where c: "pr_claim p = Some c" "i \<in> pending_ids p"
      using i by (auto simp: mine_def pending_ids_def split: option.splits)
    then have "total_seconds (wd_now x) \<le> total_seconds (cc_now c) + D" using base by (simp add: proc_base_def Let_def punctual_def)
    then show ?thesis using r c by (simp add: row_safe_def Let_def ids)
  qed
  ultimately show "proc_inv W D (wd_db x) (wd_now x) ?p" using rows ids by (simp add: proc_inv_def proc_leases_def)
qed

lemma beat_commits_inv:
  assumes x: "world_inv W D x" and a: "a < length (wd_procs x)" and p: "p = wd_procs x ! a" and c: "pr_beat p = Some c" "bc_out c = None"
    and tx: "transaction fl (beat_body e (bc_now c) (bc_worker c)) (wd_db x) = (r, s')" and D: "0 \<le> D"
  shows "world_inv W D (put_proc a (p\<lparr>pr_beat := Some (c\<lparr>bc_out := Some r\<rparr>)\<rparr>) (x\<lparr>wd_db := s'\<rparr>))"
proof -
  let ?p = "p\<lparr>pr_beat := Some (c\<lparr>bc_out := Some r\<rparr>)\<rparr>" and ?w = "pr_worker p" and ?s = "wd_db x"
  let ?L = "of_int (wc_lease_seconds (w_config ?w)) :: rat"
  have base: "proc_base B W D (wd_now x) p" and rows: "proc_leases D ?s p" and slots: "proc_slots p"
    using world_proc [OF x a] p by (simp_all add: proc_inv_def)
  have inv: "inv ?s" using x by (simp add: world_inv_def)
  have bw: "owner (bc_worker c) = owner ?w" "w_config (bc_worker c) = w_config ?w" "worker_ok (bc_worker c)"
      "\<forall>b\<in>set (w_bindings (bc_worker c)). hb_backend b = B"
    using base c by (auto simp: proc_base_def Let_def same_worker_def owner_def)
  have ids: "pending_ids ?p = pending_ids p" "mine ?p = mine p" by (simp_all add: pending_ids_def mine_def)
  have base': "proc_base B W D (wd_now x) ?p" using base c by (simp add: proc_base_def Let_def ids punctual_def)
  have slots': "proc_slots ?p" using slots by (simp add: proc_slots_def)
  have law: "inv s' \<and> (\<forall>i. lease s' i = lease ?s i \<and> (expiry s' i = expiry ?s i \<or>
      lease ?s i = Held (owner ?w) \<and> expiry s' i = bc_now c + wc_lease_seconds (w_config ?w) * second))
      \<and> ((\<exists>e. r = Inl e) \<or> (\<forall>i. i \<in> active_ids (bc_worker c) \<and> lease ?s i = Held (owner ?w) \<longrightarrow>
          expiry s' i = bc_now c + wc_lease_seconds (w_config ?w) * second))"
    using tx
  proof (cases rule: transaction_cases)
    case 1
    then show ?thesis using inv by simp
  next
    case (2 res)
    then show ?thesis using beat_body_law [OF inv worker_backends [OF bw(3,4)] 2(1)] bw(1,2) by auto
  qed
  have rows': "lease s' i = Held (owner ?w) \<and> row_safe D ?p (total_seconds (expiry s' i)) i" if i: "i \<in> mine p" for i
  proof (cases "expiry s' i = bc_now c + wc_lease_seconds (w_config ?w) * second")
    case True
    then have e: "total_seconds (expiry s' i) = total_seconds (bc_now c) + ?L" by (simp add: total_seconds_add_seconds)
    have "w_last_heartbeat_ok ?w \<le> total_seconds (bc_now c)" "total_seconds (wd_now x) \<le> total_seconds (bc_now c) + D"
      using base c by (simp_all add: proc_base_def Let_def punctual_def)
    moreover have "total_seconds (cc_now d) \<le> total_seconds (wd_now x)" if "pr_claim p = Some d" for d
      using base that by (simp add: proc_base_def Let_def total_seconds_le)
    ultimately have "row_safe D ?p (total_seconds (expiry s' i)) i"
      using D e by (intro row_safeI) (fastforce simp: ids)+
    then show ?thesis using law rows i by (simp add: proc_leases_def)
  next
    case False
    then have "expiry s' i = expiry ?s i" "lease s' i = lease ?s i" "(\<exists>e. r = Inl e) \<or> i \<notin> active_ids (bc_worker c)"
      using law rows i by (auto simp: proc_leases_def)
    then show ?thesis using rows i c by (auto simp: proc_leases_def row_safe_def Let_def ids)
  qed
  show ?thesis
    by (rule world_inv_put [OF x a]) (use base' slots' rows' law p ids in \<open>auto simp: proc_inv_def proc_leases_def\<close>)
qed

end

text \<open>A step that lets the process work on fewer rows keeps its base invariant.\<close>

lemma proc_base_mono:
  assumes base: "proc_base B W D t p" and "worker_ok (pr_worker p')" and same: "same_worker (pr_worker p) (pr_worker p')"
    and act: "active_ids (pr_worker p') \<subseteq> active_ids (pr_worker p)" and claim: "pr_claim p' = pr_claim p"
    and beat: "pr_beat p' = None \<or> pr_beat p' = pr_beat p \<and> w_last_heartbeat_ok (pr_worker p') = w_last_heartbeat_ok (pr_worker p)"
    and "w_last_heartbeat_ok (pr_worker p') \<le> total_seconds t" and "punctual W D t p'"
  shows "proc_base B W D t p'"
proof -
  have cfg: "w_config (pr_worker p') = w_config (pr_worker p)" "w_bindings (pr_worker p') = w_bindings (pr_worker p)"
    "same_worker (pr_worker p') v = same_worker (pr_worker p) v" for v
    using same by (simp_all add: same_worker_def)
  have pend: "pending_ids p' = pending_ids p" using claim by (simp add: pending_ids_def)
  have "active_ids (pr_worker p') \<inter> pending_ids p' = {}" using base act by (auto simp: proc_base_def Let_def pend)
  moreover have "\<forall>c. pr_beat p' = Some c \<longrightarrow> bc_now c \<le> t \<and> w_last_heartbeat_ok (pr_worker p') \<le> total_seconds (bc_now c)
      \<and> same_worker (pr_worker p') (bc_worker c) \<and> worker_ok (bc_worker c)"
    using base beat by (simp add: proc_base_def Let_def cfg) (elim disjE, simp_all)
  ultimately show ?thesis using base assms(2,7,8) by (simp add: proc_base_def Let_def cfg claim)
qed

context worker_queue
begin

lemma beat_returns_inv:
  assumes x: "world_inv W D x" and a: "a < length (wd_procs x)" and p: "p = wd_procs x ! a" and c: "pr_beat p = Some c" "bc_out c = Some r"
    and ret: "beat_return r (total_seconds (wd_now x)) st (pr_worker p) (wd_db x) = (Inr (), w', s')" and W: "0 \<le> W"
  shows "world_inv W D (put_proc a (p\<lparr>pr_worker := w', pr_beat := None\<rparr>) (x\<lparr>wd_db := s'\<rparr>))"
proof -
  let ?p = "p\<lparr>pr_worker := w', pr_beat := None\<rparr>" and ?w = "pr_worker p" and ?s = "wd_db x"
  have base: "proc_base B W D (wd_now x) p" and rows: "proc_leases D ?s p" and slots: "proc_slots p"
    using world_proc [OF x a] p by (simp_all add: proc_inv_def)
  have "worker_ok ?w" using base by (simp add: proc_base_def Let_def)
  note facts = beat_return_facts [OF ret this]
  then obtain y where s': "s' = ?s\<lparr>worker_instances := y\<rparr>" by blast
  have sw: "same_worker ?w w'" using facts by blast
  have w': "worker_ok w'" "length (w_active w') \<le> length (w_active ?w)"
    "case r of Inl _ \<Rightarrow> w_last_heartbeat_ok w' = w_last_heartbeat_ok ?w
            \<and> (w_active w' = w_active ?w \<and> w_fenced w' = w_fenced ?w \<or> w_active w' = [] \<and> w_fenced w')
        | Inr res \<Rightarrow> w_last_heartbeat_ok w' = total_seconds (wd_now x) \<and> \<not> w_fenced w' \<and> active_ids w' = active_ids ?w - set (tk_lost res)"
    using facts by blast+
  have same: "lease s' = lease ?s" "expiry s' = expiry ?s" "inv s' = inv ?s"
    by (simp_all add: s' lease_instances expiry_instances inv_instances)
  have cfg: "w_config w' = w_config ?w" "w_bindings w' = w_bindings ?w" "owner w' = owner ?w"
    using sw same_owner [OF sw] by (simp_all add: same_worker_def)
  have act: "active_ids w' \<subseteq> active_ids ?w" using w' by (cases r) (auto simp: active_ids_def)
  have sub: "mine ?p \<subseteq> mine p" using act by (auto simp: mine_def pending_ids_def)
  have F: "0 \<le> fence_after (w_config ?w) + W"
    using base W fence_after_pos [of "w_config ?w"] by (simp add: proc_base_def Let_def)
  have pend: "pending_ids ?p = pending_ids p" by (simp add: pending_ids_def)
  have last: "w_last_heartbeat_ok w' \<le> total_seconds (wd_now x)"
    using w' base by (cases r) (simp_all add: proc_base_def Let_def)
  have pu: "punctual W D (wd_now x) ?p"
    using w' base F by (cases r) (auto simp: proc_base_def Let_def punctual_def cfg)
  have base': "proc_base B W D (wd_now x) ?p"
    by (rule proc_base_mono [OF base]) (use sw w' act last pu in simp_all)
  have slots': "proc_slots ?p" using slots w' by (auto simp: proc_slots_def cfg)
  have rows': "proc_leases D s' ?p"
  proof (cases r)
    case (Inl e)
    show ?thesis by (rule proc_leases_mono [OF rows sub]) (use sw w' Inl same in simp_all)
  next
    case (Inr res)
    have now: "total_seconds (wd_now x) \<le> total_seconds (bc_now c) + D" using base c by (simp add: proc_base_def Let_def punctual_def)
    have "row_safe D ?p till i" if "row_safe D p till i" for till i
      using that c Inr now w' by (auto simp: row_safe_def Let_def cfg pend)
    then show ?thesis using rows sub by (auto simp: proc_leases_def same cfg subset_iff)
  qed
  show ?thesis
    by (rule world_inv_put [OF x a]) (use base' slots' rows' same cfg p x in \<open>simp_all add: proc_inv_def world_inv_def\<close>)
qed

text \<open>The watchdog, and a heartbeat cut off by its budget.\<close>

lemma fences_inv:
  assumes x: "world_inv W D x" and a: "a < length (wd_procs x)" and p: "p = wd_procs x ! a"
    and p': "p' = p\<lparr>pr_worker := fence_if_lease_unconfirmed mt (pr_worker p)\<rparr>
      \<or> p' = p\<lparr>pr_worker := fence_if_lease_unconfirmed mt (pr_worker p), pr_beat := None\<rparr>"
  shows "world_inv W D (put_proc a p' x)"
proof (rule world_put_same_db [OF x a])
  let ?w = "pr_worker p" and ?w' = "fence_if_lease_unconfirmed mt (pr_worker p)"
  have base: "proc_base B W D (wd_now x) p" and rows: "proc_leases D (wd_db x) p" and slots: "proc_slots p"
    using world_proc [OF x a] p by (simp_all add: proc_inv_def)
  have "worker_ok ?w" using base by (simp add: proc_base_def Let_def)
  note w' = fence_facts [OF this, of mt]
  have pr: "pr_worker p' = ?w'" "pr_claim p' = pr_claim p" "pr_beat p' = None \<or> pr_beat p' = pr_beat p" using p' by auto
  have cfg: "w_config ?w' = w_config ?w" "w_bindings ?w' = w_bindings ?w" using w' by (auto simp: same_worker_def)
  have act: "active_ids ?w' \<subseteq> active_ids ?w" using w' by (auto simp: active_ids_def)
  have pend: "pending_ids p' = pending_ids p" by (simp add: pending_ids_def pr)
  have sub: "mine p' \<subseteq> mine p" using act by (auto simp: mine_def pend pr)
  show "owner (pr_worker p') = owner (pr_worker (wd_procs x ! a))" using w' same_owner p by (auto simp: pr)
  have pu: "punctual W D (wd_now x) p'"
    using w' base pr(3) by (auto simp: proc_base_def Let_def punctual_def cfg pr(1,2))
  have last: "w_last_heartbeat_ok ?w' \<le> total_seconds (wd_now x)" using w' base by (simp add: proc_base_def Let_def)
  have "proc_base B W D (wd_now x) p'"
    by (rule proc_base_mono [OF base]) (use w' act pu pr last in auto)
  moreover have "proc_slots p'" using slots w' by (auto simp: proc_slots_def cfg pr(1,2))
  moreover have "proc_leases D (wd_db x) p'"
    by (rule proc_leases_mono [OF rows sub]) (use w' pr in simp_all)
  ultimately show "proc_inv W D (wd_db x) (wd_now x) p'" by (simp add: proc_inv_def)
qed

lemma task_ends_inv:
  assumes x: "world_inv W D x" and a: "a < length (wd_procs x)" and p: "p = wd_procs x ! a" and t: "(i, t, b) \<in> set (w_active (pr_worker p))"
    and ex: "execute fl e t b h message now (pr_worker p) (wd_db x) = (r, w', s')"
  shows "world_inv W D (put_proc a (p\<lparr>pr_worker := w'\<rparr>) (x\<lparr>wd_db := s'\<rparr>))"
proof -
  let ?p = "p\<lparr>pr_worker := w'\<rparr>" and ?w = "pr_worker p" and ?s = "wd_db x"
  have base: "proc_base B W D (wd_now x) p" and rows: "proc_leases D ?s p" and slots: "proc_slots p"
    using world_proc [OF x a] p by (simp_all add: proc_inv_def)
  have ok: "worker_ok ?w" "\<forall>b\<in>set (w_bindings ?w). hb_backend b = B" using base by (simp_all add: proc_base_def Let_def)
  then have tb: "tk_job_id t = i" "hb_backend b = B" using t by (auto simp: worker_ok_def)
  have "inv ?s" using x by (simp add: world_inv_def)
  note law = execute_law [OF this tb(2) ok(1) ex]
  have w': "lighter ?w w'" "active_ids w' = active_ids ?w - {i}" using law tb by simp_all
  have cfg: "w_config w' = w_config ?w" "w_bindings w' = w_bindings ?w" "w_last_heartbeat_ok w' = w_last_heartbeat_ok ?w" "w_fenced w' = w_fenced ?w"
    "w_instance_id w' = w_instance_id ?w"
    using w' by (auto simp: lighter_def same_worker_def)
  have pend: "pending_ids ?p = pending_ids p" by (simp add: pending_ids_def)
  have "i \<in> active_ids ?w" using t by (force simp: active_ids_def)
  then have new: "i \<notin> pending_ids p" using base by (auto simp: proc_base_def Let_def)
  have sub: "mine ?p \<subseteq> mine p - {i}" using w' new by (auto simp: mine_def pend)
  have base': "proc_base B W D (wd_now x) ?p"
  proof (rule proc_base_mono [OF base])
    show "worker_ok (pr_worker ?p)" "same_worker ?w (pr_worker ?p)" using w' ok by (simp_all add: lighter_def)
    show "punctual W D (wd_now x) ?p" using base by (simp add: proc_base_def Let_def punctual_def cfg)
  qed (use w' base in \<open>simp_all add: proc_base_def Let_def cfg\<close>)
  have slots': "proc_slots ?p" using slots w' by (auto simp: proc_slots_def cfg lighter_def)
  have "proc_leases D s' ?p"
  proof (rule proc_leases_mono [OF rows])
    show "mine ?p \<subseteq> mine p" using sub by blast
    show "lease s' j = lease ?s j \<and> expiry s' j = expiry ?s j" if "j \<in> mine ?p" for j using that sub law tb(1) by blast
  qed (use w' in \<open>simp_all add: lighter_def\<close>)
  moreover have "lease s' j = Held v \<and> expiry s' j = expiry ?s j" if "lease ?s j = Held v" "v \<noteq> owner ?w" for j v
    using law that tb by (cases "j = i") auto
  ultimately show ?thesis
    using law base' slots' p cfg by (intro world_inv_put [OF x a]) (simp_all add: proc_inv_def owner_def)
qed

end

context worker_queue
begin

lemma set_remove_nth: "set (take a xs @ drop (Suc a) xs) \<subseteq> set xs"
  using set_take_subset [of a xs] set_drop_subset [of "Suc a" xs] by auto

lemma leaves_inv:
  assumes x: "world_inv W D x" and a: "a < length (wd_procs x)" and s': "inv s'"
    and frame: "\<And>i w. lease (wd_db x) i = Held w \<Longrightarrow> w \<noteq> owner (pr_worker (wd_procs x ! a)) \<Longrightarrow> lease s' i = Held w \<and> expiry s' i = expiry (wd_db x) i"
  shows "world_inv W D (x\<lparr>wd_db := s', wd_procs := take a (wd_procs x) @ drop (Suc a) (wd_procs x)\<rparr>)"
proof -
  let ?ps = "wd_procs x" and ?f = "owner \<circ> pr_worker"
  have d: "distinct (map ?f ?ps)" using x by (simp add: world_inv_def)
  have ps: "?ps = take a ?ps @ ?ps ! a # drop (Suc a) ?ps" using a by (rule id_take_nth_drop)
  then have split: "map ?f ?ps = map ?f (take a ?ps) @ ?f (?ps ! a) # map ?f (drop (Suc a) ?ps)"
    by (metis list.simps(9) map_append)
  have other: "?f q \<noteq> ?f (?ps ! a)" if "q \<in> set (take a ?ps @ drop (Suc a) ?ps)" for q
    using d that unfolding split by (auto dest: imageI [where f = ?f])
  have "proc_inv W D s' (wd_now x) q" if q: "q \<in> set (take a ?ps @ drop (Suc a) ?ps)" for q
  proof (rule proc_inv_frame)
    show "proc_inv W D (wd_db x) (wd_now x) q" using x q set_remove_nth [of a ?ps] by (auto simp: world_inv_def)
    show "lease s' i = lease (wd_db x) i \<and> expiry s' i = expiry (wd_db x) i" if "lease (wd_db x) i = Held (owner (pr_worker q))" for i
      using frame [OF that] other [OF q] that by simp
  qed
  moreover have "distinct (map ?f (take a ?ps @ drop (Suc a) ?ps))" using d unfolding split by simp
  ultimately show ?thesis using s' by (simp add: world_inv_def)
qed

text \<open>The heart of the matter: maintenance cannot free a row that a process works on.\<close>

lemma mine_unexpired:
  assumes p: "proc_inv W D s t p" and i: "i \<in> mine p" and D: "0 \<le> D" and W: "0 \<le> W"
  shows "lease s i = Held (owner (pr_worker p)) \<and> t < expiry s i"
proof -
  let ?w = "pr_worker p"
  have base: "proc_base B W D t p" and r: "row_safe D p (total_seconds (expiry s i)) i" "lease s i = Held (owner ?w)"
    using p i by (auto simp: proc_inv_def proc_leases_def)
  have safe: "fence_after (w_config ?w) + W + 3 * D < of_int (wc_lease_seconds (w_config ?w))" "0 < fence_after (w_config ?w)"
    using base fence_after_pos by (auto simp: proc_base_def Let_def safe_config_def)
  have "total_seconds t < total_seconds (expiry s i)"
  proof (cases "i \<in> pending_ids p")
    case True
    then obtain c where c: "pr_claim p = Some c" by (auto simp: pending_ids_def split: option.splits)
    then have "total_seconds t \<le> total_seconds (cc_now c) + D" using base by (simp add: proc_base_def Let_def punctual_def)
    then show ?thesis using r(1) c True safe D W by (auto simp: row_safe_def Let_def)
  next
    case False
    then have "w_active ?w \<noteq> []" using i by (auto simp: mine_def active_ids_def)
    then have "\<not> w_fenced ?w" using base by (auto simp: proc_base_def Let_def worker_ok_def)
    then have "total_seconds t \<le> w_last_heartbeat_ok ?w + fence_after (w_config ?w) + W"
      using base by (simp add: proc_base_def Let_def punctual_def)
    then show ?thesis using r(1) safe by (auto simp: row_safe_def Let_def)
  qed
  then show ?thesis using r(2) total_seconds_le [of "expiry s i" t] by linarith
qed

lemma recovers_inv:
  assumes x: "world_inv W D x" and n: "now \<le> wd_now x" and rec: "qb_recover_expired B e k now (wd_db x) = Inr (ids, s')"
    and D: "0 \<le> D" and W: "0 \<le> W"
  shows "world_inv W D (x\<lparr>wd_db := s'\<rparr>)"
proof -
  have inv: "inv (wd_db x)" using x by (simp add: world_inv_def)
  have law: "inv s'" "\<And>i. if i \<in> set ids then (\<exists>w. lease (wd_db x) i = Held w) \<and> expiry (wd_db x) i \<le> now \<and> lease s' i = Free
      else lease s' i = lease (wd_db x) i \<and> expiry s' i = expiry (wd_db x) i"
    using recover_law [OF inv rec] by blast+
  have "proc_inv W D s' (wd_now x) p" if "p \<in> set (wd_procs x)" for p
  proof -
    have p: "proc_inv W D (wd_db x) (wd_now x) p" using x that by (simp add: world_inv_def)
    have "lease s' i = lease (wd_db x) i \<and> expiry s' i = expiry (wd_db x) i" if "i \<in> mine p" for i
      using mine_unexpired [OF p that D W] law(2) [of i] n by (auto split: if_splits)
    then show ?thesis using p by (simp add: proc_inv_def proc_leases_def)
  qed
  then show ?thesis using x law(1) by (simp add: world_inv_def)
qed

lemma world_step_inv:
  assumes x: "world_inv W D x" and step: "world_step B W D accept client x y" and D: "0 \<le> D" and W: "0 \<le> W"
    and accept: "\<And>c. accept c \<Longrightarrow> safe_config W D c"
    and client: "\<And>s s'. inv s \<Longrightarrow> client s s' \<Longrightarrow> inv s' \<and> (\<forall>i w. lease s i = Held w \<longrightarrow> lease s' i = Held w \<and> expiry s' i = expiry s i)"
  shows "world_inv W D y"
  using step
proof cases
  case (drains a p pending env fl now r w' s')
  have p: "proc_inv W D (wd_db x) (wd_now x) p" using world_proc [OF x] drains by simp
  have "inv (wd_db x)" using x by (simp add: world_inv_def)
  moreover have "\<forall>(i, t, b)\<in>set (w_active (pr_worker p)). hb_backend b = B"
    using p by (intro worker_backends) (simp_all add: proc_inv_def proc_base_def Let_def)
  ultimately have "inv s' \<and> (\<forall>j. lease (wd_db x) j \<noteq> Held (owner (pr_worker p)) \<longrightarrow> lease s' j = lease (wd_db x) j \<and> expiry s' j = expiry (wd_db x) j)"
    using drain_end_law drains by blast
  then show ?thesis unfolding drains(1) by (intro leaves_inv [OF x]) (use drains in auto)
next
  case (dies a)
  have "world_inv W D (x\<lparr>wd_db := wd_db x, wd_procs := take a (wd_procs x) @ drop (Suc a) (wd_procs x)\<rparr>)"
    by (rule leaves_inv [OF x]) (use dies x in \<open>simp_all add: world_inv_def\<close>)
  then show ?thesis using dies by simp
next
  case (client_writes s')
  have "inv (wd_db x)" using x by (simp add: world_inv_def)
  note c = client [OF this client_writes(2)]
  have "proc_inv W D s' (wd_now x) p" if "p \<in> set (wd_procs x)" for p
    by (rule proc_inv_frame [where s = "wd_db x"]) (use x that c in \<open>auto simp: world_inv_def\<close>)
  then show ?thesis using x c client_writes by (simp add: world_inv_def)
qed (use x D W accept in \<open>auto intro: time_passes_inv joins_inv claim_begins_inv claim_commits_inv claim_returns_inv beat_begins_inv
      beat_commits_inv beat_returns_inv fences_inv task_ends_inv recovers_inv\<close>)

lemma worlds_inv:
  assumes run: "(world_step B W D accept client)\<^sup>*\<^sup>* x y" and x: "inv (wd_db x)" "wd_procs x = []" and "0 \<le> D" "0 \<le> W"
    and "\<And>c. accept c \<Longrightarrow> safe_config W D c"
    and "\<And>s s'. inv s \<Longrightarrow> client s s' \<Longrightarrow> inv s' \<and> (\<forall>i w. lease s i = Held w \<longrightarrow> lease s' i = Held w \<and> expiry s' i = expiry s i)"
  shows "world_inv W D y"
  using run
proof induction
  case base
  then show ?case using x by (simp add: world_inv_def)
next
  case (step y z)
  then show ?case using world_step_inv [OF _ step.hyps(2)] assms(4-7) by blast
qed

text \<open>A task that runs holds an unexpired lease of its process, so it runs nowhere else.\<close>

lemma running_tasks_are_leased:
  assumes x: "world_inv W D x" and a: "a < length (wd_procs x)" and i: "i \<in> active_ids (pr_worker (wd_procs x ! a))"
    and "0 \<le> D" and "0 \<le> W"
  shows "lease (wd_db x) i = Held (owner (pr_worker (wd_procs x ! a))) \<and> wd_now x < expiry (wd_db x) i
     \<and> (\<forall>b<length (wd_procs x). i \<in> active_ids (pr_worker (wd_procs x ! b)) \<longrightarrow> b = a)"
proof -
  have held: "lease (wd_db x) i = Held (owner (pr_worker (wd_procs x ! b))) \<and> wd_now x < expiry (wd_db x) i"
    if "b < length (wd_procs x)" "i \<in> active_ids (pr_worker (wd_procs x ! b))" for b
    by (rule mine_unexpired [OF world_proc [OF x that(1)]]) (use that assms(4,5) in \<open>simp_all add: mine_def\<close>)
  have "distinct (map (owner \<circ> pr_worker) (wd_procs x))" using x by (simp add: world_inv_def)
  then show ?thesis using held [OF a i] held a by (auto simp: distinct_conv_nth)
qed

lemma workers_are_well_formed:
  assumes "world_inv W D x" and "p \<in> set (wd_procs x)"
  shows "worker_ok (pr_worker p) \<and> int (length (w_active (pr_worker p))) \<le> max_slots (w_config (pr_worker p))"
proof -
  have "proc_base B W D (wd_now x) p" "proc_slots p" using assms by (simp_all add: world_inv_def proc_inv_def)
  then show ?thesis by (auto simp: proc_base_def Let_def proc_slots_def split: option.splits)
qed

end

section \<open>A job runs in one process\<close>

definition respects_leases ::
  "(db \<Rightarrow> bool) \<Rightarrow> (db \<Rightarrow> uuid \<Rightarrow> lease_state) \<Rightarrow> (db \<Rightarrow> uuid \<Rightarrow> ts) \<Rightarrow> (db \<Rightarrow> db \<Rightarrow> bool) \<Rightarrow> bool" where
  "respects_leases ok lease expiry client \<longleftrightarrow> (\<forall>s s'. ok s \<longrightarrow> client s s' \<longrightarrow>
     ok s' \<and> (\<forall>i w. lease s i = Held w \<longrightarrow> lease s' i = Held w \<and> expiry s' i = expiry s i))"

text \<open>Producers respect the leases: \<open>enqueue\<close> adds a row or returns the one there is.\<close>

definition enqueues :: "db \<Rightarrow> db \<Rightarrow> bool" where
  "enqueues s s' \<longleftrightarrow> (\<exists>i n v job c now r. enqueue i n v job c now s = Inr (r, s'))"

lemma enqueues_respect_leases: "respects_leases queue_inv job_lease job_expiry enqueues"
proof -
  have "queue_inv s' \<and> (\<forall>k w. job_lease s k = Held w \<longrightarrow> job_lease s' k = Held w \<and> job_expiry s' k = job_expiry s k)"
    if inv: "queue_inv s" and e: "enqueue i n v job c now s = Inr (r, s')" for s s' i n v job c now r
  proof -
    have "s' = s \<or> (\<exists>row. s' = s\<lparr>crawl_jobs := crawl_jobs s @ [row]\<rparr>)"
      using e by (auto simp: enqueue_def Let_def split: if_splits option.splits sum.splits)
    then have "get_job k s' = Some j" if "get_job k s = Some j" for k j
      using that by (auto simp: get_job_def find_snoc)
    moreover have "\<exists>j. get_job k s = Some j" if "job_lease s k = Held w" for k w
      using that by (auto simp: job_lease_def split: option.splits)
    ultimately have "get_job k s' = get_job k s" if "job_lease s k = Held w" for k w using that by fastforce
    then show ?thesis using enqueue_inv [OF inv e] by (auto simp: job_lease_def job_expiry_def)
  qed
  then show ?thesis unfolding respects_leases_def enqueues_def by blast
qed

section \<open>A concrete run\<close>

definition demo_start :: world where
  "demo_start = \<lparr>wd_now = 0, wd_db = demo_store [demo_row] [demo_instance 11, demo_instance 12], wd_procs = []\<rparr>"

text \<open>The claim of a worker without tasks over a queue of one due job.\<close>

lemma demo_claim_tx:
  assumes "job_claimable [] [''fetch''] now j" and "0 < n"
    and x: "get_instance i (demo_store [j] xs) = Some x" "wi_drain_requested_at x = None" "wi_status x = Ready"
  shows "claim_tx NoFault (\<lambda>_. Inr demo_env) n now (demo_worker i t) (demo_store [j] xs)
    = (Inr (Some [(task_from_job (job_leased (uuid_str i) 60 now j), demo_binding)]), demo_worker i t,
       demo_store [job_leased (uuid_str i) 60 now j] xs)"
proof -
  note demo_qb_claim [OF assms(1,2), of "uuid_str i" xs]
  then show ?thesis using assms(2) x
    by (simp add: claim_tx_def claim_allowed_def demo_worker_def new_worker_def demo_binding_def owner_def demo_config_def Let_def)
qed

lemma demo_worker_fresh [simp]:
  "w_fenced (demo_worker i t) = False"
  "w_active (demo_worker i t) = []" "w_last_heartbeat_ok (demo_worker i t) = total_seconds t"
  "fresh_worker CRAWL_JOBS t (demo_worker i t)" "claim_limit (demo_worker i t) = 8"
  by (simp_all add: demo_worker_def new_worker_def owner_def fresh_worker_def demo_binding_def claim_limit_def claiming_def
      effective_concurrency_def default_pool_spec_def pool_spec_of_def demo_config_def max_slots_def)

definition demo_running :: "uuid \<Rightarrow> ts \<Rightarrow> ts \<Rightarrow> crawl_job \<Rightarrow> worker" where
  "demo_running i t now j = start_task (task_from_job (job_leased (uuid_str i) 60 now j), demo_binding) (demo_worker i t)"

lemma demo_claim_return:
  "claim_return (Inr (Some [(task_from_job (job_leased (uuid_str i) 60 now j), demo_binding)])) (demo_worker i t) = (Inr 1, demo_running i t now j)"
proof -
  have "(demo_worker i t)\<lparr>w_claim_failures := 0, w_claim_backoff := 0\<rparr> = demo_worker i t" by (simp add: demo_worker_def new_worker_def)
  then show ?thesis by (simp add: claim_return_def demo_running_def)
qed

lemma demo_running_simps [simp]:
  "w_config (demo_running i t now j) = demo_config" "owner (demo_running i t now j) = uuid_str i" "w_fenced (demo_running i t now j) = False"
  "active_ids (demo_running i t now j) = {j_job_id j}" "w_last_heartbeat_ok (demo_running i t now j) = total_seconds t"
  using start_task_facts [of "demo_worker i t" "(task_from_job (job_leased (uuid_str i) 60 now j), demo_binding)"]
  by (simp_all add: demo_running_def same_worker_def owner_def task_from_job_def job_leased_def active_ids_def)
    (simp_all add: demo_worker_def new_worker_def)

text \<open>A worker joins and takes the job.\<close>

lemma join_and_claim:
  assumes accept: "accept demo_config" and db: "wd_db x = demo_store [j] xs" and j: "job_claimable [] [''fetch''] (wd_now x) j"
    and inst: "get_instance i (demo_store [j] xs) = Some y" "wi_drain_requested_at y = None" "wi_status y = Ready"
    and new: "uuid_str i \<notin> (owner \<circ> pr_worker) ` set (wd_procs x)"
  shows "(world_step CRAWL_JOBS W D accept client)\<^sup>*\<^sup>* x
    (x\<lparr>wd_db := demo_store [job_leased (uuid_str i) 60 (wd_now x) j] xs,
       wd_procs := wd_procs x @ [\<lparr>pr_worker = demo_running i (wd_now x) (wd_now x) j, pr_claim = None, pr_beat = None\<rparr>]\<rparr>)"
proof -
  let ?step = "world_step CRAWL_JOBS W D accept client" and ?n = "length (wd_procs x)" and ?t = "wd_now x"
  let ?w = "demo_worker i ?t" and ?j = "job_leased (uuid_str i) 60 ?t j"
  let ?cl = "[(task_from_job ?j, demo_binding)]"
  let ?at = "\<lambda>p s. x\<lparr>wd_db := s, wd_procs := wd_procs x @ [p]\<rparr>"
  let ?P0 = "\<lparr>pr_worker = ?w, pr_claim = None, pr_beat = None\<rparr>"
  let ?P1 = "\<lparr>pr_worker = ?w, pr_claim = Some \<lparr>cc_now = ?t, cc_limit = 8, cc_out = None\<rparr>, pr_beat = None\<rparr>"
  let ?P2 = "\<lparr>pr_worker = ?w, pr_claim = Some \<lparr>cc_now = ?t, cc_limit = 8, cc_out = Some (Inr (Some ?cl))\<rparr>, pr_beat = None\<rparr>"
  let ?P3 = "\<lparr>pr_worker = demo_running i ?t ?t j, pr_claim = None, pr_beat = None\<rparr>"
  have "?step x (x\<lparr>wd_procs := wd_procs x @ [?P0]\<rparr>)" by (rule joins) (use accept new in simp_all)
  then have 0: "?step x (?at ?P0 (wd_db x))" by simp
  have "?step (?at ?P0 (wd_db x)) (put_proc ?n (?P0\<lparr>pr_claim := Some \<lparr>cc_now = wd_now (?at ?P0 (wd_db x)), cc_limit = claim_limit (pr_worker ?P0), cc_out = None\<rparr>\<rparr>) (?at ?P0 (wd_db x)))"
    by (rule claim_begins) simp_all
  then have 1: "?step (?at ?P0 (wd_db x)) (?at ?P1 (wd_db x))" by (simp add: put_proc_def)
  have "claim_tx NoFault (\<lambda>_. Inr demo_env) 8 ?t ?w (wd_db x) = (Inr (Some ?cl), ?w, demo_store [?j] xs)"
    unfolding db by (rule demo_claim_tx [OF j _ inst]) simp
  then have "?step (?at ?P1 (wd_db x)) (put_proc ?n (?P1\<lparr>pr_worker := ?w, pr_claim := Some (\<lparr>cc_now = ?t, cc_limit = 8, cc_out = None\<rparr>\<lparr>cc_out := Some (Inr (Some ?cl))\<rparr>)\<rparr>)
      ((?at ?P1 (wd_db x))\<lparr>wd_db := demo_store [?j] xs\<rparr>))"
    by (intro claim_commits) simp_all
  then have 2: "?step (?at ?P1 (wd_db x)) (?at ?P2 (demo_store [?j] xs))" by (simp add: put_proc_def)
  have "?step (?at ?P2 (demo_store [?j] xs)) (put_proc ?n (?P2\<lparr>pr_worker := demo_running i ?t ?t j, pr_claim := None\<rparr>) (?at ?P2 (demo_store [?j] xs)))"
    by (rule claim_returns [where c = "\<lparr>cc_now = ?t, cc_limit = 8, cc_out = Some (Inr (Some ?cl))\<rparr>" and r = "Inr (Some ?cl)" and n = 1]) (simp_all add: demo_claim_return)
  then have 3: "?step (?at ?P2 (demo_store [?j] xs)) (?at ?P3 (demo_store [?j] xs))" by (simp add: put_proc_def)
  show ?thesis using 0 1 2 3 by (meson converse_rtranclp_into_rtranclp rtranclp.rtrancl_refl)
qed

definition demo_world :: world where
  "demo_world = demo_start\<lparr>wd_db := demo_store [job_leased (uuid_str 11) 60 0 demo_row] [demo_instance 11, demo_instance 12],
     wd_procs := [\<lparr>pr_worker = demo_running 11 0 0 demo_row, pr_claim = None, pr_beat = None\<rparr>]\<rparr>"

lemma demo_start_inv [simp]: "queue_inv (wd_db demo_start)" "wd_procs demo_start = []"
  by (simp_all add: demo_start_def demo_store_def queue_inv_def demo_row_def crawl_job_checks_def lease_consistent_def letters_match_def
      letters_of_def JOB_ARGS_MAX_BYTES_def)

lemma demo_world_reached:
  assumes "accept demo_config"
  shows "(world_step CRAWL_JOBS W D accept client)\<^sup>*\<^sup>* demo_start demo_world"
  using join_and_claim [of accept demo_start demo_row "[demo_instance 11, demo_instance 12]" 11 "demo_instance 11" W D client] assms
  by (simp add: demo_start_def demo_world_def get_instance_def demo_store_def demo_instance_def)





section \<open>The default configuration leaves a window\<close>

text \<open>
  The configuration an empty environment gives. Its fencing window is half the lease, a statement may
  take as long as the window, and \<open>_last_heartbeat_ok\<close> is the moment of the answer while the lease runs
  from the moment the heartbeat was sent.
\<close>

lemma demo_config_default: "config_from_env to_float to_int None RoleFetch (\<lambda>_. None) = Inr demo_config"
  using demo_config_simps(1) unfolding demo_config_def
  by (simp add: config_from_env_def positive_int_def positive_float_def env_text_def Let_def default_pool_spec_def pool_spec_of_def)

lemma demo_windows: "watchdog_interval demo_config = 15/2" "command_timeout demo_config = 30"
  by (simp_all add: watchdog_interval_def command_timeout_def WATCHDOG_STEPS_def) (simp add: demo_config_def)

definition demo_beaten :: db where
  "demo_beaten = demo_store [job_leased (uuid_str 11) 60 0 demo_row] [instance_beaten (Some 8) 1 1 (Some 0) 0 (demo_instance 11), demo_instance 12]"

definition demo_tick :: tick_outcome where
  "demo_tick = \<lparr>tk_snapshot = \<lparr>sn_desired_concurrency = 8, sn_revision = 0\<rparr>, tk_drain_requested = False, tk_lost = []\<rparr>"

lemma demo_running_fields:
  "w_active (demo_running i t now j) = [(j_job_id j, task_from_job (job_leased (uuid_str i) 60 now j), demo_binding)]"
  "w_instance_id (demo_running i t now j) = i" "w_pool (demo_running i t now j) = \<lparr>sn_desired_concurrency = 8, sn_revision = 0\<rparr>"
  "w_status (demo_running i t now j) = ''ready''" "w_stop (demo_running i t now j) = False" "w_config (demo_running i t now j) = demo_config"
  by (simp_all add: demo_running_def start_task_def Let_def demo_worker_def new_worker_def task_from_job_def job_leased_def default_pool_spec_def
      pool_spec_of_def demo_config_def)

lemma demo_beat:
  "transaction NoFault (beat_body demo_env 0 (demo_running 11 0 0 demo_row)) (wd_db demo_world) = (Inr demo_tick, demo_beaten)"
proof -
  have cfg: "wc_role demo_config = RoleFetch" "max_slots demo_config = 8" by (simp_all add: demo_config_def max_slots_def)
  have h: "qb_heartbeat CRAWL_JOBS demo_env 7 (uuid_str 11) 60 0 demo_beaten = Inr demo_beaten"
    by (simp add: CRAWL_JOBS_def crawl_heartbeat_def heartbeat_def Let_def demo_beaten_def demo_store_def job_owned_def job_leased_def demo_row_def)
  have i: "heartbeat_instance 11 (Some 8) 1 1 (Some 0) 0 (utc 0) (wd_db demo_world)
      = Inr (instance_beaten (Some 8) 1 1 (Some 0) 0 (demo_instance 11), demo_beaten)"
    by (simp add: heartbeat_instance_def lock_instance_def get_instance_def put_instance_def Let_def demo_world_def demo_beaten_def demo_store_def
        demo_instance_def instance_beaten_def worker_instance_checks_def)
  have "get_pool RoleFetch (wd_db demo_world) = None" by (simp add: get_pool_def demo_world_def demo_store_def)
  then show ?thesis
    using h i by (simp add: beat_body_def Let_def cfg demo_running_fields active_backends_def demo_binding_def demo_tick_def instance_beaten_def
        demo_instance_def)
qed

definition demo_confirmed :: worker where
  "demo_confirmed = (demo_running 11 0 0 demo_row)\<lparr>w_heartbeats := 1, w_last_heartbeat_ok := 29\<rparr>"

lemma demo_beat_return:
  "beat_return (Inr demo_tick) 29 (NoFault, 0) (demo_running 11 0 0 demo_row) s = (Inr (), demo_confirmed, s)"
proof -
  have "w_heartbeats (demo_running 11 0 0 demo_row) = 0" "w_drain_barrier (demo_running 11 0 0 demo_row) = False"
    by (simp_all add: demo_running_def start_task_def Let_def demo_worker_def new_worker_def)
  then show ?thesis
    by (simp add: beat_return_def Let_def demo_tick_def demo_confirmed_def unfence_def apply_pool_def apply_drain_barrier_def demo_running_fields
        del: demo_running_simps) (simp add: demo_running_def start_task_def Let_def demo_worker_def new_worker_def demo_config_def
        default_pool_spec_def pool_spec_of_def)
qed

definition demo_recovered :: db where
  "demo_recovered = demo_store [job_recovered (60 * second) (job_leased (uuid_str 11) 60 0 demo_row)]
     [instance_beaten (Some 8) 1 1 (Some 0) 0 (demo_instance 11), demo_instance 12]"

lemma demo_recover: "qb_recover_expired CRAWL_JOBS demo_env 1000 (60 * second) demo_beaten = Inr ([7], demo_recovered)"
  by (simp add: CRAWL_JOBS_def crawl_recover_expired_def recover_expired_leases_def Let_def demo_env_def demo_beaten_def demo_recovered_def
      demo_store_def order_limit_def job_expired_def job_leased_def upd_selected_def demo_row_def)

lemma uuid_str_11_12: "uuid_str 11 \<noteq> uuid_str 12"
proof -
  have "last (uuid_str i) = hex_digit i" for i
  proof -
    have "hex_digits (Suc 11) i = hex_digits 11 (i div 16) @ [hex_digit i]" by (rule hex_digits.simps)
    moreover have "Suc 11 = 12" by simp
    ultimately have "hex_digits 12 i = hex_digits 11 (i div 16) @ [hex_digit i]" by metis
    then show ?thesis unfolding uuid_str_def by (metis append_assoc last_snoc)
  qed
  moreover have "hex_digit 11 \<noteq> hex_digit 12" by (simp add: hex_digit_def HEX_def)
  ultimately show ?thesis by metis
qed

text \<open>The first worker up to the moment its lease is freed: it still runs the job.\<close>

definition demo_late :: world where
  "demo_late = \<lparr>wd_now = 60 * second, wd_db = demo_recovered,
     wd_procs = [\<lparr>pr_worker = demo_confirmed, pr_claim = None, pr_beat = None\<rparr>]\<rparr>"

lemma demo_late_reached:
  "(world_step CRAWL_JOBS (15/2) 30 accept client)\<^sup>*\<^sup>* demo_world demo_late"
proof -
  let ?step = "world_step CRAWL_JOBS (15/2) 30 accept client" and ?w = "demo_running 11 0 0 demo_row"
  let ?b = "\<lparr>bc_now = 0, bc_worker = ?w, bc_out = None\<rparr>" and ?b' = "\<lparr>bc_now = 0, bc_worker = ?w, bc_out = Some (Inr demo_tick)\<rparr>"
  let ?P = "\<lambda>w b. \<lparr>pr_worker = w, pr_claim = None, pr_beat = b\<rparr>"
  let ?W = "\<lambda>t s w b. \<lparr>wd_now = t, wd_db = s, wd_procs = [?P w b]\<rparr>"
  have dw: "demo_world = ?W 0 (wd_db demo_world) ?w None" by (simp add: demo_world_def demo_start_def)
  have "?step demo_world (put_proc 0 ((?P ?w None)\<lparr>pr_beat := Some \<lparr>bc_now = wd_now demo_world, bc_worker = pr_worker (?P ?w None), bc_out = None\<rparr>\<rparr>) demo_world)"
    by (rule beat_begins) (simp_all add: demo_world_def)
  then have 1: "?step demo_world (?W 0 (wd_db demo_world) ?w (Some ?b))"
    by (simp add: put_proc_def) (simp add: demo_world_def demo_start_def)
  have "?step (?W 0 (wd_db demo_world) ?w (Some ?b)) (put_proc 0 ((?P ?w (Some ?b))\<lparr>pr_beat := Some (?b\<lparr>bc_out := Some (Inr demo_tick)\<rparr>)\<rparr>)
      ((?W 0 (wd_db demo_world) ?w (Some ?b))\<lparr>wd_db := demo_beaten\<rparr>))"
    by (rule beat_commits [where fl = NoFault and e = demo_env and c = ?b]) (simp_all only: demo_beat beat_call.simps process.simps world.simps, simp_all)
  then have 2: "?step (?W 0 (wd_db demo_world) ?w (Some ?b)) (?W 0 demo_beaten ?w (Some ?b'))" by (simp add: put_proc_def)
  have "?step (?W 0 demo_beaten ?w (Some ?b')) ((?W 0 demo_beaten ?w (Some ?b'))\<lparr>wd_now := wd_now (?W 0 demo_beaten ?w (Some ?b')) + 29 * second\<rparr>)"
    by (rule time_passes) (simp_all add: punctual_def total_seconds_def second_def)
  then have 3: "?step (?W 0 demo_beaten ?w (Some ?b')) (?W (29 * second) demo_beaten ?w (Some ?b'))" by simp
  have "?step (?W (29 * second) demo_beaten ?w (Some ?b')) (put_proc 0 ((?P ?w (Some ?b'))\<lparr>pr_worker := demo_confirmed, pr_beat := None\<rparr>)
      ((?W (29 * second) demo_beaten ?w (Some ?b'))\<lparr>wd_db := demo_beaten\<rparr>))"
    by (rule beat_returns [where c = ?b' and r = "Inr demo_tick" and st = "(NoFault, 0)"]) (simp_all add: total_seconds_def second_def demo_beat_return)
  then have 4: "?step (?W (29 * second) demo_beaten ?w (Some ?b')) (?W (29 * second) demo_beaten demo_confirmed None)" by (simp add: put_proc_def)
  have "?step (?W (29 * second) demo_beaten demo_confirmed None)
      ((?W (29 * second) demo_beaten demo_confirmed None)\<lparr>wd_now := wd_now (?W (29 * second) demo_beaten demo_confirmed None) + 31 * second\<rparr>)"
    by (rule time_passes) (simp_all add: punctual_def total_seconds_def second_def demo_confirmed_def)
  then have 5: "?step (?W (29 * second) demo_beaten demo_confirmed None) (?W (60 * second) demo_beaten demo_confirmed None)" by simp
  have "?step (?W (60 * second) demo_beaten demo_confirmed None) ((?W (60 * second) demo_beaten demo_confirmed None)\<lparr>wd_db := demo_recovered\<rparr>)"
    by (rule recovers [where now = "60 * second" and e = demo_env and n = 1000 and ids = "[7]"]) (simp_all add: demo_recover)
  then have 6: "?step (?W (60 * second) demo_beaten demo_confirmed None) demo_late" by (simp add: demo_late_def)
  show ?thesis using 1 2 3 4 5 6 by (meson converse_rtranclp_into_rtranclp rtranclp.rtrancl_refl)
qed

text \<open>
  C32. With the configuration an empty environment gives, punctual watchdogs and transactions shorter
  than the statement timeout do not prevent a job from running twice: a heartbeat sent at 0 s and answered at 29 s
  moves the fence to 59 s plus the interval of the watchdog, while the lease it renewed ends at 60 s.
  Maintenance frees the job at 60 s, a second worker claims it, and both processes run it.
\<close>

theorem default_configuration_can_run_a_job_twice:
  "config_from_env to_float to_int None RoleFetch (\<lambda>_. None) = Inr demo_config
   \<and> (\<exists>y. (world_step CRAWL_JOBS (watchdog_interval demo_config) (command_timeout demo_config) (\<lambda>c. c = demo_config) enqueues)\<^sup>*\<^sup>* demo_start y
        \<and> length (wd_procs y) = 2 \<and> owner (pr_worker (wd_procs y ! 0)) \<noteq> owner (pr_worker (wd_procs y ! 1))
        \<and> 7 \<in> active_ids (pr_worker (wd_procs y ! 0)) \<and> 7 \<in> active_ids (pr_worker (wd_procs y ! 1)))"
proof -
  let ?step = "world_step CRAWL_JOBS (15/2) 30 (\<lambda>c. c = demo_config) enqueues" and ?t = "60 * second"
  let ?j = "job_recovered ?t (job_leased (uuid_str 11) 60 0 demo_row)"
  let ?xs = "[instance_beaten (Some 8) 1 1 (Some 0) 0 (demo_instance 11), demo_instance 12]"
  let ?y = "demo_late\<lparr>wd_db := demo_store [job_leased (uuid_str 12) 60 ?t ?j] ?xs,
    wd_procs := wd_procs demo_late @ [\<lparr>pr_worker = demo_running 12 ?t ?t ?j, pr_claim = None, pr_beat = None\<rparr>]\<rparr>"
  have j: "job_claimable [] [''fetch''] ?t ?j" "j_job_id ?j = 7"
    by (simp_all add: job_claimable_def job_recovered_def job_leased_def demo_row_def second_def)
  have conf: "owner demo_confirmed = uuid_str 11" "active_ids demo_confirmed = {7}"
    using demo_running_simps(2,4) [of 11 0 0 demo_row] by (simp_all add: demo_confirmed_def owner_def active_ids_def)
  have "?step\<^sup>*\<^sup>* demo_start demo_late"
    by (rule rtranclp_trans [OF demo_world_reached demo_late_reached]) (rule refl)
  moreover have "?step\<^sup>*\<^sup>* demo_late ?y"
  proof -
    have db: "wd_db demo_late = demo_store [?j] ?xs" and now: "wd_now demo_late = ?t" by (simp_all add: demo_late_def demo_recovered_def)
    have inst: "get_instance 12 (demo_store [?j] ?xs) = Some (demo_instance 12)" "wi_drain_requested_at (demo_instance 12) = None"
      "wi_status (demo_instance 12) = Ready"
      by (simp_all add: get_instance_def demo_store_def demo_instance_def instance_beaten_def)
    have new: "uuid_str 12 \<notin> (owner \<circ> pr_worker) ` set (wd_procs demo_late)"
      using uuid_str_11_12 by (simp add: demo_late_def conf)
    show ?thesis
      using join_and_claim [where accept = "\<lambda>c. c = demo_config" and W = "15/2" and D = 30 and client = enqueues, OF refl db _ inst new] j(1)
      unfolding now by blast
  qed
  ultimately have "?step\<^sup>*\<^sup>* demo_start ?y" by (rule rtranclp_trans)
  moreover have "length (wd_procs ?y) = 2" "owner (pr_worker (wd_procs ?y ! 0)) \<noteq> owner (pr_worker (wd_procs ?y ! 1))"
    "7 \<in> active_ids (pr_worker (wd_procs ?y ! 0))" "7 \<in> active_ids (pr_worker (wd_procs ?y ! 1))"
    using conf uuid_str_11_12 j by (simp_all add: demo_late_def)
  ultimately show ?thesis unfolding demo_windows using demo_config_default by blast
qed

text \<open>The same for the projection queue.\<close>

theorem no_projection_task_runs_twice:
  assumes "(world_step PROJECTION_TASKS W D (safe_config W D) client)\<^sup>*\<^sup>* x y" and "proj_inv (wd_db x)" and "wd_procs x = []"
    and "0 \<le> D" and "0 \<le> W" and "respects_leases proj_inv task_lease task_expiry client"
    and "a < length (wd_procs y)" and "i \<in> active_ids (pr_worker (wd_procs y ! a))"
  shows "task_lease (wd_db y) i = Held (owner (pr_worker (wd_procs y ! a))) \<and> wd_now y < task_expiry (wd_db y) i
     \<and> (\<forall>b<length (wd_procs y). i \<in> active_ids (pr_worker (wd_procs y ! b)) \<longrightarrow> b = a)"
proof (rule projection_queue.running_tasks_are_leased)
  show "projection_queue.world_inv W D y"
    by (rule projection_queue.worlds_inv [OF assms(1-5)]) (use assms(6) in \<open>auto simp: respects_leases_def\<close>)
qed (use assms in simp_all)

end
