(* ===== verification/Addresses.thy ===== *)
theory Addresses
  imports Collector_Prelude "HOL-Library.Word"
begin

text \<open>
  \<open>fetch/ssrf.py\<close>: which hosts and addresses a fetch may reach. An address is a 32-bit or 128-bit
  word; the properties the code reads off \<open>ipaddress\<close> (Python 3.13) are its tables of networks. The
  textual parser of IPv6 literals and of resolver answers is the argument \<open>ip_address\<close>. A host is a
  string without line breaks, as \<open>urlsplit\<close> leaves it.
\<close>

section \<open>Exceptions of a fetch\<close>

text \<open>
  \<open>OtherError\<close> is any exception that \<open>SafeFetcher.fetch\<close> does not catch.
\<close>

datatype fetch_error =
    PolicyBlocked string | DnsResolutionError | UrlError string | RedirectRefused string | Deadline
  | TransportTimeout | TransportError | BodyLimitExceeded string | UnsupportedEncoding | OtherError

type_synonym 'a fetch_res = "fetch_error + 'a"

fun bind_fetch :: "'a fetch_res \<Rightarrow> ('a \<Rightarrow> 'b fetch_res) \<Rightarrow> 'b fetch_res" where
  "bind_fetch (Inl e) f = Inl e"
| "bind_fetch (Inr x) f = f x"

lemma bind_fetch_eq_Inr [simp]: "bind_fetch m f = Inr y \<longleftrightarrow> (\<exists>x. m = Inr x \<and> f x = Inr y)"
  by (cases m) auto

section \<open>Text\<close>

definition DIGITS :: string where
  "DIGITS = ''0123456789''"

fun decimal :: "nat \<Rightarrow> string" where
  "decimal n = (if n < 10 then [DIGITS ! n] else decimal (n div 10) @ [DIGITS ! (n mod 10)])"

declare decimal.simps [simp del]

text \<open>\<open>s.split(c)\<close>: at least one part.\<close>

fun split_on :: "char \<Rightarrow> string \<Rightarrow> string list" where
  "split_on c [] = [[]]"
| "split_on c (x # xs) =
     (if x = c then [] # split_on c xs
      else case split_on c xs of [] \<Rightarrow> [[x]] | p # ps \<Rightarrow> (x # p) # ps)"

definition rstrip :: "char \<Rightarrow> string \<Rightarrow> string" where
  "rstrip c s = rev (dropWhile (\<lambda>x. x = c) (rev s))"

definition lower_char :: "char \<Rightarrow> char" where
  "lower_char c = (let n = of_char c :: nat in if 65 \<le> n \<and> n \<le> 90 then char_of (n + 32) else c)"

definition hex_value :: "char \<Rightarrow> nat" where
  "hex_value c = (let n = of_char (lower_char c) :: nat in if n < 97 then n - 48 else n - 87)"

definition is_dec :: "char \<Rightarrow> bool" where
  "is_dec c \<longleftrightarrow> c \<in> set DIGITS"

definition is_hex :: "char \<Rightarrow> bool" where
  "is_hex c \<longleftrightarrow> c \<in> set ''0123456789abcdefABCDEF''"

definition number :: "nat \<Rightarrow> string \<Rightarrow> nat" where
  "number base s = foldl (\<lambda>n c. n * base + hex_value c) 0 s"

section \<open>Networks\<close>

datatype ip = V4 "32 word" | V6 "128 word" string

definition in_net :: "'a::len word \<times> nat \<Rightarrow> 'a word \<Rightarrow> bool" where
  "in_net net a \<longleftrightarrow> drop_bit (LENGTH('a) - snd net) a = drop_bit (LENGTH('a) - snd net) (fst net)"

definition dotted :: "nat \<Rightarrow> nat \<Rightarrow> nat \<Rightarrow> nat \<Rightarrow> 32 word" where
  "dotted a b c d = of_nat (256 * (256 * (256 * a + b) + c) + d)"

definition hextets :: "nat list \<Rightarrow> 128 word" where
  "hextets hs = of_nat (foldl (\<lambda>x h. x * 65536 + h) 0 (hs @ replicate (8 - length hs) 0))"

definition PRIVATE4 :: "(32 word \<times> nat) list" where
  "PRIVATE4 = [(dotted 0 0 0 0, 8), (dotted 10 0 0 0, 8), (dotted 127 0 0 0, 8), (dotted 169 254 0 0, 16),
     (dotted 172 16 0 0, 12), (dotted 192 0 0 0, 24), (dotted 192 0 0 170, 31), (dotted 192 0 2 0, 24),
     (dotted 192 168 0 0, 16), (dotted 198 18 0 0, 15), (dotted 198 51 100 0, 24), (dotted 203 0 113 0, 24),
     (dotted 240 0 0 0, 4), (dotted 255 255 255 255, 32)]"

definition PRIVATE4_EXCEPTIONS :: "(32 word \<times> nat) list" where
  "PRIVATE4_EXCEPTIONS = [(dotted 192 0 0 9, 32), (dotted 192 0 0 10, 32)]"

definition private4 :: "32 word \<Rightarrow> bool" where
  "private4 a \<longleftrightarrow> list_ex (\<lambda>n. in_net n a) PRIVATE4 \<and> \<not> list_ex (\<lambda>n. in_net n a) PRIVATE4_EXCEPTIONS"

definition global4 :: "32 word \<Rightarrow> bool" where
  "global4 a \<longleftrightarrow> \<not> in_net (dotted 100 64 0 0, 10) a \<and> \<not> private4 a"

text \<open>The first reason that holds, in the order of \<open>checks\<close>.\<close>

fun first_reason :: "(bool \<times> string) list \<Rightarrow> string option" where
  "first_reason [] = None"
| "first_reason ((hit, reason) # cs) = (if hit then Some reason else first_reason cs)"

definition reason4 :: "32 word \<Rightarrow> string option" where
  "reason4 a =
     (if a = dotted 169 254 169 254 then Some ''cloud metadata''
      else first_reason
        [(a = 0, ''unspecified''), (in_net (dotted 127 0 0 0, 8) a, ''loopback''), (in_net (dotted 169 254 0 0, 16) a, ''link-local''),
         (in_net (dotted 224 0 0 0, 4) a, ''multicast''), (private4 a, ''private''), (in_net (dotted 240 0 0 0, 4) a, ''reserved''),
         (\<not> global4 a, ''not global'')])"

definition PRIVATE6 :: "(128 word \<times> nat) list" where
  "PRIVATE6 = [(1, 128), (0, 128), (hextets [0, 0, 0, 0, 0, 0xFFFF], 96), (hextets [0x64, 0xFF9B, 1], 48), (hextets [0x100], 64),
     (hextets [0x2001], 23), (hextets [0x2001, 0xDB8], 32), (hextets [0x2002], 16), (hextets [0x3FFF], 20),
     (hextets [0xFC00], 7), (hextets [0xFE80], 10)]"

definition PRIVATE6_EXCEPTIONS :: "(128 word \<times> nat) list" where
  "PRIVATE6_EXCEPTIONS = [(hextets [0x2001, 1, 0, 0, 0, 0, 0, 1], 128), (hextets [0x2001, 1, 0, 0, 0, 0, 0, 2], 128),
     (hextets [0x2001, 3], 32), (hextets [0x2001, 4, 0x112], 48), (hextets [0x2001, 0x20], 28), (hextets [0x2001, 0x30], 28)]"

definition RESERVED6 :: "(128 word \<times> nat) list" where
  "RESERVED6 = [(0, 8), (hextets [0x100], 8), (hextets [0x200], 7), (hextets [0x400], 6), (hextets [0x800], 5), (hextets [0x1000], 4),
     (hextets [0x4000], 3), (hextets [0x6000], 3), (hextets [0x8000], 3), (hextets [0xA000], 3), (hextets [0xC000], 3), (hextets [0xE000], 4),
     (hextets [0xF000], 5), (hextets [0xF800], 6), (hextets [0xFE00], 9)]"

definition private6 :: "128 word \<Rightarrow> bool" where
  "private6 a \<longleftrightarrow> list_ex (\<lambda>n. in_net n a) PRIVATE6 \<and> \<not> list_ex (\<lambda>n. in_net n a) PRIVATE6_EXCEPTIONS"

definition ipv4_mapped :: "128 word \<Rightarrow> 32 word option" where
  "ipv4_mapped a = (if drop_bit 32 a = 0xFFFF then Some (ucast a) else None)"

definition sixtofour :: "128 word \<Rightarrow> 32 word option" where
  "sixtofour a = (if drop_bit 112 a = 0x2002 then Some (ucast (drop_bit 80 a)) else None)"

text \<open>The IPv4 address that an IPv6 address carries, as \<open>forbidden_reason\<close> looks for it.\<close>

definition embedded4 :: "128 word \<Rightarrow> 32 word option" where
  "embedded4 a =
     (if in_net (hextets [0x64, 0xFF9B], 96) a then Some (ucast a)
      else case ipv4_mapped a of Some e \<Rightarrow> Some e | None \<Rightarrow> sixtofour a)"

text \<open>A property of an IPv4-mapped address is that of the IPv4 address.\<close>

definition via_mapped :: "(32 word \<Rightarrow> bool) \<Rightarrow> (128 word \<Rightarrow> bool) \<Rightarrow> 128 word \<Rightarrow> bool" where
  "via_mapped p4 p6 a = (case ipv4_mapped a of Some e \<Rightarrow> p4 e | None \<Rightarrow> p6 a)"

definition octets :: "32 word \<Rightarrow> nat list" where
  "octets a = [unat a div 256 ^ 3, unat a div 256 ^ 2 mod 256, unat a div 256 mod 256, unat a mod 256]"

fun join_with :: "string \<Rightarrow> string list \<Rightarrow> string" where
  "join_with sep [] = []"
| "join_with sep [p] = p"
| "join_with sep (p # ps) = p @ sep @ join_with sep ps"

definition ipv4_str :: "32 word \<Rightarrow> string" where
  "ipv4_str a = join_with ''.'' (map decimal (octets a))"

definition reason6 :: "128 word \<Rightarrow> string \<Rightarrow> string option" where
  "reason6 a scope =
     (if a = hextets [0xFD00, 0xEC2, 0, 0, 0, 0, 0, 0x254] \<and> scope = [] then Some ''cloud metadata''
      else case (case embedded4 a of None \<Rightarrow> None | Some e \<Rightarrow> map_option (Pair e) (reason4 e)) of
          Some (e, reason) \<Rightarrow> Some (''embedded IPv4 '' @ ipv4_str e @ '': '' @ reason)
        | None \<Rightarrow> first_reason
            [(in_net (0, 96) a, ''IPv4-compatible IPv6''), (scope \<noteq> [], ''scoped IPv6''),
             (via_mapped (\<lambda>e. e = 0) (\<lambda>x. x = 0) a, ''unspecified''),
             (via_mapped (in_net (dotted 127 0 0 0, 8)) (\<lambda>x. x = 1) a, ''loopback''),
             (via_mapped (in_net (dotted 169 254 0 0, 16)) (in_net (hextets [0xFE80], 10)) a, ''link-local''),
             (via_mapped (in_net (dotted 224 0 0 0, 4)) (in_net (hextets [0xFF00], 8)) a, ''multicast''),
             (via_mapped private4 private6 a, ''private''),
             (via_mapped (in_net (dotted 240 0 0 0, 4)) (\<lambda>x. list_ex (\<lambda>n. in_net n x) RESERVED6) a, ''reserved''),
             (\<not> via_mapped global4 (\<lambda>x. \<not> private6 x) a, ''not global'')])"

definition forbidden_reason :: "ip \<Rightarrow> string option" where
  "forbidden_reason x = (case x of V4 a \<Rightarrow> reason4 a | V6 a scope \<Rightarrow> reason6 a scope)"

section \<open>Hosts\<close>

definition numeric_label :: "string \<Rightarrow> bool" where
  "numeric_label p \<longleftrightarrow> (take 2 p \<in> {''0x'', ''0X''} \<and> list_all is_hex (drop 2 p)) \<or> (p \<noteq> [] \<and> list_all is_dec p)"

text \<open>\<open>int\<close> refuses a decimal text of more than 4300 digits, with an exception nobody catches.\<close>

definition MAX_STR_DIGITS :: nat where
  "MAX_STR_DIGITS = 4300"

definition label_value :: "string \<Rightarrow> nat fetch_res" where
  "label_value p =
     (if map lower_char (take 2 p) = ''0x'' then Inr (number 16 (if drop 2 p = [] then ''0'' else drop 2 p))
      else if 1 < length p \<and> hd p = CHR ''0''
      then (if set p \<subseteq> set ''01234567'' then Inr (number 8 p) else Inl (PolicyBlocked ''url_invalid''))
      else if MAX_STR_DIGITS < length p then Inl OtherError else Inr (number 10 p))"

fun label_values :: "string list \<Rightarrow> nat list fetch_res" where
  "label_values [] = Inr []"
| "label_values (p # ps) = bind_fetch (label_value p) (\<lambda>v. bind_fetch (label_values ps) (\<lambda>vs. Inr (v # vs)))"

fun shifted :: "nat \<Rightarrow> nat list \<Rightarrow> nat" where
  "shifted i [] = 0"
| "shifted i (v # vs) = v * 2 ^ (8 * (3 - i)) + shifted (i + 1) vs"

definition parse_ipv4_number :: "string \<Rightarrow> 32 word fetch_res" where
  "parse_ipv4_number host =
     (let ps = split_on CHR ''.'' host; parts = (if last ps = [] then butlast ps else ps)
      in if \<not> (1 \<le> length parts \<and> length parts \<le> 4) \<or> \<not> list_all numeric_label parts then Inl (PolicyBlocked ''url_invalid'')
         else bind_fetch (label_values parts) (\<lambda>values.
           if list_ex (\<lambda>v. 255 < v) (butlast values) \<or> 256 ^ (5 - length values) \<le> last values then Inl (PolicyBlocked ''url_invalid'')
           else Inr (of_nat (last values + shifted 0 (butlast values)))))"

definition bare_host :: "string \<Rightarrow> string" where
  "bare_host host = (if host \<noteq> [] \<and> hd host = CHR ''['' \<and> last host = CHR '']'' then butlast (tl host) else host)"

text \<open>\<open>s.replace('%25', '%')\<close>, left to right.\<close>

fun unescape_percent :: "string \<Rightarrow> string" where
  "unescape_percent (a # b # c # s) =
     (if [a, b, c] = ''%25'' then CHR ''%'' # unescape_percent s else a # unescape_percent (b # c # s))"
| "unescape_percent s = s"

definition parse_ip_literal :: "(string \<Rightarrow> ip option) \<Rightarrow> string \<Rightarrow> ip option fetch_res" where
  "parse_ip_literal ip_address host =
     (let bare = bare_host host
      in if CHR '':'' \<in> set bare
         then (case ip_address (unescape_percent bare) of None \<Rightarrow> Inl (PolicyBlocked ''url_invalid'') | Some x \<Rightarrow> Inr (Some x))
         else if \<not> numeric_label (last (split_on CHR ''.'' (rstrip CHR ''.'' bare))) then Inr None
         else bind_fetch (parse_ipv4_number bare) (\<lambda>a.
           if reason4 a = None \<and> ipv4_str a \<noteq> bare then Inl (PolicyBlocked ''host_noncanonical_ip'') else Inr (Some (V4 a))))"

definition ends_with :: "string \<Rightarrow> string \<Rightarrow> bool" where
  "ends_with s suffix \<longleftrightarrow> length suffix \<le> length s \<and> drop (length s - length suffix) s = suffix"

definition check_host_name :: "string \<Rightarrow> unit fetch_res" where
  "check_host_name host =
     (let lowered = map lower_char host
      in if ends_with lowered ''.'' then Inl (PolicyBlocked ''ssrf_forbidden_host'')
         else if lowered = ''localhost'' \<or> ends_with lowered ''.localhost'' then Inl (PolicyBlocked ''ssrf_forbidden_host'')
         else Inr ())"

definition require_allowed :: "ip \<Rightarrow> unit fetch_res" where
  "require_allowed x = (case forbidden_reason x of None \<Rightarrow> Inr () | Some _ \<Rightarrow> Inl (PolicyBlocked ''ssrf_forbidden_address''))"

fun all_allowed :: "ip list \<Rightarrow> unit fetch_res" where
  "all_allowed [] = Inr ()"
| "all_allowed (x # xs) = bind_fetch (require_allowed x) (\<lambda>_. all_allowed xs)"

text \<open>\<open>resolve\<close> is what the resolver answers: \<open>None\<close> when it fails with an \<open>OSError\<close>.\<close>

definition resolve_pinned :: "(string \<Rightarrow> ip option) \<Rightarrow> (string \<Rightarrow> nat \<Rightarrow> string list option) \<Rightarrow> string \<Rightarrow> nat \<Rightarrow> ip fetch_res" where
  "resolve_pinned ip_address resolve host port =
     bind_fetch (parse_ip_literal ip_address host) (\<lambda>literal. case literal of
         Some x \<Rightarrow> bind_fetch (require_allowed x) (\<lambda>_. Inr x)
       | None \<Rightarrow> bind_fetch (check_host_name host) (\<lambda>_.
           case resolve host port of
             None \<Rightarrow> Inl DnsResolutionError
           | Some [] \<Rightarrow> Inl DnsResolutionError
           | Some answers \<Rightarrow>
               if list_ex (\<lambda>a. ip_address a = None) answers then Inl (PolicyBlocked ''ssrf_forbidden_address'')
               else (let addresses = map (the \<circ> ip_address) answers
                     in bind_fetch (all_allowed addresses) (\<lambda>_. Inr (hd addresses)))))"

section \<open>Which addresses are allowed\<close>

lemma unat_dotted:
  assumes "a < 256" "b < 256" "c < 256" "d < 256"
  shows "unat (dotted a b c d) = 256 * (256 * (256 * a + b) + c) + d"
proof -
  have "256 * (256 * (256 * a + b) + c) + d < 2 ^ LENGTH(32)" using assms by simp
  then show ?thesis unfolding dotted_def unat_of_nat by (rule mod_less)
qed

lemma in_net_unat:
  "in_net (n, p) (x :: 'a::len word) \<longleftrightarrow> unat x div 2 ^ (LENGTH('a) - p) = unat n div 2 ^ (LENGTH('a) - p)"
  by (simp only: in_net_def fst_conv snd_conv word_unat_eq_iff unat_drop_bit_eq) (simp only: drop_bit_eq_div)

text \<open>Two digits in base \<open>k\<close>.\<close>

lemma two_digits:
  assumes "b < k" "b' < (k :: nat)"
  shows "k * a + b = k * a' + b' \<longleftrightarrow> a = a' \<and> b = b'" "(k * a + b) div k = a"
proof -
  show "(k * a + b) div k = a" using assms by simp
  show "k * a + b = k * a' + b' \<longleftrightarrow> a = a' \<and> b = b'" 
  proof
    assume eq: "k * a + b = k * a' + b'"
    have "(k * a + b) div k = a" "(k * a' + b') div k = a'" "(k * a + b) mod k = b" "(k * a' + b') mod k = b'" using assms by simp_all
    then show "a = a' \<and> b = b'" using eq by simp
  qed simp
qed

lemma part_of_digit: "(256 * a + b) div 64 = 4 * a + b div 64" "(256 * a + b) div 16 = 16 * a + b div 16"
  "(256 * a + b) div 2 = 128 * a + b div (2 :: nat)"
  by presburger+

text \<open>Membership in a network of 8, 16, 24 or 32 bits compares octets; in any other, part of one octet.\<close>

lemma in_net_dotted:
  assumes d: "a < 256" "b < 256" "c < 256" "d < 256" and d': "a' < 256" "b' < 256" "c' < 256" "d' < 256"
  shows "in_net (dotted a' b' c' d', 8) (dotted a b c d) \<longleftrightarrow> a = a'"
    "in_net (dotted a' b' c' d', 16) (dotted a b c d) \<longleftrightarrow> a = a' \<and> b = b'"
    "in_net (dotted a' b' c' d', 24) (dotted a b c d) \<longleftrightarrow> a = a' \<and> b = b' \<and> c = c'"
    "in_net (dotted a' b' c' d', 32) (dotted a b c d) \<longleftrightarrow> a = a' \<and> b = b' \<and> c = c' \<and> d = d'"
    "in_net (dotted a' b' c' d', 4) (dotted a b c d) \<longleftrightarrow> a div 16 = a' div 16"
    "in_net (dotted a' b' c' d', 10) (dotted a b c d) \<longleftrightarrow> a = a' \<and> b div 64 = b' div 64"
    "in_net (dotted a' b' c' d', 12) (dotted a b c d) \<longleftrightarrow> a = a' \<and> b div 16 = b' div 16"
    "in_net (dotted a' b' c' d', 15) (dotted a b c d) \<longleftrightarrow> a = a' \<and> b div 2 = b' div 2"
    "in_net (dotted a' b' c' d', 31) (dotted a b c d) \<longleftrightarrow> a = a' \<and> b = b' \<and> c = c' \<and> d div 2 = d' div 2"
proof -
  let ?N = "256 * (256 * (256 * a + b) + c) + d" and ?N' = "256 * (256 * (256 * a' + b') + c') + d'"
  have in_net: "in_net (dotted a' b' c' d', p) (dotted a b c d) \<longleftrightarrow> ?N div 2 ^ (32 - p) = ?N' div 2 ^ (32 - p)" for p
    using in_net_unat [of "dotted a' b' c' d'" p "dotted a b c d"] unfolding unat_dotted [OF d] unat_dotted [OF d'] by simp
  have div: "n div 2 ^ 0 = n" "n div 2 ^ 1 = n div 2" "n div 2 ^ 8 = n div 256" "n div 2 ^ 16 = n div 256 div 256" "n div 2 ^ 24 = n div 256 div 256 div 256"
    "n div 2 ^ 28 = n div 256 div 256 div 256 div 16" "n div 2 ^ 22 = n div 256 div 256 div 64"
    "n div 2 ^ 20 = n div 256 div 256 div 16" "n div 2 ^ 17 = n div 256 div 256 div 2" for n :: nat
    by (simp_all flip: div_mult2_eq)
  have small: "b div 64 < 4" "b' div 64 < 4" "b div 16 < 16" "b' div 16 < 16" "b div 2 < 128" "b' div 2 < 128" "d div 2 < 128" "d' div 2 < 128"
    using d d' by simp_all
  note digits = two_digits [OF d(2) d'(2)] two_digits [OF d(3) d'(3)] two_digits [OF d(4) d'(4)]
    two_digits [OF d'(2) d(2)] two_digits [OF d'(3) d(3)] two_digits [OF d'(4) d(4)]
    two_digits [OF small(1,2)] two_digits [OF small(3,4)] two_digits [OF small(5,6)] two_digits [OF small(7,8)]
  have num: "32 - 8 = (24::nat)" "32 - 16 = (16::nat)" "32 - 24 = (8::nat)" "32 - 32 = (0::nat)" "32 - 4 = (28::nat)" "32 - 10 = (22::nat)"
    "32 - 12 = (20::nat)" "32 - 15 = (17::nat)" "32 - 31 = (1::nat)" by simp_all
  note eval = in_net num div digits part_of_digit conj_assoc
  show "in_net (dotted a' b' c' d', 8) (dotted a b c d) \<longleftrightarrow> a = a'" by (simp only: eval)
  show "in_net (dotted a' b' c' d', 16) (dotted a b c d) \<longleftrightarrow> a = a' \<and> b = b'" by (simp only: eval)
  show "in_net (dotted a' b' c' d', 24) (dotted a b c d) \<longleftrightarrow> a = a' \<and> b = b' \<and> c = c'" by (simp only: eval)
  show "in_net (dotted a' b' c' d', 32) (dotted a b c d) \<longleftrightarrow> a = a' \<and> b = b' \<and> c = c' \<and> d = d'" by (simp only: eval)
  show "in_net (dotted a' b' c' d', 4) (dotted a b c d) \<longleftrightarrow> a div 16 = a' div 16" by (simp only: eval)
  show "in_net (dotted a' b' c' d', 10) (dotted a b c d) \<longleftrightarrow> a = a' \<and> b div 64 = b' div 64" by (simp only: eval)
  show "in_net (dotted a' b' c' d', 12) (dotted a b c d) \<longleftrightarrow> a = a' \<and> b div 16 = b' div 16" by (simp only: eval)
  show "in_net (dotted a' b' c' d', 15) (dotted a b c d) \<longleftrightarrow> a = a' \<and> b div 2 = b' div 2" by (simp only: eval)
  show "in_net (dotted a' b' c' d', 31) (dotted a b c d) \<longleftrightarrow> a = a' \<and> b = b' \<and> c = c' \<and> d div 2 = d' div 2"
    by (simp only: eval)
qed

lemma first_reason_None: "first_reason cs = None \<longleftrightarrow> list_all (\<lambda>c. \<not> fst c) cs"
  by (induction cs rule: first_reason.induct) auto

lemma dotted_inject:
  assumes "a < 256" "b < 256" "c < 256" "d < 256" "a' < 256" "b' < 256" "c' < 256" "d' < 256"
  shows "dotted a b c d = dotted a' b' c' d' \<longleftrightarrow> a = a' \<and> b = b' \<and> c = c' \<and> d = d'"
  using in_net_dotted(4) [OF assms] by (simp add: in_net_def)

lemma div_is: "0 < k \<Longrightarrow> x div k = q \<longleftrightarrow> q * k \<le> x \<and> x < q * k + (k :: nat)"
  by (metis add.commute div_nat_eqI dividend_less_times_div mult.commute mult_Suc_right times_div_less_eq_dividend)

text \<open>The networks of the tables, octet by octet.\<close>

lemma special_nets:
  assumes "a < 256" "b < 256" "c < 256" "d < 256"
  shows "in_net (dotted 240 0 0 0, 4) (dotted a b c d) \<longleftrightarrow> 240 \<le> a"
    "in_net (dotted 224 0 0 0, 4) (dotted a b c d) \<longleftrightarrow> 224 \<le> a \<and> a < 240"
    "in_net (dotted 100 64 0 0, 10) (dotted a b c d) \<longleftrightarrow> a = 100 \<and> 64 \<le> b \<and> b < 128"
    "in_net (dotted 172 16 0 0, 12) (dotted a b c d) \<longleftrightarrow> a = 172 \<and> 16 \<le> b \<and> b < 32"
    "in_net (dotted 198 18 0 0, 15) (dotted a b c d) \<longleftrightarrow> a = 198 \<and> 18 \<le> b \<and> b < 20"
    "in_net (dotted 192 0 0 170, 31) (dotted a b c d) \<longleftrightarrow> a = 192 \<and> b = 0 \<and> c = 0 \<and> 170 \<le> d \<and> d < 172"
proof -
  show "in_net (dotted 240 0 0 0, 4) (dotted a b c d) \<longleftrightarrow> 240 \<le> a"
    using in_net_dotted(5) [OF assms, of 240 0 0 0] assms(1) by (simp add: div_is)
  show "in_net (dotted 224 0 0 0, 4) (dotted a b c d) \<longleftrightarrow> 224 \<le> a \<and> a < 240"
    using in_net_dotted(5) [OF assms, of 224 0 0 0] by (simp add: div_is)
  show "in_net (dotted 100 64 0 0, 10) (dotted a b c d) \<longleftrightarrow> a = 100 \<and> 64 \<le> b \<and> b < 128"
    using in_net_dotted(6) [OF assms, of 100 64 0 0] by (simp add: div_is)
  show "in_net (dotted 172 16 0 0, 12) (dotted a b c d) \<longleftrightarrow> a = 172 \<and> 16 \<le> b \<and> b < 32"
    using in_net_dotted(7) [OF assms, of 172 16 0 0] by (simp add: div_is)
  show "in_net (dotted 198 18 0 0, 15) (dotted a b c d) \<longleftrightarrow> a = 198 \<and> 18 \<le> b \<and> b < 20"
    using in_net_dotted(8) [OF assms, of 198 18 0 0] by (simp add: div_is)
  show "in_net (dotted 192 0 0 170, 31) (dotted a b c d) \<longleftrightarrow> a = 192 \<and> b = 0 \<and> c = 0 \<and> 170 \<le> d \<and> d < 172"
    using in_net_dotted(9) [OF assms, of 192 0 0 170] by (simp add: div_is)
qed

text \<open>The octets of the addresses that are set apart for special use, and of all others.\<close>

definition special4 :: "nat \<Rightarrow> nat \<Rightarrow> nat \<Rightarrow> nat \<Rightarrow> bool" where
  "special4 a b c d \<longleftrightarrow> a = 0 \<or> a = 10 \<or> a = 127 \<or> 240 \<le> a \<or> (a = 169 \<and> b = 254) \<or> (a = 172 \<and> 16 \<le> b \<and> b < 32)
     \<or> (a = 192 \<and> b = 0 \<and> c = 0 \<and> d \<noteq> 9 \<and> d \<noteq> 10) \<or> (a = 192 \<and> b = 0 \<and> c = 2) \<or> (a = 192 \<and> b = 168)
     \<or> (a = 198 \<and> 18 \<le> b \<and> b < 20) \<or> (a = 198 \<and> b = 51 \<and> c = 100) \<or> (a = 203 \<and> b = 0 \<and> c = 113)"

lemma private4_dotted:
  assumes "a < 256" "b < 256" "c < 256" "d < 256"
  shows "private4 (dotted a b c d) \<longleftrightarrow> special4 a b c d"
proof -
  let ?x = "dotted a b c d"
  have ex: "list_ex (\<lambda>n. in_net n ?x) PRIVATE4_EXCEPTIONS \<longleftrightarrow> a = 192 \<and> b = 0 \<and> c = 0 \<and> (d = 9 \<or> d = 10)"
    unfolding PRIVATE4_EXCEPTIONS_def by (simp add: in_net_dotted assms) blast
  have "list_ex (\<lambda>n. in_net n ?x) PRIVATE4 \<longleftrightarrow> a = 0 \<or> a = 10 \<or> a = 127 \<or> 240 \<le> a \<or> (a = 169 \<and> b = 254) \<or> (a = 172 \<and> 16 \<le> b \<and> b < 32)
     \<or> (a = 192 \<and> b = 0 \<and> c = 0) \<or> (a = 192 \<and> b = 0 \<and> c = 2) \<or> (a = 192 \<and> b = 168)
     \<or> (a = 198 \<and> 18 \<le> b \<and> b < 20) \<or> (a = 198 \<and> b = 51 \<and> c = 100) \<or> (a = 203 \<and> b = 0 \<and> c = 113)"
  proof -
    have *: "in_net (dotted 0 0 0 0, 8) ?x \<longleftrightarrow> a = 0" "in_net (dotted 10 0 0 0, 8) ?x \<longleftrightarrow> a = 10" "in_net (dotted 127 0 0 0, 8) ?x \<longleftrightarrow> a = 127"
      "in_net (dotted 169 254 0 0, 16) ?x \<longleftrightarrow> a = 169 \<and> b = 254" "in_net (dotted 192 0 0 0, 24) ?x \<longleftrightarrow> a = 192 \<and> b = 0 \<and> c = 0"
      "in_net (dotted 192 0 2 0, 24) ?x \<longleftrightarrow> a = 192 \<and> b = 0 \<and> c = 2" "in_net (dotted 192 168 0 0, 16) ?x \<longleftrightarrow> a = 192 \<and> b = 168"
      "in_net (dotted 198 51 100 0, 24) ?x \<longleftrightarrow> a = 198 \<and> b = 51 \<and> c = 100" "in_net (dotted 203 0 113 0, 24) ?x \<longleftrightarrow> a = 203 \<and> b = 0 \<and> c = 113"
      "in_net (dotted 255 255 255 255, 32) ?x \<longleftrightarrow> a = 255 \<and> b = 255 \<and> c = 255 \<and> d = 255"
      by (simp_all add: in_net_dotted assms)
    have "a = 255 \<Longrightarrow> 240 \<le> a" by simp
    then show ?thesis unfolding PRIVATE4_def list_ex_Nil_iff list_ex_Cons_iff special_nets [OF assms] * by satx
  qed
  note priv = this
  show ?thesis
  proof (cases "a = 192 \<and> b = 0 \<and> c = 0")
    case True
    then show ?thesis unfolding private4_def ex priv special4_def by simp
  next
    case False
    then show ?thesis unfolding private4_def ex priv special4_def by satx
  qed
qed

lemma reason4_None:
  "reason4 a = None \<longleftrightarrow> a \<noteq> dotted 169 254 169 254 \<and> a \<noteq> 0 \<and> \<not> in_net (dotted 127 0 0 0, 8) a \<and> \<not> in_net (dotted 169 254 0 0, 16) a
     \<and> \<not> in_net (dotted 224 0 0 0, 4) a \<and> \<not> private4 a \<and> \<not> in_net (dotted 240 0 0 0, 4) a \<and> \<not> in_net (dotted 100 64 0 0, 10) a"
  unfolding reason4_def global4_def by (auto simp: first_reason_None)

lemma reason4_dotted:
  assumes bounds: "a < 256" "b < 256" "c < 256" "d < 256"
  shows "reason4 (dotted a b c d) = None \<longleftrightarrow> \<not> (224 \<le> a \<and> a < 240) \<and> \<not> (a = 100 \<and> 64 \<le> b \<and> b < 128) \<and> \<not> special4 a b c d"
proof -
  let ?x = "dotted a b c d"
  have zero: "0 = dotted 0 0 0 0" by (simp add: dotted_def)
  have *: "in_net (dotted 127 0 0 0, 8) ?x \<longleftrightarrow> a = 127" "in_net (dotted 169 254 0 0, 16) ?x \<longleftrightarrow> a = 169 \<and> b = 254"
    by (simp_all add: in_net_dotted bounds)
  have meta: "?x = dotted 169 254 169 254 \<Longrightarrow> a = 169 \<and> b = 254" "?x = 0 \<Longrightarrow> a = 0"
    unfolding zero by (simp_all add: dotted_inject bounds)
  have spec: "?x = dotted 169 254 169 254 \<or> ?x = 0 \<or> a = 127 \<or> a = 169 \<and> b = 254 \<or> 240 \<le> a \<Longrightarrow> special4 a b c d"
    unfolding special4_def using meta by satx
  show ?thesis
    unfolding reason4_None private4_dotted [OF bounds] special_nets [OF bounds] * using spec by satx
qed

text \<open>
  C36. The IPv4 addresses that a fetch may reach are exactly those outside the special-purpose blocks:
  this network, private use, shared address space, loopback, link local (with the metadata service),
  protocol assignments but for two anycast addresses, documentation, benchmarking, multicast and
  reserved.
\<close>

theorem allowed_ipv4_addresses:
  "a < 256 \<and> b < 256 \<and> c < 256 \<and> d < 256 \<longrightarrow>
     forbidden_reason (V4 (dotted a b c d)) = None \<longleftrightarrow>
     \<not> (a \<in> {0, 10, 127} \<or> 224 \<le> a \<or> a = 100 \<and> 64 \<le> b \<and> b < 128 \<or> a = 169 \<and> b = 254 \<or> a = 172 \<and> 16 \<le> b \<and> b < 32
        \<or> a = 192 \<and> (b = 0 \<and> (c = 0 \<and> d \<noteq> 9 \<and> d \<noteq> 10 \<or> c = 2) \<or> b = 168)
        \<or> a = 198 \<and> (18 \<le> b \<and> b < 20 \<or> b = 51 \<and> c = 100) \<or> a = 203 \<and> b = 0 \<and> c = 113)"
proof (intro impI)
  assume "a < 256 \<and> b < 256 \<and> c < 256 \<and> d < 256"
  then have "forbidden_reason (V4 (dotted a b c d)) = None
      \<longleftrightarrow> \<not> (224 \<le> a \<and> a < 240) \<and> \<not> (a = 100 \<and> 64 \<le> b \<and> b < 128) \<and> \<not> special4 a b c d"
    by (simp add: forbidden_reason_def reason4_dotted)
  also have "\<dots> \<longleftrightarrow> \<not> (a \<in> {0, 10, 127} \<or> 224 \<le> a \<or> a = 100 \<and> 64 \<le> b \<and> b < 128 \<or> a = 169 \<and> b = 254 \<or> a = 172 \<and> 16 \<le> b \<and> b < 32
        \<or> a = 192 \<and> (b = 0 \<and> (c = 0 \<and> d \<noteq> 9 \<and> d \<noteq> 10 \<or> c = 2) \<or> b = 168)
        \<or> a = 198 \<and> (18 \<le> b \<and> b < 20 \<or> b = 51 \<and> c = 100) \<or> a = 203 \<and> b = 0 \<and> c = 113)"
  proof -
    have "224 \<le> a \<longleftrightarrow> 224 \<le> a \<and> a < 240 \<or> 240 \<le> a" by linarith
    then show ?thesis unfolding special4_def insert_iff empty_iff by satx
  qed
  finally show "forbidden_reason (V4 (dotted a b c d)) = None \<longleftrightarrow> \<dots>" .
qed

theorem allowed_ipv4_addresses_witness:
  "forbidden_reason (V4 (dotted 100 63 255 255)) = None \<and> forbidden_reason (V4 (dotted 100 64 0 0)) \<noteq> None"
  using allowed_ipv4_addresses [of 100 63 255 255] allowed_ipv4_addresses [of 100 64 0 0] by simp

section \<open>Pinned addresses\<close>

lemma require_allowed_iff [simp]: "require_allowed x = Inr u \<longleftrightarrow> forbidden_reason x = None"
  by (simp add: require_allowed_def split: option.splits)

lemma all_allowed_iff: "all_allowed xs = Inr u \<longleftrightarrow> (\<forall>x\<in>set xs. forbidden_reason x = None)"
  by (induction xs) auto

lemma reason6_embedded:
  assumes "reason6 a scope = None" "embedded4 a = Some e"
  shows "reason4 e = None"
  using assms by (auto simp: reason6_def split: if_splits option.splits)

lemma reason6_None:
  assumes "reason6 a scope = None"
  shows "scope = [] \<and> \<not> in_net (0, 96) a \<and> (ipv4_mapped a = None \<longrightarrow> \<not> private6 a \<and> \<not> in_net (hextets [0xFF00], 8) a)"
  using assms by (auto simp: reason6_def via_mapped_def first_reason_None split: if_splits option.splits)

text \<open>
  C35. A connection is opened only to an address that is allowed. The address that \<open>resolve_pinned\<close>
  hands to the transport is global, an IPv6 address carries no forbidden IPv4 address and no scope, and
  it is the literal of the host or the first answer of one look-up, every answer of which is allowed.
\<close>

theorem pinned_address_is_allowed:
  assumes "resolve_pinned ip_address resolve host port = Inr x"
  shows "forbidden_reason x = None
     \<and> (\<forall>a scope. x = V6 a scope \<longrightarrow> scope = [] \<and> \<not> in_net (0, 96) a
          \<and> (\<forall>e. embedded4 a = Some e \<longrightarrow> forbidden_reason (V4 e) = None) \<and> (ipv4_mapped a = None \<longrightarrow> \<not> private6 a))
     \<and> (parse_ip_literal ip_address host = Inr (Some x)
        \<or> parse_ip_literal ip_address host = Inr None \<and> check_host_name host = Inr ()
          \<and> (\<exists>t ts. resolve host port = Some (t # ts) \<and> ip_address t = Some x
               \<and> (\<forall>t'\<in>set (t # ts). \<exists>y. ip_address t' = Some y \<and> forbidden_reason y = None)))"
proof -
  obtain literal where lit: "parse_ip_literal ip_address host = Inr literal"
    using assms by (auto simp: resolve_pinned_def)
  have *: "forbidden_reason x = None \<and> (literal = Some x \<or> literal = None \<and> check_host_name host = Inr ()
      \<and> (\<exists>t ts. resolve host port = Some (t # ts) \<and> ip_address t = Some x
               \<and> (\<forall>t'\<in>set (t # ts). \<exists>y. ip_address t' = Some y \<and> forbidden_reason y = None)))"
  proof (cases literal)
    case (Some y)
    then show ?thesis using assms lit
      by (auto simp: resolve_pinned_def require_allowed_def split: option.splits)
  next
    case None
    then obtain t ts where t: "resolve host port = Some (t # ts)" "check_host_name host = Inr ()"
      and known: "\<forall>t'\<in>set (t # ts). ip_address t' \<noteq> None" and x: "x = the (ip_address t)"
      and ok: "\<forall>y\<in>set (map (the \<circ> ip_address) (t # ts)). forbidden_reason y = None"
      using assms lit
      by (auto simp: resolve_pinned_def all_allowed_iff Let_def list_ex_iff split: option.splits list.splits if_splits)
    have "\<exists>y. ip_address t' = Some y \<and> forbidden_reason y = None" if "t' \<in> set (t # ts)" for t'
      using that known ok by fastforce
    then show ?thesis using None t x known ok by auto
  qed
  then show ?thesis using lit reason6_embedded reason6_None by (auto simp: forbidden_reason_def)
qed

definition demo_ip_address :: "string \<Rightarrow> ip option" where
  "demo_ip_address s = (if s = ''203.0.114.7'' then Some (V4 (dotted 203 0 114 7)) else None)"

theorem pinned_address_is_allowed_witness:
  "resolve_pinned demo_ip_address (\<lambda>_ _. Some [''203.0.114.7'']) ''example.org'' 443 = Inr (V4 (dotted 203 0 114 7))
   \<and> forbidden_reason (V4 (dotted 203 0 114 7)) = None"
proof -
  have r: "resolve_pinned demo_ip_address (\<lambda>_ _. Some [''203.0.114.7'']) ''example.org'' 443 = Inr (V4 (dotted 203 0 114 7))"
  proof -
    have "parse_ip_literal demo_ip_address ''example.org'' = Inr None" "check_host_name ''example.org'' = Inr ()" by code_simp+
    moreover have "require_allowed (V4 (dotted 203 0 114 7)) = Inr ()" by (simp add: forbidden_reason_def reason4_dotted special4_def)
    ultimately show ?thesis by (simp add: resolve_pinned_def demo_ip_address_def)
  qed
  show ?thesis using r pinned_address_is_allowed [OF r] by simp
qed

section \<open>Numeric hosts\<close>

lemma digit_facts:
  assumes "n < 10"
  shows "hex_value (DIGITS ! n) = n" "DIGITS ! n \<in> set DIGITS" "DIGITS ! n = CHR ''0'' \<longleftrightarrow> n = 0"
proof -
  have "n = 0 \<or> n = 1 \<or> n = 2 \<or> n = 3 \<or> n = 4 \<or> n = 5 \<or> n = 6 \<or> n = 7 \<or> n = 8 \<or> n = 9" using assms by arith
  then have "hex_value (DIGITS ! n) = n \<and> DIGITS ! n \<in> set DIGITS \<and> (DIGITS ! n = CHR ''0'' \<longleftrightarrow> n = 0)"
    by (elim disjE) (simp_all add: DIGITS_def hex_value_def lower_char_def Let_def)
  then show "hex_value (DIGITS ! n) = n" "DIGITS ! n \<in> set DIGITS" "DIGITS ! n = CHR ''0'' \<longleftrightarrow> n = 0" by simp_all
qed

lemma number_append [simp]: "number k (s @ [c]) = number k s * k + hex_value c"
  by (simp add: number_def)

lemma number_decimal [simp]: "number 10 (decimal n) = n"
proof (induction n rule: decimal.induct)
  case (1 n)
  show ?case
  proof (cases "n < 10")
    case True
    then show ?thesis by (simp add: decimal.simps [of n] number_def digit_facts)
  next
    case False
    then show ?thesis using 1 by (simp add: decimal.simps [of n] digit_facts)
  qed
qed

lemma decimal_digits_only: "decimal n \<noteq> []" "set (decimal n) \<subseteq> set DIGITS" "0 < n \<Longrightarrow> hd (decimal n) \<noteq> CHR ''0''"
proof -
  have "decimal n \<noteq> [] \<and> set (decimal n) \<subseteq> set DIGITS \<and> (0 < n \<longrightarrow> hd (decimal n) \<noteq> CHR ''0'')"
  proof (induction n rule: decimal.induct)
    case (1 n)
    show ?case
    proof (cases "n < 10")
      case True
      then show ?thesis by (simp add: decimal.simps [of n] digit_facts)
    next
      case False
      then have "0 < n div 10" by (simp add: div_greater_zero_iff)
      then show ?thesis using 1 False by (simp add: decimal.simps [of n] digit_facts)
    qed
  qed
  then show "decimal n \<noteq> []" "set (decimal n) \<subseteq> set DIGITS" "0 < n \<Longrightarrow> hd (decimal n) \<noteq> CHR ''0''" by simp_all
qed

lemma length_decimal: "n < 1000 \<Longrightarrow> length (decimal n) \<le> 3"
  by (simp add: decimal.simps [of n] decimal.simps [of "n div 10"] decimal.simps [of "n div 10 div 10"])

lemma label_value_decimal:
  assumes "n < 256"
  shows "label_value (decimal n) = Inr n" "numeric_label (decimal n)"
proof -
  have dec: "list_all is_dec (decimal n)" using decimal_digits_only(2) by (auto simp: list_all_iff is_dec_def)
  show "numeric_label (decimal n)" using decimal_digits_only(1) dec by (simp add: numeric_label_def)
  have "map lower_char (take 2 (decimal n)) \<noteq> ''0x''"
  proof
    assume eq: "map lower_char (take 2 (decimal n)) = ''0x''"
    then obtain a b s where ab: "decimal n = a # b # s" by (cases "decimal n" rule: list.exhaust; cases "tl (decimal n)" rule: list.exhaust; auto)
    then have "b \<in> set DIGITS" using decimal_digits_only(2) [of n] by auto
    moreover have "lower_char b = CHR ''x''" using eq ab by simp
    ultimately show False by (auto simp: DIGITS_def lower_char_def)
  qed
  moreover have "\<not> (1 < length (decimal n) \<and> hd (decimal n) = CHR ''0'')"
    using decimal_digits_only(3) [of n] by (cases "n = 0") (auto simp: decimal.simps [of 0])
  moreover have "length (decimal n) \<le> MAX_STR_DIGITS" using length_decimal [of n] assms by (simp add: MAX_STR_DIGITS_def)
  ultimately show "label_value (decimal n) = Inr n" by (auto simp: label_value_def)
qed

lemma split_on_no_sep: "c \<notin> set p \<Longrightarrow> split_on c p = [p]"
  by (induction p) auto

lemma split_on_append: "c \<notin> set p \<Longrightarrow> split_on c (p @ c # s) = p # split_on c s"
  by (induction p) auto

lemma split_on_join:
  "ps \<noteq> [] \<Longrightarrow> \<forall>p\<in>set ps. c \<notin> set p \<Longrightarrow> split_on c (join_with [c] ps) = ps"
  by (induction "[c]" ps rule: join_with.induct) (auto simp: split_on_no_sep split_on_append)

lemma octets_facts:
  "length (octets a) = 4" "\<forall>n\<in>set (octets a). n < 256"
  "256 * (256 * (256 * (octets a ! 0) + octets a ! 1) + octets a ! 2) + octets a ! 3 = unat a"
proof -
  have "unat a < 4294967296" using unsigned_less [of a, where 'a = nat] by simp
  then have "unat a div 16777216 < 256" by (simp add: less_mult_imp_div_less)
  then show "\<forall>n\<in>set (octets a). n < 256" by (simp add: octets_def)
  show "256 * (256 * (256 * (octets a ! 0) + octets a ! 1) + octets a ! 2) + octets a ! 3 = unat a"
  proof -
    have digit: "256 * (n div 256) + n mod 256 = n" for n :: nat by simp
    have "octets a = [unat a div 256 div 256 div 256, unat a div 256 div 256 mod 256, unat a div 256 mod 256, unat a mod 256]"
      by (simp add: octets_def flip: div_mult2_eq)
    then have nth: "octets a ! 0 = unat a div 256 div 256 div 256" "octets a ! 1 = unat a div 256 div 256 mod 256"
      "octets a ! 2 = unat a div 256 mod 256" "octets a ! 3 = unat a mod 256" by (simp_all add: numeral_3_eq_3 numeral_2_eq_2)
    show ?thesis unfolding nth digit by (rule refl)
  qed
qed (simp add: octets_def)

lemma label_values_decimal: "\<forall>n\<in>set ns. n < 256 \<Longrightarrow> label_values (map decimal ns) = Inr ns"
  by (induction ns) (simp_all add: label_value_decimal)

lemma ipv4_str_shape:
  "split_on CHR ''.'' (ipv4_str a) = map decimal (octets a)" "hd (ipv4_str a) \<noteq> CHR ''[''"
  "CHR '':'' \<notin> set (ipv4_str a)" "rstrip CHR ''.'' (ipv4_str a) = ipv4_str a"
proof -
  let ?o = "\<lambda>i. decimal (octets a ! i)"
  have str: "ipv4_str a = ?o 0 @ ''.'' @ ?o 1 @ ''.'' @ ?o 2 @ ''.'' @ ?o 3"
    by (simp add: ipv4_str_def octets_def numeral_3_eq_3 numeral_2_eq_2)
  have no: "CHR ''.'' \<notin> set (decimal n)" "CHR '':'' \<notin> set (decimal n)" "CHR ''['' \<notin> set (decimal n)" for n
    using decimal_digits_only(2) [of n] by (auto simp: DIGITS_def)
  show "split_on CHR ''.'' (ipv4_str a) = map decimal (octets a)"
    unfolding ipv4_str_def by (rule split_on_join) (use no in \<open>simp_all add: octets_def\<close>)
  show "hd (ipv4_str a) \<noteq> CHR ''[''"
    unfolding str hd_append2 [OF decimal_digits_only(1)] using hd_in_set [OF decimal_digits_only(1)] no(3) by metis
  show "CHR '':'' \<notin> set (ipv4_str a)" by (simp add: str no)
  have "last (?o 3) \<noteq> CHR ''.''" using last_in_set [OF decimal_digits_only(1) [of "octets a ! 3"]] no(1) by metis
  then have "hd (rev (ipv4_str a)) \<noteq> CHR ''.''" by (simp add: str hd_append hd_rev decimal_digits_only(1))
  then show "rstrip CHR ''.'' (ipv4_str a) = ipv4_str a"
    unfolding rstrip_def by (cases "rev (ipv4_str a)") (auto simp: dropWhile_eq_self_iff)
qed

lemma parse_ipv4_str: "parse_ipv4_number (ipv4_str a) = Inr a"
proof -
  obtain p q r t where o: "octets a = [p, q, r, t]" using octets_facts(1) [of a] by (auto simp: numeral_eq_Suc length_Suc_conv)
  have b: "p < 256" "q < 256" "r < 256" "t < 256" using octets_facts(2) [of a] o by simp_all
  have "unat a = 256 * (256 * (256 * p + q) + r) + t" using octets_facts(3) [of a] o by simp
  then have "t + shifted 0 [p, q, r] = unat a" by simp
  moreover have "last (map decimal (octets a)) \<noteq> []" using o decimal_digits_only(1) by simp
  ultimately show ?thesis
    unfolding parse_ipv4_number_def ipv4_str_shape(1) using o b label_values_decimal [of "octets a"]
    by (simp add: label_value_decimal Let_def)
qed

text \<open>
  An allowed IPv4 address has one spelling. The dotted decimal text of every address is read
  back as that address; and a host that is read as an allowed address is that text, so decimal, octal,
  hexadecimal and shortened spellings of it are refused.
\<close>

theorem ipv4_literal_round_trip:
  "parse_ip_literal ip_address (ipv4_str a) = Inr (Some (V4 a))
   \<and> (CHR '':'' \<notin> set (bare_host host) \<and> parse_ip_literal ip_address host = Inr (Some x) \<and> forbidden_reason x = None
      \<longrightarrow> (\<exists>b. x = V4 b \<and> bare_host host = ipv4_str b))"
proof
  have "bare_host (ipv4_str a) = ipv4_str a" using ipv4_str_shape(2) by (simp add: bare_host_def)
  moreover have "numeric_label (last (map decimal (octets a)))"
  proof -
    have o: "octets a \<noteq> []" by (simp add: octets_def)
    then show ?thesis unfolding last_map [OF o] using label_value_decimal(2) octets_facts(2) [of a] last_in_set [OF o] by blast
  qed
  ultimately show "parse_ip_literal ip_address (ipv4_str a) = Inr (Some (V4 a))"
    using ipv4_str_shape by (simp add: parse_ip_literal_def parse_ipv4_str)
qed (auto simp: parse_ip_literal_def forbidden_reason_def Let_def split: if_splits)

theorem ipv4_literal_round_trip_witness:
  "parse_ip_literal demo_ip_address ''203.0.114.7'' = Inr (Some (V4 (dotted 203 0 114 7)))
   \<and> (\<exists>b. V4 (dotted 203 0 114 7) = V4 b \<and> ''203.0.114.7'' = ipv4_str b)"
proof -
  have str: "ipv4_str (dotted 203 0 114 7) = ''203.0.114.7''"
    by (simp add: ipv4_str_def octets_def unat_dotted decimal.simps DIGITS_def)
  have "forbidden_reason (V4 (dotted 203 0 114 7)) = None" by (simp add: forbidden_reason_def reason4_dotted special4_def)
  then show ?thesis
    using ipv4_literal_round_trip [where host = "''203.0.114.7''" and ip_address = demo_ip_address and a = "dotted 203 0 114 7"
        and x = "V4 (dotted 203 0 114 7)"] str by (simp add: bare_host_def)
qed

text \<open>A host of more than 4300 digits ends in an exception that is not a refusal.\<close>

lemma lower_dec: "is_dec c \<Longrightarrow> lower_char c = c"
  by (auto simp: is_dec_def DIGITS_def lower_char_def)

lemma long_numeric_host:
  assumes dec: "list_all is_dec host" and "hd host \<noteq> CHR ''0''" and long: "MAX_STR_DIGITS < length host"
  shows "parse_ip_literal ip_address host = Inl OtherError"
proof -
  have "host \<noteq> []" using long by auto
  then have ends: "hd host \<in> set host" "last host \<in> set host" by simp_all
  have no: "c \<in> set host \<Longrightarrow> is_dec c" for c using dec by (auto simp: list_all_iff)
  then have chars: "CHR ''.'' \<notin> set host" "CHR '':'' \<notin> set host" "CHR ''['' \<notin> set host" by (auto simp: is_dec_def DIGITS_def)
  have split: "split_on CHR ''.'' host = [host]" by (rule split_on_no_sep) (rule chars)
  have "bare_host host = host" using ends chars by (auto simp: bare_host_def)
  moreover have "rstrip CHR ''.'' host = host"
  proof -
    have "dropWhile (\<lambda>x. x = CHR ''.'') (rev host) = rev host" using ends(2) chars(1) by (auto simp: dropWhile_eq_self_iff hd_rev)
    then show ?thesis by (simp add: rstrip_def)
  qed
  moreover have num: "numeric_label host" using \<open>host \<noteq> []\<close> dec by (simp add: numeric_label_def)
  moreover have "map lower_char (take 2 host) \<noteq> ''0x''"
    using assms(2) lower_dec [OF no] by (cases host) auto
  then have "label_value host = Inl OtherError" using assms by (auto simp: label_value_def)
  ultimately show ?thesis using chars(2) \<open>host \<noteq> []\<close> by (simp add: parse_ip_literal_def parse_ipv4_number_def split)
qed

end
