(* ===== verification/Fetch_Body.thy ===== *)
theory Fetch_Body
  imports Addresses
begin

text \<open>
  \<open>fetch/decoding.py\<close>: reading a response body under a limit on the bytes after decompression. The
  classes over zlib and brotli are the argument \<open>decoder_api\<close>: a decoder is a state, and a generator
  that yields pieces and then ends or raises is the list of its pieces with its end. The chain of
  decoders, the counting and the detection of compressed sitemaps are the code of the module.
\<close>

section \<open>Decoders\<close>

type_synonym bytes = "nat list"

record 'd decoder_api =
  da_new :: "string \<Rightarrow> 'd"
  da_feed :: "'d \<Rightarrow> bytes \<Rightarrow> bytes list \<times> 'd fetch_res"
  da_finish :: "'d \<Rightarrow> bytes list \<times> unit fetch_res"

definition GZIP_MAGIC :: bytes where
  "GZIP_MAGIC = [0x1F, 0x8B]"

text \<open>\<open>str.strip()\<close> on 8-bit characters.\<close>

definition is_space :: "char \<Rightarrow> bool" where
  "is_space c \<longleftrightarrow> (let n = of_char c :: nat in n \<in> {9..13} \<union> {28..32} \<union> {133, 160})"

definition strip_ws :: "string \<Rightarrow> string" where
  "strip_ws s = rev (dropWhile is_space (rev (dropWhile is_space s)))"

definition decoders_for :: "'d decoder_api \<Rightarrow> string option \<Rightarrow> 'd list fetch_res" where
  "decoders_for api content_encoding =
     (let names = map (\<lambda>n. map lower_char (strip_ws n)) (split_on CHR '','' (case content_encoding of None \<Rightarrow> [] | Some v \<Rightarrow> v));
          used = rev (filter (\<lambda>n. n \<noteq> [] \<and> n \<noteq> ''identity'') names)
      in if list_all (\<lambda>n. n \<in> {''gzip'', ''x-gzip'', ''deflate'', ''br''}) used then Inr (map (da_new api) used)
         else Inl UnsupportedEncoding)"

text \<open>Send pieces through a stage one after the other, until one raises.\<close>

fun run_pieces :: "('c \<Rightarrow> bytes \<Rightarrow> bytes list \<times> 'c fetch_res) \<Rightarrow> 'c \<Rightarrow> bytes list \<Rightarrow> bytes list \<times> 'c fetch_res" where
  "run_pieces f c [] = ([], Inr c)"
| "run_pieces f c (p # ps) =
     (case f c p of
        (outs, Inl e) \<Rightarrow> (outs, Inl e)
      | (outs, Inr c') \<Rightarrow> (let (outs2, r) = run_pieces f c' ps in (outs @ outs2, r)))"

text \<open>\<open>_pipe\<close>, by recursion on the number of decoders.\<close>

primrec pipe_n :: "nat \<Rightarrow> 'd decoder_api \<Rightarrow> 'd list \<Rightarrow> bytes \<Rightarrow> bytes list \<times> 'd list fetch_res" where
  "pipe_n 0 api chain data = ([data], Inr chain)"
| "pipe_n (Suc n) api chain data =
     (case chain of [] \<Rightarrow> ([data], Inr [])
      | d # rest \<Rightarrow>
          (let (pieces, r) = da_feed api d data; (outs, r2) = run_pieces (pipe_n n api) rest pieces
           in case r2 of Inl e \<Rightarrow> (outs, Inl e)
              | Inr rest' \<Rightarrow> (outs, map_sum id (\<lambda>d'. d' # rest') r)))"

definition pipe :: "'d decoder_api \<Rightarrow> 'd list \<Rightarrow> bytes \<Rightarrow> bytes list \<times> 'd list fetch_res" where
  "pipe api chain data = pipe_n (length chain) api chain data"

primrec finish_n :: "nat \<Rightarrow> 'd decoder_api \<Rightarrow> 'd list \<Rightarrow> bytes list \<times> unit fetch_res" where
  "finish_n 0 api chain = ([], Inr ())"
| "finish_n (Suc n) api chain =
     (case chain of [] \<Rightarrow> ([], Inr ())
      | d # rest \<Rightarrow>
          (let (pieces, r) = da_finish api d; (outs, r2) = run_pieces (pipe api) rest pieces
           in case (r2, r) of (Inl e, _) \<Rightarrow> (outs, Inl e) | (Inr _, Inl e) \<Rightarrow> (outs, Inl e)
              | (Inr rest', Inr _) \<Rightarrow> (let (outs2, r3) = finish_n n api rest' in (outs @ outs2, r3))))"

definition finish :: "'d decoder_api \<Rightarrow> 'd list \<Rightarrow> bytes list \<times> unit fetch_res" where
  "finish api chain = finish_n (length chain) api chain"

section \<open>Reading a body\<close>

record body_limits =
  bl_max_bytes :: int
  bl_max_ratio :: int
  bl_ratio_min_bytes :: int
  bl_sitemap :: bool

record body =
  bd_data :: bytes
  bd_received_bytes :: int
  bd_decoded_bytes :: int
  bd_stored_compressed :: bool

text \<open>The local variables of \<open>read_body\<close>; \<open>inner\<close> holds at most one decoder.\<close>

record 'd reader =
  rd_decided :: bool
  rd_head :: bytes
  rd_inner :: "'d list"
  rd_parts :: "bytes list"
  rd_received :: int
  rd_decoded :: int

definition count_bytes :: "body_limits \<Rightarrow> int \<Rightarrow> 'd reader \<Rightarrow> 'd reader fetch_res" where
  "count_bytes l n r =
     (let r' = r\<lparr>rd_decoded := rd_decoded r + n\<rparr>
      in if bl_max_bytes l < rd_decoded r' then Inl (BodyLimitExceeded ''body_too_large'')
         else if bl_ratio_min_bytes l < rd_decoded r' \<and> bl_max_ratio l * rd_received r' < rd_decoded r'
         then Inl (BodyLimitExceeded ''decompression_bomb'')
         else Inr r')"

fun count_pieces :: "body_limits \<Rightarrow> bytes list \<Rightarrow> 'd reader \<Rightarrow> 'd reader fetch_res" where
  "count_pieces l [] r = Inr r"
| "count_pieces l (p # ps) r = bind_fetch (count_bytes l (int (length p)) r) (count_pieces l ps)"

definition consume :: "'d decoder_api \<Rightarrow> body_limits \<Rightarrow> bytes \<Rightarrow> 'd reader \<Rightarrow> 'd reader fetch_res" where
  "consume api l entity r =
     (let r1 = r\<lparr>rd_parts := rd_parts r @ [entity]\<rparr>
      in if rd_inner r1 = [] then count_bytes l (int (length entity)) r1
         else (let (pieces, e) = pipe api (rd_inner r1) entity
               in bind_fetch (count_pieces l pieces r1) (\<lambda>r2. bind_fetch e (\<lambda>inner. Inr (r2\<lparr>rd_inner := inner\<rparr>)))))"

definition consume_entity :: "'d decoder_api \<Rightarrow> body_limits \<Rightarrow> bytes \<Rightarrow> 'd reader \<Rightarrow> 'd reader fetch_res" where
  "consume_entity api l entity r =
     (if rd_decided r then consume api l entity r
      else (let head = rd_head r @ entity
            in if length head < length GZIP_MAGIC then Inr (r\<lparr>rd_head := head\<rparr>)
               else consume api l head
                      (r\<lparr>rd_decided := True, rd_head := [],
                        rd_inner := (if take (length GZIP_MAGIC) head = GZIP_MAGIC then rd_inner r @ [da_new api ''gzip''] else rd_inner r)\<rparr>)))"

fun consume_entities :: "'d decoder_api \<Rightarrow> body_limits \<Rightarrow> bytes list \<Rightarrow> 'd reader \<Rightarrow> 'd reader fetch_res" where
  "consume_entities api l [] r = Inr r"
| "consume_entities api l (e # es) r = bind_fetch (consume_entity api l e r) (consume_entities api l es)"

text \<open>What arrives: a chunk, with whether the deadline has passed when it does, or a failure of the transport.\<close>

datatype arrival = Chunk bool bytes | Broken fetch_error

fun read_chunks ::
  "'d decoder_api \<Rightarrow> body_limits \<Rightarrow> arrival list \<Rightarrow> 'd list \<Rightarrow> 'd reader \<Rightarrow> ('d list \<times> 'd reader) fetch_res" where
  "read_chunks api l [] chain r = Inr (chain, r)"
| "read_chunks api l (Broken e # as) chain r = Inl e"
| "read_chunks api l (Chunk late data # as) chain r =
     (if late then Inl Deadline
      else let r1 = r\<lparr>rd_received := rd_received r + int (length data)\<rparr>
           in if bl_max_bytes l < rd_received r1 then Inl (BodyLimitExceeded ''body_too_large'')
              else let (entities, e) = pipe api chain data
                   in bind_fetch (consume_entities api l entities r1) (\<lambda>r2. bind_fetch e (\<lambda>chain'. read_chunks api l as chain' r2)))"

definition read_body :: "'d decoder_api \<Rightarrow> arrival list \<Rightarrow> string option \<Rightarrow> body_limits \<Rightarrow> body fetch_res" where
  "read_body api arrivals content_encoding l =
     bind_fetch (decoders_for api content_encoding) (\<lambda>chain.
     bind_fetch (read_chunks api l arrivals chain
       \<lparr>rd_decided = (\<not> bl_sitemap l), rd_head = [], rd_inner = [], rd_parts = [], rd_received = 0, rd_decoded = 0\<rparr>) (\<lambda>(chain', r1).
     let (entities, e) = finish api chain'
     in bind_fetch (consume_entities api l entities r1) (\<lambda>r2. bind_fetch e (\<lambda>_.
        bind_fetch (if rd_head r2 \<noteq> [] then consume api l (rd_head r2) r2 else Inr r2) (\<lambda>r3.
        let (pieces, e2) = finish api (rd_inner r3)
        in bind_fetch (count_pieces l pieces r3) (\<lambda>r4. bind_fetch e2 (\<lambda>_.
           Inr \<lparr>bd_data = concat (rd_parts r4), bd_received_bytes = rd_received r4, bd_decoded_bytes = rd_decoded r4,
                bd_stored_compressed = (rd_inner r4 \<noteq> [])\<rparr>)))))))"

section \<open>Limits\<close>

text \<open>What holds of a reader between two steps.\<close>

definition within_limits :: "body_limits \<Rightarrow> 'd reader \<Rightarrow> bool" where
  "within_limits l r \<longleftrightarrow> 0 \<le> rd_decoded r \<and> 0 \<le> rd_received r \<and> rd_decoded r \<le> bl_max_bytes l \<and> rd_received r \<le> bl_max_bytes l
     \<and> (rd_decoded r \<le> bl_ratio_min_bytes l \<or> rd_decoded r \<le> bl_max_ratio l * rd_received r)
     \<and> (rd_inner r = [] \<longrightarrow> rd_decoded r = int (length (concat (rd_parts r)))) \<and> (\<not> rd_decided r \<longrightarrow> rd_inner r = [])"

lemma count_bytes_limits:
  assumes "count_bytes l n r = Inr r'" "0 \<le> n" "0 \<le> rd_decoded r" "0 \<le> rd_received r" "rd_received r \<le> bl_max_bytes l"
    "rd_inner r = [] \<longrightarrow> rd_decoded r + n = int (length (concat (rd_parts r)))" "\<not> rd_decided r \<longrightarrow> rd_inner r = []"
  shows "within_limits l r' \<and> rd_decided r' = rd_decided r \<and> rd_head r' = rd_head r \<and> rd_inner r' = rd_inner r
     \<and> rd_parts r' = rd_parts r \<and> rd_received r' = rd_received r"
  using assms by (auto simp: count_bytes_def within_limits_def Let_def split: if_splits)

lemma count_pieces_limits:
  assumes "count_pieces l ps r = Inr r'" "within_limits l r" "rd_inner r \<noteq> []"
  shows "within_limits l r' \<and> rd_decided r' = rd_decided r \<and> rd_head r' = rd_head r \<and> rd_inner r' = rd_inner r
     \<and> rd_parts r' = rd_parts r \<and> rd_received r' = rd_received r"
  using assms
proof (induction ps arbitrary: r)
  case (Cons p ps)
  then obtain r1 where r1: "count_bytes l (int (length p)) r = Inr r1" "count_pieces l ps r1 = Inr r'" by auto
  have "within_limits l r1 \<and> rd_decided r1 = rd_decided r \<and> rd_head r1 = rd_head r \<and> rd_inner r1 = rd_inner r
      \<and> rd_parts r1 = rd_parts r \<and> rd_received r1 = rd_received r"
    by (rule count_bytes_limits [OF r1(1)]) (use Cons.prems in \<open>auto simp: within_limits_def\<close>)
  then show ?case using Cons.IH [OF r1(2)] Cons.prems by simp
qed simp

lemma length_run_pieces:
  assumes "run_pieces f c ps = (outs, Inr c')" "\<And>c p outs c'. f c p = (outs, Inr c') \<Longrightarrow> length c' = length c"
  shows "length c' = length c"
  using assms(1)
proof (induction ps arbitrary: c outs)
  case (Cons p ps)
  then show ?case using assms(2) by (fastforce split: prod.splits sum.splits)
qed simp

lemma length_pipe_n: "pipe_n n api chain data = (outs, Inr chain') \<Longrightarrow> length chain' = length chain"
proof (induction n arbitrary: chain data outs chain')
  case (Suc n)
  show ?case
  proof (cases chain)
    case (Cons d rest)
    obtain pieces r where f: "da_feed api d data = (pieces, r)" by (metis surj_pair)
    obtain outs' r2 where g: "run_pieces (pipe_n n api) rest pieces = (outs', r2)" by (metis surj_pair)
    obtain d' rest' where "r2 = Inr rest'" "chain' = d' # rest'"
      using Suc.prems Cons f g by (cases r; cases r2) auto
    then show ?thesis using length_run_pieces [OF g [unfolded \<open>r2 = Inr rest'\<close>] Suc.IH] Cons by simp
  qed (use Suc.prems in simp)
qed simp

lemma length_pipe: "pipe api chain data = (outs, Inr chain') \<Longrightarrow> length chain' = length chain"
  unfolding pipe_def by (rule length_pipe_n)

text \<open>\<open>consume\<close> stores the entity, keeps the limits, and keeps the kind of storage.\<close>

lemma consume_limits:
  assumes "consume api l entity r = Inr r'" "within_limits l r"
  shows "within_limits l r' \<and> rd_decided r' = rd_decided r \<and> rd_head r' = rd_head r \<and> (rd_inner r' = [] \<longleftrightarrow> rd_inner r = [])
     \<and> rd_parts r' = rd_parts r @ [entity] \<and> rd_received r' = rd_received r"
proof (cases "rd_inner r = []")
  case True
  then have "count_bytes l (int (length entity)) (r\<lparr>rd_parts := rd_parts r @ [entity]\<rparr>) = Inr r'" using assms by (simp add: consume_def)
  then have "within_limits l r' \<and> rd_decided r' = rd_decided (r\<lparr>rd_parts := rd_parts r @ [entity]\<rparr>) \<and> rd_head r' = rd_head (r\<lparr>rd_parts := rd_parts r @ [entity]\<rparr>)
      \<and> rd_inner r' = rd_inner (r\<lparr>rd_parts := rd_parts r @ [entity]\<rparr>) \<and> rd_parts r' = rd_parts (r\<lparr>rd_parts := rd_parts r @ [entity]\<rparr>)
      \<and> rd_received r' = rd_received (r\<lparr>rd_parts := rd_parts r @ [entity]\<rparr>)"
    by (rule count_bytes_limits) (use True assms(2) in \<open>simp_all add: within_limits_def\<close>)
  then show ?thesis using True by simp
next
  case False
  let ?r1 = "r\<lparr>rd_parts := rd_parts r @ [entity]\<rparr>"
  obtain pieces e where p: "pipe api (rd_inner r) entity = (pieces, e)" by (metis surj_pair)
  then obtain r2 inner where r2: "count_pieces l pieces ?r1 = Inr r2" "e = Inr inner" "r' = r2\<lparr>rd_inner := inner\<rparr>"
    using assms(1) False by (auto simp: consume_def)
  have "within_limits l ?r1" using assms(2) False by (simp add: within_limits_def)
  from count_pieces_limits [OF r2(1) this] False
  have "within_limits l r2 \<and> rd_decided r2 = rd_decided r \<and> rd_head r2 = rd_head r \<and> rd_inner r2 = rd_inner r
      \<and> rd_parts r2 = rd_parts r @ [entity] \<and> rd_received r2 = rd_received r" by simp
  moreover have "inner \<noteq> []" using length_pipe [of api "rd_inner r" entity pieces inner] p r2(2) False by auto
  ultimately show ?thesis using r2(3) False by (auto simp: within_limits_def)
qed

text \<open>A reader that has seen the entity bytes \<open>seen\<close>: the kind of storage depends on the first two of them.\<close>

definition reader_inv :: "body_limits \<Rightarrow> bytes \<Rightarrow> 'd reader \<Rightarrow> bool" where
  "reader_inv l seen r \<longleftrightarrow> within_limits l r \<and> seen = concat (rd_parts r) @ rd_head r
     \<and> (rd_decided r \<longrightarrow> rd_head r = [] \<and> (rd_inner r \<noteq> [] \<longleftrightarrow> bl_sitemap l \<and> take 2 seen = GZIP_MAGIC))
     \<and> (\<not> rd_decided r \<longrightarrow> bl_sitemap l \<and> rd_parts r = [] \<and> length (rd_head r) < 2)
     \<and> (rd_decided r \<and> bl_sitemap l \<longrightarrow> 2 \<le> length seen)"

lemma consume_decided:
  assumes "consume api l entity r = Inr r'" "within_limits l r" "rd_decided r" "rd_head r = []"
    "rd_inner r \<noteq> [] \<longleftrightarrow> bl_sitemap l \<and> take 2 (concat (rd_parts r) @ entity) = GZIP_MAGIC"
    "bl_sitemap l \<longrightarrow> 2 \<le> length (concat (rd_parts r) @ entity)"
  shows "reader_inv l (concat (rd_parts r) @ entity) r' \<and> rd_received r' = rd_received r"
  using consume_limits [OF assms(1,2)] assms(3-) by (auto simp: reader_inv_def)

lemma consume_entity_inv:
  assumes "consume_entity api l entity r = Inr r'" "reader_inv l seen r"
  shows "reader_inv l (seen @ entity) r' \<and> rd_received r' = rd_received r"
proof (cases "rd_decided r")
  case True
  then have "consume api l entity r = Inr r'" using assms(1) by (simp add: consume_entity_def)
  moreover have "seen = concat (rd_parts r)" "rd_head r = []" using assms(2) True by (simp_all add: reader_inv_def)
  moreover have "rd_inner r \<noteq> [] \<longleftrightarrow> bl_sitemap l \<and> take 2 (concat (rd_parts r) @ entity) = GZIP_MAGIC"
    "bl_sitemap l \<longrightarrow> 2 \<le> length (concat (rd_parts r) @ entity)"
    using assms(2) True calculation by (auto simp: reader_inv_def)
  moreover have "within_limits l r" using assms(2) by (simp add: reader_inv_def)
  ultimately show ?thesis using consume_decided [of api l entity r r', OF _ _ True] by blast
next
  case False
  let ?head = "rd_head r @ entity"
  have r: "rd_parts r = []" "seen = rd_head r" "bl_sitemap l" "within_limits l r" "rd_inner r = []" "rd_decoded r = 0"
    using assms(2) False by (auto simp: reader_inv_def within_limits_def)
  show ?thesis
  proof (cases "length ?head < length GZIP_MAGIC")
    case True
    then show ?thesis using assms False r by (auto simp: consume_entity_def reader_inv_def within_limits_def GZIP_MAGIC_def)
  next
    case long: False
    let ?r1 = "r\<lparr>rd_decided := True, rd_head := [], rd_inner := (if take 2 ?head = GZIP_MAGIC then [da_new api ''gzip''] else [])\<rparr>"
    have two: "length GZIP_MAGIC = 2" by (simp add: GZIP_MAGIC_def)
    have "consume api l ?head ?r1 = Inr r'" 
      using assms(1) False long r(5) by (cases "take 2 ?head = GZIP_MAGIC") (simp_all add: consume_entity_def two)
    then have "reader_inv l (concat (rd_parts ?r1) @ ?head) r' \<and> rd_received r' = rd_received ?r1"
      by (rule consume_decided) (use r long two in \<open>auto simp: within_limits_def\<close>)
    then show ?thesis using r by simp
  qed
qed

lemma consume_entities_inv:
  assumes "consume_entities api l es r = Inr r'" "reader_inv l seen r"
  shows "reader_inv l (seen @ concat es) r' \<and> rd_received r' = rd_received r"
  using assms
proof (induction es arbitrary: r seen)
  case (Cons e es)
  then obtain r1 where "consume_entity api l e r = Inr r1" "consume_entities api l es r1 = Inr r'" by auto
  then show ?case using consume_entity_inv [of api l e r r1 seen] Cons.IH [of r1 "seen @ e"] Cons.prems(2) by auto
qed simp

text \<open>The bytes that arrive.\<close>

fun arrived :: "arrival list \<Rightarrow> bytes" where
  "arrived [] = []"
| "arrived (Chunk late data # as) = data @ arrived as"
| "arrived (Broken e # as) = arrived as"

lemma read_chunks_inv:
  assumes "read_chunks api l as chain r = Inr (chain', r')" "reader_inv l seen r" "0 \<le> bl_max_ratio l"
  shows "\<exists>more. reader_inv l (seen @ more) r' \<and> rd_received r' = rd_received r + int (length (arrived as))
     \<and> (chain = [] \<longrightarrow> chain' = [] \<and> more = arrived as)"
  using assms(1,2)
proof (induction as arbitrary: chain r seen)
  case (Cons a as)
  obtain late data where a: "a = Chunk late data" using Cons.prems(1) by (cases a) auto
  let ?r1 = "r\<lparr>rd_received := rd_received r + int (length data)\<rparr>"
  obtain es e where p: "pipe api chain data = (es, e)" by (metis surj_pair)
  then obtain r2 chain2 where r2: "consume_entities api l es ?r1 = Inr r2" "e = Inr chain2" "read_chunks api l as chain2 r2 = Inr (chain', r')"
    and le: "\<not> bl_max_bytes l < rd_received ?r1" and late: "\<not> late"
    using Cons.prems(1) a by (auto simp: Let_def split: if_splits)
  have "bl_max_ratio l * rd_received r \<le> bl_max_ratio l * rd_received ?r1" using assms(3) by (intro mult_left_mono) simp_all
  then have "reader_inv l seen ?r1" using Cons.prems(2) le by (auto simp: reader_inv_def within_limits_def)
  from consume_entities_inv [OF r2(1) this]
  have inv2: "reader_inv l (seen @ concat es) r2" "rd_received r2 = rd_received r + int (length data)" by simp_all
  obtain more where more: "reader_inv l ((seen @ concat es) @ more) r'" "rd_received r' = rd_received r2 + int (length (arrived as))"
    "chain2 = [] \<longrightarrow> chain' = [] \<and> more = arrived as"
    using Cons.IH [OF r2(3) inv2(1)] by blast
  have "es = [data] \<and> chain2 = []" if "chain = []" using that p r2(2) by (auto simp: pipe_def)
  then show ?case using more inv2(2) a by (intro exI [of _ "concat es @ more"]) auto
qed (auto intro: exI [of _ "[]"])


definition demo_decoders :: "unit decoder_api" where
  "demo_decoders = \<lparr>da_new = (\<lambda>_. ()), da_feed = (\<lambda>_ data. ([data], Inr ())), da_finish = (\<lambda>_. ([], Inr ()))\<rparr>"


section \<open>A limit that does not hold\<close>

text \<open>
  A sitemap that is itself a gzip file, sent with a \<open>Content-Encoding\<close>. The limit counts what the inner
  decoder puts out, and a gzip header may carry a file name of any length, which puts out nothing. The
  decoder below does what gzip does on such data: a flag byte says whether a file name follows or a
  payload (of runs, here).
\<close>

fun runs :: "bytes \<Rightarrow> bytes" where
  "runs (n # x # bs) = replicate n x @ runs bs"
| "runs bs = []"

definition named_gzip :: "unit decoder_api" where
  "named_gzip = \<lparr>da_new = (\<lambda>_. ()),
     da_feed = (\<lambda>_ data. if take 3 data = GZIP_MAGIC @ [0] then ([runs (drop 3 data)], Inr ())
                         else if take 3 data = GZIP_MAGIC @ [8] then ([], Inr ()) else ([], Inl (BodyLimitExceeded ''content_decoding_error''))),
     da_finish = (\<lambda>_. ([], Inr ()))\<rparr>"

lemma file_name_escapes_the_limit:
  "map_sum id (\<lambda>b. (length (bd_data b), bd_received_bytes b, bd_decoded_bytes b))
     (read_body named_gzip [Chunk False [0x1F, 0x8B, 0, 1, 0x1F, 1, 0x8B, 1, 8, 100, 65]] (Some ''gzip'')
        \<lparr>bl_max_bytes = 20, bl_max_ratio = 2, bl_ratio_min_bytes = 10, bl_sitemap = True\<rparr>)
   = Inr (103, 11, 0)"
  by code_simp

end
