(* ===== verification/Fetch_Rules.thy ===== *)
theory Fetch_Rules
  imports Fetch_Body Clock Schema Backoff
begin

text \<open>
  The decisions of a fetch that need no connection: \<open>fetch/classify.py\<close> (what a status or an error
  means), \<open>fetch/urls.py\<close> (normal forms), \<open>fetch/guard.py\<close> (the policy of a route and the global
  denylist) and \<open>fetch/robots.py\<close>. URLs are strings of 8-bit characters. The functions of
  \<open>urllib.parse\<close> and the IDNA encoder are the argument \<open>url_lib\<close>, a regular expression is a predicate,
  the parser of HTTP dates and the parser of robots files are arguments.
\<close>

section \<open>Classification\<close>

definition minute :: duration where
  "minute = 60 * second"

definition RETRYABLE_STATUSES :: "nat list" where
  "RETRYABLE_STATUSES = [408, 425, 500, 502, 503, 504]"

definition RETRYABLE_ERRORS :: "string list" where
  "RETRYABLE_ERRORS = [''timeout'', ''network_error'', ''dns_error'', ''permit_lease_too_short'']"

definition QUARANTINE_ERRORS :: "string list" where
  "QUARANTINE_ERRORS = [''body_too_large'', ''decompression_bomb'', ''content_decoding_error'']"

definition RETRY_AFTER_DEFAULT :: duration where "RETRY_AFTER_DEFAULT = 10 * minute"
definition RETRY_AFTER_MIN :: duration where "RETRY_AFTER_MIN = 5 * second"
definition RETRY_AFTER_MAX :: duration where "RETRY_AFTER_MAX = 24 * 60 * minute"

definition BACKOFF :: "duration list" where
  "BACKOFF = [5 * second, 30 * second, 2 * minute, 10 * minute]"

definition FETCH_MAX_ATTEMPTS :: int where
  "FETCH_MAX_ATTEMPTS = 4"

record fetch_decision =
  fd_outcome :: fetch_outcome
  fd_content_access :: content_access
  fd_error_code :: "string option"
  fd_reason :: "string option"
  fd_retry_after :: "duration option"
  fd_route_incident :: bool
  fd_block_origin :: bool
  fd_browser_candidate :: bool
  fd_quarantine :: bool
  fd_not_modified :: bool

definition decision :: "fetch_outcome \<Rightarrow> content_access \<Rightarrow> string option \<Rightarrow> fetch_decision" where
  "decision outcome access code =
     \<lparr>fd_outcome = outcome, fd_content_access = access, fd_error_code = code, fd_reason = None, fd_retry_after = None,
      fd_route_incident = False, fd_block_origin = False, fd_browser_candidate = False, fd_quarantine = False, fd_not_modified = False\<rparr>"

text \<open>The instant of an aware datetime; \<open>parse_date\<close> is \<open>parsedate_to_datetime\<close>, \<open>None\<close> when it raises.\<close>

definition parse_retry_after :: "(string \<Rightarrow> datetime option) \<Rightarrow> string option \<Rightarrow> ts \<Rightarrow> duration fetch_res" where
  "parse_retry_after parse_date v now =
     (let text = strip_ws (case v of None \<Rightarrow> [] | Some x \<Rightarrow> x)
      in bind_fetch
           (if text \<noteq> [] \<and> list_all is_dec text
            then (if MAX_STR_DIGITS < length text then Inl OtherError
                  else Inr (Some (int (min (number 10 text) 86401) * second)))
            else if text \<noteq> []
            then (case parse_date text of Some (Aware x off) \<Rightarrow> Inr (Some (x - off - now)) | _ \<Rightarrow> Inr None)
            else Inr None)
           (\<lambda>delay. case delay of
               None \<Rightarrow> Inr RETRY_AFTER_DEFAULT
             | Some d \<Rightarrow> if d < 0 then Inr RETRY_AFTER_DEFAULT else Inr (min (max d RETRY_AFTER_MIN) RETRY_AFTER_MAX)))"

definition classify_status ::
  "(string \<Rightarrow> datetime option) \<Rightarrow> nat \<Rightarrow> bool \<Rightarrow> string option \<Rightarrow> ts \<Rightarrow> fetch_decision fetch_res" where
  "classify_status parse_date status body_empty retry_after now =
     (let code = Some (''http_'' @ decimal status)
      in if status = 304 then Inr ((decision FetchSuccess AccessUnknown None)\<lparr>fd_not_modified := True\<rparr>)
         else if 200 \<le> status \<and> status < 300
         then (if body_empty then Inr (decision FetchRetryable AccessUnknown (Some ''empty_body''))
               else Inr (decision FetchSuccess (if status = 206 then AccessPartial else AccessFull) None))
         else if status = 429
         then bind_fetch (parse_retry_after parse_date retry_after now) (\<lambda>d.
                Inr ((decision FetchRetryable AccessUnknown code)\<lparr>fd_retry_after := Some d, fd_block_origin := True\<rparr>))
         else if status \<in> set RETRYABLE_STATUSES then Inr (decision FetchRetryable AccessUnknown code)
         else if status \<in> {401, 403}
         then Inr ((decision PermanentFailure AccessBlocked code)\<lparr>fd_route_incident := True, fd_browser_candidate := True\<rparr>)
         else if status \<in> {404, 410} then Inr (decision PermanentFailure Gone code)
         else if status = 451 then Inr (decision PermanentFailure AccessBlocked code)
         else if 300 \<le> status \<and> status < 400
         then Inr ((decision PermanentFailure AccessUnknown (Some ''redirect_invalid''))\<lparr>fd_reason := code\<rparr>)
         else Inr (decision PermanentFailure AccessUnknown code))"

definition classify_error :: "string \<Rightarrow> bool \<Rightarrow> fetch_decision" where
  "classify_error error_code policy =
     (if policy then (decision PermanentFailure AccessUnknown (Some ''policy_blocked''))\<lparr>fd_reason := Some error_code\<rparr>
      else if error_code \<in> set RETRYABLE_ERRORS then decision FetchRetryable AccessUnknown (Some error_code)
      else if error_code = ''media_binary_skipped'' then decision FetchSuccess MetadataOnly (Some error_code)
      else (decision PermanentFailure AccessUnknown (Some error_code))\<lparr>fd_quarantine := error_code \<in> set QUARANTINE_ERRORS\<rparr>)"

record retry_plan =
  rp_retry :: bool
  rp_delay :: "duration option"
  rp_dead_letter :: bool

text \<open>\<open>jitter\<close> is the draw of \<open>uniform(0, 0.2)\<close>.\<close>

definition plan_retry :: "fetch_decision \<Rightarrow> int \<Rightarrow> int \<Rightarrow> rat \<Rightarrow> retry_plan" where
  "plan_retry d attempt max_attempts jitter =
     (if fd_outcome d = FetchSuccess then \<lparr>rp_retry = False, rp_delay = None, rp_dead_letter = False\<rparr>
      else if fd_outcome d = PermanentFailure \<or> max_attempts \<le> attempt then \<lparr>rp_retry = False, rp_delay = None, rp_dead_letter = True\<rparr>
      else let base = BACKOFF ! nat (min (max attempt 1) (int (length BACKOFF)) - 1);
               delay = py_round (of_int base * (1 + jitter))
           in \<lparr>rp_retry = True,
               rp_delay = Some (case fd_retry_after d of None \<Rightarrow> delay | Some r \<Rightarrow> max delay r), rp_dead_letter = False\<rparr>)"

section \<open>Normal forms of URLs\<close>

text \<open>A split URL. \<open>up_port\<close> is \<open>None\<close> when reading \<open>.port\<close> raises.\<close>

record url_parts =
  up_scheme :: string
  up_netloc :: string
  up_hostname :: "string option"
  up_port :: "nat option option"
  up_username :: "string option"
  up_password :: "string option"
  up_path :: string
  up_query :: string
  up_fragment :: string

record url_lib =
  ul_split :: "string \<Rightarrow> url_parts option"
  ul_unsplit :: "string \<Rightarrow> string \<Rightarrow> string \<Rightarrow> string \<Rightarrow> string \<Rightarrow> string"
  ul_join :: "string \<Rightarrow> string \<Rightarrow> string option"
  ul_idna :: "string \<Rightarrow> string option"

definition DEFAULT_PORTS :: "(string \<times> nat) list" where
  "DEFAULT_PORTS = [(''http'', 80), (''https'', 443)]"

definition TRACKING_QUERY_KEYS :: "string list" where
  "TRACKING_QUERY_KEYS = [''fbclid'', ''gclid'', ''dclid'', ''yclid'', ''msclkid'', ''mc_cid'', ''mc_eid'', ''_ga'', ''_gl'', ''igshid'']"

definition starts_with :: "string \<Rightarrow> string \<Rightarrow> bool" where
  "starts_with s prefix \<longleftrightarrow> take (length prefix) s = prefix"

definition is_host_char :: "char \<Rightarrow> bool" where
  "is_host_char c \<longleftrightarrow> c \<in> set ''ABCDEFGHIJKLMNOPQRSTUVWXYZabcdefghijklmnopqrstuvwxyz0123456789_-''"

definition ascii_host :: "string \<Rightarrow> bool" where
  "ascii_host h =
     (let ps = split_on CHR ''.'' h; labels = (if 1 < length ps \<and> last ps = [] then butlast ps else ps)
      in list_all (\<lambda>p. p \<noteq> [] \<and> list_all is_host_char p) labels)"

definition normal_host :: "url_lib \<Rightarrow> string \<Rightarrow> string fetch_res" where
  "normal_host lib hostname =
     (if CHR '':'' \<in> set hostname then Inr (''['' @ map lower_char hostname @ '']'')
      else case ul_idna lib hostname of
          Some h \<Rightarrow> Inr h
        | None \<Rightarrow> if ascii_host hostname then Inr (map lower_char hostname) else Inl (UrlError ''url_invalid''))"

definition split_url :: "url_lib \<Rightarrow> string \<Rightarrow> (string \<times> string \<times> nat option \<times> string \<times> string) fetch_res" where
  "split_url lib raw =
     (case ul_split lib (strip_ws raw) of
        None \<Rightarrow> Inl (UrlError ''url_invalid'')
      | Some parts \<Rightarrow>
          (case up_port parts of
             None \<Rightarrow> Inl (UrlError ''url_invalid'')
           | Some port \<Rightarrow>
               (let scheme = map lower_char (up_scheme parts)
                in case up_hostname parts of
                     None \<Rightarrow> Inl (UrlError ''url_invalid'')
                   | Some hostname \<Rightarrow>
                       if hostname = [] then Inl (UrlError ''url_invalid'')
                       else if up_username parts \<noteq> None \<or> up_password parts \<noteq> None then Inl (UrlError ''url_userinfo_forbidden'')
                       else bind_fetch (normal_host lib hostname) (\<lambda>host.
                         Inr (scheme, host, (if port = map_of DEFAULT_PORTS scheme then None else port),
                              (if up_path parts = [] then ''/'' else up_path parts), up_query parts)))))"

definition netloc :: "string \<Rightarrow> nat option \<Rightarrow> string" where
  "netloc host port = (case port of None \<Rightarrow> host | Some p \<Rightarrow> host @ '':'' @ decimal p)"

definition is_tracking :: "string \<Rightarrow> bool" where
  "is_tracking part \<longleftrightarrow> (let key = map lower_char (takeWhile (\<lambda>c. c \<noteq> CHR ''='') part)
     in key \<in> set TRACKING_QUERY_KEYS \<or> starts_with key ''utm_'')"

definition strip_tracking :: "string \<Rightarrow> string" where
  "strip_tracking query = join_with ''&'' (filter (\<lambda>part. part \<noteq> [] \<and> \<not> is_tracking part) (split_on CHR ''&'' query))"

text \<open>\<open>tracking_query_keys\<close> of \<open>contracts/identity.py\<close>, as the check of \<open>NormalizedUrl\<close>.\<close>

definition has_tracking :: "string \<Rightarrow> bool" where
  "has_tracking url =
     (let query = takeWhile (\<lambda>c. c \<noteq> CHR ''#'') (drop 1 (dropWhile (\<lambda>c. c \<noteq> CHR ''?'') url))
      in list_ex (\<lambda>part. part \<noteq> [] \<and> is_tracking part) (split_on CHR ''&'' query))"

definition normalize_url :: "url_lib \<Rightarrow> string \<Rightarrow> string fetch_res" where
  "normalize_url lib raw =
     bind_fetch (split_url lib raw) (\<lambda>(scheme, host, port, path, query).
       let normalized = ul_unsplit lib scheme (netloc host port) path (strip_tracking query) []
       in if normalized = [] \<or> has_tracking normalized then Inl OtherError else Inr normalized)"

definition normalize_origin :: "url_lib \<Rightarrow> string \<Rightarrow> string fetch_res" where
  "normalize_origin lib url = bind_fetch (split_url lib url) (\<lambda>(scheme, host, port, _, _). Inr (scheme @ ''://'' @ netloc host port))"

section \<open>Route guard\<close>

record denylist_cache =
  dc_mtime :: "nat option"
  dc_hosts :: "string list"
  dc_patterns :: "(string \<Rightarrow> bool) list"

text \<open>The file as one look at it finds it: unreadable, or its time stamp and its lines (\<open>None\<close>: not UTF-8).\<close>

datatype denylist_file = Unreadable | Lines nat "string list option"

fun denylist_entries ::
  "(string \<Rightarrow> (string \<Rightarrow> bool) option) \<Rightarrow> string list \<Rightarrow> string list \<Rightarrow> (string \<Rightarrow> bool) list \<Rightarrow> (string list \<times> (string \<Rightarrow> bool) list) option" where
  "denylist_entries compile [] hosts patterns = Some (hosts, patterns)"
| "denylist_entries compile (raw # lines) hosts patterns =
     (let line = strip_ws raw
      in if line = [] \<or> starts_with line ''#'' then denylist_entries compile lines hosts patterns
         else if starts_with line ''re:''
         then (case compile (drop 3 line) of None \<Rightarrow> None | Some p \<Rightarrow> denylist_entries compile lines hosts (patterns @ [p]))
         else denylist_entries compile lines (rstrip CHR ''.'' (map lower_char line) # hosts) patterns)"

definition denylist_load ::
  "(string \<Rightarrow> (string \<Rightarrow> bool) option) \<Rightarrow> denylist_file \<Rightarrow> denylist_cache \<Rightarrow> unit fetch_res \<times> denylist_cache" where
  "denylist_load compile file c =
     (case file of
        Unreadable \<Rightarrow> (Inl (PolicyBlocked ''global_denylist_unavailable''), c)
      | Lines mtime text \<Rightarrow>
          if dc_mtime c = Some mtime then (Inr (), c)
          else (case (case text of None \<Rightarrow> None | Some lines \<Rightarrow> denylist_entries compile lines [] []) of
                  None \<Rightarrow> (Inl (PolicyBlocked ''global_denylist_unavailable''), c)
                | Some (hosts, patterns) \<Rightarrow> (Inr (), \<lparr>dc_mtime = Some mtime, dc_hosts = hosts, dc_patterns = patterns\<rparr>)))"

definition denied_host :: "string list \<Rightarrow> string \<Rightarrow> bool" where
  "denied_host hosts host =
     (let labels = split_on CHR ''.'' host in list_ex (\<lambda>i. join_with ''.'' (drop i labels) \<in> set hosts) [0..<length labels])"

text \<open>\<open>file = None\<close>: no denylist is configured.\<close>

definition denylist_check ::
  "(string \<Rightarrow> (string \<Rightarrow> bool) option) \<Rightarrow> denylist_file option \<Rightarrow> string \<Rightarrow> string \<Rightarrow> denylist_cache \<Rightarrow> unit fetch_res \<times> denylist_cache" where
  "denylist_check compile file url host c =
     (case file of
        None \<Rightarrow> (Inr (), c)
      | Some f \<Rightarrow>
          (case denylist_load compile f c of
             (Inl e, c') \<Rightarrow> (Inl e, c')
           | (Inr _, c') \<Rightarrow>
               if denied_host (dc_hosts c') host then (Inl (PolicyBlocked ''global_denylist''), c')
               else if list_ex (\<lambda>p. p url) (dc_patterns c') then (Inl (PolicyBlocked ''global_denylist''), c')
               else (Inr (), c')))"

record guarded_url =
  gu_url :: string
  gu_scheme :: string
  gu_host :: string
  gu_port :: nat

record route_guard =
  rg_allowed :: "(string \<Rightarrow> bool) list"
  rg_denied :: "(string \<Rightarrow> bool) list"
  rg_ports :: "nat list"
  rg_compile :: "string \<Rightarrow> (string \<Rightarrow> bool) option"

definition guard_check ::
  "url_lib \<Rightarrow> route_guard \<Rightarrow> denylist_file option \<Rightarrow> string \<Rightarrow> denylist_cache \<Rightarrow> guarded_url fetch_res \<times> denylist_cache" where
  "guard_check lib g file url c =
     (case ul_split lib url of
        None \<Rightarrow> (Inl (PolicyBlocked ''url_invalid''), c)
      | Some parts \<Rightarrow>
          (case up_port parts of
             None \<Rightarrow> (Inl (PolicyBlocked ''url_invalid''), c)
           | Some port \<Rightarrow>
               (let scheme = map lower_char (up_scheme parts)
                in case map_of DEFAULT_PORTS scheme of
                     None \<Rightarrow> (Inl (PolicyBlocked ''scheme_forbidden''), c)
                   | Some usual \<Rightarrow>
                       (case normalize_url lib url of
                          Inl (UrlError code) \<Rightarrow> (Inl (PolicyBlocked code), c)
                        | Inl e \<Rightarrow> (Inl e, c)
                        | Inr normalized \<Rightarrow>
                            (let effective_port = (case port of None \<Rightarrow> usual | Some p \<Rightarrow> p)
                             in if effective_port \<notin> set (rg_ports g) then (Inl (PolicyBlocked ''port_forbidden''), c)
                                else case ul_split lib normalized of
                                    None \<Rightarrow> (Inl OtherError, c)
                                  | Some nparts \<Rightarrow>
                                      (let host = (case up_hostname nparts of None \<Rightarrow> [] | Some h \<Rightarrow> h)
                                       in case denylist_check (rg_compile g) file normalized host c of
                                            (Inl e, c') \<Rightarrow> (Inl e, c')
                                          | (Inr _, c') \<Rightarrow>
                                              if list_ex (\<lambda>p. p normalized) (rg_denied g) then (Inl (PolicyBlocked ''route_denied''), c')
                                              else if rg_allowed g \<noteq> [] \<and> \<not> list_ex (\<lambda>p. p normalized) (rg_allowed g)
                                              then (Inl (PolicyBlocked ''route_not_allowed''), c')
                                              else (Inr \<lparr>gu_url = normalized, gu_scheme = scheme, gu_host = host, gu_port = effective_port\<rparr>, c')))))))"

section \<open>Robots\<close>

record robots_snapshot =
  rs_fetched_at :: ts
  rs_http_status :: "int option"
  rs_sha256 :: "string option"
  rs_object_key :: "string option"

definition snapshot_fresh :: "robots_snapshot \<Rightarrow> ts \<Rightarrow> duration \<Rightarrow> bool" where
  "snapshot_fresh snap now ttl \<longleftrightarrow> now - rs_fetched_at snap < ttl"

definition robots_url :: "url_lib \<Rightarrow> string \<Rightarrow> string fetch_res" where
  "robots_url lib url =
     (case ul_split lib url of None \<Rightarrow> Inl OtherError
      | Some parts \<Rightarrow> Inr (ul_unsplit lib (up_scheme parts) (up_netloc parts) ''/robots.txt'' [] []))"

definition ROBOTS_POLICIES :: "string list" where
  "ROBOTS_POLICIES = [''diagnostic'', ''ignore'', ''respect'']"

text \<open>\<open>can_fetch\<close> is the parser of robots files with the user agent of the worker.\<close>

definition robots_allows :: "(bytes \<Rightarrow> string \<Rightarrow> bool) \<Rightarrow> string \<Rightarrow> bytes option \<Rightarrow> string \<Rightarrow> bool fetch_res" where
  "robots_allows can_fetch policy data url =
     (if policy \<notin> set ROBOTS_POLICIES then Inl OtherError
      else if policy \<noteq> ''respect'' then Inr True
      else case data of None \<Rightarrow> Inr True | Some d \<Rightarrow> Inr (can_fetch d url))"

section \<open>The denylist\<close>

lemma split_on_not_Nil [simp]: "split_on c s \<noteq> []"
  by (cases s) (auto split: list.splits)

lemma split_on_append_sep: "split_on c (x @ c # y) = split_on c x @ split_on c y"
proof (induction x)
  case (Cons a x)
  then show ?case using split_on_not_Nil [of c x] by (cases "split_on c x") auto
qed simp

lemma join_split: "join_with [c] (split_on c s) = s"
proof (induction s)
  case (Cons x s)
  then show ?case by (cases "split_on c s" rule: list.exhaust; cases "tl (split_on c s)") (auto split: list.splits)
qed simp

lemma denied_host_or_subdomain:
  assumes "h \<in> set hosts" "host = h \<or> (\<exists>x. host = x @ CHR ''.'' # h)"
  shows "denied_host hosts host"
  using assms(2)
proof
  assume "host = h"
  then show ?thesis using assms(1) by (auto simp: denied_host_def Let_def list_ex_iff join_split intro!: bexI [of _ 0])
next
  assume "\<exists>x. host = x @ CHR ''.'' # h"
  then obtain x where host: "host = x @ CHR ''.'' # h" by blast
  let ?ls = "split_on CHR ''.'' host" and ?i = "length (split_on CHR ''.'' x)"
  have "drop ?i ?ls = split_on CHR ''.'' h" "?i < length ?ls" by (simp_all add: host split_on_append_sep)
  then have "join_with ''.'' (drop ?i ?ls) \<in> set hosts" "?i \<in> set [0..<length ?ls]" using assms(1) by (simp_all add: join_split)
  then show ?thesis unfolding denied_host_def Let_def list_ex_iff by blast
qed

lemma denylist_entries_hosts:
  assumes "denylist_entries compile lines hs ps = Some (hosts, patterns)"
  shows "set hs \<subseteq> set hosts \<and> (\<forall>raw\<in>set lines. strip_ws raw \<noteq> [] \<longrightarrow> \<not> starts_with (strip_ws raw) ''#'' \<longrightarrow> \<not> starts_with (strip_ws raw) ''re:''
     \<longrightarrow> rstrip CHR ''.'' (map lower_char (strip_ws raw)) \<in> set hosts)"
  using assms
proof (induction lines arbitrary: hs ps)
  case (Cons raw lines)
  show ?case
  proof (cases "strip_ws raw = [] \<or> starts_with (strip_ws raw) ''#''")
    case True
    then show ?thesis using Cons.IH [of hs ps] Cons.prems by auto
  next
    case False
    then show ?thesis
      using Cons.IH [of hs] Cons.IH [of "rstrip CHR ''.'' (map lower_char (strip_ws raw)) # hs" ps] Cons.prems
      by (cases "starts_with (strip_ws raw) ''re:''") (auto simp: Let_def split: option.splits)
  qed
qed simp

text \<open>What the cache says of the file it was read from.\<close>

definition cache_of :: "(string \<Rightarrow> (string \<Rightarrow> bool) option) \<Rightarrow> denylist_file \<Rightarrow> denylist_cache \<Rightarrow> bool" where
  "cache_of compile file c \<longleftrightarrow>
     (\<forall>mtime. dc_mtime c = Some mtime \<and> (\<exists>text. file = Lines mtime text)
        \<longrightarrow> (\<exists>lines. file = Lines mtime (Some lines) \<and> denylist_entries compile lines [] [] = Some (dc_hosts c, dc_patterns c)))"

lemma denylist_load_cache:
  assumes "denylist_load compile file c = (Inr u, c')" "cache_of compile file c"
  shows "\<exists>mtime lines. file = Lines mtime (Some lines) \<and> denylist_entries compile lines [] [] = Some (dc_hosts c', dc_patterns c')
     \<and> cache_of compile file c'"
  using assms by (fastforce simp: denylist_load_def cache_of_def split: denylist_file.splits if_splits option.splits)

lemma guard_check_Inr:
  assumes "guard_check lib g file url c = (Inr u, c')"
  shows "denylist_check (rg_compile g) file (gu_url u) (gu_host u) c = (Inr (), c') \<and> gu_port u \<in> set (rg_ports g)
     \<and> gu_scheme u \<in> {''http'', ''https''} \<and> normalize_url lib url = Inr (gu_url u)
     \<and> \<not> list_ex (\<lambda>p. p (gu_url u)) (rg_denied g) \<and> (rg_allowed g \<noteq> [] \<longrightarrow> list_ex (\<lambda>p. p (gu_url u)) (rg_allowed g))
     \<and> (\<exists>parts. ul_split lib url = Some parts \<and> gu_scheme u = map lower_char (up_scheme parts))"
proof -
  obtain parts port usual where p: "ul_split lib url = Some parts" "up_port parts = Some port" "map_of DEFAULT_PORTS (map lower_char (up_scheme parts)) = Some usual"
    using assms by (auto simp: guard_check_def Let_def split: option.splits)
  obtain n where n: "normalize_url lib url = Inr n"
    using assms p by (auto simp: guard_check_def Let_def split: sum.splits fetch_error.splits)
  obtain np where np: "ul_split lib n = Some np" "(case port of None \<Rightarrow> usual | Some p \<Rightarrow> p) \<in> set (rg_ports g)"
    using assms p n by (auto simp: guard_check_def Let_def split: option.splits if_splits)
  let ?host = "case up_hostname np of None \<Rightarrow> [] | Some h \<Rightarrow> h"
  obtain d c1 where d: "denylist_check (rg_compile g) file n ?host c = (d, c1)" by (metis surj_pair)
  have "d = Inr () \<and> c1 = c' \<and> u = \<lparr>gu_url = n, gu_scheme = map lower_char (up_scheme parts), gu_host = ?host, gu_port = (case port of None \<Rightarrow> usual | Some p \<Rightarrow> p)\<rparr>
      \<and> \<not> list_ex (\<lambda>p. p n) (rg_denied g) \<and> (rg_allowed g \<noteq> [] \<longrightarrow> list_ex (\<lambda>p. p n) (rg_allowed g))"
    using assms p n np d by (cases d) (auto simp: guard_check_def Let_def split: if_splits)
  moreover have "map lower_char (up_scheme parts) \<in> {''http'', ''https''}"
    using p(3) by (auto simp: DEFAULT_PORTS_def split: if_splits)
  ultimately show ?thesis using d n np p by auto
qed

text \<open>
  A host on the global denylist is not fetched, nor is any host below it, in any route and at
  any hop: if the guard lets a URL pass while the configured file lists a host, then the host of the
  URL is not that host and does not end in it after a dot. An unreadable file lets nothing pass.
\<close>

theorem denylisted_hosts_are_refused:
  assumes pass: "guard_check lib g (Some file) url c = (Inr u, c')" and cache: "cache_of (rg_compile g) file c"
  shows "\<exists>mtime lines. file = Lines mtime (Some lines) \<and> cache_of (rg_compile g) file c'
     \<and> (\<forall>raw\<in>set lines. strip_ws raw = [] \<or> starts_with (strip_ws raw) ''#'' \<or> starts_with (strip_ws raw) ''re:''
          \<or> (let h = rstrip CHR ''.'' (map lower_char (strip_ws raw)) in gu_host u \<noteq> h \<and> (\<forall>x. gu_host u \<noteq> x @ CHR ''.'' # h)))"
proof -
  have check: "denylist_check (rg_compile g) (Some file) (gu_url u) (gu_host u) c = (Inr (), c')" using guard_check_Inr [OF pass] by simp
  obtain v where load: "denylist_load (rg_compile g) file c = (Inr v, c')" and ok: "\<not> denied_host (dc_hosts c') (gu_host u)"
    using check by (auto simp: denylist_check_def split: sum.splits prod.splits if_splits)
  from denylist_load_cache [OF load cache] obtain mtime lines where f: "file = Lines mtime (Some lines)"
    "denylist_entries (rg_compile g) lines [] [] = Some (dc_hosts c', dc_patterns c')" "cache_of (rg_compile g) file c'" by blast
  show ?thesis
    using f ok denylist_entries_hosts [OF f(2)] denied_host_or_subdomain [of _ "dc_hosts c'" "gu_host u"] unfolding Let_def by blast
qed

definition demo_lib :: url_lib where
  "demo_lib = \<lparr>ul_split = (\<lambda>url. if url = ''https://b.org/x'' then Some
       \<lparr>up_scheme = ''https'', up_netloc = ''b.org'', up_hostname = Some ''b.org'', up_port = Some None, up_username = None,
        up_password = None, up_path = ''/x'', up_query = [], up_fragment = []\<rparr> else None),
     ul_unsplit = (\<lambda>s n p q f. s @ ''://'' @ n @ p), ul_join = (\<lambda>_ _. None), ul_idna = Some\<rparr>"

definition demo_guard :: route_guard where
  "demo_guard = \<lparr>rg_allowed = [], rg_denied = [], rg_ports = [80, 443], rg_compile = (\<lambda>_. None)\<rparr>"

definition no_cache :: denylist_cache where
  "no_cache = \<lparr>dc_mtime = None, dc_hosts = [], dc_patterns = []\<rparr>"

lemma demo_split: "split_url demo_lib ''https://b.org/x'' = Inr (''https'', ''b.org'', None, ''/x'', [])"
  by code_simp

lemma demo_normalized: "normalize_url demo_lib ''https://b.org/x'' = Inr ''https://b.org/x''"
proof -
  have "\<not> has_tracking ''https://b.org/x''" "strip_tracking [] = []" by code_simp+
  then show ?thesis using demo_split by (simp add: normalize_url_def demo_lib_def netloc_def)
qed

theorem denylisted_hosts_are_refused_witness:
  "\<exists>c'. guard_check demo_lib demo_guard (Some (Lines 7 (Some [''# urgent'', ''A.org.'']))) ''https://b.org/x'' no_cache
      = (Inr \<lparr>gu_url = ''https://b.org/x'', gu_scheme = ''https'', gu_host = ''b.org'', gu_port = 443\<rparr>, c')
    \<and> cache_of (rg_compile demo_guard) (Lines 7 (Some [''# urgent'', ''A.org.''])) c'"
proof -
  let ?f = "Lines 7 (Some [''# urgent'', ''A.org.''])" and ?u = "\<lparr>gu_url = ''https://b.org/x'', gu_scheme = ''https'', gu_host = ''b.org'', gu_port = 443\<rparr>"
  have r: "guard_check demo_lib demo_guard (Some ?f) ''https://b.org/x'' no_cache = (Inr ?u, \<lparr>dc_mtime = Some 7, dc_hosts = [''a.org''], dc_patterns = []\<rparr>)"
  proof -
    have d: "denylist_entries (\<lambda>_. None) [''# urgent'', ''A.org.''] [] [] = Some ([''a.org''], [])"
    proof -
      have "strip_ws ''# urgent'' = ''# urgent''" "strip_ws ''A.org.'' = ''A.org.''" "rstrip CHR ''.'' (map lower_char ''A.org.'') = ''a.org''" by code_simp+
      then show ?thesis by (simp add: starts_with_def)
    qed
    have h: "\<not> denied_host [''a.org''] ''b.org''" by code_simp
    show ?thesis using demo_normalized d h
      by (simp add: guard_check_def demo_guard_def demo_lib_def DEFAULT_PORTS_def lower_char_def denylist_check_def denylist_load_def no_cache_def)
  qed
  have "cache_of (rg_compile demo_guard) ?f no_cache" by (simp add: cache_of_def no_cache_def)
  from denylisted_hosts_are_refused [OF r this] show ?thesis using r by blast
qed

end
