(* ===== verification/Safe_Fetcher.thy ===== *)
theory Safe_Fetcher
  imports Fetch_Rules Limiter "HOL-Library.AList"
begin

text \<open>
  \<open>fetch/client.py\<close>, \<open>fetch/permits.py\<close> and \<open>fetch/transport.py\<close>: one logical fetch with its redirects, over
  the limiter of \<open>Limiter\<close>. What happens outside of the process is an argument: for every hop a
  \<open>hop_env\<close> with the clocks, the denylist file, the resolver, what other clients did to the
  database, and the answer of the server; a timeout that strikes at an await is one of its errors.
  httpx takes the host and port to connect to from the URL by its own parser, \<open>cx_target\<close>.

  The log records what leaves the process: permits acquired and connections opened.
\<close>

section \<open>Configuration, requests, results\<close>

record fetch_config =
  fc_user_agent :: string
  fc_max_body_bytes :: int
  fc_max_sitemap_bytes :: int
  fc_max_decompression_ratio :: int
  fc_ratio_guard_min_bytes :: int
  fc_media_binaries :: bool
  fc_total_timeout :: rat
  fc_max_redirects :: nat

definition MIB :: int where
  "MIB = 1024 * 1024"

record fetch_request =
  fq_url :: string
  fq_kind :: string
  fq_job_id :: "uuid option"
  fq_if_none_match :: "string option"
  fq_if_modified_since :: "string option"
  fq_total_timeout :: "rat option"

record permit =
  pm_permit_id :: uuid
  pm_origin :: string
  pm_lease_expires_at :: ts

datatype permit_answer = Granted permit | Denied string "ts option"

record hop =
  hop_url :: string
  hop_address :: ip
  hop_status :: nat

record fetch_result =
  fx_decision :: fetch_decision
  fx_requested_url :: string
  fx_final_url :: "string option"
  fx_status :: "nat option"
  fx_headers :: "(string \<times> string) list"
  fx_body :: "bytes option"
  fx_decoded_bytes :: int
  fx_body_compressed :: bool
  fx_media_type :: "string option"
  fx_hops :: "hop list"
  fx_denied :: "(string \<times> ts option) option"

record fetch_ctx =
  cx_lib :: url_lib
  cx_guard :: route_guard
  cx_config :: fetch_config
  cx_ip_address :: "string \<Rightarrow> ip option"
  cx_parse_date :: "string \<Rightarrow> datetime option"
  cx_redact :: "string \<Rightarrow> string"
  cx_target :: "string \<Rightarrow> string \<times> nat"
  cx_owner :: string
  cx_lease_seconds :: int

record response =
  rp_status :: nat
  rp_headers :: "(string \<times> string) list"
  rp_location :: "string option"
  rp_arrivals :: "arrival list"

text \<open>
  A call to the database: what others did since the last one, the clock and the fresh identifier of
  the call, and the error the connection raises, with whether the transaction was committed.
\<close>

record db_call =
  dbc_before :: "db \<Rightarrow> db"
  dbc_utcnow :: ts
  dbc_id :: uuid
  dbc_error :: "(fetch_error \<times> bool) option"

record hop_env =
  he_clock :: rat
  he_denylist :: "denylist_file option"
  he_cut :: "fetch_error option"
  he_resolve :: "string \<Rightarrow> nat \<Rightarrow> string list option"
  he_acquire :: db_call
  he_now :: ts
  he_clock2 :: rat
  he_response :: "response fetch_res"
  he_now2 :: ts
  he_block :: db_call

datatype fetch_event = Acquired string permit | Connected string ip string permit rat ts

record fetch_state =
  fs_cache :: denylist_cache
  fs_pins :: "((string \<times> nat) \<times> ip) list"
  fs_held :: "(string \<times> permit) list"
  fs_hops :: "hop list"
  fs_log :: "fetch_event list"
  fs_db :: db

section \<open>Permits\<close>

definition db_call :: "db_call \<Rightarrow> (db \<Rightarrow> 'a fetch_res \<times> db) \<Rightarrow> db \<Rightarrow> 'a fetch_res \<times> db" where
  "db_call call body s =
     (let s1 = dbc_before call s
      in case dbc_error call of
           None \<Rightarrow> body s1
         | Some (e, committed) \<Rightarrow> (Inl e, if committed then snd (body s1) else s1))"

definition deny_text :: "deny_reason \<Rightarrow> string" where
  "deny_text r = (case r of DenyBlocked \<Rightarrow> ''blocked'' | DenyRate \<Rightarrow> ''rate'' | DenyConcurrency \<Rightarrow> ''concurrency'')"

definition pg_acquire :: "fetch_ctx \<Rightarrow> db_call \<Rightarrow> string \<Rightarrow> uuid option \<Rightarrow> db \<Rightarrow> permit_answer fetch_res \<times> db" where
  "pg_acquire x call origin job_id s =
     (case acquire_permit (dbc_id call) origin (cx_owner x) (cx_lease_seconds x) job_id (dbc_utcnow call) None s of
        Inl e \<Rightarrow> (if e = NotFoundError then Inr (Denied ''unknown_origin'' None) else Inl OtherError, s)
      | Inr (d, s') \<Rightarrow>
          (case (if pd_granted d then pd_permit d else None) of
             Some p \<Rightarrow> (Inr (Granted \<lparr>pm_permit_id = p_permit_id p, pm_origin = origin, pm_lease_expires_at = p_lease_expires_at p\<rparr>), s')
           | None \<Rightarrow> (Inr (Denied (case pd_reason d of None \<Rightarrow> ''rate'' | Some r \<Rightarrow> deny_text r) (pd_retry_after d)), s')))"

definition pg_release :: "fetch_ctx \<Rightarrow> db_call \<Rightarrow> permit \<Rightarrow> db \<Rightarrow> unit fetch_res \<times> db" where
  "pg_release x call p s =
     (case release_permit (pm_permit_id p) (Some (cx_owner x)) (dbc_utcnow call) None s of
        Inl e \<Rightarrow> (Inl OtherError, s) | Inr (_, s') \<Rightarrow> (Inr (), s'))"

definition pg_block :: "fetch_ctx \<Rightarrow> db_call \<Rightarrow> string \<Rightarrow> ts \<Rightarrow> string \<Rightarrow> db \<Rightarrow> unit fetch_res \<times> db" where
  "pg_block x call origin until reason s =
     (case block_origin (dbc_id call) (\<lambda>_. Inl TypeError) origin (Aware until 0) (ulit (cx_owner x)) (ulit reason) None (dbc_utcnow call) None s of
        Inl e \<Rightarrow> (Inl OtherError, s) | Inr (_, s') \<Rightarrow> (Inr (), s'))"

section \<open>Connections\<close>

definition pin :: "string \<Rightarrow> nat \<Rightarrow> ip \<Rightarrow> ((string \<times> nat) \<times> ip) list \<Rightarrow> ((string \<times> nat) \<times> ip) list" where
  "pin host port address pins = AList.update (map lower_char host, port) address pins"

definition strip_brackets :: "string \<Rightarrow> string" where
  "strip_brackets h = (let b = (\<lambda>c. c = CHR ''['' \<or> c = CHR '']'') in rev (dropWhile b (rev (dropWhile b h))))"

text \<open>\<open>None\<close>: refused, no address was checked for that host and port.\<close>

definition connect_tcp :: "((string \<times> nat) \<times> ip) list \<Rightarrow> string \<Rightarrow> nat \<Rightarrow> ip option" where
  "connect_tcp pins host port = map_of pins (strip_brackets (map lower_char host), port)"

section \<open>One fetch\<close>

definition REDIRECT_STATUSES :: "nat list" where
  "REDIRECT_STATUSES = [301, 302, 303, 307, 308]"

definition PERMIT_EXPIRY_MARGIN_SECONDS :: rat where
  "PERMIT_EXPIRY_MARGIN_SECONDS = 1"

definition SAFE_RESPONSE_HEADERS :: "string list" where
  "SAFE_RESPONSE_HEADERS = [''content-type'', ''content-length'', ''content-encoding'', ''etag'', ''last-modified'', ''retry-after'', ''location'']"

definition failed :: "fetch_ctx \<Rightarrow> fetch_request \<Rightarrow> hop list \<Rightarrow> fetch_decision \<Rightarrow> fetch_result" where
  "failed x q hops d =
     \<lparr>fx_decision = d, fx_requested_url = cx_redact x (fq_url q), fx_final_url = None, fx_status = None, fx_headers = [], fx_body = None,
      fx_decoded_bytes = 0, fx_body_compressed = False, fx_media_type = None, fx_hops = hops, fx_denied = None\<rparr>"

definition denied_result :: "fetch_ctx \<Rightarrow> fetch_request \<Rightarrow> hop list \<Rightarrow> string \<Rightarrow> ts option \<Rightarrow> bool \<Rightarrow> ts \<Rightarrow> fetch_result" where
  "denied_result x q hops reason retry_after redirected now =
     (if reason = ''unknown_origin''
      then failed x q hops (classify_error (if redirected then ''redirect_origin_unknown'' else ''origin_unknown'') False)
      else (failed x q hops ((decision FetchRetryable AccessUnknown (Some (''permit_'' @ reason)))
              \<lparr>fd_retry_after := map_option (\<lambda>t. max (t - now) 0) retry_after\<rparr>))\<lparr>fx_denied := Some (reason, retry_after)\<rparr>)"

definition next_url :: "url_lib \<Rightarrow> string \<Rightarrow> string \<Rightarrow> string fetch_res" where
  "next_url lib current location =
     (case (case ul_join lib current (strip_ws location) of None \<Rightarrow> None | Some u \<Rightarrow> ul_split lib u) of
        None \<Rightarrow> Inl (RedirectRefused ''redirect_location_invalid'')
      | Some joined \<Rightarrow>
          (case ul_split lib current of
             None \<Rightarrow> Inl OtherError
           | Some cur \<Rightarrow>
               if up_scheme cur = ''https'' \<and> map lower_char (up_scheme joined) = ''http'' then Inl (RedirectRefused ''redirect_downgrade'')
               else Inr (ul_unsplit lib (up_scheme joined) (up_netloc joined) (up_path joined) (up_query joined) [])))"

definition request_headers :: "fetch_ctx \<Rightarrow> fetch_request \<Rightarrow> nat \<Rightarrow> (string \<times> string) list" where
  "request_headers x q hop =
     [(''User-Agent'', fc_user_agent (cx_config x)), (''Accept'', ''*/*''), (''Accept-Encoding'', ''gzip, deflate, br'')]
     @ (case fq_if_none_match q of Some v \<Rightarrow> if hop = 0 \<and> v \<noteq> [] then [(''If-None-Match'', v)] else [] | None \<Rightarrow> [])
     @ (case fq_if_modified_since q of Some v \<Rightarrow> if hop = 0 \<and> v \<noteq> [] then [(''If-Modified-Since'', v)] else [] | None \<Rightarrow> [])"

definition header :: "response \<Rightarrow> string \<Rightarrow> string" where
  "header r k = (case map_of (rp_headers r) k of None \<Rightarrow> [] | Some v \<Rightarrow> v)"

definition media_type_of :: "response \<Rightarrow> string" where
  "media_type_of r = map lower_char (strip_ws (hd (split_on CHR '';'' (header r ''content-type''))))"

definition response_result :: "fetch_ctx \<Rightarrow> fetch_request \<Rightarrow> hop list \<Rightarrow> response \<Rightarrow> fetch_decision \<Rightarrow> body option \<Rightarrow> fetch_result" where
  "response_result x q hops r d bd =
     \<lparr>fx_decision = d, fx_requested_url = cx_redact x (fq_url q), fx_final_url = Some (hop_url (last hops)), fx_status = Some (rp_status r),
      fx_headers = map (\<lambda>k. (k, cx_redact x (header r k))) (filter (\<lambda>k. header r k \<noteq> []) SAFE_RESPONSE_HEADERS),
      fx_body = map_option bd_data bd, fx_decoded_bytes = (case bd of None \<Rightarrow> 0 | Some b \<Rightarrow> bd_decoded_bytes b),
      fx_body_compressed = (case bd of None \<Rightarrow> False | Some b \<Rightarrow> bd_stored_compressed b),
      fx_media_type = (if media_type_of r = [] then None else Some (media_type_of r)), fx_hops = hops, fx_denied = None\<rparr>"

definition is_media :: "string \<Rightarrow> bool" where
  "is_media m \<longleftrightarrow> list_ex (starts_with m) [''image/'', ''video/'', ''audio/'']"

definition complete_fetch ::
  "'d decoder_api \<Rightarrow> fetch_ctx \<Rightarrow> fetch_request \<Rightarrow> hop_env \<Rightarrow> string \<Rightarrow> response \<Rightarrow> fetch_state \<Rightarrow> fetch_result fetch_res \<times> fetch_state" where
  "complete_fetch api x q e origin r st =
     (let result = response_result x q (fs_hops st) r; status = rp_status r; now = he_now2 e; media = media_type_of r; cfg = cx_config x
      in if \<not> (200 \<le> status \<and> status < 300)
         then (case classify_status (cx_parse_date x) status False (map_of (rp_headers r) ''retry-after'') now of
                 Inl er \<Rightarrow> (Inl er, st)
               | Inr d \<Rightarrow>
                   (case (if fd_block_origin d then fd_retry_after d else None) of
                      None \<Rightarrow> (Inr (result d None), st)
                    | Some wait \<Rightarrow>
                        (case db_call (he_block e) (pg_block x (he_block e) origin (now + wait) ''http_429'') (fs_db st) of
                           (Inl er, s') \<Rightarrow> (Inl er, st\<lparr>fs_db := s'\<rparr>)
                         | (Inr _, s') \<Rightarrow> (Inr (result d None), st\<lparr>fs_db := s'\<rparr>))))
         else if is_media media \<and> \<not> fc_media_binaries cfg then (Inr (result (classify_error ''media_binary_skipped'' False) None), st)
         else (let sitemap = (fq_kind q = ''sitemap''); limit = (if sitemap then fc_max_sitemap_bytes cfg else fc_max_body_bytes cfg);
                   declared = header r ''content-length''; numeric = (declared \<noteq> [] \<and> list_all is_dec declared)
               in if numeric \<and> MAX_STR_DIGITS < length declared then (Inl OtherError, st)
                  else if numeric \<and> limit < int (number 10 declared) then (Inr (result (classify_error ''body_too_large'' False) None), st)
                  else (case read_body api (rp_arrivals r) (map_of (rp_headers r) ''content-encoding'')
                               \<lparr>bl_max_bytes = limit, bl_max_ratio = fc_max_decompression_ratio cfg,
                                bl_ratio_min_bytes = fc_ratio_guard_min_bytes cfg, bl_sitemap = sitemap\<rparr> of
                          Inl (BodyLimitExceeded code) \<Rightarrow> (Inr (result (classify_error code False) None), st)
                        | Inl UnsupportedEncoding \<Rightarrow> (Inr (result (classify_error ''content_encoding_unsupported'' False) None), st)
                        | Inl er \<Rightarrow> (Inl er, st)
                        | Inr b \<Rightarrow>
                            (case classify_status (cx_parse_date x) status (bd_decoded_bytes b = 0) None now of
                               Inl er \<Rightarrow> (Inl er, st) | Inr d \<Rightarrow> (Inr (result d (Some b)), st)))))"

text \<open>The permit of an origin: held, or acquired now. \<open>Inr (Inl r)\<close>: refused with the result \<open>r\<close>.\<close>

definition take_permit ::
  "fetch_ctx \<Rightarrow> fetch_request \<Rightarrow> hop_env \<Rightarrow> nat \<Rightarrow> string \<Rightarrow> fetch_state \<Rightarrow> (fetch_result + permit) fetch_res \<times> fetch_state" where
  "take_permit x q e hop origin st =
     (case map_of (fs_held st) origin of
        Some p \<Rightarrow> (Inr (Inr p), st)
      | None \<Rightarrow>
          (case db_call (he_acquire e) (pg_acquire x (he_acquire e) origin (fq_job_id q)) (fs_db st) of
             (Inl er, s') \<Rightarrow> (Inl er, st\<lparr>fs_db := s'\<rparr>)
           | (Inr (Denied reason retry_after), s') \<Rightarrow>
               (Inr (Inl (denied_result x q (fs_hops st) reason retry_after (0 < hop) (he_now e))), st\<lparr>fs_db := s'\<rparr>)
           | (Inr (Granted p), s') \<Rightarrow>
               (Inr (Inr p), st\<lparr>fs_db := s', fs_held := fs_held st @ [(origin, p)], fs_log := fs_log st @ [Acquired origin p]\<rparr>)))"

text \<open>A hop up to the request: the guard, the address, the permit and the time it has left.\<close>

definition prepare_hop ::
  "fetch_ctx \<Rightarrow> fetch_request \<Rightarrow> rat \<Rightarrow> hop_env \<Rightarrow> nat \<Rightarrow> string \<Rightarrow> fetch_state
   \<Rightarrow> (fetch_result + guarded_url \<times> string \<times> ip \<times> permit) fetch_res \<times> fetch_state" where
  "prepare_hop x q deadline e hop url st =
     (if deadline < he_clock e then (Inl Deadline, st)
      else case guard_check (cx_lib x) (cx_guard x) (he_denylist e) url (fs_cache st) of
          (Inl er, c) \<Rightarrow> (Inl er, st\<lparr>fs_cache := c\<rparr>)
        | (Inr g, c) \<Rightarrow>
            (let st1 = st\<lparr>fs_cache := c\<rparr>
             in case normalize_origin (cx_lib x) (gu_url g) of
                  Inl er \<Rightarrow> (Inl er, st1)
                | Inr origin \<Rightarrow>
                    (case (case he_cut e of Some er \<Rightarrow> Inl er | None \<Rightarrow> resolve_pinned (cx_ip_address x) (he_resolve e) (gu_host g) (gu_port g)) of
                       Inl er \<Rightarrow> (Inl er, st1)
                     | Inr address \<Rightarrow>
                         (let st2 = st1\<lparr>fs_pins := pin (gu_host g) (gu_port g) address (fs_pins st1)\<rparr>
                          in case take_permit x q e hop origin st2 of
                               (Inl er, st3) \<Rightarrow> (Inl er, st3)
                             | (Inr (Inl r), st3) \<Rightarrow> (Inr (Inl r), st3)
                             | (Inr (Inr p), st3) \<Rightarrow>
                                 if total_seconds (pm_lease_expires_at p - he_now e) < max (deadline - he_clock2 e) 0 + PERMIT_EXPIRY_MARGIN_SECONDS
                                 then (Inr (Inl (failed x q (fs_hops st3) (classify_error ''permit_lease_too_short'' False))), st3)
                                 else (Inr (Inr (g, origin, address, p)), st3)))))"

fun run_hops ::
  "'d decoder_api \<Rightarrow> fetch_ctx \<Rightarrow> fetch_request \<Rightarrow> rat \<Rightarrow> (nat \<Rightarrow> hop_env) \<Rightarrow> nat \<Rightarrow> nat \<Rightarrow> string \<Rightarrow> fetch_state
   \<Rightarrow> fetch_result fetch_res \<times> fetch_state" where
  "run_hops api x q deadline env 0 hop url st = (Inr (failed x q (fs_hops st) (classify_error ''too_many_redirects'' False)), st)"
| "run_hops api x q deadline env (Suc n) hop url st =
     (case prepare_hop x q deadline (env hop) hop url st of
        (Inl er, st1) \<Rightarrow> (Inl er, st1)
      | (Inr (Inl r), st1) \<Rightarrow> (Inr r, st1)
      | (Inr (Inr (g, origin, address, p)), st1) \<Rightarrow>
          (case connect_tcp (fs_pins st1) (fst (cx_target x (gu_url g))) (snd (cx_target x (gu_url g))) of
             None \<Rightarrow> (Inl TransportError, st1)
           | Some peer \<Rightarrow>
               (let st2 = st1\<lparr>fs_log := fs_log st1 @ [Connected (gu_url g) peer origin p (deadline - he_clock2 (env hop)) (he_now (env hop))]\<rparr>
                in case he_response (env hop) of
                     Inl er \<Rightarrow> (Inl er, st2)
                   | Inr r \<Rightarrow>
                       (let st3 = st2\<lparr>fs_hops := fs_hops st2 @ [\<lparr>hop_url = cx_redact x (gu_url g), hop_address = address, hop_status = rp_status r\<rparr>]\<rparr>
                        in if rp_status r \<notin> set REDIRECT_STATUSES \<or> rp_location r = None \<or> rp_location r = Some []
                           then complete_fetch api x q (env hop) origin r st3
                           else (case next_url (cx_lib x) (gu_url g) (the (rp_location r)) of
                                   Inl er \<Rightarrow> (Inl er, st3)
                                 | Inr url' \<Rightarrow> run_hops api x q deadline env n (hop + 1) url' st3)))))"

fun release_all :: "fetch_ctx \<Rightarrow> db_call list \<Rightarrow> permit list \<Rightarrow> db \<Rightarrow> db" where
  "release_all x (c # cs) (p # ps) s = release_all x cs ps (snd (db_call c (pg_release x c p) s))"
| "release_all x _ _ s = s"

definition caught :: "fetch_ctx \<Rightarrow> fetch_request \<Rightarrow> fetch_state \<Rightarrow> fetch_result fetch_res \<Rightarrow> fetch_result fetch_res" where
  "caught x q st r =
     (case r of
        Inr v \<Rightarrow> Inr v
      | Inl e \<Rightarrow>
          (case e of
             PolicyBlocked code \<Rightarrow> Inr (failed x q (fs_hops st) (classify_error code True))
           | RedirectRefused code \<Rightarrow> Inr (failed x q (fs_hops st) (classify_error code False))
           | DnsResolutionError \<Rightarrow> Inr (failed x q (fs_hops st) (classify_error ''dns_error'' False))
           | Deadline \<Rightarrow> Inr (failed x q (fs_hops st) (classify_error ''timeout'' False))
           | TransportTimeout \<Rightarrow> Inr (failed x q (fs_hops st) (classify_error ''timeout'' False))
           | TransportError \<Rightarrow> Inr (failed x q (fs_hops st) (classify_error ''network_error'' False))
           | _ \<Rightarrow> Inl e))"

definition total_timeout :: "fetch_ctx \<Rightarrow> fetch_request \<Rightarrow> rat" where
  "total_timeout x q =
     (case fq_total_timeout q of None \<Rightarrow> fc_total_timeout (cx_config x) | Some t \<Rightarrow> if t = 0 then fc_total_timeout (cx_config x) else t)"

text \<open>\<open>start\<close> is the clock when the call begins, \<open>releases k\<close> the call that returns the \<open>k\<close>-th permit.\<close>

definition fetch ::
  "'d decoder_api \<Rightarrow> fetch_ctx \<Rightarrow> fetch_request \<Rightarrow> rat \<Rightarrow> (nat \<Rightarrow> hop_env) \<Rightarrow> (nat \<Rightarrow> db_call) \<Rightarrow> denylist_cache \<Rightarrow> db
   \<Rightarrow> fetch_result fetch_res \<times> fetch_state" where
  "fetch api x q start env releases c s =
     (let st0 = \<lparr>fs_cache = c, fs_pins = [], fs_held = [], fs_hops = [], fs_log = [], fs_db = s\<rparr>;
          (r, st) = run_hops api x q (start + total_timeout x q) env (fc_max_redirects (cx_config x) + 1) 0 (fq_url q) st0
      in (caught x q st r,
          st\<lparr>fs_db := release_all x (map releases [0..<length (fs_held st)]) (map snd (fs_held st)) (fs_db st)\<rparr>))"

section \<open>What a fetch does to the outside\<close>

text \<open>
  A connection is in order after the events \<open>before\<close>: the permit of its origin was acquired, the
  peer is an allowed address, the lease outlives the fetch by the margin, and the URL is one the guard let pass.
\<close>

definition connection_ok :: "fetch_ctx \<Rightarrow> fetch_event list \<Rightarrow> fetch_event \<Rightarrow> bool" where
  "connection_ok x before ev \<longleftrightarrow>
     (\<forall>url peer origin p left now. ev = Connected url peer origin p left now \<longrightarrow>
        Acquired origin p \<in> set before \<and> forbidden_reason peer = None
        \<and> max left 0 + PERMIT_EXPIRY_MARGIN_SECONDS \<le> total_seconds (pm_lease_expires_at p - now)
        \<and> normalize_origin (cx_lib x) url = Inr origin
        \<and> (\<exists>file raw c c' g. guard_check (cx_lib x) (cx_guard x) file raw c = (Inr g, c') \<and> gu_url g = url))"

definition log_ok :: "fetch_ctx \<Rightarrow> fetch_event list \<Rightarrow> bool" where
  "log_ok x evs \<longleftrightarrow> (\<forall>before ev after. evs = before @ ev # after \<longrightarrow> connection_ok x before ev)"

lemma log_ok_Nil [simp]: "log_ok x []"
  by (simp add: log_ok_def)

lemma log_ok_snoc: "log_ok x (evs @ [ev]) \<longleftrightarrow> log_ok x evs \<and> connection_ok x evs ev"
proof
  assume ok: "log_ok x (evs @ [ev])"
  have "connection_ok x before e" if "evs = before @ e # after" for before e after
    using ok that unfolding log_ok_def by (metis append_Cons append_assoc)
  then show "log_ok x evs \<and> connection_ok x evs ev" using ok unfolding log_ok_def by auto
next
  assume ok: "log_ok x evs \<and> connection_ok x evs ev"
  have "connection_ok x before e" if "evs @ [ev] = before @ e # after" for before e after
  proof (cases after rule: rev_cases)
    case Nil
    then show ?thesis using that ok by simp
  next
    case (snoc after' a)
    then have "evs = before @ e # after'" using that by simp
    then show ?thesis using ok by (auto simp: log_ok_def)
  qed
  then show "log_ok x (evs @ [ev])" by (auto simp: log_ok_def)
qed

fun connections :: "fetch_event list \<Rightarrow> nat" where
  "connections [] = 0"
| "connections (Acquired origin p # evs) = connections evs"
| "connections (Connected url peer origin p left now # evs) = Suc (connections evs)"

fun acquisitions :: "fetch_event list \<Rightarrow> (string \<times> permit) list" where
  "acquisitions [] = []"
| "acquisitions (Acquired origin p # evs) = (origin, p) # acquisitions evs"
| "acquisitions (Connected url peer origin p left now # evs) = acquisitions evs"

lemma connections_append [simp]: "connections (a @ b) = connections a + connections b"
  by (induction a rule: connections.induct) auto

lemma acquisitions_append [simp]: "acquisitions (a @ b) = acquisitions a @ acquisitions b"
  by (induction a rule: acquisitions.induct) auto

lemma set_acquisitions: "(o', p) \<in> set (acquisitions evs) \<longleftrightarrow> Acquired o' p \<in> set evs"
  by (induction evs rule: acquisitions.induct) auto

definition fetch_inv :: "fetch_ctx \<Rightarrow> fetch_state \<Rightarrow> bool" where
  "fetch_inv x st \<longleftrightarrow> log_ok x (fs_log st) \<and> acquisitions (fs_log st) = fs_held st
     \<and> (\<forall>k a. (k, a) \<in> set (fs_pins st) \<longrightarrow> forbidden_reason a = None)"

lemma resolve_pinned_allowed: "resolve_pinned ip_address resolve host port = Inr a \<Longrightarrow> forbidden_reason a = None"
  by (auto simp: resolve_pinned_def all_allowed_iff Let_def list_ex_iff split: option.splits list.splits if_splits)

lemma pin_allowed:
  assumes "forbidden_reason a = None" "\<forall>k b. (k, b) \<in> set pins \<longrightarrow> forbidden_reason b = None"
  shows "\<forall>k b. (k, b) \<in> set (pin host port a pins) \<longrightarrow> forbidden_reason b = None"
proof -
  have "set (AList.update k a pins) \<subseteq> insert (k, a) (set pins)" for k by (induction pins) auto
  then show ?thesis using assms unfolding pin_def by fast
qed

lemma take_permit_inv:
  assumes "take_permit x q e hop origin st = (r, st')" "fetch_inv x st"
  shows "fetch_inv x st' \<and> fs_pins st' = fs_pins st \<and> connections (fs_log st') = connections (fs_log st) \<and> fs_cache st' = fs_cache st
     \<and> (\<forall>p. r = Inr (Inr p) \<longrightarrow> Acquired origin p \<in> set (fs_log st'))"
proof (cases "map_of (fs_held st) origin")
  case (Some p)
  then have "(origin, p) \<in> set (acquisitions (fs_log st))" using assms(2) map_of_SomeD by (fastforce simp: fetch_inv_def)
  then show ?thesis using assms Some by (auto simp: take_permit_def set_acquisitions)
next
  case None
  then show ?thesis using assms
    by (auto simp: take_permit_def fetch_inv_def log_ok_snoc connection_ok_def split: sum.splits permit_answer.splits prod.splits)
qed

lemma prepare_hop_inv:
  assumes "prepare_hop x q deadline e hop url st = (r, st')" "fetch_inv x st"
  shows "fetch_inv x st' \<and> connections (fs_log st') = connections (fs_log st)
     \<and> (\<forall>g origin a p. r = Inr (Inr (g, origin, a, p)) \<longrightarrow>
          Acquired origin p \<in> set (fs_log st') \<and> normalize_origin (cx_lib x) (gu_url g) = Inr origin
          \<and> max (deadline - he_clock2 e) 0 + PERMIT_EXPIRY_MARGIN_SECONDS \<le> total_seconds (pm_lease_expires_at p - he_now e)
          \<and> (\<exists>file raw c c'. guard_check (cx_lib x) (cx_guard x) file raw c = (Inr g, c')))"
proof -
  have cached: "fetch_inv x (st\<lparr>fs_cache := c\<rparr>)" for c using assms(2) by (simp add: fetch_inv_def)
  obtain gr c where g: "guard_check (cx_lib x) (cx_guard x) (he_denylist e) url (fs_cache st) = (gr, c)" by (metis surj_pair)
  show ?thesis
  proof (cases "deadline < he_clock e \<or> (\<exists>er. gr = Inl er)")
    case True
    then show ?thesis using assms g cached [of c] by (auto simp: prepare_hop_def split: if_splits)
  next
    case False
    then obtain gu where gu: "gr = Inr gu" by (cases gr) auto
    let ?a = "case he_cut e of Some er \<Rightarrow> Inl er | None \<Rightarrow> resolve_pinned (cx_ip_address x) (he_resolve e) (gu_host gu) (gu_port gu)"
    have early: "r = Inl er \<and> st' = st\<lparr>fs_cache := c\<rparr>"
      if "normalize_origin (cx_lib x) (gu_url gu) = Inl er \<or> normalize_origin (cx_lib x) (gu_url gu) = Inr origin \<and> ?a = Inl er" for er origin
      using assms(1) that False g gu by (elim disjE conjE) (simp_all add: prepare_hop_def)
    show ?thesis
    proof (cases "(\<exists>origin. normalize_origin (cx_lib x) (gu_url gu) = Inr origin) \<and> (\<exists>a. ?a = Inr a)")
      case False
      then obtain er origin where "normalize_origin (cx_lib x) (gu_url gu) = Inl er \<or> normalize_origin (cx_lib x) (gu_url gu) = Inr origin \<and> ?a = Inl er"
        by (cases "normalize_origin (cx_lib x) (gu_url gu)"; cases ?a) blast+
      then show ?thesis using early cached [of c] by simp
    next
      case True
      then obtain origin a where o: "normalize_origin (cx_lib x) (gu_url gu) = Inr origin" "?a = Inr a" by blast
      let ?st2 = "st\<lparr>fs_cache := c, fs_pins := pin (gu_host gu) (gu_port gu) a (fs_pins st)\<rparr>"
      have "forbidden_reason a = None" using o(2) resolve_pinned_allowed by (auto split: option.splits)
      moreover have "\<forall>k b. (k, b) \<in> set (fs_pins st) \<longrightarrow> forbidden_reason b = None" using assms(2) unfolding fetch_inv_def by blast
      ultimately have "\<forall>k b. (k, b) \<in> set (pin (gu_host gu) (gu_port gu) a (fs_pins st)) \<longrightarrow> forbidden_reason b = None" by (rule pin_allowed)
      moreover have "fs_log ?st2 = fs_log st" "fs_held ?st2 = fs_held st" "fs_pins ?st2 = pin (gu_host gu) (gu_port gu) a (fs_pins st)" by simp_all
      ultimately have inv2: "fetch_inv x ?st2" using assms(2) unfolding fetch_inv_def by metis
      obtain t st3 where t: "take_permit x q e hop origin ?st2 = (t, st3)" by (metis surj_pair)
      have st': "st' = st3" using assms(1) False g gu o t
        by (auto simp: prepare_hop_def Let_def split: if_splits sum.splits)
      have res: "t = Inr (Inr p) \<and> g' = gu \<and> origin' = origin
          \<and> max (deadline - he_clock2 e) 0 + PERMIT_EXPIRY_MARGIN_SECONDS \<le> total_seconds (pm_lease_expires_at p - he_now e)"
        if "r = Inr (Inr (g', origin', a', p))" for g' origin' a' p
        using assms(1) False g gu o t that by (auto simp: prepare_hop_def Let_def split: if_splits sum.splits)
      have tp: "fetch_inv x st'" "connections (fs_log st') = connections (fs_log st)" "t = Inr (Inr p) \<Longrightarrow> Acquired origin p \<in> set (fs_log st')" for p
        using take_permit_inv [OF t inv2] unfolding st' by simp_all
      have "Acquired origin' p \<in> set (fs_log st') \<and> normalize_origin (cx_lib x) (gu_url g') = Inr origin'
          \<and> max (deadline - he_clock2 e) 0 + PERMIT_EXPIRY_MARGIN_SECONDS \<le> total_seconds (pm_lease_expires_at p - he_now e)
          \<and> (\<exists>file raw c c'. guard_check (cx_lib x) (cx_guard x) file raw c = (Inr g', c'))"
        if "r = Inr (Inr (g', origin', a', p))" for g' origin' a' p
        using res [OF that] tp(3) o(1) g [unfolded gu] by blast
      then show ?thesis using tp(1,2) by blast
    qed
  qed
qed

lemma connect_tcp_allowed: "connect_tcp (fs_pins st) host port = Some a \<Longrightarrow> fetch_inv x st \<Longrightarrow> forbidden_reason a = None"
  unfolding connect_tcp_def fetch_inv_def using map_of_SomeD by fastforce

lemma complete_fetch_frame:
  assumes "complete_fetch api x q e origin r st = (res, st')"
  shows "fs_log st' = fs_log st \<and> fs_held st' = fs_held st \<and> fs_pins st' = fs_pins st"
proof -
  have "st' = st \<or> (\<exists>s. st' = st\<lparr>fs_db := s\<rparr>)"
  proof (cases "200 \<le> rp_status r \<and> rp_status r < 300")
    case False
    then have "complete_fetch api x q e origin r st
        = (case classify_status (cx_parse_date x) (rp_status r) False (map_of (rp_headers r) ''retry-after'') (he_now2 e) of
                 Inl er \<Rightarrow> (Inl er, st)
               | Inr d \<Rightarrow>
                   (case (if fd_block_origin d then fd_retry_after d else None) of
                      None \<Rightarrow> (Inr (response_result x q (fs_hops st) r d None), st)
                    | Some wait \<Rightarrow>
                        (case db_call (he_block e) (pg_block x (he_block e) origin (he_now2 e + wait) ''http_429'') (fs_db st) of
                           (Inl er, s') \<Rightarrow> (Inl er, st\<lparr>fs_db := s'\<rparr>)
                         | (Inr _, s') \<Rightarrow> (Inr (response_result x q (fs_hops st) r d None), st\<lparr>fs_db := s'\<rparr>))))"
      by (simp only: complete_fetch_def Let_def if_True simp_thms not_False_eq_True)
    then show ?thesis using assms by (auto split: sum.splits option.splits prod.splits)
  next
    case True
    let ?l = "\<lparr>bl_max_bytes = (if fq_kind q = ''sitemap'' then fc_max_sitemap_bytes (cx_config x) else fc_max_body_bytes (cx_config x)),
        bl_max_ratio = fc_max_decompression_ratio (cx_config x), bl_ratio_min_bytes = fc_ratio_guard_min_bytes (cx_config x),
        bl_sitemap = (fq_kind q = ''sitemap'')\<rparr>"
    obtain b where "b = read_body api (rp_arrivals r) (map_of (rp_headers r) ''content-encoding'') ?l" by blast
    then have "st' = st" using assms True unfolding complete_fetch_def Let_def
      by (cases b) (auto split: if_splits sum.splits fetch_error.splits)
    then show ?thesis ..
  qed
  then show ?thesis by auto
qed

lemma run_hops_inv:
  assumes "run_hops api x q deadline env n hop url st = (r, st')" "fetch_inv x st"
  shows "fetch_inv x st' \<and> connections (fs_log st') \<le> connections (fs_log st) + n"
  using assms
proof (induction n arbitrary: hop url st)
  case (Suc n)
  let ?e = "env hop"
  obtain pr st1 where p: "prepare_hop x q deadline ?e hop url st = (pr, st1)" by (metis surj_pair)
  note inv1 = prepare_hop_inv [OF p Suc.prems(2)]
  show ?case
  proof (cases "\<exists>g origin a pm. pr = Inr (Inr (g, origin, a, pm))")
    case False
    then show ?thesis using Suc.prems p inv1 by (auto split: sum.splits)
  next
    case True
    then obtain g origin a pm where pr: "pr = Inr (Inr (g, origin, a, pm))" by blast
    let ?peer = "connect_tcp (fs_pins st1) (fst (cx_target x (gu_url g))) (snd (cx_target x (gu_url g)))"
    show ?thesis
    proof (cases ?peer)
      case None
      then show ?thesis using Suc.prems p pr inv1 by auto
    next
      case (Some peer)
      let ?ev = "Connected (gu_url g) peer origin pm (deadline - he_clock2 ?e) (he_now ?e)"
      let ?st2 = "st1\<lparr>fs_log := fs_log st1 @ [?ev]\<rparr>"
      have "connection_ok x (fs_log st1) ?ev"
        using inv1 pr connect_tcp_allowed [OF Some, of x] by (simp add: connection_ok_def) blast
      then have inv2: "fetch_inv x ?st2" "connections (fs_log ?st2) = connections (fs_log st) + 1"
        using inv1 by (auto simp: fetch_inv_def log_ok_snoc)
      show ?thesis
      proof (cases "he_response ?e")
        case (Inl er)
        then show ?thesis using Suc.prems p pr Some inv2 by auto
      next
        case (Inr rs)
        let ?st3 = "?st2\<lparr>fs_hops := fs_hops ?st2 @ [\<lparr>hop_url = cx_redact x (gu_url g), hop_address = a, hop_status = rp_status rs\<rparr>]\<rparr>"
        have inv3: "fetch_inv x ?st3" using inv2(1) by (simp add: fetch_inv_def)
        show ?thesis
        proof (cases "rp_status rs \<notin> set REDIRECT_STATUSES \<or> rp_location rs = None \<or> rp_location rs = Some []")
          case True
          then have "complete_fetch api x q ?e origin rs ?st3 = (r, st')" using Suc.prems(1) p pr Some Inr by (auto simp: Let_def)
          from complete_fetch_frame [OF this] show ?thesis using inv2 by (auto simp: fetch_inv_def)
        next
          case False
          show ?thesis
          proof (cases "next_url (cx_lib x) (gu_url g) (the (rp_location rs))")
            case (Inl er)
            then have "st' = ?st3" using Suc.prems(1) p pr Some Inr False by (auto simp: Let_def)
            then show ?thesis using inv2 inv3 by simp
          next
            case (Inr url')
            then have "run_hops api x q deadline env n (hop + 1) url' ?st3 = (r, st')" 
              using Suc.prems(1) p pr Some \<open>he_response ?e = Inr rs\<close> False by (auto simp: Let_def)
            from Suc.IH [OF this inv3] show ?thesis using inv2(2) by simp
          qed
        qed
      qed
    qed
  qed
qed auto


section \<open>Permits are given back\<close>

definition still_held :: "string \<Rightarrow> uuid \<Rightarrow> db \<Rightarrow> bool" where
  "still_held w i s \<longleftrightarrow> (\<exists>row\<in>set (permits s). p_permit_id row = i \<and> p_owner_instance row = w \<and> p_released_at row = None)"

lemma release_ends_permit:
  assumes "dbc_error c = None"
  shows "\<not> still_held (cx_owner x) (pm_permit_id p) (snd (db_call c (pg_release x c p) s))"
    "still_held w i (snd (db_call c (pg_release x c p) s)) \<Longrightarrow> still_held w i (dbc_before c s)"
  using assms
  by (auto simp: db_call_def pg_release_def release_permit_def still_held_def resolve_now_def upd_where_def permit_ended_def Let_def)

lemma release_all_ends_permits:
  assumes "\<forall>c\<in>set cs. dbc_error c = None \<and> (\<forall>s. \<forall>i\<in>ids. still_held (cx_owner x) i (dbc_before c s) \<longrightarrow> still_held (cx_owner x) i s)"
    and "pm_permit_id ` set ps \<subseteq> ids" and "length cs = length ps"
  shows "(\<forall>p\<in>set ps. \<not> still_held (cx_owner x) (pm_permit_id p) (release_all x cs ps s))
     \<and> (\<forall>i\<in>ids. \<not> still_held (cx_owner x) i s \<longrightarrow> \<not> still_held (cx_owner x) i (release_all x cs ps s))"
  using assms
proof (induction x cs ps s rule: release_all.induct)
  case (1 x c cs p ps s)
  let ?s = "snd (db_call c (pg_release x c p) s)"
  have "(\<forall>p\<in>set ps. \<not> still_held (cx_owner x) (pm_permit_id p) (release_all x cs ps ?s))
      \<and> (\<forall>i\<in>ids. \<not> still_held (cx_owner x) i ?s \<longrightarrow> \<not> still_held (cx_owner x) i (release_all x cs ps ?s))"
  proof (rule "1.IH")
    show "\<forall>c\<in>set cs. dbc_error c = None \<and> (\<forall>s. \<forall>i\<in>ids. still_held (cx_owner x) i (dbc_before c s) \<longrightarrow> still_held (cx_owner x) i s)"
      using "1.prems"(1) unfolding list.set by blast
    show "pm_permit_id ` set ps \<subseteq> ids" using "1.prems"(2) unfolding list.set by blast
    show "length cs = length ps" using "1.prems"(3) by simp
  qed
  then have IH: "\<forall>p\<in>set ps. \<not> still_held (cx_owner x) (pm_permit_id p) (release_all x cs ps ?s)"
    "\<forall>i\<in>ids. \<not> still_held (cx_owner x) i ?s \<longrightarrow> \<not> still_held (cx_owner x) i (release_all x cs ps ?s)"
    by blast+
  have c: "dbc_error c = None" "\<forall>s. \<forall>i\<in>ids. still_held (cx_owner x) i (dbc_before c s) \<longrightarrow> still_held (cx_owner x) i s" "pm_permit_id p \<in> ids"
    using "1.prems"(1,2) unfolding list.set by blast+
  have 1: "\<not> still_held (cx_owner x) (pm_permit_id p) (release_all x cs ps ?s)" using IH(2) c(3) release_ends_permit(1) [OF c(1)] by blast
  have 2: "\<not> still_held (cx_owner x) i (release_all x cs ps ?s)" if "i \<in> ids" "\<not> still_held (cx_owner x) i s" for i
    using IH(2) c(2) that release_ends_permit(2) [OF c(1)] by blast
  show ?case using IH(1) 1 2 unfolding release_all.simps list.set by blast
qed auto


section \<open>A run\<close>

definition demo_ctx :: fetch_ctx where
  "demo_ctx = \<lparr>cx_lib = demo_lib, cx_guard = demo_guard,
     cx_config = \<lparr>fc_user_agent = ''UAWebDataCollector'', fc_max_body_bytes = 20 * MIB, fc_max_sitemap_bytes = 100 * MIB, fc_max_decompression_ratio = 200,
       fc_ratio_guard_min_bytes = MIB, fc_media_binaries = False, fc_total_timeout = 60, fc_max_redirects = 5\<rparr>,
     cx_ip_address = demo_ip_address, cx_parse_date = (\<lambda>_. None), cx_redact = (\<lambda>u. u), cx_target = (\<lambda>_. (''b.org'', 443)),
     cx_owner = ''w'', cx_lease_seconds = 90\<rparr>"

definition demo_call :: db_call where
  "demo_call = \<lparr>dbc_before = (\<lambda>s. s), dbc_utcnow = 0, dbc_id = 7, dbc_error = None\<rparr>"

definition demo_hop :: hop_env where
  "demo_hop = \<lparr>he_clock = 0, he_denylist = None, he_cut = None, he_resolve = (\<lambda>_ _. Some [''203.0.114.7'']), he_acquire = demo_call,
     he_now = 0, he_clock2 = 0, he_response = Inr \<lparr>rp_status = 404, rp_headers = [], rp_location = None, rp_arrivals = []\<rparr>,
     he_now2 = 0, he_block = demo_call\<rparr>"

definition demo_request :: fetch_request where
  "demo_request = \<lparr>fq_url = ''https://b.org/x'', fq_kind = ''page'', fq_job_id = None, fq_if_none_match = None, fq_if_modified_since = None,
     fq_total_timeout = None\<rparr>"

definition demo_origin_db :: db where
  "demo_origin_db = empty_db\<lparr>buckets := [demo_bucket\<lparr>b_origin := ''https://b.org''\<rparr>]\<rparr>"

definition demo_permit :: permit where
  "demo_permit = \<lparr>pm_permit_id = 7, pm_origin = ''https://b.org'', pm_lease_expires_at = 90 * second\<rparr>"

abbreviation demo_fetch :: "fetch_result fetch_res \<times> fetch_state" where
  "demo_fetch \<equiv> fetch demo_decoders demo_ctx demo_request 0 (\<lambda>_. demo_hop) (\<lambda>_. demo_call) no_cache demo_origin_db"

lemma demo_prepare:
  assumes "fs_held st = []" "fs_cache st = no_cache" "fs_db st = demo_origin_db" "fs_pins st = []"
  shows "\<exists>s'. prepare_hop demo_ctx demo_request 60 demo_hop 0 ''https://b.org/x'' st
    = (Inr (Inr (\<lparr>gu_url = ''https://b.org/x'', gu_scheme = ''https'', gu_host = ''b.org'', gu_port = 443\<rparr>, ''https://b.org'', V4 (dotted 203 0 114 7), demo_permit)),
       st\<lparr>fs_cache := no_cache, fs_pins := [((''b.org'', 443), V4 (dotted 203 0 114 7))], fs_held := [(''https://b.org'', demo_permit)],
         fs_log := fs_log st @ [Acquired ''https://b.org'' demo_permit], fs_db := s'\<rparr>)"
proof -
  have g: "guard_check demo_lib demo_guard None ''https://b.org/x'' no_cache
      = (Inr \<lparr>gu_url = ''https://b.org/x'', gu_scheme = ''https'', gu_host = ''b.org'', gu_port = 443\<rparr>, no_cache)"
    using demo_normalized by (simp add: guard_check_def demo_guard_def demo_lib_def DEFAULT_PORTS_def lower_char_def denylist_check_def)
  have o: "normalize_origin demo_lib ''https://b.org/x'' = Inr ''https://b.org''"
    using demo_split by (simp add: normalize_origin_def netloc_def)
  have a: "resolve_pinned demo_ip_address (\<lambda>_ _. Some [''203.0.114.7'']) ''b.org'' 443 = Inr (V4 (dotted 203 0 114 7))"
  proof -
    have "parse_ip_literal demo_ip_address ''b.org'' = Inr None" "check_host_name ''b.org'' = Inr ()" by code_simp+
    moreover have "require_allowed (V4 (dotted 203 0 114 7)) = Inr ()" by (simp add: forbidden_reason_def reason4_dotted special4_def)
    ultimately show ?thesis by (simp add: resolve_pinned_def demo_ip_address_def)
  qed
  obtain s' where p: "db_call demo_call (pg_acquire demo_ctx demo_call ''https://b.org'' None) demo_origin_db = (Inr (Granted demo_permit), s')"
    by (simp add: db_call_def pg_acquire_def acquire_permit_def acquire_unblocked_def demo_call_def demo_ctx_def demo_origin_db_def demo_bucket_def
        get_bucket_def demo_permit_def resolve_now_def refilled_tokens_def live_permits_def TOKEN_def Let_def)
  have low: "map lower_char ''b.org'' = ''b.org''" by code_simp
  show ?thesis using g o a p assms low
    by (intro exI [of _ s']) (simp add: prepare_hop_def take_permit_def demo_hop_def demo_ctx_def demo_request_def pin_def demo_permit_def total_seconds_def second_def
        PERMIT_EXPIRY_MARGIN_SECONDS_def)
qed

lemma demo_fetch_log:
  obtains r st where "demo_fetch = (r, st)"
    "fs_log st = [Acquired ''https://b.org'' demo_permit, Connected ''https://b.org/x'' (V4 (dotted 203 0 114 7)) ''https://b.org'' demo_permit 60 0]"
proof -
  let ?st0 = "\<lparr>fs_cache = no_cache, fs_pins = [], fs_held = [], fs_hops = [], fs_log = [], fs_db = demo_origin_db\<rparr>"
  obtain s' where p: "prepare_hop demo_ctx demo_request 60 demo_hop 0 ''https://b.org/x'' ?st0
    = (Inr (Inr (\<lparr>gu_url = ''https://b.org/x'', gu_scheme = ''https'', gu_host = ''b.org'', gu_port = 443\<rparr>, ''https://b.org'', V4 (dotted 203 0 114 7), demo_permit)),
       ?st0\<lparr>fs_cache := no_cache, fs_pins := [((''b.org'', 443), V4 (dotted 203 0 114 7))], fs_held := [(''https://b.org'', demo_permit)],
         fs_log := fs_log ?st0 @ [Acquired ''https://b.org'' demo_permit], fs_db := s'\<rparr>)"
    using demo_prepare [of ?st0] by auto
  have peer: "connect_tcp [((''b.org'', 443), V4 (dotted 203 0 114 7))] ''b.org'' 443 = Some (V4 (dotted 203 0 114 7))"
  proof -
    have "strip_brackets (map lower_char ''b.org'') = ''b.org''" by code_simp
    then show ?thesis by (simp only: connect_tcp_def) simp
  qed
  obtain r st where run: "run_hops demo_decoders demo_ctx demo_request 60 (\<lambda>_. demo_hop) (5 + 1) 0 ''https://b.org/x'' ?st0 = (r, st)"
    by (metis surj_pair)
  let ?e = "Connected ''https://b.org/x'' (V4 (dotted 203 0 114 7)) ''https://b.org'' demo_permit 60 0"
  let ?rs = "\<lparr>rp_status = 404, rp_headers = [], rp_location = None, rp_arrivals = []\<rparr>"
  obtain st3 where "complete_fetch demo_decoders demo_ctx demo_request demo_hop ''https://b.org'' ?rs st3 = (r, st)"
    and "fs_log st3 = [Acquired ''https://b.org'' demo_permit, ?e]"
    using run p peer by (auto simp: demo_hop_def demo_ctx_def numeral_eq_Suc REDIRECT_STATUSES_def Let_def)
  then have "fs_log st = [Acquired ''https://b.org'' demo_permit, ?e]" using complete_fetch_frame by metis
  moreover have "total_timeout demo_ctx demo_request = 60" "fc_max_redirects (cx_config demo_ctx) = 5" "fq_url demo_request = ''https://b.org/x''"
    by (simp_all add: total_timeout_def demo_ctx_def demo_request_def)
  ultimately show thesis using that run by (simp add: fetch_def)
qed



end
