(* ===== verification/Advisory.thy ===== *)
theory Advisory
  imports Collector_Prelude
begin

text \<open>
  \<open>workers/advisory.py\<close>: the lease that makes one scheduler active, a PostgreSQL advisory lock held by a
  session. The server keeps one grant for every successful \<open>pg_try_advisory_lock\<close>: a session that
  asks again for a lock it has gets it once more, and has to give it back as often.

  A client keeps the connection that holds the lock apart from the connections of its pool. A
  statement may fail on the way: the server may have executed it or not, and the driver may take the
  failure for a disconnect (then SQLAlchemy throws the connection away when it is closed) or not
  (then \<open>close()\<close> returns it to the pool). A session of the server ends at any time, with its grants.
  Cancellation of the coroutine is not modelled.
\<close>

section \<open>The server\<close>

type_synonym session = nat
type_synonym lock_key = "int \<times> int"

record lock_server =
  sv_live :: "session list"
  sv_granted :: "(lock_key \<times> session) list"
  sv_fresh :: session

definition pg_try_advisory_lock :: "lock_key \<Rightarrow> session \<Rightarrow> lock_server \<Rightarrow> bool \<times> lock_server" where
  "pg_try_advisory_lock k p sv =
     (if list_ex (\<lambda>(k', q). k' = k \<and> q \<noteq> p) (sv_granted sv) then (False, sv)
      else (True, sv\<lparr>sv_granted := (k, p) # sv_granted sv\<rparr>))"

definition pg_advisory_unlock :: "lock_key \<Rightarrow> session \<Rightarrow> lock_server \<Rightarrow> bool \<times> lock_server" where
  "pg_advisory_unlock k p sv =
     (if (k, p) \<in> set (sv_granted sv) then (True, sv\<lparr>sv_granted := remove1 (k, p) (sv_granted sv)\<rparr>)
      else (False, sv))"

definition lock_exists :: "lock_key \<Rightarrow> session \<Rightarrow> lock_server \<Rightarrow> bool \<times> lock_server" where
  "lock_exists k p sv = ((k, p) \<in> set (sv_granted sv), sv)"

definition pg_backend_pid :: "session \<Rightarrow> lock_server \<Rightarrow> session \<times> lock_server" where
  "pg_backend_pid p sv = (p, sv)"

definition session_ends :: "session \<Rightarrow> lock_server \<Rightarrow> lock_server" where
  "session_ends p sv = sv\<lparr>sv_live := filter (\<lambda>q. q \<noteq> p) (sv_live sv), sv_granted := filter (\<lambda>g. snd g \<noteq> p) (sv_granted sv)\<rparr>"

definition open_session :: "lock_server \<Rightarrow> session \<times> lock_server" where
  "open_session sv = (sv_fresh sv, sv\<lparr>sv_live := sv_fresh sv # sv_live sv, sv_fresh := Suc (sv_fresh sv)\<rparr>)"

section \<open>A statement on a connection\<close>

datatype reply = Answered | Lost bool bool
datatype 'a asked = Got 'a | Broke bool

definition ask :: "session \<Rightarrow> reply \<Rightarrow> (lock_server \<Rightarrow> 'a \<times> lock_server) \<Rightarrow> lock_server \<Rightarrow> 'a asked \<times> lock_server" where
  "ask p r stmt sv =
     (if p \<notin> set (sv_live sv) then (Broke True, sv)
      else case r of
        Answered \<Rightarrow> (Got (fst (stmt sv)), snd (stmt sv))
      | Lost executed disconnect \<Rightarrow> (Broke disconnect, if executed then snd (stmt sv) else sv))"

section \<open>AdvisoryLease\<close>

text \<open>\<open>blake2s\<close> is the hash with a digest of four bytes.\<close>

definition ADVISORY_CLASSID :: int where
  "ADVISORY_CLASSID = 0x434F4C4C"

definition from_bytes_big :: "nat list \<Rightarrow> int" where
  "from_bytes_big bs = foldl (\<lambda>n b. n * 256 + int b) 0 bs"

definition advisory_key :: "(ustr \<Rightarrow> nat list) \<Rightarrow> ustr \<Rightarrow> int" where
  "advisory_key blake2s name = from_bytes_big (blake2s name) mod (0x7FFFFFFF + 1)"

definition lease_key :: "(ustr \<Rightarrow> nat list) \<Rightarrow> ustr \<Rightarrow> lock_key" where
  "lease_key blake2s name = (ADVISORY_CLASSID, advisory_key blake2s name)"

record lease_client =
  lc_connection :: "session option"
  lc_backend_pid :: "session option"
  lc_pool :: "session list"

definition no_lease :: lease_client where
  "no_lease = \<lparr>lc_connection = None, lc_backend_pid = None, lc_pool = []\<rparr>"

text \<open>\<open>close()\<close> of a connection; a connection that was seen to break is not put back.\<close>

definition close_connection :: "bool \<Rightarrow> session \<Rightarrow> lease_client \<Rightarrow> lease_client" where
  "close_connection broken p c = (if broken then c else c\<lparr>lc_pool := p # lc_pool c\<rparr>)"

text \<open>\<open>engine.connect()\<close> takes an idle connection of the pool or opens a session.\<close>

datatype connecting = ConnectFails | Pooled session | Fresh

definition connect :: "connecting \<Rightarrow> lease_client \<Rightarrow> lock_server \<Rightarrow> (session \<times> lease_client \<times> lock_server) option" where
  "connect how c sv =
     (case how of
        ConnectFails \<Rightarrow> None
      | Pooled p \<Rightarrow> if p \<in> set (lc_pool c) then Some (p, c\<lparr>lc_pool := filter (\<lambda>q. q \<noteq> p) (lc_pool c)\<rparr>, sv) else None
      | Fresh \<Rightarrow> let (p, sv') = open_session sv in Some (p, c, sv'))"

record attempt_env =
  at_connect :: connecting
  at_lock :: reply
  at_pid :: reply

definition try_acquire :: "lock_key \<Rightarrow> attempt_env \<Rightarrow> lease_client \<Rightarrow> lock_server \<Rightarrow> bool res \<times> lease_client \<times> lock_server" where
  "try_acquire k e c sv =
     (if lc_connection c \<noteq> None then (Inr True, c, sv)
      else case connect (at_connect e) c sv of
        None \<Rightarrow> (Inl OperationalError, c, sv)
      | Some (p, c1, sv1) \<Rightarrow>
          (case ask p (at_lock e) (pg_try_advisory_lock k p) sv1 of
             (Broke d, sv2) \<Rightarrow> (Inl OperationalError, close_connection d p c1, sv2)
           | (Got acquired, sv2) \<Rightarrow>
               if \<not> acquired then (Inr False, close_connection False p c1, sv2)
               else case ask p (at_pid e) (pg_backend_pid p) sv2 of
                 (Broke d, sv3) \<Rightarrow> (Inl OperationalError, close_connection d p c1, sv3)
               | (Got pid, sv3) \<Rightarrow> (Inr True, c1\<lparr>lc_connection := Some p, lc_backend_pid := Some pid\<rparr>, sv3)))"

definition discard :: "bool \<Rightarrow> lease_client \<Rightarrow> lease_client" where
  "discard invalidate c =
     (case lc_connection c of
        None \<Rightarrow> c\<lparr>lc_backend_pid := None\<rparr>
      | Some p \<Rightarrow> close_connection invalidate p (c\<lparr>lc_connection := None, lc_backend_pid := None\<rparr>))"

definition is_held :: "lock_key \<Rightarrow> reply \<Rightarrow> lease_client \<Rightarrow> lock_server \<Rightarrow> bool \<times> lease_client \<times> lock_server" where
  "is_held k r c sv =
     (case lc_connection c of
        None \<Rightarrow> (False, c, sv)
      | Some p \<Rightarrow>
          (case ask p r (lock_exists k p) sv of
             (Broke _, sv') \<Rightarrow> (False, discard True c, sv')
           | (Got held, sv') \<Rightarrow> if held then (True, c, sv') else (False, discard True c, sv')))"

definition lease_release :: "lock_key \<Rightarrow> reply \<Rightarrow> lease_client \<Rightarrow> lock_server \<Rightarrow> lease_client \<times> lock_server" where
  "lease_release k r c sv =
     (case lc_connection c of
        None \<Rightarrow> (c, sv)
      | Some p \<Rightarrow>
          (case ask p r (pg_advisory_unlock k p) sv of
             (Broke _, sv') \<Rightarrow> (discard True c, sv')
           | (Got unlocked, sv') \<Rightarrow> (discard (\<not> unlocked) c, sv')))"

section \<open>Several processes and one server\<close>

record lock_world =
  lw_client :: "nat \<Rightarrow> lease_client"
  lw_server :: lock_server

definition start_world :: lock_world where
  "start_world = \<lparr>lw_client = (\<lambda>_. no_lease), lw_server = \<lparr>sv_live = [], sv_granted = [], sv_fresh = 0\<rparr>\<rparr>"

text \<open>\<open>OpenPooled\<close> is any other code of the process that opens a connection of the pool.\<close>

datatype lease_op = TryAcquire nat attempt_env | IsHeld nat reply | Release nat reply | OpenPooled nat | SessionEnds session

definition put_client :: "nat \<Rightarrow> lease_client \<times> lock_server \<Rightarrow> lock_world \<Rightarrow> lock_world" where
  "put_client i r w = w\<lparr>lw_client := (lw_client w)(i := fst r), lw_server := snd r\<rparr>"

fun lock_step :: "lock_key \<Rightarrow> lease_op \<Rightarrow> lock_world \<Rightarrow> lock_world" where
  "lock_step k (TryAcquire i e) w = put_client i (snd (try_acquire k e (lw_client w i) (lw_server w))) w"
| "lock_step k (IsHeld i r) w = put_client i (snd (is_held k r (lw_client w i) (lw_server w))) w"
| "lock_step k (Release i r) w = put_client i (lease_release k r (lw_client w i) (lw_server w)) w"
| "lock_step k (OpenPooled i) w =
     (let (p, sv) = open_session (lw_server w)
      in put_client i (close_connection False p (lw_client w i), sv) w)"
| "lock_step k (SessionEnds p) w = w\<lparr>lw_server := session_ends p (lw_server w)\<rparr>"

definition lock_run :: "lock_key \<Rightarrow> lease_op list \<Rightarrow> lock_world" where
  "lock_run k ops = fold (lock_step k) ops start_world"

text \<open>An attempt loses track of a grant if a statement fails after the grant and the connection goes back to the pool.\<close>

fun keeps_track :: "lease_op \<Rightarrow> bool" where
  "keeps_track (TryAcquire i e) \<longleftrightarrow>
     (case at_lock e of Answered \<Rightarrow> True | Lost executed d \<Rightarrow> executed \<longrightarrow> d)
     \<and> (case at_pid e of Answered \<Rightarrow> True | Lost executed d \<Rightarrow> d)"
| "keeps_track _ \<longleftrightarrow> True"

section \<open>Invariants\<close>

text \<open>The sessions a process refers to.\<close>

definition own :: "lease_client \<Rightarrow> session list" where
  "own c = (case lc_connection c of None \<Rightarrow> lc_pool c | Some p \<Rightarrow> p # lc_pool c)"

definition one_holder :: "(lock_key \<times> session) list \<Rightarrow> bool" where
  "one_holder gs \<longleftrightarrow> (\<forall>g\<in>set gs. \<forall>h\<in>set gs. fst g = fst h \<longrightarrow> snd g = snd h)"

definition server_ok :: "lock_server \<Rightarrow> bool" where
  "server_ok sv \<longleftrightarrow> (\<forall>p\<in>set (sv_live sv). p < sv_fresh sv) \<and> (\<forall>g\<in>set (sv_granted sv). snd g \<in> set (sv_live sv))
     \<and> one_holder (sv_granted sv)"

definition world_ok :: "lock_world \<Rightarrow> bool" where
  "world_ok w \<longleftrightarrow> server_ok (lw_server w)
     \<and> (\<forall>i. distinct (own (lw_client w i)) \<and> (\<forall>p\<in>set (own (lw_client w i)). p < sv_fresh (lw_server w)))
     \<and> (\<forall>i j. i \<noteq> j \<longrightarrow> set (own (lw_client w i)) \<inter> set (own (lw_client w j)) = {})"

text \<open>No pooled connection holds the lock, and a retained one holds it at most once.\<close>

definition client_tidy :: "lock_key \<Rightarrow> lock_server \<Rightarrow> lease_client \<Rightarrow> bool" where
  "client_tidy k sv c \<longleftrightarrow> (\<forall>p\<in>set (lc_pool c). (k, p) \<notin> set (sv_granted sv))
     \<and> (\<forall>p. lc_connection c = Some p \<longrightarrow> count_list (sv_granted sv) (k, p) \<le> 1)"

text \<open>What one call of a process may do: to the server, only by its own sessions.\<close>

definition framed :: "lease_client \<Rightarrow> lock_server \<Rightarrow> lease_client \<times> lock_server \<Rightarrow> bool" where
  "framed c sv r \<longleftrightarrow> server_ok (snd r) \<and> sv_fresh sv \<le> sv_fresh (snd r) \<and> distinct (own (fst r))
     \<and> set (own (fst r)) \<subseteq> set (own c) \<union> {sv_fresh sv..<sv_fresh (snd r)}
     \<and> (\<forall>q. q \<notin> set (own c) \<longrightarrow> q < sv_fresh sv \<longrightarrow>
          (\<forall>k. count_list (sv_granted (snd r)) (k, q) = count_list (sv_granted sv) (k, q)))"

definition client_ok :: "lock_server \<Rightarrow> lease_client \<Rightarrow> bool" where
  "client_ok sv c \<longleftrightarrow> server_ok sv \<and> distinct (own c) \<and> (\<forall>p\<in>set (own c). p < sv_fresh sv)"

lemma one_holderD: "one_holder gs \<Longrightarrow> (k, p) \<in> set gs \<Longrightarrow> (k, q) \<in> set gs \<Longrightarrow> p = q"
  unfolding one_holder_def by fastforce

lemma one_holder_subset: "one_holder gs \<Longrightarrow> set hs \<subseteq> set gs \<Longrightarrow> one_holder hs"
  unfolding one_holder_def by blast

lemma one_holder_Cons:
  assumes "one_holder gs" and "\<And>q. (k, q) \<in> set gs \<Longrightarrow> q = p"
  shows "one_holder ((k, p) # gs)"
  unfolding one_holder_def
proof (intro ballI impI)
  fix g h assume gh: "g \<in> set ((k, p) # gs)" "h \<in> set ((k, p) # gs)" and e: "fst g = fst h"
  have only: "snd x = p" if "x \<in> set ((k, p) # gs)" "fst x = k" for x
    using that assms(2) [of "snd x"] by (metis prod.collapse set_ConsD snd_conv)
  show "snd g = snd h"
  proof (cases "fst g = k")
    case True
    then show ?thesis using only gh e by simp
  next
    case False
    then have "g \<in> set gs" "h \<in> set gs" using gh e by auto
    then show ?thesis using assms(1) e unfolding one_holder_def by blast
  qed
qed

lemma server_okD:
  assumes "server_ok sv"
  shows "p \<in> set (sv_live sv) \<Longrightarrow> p < sv_fresh sv" and "(k, p) \<in> set (sv_granted sv) \<Longrightarrow> p \<in> set (sv_live sv)"
    and "(k, p) \<in> set (sv_granted sv) \<Longrightarrow> (k, q) \<in> set (sv_granted sv) \<Longrightarrow> p = q"
  using assms one_holderD unfolding server_ok_def by fastforce+

lemma count_remove1: "count_list (remove1 a xs) b = count_list xs b - (if a = b then 1 else 0)"
  by (induction xs) (auto simp: count_list_0_iff)

text \<open>The statements: each keeps the server in order and changes the grants of its session only.\<close>

definition by_session :: "session \<Rightarrow> lock_server \<Rightarrow> lock_server \<Rightarrow> bool" where
  "by_session p sv sv' \<longleftrightarrow> server_ok sv' \<and> sv_live sv' = sv_live sv \<and> sv_fresh sv' = sv_fresh sv
     \<and> (\<forall>k q. q \<noteq> p \<longrightarrow> count_list (sv_granted sv') (k, q) = count_list (sv_granted sv) (k, q))"

lemma by_session_count: "by_session p sv sv' \<Longrightarrow> q \<noteq> p \<Longrightarrow> count_list (sv_granted sv') (k, q) = count_list (sv_granted sv) (k, q)"
  unfolding by_session_def by blast

lemma by_session_refl: "server_ok sv \<Longrightarrow> by_session p sv sv"
  by (simp add: by_session_def)

lemma by_session_trans: "by_session p a b \<Longrightarrow> by_session p b c \<Longrightarrow> by_session p a c"
  by (simp add: by_session_def)

lemma try_lock_by:
  assumes "server_ok sv" and "p \<in> set (sv_live sv)"
  shows "by_session p sv (snd (pg_try_advisory_lock k p sv))"
proof (cases "list_ex (\<lambda>(k', q). k' = k \<and> q \<noteq> p) (sv_granted sv)")
  case True
  then show ?thesis using assms(1) by (simp add: pg_try_advisory_lock_def by_session_refl)
next
  case False
  then have "one_holder ((k, p) # sv_granted sv)"
    using assms(1) by (intro one_holder_Cons) (auto simp: server_ok_def list_ex_iff)
  then show ?thesis using assms False by (simp add: by_session_def pg_try_advisory_lock_def server_ok_def)
qed

lemma unlock_by:
  assumes "server_ok sv"
  shows "by_session p sv (snd (pg_advisory_unlock k p sv))"
proof -
  have sub: "set (remove1 (k, p) (sv_granted sv)) \<subseteq> set (sv_granted sv)" by (rule set_remove1_subset)
  then have "server_ok (sv\<lparr>sv_granted := remove1 (k, p) (sv_granted sv)\<rparr>)"
    using assms one_holder_subset [OF _ sub] by (auto simp: server_ok_def)
  then show ?thesis using assms by (simp add: by_session_def pg_advisory_unlock_def count_remove1)
qed

lemma ask_by:
  assumes "ask p r stmt sv = (a, sv')" and "server_ok sv" and "p \<in> set (sv_live sv) \<Longrightarrow> by_session p sv (snd (stmt sv))"
  shows "by_session p sv sv'"
  using assms by (auto simp: ask_def by_session_refl split: if_splits reply.splits)

lemma open_session_ok: "server_ok sv \<Longrightarrow> server_ok (snd (open_session sv))"
  unfolding open_session_def server_ok_def by (simp add: less_Suc_eq)

lemma open_session_simps [simp]:
  "fst (open_session sv) = sv_fresh sv" "sv_fresh (snd (open_session sv)) = Suc (sv_fresh sv)"
  "sv_granted (snd (open_session sv)) = sv_granted sv" "sv_live (snd (open_session sv)) = sv_fresh sv # sv_live sv"
  by (simp_all add: open_session_def)

lemma connect_Some:
  "connect how c sv = Some (p, c1, sv1) \<longleftrightarrow>
     how = Pooled p \<and> p \<in> set (lc_pool c) \<and> c1 = c\<lparr>lc_pool := filter (\<lambda>q. q \<noteq> p) (lc_pool c)\<rparr> \<and> sv1 = sv
     \<or> how = Fresh \<and> p = sv_fresh sv \<and> c1 = c \<and> sv1 = snd (open_session sv)"
  by (cases how) (auto simp: connect_def case_prod_beta)

lemma not_granted_fresh: "server_ok sv \<Longrightarrow> (k, sv_fresh sv) \<notin> set (sv_granted sv)"
  using server_okD(1) [of sv "sv_fresh sv"] server_okD(2) [of sv k "sv_fresh sv"] by blast

lemma connect_ok:
  assumes "client_ok sv c" and "lc_connection c = None" and "connect how c sv = Some (p, c1, sv1)"
  shows "server_ok sv1 \<and> lc_connection c1 = None \<and> distinct (p # lc_pool c1) \<and> sv_fresh sv \<le> sv_fresh sv1
    \<and> sv_granted sv1 = sv_granted sv \<and> set (lc_pool c1) \<subseteq> set (lc_pool c)
    \<and> (p \<in> set (lc_pool c) \<or> p = sv_fresh sv \<and> p < sv_fresh sv1)"
proof -
  have sv: "server_ok sv" and d: "distinct (lc_pool c)" and lt: "\<forall>q\<in>set (lc_pool c). q < sv_fresh sv"
    using assms(1,2) by (simp_all add: client_ok_def own_def)
  from assms(3) [unfolded connect_Some] show ?thesis
  proof (elim disjE conjE)
    assume "p \<in> set (lc_pool c)" "c1 = c\<lparr>lc_pool := filter (\<lambda>q. q \<noteq> p) (lc_pool c)\<rparr>" "sv1 = sv"
    then show ?thesis using sv d assms(2) by (simp add: subset_iff)
  next
    assume "p = sv_fresh sv" "c1 = c" "sv1 = snd (open_session sv)"
    then show ?thesis using open_session_ok [OF sv] d lt assms(2) by (simp, blast)
  qed
qed

lemma ask_Got: "ask p r stmt sv = (Got a, sv') \<longleftrightarrow> p \<in> set (sv_live sv) \<and> r = Answered \<and> a = fst (stmt sv) \<and> sv' = snd (stmt sv)"
  by (auto simp: ask_def split: reply.splits)

lemma ask_Broke:
  assumes "ask p r stmt sv = (Broke d, sv')"
  shows "sv' = sv \<or> r = Lost True d \<and> sv' = snd (stmt sv)" and "d \<or> r = Lost True False \<or> r = Lost False False \<and> sv' = sv"
  using assms by (auto simp: ask_def split: reply.splits if_splits)

lemma try_acquire_cases:
  assumes t: "try_acquire k e c sv = (res, c', sv')" and ok: "client_ok sv c"
  shows "c' = c \<and> sv' = sv \<or> (\<exists>p c1 sv1. lc_connection c = None \<and> connect (at_connect e) c sv = Some (p, c1, sv1)
    \<and> by_session p sv1 sv'
    \<and> (c' = c1 \<or> c' = close_connection False p c1 \<and> (keeps_track (TryAcquire i e) \<longrightarrow> sv_granted sv' = sv_granted sv1)
       \<or> c' = c1\<lparr>lc_connection := Some p, lc_backend_pid := Some p\<rparr> \<and> sv_granted sv' = (k, p) # sv_granted sv1))"
proof (cases "lc_connection c = None \<and> connect (at_connect e) c sv \<noteq> None")
  case False
  then have "try_acquire k e c sv = (fst (try_acquire k e c sv), c, sv)"
    by (cases "lc_connection c"; cases "connect (at_connect e) c sv") (simp_all add: try_acquire_def)
  then show ?thesis using t by simp
next
  case True
  then obtain p c1 sv1 where cn: "lc_connection c = None" "connect (at_connect e) c sv = Some (p, c1, sv1)" by auto
  have ok1: "server_ok sv1" using connect_ok [OF ok cn] by blast
  obtain a sv2 where a: "ask p (at_lock e) (pg_try_advisory_lock k p) sv1 = (a, sv2)" by fastforce
  have b2: "by_session p sv1 sv2" by (rule ask_by [OF a ok1 try_lock_by [OF ok1]])
  have closing: "by_session p sv1 sv3 \<Longrightarrow> (\<not> d \<and> keeps_track (TryAcquire i e) \<Longrightarrow> sv_granted sv3 = sv_granted sv1)
      \<Longrightarrow> c' = close_connection d p c1 \<Longrightarrow> sv' = sv3 \<Longrightarrow> ?thesis" for d sv3
    using cn by (cases d) (auto simp: close_connection_def)
  note t' = t [unfolded try_acquire_def, simplified cn, simplified, unfolded cn(2), simplified, unfolded a, simplified]
  show ?thesis
  proof (cases a)
    case (Broke d)
    then have "c' = close_connection d p c1" "sv' = sv2" using t' by auto
    moreover have "sv_granted sv2 = sv_granted sv1" if "\<not> d" "keeps_track (TryAcquire i e)"
      using ask_Broke(2) [OF a [unfolded Broke]] that by auto
    ultimately show ?thesis using closing [of sv2 d] b2 by blast
  next
    case (Got acquired)
    show ?thesis
    proof (cases acquired)
      case False
      then have "c' = close_connection False p c1" "sv' = sv2" using t' Got by auto
      moreover have "sv_granted sv2 = sv_granted sv1"
        using a [unfolded Got ask_Got] False by (auto simp: pg_try_advisory_lock_def split: if_splits)
      ultimately show ?thesis using closing [of sv2 False] b2 by blast
    next
      case True
      have g: "sv_granted sv2 = (k, p) # sv_granted sv1"
        using a [unfolded Got ask_Got] True by (auto simp: pg_try_advisory_lock_def split: if_splits)
      obtain b sv3 where b: "ask p (at_pid e) (pg_backend_pid p) sv2 = (b, sv3)" by fastforce
      have s3: "sv3 = sv2" using b by (auto simp: ask_def pg_backend_pid_def split: if_splits reply.splits)
      show ?thesis
      proof (cases b)
        case (Broke d)
        then have "c' = close_connection d p c1" "sv' = sv2" using t' Got True b s3 by auto
        moreover have "sv_granted sv2 = sv_granted sv1" if "\<not> d" "keeps_track (TryAcquire i e)"
          using ask_Broke(2) [OF b [unfolded Broke]] that by auto
        ultimately show ?thesis using closing [of sv2 d] b2 by blast
      next
        case (Got pid)
        then have "c' = c1\<lparr>lc_connection := Some p, lc_backend_pid := Some p\<rparr>" "sv' = sv2"
          using t' \<open>a = Got acquired\<close> True b s3 b [unfolded Got ask_Got] by (auto simp: pg_backend_pid_def)
        then show ?thesis using cn b2 g by blast
      qed
    qed
  qed
qed

lemma own_simps [simp]:
  "lc_connection c = None \<Longrightarrow> own c = lc_pool c" "own (c\<lparr>lc_backend_pid := x\<rparr>) = own c"
  "own (c\<lparr>lc_connection := Some p\<rparr>) = p # lc_pool c"
  "own (c\<lparr>lc_connection := Some p, lc_backend_pid := x\<rparr>) = p # lc_pool c"
  "lc_connection c = Some p \<Longrightarrow> own c = p # lc_pool c"
  by (auto simp: own_def split: option.splits)

lemma framed_refl: "client_ok sv c \<Longrightarrow> framed c sv (c, sv)"
  by (simp add: framed_def client_ok_def)

lemma framed_try_acquire:
  assumes ok: "client_ok sv c"
  shows "framed c sv (snd (try_acquire k e c sv))"
proof -
  obtain res c' sv' where t: "try_acquire k e c sv = (res, c', sv')" by (metis prod.collapse)
  from try_acquire_cases [OF t ok, where i = 0]
  consider (same) "c' = c" "sv' = sv"
    | (tried) p c1 sv1 where "lc_connection c = None" "connect (at_connect e) c sv = Some (p, c1, sv1)" "by_session p sv1 sv'"
        "c' = c1 \<or> c' = close_connection False p c1 \<or> c' = c1\<lparr>lc_connection := Some p, lc_backend_pid := Some p\<rparr>"
    by blast
  then show ?thesis
  proof cases
    case same
    then show ?thesis using t framed_refl [OF ok] by simp
  next
    case (tried p c1 sv1)
    note c1 = connect_ok [OF ok tried(1,2)]
    have "own c' = lc_pool c1 \<or> own c' = p # lc_pool c1"
      using tried(4) c1 by (auto simp: close_connection_def own_def)
    moreover have "count_list (sv_granted sv') (k', q) = count_list (sv_granted sv) (k', q)"
      if "q \<notin> set (own c)" "q < sv_fresh sv" for k' q
    proof -
      have "q \<noteq> p" using that c1 tried(1) by auto
      then show ?thesis using c1 by_session_count [OF tried(3)] by simp
    qed
    ultimately show ?thesis using t c1 tried(1,3) unfolding framed_def by (auto simp: by_session_def)
  qed
qed

text \<open>Giving a connection up or back leaves a part of the sessions the process had.\<close>

lemma own_discard: "lc_connection c = Some p \<Longrightarrow> own (discard d c) = (if d then lc_pool c else p # lc_pool c)"
  by (simp add: discard_def close_connection_def own_def)

lemma framed_own:
  assumes "client_ok sv c" "lc_connection c = Some p" "by_session p sv sv'" "own c' = lc_pool c \<or> own c' = p # lc_pool c"
  shows "framed c sv (c', sv')"
  using assms by (auto simp: framed_def by_session_def client_ok_def)

lemma is_held_by:
  assumes "client_ok sv c" "lc_connection c = Some p" "is_held k r c sv = (h, c', sv')"
  shows "sv' = sv \<and> (c' = c \<and> h \<and> (k, p) \<in> set (sv_granted sv) \<or> c' = discard True c \<and> \<not> h)"
  using assms(2,3) by (auto simp: is_held_def ask_def lock_exists_def split: if_splits reply.splits)

lemma framed_is_held:
  assumes ok: "client_ok sv c"
  shows "framed c sv (snd (is_held k r c sv))"
proof (cases "lc_connection c")
  case None
  then show ?thesis using framed_refl [OF ok] by (simp add: is_held_def)
next
  case (Some p)
  obtain h c' sv' where t: "is_held k r c sv = (h, c', sv')" by (metis prod.collapse)
  have "by_session p sv sv" using ok by (simp add: client_ok_def by_session_refl)
  then show ?thesis using is_held_by [OF ok Some t] framed_own [OF ok Some, of sv] own_discard [OF Some] Some t by auto
qed

lemma release_by:
  assumes "client_ok sv c" "lc_connection c = Some p" "lease_release k r c sv = (c', sv')"
  shows "by_session p sv sv' \<and> (c' = discard True c \<or> c' = discard False c \<and> sv_granted sv' = remove1 (k, p) (sv_granted sv))"
proof -
  obtain a sv1 where a: "ask p r (pg_advisory_unlock k p) sv = (a, sv1)" by fastforce
  have ok: "server_ok sv" using assms(1) by (simp add: client_ok_def)
  have e: "sv' = sv1" "c' = (case a of Broke _ \<Rightarrow> discard True c | Got un \<Rightarrow> discard (\<not> un) c)"
    using assms(2,3) a by (auto simp: lease_release_def split: asked.splits)
  have "by_session p sv sv1" by (rule ask_by [OF a ok unlock_by [OF ok]])
  moreover have "sv_granted sv1 = remove1 (k, p) (sv_granted sv)" if "a = Got True"
    using a [unfolded that ask_Got] by (auto simp: pg_advisory_unlock_def split: if_splits)
  ultimately show ?thesis using e by (cases a; cases "a = Got True") auto
qed

lemma framed_release:
  assumes ok: "client_ok sv c"
  shows "framed c sv (lease_release k r c sv)"
proof (cases "lc_connection c")
  case None
  then show ?thesis using framed_refl [OF ok] by (simp add: lease_release_def)
next
  case (Some p)
  obtain c' sv' where t: "lease_release k r c sv = (c', sv')" by fastforce
  then show ?thesis using release_by [OF ok Some t] framed_own [OF ok Some, of sv'] own_discard [OF Some] by auto
qed

lemma world_okD:
  assumes "world_ok w"
  shows "client_ok (lw_server w) (lw_client w i)" and "i \<noteq> j \<Longrightarrow> set (own (lw_client w i)) \<inter> set (own (lw_client w j)) = {}"
  using assms unfolding world_ok_def client_ok_def by blast+

lemma put_client_ok:
  assumes w: "world_ok w" and f: "framed (lw_client w i) (lw_server w) r"
  shows "world_ok (put_client i r w)"
proof -
  let ?w = "put_client i r w"
  note f' = f [unfolded framed_def]
  have lt: "p < sv_fresh (lw_server w)" if "p \<in> set (own (lw_client w j))" for p j
    using that world_okD(1) [OF w, of j] by (simp add: client_ok_def)
  have mine: "p \<in> set (own (lw_client w i)) \<or> sv_fresh (lw_server w) \<le> p \<and> p < sv_fresh (snd r)" if "p \<in> set (own (fst r))" for p
    using that f' by auto
  have client: "distinct (own (lw_client ?w j)) \<and> (\<forall>p\<in>set (own (lw_client ?w j)). p < sv_fresh (snd r))" for j
  proof (cases "j = i")
    case True
    then show ?thesis using f' lt mine by (fastforce simp: put_client_def)
  next
    case False
    then show ?thesis using world_okD(1) [OF w, of j] f' by (fastforce simp: put_client_def client_ok_def)
  qed
  have apart: "set (own (fst r)) \<inter> set (own (lw_client w j)) = {}" if "j \<noteq> i" for j
    using mine lt [of _ j] world_okD(2) [OF w that] by fastforce
  have "set (own (lw_client ?w j)) \<inter> set (own (lw_client ?w j')) = {}" if "j \<noteq> j'" for j j'
    using that apart [of j] apart [of j'] world_okD(2) [OF w that] by (auto simp: put_client_def)
  then show ?thesis using client f' unfolding world_ok_def by (simp add: put_client_def)
qed

lemma session_ends_ok: "server_ok sv \<Longrightarrow> server_ok (session_ends p sv)"
  unfolding session_ends_def server_ok_def by (simp add: one_holder_subset [of "sv_granted sv"] subset_iff)

lemma framed_open:
  assumes "client_ok sv c"
  shows "framed c sv (close_connection False (sv_fresh sv) c, snd (open_session sv))"
proof -
  have "own (close_connection False (sv_fresh sv) c) = lc_pool (close_connection False (sv_fresh sv) c)
      \<or> own (close_connection False (sv_fresh sv) c) = the (lc_connection c) # sv_fresh sv # lc_pool c"
    by (cases "lc_connection c") (simp_all add: own_def close_connection_def)
  moreover have "set (own (close_connection False (sv_fresh sv) c)) = insert (sv_fresh sv) (set (own c))"
    "length (own (close_connection False (sv_fresh sv) c)) = Suc (length (own c))"
    by (auto simp: own_def close_connection_def split: option.splits)
  moreover have "sv_fresh sv \<notin> set (own c)" using assms by (auto simp: client_ok_def)
  ultimately have "distinct (own (close_connection False (sv_fresh sv) c))"
    using assms by (simp add: client_ok_def distinct_card card_distinct)
  then show ?thesis using assms open_session_ok [of sv] by (auto simp: framed_def client_ok_def own_def close_connection_def split: option.splits)
qed

lemma lock_step_ok: "world_ok w \<Longrightarrow> world_ok (lock_step k x w)"
proof (cases x)
  case (SessionEnds p)
  assume "world_ok w"
  then show ?thesis using SessionEnds session_ends_ok unfolding world_ok_def by (simp add: session_ends_def)
qed (auto simp: case_prod_beta intro!: put_client_ok framed_try_acquire framed_is_held framed_release framed_open world_okD)

lemma start_world_ok: "world_ok start_world"
  by (simp add: world_ok_def start_world_def no_lease_def server_ok_def one_holder_def)

lemma lock_run_snoc: "lock_run k (ops @ [x]) = lock_step k x (lock_run k ops)"
  by (simp add: lock_run_def)

lemma lock_run_ok: "world_ok (lock_run k ops)"
  by (induction ops rule: rev_induct) (simp_all add: lock_run_snoc lock_step_ok, simp add: lock_run_def start_world_ok)

lemma is_held_True:
  "is_held k r c sv = (True, c', sv') \<Longrightarrow> \<exists>p. lc_connection c = Some p \<and> (k, p) \<in> set (sv_granted sv) \<and> r = Answered"
  by (auto simp: is_held_def ask_def lock_exists_def split: option.splits if_splits reply.splits)

lemma lock_refused: "(k, p) \<in> set (sv_granted sv) \<Longrightarrow> q \<noteq> p \<Longrightarrow> fst (pg_try_advisory_lock k q sv) = False"
  unfolding pg_try_advisory_lock_def list_ex_iff by (auto intro!: bexI [of _ "(k, p)"])

lemma attempt_refused:
  assumes w: "world_ok w" and p: "(k, p) \<in> set (sv_granted (lw_server w))" and cn: "lc_connection (lw_client w j) = None"
    and other: "p \<notin> set (own (lw_client w j))"
  shows "fst (try_acquire k e (lw_client w j) (lw_server w)) \<noteq> Inr True"
proof (cases "connect (at_connect e) (lw_client w j) (lw_server w)")
  case None
  then show ?thesis using cn by (simp add: try_acquire_def)
next
  case (Some r)
  then obtain q c1 sv1 where cc: "connect (at_connect e) (lw_client w j) (lw_server w) = Some (q, c1, sv1)" by (cases r) auto
  have sv: "server_ok (lw_server w)" using w by (simp add: world_ok_def)
  note c1 = connect_ok [OF world_okD(1) [OF w] cn cc]
  have "q \<noteq> p" using c1 cn other server_okD(1) [OF sv server_okD(2) [OF sv p]] by auto
  then have "fst (pg_try_advisory_lock k q sv1) = False" using c1 p by (intro lock_refused) auto
  then show ?thesis using cn cc by (auto simp: try_acquire_def ask_Got split: asked.splits prod.splits if_splits)
qed


section \<open>No grant is left behind\<close>

lemma tidy_zero: "client_tidy k sv c \<Longrightarrow> p \<in> set (lc_pool c) \<Longrightarrow> count_list (sv_granted sv) (k, p) = 0"
  by (auto simp: client_tidy_def count_list_0_iff)

lemma tidy_iff: "client_tidy k sv c \<longleftrightarrow> (\<forall>p\<in>set (lc_pool c). count_list (sv_granted sv) (k, p) = 0)
     \<and> (\<forall>p. lc_connection c = Some p \<longrightarrow> count_list (sv_granted sv) (k, p) \<le> 1)"
  by (auto simp: client_tidy_def count_list_0_iff)

lemma tidy_other:
  assumes w: "world_ok w" and f: "framed (lw_client w i) (lw_server w) r" and j: "j \<noteq> i"
    and t: "client_tidy k (lw_server w) (lw_client w j)"
  shows "client_tidy k (snd r) (lw_client w j)"
proof -
  have "count_list (sv_granted (snd r)) (k, q) = count_list (sv_granted (lw_server w)) (k, q)" if "q \<in> set (own (lw_client w j))" for q
  proof -
    have "q \<notin> set (own (lw_client w i))" "q < sv_fresh (lw_server w)"
      using that world_okD(2) [OF w j] world_okD(1) [OF w, of j] by (auto simp: client_ok_def)
    then show ?thesis using f unfolding framed_def by blast
  qed
  then show ?thesis using t by (auto simp: tidy_iff own_def split: option.splits)
qed

lemma tidy_try_acquire:
  assumes ok: "client_ok sv c" and t: "client_tidy k sv c" and keeps: "keeps_track (TryAcquire i e)"
  shows "client_tidy k (snd (snd (try_acquire k e c sv))) (fst (snd (try_acquire k e c sv)))"
proof -
  obtain res c' sv' where a: "try_acquire k e c sv = (res, c', sv')" by (metis prod.collapse)
  from try_acquire_cases [OF a ok, where i = i] keeps
  consider (same) "c' = c" "sv' = sv"
    | (tried) p c1 sv1 where "lc_connection c = None" "connect (at_connect e) c sv = Some (p, c1, sv1)" "by_session p sv1 sv'"
        "c' = c1 \<or> c' = close_connection False p c1 \<and> sv_granted sv' = sv_granted sv1
         \<or> c' = c1\<lparr>lc_connection := Some p, lc_backend_pid := Some p\<rparr> \<and> sv_granted sv' = (k, p) # sv_granted sv1"
    by blast
  then show ?thesis
  proof cases
    case same
    then show ?thesis using t a by simp
  next
    case (tried p c1 sv1)
    note c1 = connect_ok [OF ok tried(1,2)]
    have sv: "server_ok sv" using ok by (simp add: client_ok_def)
    have zero: "count_list (sv_granted sv) (k, p) = 0"
      using c1 tidy_zero [OF t] not_granted_fresh [OF sv, of k] by (auto simp: count_list_0_iff)
    have rest: "count_list (sv_granted sv') (k, q) = 0" if "q \<in> set (lc_pool c1)" for q
    proof -
      have "q \<noteq> p" "q \<in> set (lc_pool c)" using that c1 by auto
      then show ?thesis using by_session_count [OF tried(3)] tidy_zero [OF t] c1 by simp
    qed
    from tried(4) show ?thesis using rest zero c1 a by (auto simp: tidy_iff close_connection_def)
  qed
qed

lemma tidy_is_held:
  assumes ok: "client_ok sv c" and t: "client_tidy k sv c"
  shows "client_tidy k (snd (snd (is_held k r c sv))) (fst (snd (is_held k r c sv)))"
proof (cases "lc_connection c")
  case (Some p)
  obtain h c' sv' where a: "is_held k r c sv = (h, c', sv')" by (metis prod.collapse)
  then show ?thesis using is_held_by [OF ok Some a] t Some by (auto simp: tidy_iff discard_def close_connection_def)
qed (use t in \<open>simp add: is_held_def\<close>)

lemma tidy_release:
  assumes ok: "client_ok sv c" and t: "client_tidy k sv c"
  shows "client_tidy k (snd (lease_release k r c sv)) (fst (lease_release k r c sv))"
proof (cases "lc_connection c")
  case (Some p)
  obtain c' sv' where a: "lease_release k r c sv = (c', sv')" by fastforce
  have p: "count_list (sv_granted sv) (k, p) \<le> 1" using t Some by (simp add: tidy_iff)
  have "count_list (sv_granted sv') (k, q) = 0" if "q \<in> set (lc_pool c)" for q
  proof -
    have "q \<noteq> p" using that ok Some by (auto simp: client_ok_def)
    then show ?thesis using by_session_count [of p sv sv' q] release_by [OF ok Some a] tidy_zero [OF t that] by simp
  qed
  then show ?thesis using release_by [OF ok Some a] a p Some tidy_zero [OF t]
    by (auto simp: tidy_iff discard_def close_connection_def count_remove1)
qed (use t in \<open>simp add: lease_release_def\<close>)

lemma tidy_step:
  assumes w: "world_ok w" and t: "\<And>j. client_tidy k (lw_server w) (lw_client w j)" and keeps: "keeps_track x"
  shows "client_tidy k (lw_server (lock_step k x w)) (lw_client (lock_step k x w) j)"
proof -
  have put: "client_tidy k (lw_server (put_client i r w)) (lw_client (put_client i r w) j)"
    if "framed (lw_client w i) (lw_server w) r" "client_tidy k (snd r) (fst r)" for i r
    using that tidy_other [OF w that(1) _ t, of j] by (simp add: put_client_def)
  note ok = world_okD(1) [OF w]
  show ?thesis
  proof (cases x)
    case (SessionEnds p)
    have "count_list (filter (\<lambda>g. snd g \<noteq> p) gs) (k, q) \<le> count_list gs (k, q)" for q gs by (induction gs) auto
    then show ?thesis using t [of j] SessionEnds
      by (auto simp: tidy_iff session_ends_def) (metis le_zero_eq, metis le_trans)
  next
    case (OpenPooled i)
    have "count_list (sv_granted (lw_server w)) (k, sv_fresh (lw_server w)) = 0"
      using not_granted_fresh w by (simp add: world_ok_def count_list_0_iff)
    then show ?thesis using OpenPooled put [OF framed_open [OF ok]] t [of i]
      by (simp add: case_prod_beta tidy_iff close_connection_def)
  qed (use keeps put framed_try_acquire [OF ok] framed_is_held [OF ok] framed_release [OF ok]
        tidy_try_acquire [OF ok t] tidy_is_held [OF ok t] tidy_release [OF ok t] in \<open>simp_all del: keeps_track.simps\<close>)
qed

lemma lock_run_tidy: "\<forall>x\<in>set ops. keeps_track x \<Longrightarrow> client_tidy k (lw_server (lock_run k ops)) (lw_client (lock_run k ops) j)"
proof (induction ops arbitrary: j rule: rev_induct)
  case Nil
  then show ?case by (simp add: lock_run_def start_world_def no_lease_def client_tidy_def)
next
  case (snoc x ops)
  then show ?case unfolding lock_run_snoc by (intro tidy_step lock_run_ok) simp_all
qed

text \<open>
  C38. A stopped scheduler does not keep the next one out. As long as no attempt lost track of a grant, no
  idle connection of a pool holds the lock; and when a process whose session lives releases the
  lease and gets the answer, the lock is free: the attempt of any process over a new connection
  makes it the holder.
\<close>

theorem released_lease_is_free:
  assumes "\<forall>x\<in>set ops. keeps_track x"
  shows "(\<forall>j. \<forall>p\<in>set (lc_pool (lw_client (lock_run k ops) j)). (k, p) \<notin> set (sv_granted (lw_server (lock_run k ops))))
    \<and> (fst (is_held k Answered (lw_client (lock_run k ops) i) (lw_server (lock_run k ops))) \<longrightarrow>
        (let w = lock_run k (ops @ [Release i Answered])
         in k \<notin> fst ` set (sv_granted (lw_server w))
            \<and> (lc_connection (lw_client w j) = None \<longrightarrow>
                 fst (try_acquire k \<lparr>at_connect = Fresh, at_lock = Answered, at_pid = Answered\<rparr> (lw_client w j) (lw_server w)) = Inr True)))"
proof -
  define w where "w = lock_run k ops"
  define w' where "w' = lock_run k (ops @ [Release i Answered])"
  have w: "world_ok w" unfolding w_def by (rule lock_run_ok)
  have t: "client_tidy k (lw_server w) (lw_client w j)" for j unfolding w_def by (rule lock_run_tidy [OF assms])
  have "k \<notin> fst ` set (sv_granted (lw_server w'))" if h: "fst (is_held k Answered (lw_client w i) (lw_server w))"
  proof -
    obtain p where p: "lc_connection (lw_client w i) = Some p" "(k, p) \<in> set (sv_granted (lw_server w))"
      using is_held_True h by (metis prod.collapse)
    have sv: "server_ok (lw_server w)" using w by (simp add: world_ok_def)
    have "p \<in> set (sv_live (lw_server w))" by (rule server_okD(2) [OF sv p(2)])
    then have g: "sv_granted (lw_server w') = remove1 (k, p) (sv_granted (lw_server w))"
      using p by (simp add: w'_def lock_run_snoc put_client_def lease_release_def ask_def pg_advisory_unlock_def flip: w_def)
    have "count_list (sv_granted (lw_server w)) (k, p) \<le> 1" using t [of i] p(1) by (simp add: tidy_iff)
    then have "(k, p) \<notin> set (sv_granted (lw_server w'))" by (simp add: g count_remove1 flip: count_list_0_iff)
    moreover have "q = p" if "(k, q) \<in> set (sv_granted (lw_server w'))" for q
      using that g set_remove1_subset [of "(k, p)"] server_okD(3) [OF sv _ p(2)] by auto
    ultimately show ?thesis by auto
  qed
  moreover have "fst (try_acquire k \<lparr>at_connect = Fresh, at_lock = Answered, at_pid = Answered\<rparr> c sv) = Inr True"
    if "k \<notin> fst ` set (sv_granted sv)" "lc_connection c = None" for c sv
    using that by (force simp: try_acquire_def connect_def open_session_def ask_def pg_try_advisory_lock_def pg_backend_pid_def list_ex_iff)
  ultimately show ?thesis using t unfolding client_tidy_def Let_def w_def w'_def by blast
qed

text \<open>Two processes: the second is refused while the first holds the lease, and gets it afterwards.\<close>

definition plain_attempt :: attempt_env where
  "plain_attempt = \<lparr>at_connect = Fresh, at_lock = Answered, at_pid = Answered\<rparr>"

lemmas advisory_eval = lock_run_def start_world_def no_lease_def put_client_def try_acquire_def connect_def
  open_session_def ask_def pg_try_advisory_lock_def pg_backend_pid_def close_connection_def is_held_def lock_exists_def
  lease_release_def pg_advisory_unlock_def discard_def session_ends_def

definition demo_lock :: lock_key where
  "demo_lock = (ADVISORY_CLASSID, 77)"


theorem released_lease_is_free_witness:
  "fst (try_acquire demo_lock plain_attempt (lw_client (lock_run demo_lock [TryAcquire 3 plain_attempt, Release 3 Answered]) 4)
          (lw_server (lock_run demo_lock [TryAcquire 3 plain_attempt, Release 3 Answered]))) = Inr True"
proof -
  have "\<forall>x\<in>set [TryAcquire 3 plain_attempt]. keeps_track x" by (simp add: plain_attempt_def)
  note * = released_lease_is_free [OF this, where i = 3 and j = 4 and k = demo_lock]
  have "fst (is_held demo_lock Answered (lw_client (lock_run demo_lock [TryAcquire 3 plain_attempt]) 3) (lw_server (lock_run demo_lock [TryAcquire 3 plain_attempt])))"
    "lc_connection (lw_client (lock_run demo_lock ([TryAcquire 3 plain_attempt] @ [Release 3 Answered])) 4) = None"
    by (simp_all add: advisory_eval plain_attempt_def)
  then show ?thesis using * by (simp add: Let_def plain_attempt_def)
qed

text \<open>
  Without that hypothesis the lease can be lost. If \<open>SELECT pg_backend_pid()\<close> fails after the grant
  with an error that is no disconnect, \<open>try_acquire\<close> closes the connection, which goes back to the pool
  with the lock. From then on every process is refused over a new connection, the failed one too;
  and if that one meets the same pooled connection again, it becomes active with two grants, of
  which its \<open>release\<close>, although confirmed by the server, gives back one: the lock stays taken.
\<close>

lemma failed_attempt_keeps_the_lock:
  fixes k :: lock_key
  defines "failed \<equiv> TryAcquire 3 \<lparr>at_connect = Fresh, at_lock = Answered, at_pid = Lost False False\<rparr>"
    and "again \<equiv> TryAcquire 3 \<lparr>at_connect = Pooled 0, at_lock = Answered, at_pid = Answered\<rparr>"
  shows "fst (try_acquire k plain_attempt (lw_client (lock_run k [failed]) 3) (lw_server (lock_run k [failed]))) = Inr False"
    and "fst (try_acquire k plain_attempt (lw_client (lock_run k [failed]) 4) (lw_server (lock_run k [failed]))) = Inr False"
    and "fst (is_held k Answered (lw_client (lock_run k [failed, again]) 3) (lw_server (lock_run k [failed, again])))"
    and "fst (try_acquire k plain_attempt (lw_client (lock_run k [failed, again, Release 3 Answered]) 4)
           (lw_server (lock_run k [failed, again, Release 3 Answered]))) = Inr False"
  by (simp_all add: failed_def again_def advisory_eval plain_attempt_def)

lemma advisory_key_range: "0 \<le> advisory_key blake2s name \<and> advisory_key blake2s name < 2 ^ 31"
  by (simp add: advisory_key_def)

end
