(* ===== verification/Scheduler.thy ===== *)
theory Scheduler
  imports Backends Advisory
begin

text \<open>
  \<open>workers/scheduler.py\<close>, the scheduler's part of \<open>workers/config.py\<close> and the domain ticks of
  \<open>workers/registry.py\<close>: the maintenance pass over the two queues and the worker instances, and the loop
  of the one active scheduler, which takes the lease of \<open>Advisory\<close>, runs the ticks that are due and
  checks the lease before each domain tick. Seconds are exact rationals.

  A \<open>tick_env\<close> is what the loop meets around one tick: the stop event, the monotonic clock, what
  happened to the server's locks, the answers to the checks of the lease, and what the awaited
  coroutine did to the database, with \<open>False\<close> for an exception or the timeout of \<open>wait_for\<close>.
\<close>

section \<open>Configuration\<close>

record scheduler_config =
  sc_lease_name :: ustr
  sc_tick_seconds :: rat
  sc_lease_retry_seconds :: rat
  sc_stale_after_seconds :: rat
  sc_recover_limit :: int

definition scheduler_post_init :: "scheduler_config \<Rightarrow> unit res" where
  "scheduler_post_init c =
     (if sc_lease_name c = [] then Inl WorkerConfigError
      else if sc_recover_limit c < 1 then Inl WorkerConfigError
      else Inr ())"

text \<open>\<open>int(x)\<close> of a positive float is its floor.\<close>

definition scheduler_statement_timeout_ms :: "scheduler_config \<Rightarrow> int" where
  "scheduler_statement_timeout_ms c = max \<lfloor>(sc_tick_seconds c + sc_lease_retry_seconds c) * 1000\<rfloor> 1000"

definition SCHEDULER_ENV_PREFIX :: string where
  "SCHEDULER_ENV_PREFIX = ''COLLECTOR_SCHEDULER_''"

definition scheduler_from_env ::
  "(ustr \<Rightarrow> rat option) \<Rightarrow> (ustr \<Rightarrow> int option) \<Rightarrow> (string \<Rightarrow> ustr option) \<Rightarrow> scheduler_config res" where
  "scheduler_from_env to_float to_int env =
     (let raw = env_text env (SCHEDULER_ENV_PREFIX @ ''LEASE_NAME'');
          name = (if raw = [] then ulit ''scheduler'' else raw)
      in bind_res (positive_float to_float env (SCHEDULER_ENV_PREFIX @ ''TICK_SECONDS'') 5) (\<lambda>tick.
         bind_res (positive_float to_float env (SCHEDULER_ENV_PREFIX @ ''LEASE_RETRY_SECONDS'') 5) (\<lambda>retry_seconds.
         bind_res (positive_float to_float env (SCHEDULER_ENV_PREFIX @ ''STALE_AFTER_SECONDS'') 60) (\<lambda>stale.
         bind_res (positive_int to_int env (SCHEDULER_ENV_PREFIX @ ''RECOVER_LIMIT'') 1000) (\<lambda>limit.
         let c = \<lparr>sc_lease_name = name, sc_tick_seconds = tick, sc_lease_retry_seconds = retry_seconds,
                  sc_stale_after_seconds = stale, sc_recover_limit = limit\<rparr>
         in bind_res (scheduler_post_init c) (\<lambda>_. Inr c))))))"

section \<open>Maintenance\<close>

record maintenance_result =
  mr_recovered_leases :: nat
  mr_stale_instances :: nat
  mr_recovered_projection_leases :: nat

definition run_maintenance ::
  "scheduler_config \<Rightarrow> call_env \<Rightarrow> call_env \<Rightarrow> ts \<Rightarrow> db \<Rightarrow> (maintenance_result \<times> db) res" where
  "run_maintenance c ej et now s =
     bind_res (qb_recover_expired CRAWL_JOBS ej (sc_recover_limit c) now s) (\<lambda>(recovered, s1).
     bind_res (qb_recover_expired PROJECTION_TASKS et (sc_recover_limit c) now s1) (\<lambda>(projection, s2).
     bind_res (mark_stale_instances (timedelta_seconds (sc_stale_after_seconds c)) now (utc now) s2) (\<lambda>(stale, s3).
       Inr (\<lparr>mr_recovered_leases = length recovered, mr_stale_instances = length stale,
             mr_recovered_projection_leases = length projection\<rparr>, s3))))"

text \<open>The tick is one transaction: an error rolls it back.\<close>

definition maintenance_tick :: "scheduler_config \<Rightarrow> call_env \<Rightarrow> call_env \<Rightarrow> ts \<Rightarrow> db \<Rightarrow> db \<times> bool" where
  "maintenance_tick c ej et now s =
     (case run_maintenance c ej et now s of Inl _ \<Rightarrow> (s, False) | Inr (_, s') \<Rightarrow> (s', True))"

section \<open>Domain ticks\<close>

record tick_spec =
  dt_name :: string
  dt_target :: string
  dt_interval_seconds :: rat
  dt_timeout_seconds :: rat
  dt_enabled_env :: "string option"

definition partition_at :: "char \<Rightarrow> string \<Rightarrow> string \<times> string" where
  "partition_at sep s = (takeWhile (\<lambda>c. c \<noteq> sep) s, drop 1 (dropWhile (\<lambda>c. c \<noteq> sep) s))"

definition spec_module :: "tick_spec \<Rightarrow> string" where
  "spec_module d = fst (partition_at CHR '':'' (dt_target d))"

definition spec_attr :: "tick_spec \<Rightarrow> string" where
  "spec_attr d = snd (partition_at CHR '':'' (dt_target d))"

definition tick_spec_post_init :: "tick_spec \<Rightarrow> unit res" where
  "tick_spec_post_init d =
     (if spec_module d = [] \<or> spec_attr d = [] then Inl ValueError
      else if dt_interval_seconds d \<le> 0 \<or> dt_timeout_seconds d \<le> 0 then Inl ValueError
      else Inr ())"

definition DOMAIN_TICKS :: "tick_spec list" where
  "DOMAIN_TICKS =
     [\<lparr>dt_name = ''projection.reconcile'', dt_target = ''collector.workers.reconciler:schedule'',
       dt_interval_seconds = 300, dt_timeout_seconds = 60, dt_enabled_env = None\<rparr>,
      \<lparr>dt_name = ''projection.compact'', dt_target = ''collector.workers.compactor:schedule'',
       dt_interval_seconds = 3600, dt_timeout_seconds = 60, dt_enabled_env = None\<rparr>,
      \<lparr>dt_name = ''outbox.publish'', dt_target = ''collector.workers.publisher:tick'',
       dt_interval_seconds = 5, dt_timeout_seconds = 60,
       dt_enabled_env = Some ''COLLECTOR_OUTBOX_PUBLISHER_ENABLED''\<rparr>]"

text \<open>
  \<open>lower()\<close> matters only for the comparison with the three texts of \<open>TRUTHY\<close>, and no character
  outside of ASCII is lowered to a letter of them.
\<close>

definition TRUTHY :: "ustr list" where
  "TRUTHY = map ulit [''1'', ''true'', ''yes'']"

definition lower_text :: "ustr \<Rightarrow> ustr" where
  "lower_text s = map (\<lambda>c. if 65 \<le> c \<and> c \<le> 90 then c + 32 else c) s"

definition tick_enabled :: "(string \<Rightarrow> ustr option) \<Rightarrow> tick_spec \<Rightarrow> bool" where
  "tick_enabled env d =
     (case dt_enabled_env d of None \<Rightarrow> True | Some v \<Rightarrow> lower_text (env_text env v) \<in> set TRUTHY)"

text \<open>
  \<open>import_module\<close> is \<open>import_optional\<close>: \<open>Inr None\<close> for a module that is not there, an error for one
  that is broken; a module tells for a name whether it is a coroutine function.
\<close>

fun load_domain_ticks ::
  "(string \<Rightarrow> (string \<Rightarrow> bool) option res) \<Rightarrow> (string \<Rightarrow> ustr option) \<Rightarrow> tick_spec list \<Rightarrow> tick_spec list res" where
  "load_domain_ticks import_module env [] = Inr []"
| "load_domain_ticks import_module env (d # specs) =
     (if \<not> tick_enabled env d then load_domain_ticks import_module env specs
      else bind_res (import_module (spec_module d)) (\<lambda>m.
        case m of
          None \<Rightarrow> load_domain_ticks import_module env specs
        | Some coroutine \<Rightarrow>
            if \<not> coroutine (spec_attr d) then Inl HandlerRegistryError
            else bind_res (load_domain_ticks import_module env specs) (\<lambda>loaded. Inr (d # loaded))))"

section \<open>The scheduler\<close>

definition MAINTENANCE_TICK :: string where
  "MAINTENANCE_TICK = ''maintenance''"

definition MAINTENANCE_TIMEOUT_FLOOR_SECONDS :: rat where
  "MAINTENANCE_TIMEOUT_FLOOR_SECONDS = 30"

record scheduled =
  sd_name :: string
  sd_interval_seconds :: rat
  sd_timeout_seconds :: rat
  sd_next_due :: rat

definition schedule_domain :: "tick_spec \<Rightarrow> scheduled" where
  "schedule_domain d =
     \<lparr>sd_name = dt_name d, sd_interval_seconds = dt_interval_seconds d, sd_timeout_seconds = dt_timeout_seconds d, sd_next_due = 0\<rparr>"

record scheduler =
  sr_active :: bool
  sr_lease :: lease_client
  sr_items :: "scheduled list"
  sr_ticks :: nat
  sr_tick_runs :: "string \<Rightarrow> nat"
  sr_tick_failures :: "string \<Rightarrow> nat"
  sr_acquire_attempts :: nat
  sr_activations :: nat
  sr_lease_losses :: nat

definition scheduler_init :: "scheduler_config \<Rightarrow> tick_spec list \<Rightarrow> scheduler" where
  "scheduler_init c loaded =
     \<lparr>sr_active = False, sr_lease = no_lease,
      sr_items = \<lparr>sd_name = MAINTENANCE_TICK, sd_interval_seconds = sc_tick_seconds c,
          sd_timeout_seconds = max (max (of_int (scheduler_statement_timeout_ms c) / 1000 * 3) (sc_tick_seconds c))
                                   MAINTENANCE_TIMEOUT_FLOOR_SECONDS,
          sd_next_due = 0\<rparr> # map schedule_domain loaded,
      sr_ticks = 0, sr_tick_runs = (\<lambda>_. 0), sr_tick_failures = (\<lambda>_. 0),
      sr_acquire_attempts = 0, sr_activations = 0, sr_lease_losses = 0\<rparr>"

text \<open>
  The world of one process: the locks of the server, the database, and the log of the started ticks,
  each with the connection of the lease and the state of the locks at that moment.
\<close>

record tick_start =
  ts_name :: string
  ts_connection :: "session option"
  ts_server :: lock_server

record sched_world =
  sw_server :: lock_server
  sw_db :: db
  sw_started :: "tick_start list"

definition try_activate ::
  "lock_key \<Rightarrow> attempt_env \<Rightarrow> scheduler \<Rightarrow> sched_world \<Rightarrow> bool \<times> scheduler \<times> sched_world" where
  "try_activate k e s w =
     (let (r, lease, sv) = try_acquire k e (sr_lease s) (sw_server w);
          acquired = (case r of Inl _ \<Rightarrow> False | Inr b \<Rightarrow> b);
          s1 = s\<lparr>sr_lease := lease, sr_acquire_attempts := sr_acquire_attempts s + 1\<rparr>;
          w1 = w\<lparr>sw_server := sv\<rparr>
      in if \<not> acquired then (False, s1, w1)
         else (True, s1\<lparr>sr_active := True, sr_activations := sr_activations s + 1\<rparr>, w1))"

definition lease_held :: "lock_key \<Rightarrow> reply \<Rightarrow> scheduler \<Rightarrow> sched_world \<Rightarrow> bool \<times> scheduler \<times> sched_world" where
  "lease_held k r s w =
     (let (held, lease, sv) = is_held k r (sr_lease s) (sw_server w)
      in (held, s\<lparr>sr_lease := lease\<rparr>, w\<lparr>sw_server := sv\<rparr>))"

definition still_active :: "lock_key \<Rightarrow> reply \<Rightarrow> scheduler \<Rightarrow> sched_world \<Rightarrow> bool \<times> scheduler \<times> sched_world" where
  "still_active k r s w =
     (let (held, s1, w1) = lease_held k r s w
      in if held then (True, s1, w1)
         else (False, s1\<lparr>sr_active := False, sr_lease_losses := sr_lease_losses s1 + 1\<rparr>, w1))"

record tick_env =
  te_stop :: bool
  te_monotonic :: rat
  te_server :: "lock_server \<Rightarrow> lock_server"
  te_reply :: reply
  te_own_checks :: "((lock_server \<Rightarrow> lock_server) \<times> reply) list"
  te_run :: "db \<Rightarrow> db \<times> bool"
  te_after :: rat

text \<open>A domain tick may check the lease itself, by \<open>TickContext.lease_is_ours\<close>.\<close>

fun own_checks ::
  "lock_key \<Rightarrow> ((lock_server \<Rightarrow> lock_server) \<times> reply) list \<Rightarrow> scheduler \<Rightarrow> sched_world \<Rightarrow> scheduler \<times> sched_world" where
  "own_checks k [] s w = (s, w)"
| "own_checks k ((f, r) # cs) s w =
     (let (_, s1, w1) = lease_held k r s (w\<lparr>sw_server := f (sw_server w)\<rparr>) in own_checks k cs s1 w1)"

definition start_tick :: "lock_key \<Rightarrow> scheduled \<Rightarrow> tick_env \<Rightarrow> scheduler \<Rightarrow> sched_world \<Rightarrow> scheduler \<times> sched_world" where
  "start_tick k x e s w =
     (let entry = \<lparr>ts_name = sd_name x, ts_connection = lc_connection (sr_lease s), ts_server = sw_server w\<rparr>;
          (s1, w1) = (if sd_name x = MAINTENANCE_TICK then (s, w) else own_checks k (te_own_checks e) s w);
          (d, returned) = te_run e (sw_db w1);
          w2 = w1\<lparr>sw_db := d, sw_started := sw_started w1 @ [entry]\<rparr>
      in if \<not> returned
         then (s1\<lparr>sr_tick_failures := (sr_tick_failures s1)(sd_name x := sr_tick_failures s1 (sd_name x) + 1)\<rparr>, w2)
         else (s1\<lparr>sr_tick_runs := (sr_tick_runs s1)(sd_name x := sr_tick_runs s1 (sd_name x) + 1),
                  sr_ticks := (if sd_name x = MAINTENANCE_TICK then sr_ticks s1 + 1 else sr_ticks s1)\<rparr>, w2))"

fun due_ticks ::
  "lock_key \<Rightarrow> (scheduled \<times> tick_env) list \<Rightarrow> scheduler \<Rightarrow> sched_world \<Rightarrow> scheduled list \<times> scheduler \<times> sched_world" where
  "due_ticks k [] s w = ([], s, w)"
| "due_ticks k ((x, e) # rest) s w =
     (if te_stop e \<or> \<not> sr_active s then (map fst ((x, e) # rest), s, w)
      else if te_monotonic e < sd_next_due x
      then (let (xs, r) = due_ticks k rest s w in (x # xs, r))
      else let w0 = w\<lparr>sw_server := te_server e (sw_server w)\<rparr>;
               (held, s1, w1) = (if sd_name x \<noteq> MAINTENANCE_TICK then still_active k (te_reply e) s w0 else (True, s, w0))
           in if \<not> held then (map fst ((x, e) # rest), s1, w1)
              else let (s2, w2) = start_tick k x e s1 w1;
                       (xs, r) = due_ticks k rest s2 w2
                   in (x\<lparr>sd_next_due := te_after e + sd_interval_seconds x\<rparr> # xs, r))"

definition run_due_ticks :: "lock_key \<Rightarrow> (nat \<Rightarrow> tick_env) \<Rightarrow> scheduler \<Rightarrow> sched_world \<Rightarrow> scheduler \<times> sched_world" where
  "run_due_ticks k env s w =
     (let (xs, s', w') = due_ticks k (zip (sr_items s) (map env [0..<length (sr_items s)])) s w
      in (s'\<lparr>sr_items := xs\<rparr>, w'))"

text \<open>The list of ticks is never empty: the maintenance tick is its head.\<close>

definition until_next_due :: "scheduler_config \<Rightarrow> rat \<Rightarrow> scheduler \<Rightarrow> rat" where
  "until_next_due c monotonic s =
     (let soonest = foldr min (map sd_next_due (tl (sr_items s))) (sd_next_due (hd (sr_items s)))
      in min (max (soonest - monotonic) 0) (sc_tick_seconds c))"

text \<open>One round of the loop, once the stop event was seen clear; the result ends with the pause.\<close>

record round_env =
  re_server :: "lock_server \<Rightarrow> lock_server"
  re_attempt :: attempt_env
  re_reply :: reply
  re_ticks :: "nat \<Rightarrow> tick_env"
  re_monotonic :: rat

definition scheduler_round ::
  "scheduler_config \<Rightarrow> lock_key \<Rightarrow> round_env \<Rightarrow> scheduler \<Rightarrow> sched_world \<Rightarrow> scheduler \<times> sched_world \<times> rat" where
  "scheduler_round c k e s w =
     (let w0 = w\<lparr>sw_server := re_server e (sw_server w)\<rparr>;
          (on, s1, w1) =
            (if \<not> sr_active s
             then (let (acquired, s', w') = try_activate k (re_attempt e) s w0
                   in (acquired, if acquired then s'\<lparr>sr_items := map (\<lambda>x. x\<lparr>sd_next_due := 0\<rparr>) (sr_items s')\<rparr> else s', w'))
             else still_active k (re_reply e) s w0)
      in if \<not> on then (s1, w1, sc_lease_retry_seconds c)
         else let (s2, w2) = run_due_ticks k (re_ticks e) s1 w1
              in (s2, w2, until_next_due c (re_monotonic e) s2))"

text \<open>The end of \<open>run\<close>: the lease is given back.\<close>

definition scheduler_stop :: "lock_key \<Rightarrow> reply \<Rightarrow> scheduler \<Rightarrow> sched_world \<Rightarrow> scheduler \<times> sched_world" where
  "scheduler_stop k r s w =
     (let (lease, sv) = lease_release k r (sr_lease s) (sw_server w)
      in (s\<lparr>sr_active := False, sr_lease := lease\<rparr>, w\<lparr>sw_server := sv\<rparr>))"

section \<open>A maintenance pass catches up\<close>

definition expired_jobs :: "ts \<Rightarrow> db \<Rightarrow> crawl_job list" where
  "expired_jobs now s = filter (job_expired now) (crawl_jobs s)"

definition expired_tasks :: "ts \<Rightarrow> db \<Rightarrow> projection_task list" where
  "expired_tasks now s = filter (task_expired now) (projection_tasks s)"

definition silent_instances :: "scheduler_config \<Rightarrow> ts \<Rightarrow> db \<Rightarrow> worker_instance list" where
  "silent_instances c now s = filter (instance_silent (timedelta_seconds (sc_stale_after_seconds c)) now) (worker_instances s)"

lemma filter_upd_selected:
  assumes d: "distinct (map key rows)" and gone: "\<And>r. \<not> P (f r)" and sel: "set sel \<subseteq> set (filter P rows)" and ds: "distinct sel"
  shows "length (filter P (upd_selected key sel f rows)) = length (filter P rows) - length sel"
proof -
  have "filter P (upd_selected key sel f rows) = filter (\<lambda>r. P r \<and> key r \<notin> key ` set sel) rows"
    by (induction rows) (auto simp: upd_selected_def gone)
  moreover have "key r \<in> key ` set sel \<longleftrightarrow> r \<in> set sel" if "r \<in> set rows" for r
    using that sel d by (auto simp: distinct_map dest: inj_onD)
  ultimately have e: "filter P (upd_selected key sel f rows) = filter (\<lambda>r. r \<notin> set sel) (filter P rows)"
    by (auto intro: filter_cong)
  have dp: "distinct (filter P rows)" using d by (simp add: distinct_map)
  have "length (filter (\<lambda>r. r \<notin> set sel) (filter P rows)) = card (set (filter (\<lambda>r. r \<notin> set sel) (filter P rows)))"
    by (rule distinct_card [symmetric]) (use dp in \<open>rule distinct_filter\<close>)
  also have "set (filter (\<lambda>r. r \<notin> set sel) (filter P rows)) = set (filter P rows) - set sel" by auto
  also have "card \<dots> = card (set (filter P rows)) - card (set sel)" using sel by (intro card_Diff_subset) simp_all
  finally show ?thesis unfolding e distinct_card [OF dp] distinct_card [OF ds] .
qed

lemma filter_upd_limit:
  assumes "distinct (map key rows)" and "\<And>r. \<not> P (f r)"
  shows "length (filter P (upd_selected key (order_limit k n (filter P rows)) f rows)) = length (filter P rows) - min n (length (filter P rows))"
proof -
  have "distinct (order_limit k n (filter P rows))" using assms(1) by (intro distinct_order_limit) (simp add: distinct_map)
  then show ?thesis using filter_upd_selected [where P = P and sel = "order_limit k n (filter P rows)", OF assms set_order_limit_subset] by simp
qed

lemma upd_selected_Nil: "upd_selected key [] f rows = rows"
  by (simp add: upd_selected_def upd_where_none)

lemma job_not_expired: "\<not> job_expired now (job_recovered now j)"
  by (simp add: job_expired_def job_recovered_def)

lemma task_not_expired: "\<not> task_expired now (task_recovered now t)"
  by (simp add: task_expired_def task_recovered_def)

lemma jobs_recovered:
  assumes d: "distinct (map j_job_id (crawl_jobs s))" and n: "0 \<le> n" and free: "ce_locked e = []"
  obtains ids rows where "qb_recover_expired CRAWL_JOBS e n now s = Inr (ids, s\<lparr>crawl_jobs := rows\<rparr>)"
    and "length ids = min (nat n) (length (expired_jobs now s))"
    and "length (filter (job_expired now) rows) = length (expired_jobs now s) - length ids"
proof
  define sel where "sel = order_limit (\<lambda>j. expires_key (j_lease_expires_at j)) (nat n) (filter (job_expired now) (crawl_jobs s))"
  let ?rows = "upd_selected j_job_id sel (job_recovered now) (crawl_jobs s)"
  show "qb_recover_expired CRAWL_JOBS e n now s = Inr (map j_job_id sel, s\<lparr>crawl_jobs := ?rows\<rparr>)"
    using n free by (simp add: CRAWL_JOBS_def crawl_recover_expired_def recover_expired_leases_def sel_def Let_def)
  show "length (map j_job_id sel) = min (nat n) (length (expired_jobs now s))" by (simp add: sel_def expired_jobs_def)
  show "length (filter (job_expired now) ?rows) = length (expired_jobs now s) - length (map j_job_id sel)"
    unfolding sel_def expired_jobs_def by (simp add: filter_upd_limit [where P = "job_expired now", OF d job_not_expired])
qed

lemma tasks_recovered:
  assumes d: "distinct (map t_task_id (projection_tasks s))" and n: "0 \<le> n" and free: "ce_locked e = []"
  obtains ids rows where "qb_recover_expired PROJECTION_TASKS e n now s = Inr (ids, s\<lparr>projection_tasks := rows\<rparr>)"
    and "length ids = min (nat n) (length (expired_tasks now s))"
    and "length (filter (task_expired now) rows) = length (expired_tasks now s) - length ids"
proof
  define sel where "sel = order_limit (\<lambda>t. expires_key (t_lease_expires_at t)) (nat n) (filter (task_expired now) (projection_tasks s))"
  let ?rows = "upd_selected t_task_id sel (task_recovered now) (projection_tasks s)"
  show "qb_recover_expired PROJECTION_TASKS e n now s = Inr (map t_task_id sel, s\<lparr>projection_tasks := ?rows\<rparr>)"
    using n free by (simp add: PROJECTION_TASKS_def proj_recover_expired_def recover_expired_projection_leases_def sel_def Let_def)
  show "length (map t_task_id sel) = min (nat n) (length (expired_tasks now s))" by (simp add: sel_def expired_tasks_def)
  show "length (filter (task_expired now) ?rows) = length (expired_tasks now s) - length (map t_task_id sel)"
    unfolding sel_def expired_tasks_def by (simp add: filter_upd_limit [where P = "task_expired now", OF d task_not_expired])
qed

lemma instances_marked:
  obtains ids rows where "mark_stale_instances (timedelta_seconds (sc_stale_after_seconds c)) now (utc now) s = Inr (ids, s\<lparr>worker_instances := rows\<rparr>)"
    and "length ids = length (silent_instances c now s)"
    and "filter (instance_silent (timedelta_seconds (sc_stale_after_seconds c)) now) rows = []"
proof
  let ?ttl = "timedelta_seconds (sc_stale_after_seconds c)"
  let ?rows = "upd_where (instance_silent ?ttl now) (\<lambda>x. x\<lparr>wi_status := Stale, wi_updated_at := now\<rparr>) (worker_instances s)"
  show "mark_stale_instances ?ttl now (utc now) s
      = Inr (map wi_instance_id (filter (instance_silent ?ttl now) (worker_instances s)), s\<lparr>worker_instances := ?rows\<rparr>)"
    by (simp add: mark_stale_instances_def)
  show "length (map wi_instance_id (filter (instance_silent ?ttl now) (worker_instances s))) = length (silent_instances c now s)"
    by (simp add: silent_instances_def)
  show "filter (instance_silent ?ttl now) ?rows = []"
    by (auto simp: filter_empty_conv set_upd_where instance_silent_def)
qed

text \<open>Nothing is left to do: the pass, with whatever rows locked by others, changes nothing.\<close>

lemma idle_pass:
  assumes "0 \<le> sc_recover_limit c" and "expired_jobs now s = []" and "expired_tasks now s = []" and "silent_instances c now s = []"
  shows "run_maintenance c ej et now s
    = Inr (\<lparr>mr_recovered_leases = 0, mr_stale_instances = 0, mr_recovered_projection_leases = 0\<rparr>, s)"
proof -
  have "filter (\<lambda>j. job_expired now j \<and> j_job_id j \<notin> set l) (crawl_jobs s) = []"
    "filter (\<lambda>t. task_expired now t \<and> t_task_id t \<notin> set l) (projection_tasks s) = []" for l
    using assms(2,3) by (auto simp: expired_jobs_def expired_tasks_def filter_empty_conv)
  moreover have "upd_where (instance_silent (timedelta_seconds (sc_stale_after_seconds c)) now) f (worker_instances s) = worker_instances s" for f
    using assms(4) by (intro upd_where_none) (simp add: silent_instances_def filter_empty_conv)
  ultimately show ?thesis using assms(1,4)
    by (simp add: run_maintenance_def CRAWL_JOBS_def crawl_recover_expired_def recover_expired_leases_def PROJECTION_TASKS_def
        proj_recover_expired_def recover_expired_projection_leases_def mark_stale_instances_def silent_instances_def
        Let_def order_limit_def upd_selected_Nil)
qed


section \<open>A pass over the ticks\<close>

text \<open>What the course of a pass depends on: not the counters and not the database.\<close>

definition same_course :: "scheduler \<Rightarrow> sched_world \<Rightarrow> scheduler \<Rightarrow> sched_world \<Rightarrow> bool" where
  "same_course s w s' w' \<longleftrightarrow> sr_active s' = sr_active s \<and> sr_lease s' = sr_lease s \<and> sw_server w' = sw_server w
     \<and> sw_started w' = sw_started w"

lemma same_courseI: "sr_active s' = sr_active s \<Longrightarrow> sr_lease s' = sr_lease s \<Longrightarrow> sw_server w' = sw_server w
     \<Longrightarrow> sw_started w' = sw_started w \<Longrightarrow> same_course s w s' w'"
  by (simp add: same_course_def)

lemma lease_held_course:
  assumes "same_course s w s' w'" and "lease_held k r s w = (h, s1, w1)" and "lease_held k r s' w' = (h', s1', w1')"
  shows "h' = h \<and> same_course s1 w1 s1' w1'"
  using assms by (auto simp: same_course_def lease_held_def split: prod.splits)

lemma own_checks_course:
  "same_course s w s' w' \<Longrightarrow> own_checks k cs s w = (s1, w1) \<Longrightarrow> own_checks k cs s' w' = (s1', w1') \<Longrightarrow> same_course s1 w1 s1' w1'"
proof (induction cs arbitrary: s w s' w')
  case (Cons fr cs)
  obtain f r where fr: "fr = (f, r)" by fastforce
  have c: "same_course s (w\<lparr>sw_server := f (sw_server w)\<rparr>) s' (w'\<lparr>sw_server := f (sw_server w')\<rparr>)"
    using Cons.prems(1) by (simp add: same_course_def)
  obtain h s2 w2 h' s2' w2' where l: "lease_held k r s (w\<lparr>sw_server := f (sw_server w)\<rparr>) = (h, s2, w2)"
    "lease_held k r s' (w'\<lparr>sw_server := f (sw_server w')\<rparr>) = (h', s2', w2')" by (metis prod.collapse)
  then show ?case using Cons.IH [of s2 w2 s2' w2'] lease_held_course [OF c l] Cons.prems(2,3) by (simp add: fr)
qed simp

lemma own_checks_keep [simp]:
  "sr_active (fst (own_checks k cs s w)) = sr_active s" "sw_started (snd (own_checks k cs s w)) = sw_started w"
  by (induction cs arbitrary: s w) (auto simp: lease_held_def case_prod_beta)

lemma still_active_course:
  assumes "same_course s w s' w'" and "still_active k r s w = (h, s1, w1)" and "still_active k r s' w' = (h', s1', w1')"
  shows "h' = h \<and> same_course s1 w1 s1' w1'"
  using assms by (auto simp: same_course_def still_active_def lease_held_def split: prod.splits if_splits)

lemma start_tick_course:
  assumes c: "same_course s w s' w'" and a: "start_tick k x e s w = (s1, w1)" and b: "start_tick k x (e\<lparr>te_run := g\<rparr>) s' w' = (s1', w1')"
  shows "same_course s1 w1 s1' w1'"
proof -
  define M where "M cs s w = (if sd_name x = MAINTENANCE_TICK then (s, w) else own_checks k cs s w)" for cs and s :: scheduler and w :: sched_world
  obtain t v t' v' where m: "M (te_own_checks e) s w = (t, v)" "M (te_own_checks e) s' w' = (t', v')" by (metis prod.collapse)
  have "same_course t v t' v'" using m c own_checks_course [OF c] by (auto simp: M_def split: if_splits)
  then show ?thesis using a b m c
    by (auto simp: start_tick_def Let_def same_course_def simp flip: M_def split: prod.splits if_splits)
qed

lemma start_tick_keep:
  assumes "start_tick k x e s w = (s1, w1)"
  shows "sr_active s1 = sr_active s \<and> sw_started w1 = sw_started w @ [\<lparr>ts_name = sd_name x, ts_connection = lc_connection (sr_lease s), ts_server = sw_server w\<rparr>]"
  using assms by (auto simp: start_tick_def Let_def case_prod_beta split: if_splits)

text \<open>Two environments that differ only in what the coroutine of the tick does.\<close>

definition same_env :: "tick_env \<Rightarrow> tick_env \<Rightarrow> bool" where
  "same_env e e' \<longleftrightarrow> te_stop e' = te_stop e \<and> te_monotonic e' = te_monotonic e \<and> te_server e' = te_server e
     \<and> te_reply e' = te_reply e \<and> te_own_checks e' = te_own_checks e \<and> te_after e' = te_after e"

lemma same_env_eq: "same_env e e' \<Longrightarrow> e' = e\<lparr>te_run := te_run e'\<rparr>"
  by (simp add: same_env_def)

definition is_due :: "scheduled \<times> tick_env \<Rightarrow> bool" where
  "is_due p \<longleftrightarrow> \<not> te_monotonic (snd p) < sd_next_due (fst p)"

definition rescheduled :: "scheduled \<times> tick_env \<Rightarrow> scheduled" where
  "rescheduled p = (if is_due p then (fst p)\<lparr>sd_next_due := te_after (snd p) + sd_interval_seconds (fst p)\<rparr> else fst p)"

text \<open>The check before a due tick, and the pass after it.\<close>

definition before_tick :: "lock_key \<Rightarrow> scheduled \<Rightarrow> tick_env \<Rightarrow> scheduler \<Rightarrow> sched_world \<Rightarrow> bool \<times> scheduler \<times> sched_world" where
  "before_tick k x e s w =
     (if sd_name x \<noteq> MAINTENANCE_TICK then still_active k (te_reply e) s (w\<lparr>sw_server := te_server e (sw_server w)\<rparr>)
      else (True, s, w\<lparr>sw_server := te_server e (sw_server w)\<rparr>))"

lemma due_ticks_Cons:
  "due_ticks k ((x, e) # rest) s w =
     (if te_stop e \<or> \<not> sr_active s then (map fst ((x, e) # rest), s, w)
      else if \<not> is_due (x, e) then (x # fst (due_ticks k rest s w), snd (due_ticks k rest s w))
      else case before_tick k x e s w of (held, s1, w1) \<Rightarrow>
        if \<not> held then (map fst ((x, e) # rest), s1, w1)
        else case start_tick k x e s1 w1 of (s2, w2) \<Rightarrow>
          (rescheduled (x, e) # fst (due_ticks k rest s2 w2), snd (due_ticks k rest s2 w2)))"
  by (simp add: is_due_def before_tick_def rescheduled_def Let_def case_prod_beta del: fst_conv snd_conv cong: if_cong)
    (simp add: case_prod_beta)

lemma before_tick_course:
  assumes c: "same_course s w s' w'" and e: "same_env e e'"
    and a: "before_tick k x e s w = (h, s1, w1)" and b: "before_tick k x e' s' w' = (h', s1', w1')"
  shows "h' = h \<and> same_course s1 w1 s1' w1'"
proof -
  let ?w = "w\<lparr>sw_server := te_server e (sw_server w)\<rparr>" and ?w' = "w'\<lparr>sw_server := te_server e (sw_server w')\<rparr>"
  have c0: "same_course s ?w s' ?w'" using c by (simp add: same_course_def)
  have e': "te_server e' = te_server e" "te_reply e' = te_reply e" using e by (simp_all add: same_env_def)
  show ?thesis
  proof (cases "sd_name x = MAINTENANCE_TICK")
    case True
    then show ?thesis using a b c0 e' unfolding before_tick_def by simp
  next
    case False
    then have "still_active k (te_reply e) s ?w = (h, s1, w1)" "still_active k (te_reply e) s' ?w' = (h', s1', w1')"
      using a b e' unfolding before_tick_def by simp_all
    then show ?thesis by (rule still_active_course [OF c0])
  qed
qed

lemma before_tick_keep:
  assumes "before_tick k x e s w = (h, s1, w1)"
  shows "sw_started w1 = sw_started w" and "sr_active s1 = (h \<and> sr_active s)"
    and "h \<Longrightarrow> sd_name x \<noteq> MAINTENANCE_TICK \<Longrightarrow>
      \<exists>p. lc_connection (sr_lease s1) = Some p \<and> (k, p) \<in> set (sv_granted (sw_server w1))"
proof -
  show "sw_started w1 = sw_started w" "sr_active s1 = (h \<and> sr_active s)"
    using assms by (auto simp: before_tick_def still_active_def lease_held_def case_prod_beta split: if_splits)
  assume h: h "sd_name x \<noteq> MAINTENANCE_TICK"
  let ?w = "w\<lparr>sw_server := te_server e (sw_server w)\<rparr>"
  obtain b l sv where i: "is_held k (te_reply e) (sr_lease s) (sw_server ?w) = (b, l, sv)" by (metis prod.collapse)
  have r: "b" "s1 = s\<lparr>sr_lease := l\<rparr>" "w1 = ?w\<lparr>sw_server := sv\<rparr>"
    using assms h i by (auto simp: before_tick_def still_active_def lease_held_def split: if_splits)
  obtain p where p: "lc_connection (sr_lease s) = Some p" "(k, p) \<in> set (sv_granted (sw_server ?w))"
    using is_held_True [of k "te_reply e" "sr_lease s" "sw_server ?w" l sv] i r(1) by auto
  have "l = sr_lease s \<and> sv = sw_server ?w"
    using i r(1) p(1) by (auto simp: is_held_def ask_def lock_exists_def split: if_splits reply.splits)
  then show "\<exists>p. lc_connection (sr_lease s1) = Some p \<and> (k, p) \<in> set (sv_granted (sw_server w1))" using r p by simp
qed

lemma due_ticks_course:
  assumes "list_all2 (\<lambda>p p'. fst p' = fst p \<and> same_env (snd p) (snd p')) ps ps'"
  shows "same_course s w s' w' \<Longrightarrow> due_ticks k ps s w = (xs, s1, w1) \<Longrightarrow> due_ticks k ps' s' w' = (xs', s1', w1') \<Longrightarrow>
    xs' = xs \<and> same_course s1 w1 s1' w1'"
  using assms
proof (induction arbitrary: s w s' w' xs xs' s1 w1 s1' w1' rule: list_all2_induct)
  case Nil
  then show ?case by simp
next
  case (Cons p ps p' ps')
  obtain x e e' where pe: "p = (x, e)" "p' = (x, e')" and e: "same_env e e'"
    using Cons.hyps(1) by (cases p; cases p') auto
  have fsts: "map fst ps' = map fst ps" using Cons.hyps(2) by (induction rule: list_all2_induct) auto
  have act: "sr_active s' = sr_active s" using Cons.prems(1) by (simp add: same_course_def)
  have ee: "te_stop e' = te_stop e" "is_due (x, e') = is_due (x, e)" "rescheduled (x, e') = rescheduled (x, e)"
    using e by (simp_all add: same_env_def is_due_def rescheduled_def)
  note a = Cons.prems(2) [unfolded pe due_ticks_Cons] and b = Cons.prems(3) [unfolded pe due_ticks_Cons]
  have IH: "fst (due_ticks k ps' t' v') = fst (due_ticks k ps t v) \<and>
      same_course (fst (snd (due_ticks k ps t v))) (snd (snd (due_ticks k ps t v)))
                  (fst (snd (due_ticks k ps' t' v'))) (snd (snd (due_ticks k ps' t' v')))"
    if "same_course t v t' v'" for t v t' v'
    using Cons.IH [OF that] by (metis prod.collapse)
  consider (stop) "te_stop e \<or> \<not> sr_active s" | (wait) "\<not> te_stop e" "sr_active s" "\<not> is_due (x, e)"
    | (due) "\<not> te_stop e" "sr_active s" "is_due (x, e)" by blast
  then show ?case
  proof cases
    case stop
    then show ?thesis using a b ee act fsts Cons.prems(1) by auto
  next
    case wait
    then show ?thesis using a b ee act IH [OF Cons.prems(1)] by auto
  next
    case due
    obtain h t v h' t' v' where bt: "before_tick k x e s w = (h, t, v)" "before_tick k x e' s' w' = (h', t', v')"
      by (metis prod.collapse)
    have c: "h' = h \<and> same_course t v t' v'" by (rule before_tick_course [OF Cons.prems(1) e bt])
    show ?thesis
    proof (cases h)
      case False
      then show ?thesis using a b ee act due bt c fsts by auto
    next
      case True
      obtain t2 v2 t2' v2' where st: "start_tick k x e t v = (t2, v2)" "start_tick k x e' t' v' = (t2', v2')" by (metis prod.collapse)
      have "same_course t2 v2 t2' v2'"
        using start_tick_course [OF conjunct2 [OF c] st(1)] st(2) same_env_eq [OF e] by metis
      from IH [OF this] show ?thesis using a b ee act due bt c True st by auto
    qed
  qed
qed

lemma due_ticks_all:
  "due_ticks k ps s w = (xs, s', w') \<Longrightarrow> \<forall>p\<in>set ps. \<not> te_stop (snd p) \<Longrightarrow> sr_active s \<Longrightarrow> sr_active s' \<Longrightarrow>
    map ts_name (sw_started w') = map ts_name (sw_started w) @ map (sd_name \<circ> fst) (filter is_due ps) \<and> xs = map rescheduled ps"
proof (induction ps arbitrary: s w xs)
  case (Cons p ps)
  obtain x e where p: "p = (x, e)" by fastforce
  note a = Cons.prems(1) [unfolded p due_ticks_Cons]
  have go: "\<not> te_stop e" "\<forall>p\<in>set ps. \<not> te_stop (snd p)" using Cons.prems(2) by (simp_all add: p)
  show ?case
  proof (cases "is_due (x, e)")
    case False
    obtain ys where "due_ticks k ps s w = (ys, s', w')" "xs = x # ys"
      using a False go(1) Cons.prems(3) by (cases "due_ticks k ps s w") auto
    then show ?thesis using Cons.IH [OF _ go(2) Cons.prems(3,4), of w ys] False by (simp add: p rescheduled_def)
  next
    case True
    obtain h t v where bt: "before_tick k x e s w = (h, t, v)" by (metis prod.collapse)
    have h: h using a True go(1) Cons.prems(3,4) bt before_tick_keep(2) [OF bt] by (auto split: if_splits)
    obtain t2 v2 where st: "start_tick k x e t v = (t2, v2)" by fastforce
    obtain ys where "due_ticks k ps t2 v2 = (ys, s', w')" "xs = rescheduled (x, e) # ys"
      using a True go(1) Cons.prems(3) bt h st by (cases "due_ticks k ps t2 v2") auto
    moreover have "sr_active t2" using start_tick_keep [OF st] before_tick_keep(2) [OF bt] h Cons.prems(3) by simp
    ultimately show ?thesis
      using Cons.IH [OF _ go(2) _ Cons.prems(4), of t2 v2 ys] True start_tick_keep [OF st] before_tick_keep(1) [OF bt] by (simp add: p)
  qed
qed simp

definition leased_start :: "lock_key \<Rightarrow> tick_start \<Rightarrow> bool" where
  "leased_start k t \<longleftrightarrow> ts_name t = MAINTENANCE_TICK
     \<or> (case ts_connection t of None \<Rightarrow> False | Some p \<Rightarrow> (k, p) \<in> set (sv_granted (ts_server t)))"

lemma due_ticks_leased:
  "due_ticks k ps s w = (xs, s', w') \<Longrightarrow>
    \<exists>new n. sw_started w' = sw_started w @ new \<and> list_all (leased_start k) new
      \<and> map ts_name new = take n (map (sd_name \<circ> fst) (filter is_due ps))"
proof (induction ps arbitrary: s w xs)
  case Nil
  then show ?case by simp
next
  case (Cons p ps)
  obtain x e where p: "p = (x, e)" by fastforce
  note a = Cons.prems [unfolded p due_ticks_Cons]
  have none: ?case if "sw_started w' = sw_started w"
    using that by (intro exI [of _ "[]"] exI [of _ 0]) simp
  consider (stop) "te_stop e \<or> \<not> sr_active s" | (wait) "\<not> te_stop e" "sr_active s" "\<not> is_due (x, e)"
    | (due) "\<not> te_stop e" "sr_active s" "is_due (x, e)" by blast
  then show ?case
  proof cases
    case stop
    then show ?thesis using a none by auto
  next
    case wait
    obtain ys where "due_ticks k ps s w = (ys, s', w')" using a wait by (cases "due_ticks k ps s w") auto
    then show ?thesis using Cons.IH wait by (simp add: p)
  next
    case due
    obtain h t v where bt: "before_tick k x e s w = (h, t, v)" by (metis prod.collapse)
    show ?thesis
    proof (cases h)
      case False
      then show ?thesis using a due bt none before_tick_keep(1) [OF bt] by auto
    next
      case True
      obtain t2 v2 where st: "start_tick k x e t v = (t2, v2)" by fastforce
      obtain ys where "due_ticks k ps t2 v2 = (ys, s', w')" using a due bt True st by (cases "due_ticks k ps t2 v2") auto
      from Cons.IH [OF this] obtain new n where new: "sw_started w' = sw_started v2 @ new" "list_all (leased_start k) new"
        "map ts_name new = take n (map (sd_name \<circ> fst) (filter is_due ps))" by blast
      define entry where "entry = \<lparr>ts_name = sd_name x, ts_connection = lc_connection (sr_lease t), ts_server = sw_server v\<rparr>"
      have "leased_start k entry" using before_tick_keep(3) [OF bt True] by (cases "sd_name x = MAINTENANCE_TICK") (auto simp: leased_start_def entry_def)
      then show ?thesis using new start_tick_keep [OF st] before_tick_keep(1) [OF bt] due
        by (intro exI [of _ "entry # new"] exI [of _ "Suc n"]) (simp add: p entry_def o_def)
    qed
  qed
qed

definition tick_pairs :: "(nat \<Rightarrow> tick_env) \<Rightarrow> scheduler \<Rightarrow> (scheduled \<times> tick_env) list" where
  "tick_pairs env s = zip (sr_items s) (map env [0..<length (sr_items s)])"

text \<open>
  C39. A tick that fails stops nothing. Two passes over the ticks that differ only in what the ticks do,
  whether they return, raise or time out and what they leave in the database, start the same ticks,
  make them due again at the same times and keep the same lease. If no stop was requested and the
  scheduler is active at the beginning and at the end of the pass, then exactly the ticks that were due
  have been started, in their order, and each of them is due again one interval after it ended.
\<close>

theorem failing_ticks_stop_nothing:
  assumes "\<forall>i. same_env (env i) (env' i)"
    and "run_due_ticks k env s w = (s1, w1)" and "run_due_ticks k env' s w = (s2, w2)"
  shows "sr_items s2 = sr_items s1 \<and> sr_active s2 = sr_active s1 \<and> sr_lease s2 = sr_lease s1
    \<and> sw_server w2 = sw_server w1 \<and> sw_started w2 = sw_started w1
    \<and> ((\<forall>i. \<not> te_stop (env i)) \<and> sr_active s \<and> sr_active s1 \<longrightarrow>
        map ts_name (sw_started w1) = map ts_name (sw_started w) @ map (sd_name \<circ> fst) (filter is_due (tick_pairs env s))
        \<and> sr_items s1 = map rescheduled (tick_pairs env s))"
proof -
  obtain xs t v xs' t' v' where d: "due_ticks k (tick_pairs env s) s w = (xs, t, v)" "due_ticks k (tick_pairs env' s) s w = (xs', t', v')"
    by (metis prod.collapse)
  have r: "s1 = t\<lparr>sr_items := xs\<rparr>" "w1 = v" "s2 = t'\<lparr>sr_items := xs'\<rparr>" "w2 = v'"
    using assms(2,3) d by (auto simp: run_due_ticks_def tick_pairs_def)
  have "list_all2 (\<lambda>p p'. fst p' = fst p \<and> same_env (snd p) (snd p')) (tick_pairs env s) (tick_pairs env' s)"
    using assms(1) by (simp add: tick_pairs_def list_all2_conv_all_nth)
  from due_ticks_course [OF this _ d] have c: "xs' = xs" "same_course t v t' v'" by (auto simp: same_course_def)
  have "\<not> te_stop (snd p)" if "p \<in> set (tick_pairs env s)" "\<forall>i. \<not> te_stop (env i)" for p
    using that by (auto simp: tick_pairs_def set_zip)
  then show ?thesis using c due_ticks_all [OF d(1)] unfolding r by (simp add: same_course_def)
qed


text \<open>The pause of an active scheduler: never negative, never beyond the next due tick, never longer than \<open>tick_seconds\<close>.\<close>

lemma foldr_min_le: "foldr min ys (a :: rat) \<le> a" "y \<in> set ys \<Longrightarrow> foldr min ys a \<le> y"
  by (induction ys) (auto simp: min_le_iff_disj)

lemma pause_wakes_in_time:
  assumes "0 < sc_tick_seconds c" and "x \<in> set (sr_items s)"
  shows "0 \<le> until_next_due c now s" and "until_next_due c now s \<le> sc_tick_seconds c"
    and "now \<le> sd_next_due x \<Longrightarrow> now + until_next_due c now s \<le> sd_next_due x"
proof -
  define soonest where "soonest = foldr min (map sd_next_due (tl (sr_items s))) (sd_next_due (hd (sr_items s)))"
  have u: "until_next_due c now s = min (max (soonest - now) 0) (sc_tick_seconds c)"
    by (simp add: until_next_due_def soonest_def Let_def)
  have "soonest \<le> sd_next_due x" unfolding soonest_def using assms(2) foldr_min_le
    by (cases "sr_items s") auto
  then show "0 \<le> until_next_due c now s" "until_next_due c now s \<le> sc_tick_seconds c"
    "now \<le> sd_next_due x \<Longrightarrow> now + until_next_due c now s \<le> sd_next_due x"
    using assms(1) unfolding u by (auto simp: min_def max_def)
qed

section \<open>Witnesses\<close>

definition demo_scheduler_config :: scheduler_config where
  "demo_scheduler_config = \<lparr>sc_lease_name = ulit ''scheduler'', sc_tick_seconds = 5, sc_lease_retry_seconds = 5,
     sc_stale_after_seconds = 60, sc_recover_limit = 1000\<rparr>"

lemma scheduler_from_empty_env: "scheduler_from_env to_float to_int (\<lambda>_. None) = Inr demo_scheduler_config"
  by (simp add: scheduler_from_env_def env_text_def positive_float_def positive_int_def scheduler_post_init_def Let_def
      demo_scheduler_config_def ulit_def)

definition demo_call :: call_env where
  "demo_call = \<lparr>ce_locked = [], ce_dead_letter_id = 0, ce_audit_id = 0, ce_change_id = 0, ce_outbox_id = 0, ce_random = 0,
     ce_decode = (\<lambda>_. Inl DataError)\<rparr>"


text \<open>An active scheduler with its three ticks; the maintenance tick and the first domain tick fail.\<close>

definition demo_active :: scheduler where
  "demo_active = (scheduler_init demo_scheduler_config (take 2 DOMAIN_TICKS))
     \<lparr>sr_active := True, sr_lease := \<lparr>lc_connection = Some 5, lc_backend_pid = Some 5, lc_pool = []\<rparr>\<rparr>"

definition demo_sched_world :: sched_world where
  "demo_sched_world = \<lparr>sw_server = \<lparr>sv_live = [5], sv_granted = [(demo_lock, 5)], sv_fresh = 6\<rparr>, sw_db = empty_db, sw_started = []\<rparr>"

definition demo_tick_env :: "bool \<Rightarrow> tick_env" where
  "demo_tick_env returns = \<lparr>te_stop = False, te_monotonic = 10, te_server = id, te_reply = Answered, te_own_checks = [],
     te_run = (\<lambda>d. (d, returns)), te_after = 11\<rparr>"

lemmas tick_eval = run_due_ticks_def demo_active_def demo_sched_world_def demo_tick_env_def scheduler_init_def DOMAIN_TICKS_def
  schedule_domain_def MAINTENANCE_TICK_def start_tick_def still_active_def lease_held_def is_held_def ask_def lock_exists_def

theorem failing_ticks_stop_nothing_witness:
  "map ts_name (sw_started (snd (run_due_ticks demo_lock (\<lambda>i. demo_tick_env (i = 2)) demo_active demo_sched_world)))
     = [''maintenance'', ''projection.reconcile'', ''projection.compact'']
   \<and> sw_started (snd (run_due_ticks demo_lock (\<lambda>_. demo_tick_env True) demo_active demo_sched_world))
     = sw_started (snd (run_due_ticks demo_lock (\<lambda>i. demo_tick_env (i = 2)) demo_active demo_sched_world))"
proof -
  let ?env = "\<lambda>i :: nat. demo_tick_env (i = 2)"
  have e: "\<forall>i. same_env (?env i) (demo_tick_env True)" by (simp add: same_env_def demo_tick_env_def)
  note * = failing_ticks_stop_nothing [OF e surjective_pairing surjective_pairing, where k = demo_lock and s = demo_active and w = demo_sched_world]
  have a: "sr_active demo_active" "sw_started demo_sched_world = []" "\<forall>i. \<not> te_stop (?env i)"
    by (simp_all add: demo_active_def demo_sched_world_def demo_tick_env_def)
  have b: "sr_active (fst (run_due_ticks demo_lock ?env demo_active demo_sched_world))"
    by (simp add: tick_eval Let_def upt_rec numeral_eq_Suc)
  have "map (sd_name \<circ> fst) (filter is_due (tick_pairs ?env demo_active)) = [''maintenance'', ''projection.reconcile'', ''projection.compact'']"
    by (simp add: tick_eval tick_pairs_def is_due_def upt_rec numeral_eq_Suc)
  then show ?thesis using * a b by simp
qed


end
