(* ===== verification/Spec2Isabelle.thy ===== *)
theory Spec2Isabelle
  imports Limiter Crawl_Runs Pipeline Upload Segmenter Resolution Temporal Release Pools Sources Fencing Safe_Fetcher Scheduler
begin

text \<open>
  A verification development for the control plane of a web data collector (Python, under
  \<open>src/src/collector\<close>). The collector fetches pages of registered sources, keeps every body as a
  content-addressed artifact, parses it into normalized records, projects those into documents and
  publishes the changes; PostgreSQL holds the queues, leases, versions and audit records that keep
  many workers from stepping on each other. What is verified here is that logic: the repositories
  (\<open>persistence/postgres/repositories\<close>), the storage protocol (\<open>storage\<close>), the contract models
  with their own logic (\<open>contracts\<close>), the worker side (\<open>workers\<close>) and the HTML segmenter
  (\<open>translation/segmenter.py\<close>).

  \<^bold>\<open>How code becomes definitions.\<close> A table is a list of rows in \<open>Schema\<close>, one record per row class
  with the CHECK constraints as a Boolean function; the database is the record \<open>db\<close>. A repository
  function is a HOL function from its arguments and \<open>db\<close> to \<open>error + (result \<times> db)\<close>: \<open>Inl\<close> is the
  exception, after which the caller's transaction is rolled back, \<open>Inr\<close> the result and the database
  after the commit. One call is one transaction, and a run (\<open>run_ops\<close>) is any sequence of calls of
  any callers in which the failing ones change nothing. Where the code reads under
  \<open>FOR UPDATE SKIP LOCKED\<close>, the rows that another transaction has locked are an argument. The wall
  clock, UUIDs, random numbers, SHA-256, the S3 client, the HTML parser and the iteration order of sets
  are arguments; timestamps are microseconds, \<open>Decimal\<close> and float values exact rationals (or integers
  of the smallest unit where the column is \<open>NUMERIC\<close>).

  \<^bold>\<open>The theories.\<close>
  \<^item> \<open>Collector_Prelude\<close>: errors as values, SQL on lists of rows, rounding, \<open>run_ops\<close> and the locales
    \<open>invariant_system\<close> (an invariant of every run) and \<open>bounded_growth\<close> (a level that each
    operation raises by at most its cost). \<open>Clock\<close>, \<open>Schema\<close>, \<open>Audit_Log\<close>, \<open>Backoff\<close>: shared parts.
  \<^item> \<open>Lease_Contract\<close>: the lease protocol as a step relation per row and the locale \<open>lease_protocol\<close>,
    interpreted by the job queue and by the projection queue.
  \<^item> \<open>Job_Queue\<close> (\<open>repositories/queue.py\<close>) and \<open>Crawl_Runs\<close>: invariant, exact order of claims, fencing
    by lease owner, terminal states, idempotent enqueue, budget of attempts, retry outcome.
  \<^item> \<open>Limiter\<close> (\<open>repositories/limiter.py\<close>): concurrency and rate are never exceeded over any run, exact
    decision of \<open>acquire_permit\<close>, sufficiency of \<open>retry_after\<close>.
  \<^item> \<open>Outbox\<close>, \<open>Projection\<close>, \<open>Entities\<close>, \<open>Pipeline\<close>: gap-free versions, monotone confirmed versions,
    acknowledgements, bounded deliveries, events kept until they are no longer needed, and the two
    repositories run together.
  \<^item> \<open>Artifacts\<close>, \<open>Object_Store\<close>, \<open>Upload\<close>: upload claims with generations, the S3 store as a refinement
    of the in-memory store, and the uploader and the orphan sweeper as interleaved programs of steps.
  \<^item> \<open>Contracts\<close>, \<open>Resolution\<close>, \<open>Temporal\<close>, \<open>Release\<close>: validators, the replay of resolution decisions as a
    refinement of a one-map specification, bitemporal intervals against their as-of reading, and the
    state machine of releases.
  \<^item> \<open>Segmenter\<close>: the parser callbacks as a state machine; cutting and reassembling is the identity.
  \<^item> \<open>Pools\<close> (\<open>repositories/pools.py\<close>) and \<open>Sources\<close> (\<open>repositories/sources.py\<close>): optimistic revisions,
    instances and scale commands, policies, circuit breakers, cursors and their audit trail.
  \<^item> \<open>Worker_Config\<close> (\<open>workers/config.py\<close>, \<open>handlers.py\<close>, \<open>roles.py\<close>) and \<open>Backends\<close> (\<open>workers/backends.py\<close>):
    configuration, results of handlers, and the two queues behind one interface. The locale
    \<open>lease_backend\<close> states what a worker may rely on; both queues interpret it.
  \<^item> \<open>Runtime\<close> (\<open>workers/runtime.py\<close>): one worker process, a coroutine split at its awaits. Reports
    contain every error, deferrals are bounded, the round robin starves no queue. The locale
    \<open>worker_queue\<close> extends \<open>lease_backend\<close> with what the steps of a worker do to the leases.
  \<^item> \<open>Fencing\<close>: many workers, maintenance and other clients over one database in time, as a step
    relation. No job runs in two processes when the watchdog is at most \<open>W\<close> seconds late, a transaction
    takes at most \<open>D\<close> seconds and \<open>fence_after + W + 3 * D < lease_seconds\<close>; the default windows do not
    satisfy that inequality, and a run in which a job runs twice is given for them. All clocks
    are one clock there, and a cancelled handler stops at once.
  \<^item> \<open>Addresses\<close> (\<open>fetch/ssrf.py\<close>), \<open>Fetch_Body\<close> (\<open>fetch/decoding.py\<close>), \<open>Fetch_Rules\<close> (\<open>fetch/classify.py\<close>, \<open>urls.py\<close>,
    \<open>guard.py\<close>, \<open>robots.py\<close>) and \<open>Safe_Fetcher\<close> (\<open>fetch/client.py\<close>, \<open>permits.py\<close>, \<open>transport.py\<close>): which addresses and
    hosts may be reached, limits on bodies, the denylist, and one fetch with its redirects over the
    limiter. Every connection is guarded, pinned and covered by a permit, and every permit is given back.
    \<open>urllib.parse\<close>, \<open>idna\<close>, the decoders, DNS and the servers are arguments.
  \<^item> \<open>Advisory\<close> (\<open>workers/advisory.py\<close>) and \<open>Scheduler\<close> (\<open>workers/scheduler.py\<close>, the scheduler's parts of \<open>config.py\<close>
    and \<open>registry.py\<close>): the advisory lock of PostgreSQL with sessions that fail and end, held by at most
    one process and free after a release unless an attempt lost track of its grant (a run in which that
    happens is given); a maintenance pass catches up with expired leases and is idempotent; a failing
    tick stops no other, and a domain tick starts only under the lease. The bodies of the domain
    ticks are arguments.

  \<^bold>\<open>Bounds and fuel.\<close> Loops are structural recursions over the data they walk. The two exceptions have a
  bound that is proved to be enough: the rounds of \<open>effective_decisions\<close> (the code itself limits them to
  the number of decisions plus one) and \<open>decimal_digits\<close>, whose fuel is the number plus one. The upload
  loop is a program with a decreasing measure.

  \<^bold>\<open>Not modelled.\<close> Widths of text columns, and the foreign keys of jobs and fetches to sources;
  transactions that wait for each other inside one call (each call is atomic, as its row locks make it);
  SQLAlchemy's identity map; logging and metrics. Left out as input and output or glue: the command
  line, the API, MongoDB set-up, database roles and migrations. Not yet modelled: the fetch handler
  (\<open>fetch/handler.py\<close>), the rest of the translation pipeline and the remaining document contracts.
\<close>

end
